(* ===== verification/Prelude.thy ===== *)
theory Prelude
  imports Main "HOL-Library.Word"
begin

text \<open>
  Shared vocabulary of the development: the C integer types and byte strings, outcomes of
  fallible operations on a mutable object, \<open>size_t\<close> arithmetic with its wrap-around written
  out, reads and writes of memory blocks, and the big-endian accessors of \<open>sshbuf.h\<close>.
  The collections declared here carry the proofs of the components:
  \<open>outcome_simps\<close> (sequencing of fallible steps), \<open>size_simps\<close> (removal of wrap-around
  under bounds) and \<open>mem_simps\<close> (reads after writes).
\<close>

unbundle bit_operations_syntax

named_theorems outcome_simps
named_theorems size_simps
named_theorems mem_simps

section \<open>C integer types and byte strings\<close>

type_synonym byte = "8 word"
type_synonym u16 = "16 word"
type_synonym u32 = "32 word"
type_synonym u64 = "64 word"
type_synonym bytes = "byte list"

text \<open>
  A C function that may fail after having changed the object it works on: the error or the
  value, together with the object as the call leaves it. \<open>rbind\<close> sequences two such calls and
  is the shape of the code's \<open>if ((r = f(..)) != 0) return r;\<close>.
\<close>

type_synonym ('e, 's, 'a) outcome = "('e + 'a) \<times> 's"

definition rbind :: "('e, 's, 'a) outcome \<Rightarrow> ('a \<Rightarrow> 's \<Rightarrow> ('e, 's, 'b) outcome) \<Rightarrow> ('e, 's, 'b) outcome" where
  "rbind m f = (case m of (Inl e, s) \<Rightarrow> (Inl e, s) | (Inr x, s) \<Rightarrow> f x s)"

lemma rbind_simps [simp, outcome_simps]:
  "rbind (Inl e, s) f = (Inl e, s)"
  "rbind (Inr x, s) f = f x s"
  by (simp_all add: rbind_def)

lemma rbind_InrE:
  assumes "rbind m f = (Inr y, t)"
  obtains x s where "m = (Inr x, s)" and "f x s = (Inr y, t)"
  using assms by (cases m) (auto simp: rbind_def split: sum.splits)

lemma rbind_eq_Inr_iff:
  "rbind m f = (Inr y, t) \<longleftrightarrow> (\<exists>x s. m = (Inr x, s) \<and> f x s = (Inr y, t))"
  by (cases m) (auto simp: rbind_def split: sum.splits)

lemma rbind_assoc: "rbind (rbind m f) g = rbind m (\<lambda>x s. rbind (f x s) g)"
  by (cases m) (auto simp: rbind_def split: sum.splits)

text \<open>A property of the state that every step keeps is kept by the sequence.\<close>

lemma rbind_invariant:
  assumes "P (snd m)" and "\<And>x s. m = (Inr x, s) \<Longrightarrow> P s \<Longrightarrow> P (snd (f x s))"
  shows "P (snd (rbind m f))"
  using assms by (cases m) (auto simp: rbind_def split: sum.splits)

section \<open>size_t\<close>

definition SIZE_MAX :: nat where
  "SIZE_MAX = 2 ^ 64 - 1"

definition szadd :: "nat \<Rightarrow> nat \<Rightarrow> nat" where
  "szadd a b = (a + b) mod 2 ^ 64"

definition szsub :: "nat \<Rightarrow> nat \<Rightarrow> nat" where
  "szsub a b = (a + (2 ^ 64 - b mod 2 ^ 64)) mod 2 ^ 64"

definition szmul :: "nat \<Rightarrow> nat \<Rightarrow> nat" where
  "szmul a b = (a * b) mod 2 ^ 64"

text \<open>\<open>#define ROUNDUP(x, y) ((((x)+((y)-1))/(y))*(y))\<close>\<close>

definition ROUNDUP :: "nat \<Rightarrow> nat \<Rightarrow> nat" where
  "ROUNDUP x y = szmul (szadd x (szsub y 1) div y) y"

lemma szadd_exact [size_simps]: "a + b < 2 ^ 64 \<Longrightarrow> szadd a b = a + b"
  by (simp add: szadd_def)

lemma szadd_zero [simp]: "a < 2 ^ 64 \<Longrightarrow> szadd a 0 = a" "b < 2 ^ 64 \<Longrightarrow> szadd 0 b = b"
  by (simp_all add: szadd_def)

lemma szsub_exact [size_simps]:
  assumes "b \<le> a" and "a < 2 ^ 64"
  shows "szsub a b = a - b"
proof -
  have "a + (2 ^ 64 - b mod 2 ^ 64) = (a - b) + 2 ^ 64" using assms by simp
  then have "szsub a b = ((a - b) + 2 ^ 64) mod 2 ^ 64" by (simp only: szsub_def)
  also have "\<dots> = a - b" using assms by (simp only: mod_add_self2) simp
  finally show ?thesis .
qed

lemma szmul_exact [size_simps]: "a * b < 2 ^ 64 \<Longrightarrow> szmul a b = a * b"
  by (simp add: szmul_def)

lemma szadd_less: "szadd a b < 2 ^ 64"
  by (simp add: szadd_def)

lemma ROUNDUP_exact:
  assumes "0 < y" and "x + y < 2 ^ 63"
  shows "ROUNDUP x y = ((x + (y - 1)) div y) * y"
proof -
  have s: "szsub y 1 = y - 1" using assms by (intro szsub_exact) auto
  have a: "szadd x (y - 1) = x + (y - 1)" using assms by (intro szadd_exact) auto
  have "((x + (y - 1)) div y) * y \<le> x + (y - 1)" by (simp add: div_times_less_eq_dividend)
  also have "\<dots> < 2 ^ 64" using assms by simp
  finally show ?thesis unfolding ROUNDUP_def s a by (rule szmul_exact)
qed

lemma ROUNDUP_ge:
  assumes "0 < y" and "x + y < 2 ^ 63"
  shows "x \<le> ROUNDUP x y"
proof -
  have "x + (y - 1) < ((x + (y - 1)) div y) * y + y"
    using dividend_less_div_times [OF assms(1), of "x + (y - 1)"] by simp
  then show ?thesis using assms by (simp add: ROUNDUP_exact)
qed

lemma ROUNDUP_less:
  assumes "0 < y" and "x + y < 2 ^ 63"
  shows "ROUNDUP x y < x + y"
proof -
  have "((x + (y - 1)) div y) * y \<le> x + (y - 1)" by (simp add: div_times_less_eq_dividend)
  then show ?thesis using assms(1) unfolding ROUNDUP_exact [OF assms] by linarith
qed

lemma ROUNDUP_dvd: "0 < y \<Longrightarrow> x + y < 2 ^ 63 \<Longrightarrow> y dvd ROUNDUP x y"
  by (simp add: ROUNDUP_exact)

section \<open>Memory blocks\<close>

text \<open>
  A block of memory is the list of its bytes. \<open>mem_write off bs m\<close> is \<open>memcpy(m + off, bs, n)\<close>
  for the \<open>n\<close> bytes \<open>bs\<close>, \<open>mem_read off n m\<close> the bytes a reader of \<open>n\<close> bytes at \<open>m + off\<close>
  sees. Every use of them in the model stays within the block.
\<close>

definition mem_write :: "nat \<Rightarrow> 'a list \<Rightarrow> 'a list \<Rightarrow> 'a list" where
  "mem_write off bs m = take off m @ bs @ drop (off + length bs) m"

definition mem_read :: "nat \<Rightarrow> nat \<Rightarrow> 'a list \<Rightarrow> 'a list" where
  "mem_read off n m = take n (drop off m)"

lemma length_mem_write [simp, mem_simps]:
  "off + length bs \<le> length m \<Longrightarrow> length (mem_write off bs m) = length m"
  by (simp add: mem_write_def)

lemma length_mem_read [simp, mem_simps]:
  "off + n \<le> length m \<Longrightarrow> length (mem_read off n m) = n"
  by (simp add: mem_read_def)

lemma mem_write_Nil [simp]: "mem_write off [] m = m"
  by (simp add: mem_write_def)

lemma mem_read_0 [simp]: "mem_read off 0 m = []"
  by (simp add: mem_read_def)

lemma mem_read_write_same [mem_simps]:
  "off + length bs \<le> length m \<Longrightarrow> mem_read off (length bs) (mem_write off bs m) = bs"
  by (simp add: mem_write_def mem_read_def)

lemma mem_read_write_below [mem_simps]:
  assumes "off + n \<le> woff" and "woff + length bs \<le> length m"
  shows "mem_read off n (mem_write woff bs m) = mem_read off n m"
  using assms by (simp add: mem_write_def mem_read_def take_drop)

lemma mem_read_split:
  "mem_read off (n + k) m = mem_read off n m @ mem_read (off + n) k m"
  by (simp add: mem_read_def take_add drop_drop) (simp add: add.commute)

lemma mem_read_extends [mem_simps]:
  assumes "off \<le> hi" and "hi + length bs \<le> length m"
  shows "mem_read off (hi + length bs - off) (mem_write hi bs m)
       = mem_read off (hi - off) m @ bs"
proof -
  have "hi + length bs - off = (hi - off) + length bs" using assms by simp
  then have "mem_read off (hi + length bs - off) (mem_write hi bs m) =
      mem_read off (hi - off) (mem_write hi bs m) @ mem_read hi (length bs) (mem_write hi bs m)"
    using assms(1) mem_read_split [of off "hi - off" "length bs" "mem_write hi bs m"]
    by simp
  then show ?thesis
    using assms mem_read_write_below [of off "hi - off" hi bs m] mem_read_write_same [of hi bs m]
    by simp
qed

lemma nth_mem_write:
  "off + length bs \<le> length m \<Longrightarrow> k < length m \<Longrightarrow>
    mem_write off bs m ! k = (if off \<le> k \<and> k < off + length bs then bs ! (k - off) else m ! k)"
  by (auto simp: mem_write_def nth_append)

lemma take_mem_read: "take k (mem_read off n m) = mem_read off (min k n) m"
  by (simp add: mem_read_def)

lemma drop_mem_read: "drop k (mem_read off n m) = mem_read (off + k) (n - k) m"
  by (simp add: mem_read_def drop_take add.commute)

section \<open>Big-endian integers: PEEK and POKE of sshbuf.h\<close>

definition PEEK_U64 :: "bytes \<Rightarrow> u64" where
  "PEEK_U64 p = (push_bit 56 (ucast (p ! 0)) OR push_bit 48 (ucast (p ! 1)) OR
     push_bit 40 (ucast (p ! 2)) OR push_bit 32 (ucast (p ! 3)) OR
     push_bit 24 (ucast (p ! 4)) OR push_bit 16 (ucast (p ! 5)) OR
     push_bit 8 (ucast (p ! 6)) OR ucast (p ! 7))"

definition PEEK_U32 :: "bytes \<Rightarrow> u32" where
  "PEEK_U32 p = (push_bit 24 (ucast (p ! 0)) OR push_bit 16 (ucast (p ! 1)) OR
     push_bit 8 (ucast (p ! 2)) OR ucast (p ! 3))"

definition PEEK_U16 :: "bytes \<Rightarrow> u16" where
  "PEEK_U16 p = (push_bit 8 (ucast (p ! 0)) OR ucast (p ! 1))"

definition POKE_U64 :: "u64 \<Rightarrow> bytes" where
  "POKE_U64 v = map (\<lambda>k. ucast (drop_bit k v AND 0xff)) [56, 48, 40, 32, 24, 16, 8, 0]"

definition POKE_U32 :: "u32 \<Rightarrow> bytes" where
  "POKE_U32 v = map (\<lambda>k. ucast (drop_bit k v AND 0xff)) [24, 16, 8, 0]"

definition POKE_U16 :: "u16 \<Rightarrow> bytes" where
  "POKE_U16 v = map (\<lambda>k. ucast (drop_bit k v AND 0xff)) [8, 0]"

lemma length_POKE [simp]:
  "length (POKE_U64 v) = 8" "length (POKE_U32 w) = 4" "length (POKE_U16 h) = 2"
  by (simp_all add: POKE_U64_def POKE_U32_def POKE_U16_def)

lemma ucast_byte_mask [simp]: "(ucast (w AND 0xff) :: byte) = ucast w" for w :: "'a::len word"
proof (rule bit_word_eqI)
  fix n assume n: "n < LENGTH(8)"
  have m: "(0xff :: 'a word) = mask 8" by (simp add: mask_eq_exp_minus_1)
  show "bit (ucast (w AND 0xff) :: byte) n = bit (ucast w :: byte) n"
    using n unfolding m by (auto simp: bit_unsigned_iff bit_and_iff bit_mask_iff dest: bit_imp_le_length)
qed

lemma PEEK_POKE_U16 [simp]: "PEEK_U16 (POKE_U16 v @ xs) = v"
proof (rule bit_word_eqI)
  fix n assume "n < LENGTH(16)"
  then consider "n < 8" | "8 \<le> n" "n < 16" by fastforce
  then show "bit (PEEK_U16 (POKE_U16 v @ xs)) n = bit v n"
    by cases (simp_all add: PEEK_U16_def POKE_U16_def bit_simps less_diff_conv2)
qed

lemma PEEK_POKE_U32 [simp]: "PEEK_U32 (POKE_U32 v @ xs) = v"
proof (rule bit_word_eqI)
  fix n assume "n < LENGTH(32)"
  then consider "n < 8" | "8 \<le> n" "n < 16" | "16 \<le> n" "n < 24" | "24 \<le> n" "n < 32"
    by fastforce
  then show "bit (PEEK_U32 (POKE_U32 v @ xs)) n = bit v n"
    by cases (simp_all add: PEEK_U32_def POKE_U32_def bit_simps less_diff_conv2)
qed

lemma PEEK_POKE_U64 [simp]: "PEEK_U64 (POKE_U64 v @ xs) = v"
proof (rule bit_word_eqI)
  fix n assume "n < LENGTH(64)"
  then consider "n < 8" | "8 \<le> n" "n < 16" | "16 \<le> n" "n < 24" | "24 \<le> n" "n < 32"
    | "32 \<le> n" "n < 40" | "40 \<le> n" "n < 48" | "48 \<le> n" "n < 56" | "56 \<le> n" "n < 64"
    by fastforce
  then show "bit (PEEK_U64 (POKE_U64 v @ xs)) n = bit v n"
    by cases (simp_all add: PEEK_U64_def POKE_U64_def bit_simps less_diff_conv2)
qed

lemma PEEK_U32_take [simp]: "PEEK_U32 (take 4 p) = PEEK_U32 p"
  by (simp add: PEEK_U32_def)

lemma POKE_PEEK_U32: "4 \<le> length p \<Longrightarrow> POKE_U32 (PEEK_U32 p) = take 4 p"
proof -
  assume "4 \<le> length p"
  then obtain a b c d q where p: "p = a # b # c # d # q"
    by (auto simp: Suc_le_length_iff eval_nat_numeral)
  have "POKE_U32 (PEEK_U32 [a, b, c, d]) ! i = [a, b, c, d] ! i" if "i < 4" for i
  proof (rule bit_word_eqI)
    fix n assume n: "n < LENGTH(8)"
    from that consider "i = 0" | "i = 1" | "i = 2" | "i = 3" by linarith
    then show "bit (POKE_U32 (PEEK_U32 [a, b, c, d]) ! i) n = bit ([a, b, c, d] ! i) n"
      using n
      by cases (simp_all add: PEEK_U32_def POKE_U32_def bit_simps numeral_2_eq_2 numeral_3_eq_3
          less_diff_conv2, auto dest: bit_imp_le_length)
  qed
  then have "POKE_U32 (PEEK_U32 [a, b, c, d]) = [a, b, c, d]"
    by (intro nth_equalityI) simp_all
  moreover have "PEEK_U32 p = PEEK_U32 [a, b, c, d]" by (simp add: PEEK_U32_def p)
  ultimately show "POKE_U32 (PEEK_U32 p) = take 4 p" by (simp add: p)
qed

section \<open>Invariants of transition systems\<close>

text \<open>
  An invariant that holds initially and is kept by every step holds in all reachable states.
\<close>

locale transition_invariant =
  fixes init :: "'s \<Rightarrow> bool"
    and step :: "'s \<Rightarrow> 's \<Rightarrow> bool"
    and inv :: "'s \<Rightarrow> bool"
  assumes init_inv: "init s \<Longrightarrow> inv s"
    and step_inv: "inv s \<Longrightarrow> step s t \<Longrightarrow> inv t"
begin

lemma reachable_inv:
  assumes "step\<^sup>*\<^sup>* s t" and "init s"
  shows "inv t"
  using assms by (induction rule: rtranclp_induct) (auto intro: init_inv step_inv)

lemma steps_inv:
  assumes "step\<^sup>*\<^sup>* s t" and "inv s"
  shows "inv t"
  using assms by (induction rule: rtranclp_induct) (auto intro: step_inv)

end

end
