(* ===== verification/Ssherr.thy ===== *)
theory Ssherr
  imports Main
begin

text \<open>
  The error codes of \<open>ssherr.h\<close> as a datatype, their numbers, and the message table
  \<open>ssh_err\<close> of \<open>ssherr.c\<close>. A C function that returns one of these codes is modelled by
  an outcome whose error type is \<open>ssherr\<close>; \<open>SSH_ERR_SUCCESS\<close> (0) is the success
  branch of the outcome.
\<close>

datatype (plugins only: code) ssherr =
    SSH_ERR_INTERNAL_ERROR
  | SSH_ERR_ALLOC_FAIL
  | SSH_ERR_MESSAGE_INCOMPLETE
  | SSH_ERR_INVALID_FORMAT
  | SSH_ERR_BIGNUM_IS_NEGATIVE
  | SSH_ERR_STRING_TOO_LARGE
  | SSH_ERR_BIGNUM_TOO_LARGE
  | SSH_ERR_ECPOINT_TOO_LARGE
  | SSH_ERR_NO_BUFFER_SPACE
  | SSH_ERR_INVALID_ARGUMENT
  | SSH_ERR_KEY_BITS_MISMATCH
  | SSH_ERR_EC_CURVE_INVALID
  | SSH_ERR_KEY_TYPE_MISMATCH
  | SSH_ERR_KEY_TYPE_UNKNOWN
  | SSH_ERR_EC_CURVE_MISMATCH
  | SSH_ERR_EXPECTED_CERT
  | SSH_ERR_KEY_LACKS_CERTBLOB
  | SSH_ERR_KEY_CERT_UNKNOWN_TYPE
  | SSH_ERR_KEY_CERT_INVALID_SIGN_KEY
  | SSH_ERR_KEY_INVALID_EC_VALUE
  | SSH_ERR_SIGNATURE_INVALID
  | SSH_ERR_LIBCRYPTO_ERROR
  | SSH_ERR_UNEXPECTED_TRAILING_DATA
  | SSH_ERR_SYSTEM_ERROR
  | SSH_ERR_KEY_CERT_INVALID
  | SSH_ERR_AGENT_COMMUNICATION
  | SSH_ERR_AGENT_FAILURE
  | SSH_ERR_DH_GEX_OUT_OF_RANGE
  | SSH_ERR_DISCONNECTED
  | SSH_ERR_MAC_INVALID
  | SSH_ERR_NO_CIPHER_ALG_MATCH
  | SSH_ERR_NO_MAC_ALG_MATCH
  | SSH_ERR_NO_COMPRESS_ALG_MATCH
  | SSH_ERR_NO_KEX_ALG_MATCH
  | SSH_ERR_NO_HOSTKEY_ALG_MATCH
  | SSH_ERR_NO_HOSTKEY_LOADED
  | SSH_ERR_PROTOCOL_MISMATCH
  | SSH_ERR_NO_PROTOCOL_VERSION
  | SSH_ERR_NEED_REKEY
  | SSH_ERR_PASSPHRASE_TOO_SHORT
  | SSH_ERR_FILE_CHANGED
  | SSH_ERR_KEY_UNKNOWN_CIPHER
  | SSH_ERR_KEY_WRONG_PASSPHRASE
  | SSH_ERR_KEY_BAD_PERMISSIONS
  | SSH_ERR_KEY_CERT_MISMATCH
  | SSH_ERR_KEY_NOT_FOUND
  | SSH_ERR_AGENT_NOT_PRESENT
  | SSH_ERR_AGENT_NO_IDENTITIES
  | SSH_ERR_BUFFER_READ_ONLY
  | SSH_ERR_KRL_BAD_MAGIC
  | SSH_ERR_KEY_REVOKED
  | SSH_ERR_CONN_CLOSED
  | SSH_ERR_CONN_TIMEOUT
  | SSH_ERR_CONN_CORRUPT
  | SSH_ERR_PROTOCOL_ERROR

primrec ssherr_code :: "ssherr \<Rightarrow> int" where
  "ssherr_code SSH_ERR_INTERNAL_ERROR = -1"
| "ssherr_code SSH_ERR_ALLOC_FAIL = -2"
| "ssherr_code SSH_ERR_MESSAGE_INCOMPLETE = -3"
| "ssherr_code SSH_ERR_INVALID_FORMAT = -4"
| "ssherr_code SSH_ERR_BIGNUM_IS_NEGATIVE = -5"
| "ssherr_code SSH_ERR_STRING_TOO_LARGE = -6"
| "ssherr_code SSH_ERR_BIGNUM_TOO_LARGE = -7"
| "ssherr_code SSH_ERR_ECPOINT_TOO_LARGE = -8"
| "ssherr_code SSH_ERR_NO_BUFFER_SPACE = -9"
| "ssherr_code SSH_ERR_INVALID_ARGUMENT = -10"
| "ssherr_code SSH_ERR_KEY_BITS_MISMATCH = -11"
| "ssherr_code SSH_ERR_EC_CURVE_INVALID = -12"
| "ssherr_code SSH_ERR_KEY_TYPE_MISMATCH = -13"
| "ssherr_code SSH_ERR_KEY_TYPE_UNKNOWN = -14"
| "ssherr_code SSH_ERR_EC_CURVE_MISMATCH = -15"
| "ssherr_code SSH_ERR_EXPECTED_CERT = -16"
| "ssherr_code SSH_ERR_KEY_LACKS_CERTBLOB = -17"
| "ssherr_code SSH_ERR_KEY_CERT_UNKNOWN_TYPE = -18"
| "ssherr_code SSH_ERR_KEY_CERT_INVALID_SIGN_KEY = -19"
| "ssherr_code SSH_ERR_KEY_INVALID_EC_VALUE = -20"
| "ssherr_code SSH_ERR_SIGNATURE_INVALID = -21"
| "ssherr_code SSH_ERR_LIBCRYPTO_ERROR = -22"
| "ssherr_code SSH_ERR_UNEXPECTED_TRAILING_DATA = -23"
| "ssherr_code SSH_ERR_SYSTEM_ERROR = -24"
| "ssherr_code SSH_ERR_KEY_CERT_INVALID = -25"
| "ssherr_code SSH_ERR_AGENT_COMMUNICATION = -26"
| "ssherr_code SSH_ERR_AGENT_FAILURE = -27"
| "ssherr_code SSH_ERR_DH_GEX_OUT_OF_RANGE = -28"
| "ssherr_code SSH_ERR_DISCONNECTED = -29"
| "ssherr_code SSH_ERR_MAC_INVALID = -30"
| "ssherr_code SSH_ERR_NO_CIPHER_ALG_MATCH = -31"
| "ssherr_code SSH_ERR_NO_MAC_ALG_MATCH = -32"
| "ssherr_code SSH_ERR_NO_COMPRESS_ALG_MATCH = -33"
| "ssherr_code SSH_ERR_NO_KEX_ALG_MATCH = -34"
| "ssherr_code SSH_ERR_NO_HOSTKEY_ALG_MATCH = -35"
| "ssherr_code SSH_ERR_NO_HOSTKEY_LOADED = -36"
| "ssherr_code SSH_ERR_PROTOCOL_MISMATCH = -37"
| "ssherr_code SSH_ERR_NO_PROTOCOL_VERSION = -38"
| "ssherr_code SSH_ERR_NEED_REKEY = -39"
| "ssherr_code SSH_ERR_PASSPHRASE_TOO_SHORT = -40"
| "ssherr_code SSH_ERR_FILE_CHANGED = -41"
| "ssherr_code SSH_ERR_KEY_UNKNOWN_CIPHER = -42"
| "ssherr_code SSH_ERR_KEY_WRONG_PASSPHRASE = -43"
| "ssherr_code SSH_ERR_KEY_BAD_PERMISSIONS = -44"
| "ssherr_code SSH_ERR_KEY_CERT_MISMATCH = -45"
| "ssherr_code SSH_ERR_KEY_NOT_FOUND = -46"
| "ssherr_code SSH_ERR_AGENT_NOT_PRESENT = -47"
| "ssherr_code SSH_ERR_AGENT_NO_IDENTITIES = -48"
| "ssherr_code SSH_ERR_BUFFER_READ_ONLY = -49"
| "ssherr_code SSH_ERR_KRL_BAD_MAGIC = -50"
| "ssherr_code SSH_ERR_KEY_REVOKED = -51"
| "ssherr_code SSH_ERR_CONN_CLOSED = -52"
| "ssherr_code SSH_ERR_CONN_TIMEOUT = -53"
| "ssherr_code SSH_ERR_CONN_CORRUPT = -54"
| "ssherr_code SSH_ERR_PROTOCOL_ERROR = -55"

definition all_ssherr :: "ssherr list" where
  "all_ssherr = [
     SSH_ERR_INTERNAL_ERROR,
     SSH_ERR_ALLOC_FAIL,
     SSH_ERR_MESSAGE_INCOMPLETE,
     SSH_ERR_INVALID_FORMAT,
     SSH_ERR_BIGNUM_IS_NEGATIVE,
     SSH_ERR_STRING_TOO_LARGE,
     SSH_ERR_BIGNUM_TOO_LARGE,
     SSH_ERR_ECPOINT_TOO_LARGE,
     SSH_ERR_NO_BUFFER_SPACE,
     SSH_ERR_INVALID_ARGUMENT,
     SSH_ERR_KEY_BITS_MISMATCH,
     SSH_ERR_EC_CURVE_INVALID,
     SSH_ERR_KEY_TYPE_MISMATCH,
     SSH_ERR_KEY_TYPE_UNKNOWN,
     SSH_ERR_EC_CURVE_MISMATCH,
     SSH_ERR_EXPECTED_CERT,
     SSH_ERR_KEY_LACKS_CERTBLOB,
     SSH_ERR_KEY_CERT_UNKNOWN_TYPE,
     SSH_ERR_KEY_CERT_INVALID_SIGN_KEY,
     SSH_ERR_KEY_INVALID_EC_VALUE,
     SSH_ERR_SIGNATURE_INVALID,
     SSH_ERR_LIBCRYPTO_ERROR,
     SSH_ERR_UNEXPECTED_TRAILING_DATA,
     SSH_ERR_SYSTEM_ERROR,
     SSH_ERR_KEY_CERT_INVALID,
     SSH_ERR_AGENT_COMMUNICATION,
     SSH_ERR_AGENT_FAILURE,
     SSH_ERR_DH_GEX_OUT_OF_RANGE,
     SSH_ERR_DISCONNECTED,
     SSH_ERR_MAC_INVALID,
     SSH_ERR_NO_CIPHER_ALG_MATCH,
     SSH_ERR_NO_MAC_ALG_MATCH,
     SSH_ERR_NO_COMPRESS_ALG_MATCH,
     SSH_ERR_NO_KEX_ALG_MATCH,
     SSH_ERR_NO_HOSTKEY_ALG_MATCH,
     SSH_ERR_NO_HOSTKEY_LOADED,
     SSH_ERR_PROTOCOL_MISMATCH,
     SSH_ERR_NO_PROTOCOL_VERSION,
     SSH_ERR_NEED_REKEY,
     SSH_ERR_PASSPHRASE_TOO_SHORT,
     SSH_ERR_FILE_CHANGED,
     SSH_ERR_KEY_UNKNOWN_CIPHER,
     SSH_ERR_KEY_WRONG_PASSPHRASE,
     SSH_ERR_KEY_BAD_PERMISSIONS,
     SSH_ERR_KEY_CERT_MISMATCH,
     SSH_ERR_KEY_NOT_FOUND,
     SSH_ERR_AGENT_NOT_PRESENT,
     SSH_ERR_AGENT_NO_IDENTITIES,
     SSH_ERR_BUFFER_READ_ONLY,
     SSH_ERR_KRL_BAD_MAGIC,
     SSH_ERR_KEY_REVOKED,
     SSH_ERR_CONN_CLOSED,
     SSH_ERR_CONN_TIMEOUT,
     SSH_ERR_CONN_CORRUPT,
     SSH_ERR_PROTOCOL_ERROR]"

definition ssherr_of_code :: "int \<Rightarrow> ssherr option" where
  "ssherr_of_code n = (if - 55 \<le> n \<and> n \<le> - 1 then Some (all_ssherr ! nat (- n - 1)) else None)"

text \<open>
  \<open>ssh_err\<close> as the switch of the source: \<open>errstr\<close> stands for \<open>strerror(errno)\<close>, and any
  number that is neither 0 nor a code falls to the default branch.
\<close>

primrec ssh_err_msg :: "string \<Rightarrow> ssherr \<Rightarrow> string" where
  "ssh_err_msg errstr SSH_ERR_INTERNAL_ERROR = ''unexpected internal error''"
| "ssh_err_msg errstr SSH_ERR_ALLOC_FAIL = ''memory allocation failed''"
| "ssh_err_msg errstr SSH_ERR_MESSAGE_INCOMPLETE = ''incomplete message''"
| "ssh_err_msg errstr SSH_ERR_INVALID_FORMAT = ''invalid format''"
| "ssh_err_msg errstr SSH_ERR_BIGNUM_IS_NEGATIVE = ''bignum is negative''"
| "ssh_err_msg errstr SSH_ERR_STRING_TOO_LARGE = ''string is too large''"
| "ssh_err_msg errstr SSH_ERR_BIGNUM_TOO_LARGE = ''bignum is too large''"
| "ssh_err_msg errstr SSH_ERR_ECPOINT_TOO_LARGE = ''elliptic curve point is too large''"
| "ssh_err_msg errstr SSH_ERR_NO_BUFFER_SPACE = ''insufficient buffer space''"
| "ssh_err_msg errstr SSH_ERR_INVALID_ARGUMENT = ''invalid argument''"
| "ssh_err_msg errstr SSH_ERR_KEY_BITS_MISMATCH = ''key bits do not match''"
| "ssh_err_msg errstr SSH_ERR_EC_CURVE_INVALID = ''invalid elliptic curve''"
| "ssh_err_msg errstr SSH_ERR_KEY_TYPE_MISMATCH = ''key type does not match''"
| "ssh_err_msg errstr SSH_ERR_KEY_TYPE_UNKNOWN = ''unknown or unsupported key type''"
| "ssh_err_msg errstr SSH_ERR_EC_CURVE_MISMATCH = ''elliptic curve does not match''"
| "ssh_err_msg errstr SSH_ERR_EXPECTED_CERT = ''plain key provided where certificate required''"
| "ssh_err_msg errstr SSH_ERR_KEY_LACKS_CERTBLOB = ''key lacks certificate data''"
| "ssh_err_msg errstr SSH_ERR_KEY_CERT_UNKNOWN_TYPE = ''unknown/unsupported certificate type''"
| "ssh_err_msg errstr SSH_ERR_KEY_CERT_INVALID_SIGN_KEY = ''invalid certificate signing key''"
| "ssh_err_msg errstr SSH_ERR_KEY_INVALID_EC_VALUE = ''invalid elliptic curve value''"
| "ssh_err_msg errstr SSH_ERR_SIGNATURE_INVALID = ''incorrect signature''"
| "ssh_err_msg errstr SSH_ERR_LIBCRYPTO_ERROR = ''error in libcrypto''"
| "ssh_err_msg errstr SSH_ERR_UNEXPECTED_TRAILING_DATA = ''unexpected bytes remain after decoding''"
| "ssh_err_msg errstr SSH_ERR_SYSTEM_ERROR = errstr"
| "ssh_err_msg errstr SSH_ERR_KEY_CERT_INVALID = ''invalid certificate''"
| "ssh_err_msg errstr SSH_ERR_AGENT_COMMUNICATION = ''communication with agent failed''"
| "ssh_err_msg errstr SSH_ERR_AGENT_FAILURE = ''agent refused operation''"
| "ssh_err_msg errstr SSH_ERR_DH_GEX_OUT_OF_RANGE = ''DH GEX group out of range''"
| "ssh_err_msg errstr SSH_ERR_DISCONNECTED = ''disconnected''"
| "ssh_err_msg errstr SSH_ERR_MAC_INVALID = ''message authentication code incorrect''"
| "ssh_err_msg errstr SSH_ERR_NO_CIPHER_ALG_MATCH = ''no matching cipher found''"
| "ssh_err_msg errstr SSH_ERR_NO_MAC_ALG_MATCH = ''no matching MAC found''"
| "ssh_err_msg errstr SSH_ERR_NO_COMPRESS_ALG_MATCH = ''no matching compression method found''"
| "ssh_err_msg errstr SSH_ERR_NO_KEX_ALG_MATCH = ''no matching key exchange method found''"
| "ssh_err_msg errstr SSH_ERR_NO_HOSTKEY_ALG_MATCH = ''no matching host key type found''"
| "ssh_err_msg errstr SSH_ERR_NO_HOSTKEY_LOADED = ''could not load host key''"
| "ssh_err_msg errstr SSH_ERR_PROTOCOL_MISMATCH = ''protocol version mismatch''"
| "ssh_err_msg errstr SSH_ERR_NO_PROTOCOL_VERSION = ''could not read protocol version''"
| "ssh_err_msg errstr SSH_ERR_NEED_REKEY = ''rekeying not supported by peer''"
| "ssh_err_msg errstr SSH_ERR_PASSPHRASE_TOO_SHORT = ''passphrase is too short (minimum five characters)''"
| "ssh_err_msg errstr SSH_ERR_FILE_CHANGED = ''file changed while reading''"
| "ssh_err_msg errstr SSH_ERR_KEY_UNKNOWN_CIPHER = ''key encrypted using unsupported cipher''"
| "ssh_err_msg errstr SSH_ERR_KEY_WRONG_PASSPHRASE = ''incorrect passphrase supplied to decrypt private key''"
| "ssh_err_msg errstr SSH_ERR_KEY_BAD_PERMISSIONS = ''bad permissions''"
| "ssh_err_msg errstr SSH_ERR_KEY_CERT_MISMATCH = ''certificate does not match key''"
| "ssh_err_msg errstr SSH_ERR_KEY_NOT_FOUND = ''key not found''"
| "ssh_err_msg errstr SSH_ERR_AGENT_NOT_PRESENT = ''agent not present''"
| "ssh_err_msg errstr SSH_ERR_AGENT_NO_IDENTITIES = ''agent contains no identities''"
| "ssh_err_msg errstr SSH_ERR_BUFFER_READ_ONLY = ''internal error: buffer is read-only''"
| "ssh_err_msg errstr SSH_ERR_KRL_BAD_MAGIC = ''KRL file has invalid magic number''"
| "ssh_err_msg errstr SSH_ERR_KEY_REVOKED = ''Key is revoked''"
| "ssh_err_msg errstr SSH_ERR_CONN_CLOSED = ''Connection closed''"
| "ssh_err_msg errstr SSH_ERR_CONN_TIMEOUT = ''Connection timed out''"
| "ssh_err_msg errstr SSH_ERR_CONN_CORRUPT = ''Connection corrupted''"
| "ssh_err_msg errstr SSH_ERR_PROTOCOL_ERROR = ''Protocol error''"

definition ssh_err :: "string \<Rightarrow> int \<Rightarrow> string" where
  "ssh_err errstr n =
     (if n = 0 then ''success''
      else case ssherr_of_code n of
        Some e \<Rightarrow> ssh_err_msg errstr e
      | None \<Rightarrow> ''unknown error'')"

lemma ssherr_of_code_code [simp]: "ssherr_of_code (ssherr_code e) = Some e"
  by (cases e) (simp_all add: ssherr_of_code_def all_ssherr_def)

lemma ssherr_code_inject [simp]: "ssherr_code e = ssherr_code e' \<longleftrightarrow> e = e'"
  by (metis option.inject ssherr_of_code_code)

lemma ssherr_code_bounds: "- 55 \<le> ssherr_code e" "ssherr_code e \<le> - 1"
  by (cases e; simp)+

text \<open>Every error code of the header has a message of its own in the table.\<close>

lemma ssh_err_code: "ssh_err errstr (ssherr_code e) = ssh_err_msg errstr e"
  using ssherr_code_bounds(2) [of e] by (simp add: ssh_err_def)

end
