(* ===== verification/Sshbuf.thy ===== *)
theory Sshbuf
  imports Prelude Ssherr
begin

text \<open>
  The growable byte buffer of \<open>sshbuf.c\<close>: the structure, its sanity check, allocation,
  packing, reservation and consumption, the InterMAC constructor \<open>sshbuf_from_im\<close>, and the
  reference-counted children (\<open>sshbuf_fromb\<close>, \<open>sshbuf_set_parent\<close>, \<open>sshbuf_free\<close>) over a
  store of buffers. The abstract view of a buffer is the byte string \<open>sshbuf_bytes\<close>; the
  interface \<open>byte_fifo\<close> states what the operations promise about it.

  Memory. \<open>buf_d\<close> and \<open>buf_cd\<close> are the blocks the two data pointers point to, \<open>None\<close> for
  \<open>NULL\<close>. A writable buffer has both pointers on the same block, so every write updates
  both fields. The libc allocator is a parameter \<open>alloc_env\<close>: which request sizes succeed,
  and the indeterminate bytes a grown block contains. \<open>size_t\<close> is \<open>nat\<close> with the
  wrap-around at \<open>2^64\<close> written out. \<open>sshbuf_check_sanity\<close> raises \<open>SIGSEGV\<close> before it
  returns its error; the model keeps the value the code returns if the process survives.
\<close>

section \<open>The structure and the constants of sshbuf.h\<close>

record sshbuf =
  buf_d :: "bytes option"
  buf_cd :: "bytes option"
  buf_off :: nat
  buf_size :: nat
  buf_max_size :: nat
  buf_alloc :: nat
  buf_readonly :: bool
  buf_dont_free :: bool
  buf_refcount :: u32
  buf_parent :: "nat option"

definition SSHBUF_SIZE_MAX :: nat where "SSHBUF_SIZE_MAX = 0x8000000"
definition SSHBUF_REFS_MAX :: u32 where "SSHBUF_REFS_MAX = 0x100000"
definition SSHBUF_MAX_BIGNUM :: nat where "SSHBUF_MAX_BIGNUM = 16384 div 8"
definition SSHBUF_SIZE_INIT :: nat where "SSHBUF_SIZE_INIT = 256"
definition SSHBUF_SIZE_INC :: nat where "SSHBUF_SIZE_INC = 256"
definition SSHBUF_PACK_MIN :: nat where "SSHBUF_PACK_MIN = 8192"

lemmas sshbuf_consts = SSHBUF_SIZE_MAX_def SSHBUF_SIZE_INIT_def SSHBUF_SIZE_INC_def
  SSHBUF_PACK_MIN_def

section \<open>The allocator\<close>

record alloc_env =
  malloc_ok :: "nat \<Rightarrow> bool"
  junk :: "nat \<Rightarrow> byte"

definition sizeof_sshbuf :: nat where "sizeof_sshbuf = 72"

definition calloc_bytes :: "alloc_env \<Rightarrow> nat \<Rightarrow> bytes option" where
  "calloc_bytes env n = (if malloc_ok env n then Some (replicate n 0) else None)"

definition realloc_bytes :: "alloc_env \<Rightarrow> bytes \<Rightarrow> nat \<Rightarrow> bytes option" where
  "realloc_bytes env m n =
     (if malloc_ok env n then Some (take n m @ map (junk env) [length m..<n]) else None)"

text \<open>An allocator that never refuses, for evaluating the model on concrete inputs.\<close>

definition plenty :: alloc_env where
  "plenty = \<lparr>malloc_ok = (\<lambda>_. True), junk = (\<lambda>_. 0xaa)\<rparr>"

lemma plenty_ok [simp]: "malloc_ok plenty n"
  by (simp add: plenty_def)

lemma realloc_bytes_length: "realloc_bytes env m n = Some m' \<Longrightarrow> length m' = n"
  by (auto simp: realloc_bytes_def split: if_splits)

lemma realloc_bytes_keeps:
  "realloc_bytes env m n = Some m' \<Longrightarrow> k \<le> length m \<Longrightarrow> k \<le> n \<Longrightarrow> take k m' = take k m"
  by (auto simp: realloc_bytes_def split: if_splits)

definition blk :: "bytes option \<Rightarrow> bytes" where
  "blk p = (case p of None \<Rightarrow> [] | Some m \<Rightarrow> m)"

definition set_mem :: "bytes \<Rightarrow> sshbuf \<Rightarrow> sshbuf" where
  "set_mem m b = b\<lparr>buf_d := Some m, buf_cd := Some m\<rparr>"

lemma blk_Some [simp]: "blk (Some m) = m"
  by (simp add: blk_def)

lemma set_mem_sel [simp]:
  "buf_d (set_mem m b) = Some m" "buf_cd (set_mem m b) = Some m"
  "buf_off (set_mem m b) = buf_off b" "buf_size (set_mem m b) = buf_size b"
  "buf_max_size (set_mem m b) = buf_max_size b" "buf_alloc (set_mem m b) = buf_alloc b"
  "buf_readonly (set_mem m b) = buf_readonly b" "buf_dont_free (set_mem m b) = buf_dont_free b"
  "buf_refcount (set_mem m b) = buf_refcount b" "buf_parent (set_mem m b) = buf_parent b"
  by (simp_all add: set_mem_def)

lemma set_mem_alloc: "(set_mem m b)\<lparr>buf_alloc := n\<rparr> = set_mem m (b\<lparr>buf_alloc := n\<rparr>)"
  by (cases b) (simp add: set_mem_def)

section \<open>Sanity check and packing\<close>

text \<open>\<open>True\<close> is the return value 0.\<close>

definition sshbuf_check_sanity :: "sshbuf \<Rightarrow> bool" where
  "sshbuf_check_sanity b \<longleftrightarrow>
     \<not> ((\<not> buf_readonly b \<and> buf_d b \<noteq> buf_cd b) \<or>
        buf_refcount b < 1 \<or> buf_refcount b > SSHBUF_REFS_MAX \<or>
        buf_cd b = None \<or>
        (buf_dont_free b \<and> (buf_readonly b \<or> buf_parent b \<noteq> None)) \<or>
        buf_max_size b > SSHBUF_SIZE_MAX \<or>
        buf_alloc b > buf_max_size b \<or>
        buf_size b > buf_alloc b \<or>
        buf_off b > buf_size b)"

definition sshbuf_maybe_pack :: "sshbuf \<Rightarrow> bool \<Rightarrow> sshbuf" where
  "sshbuf_maybe_pack b force =
     (if buf_off b = 0 \<or> buf_readonly b \<or> buf_refcount b > 1 then b
      else if force \<or> (buf_off b \<ge> SSHBUF_PACK_MIN \<and> buf_off b \<ge> buf_size b div 2) then
        (set_mem (mem_write 0 (mem_read (buf_off b) (szsub (buf_size b) (buf_off b)) (blk (buf_d b)))
            (blk (buf_d b))) b)
          \<lparr>buf_size := szsub (buf_size b) (buf_off b), buf_off := 0\<rparr>
      else b)"

section \<open>Constructors\<close>

definition sshbuf_zeroed :: sshbuf where
  "sshbuf_zeroed = \<lparr>buf_d = None, buf_cd = None, buf_off = 0, buf_size = 0, buf_max_size = 0,
     buf_alloc = 0, buf_readonly = False, buf_dont_free = False, buf_refcount = 0,
     buf_parent = None\<rparr>"

definition sshbuf_new :: "alloc_env \<Rightarrow> sshbuf option" where
  "sshbuf_new env =
     (if \<not> malloc_ok env sizeof_sshbuf then None
      else let ret = sshbuf_zeroed\<lparr>buf_alloc := SSHBUF_SIZE_INIT, buf_max_size := SSHBUF_SIZE_MAX,
                       buf_readonly := False, buf_refcount := 1, buf_parent := None\<rparr> in
        case calloc_bytes env (buf_alloc ret) of
          None \<Rightarrow> None
        | Some m \<Rightarrow> Some (set_mem m ret))"

definition sshbuf_from :: "alloc_env \<Rightarrow> bytes option \<Rightarrow> nat \<Rightarrow> sshbuf option" where
  "sshbuf_from env blob len =
     (if blob = None \<or> len > SSHBUF_SIZE_MAX \<or> \<not> malloc_ok env sizeof_sshbuf then None
      else Some (sshbuf_zeroed\<lparr>buf_alloc := len, buf_size := len, buf_max_size := len,
             buf_readonly := True, buf_refcount := 1, buf_parent := None, buf_cd := blob,
             buf_d := None\<rparr>))"

definition sshbuf_from_im :: "alloc_env \<Rightarrow> bytes option \<Rightarrow> nat \<Rightarrow> u32 \<Rightarrow> sshbuf option" where
  "sshbuf_from_im env blob len allocated =
     (if blob = None \<or> len > SSHBUF_SIZE_MAX \<or> \<not> malloc_ok env sizeof_sshbuf then None
      else Some (sshbuf_zeroed\<lparr>buf_size := len, buf_readonly := False, buf_refcount := 1,
             buf_parent := None, buf_cd := blob, buf_d := blob, buf_alloc := unat allocated,
             buf_max_size := SSHBUF_SIZE_MAX\<rparr>))"

definition sshbuf_init :: "alloc_env \<Rightarrow> sshbuf" where
  "sshbuf_init env =
     (let ret = sshbuf_zeroed\<lparr>buf_alloc := SSHBUF_SIZE_INIT, buf_max_size := SSHBUF_SIZE_MAX,
                  buf_readonly := False, buf_dont_free := True, buf_refcount := 1\<rparr> in
      case calloc_bytes env (buf_alloc ret) of
        None \<Rightarrow> ret\<lparr>buf_cd := None, buf_d := None, buf_alloc := 0\<rparr>
      | Some m \<Rightarrow> set_mem m ret)"

section \<open>Reset and size limits\<close>

definition sshbuf_reset :: "alloc_env \<Rightarrow> sshbuf \<Rightarrow> sshbuf" where
  "sshbuf_reset env b =
     (if buf_readonly b \<or> buf_refcount b > 1 then b\<lparr>buf_off := buf_size b\<rparr>
      else
        let b1 = (if sshbuf_check_sanity b
                  then set_mem (mem_write 0 (replicate (buf_alloc b) 0) (blk (buf_d b))) b else b);
            b2 = b1\<lparr>buf_off := 0, buf_size := 0\<rparr>
        in if buf_alloc b2 \<noteq> SSHBUF_SIZE_INIT then
             (case realloc_bytes env (blk (buf_d b2)) SSHBUF_SIZE_INIT of
                None \<Rightarrow> b2
              | Some d \<Rightarrow> (set_mem d b2)\<lparr>buf_alloc := SSHBUF_SIZE_INIT\<rparr>)
           else b2)"

definition sshbuf_max_size :: "sshbuf \<Rightarrow> nat" where
  "sshbuf_max_size b = buf_max_size b"

definition sshbuf_alloc :: "sshbuf \<Rightarrow> nat" where
  "sshbuf_alloc b = buf_alloc b"

definition sshbuf_parent :: "sshbuf \<Rightarrow> nat option" where
  "sshbuf_parent b = buf_parent b"

definition sshbuf_refcount :: "sshbuf \<Rightarrow> u32" where
  "sshbuf_refcount b = buf_refcount b"

definition sshbuf_set_max_size :: "alloc_env \<Rightarrow> sshbuf \<Rightarrow> nat \<Rightarrow> (ssherr, sshbuf, unit) outcome" where
  "sshbuf_set_max_size env b max_size =
     (if \<not> sshbuf_check_sanity b then (Inl SSH_ERR_INTERNAL_ERROR, b)
      else if max_size = buf_max_size b then (Inr (), b)
      else if buf_readonly b \<or> buf_refcount b > 1 then (Inl SSH_ERR_BUFFER_READ_ONLY, b)
      else if max_size > SSHBUF_SIZE_MAX then (Inl SSH_ERR_NO_BUFFER_SPACE, b)
      else
        let b1 = sshbuf_maybe_pack b (max_size < buf_size b) in
        rbind
          (if max_size < buf_alloc b1 \<and> max_size > buf_size b1 then
             let rlen0 = (if buf_size b1 < SSHBUF_SIZE_INIT then SSHBUF_SIZE_INIT
                          else ROUNDUP (buf_size b1) SSHBUF_SIZE_INC);
                 rlen = (if rlen0 > max_size then max_size else rlen0);
                 b2 = set_mem (mem_write (buf_size b1)
                        (replicate (szsub (buf_alloc b1) (buf_size b1)) 0) (blk (buf_d b1))) b1
             in (case realloc_bytes env (blk (buf_d b2)) rlen of
                   None \<Rightarrow> (Inl SSH_ERR_ALLOC_FAIL, b2)
                 | Some dp \<Rightarrow> (Inr (), (set_mem dp b2)\<lparr>buf_alloc := rlen\<rparr>))
           else (Inr (), b1))
          (\<lambda>_ b3. if max_size < buf_alloc b3 then (Inl SSH_ERR_NO_BUFFER_SPACE, b3)
                  else (Inr (), b3\<lparr>buf_max_size := max_size\<rparr>)))"

section \<open>Observers\<close>

definition sshbuf_len :: "sshbuf \<Rightarrow> nat" where
  "sshbuf_len b = (if \<not> sshbuf_check_sanity b then 0 else szsub (buf_size b) (buf_off b))"

definition sshbuf_avail :: "sshbuf \<Rightarrow> nat" where
  "sshbuf_avail b =
     (if \<not> sshbuf_check_sanity b \<or> buf_readonly b \<or> buf_refcount b > 1 then 0
      else szsub (buf_max_size b) (szsub (buf_size b) (buf_off b)))"

text \<open>A pointer into the block is the part of the block from there on.\<close>

definition sshbuf_ptr :: "sshbuf \<Rightarrow> bytes option" where
  "sshbuf_ptr b =
     (if \<not> sshbuf_check_sanity b then None else Some (drop (buf_off b) (blk (buf_cd b))))"

definition sshbuf_mutable_ptr :: "sshbuf \<Rightarrow> bytes option" where
  "sshbuf_mutable_ptr b =
     (if \<not> sshbuf_check_sanity b \<or> buf_readonly b \<or> buf_refcount b > 1 then None
      else Some (drop (buf_off b) (blk (buf_d b))))"

section \<open>Reservation and consumption\<close>

text \<open>\<open>None\<close> is the return value 0.\<close>

definition sshbuf_check_reserve :: "sshbuf \<Rightarrow> nat \<Rightarrow> ssherr option" where
  "sshbuf_check_reserve b len =
     (if \<not> sshbuf_check_sanity b then Some SSH_ERR_INTERNAL_ERROR
      else if buf_readonly b \<or> buf_refcount b > 1 then Some SSH_ERR_BUFFER_READ_ONLY
      else if len > buf_max_size b \<or>
              szsub (buf_max_size b) len < szsub (buf_size b) (buf_off b)
           then Some SSH_ERR_NO_BUFFER_SPACE
      else None)"

definition sshbuf_allocate :: "alloc_env \<Rightarrow> sshbuf \<Rightarrow> nat \<Rightarrow> (ssherr, sshbuf, unit) outcome" where
  "sshbuf_allocate env b len =
     (case sshbuf_check_reserve b len of
        Some r \<Rightarrow> (Inl r, b)
      | None \<Rightarrow>
          let b1 = sshbuf_maybe_pack b (szadd (buf_size b) len > buf_max_size b) in
          if szadd len (buf_size b1) \<le> buf_alloc b1 then (Inr (), b1)
          else
            let need = szsub (szadd len (buf_size b1)) (buf_alloc b1);
                rlen0 = ROUNDUP (szadd (buf_alloc b1) need) SSHBUF_SIZE_INC;
                rlen = (if rlen0 > buf_max_size b1 then szadd (buf_alloc b1) need else rlen0)
            in (case realloc_bytes env (blk (buf_d b1)) rlen of
                  None \<Rightarrow> (Inl SSH_ERR_ALLOC_FAIL, b1)
                | Some dp \<Rightarrow>
                    let b2 = set_mem dp (b1\<lparr>buf_alloc := rlen\<rparr>) in
                    (case sshbuf_check_reserve b2 len of
                       Some r \<Rightarrow> (Inl r, b2)
                     | None \<Rightarrow> (Inr (), b2))))"

text \<open>The value of \<open>sshbuf_reserve\<close> is the offset of \<open>*dpp\<close> in the block.\<close>

definition sshbuf_reserve :: "alloc_env \<Rightarrow> sshbuf \<Rightarrow> nat \<Rightarrow> (ssherr, sshbuf, nat) outcome" where
  "sshbuf_reserve env b len =
     rbind (sshbuf_allocate env b len)
       (\<lambda>_ b1. (Inr (buf_size b1), b1\<lparr>buf_size := szadd (buf_size b1) len\<rparr>))"

definition sshbuf_consume :: "sshbuf \<Rightarrow> nat \<Rightarrow> (ssherr, sshbuf, unit) outcome" where
  "sshbuf_consume b len =
     (if \<not> sshbuf_check_sanity b then (Inl SSH_ERR_INTERNAL_ERROR, b)
      else if len = 0 then (Inr (), b)
      else if len > sshbuf_len b then (Inl SSH_ERR_MESSAGE_INCOMPLETE, b)
      else (Inr (), b\<lparr>buf_off := szadd (buf_off b) len\<rparr>))"

definition sshbuf_consume_end :: "sshbuf \<Rightarrow> nat \<Rightarrow> (ssherr, sshbuf, unit) outcome" where
  "sshbuf_consume_end b len =
     (if \<not> sshbuf_check_sanity b then (Inl SSH_ERR_INTERNAL_ERROR, b)
      else if len = 0 then (Inr (), b)
      else if len > sshbuf_len b then (Inl SSH_ERR_MESSAGE_INCOMPLETE, b)
      else (Inr (), b\<lparr>buf_size := szsub (buf_size b) len\<rparr>))"

text \<open>A write through the pointer that \<open>sshbuf_reserve\<close> returned.\<close>

definition sshbuf_poke :: "sshbuf \<Rightarrow> nat \<Rightarrow> bytes \<Rightarrow> sshbuf" where
  "sshbuf_poke b dp bs = set_mem (mem_write dp bs (blk (buf_d b))) b"

section \<open>Invariant and abstract view\<close>

definition sshbuf_bytes :: "sshbuf \<Rightarrow> bytes" where
  "sshbuf_bytes b = mem_read (buf_off b) (buf_size b - buf_off b) (blk (buf_cd b))"

definition sshbuf_inv :: "sshbuf \<Rightarrow> bool" where
  "sshbuf_inv b \<longleftrightarrow> sshbuf_check_sanity b \<and>
     buf_alloc b \<le> length (blk (buf_cd b)) \<and>
     (\<not> buf_readonly b \<longrightarrow> length (blk (buf_cd b)) = buf_alloc b)"

definition sshbuf_writable :: "sshbuf \<Rightarrow> bool" where
  "sshbuf_writable b \<longleftrightarrow> \<not> buf_readonly b \<and> \<not> buf_refcount b > 1"

lemma sshbuf_inv_sanity [simp]: "sshbuf_inv b \<Longrightarrow> sshbuf_check_sanity b"
  by (simp add: sshbuf_inv_def)

lemma sshbuf_inv_bounds:
  assumes "sshbuf_inv b"
  shows "buf_off b \<le> buf_size b" "buf_size b \<le> buf_alloc b" "buf_alloc b \<le> buf_max_size b"
    "buf_max_size b \<le> 134217728" "buf_alloc b \<le> length (blk (buf_cd b))"
  using assms by (auto simp: sshbuf_inv_def sshbuf_check_sanity_def SSHBUF_SIZE_MAX_def)

lemma sshbuf_inv_ptrs:
  assumes "sshbuf_inv b"
  shows "buf_cd b = Some (blk (buf_cd b))"
    "\<not> buf_readonly b \<Longrightarrow> buf_d b = buf_cd b"
    "\<not> buf_readonly b \<Longrightarrow> length (blk (buf_cd b)) = buf_alloc b"
  using assms by (auto simp: sshbuf_inv_def sshbuf_check_sanity_def blk_def)

lemma sshbuf_invI_fields:
  assumes "sshbuf_inv b" and "\<not> buf_readonly b" and "length m = al"
    and "f \<le> sz" "sz \<le> al" "al \<le> mx" "mx \<le> SSHBUF_SIZE_MAX"
  shows "sshbuf_inv (b\<lparr>buf_d := Some m, buf_cd := Some m, buf_off := f, buf_size := sz,
      buf_max_size := mx, buf_alloc := al\<rparr>)"
  using assms by (auto simp: sshbuf_inv_def sshbuf_check_sanity_def)

lemma length_sshbuf_bytes [simp]:
  "sshbuf_inv b \<Longrightarrow> length (sshbuf_bytes b) = buf_size b - buf_off b"
  using sshbuf_inv_bounds [of b] by (simp add: sshbuf_bytes_def)

lemma sshbuf_len_bytes: "sshbuf_inv b \<Longrightarrow> sshbuf_len b = length (sshbuf_bytes b)"
  using sshbuf_inv_bounds [of b] by (simp add: sshbuf_len_def szsub_exact)

lemma sshbuf_ptr_bytes:
  "sshbuf_inv b \<Longrightarrow> \<exists>p. sshbuf_ptr b = Some p \<and> take (sshbuf_len b) p = sshbuf_bytes b"
  by (simp add: sshbuf_ptr_def sshbuf_len_bytes) (simp add: sshbuf_bytes_def mem_read_def)

lemma sshbuf_new_inv:
  "sshbuf_new env = Some b \<Longrightarrow> sshbuf_inv b \<and> sshbuf_bytes b = [] \<and> sshbuf_writable b"
  by (auto simp: sshbuf_new_def sshbuf_inv_def sshbuf_check_sanity_def sshbuf_zeroed_def
      sshbuf_bytes_def sshbuf_writable_def calloc_bytes_def sshbuf_consts SSHBUF_REFS_MAX_def
      Let_def split: if_splits option.splits)

lemma sshbuf_from_inv:
  assumes "sshbuf_from env (Some blob) len = Some b" and "len \<le> length blob"
  shows "sshbuf_inv b \<and> sshbuf_bytes b = take len blob \<and> \<not> sshbuf_writable b"
  using assms
  by (auto simp: sshbuf_from_def sshbuf_inv_def sshbuf_check_sanity_def sshbuf_zeroed_def
      sshbuf_bytes_def mem_read_def sshbuf_writable_def SSHBUF_REFS_MAX_def split: if_splits)

text \<open>
  \<open>sshbuf_from_im\<close> adopts a block of the InterMAC library. The result passes the sanity check
  exactly when the caller's lengths are consistent; the function itself does not check them.
\<close>

lemma sshbuf_from_im_inv:
  assumes "sshbuf_from_im env (Some blob) len allocated = Some b"
    and "length blob = unat allocated"
  shows "sshbuf_inv b \<longleftrightarrow> len \<le> unat allocated \<and> unat allocated \<le> SSHBUF_SIZE_MAX"
    and "sshbuf_inv b \<Longrightarrow> sshbuf_bytes b = take len blob \<and> sshbuf_writable b"
  using assms
  by (auto simp: sshbuf_from_im_def sshbuf_inv_def sshbuf_check_sanity_def sshbuf_zeroed_def
      sshbuf_bytes_def mem_read_def sshbuf_writable_def SSHBUF_REFS_MAX_def split: if_splits)

section \<open>Packing\<close>

lemma sshbuf_maybe_pack_fields [simp]:
  "buf_max_size (sshbuf_maybe_pack b f) = buf_max_size b"
  "buf_alloc (sshbuf_maybe_pack b f) = buf_alloc b"
  "buf_readonly (sshbuf_maybe_pack b f) = buf_readonly b"
  "buf_refcount (sshbuf_maybe_pack b f) = buf_refcount b"
  "buf_parent (sshbuf_maybe_pack b f) = buf_parent b"
  "buf_dont_free (sshbuf_maybe_pack b f) = buf_dont_free b"
  by (simp_all add: sshbuf_maybe_pack_def)

lemma sshbuf_maybe_pack_cases:
  assumes inv: "sshbuf_inv b"
  obtains (same) "sshbuf_maybe_pack b f = b"
  | (packed) "\<not> buf_readonly b" and "sshbuf_maybe_pack b f =
      b\<lparr>buf_d := Some (mem_write 0 (sshbuf_bytes b) (blk (buf_cd b))),
        buf_cd := Some (mem_write 0 (sshbuf_bytes b) (blk (buf_cd b))),
        buf_size := buf_size b - buf_off b, buf_off := 0\<rparr>"
proof (cases "sshbuf_maybe_pack b f = b")
  case False
  then have w: "\<not> buf_readonly b" by (auto simp: sshbuf_maybe_pack_def)
  have "szsub (buf_size b) (buf_off b) = buf_size b - buf_off b"
    using sshbuf_inv_bounds [OF inv] by (simp add: szsub_exact)
  then show thesis
    using False w sshbuf_inv_ptrs(2) [OF inv w]
    by (intro packed) (auto simp: sshbuf_maybe_pack_def sshbuf_bytes_def set_mem_def)
qed (rule same)

lemma sshbuf_maybe_pack_inv:
  assumes inv: "sshbuf_inv b"
  shows "sshbuf_inv (sshbuf_maybe_pack b f)"
    and "sshbuf_bytes (sshbuf_maybe_pack b f) = sshbuf_bytes b"
    and "buf_size (sshbuf_maybe_pack b f) - buf_off (sshbuf_maybe_pack b f) = buf_size b - buf_off b"
    and "buf_size (sshbuf_maybe_pack b f) \<le> buf_size b"
proof -
  note bd = sshbuf_inv_bounds [OF inv]
  let ?m = "mem_write 0 (sshbuf_bytes b) (blk (buf_cd b))"
  have len: "length ?m = length (blk (buf_cd b))" using inv bd by simp
  have rd: "mem_read 0 (buf_size b - buf_off b) ?m = sshbuf_bytes b"
    using inv bd mem_read_write_same [of 0 "sshbuf_bytes b" "blk (buf_cd b)"] by simp
  show "sshbuf_inv (sshbuf_maybe_pack b f)"
  proof (cases rule: sshbuf_maybe_pack_cases [OF inv, of f, case_names same packed])
    case packed
    with len show ?thesis
      using inv bd by (auto simp: sshbuf_inv_def sshbuf_check_sanity_def)
  qed (simp add: inv)
  show "sshbuf_bytes (sshbuf_maybe_pack b f) = sshbuf_bytes b"
  proof (cases rule: sshbuf_maybe_pack_cases [OF inv, of f, case_names same packed])
    case packed
    with rd show ?thesis by (simp add: sshbuf_bytes_def)
  qed simp
  show "buf_size (sshbuf_maybe_pack b f) - buf_off (sshbuf_maybe_pack b f) = buf_size b - buf_off b"
    and "buf_size (sshbuf_maybe_pack b f) \<le> buf_size b"
    by (cases rule: sshbuf_maybe_pack_cases [OF inv, of f, case_names same packed]; simp)+
qed

lemma sshbuf_maybe_pack_forced:
  assumes "sshbuf_inv b" and "sshbuf_writable b"
  shows "buf_off (sshbuf_maybe_pack b True) = 0"
  using assms by (auto simp: sshbuf_maybe_pack_def sshbuf_writable_def)

section \<open>Reservation: exact success condition, invariant and contents\<close>

lemma sshbuf_check_reserve_None_iff:
  assumes inv: "sshbuf_inv b"
  shows "sshbuf_check_reserve b len = None \<longleftrightarrow>
    sshbuf_writable b \<and> length (sshbuf_bytes b) + len \<le> buf_max_size b"
proof -
  note bd = sshbuf_inv_bounds [OF inv]
  have "szsub (buf_size b) (buf_off b) = buf_size b - buf_off b"
    using bd by (simp add: szsub_exact)
  moreover have "len \<le> buf_max_size b \<Longrightarrow> szsub (buf_max_size b) len = buf_max_size b - len"
    using bd by (simp add: szsub_exact)
  ultimately show ?thesis
    using inv bd by (auto simp: sshbuf_check_reserve_def sshbuf_writable_def)
qed

lemma sshbuf_check_reserve_errors:
  assumes inv: "sshbuf_inv b" and "sshbuf_check_reserve b len = Some e"
  shows "e = (if sshbuf_writable b then SSH_ERR_NO_BUFFER_SPACE else SSH_ERR_BUFFER_READ_ONLY)"
  using assms by (auto simp: sshbuf_check_reserve_def sshbuf_writable_def split: if_splits)

text \<open>The size asked of the allocator: never beyond the limit, always enough.\<close>

definition sshbuf_grow_size :: "sshbuf \<Rightarrow> nat \<Rightarrow> nat" where
  "sshbuf_grow_size b len =
     (let want = len + buf_size b; r = ((want + 255) div 256) * 256
      in if r > buf_max_size b then want else r)"

lemma sshbuf_grow_size_bounds:
  assumes "len + buf_size b \<le> buf_max_size b"
  shows "len + buf_size b \<le> sshbuf_grow_size b len" "sshbuf_grow_size b len \<le> buf_max_size b"
  using assms by (auto simp: sshbuf_grow_size_def Let_def)

lemma sshbuf_room_after_pack:
  assumes inv: "sshbuf_inv b" and "sshbuf_check_reserve b len = None"
  defines "b1 \<equiv> sshbuf_maybe_pack b (szadd (buf_size b) len > buf_max_size b)"
  shows "len + buf_size b1 \<le> buf_max_size b1"
proof -
  note bd = sshbuf_inv_bounds [OF inv]
  from assms(2) have w: "sshbuf_writable b" and r: "buf_size b - buf_off b + len \<le> buf_max_size b"
    using inv by (simp_all add: sshbuf_check_reserve_None_iff)
  have ex: "szadd (buf_size b) len = buf_size b + len"
    using bd r by (intro szadd_exact) simp
  show ?thesis
  proof (cases "buf_size b + len > buf_max_size b")
    case True
    then have "b1 = sshbuf_maybe_pack b True" by (simp add: b1_def ex)
    then have "buf_off b1 = 0" using inv w by (simp add: sshbuf_maybe_pack_forced)
    moreover have "buf_size b1 - buf_off b1 = buf_size b - buf_off b"
      unfolding b1_def by (rule sshbuf_maybe_pack_inv(3) [OF inv])
    ultimately show ?thesis using r by (simp add: b1_def)
  next
    case False
    moreover have "buf_size b1 \<le> buf_size b"
      unfolding b1_def by (rule sshbuf_maybe_pack_inv(4) [OF inv])
    ultimately show ?thesis by (simp add: b1_def)
  qed
qed

lemma sshbuf_realloc_step:
  assumes inv: "sshbuf_inv b" and w: "sshbuf_writable b"
    and m: "realloc_bytes env (blk (buf_d b)) n = Some m"
    and n: "buf_size b \<le> n" "n \<le> buf_max_size b"
  defines "b' \<equiv> set_mem m (b\<lparr>buf_alloc := n\<rparr>)"
  shows "sshbuf_inv b'" and "sshbuf_bytes b' = sshbuf_bytes b" and "sshbuf_writable b'"
proof -
  note bd = sshbuf_inv_bounds [OF inv]
  from w have ro: "\<not> buf_readonly b" by (simp add: sshbuf_writable_def)
  have len: "length m = n" using m by (rule realloc_bytes_length)
  show "sshbuf_inv b'"
    using inv ro bd n len
    by (auto simp: b'_def sshbuf_inv_def sshbuf_check_sanity_def)
  have "take (buf_size b) m = take (buf_size b) (blk (buf_cd b))"
    using realloc_bytes_keeps [OF m, of "buf_size b"] bd n sshbuf_inv_ptrs(2) [OF inv ro] by simp
  then have "drop (buf_off b) (take (buf_size b) m) =
      drop (buf_off b) (take (buf_size b) (blk (buf_cd b)))" by simp
  then show "sshbuf_bytes b' = sshbuf_bytes b"
    by (simp add: b'_def sshbuf_bytes_def mem_read_def drop_take)
  show "sshbuf_writable b'" using w by (simp add: b'_def sshbuf_writable_def)
qed

text \<open>
  \<open>sshbuf_allocate\<close>, unfolded under the invariant: the overflow-prone additions of the code are
  exact, and the check after \<open>realloc\<close> (``shouldn't fail'') does not fail.
\<close>

lemma sshbuf_allocate_eq:
  assumes inv: "sshbuf_inv b" and ok: "sshbuf_check_reserve b len = None"
  defines "b1 \<equiv> sshbuf_maybe_pack b (szadd (buf_size b) len > buf_max_size b)"
  shows "sshbuf_allocate env b len =
    (if len + buf_size b1 \<le> buf_alloc b1 then (Inr (), b1)
     else case realloc_bytes env (blk (buf_d b1)) (sshbuf_grow_size b1 len) of
        None \<Rightarrow> (Inl SSH_ERR_ALLOC_FAIL, b1)
      | Some m \<Rightarrow> (Inr (), set_mem m (b1\<lparr>buf_alloc := sshbuf_grow_size b1 len\<rparr>)))"
proof -
  have inv1: "sshbuf_inv b1" unfolding b1_def by (rule sshbuf_maybe_pack_inv(1) [OF inv])
  note bd = sshbuf_inv_bounds [OF inv1]
  have room: "len + buf_size b1 \<le> buf_max_size b1"
    unfolding b1_def by (rule sshbuf_room_after_pack [OF inv ok])
  have w: "sshbuf_writable b" using inv ok by (simp add: sshbuf_check_reserve_None_iff)
  then have w1: "sshbuf_writable b1" by (simp add: b1_def sshbuf_writable_def)
  have a1: "szadd len (buf_size b1) = len + buf_size b1"
    using bd room by (intro szadd_exact) simp
  have rlen: "(if ROUNDUP (szadd (buf_alloc b1) (szsub (len + buf_size b1) (buf_alloc b1)))
        SSHBUF_SIZE_INC > buf_max_size b1
       then szadd (buf_alloc b1) (szsub (len + buf_size b1) (buf_alloc b1))
       else ROUNDUP (szadd (buf_alloc b1) (szsub (len + buf_size b1) (buf_alloc b1)))
        SSHBUF_SIZE_INC) = sshbuf_grow_size b1 len"
    if big: "\<not> len + buf_size b1 \<le> buf_alloc b1"
  proof -
    have s: "szsub (len + buf_size b1) (buf_alloc b1) = len + buf_size b1 - buf_alloc b1"
      using bd room big by (intro szsub_exact) simp_all
    have "szadd (buf_alloc b1) (len + buf_size b1 - buf_alloc b1) = len + buf_size b1"
      using bd room big by (subst szadd_exact) simp_all
    moreover have "ROUNDUP (len + buf_size b1) SSHBUF_SIZE_INC
        = ((len + buf_size b1 + 255) div 256) * 256"
      using bd room by (subst ROUNDUP_exact) (auto simp: SSHBUF_SIZE_INC_def)
    ultimately show ?thesis by (simp add: s sshbuf_grow_size_def Let_def)
  qed
  have chk: "sshbuf_check_reserve (set_mem m (b1\<lparr>buf_alloc := sshbuf_grow_size b1 len\<rparr>)) len = None"
    if "realloc_bytes env (blk (buf_d b1)) (sshbuf_grow_size b1 len) = Some m" for m
  proof -
    note g = sshbuf_grow_size_bounds [OF room]
    have "buf_size b1 \<le> sshbuf_grow_size b1 len" using g by simp
    note st = sshbuf_realloc_step [OF inv1 w1 that this g(2)]
    show ?thesis
      using st room bd inv1 by (simp add: sshbuf_check_reserve_None_iff)
  qed
  show ?thesis
  proof (cases "len + buf_size b1 \<le> buf_alloc b1")
    case True
    then show ?thesis by (simp add: sshbuf_allocate_def ok b1_def [symmetric] a1 Let_def)
  next
    case False
    show ?thesis
      unfolding sshbuf_allocate_def ok option.case Let_def b1_def [symmetric] a1 rlen [OF False]
      using False chk by (simp split: option.split)
  qed
qed

lemma sshbuf_allocate_spec:
  assumes inv: "sshbuf_inv b" and res: "sshbuf_allocate env b len = (r, b')"
  shows "sshbuf_inv b'" and "sshbuf_bytes b' = sshbuf_bytes b"
    and "buf_max_size b' = buf_max_size b" and "sshbuf_writable b' = sshbuf_writable b"
    and "r = Inr () \<Longrightarrow> len + buf_size b' \<le> buf_alloc b'"
    and "r = Inr () \<Longrightarrow> sshbuf_check_reserve b len = None"
proof -
  define b1 where "b1 = sshbuf_maybe_pack b (szadd (buf_size b) len > buf_max_size b)"
  have "sshbuf_inv b' \<and> sshbuf_bytes b' = sshbuf_bytes b \<and> buf_max_size b' = buf_max_size b \<and>
      sshbuf_writable b' = sshbuf_writable b \<and>
      (r = Inr () \<longrightarrow> len + buf_size b' \<le> buf_alloc b' \<and> sshbuf_check_reserve b len = None)"
  proof (cases "sshbuf_check_reserve b len")
    case (Some e)
    with res inv show ?thesis by (auto simp: sshbuf_allocate_def)
  next
    case None
    note p = sshbuf_maybe_pack_inv [OF inv, of "szadd (buf_size b) len > buf_max_size b",
        folded b1_def]
    have f: "buf_max_size b1 = buf_max_size b" "sshbuf_writable b1 = sshbuf_writable b"
      by (simp_all add: b1_def sshbuf_writable_def)
    have w1: "sshbuf_writable b1" using inv None f by (simp add: sshbuf_check_reserve_None_iff)
    have room: "len + buf_size b1 \<le> buf_max_size b1"
      unfolding b1_def by (rule sshbuf_room_after_pack [OF inv None])
    note g = sshbuf_grow_size_bounds [OF room]
    have sz: "buf_size b1 \<le> sshbuf_grow_size b1 len" using g by simp
    show ?thesis
      using res p f w1 g None sshbuf_realloc_step [OF p(1) w1 _ sz g(2)]
      unfolding sshbuf_allocate_eq [OF inv None, folded b1_def]
      by (auto split: if_splits option.splits)
  qed
  then show "sshbuf_inv b'" and "sshbuf_bytes b' = sshbuf_bytes b"
    and "buf_max_size b' = buf_max_size b" and "sshbuf_writable b' = sshbuf_writable b"
    and "r = Inr () \<Longrightarrow> len + buf_size b' \<le> buf_alloc b'"
    and "r = Inr () \<Longrightarrow> sshbuf_check_reserve b len = None" by auto
qed

text \<open>Which error: no room, a read-only buffer, or the allocator; never an internal error.\<close>

lemma sshbuf_allocate_error:
  assumes inv: "sshbuf_inv b" and res: "sshbuf_allocate env b len = (Inl e, b')"
  shows "e = (if \<not> sshbuf_writable b then SSH_ERR_BUFFER_READ_ONLY
              else if length (sshbuf_bytes b) + len > buf_max_size b then SSH_ERR_NO_BUFFER_SPACE
              else SSH_ERR_ALLOC_FAIL)"
proof (cases "sshbuf_check_reserve b len")
  case (Some e')
  then have "e = e'" using res by (simp add: sshbuf_allocate_def)
  moreover have "\<not> (sshbuf_writable b \<and> length (sshbuf_bytes b) + len \<le> buf_max_size b)"
    using Some sshbuf_check_reserve_None_iff [OF inv, of len] by simp
  ultimately show ?thesis using sshbuf_check_reserve_errors [OF inv Some] by auto
next
  case None
  then show ?thesis
    using res inv sshbuf_check_reserve_None_iff [OF inv, of len]
    by (auto simp: sshbuf_allocate_eq [OF inv None] split: if_splits option.splits)
qed

text \<open>
  Reserving space and filling it with as many bytes appends them to the contents; this is the
  shape of every \<open>sshbuf_put\<close> function.
\<close>

lemma sshbuf_reserve_poke:
  assumes inv: "sshbuf_inv b" and res: "sshbuf_reserve env b len = (Inr dp, b1)"
    and len: "length bs = len"
  shows "sshbuf_inv (sshbuf_poke b1 dp bs)"
    and "sshbuf_bytes (sshbuf_poke b1 dp bs) = sshbuf_bytes b @ bs"
    and "buf_max_size (sshbuf_poke b1 dp bs) = buf_max_size b"
    and "sshbuf_writable (sshbuf_poke b1 dp bs)"
proof -
  from res obtain b0 where al: "sshbuf_allocate env b len = (Inr (), b0)"
    and dp: "dp = buf_size b0" and b1: "b1 = b0\<lparr>buf_size := szadd (buf_size b0) len\<rparr>"
    by (auto simp: sshbuf_reserve_def elim!: rbind_InrE)
  note s = sshbuf_allocate_spec [OF inv al]
  note bd = sshbuf_inv_bounds [OF s(1)]
  have room: "len + buf_size b0 \<le> buf_alloc b0" using s(5) by simp
  have w: "sshbuf_writable b0"
    using s(4) s(6) inv by (simp add: sshbuf_check_reserve_None_iff)
  then have ro: "\<not> buf_readonly b0" by (simp add: sshbuf_writable_def)
  note pt = sshbuf_inv_ptrs [OF s(1)]
  have d: "blk (buf_d b0) = blk (buf_cd b0)" "length (blk (buf_cd b0)) = buf_alloc b0"
    using pt(2,3) ro by simp_all
  have ex: "szadd (buf_size b0) len = buf_size b0 + len"
    using bd room by (intro szadd_exact) simp
  have lm: "length (mem_write (buf_size b0) bs (blk (buf_cd b0))) = buf_alloc b0"
    using d room len by simp
  have rd: "mem_read (buf_off b0) (buf_size b0 + length bs - buf_off b0)
      (mem_write (buf_size b0) bs (blk (buf_cd b0))) = sshbuf_bytes b0 @ bs"
    unfolding sshbuf_bytes_def using bd d room len by (intro mem_read_extends) auto
  show "sshbuf_inv (sshbuf_poke b1 dp bs)"
    using s(1) ro bd room lm
    by (auto simp: sshbuf_poke_def b1 dp d ex sshbuf_inv_def sshbuf_check_sanity_def)
  show "sshbuf_bytes (sshbuf_poke b1 dp bs) = sshbuf_bytes b @ bs"
    using rd len s(2) by (simp add: sshbuf_poke_def b1 dp d ex sshbuf_bytes_def)
  show "buf_max_size (sshbuf_poke b1 dp bs) = buf_max_size b"
    using s(3) by (simp add: sshbuf_poke_def b1)
  show "sshbuf_writable (sshbuf_poke b1 dp bs)"
    using w by (simp add: sshbuf_poke_def b1 sshbuf_writable_def)
qed

lemma sshbuf_reserve_error:
  assumes inv: "sshbuf_inv b" and res: "sshbuf_reserve env b len = (Inl e, b')"
  shows "sshbuf_inv b'" and "sshbuf_bytes b' = sshbuf_bytes b"
    and "buf_max_size b' = buf_max_size b"
    and "sshbuf_allocate env b len = (Inl e, b')"
proof -
  from res show al: "sshbuf_allocate env b len = (Inl e, b')"
    by (cases "sshbuf_allocate env b len") (auto simp: sshbuf_reserve_def rbind_def split: sum.splits)
  from sshbuf_allocate_spec [OF inv al]
  show "sshbuf_inv b'" and "sshbuf_bytes b' = sshbuf_bytes b"
    and "buf_max_size b' = buf_max_size b" by blast+
qed

section \<open>Consumption\<close>

lemma sshbuf_consume_ok:
  assumes inv: "sshbuf_inv b" and n: "n \<le> length (sshbuf_bytes b)"
  shows "\<exists>b'. sshbuf_consume b n = (Inr (), b') \<and> sshbuf_inv b' \<and>
    sshbuf_bytes b' = drop n (sshbuf_bytes b) \<and> buf_max_size b' = buf_max_size b \<and>
    sshbuf_writable b' = sshbuf_writable b \<and> buf_refcount b' = buf_refcount b \<and>
    buf_parent b' = buf_parent b \<and> buf_cd b' = buf_cd b"
proof -
  note bd = sshbuf_inv_bounds [OF inv]
  let ?b = "b\<lparr>buf_off := buf_off b + n\<rparr>"
  have n': "n \<le> buf_size b - buf_off b" using inv n by simp
  have ex: "szadd (buf_off b) n = buf_off b + n" using bd n' by (intro szadd_exact) simp
  have "sshbuf_consume b n = (Inr (), ?b)"
    using inv n bd by (simp add: sshbuf_consume_def sshbuf_len_bytes ex)
  moreover have "sshbuf_inv ?b"
    using inv n' bd by (auto simp: sshbuf_inv_def sshbuf_check_sanity_def)
  moreover have "sshbuf_bytes ?b = drop n (sshbuf_bytes b)"
    using n' bd by (simp add: sshbuf_bytes_def drop_mem_read diff_diff_left)
  ultimately show ?thesis by (simp add: sshbuf_writable_def)
qed

lemma sshbuf_consume_short:
  assumes inv: "sshbuf_inv b" and n: "length (sshbuf_bytes b) < n"
  shows "sshbuf_consume b n = (Inl SSH_ERR_MESSAGE_INCOMPLETE, b)"
  using assms by (auto simp: sshbuf_consume_def sshbuf_len_bytes)

lemma sshbuf_consume_Inr:
  assumes inv: "sshbuf_inv b" and c: "sshbuf_consume b n = (Inr u, b')"
  shows "n \<le> length (sshbuf_bytes b)" and "sshbuf_inv b'"
    and "sshbuf_bytes b' = drop n (sshbuf_bytes b)" and "buf_max_size b' = buf_max_size b"
    and "sshbuf_writable b' = sshbuf_writable b"
proof -
  show n: "n \<le> length (sshbuf_bytes b)"
    using sshbuf_consume_short [OF inv] c by (cases "n \<le> length (sshbuf_bytes b)") auto
  show "sshbuf_inv b'" "sshbuf_bytes b' = drop n (sshbuf_bytes b)"
    "buf_max_size b' = buf_max_size b" "sshbuf_writable b' = sshbuf_writable b"
    using sshbuf_consume_ok [OF inv n] c by auto
qed

lemma sshbuf_consume_end_ok:
  assumes inv: "sshbuf_inv b" and n: "n \<le> length (sshbuf_bytes b)"
  shows "\<exists>b'. sshbuf_consume_end b n = (Inr (), b') \<and> sshbuf_inv b' \<and>
    sshbuf_bytes b' = take (length (sshbuf_bytes b) - n) (sshbuf_bytes b) \<and>
    buf_max_size b' = buf_max_size b \<and> sshbuf_writable b' = sshbuf_writable b"
proof -
  note bd = sshbuf_inv_bounds [OF inv]
  let ?b = "b\<lparr>buf_size := buf_size b - n\<rparr>"
  have n': "n \<le> buf_size b - buf_off b" using inv n by simp
  have ex: "szsub (buf_size b) n = buf_size b - n" using bd n' by (intro szsub_exact) simp_all
  have "sshbuf_consume_end b n = (Inr (), ?b)"
    using inv n bd by (simp add: sshbuf_consume_end_def sshbuf_len_bytes ex)
  moreover have "sshbuf_inv ?b"
    using inv n' bd by (auto simp: sshbuf_inv_def sshbuf_check_sanity_def)
  moreover have "sshbuf_bytes ?b = take (length (sshbuf_bytes b) - n) (sshbuf_bytes b)"
    using inv n' bd by (simp add: sshbuf_bytes_def take_mem_read diff_commute add.commute)
  ultimately show ?thesis by (simp add: sshbuf_writable_def)
qed

lemma sshbuf_consume_end_short:
  assumes inv: "sshbuf_inv b" and n: "length (sshbuf_bytes b) < n"
  shows "sshbuf_consume_end b n = (Inl SSH_ERR_MESSAGE_INCOMPLETE, b)"
  using assms by (auto simp: sshbuf_consume_end_def sshbuf_len_bytes)

section \<open>Reset and size limits\<close>

lemma sshbuf_avail_spec:
  assumes "sshbuf_inv b" and "sshbuf_writable b"
  shows "sshbuf_avail b = buf_max_size b - length (sshbuf_bytes b)"
proof -
  note bd = sshbuf_inv_bounds [OF assms(1)]
  have "szsub (buf_size b) (buf_off b) = buf_size b - buf_off b"
    using bd by (simp add: szsub_exact)
  then show ?thesis
    using assms bd by (simp add: sshbuf_avail_def sshbuf_writable_def szsub_exact)
qed

lemma sshbuf_reset_writable:
  assumes inv: "sshbuf_inv b" and w: "sshbuf_writable b"
    and mx: "SSHBUF_SIZE_INIT \<le> buf_max_size b"
  shows "sshbuf_inv (sshbuf_reset env b)" and "sshbuf_bytes (sshbuf_reset env b) = []"
    and "buf_max_size (sshbuf_reset env b) = buf_max_size b"
    and "sshbuf_writable (sshbuf_reset env b)"
proof -
  note bd = sshbuf_inv_bounds [OF inv]
  from w have ro: "\<not> buf_readonly b" and rc: "\<not> buf_refcount b > 1"
    by (simp_all add: sshbuf_writable_def)
  have len: "length (mem_write 0 (replicate (buf_alloc b) 0) (blk (buf_d b))) = buf_alloc b"
    using sshbuf_inv_ptrs(2,3) [OF inv ro] by simp
  show "sshbuf_inv (sshbuf_reset env b)"
    using inv ro rc bd mx len
    by (auto simp: sshbuf_reset_def Let_def sshbuf_inv_def sshbuf_check_sanity_def
        dest: realloc_bytes_length split: option.splits)
  show "sshbuf_bytes (sshbuf_reset env b) = []"
    and "buf_max_size (sshbuf_reset env b) = buf_max_size b"
    and "sshbuf_writable (sshbuf_reset env b)"
    using ro rc
    by (auto simp: sshbuf_reset_def Let_def sshbuf_bytes_def sshbuf_writable_def split: option.splits)
qed

lemma sshbuf_reset_shared:
  assumes "sshbuf_inv b" and "\<not> sshbuf_writable b"
  shows "sshbuf_inv (sshbuf_reset env b)" and "sshbuf_bytes (sshbuf_reset env b) = []"
  using assms
  by (auto simp: sshbuf_reset_def sshbuf_writable_def sshbuf_inv_def sshbuf_check_sanity_def
      sshbuf_bytes_def)

text \<open>
  The last branch of \<open>sshbuf_reset\<close> reallocates to the initial size without looking at
  \<open>max_size\<close>: below the initial size it leaves a buffer its own sanity check rejects.
\<close>

lemma sshbuf_reset_insane:
  assumes inv: "sshbuf_inv b" and w: "sshbuf_writable b"
    and mx: "buf_max_size b < SSHBUF_SIZE_INIT" and ok: "malloc_ok env SSHBUF_SIZE_INIT"
  shows "\<not> sshbuf_check_sanity (sshbuf_reset env b)"
proof -
  have "buf_alloc b \<noteq> SSHBUF_SIZE_INIT" using sshbuf_inv_bounds(3) [OF inv] mx by simp
  then show ?thesis
    using w mx ok inv
    by (auto simp: sshbuf_reset_def sshbuf_writable_def Let_def realloc_bytes_def
        sshbuf_check_sanity_def)
qed

text \<open>Wiping the unused tail of the block keeps the contents.\<close>

lemma sshbuf_wipe_tail:
  assumes inv: "sshbuf_inv b" and w: "sshbuf_writable b"
  defines "b' \<equiv> set_mem (mem_write (buf_size b)
     (replicate (szsub (buf_alloc b) (buf_size b)) 0) (blk (buf_d b))) b"
  shows "sshbuf_inv b'" and "sshbuf_bytes b' = sshbuf_bytes b" and "sshbuf_writable b'"
proof -
  note bd = sshbuf_inv_bounds [OF inv]
  from w have ro: "\<not> buf_readonly b" by (simp add: sshbuf_writable_def)
  have d: "blk (buf_d b) = blk (buf_cd b)" "length (blk (buf_cd b)) = buf_alloc b"
    using sshbuf_inv_ptrs(2,3) [OF inv ro] by simp_all
  have s: "szsub (buf_alloc b) (buf_size b) = buf_alloc b - buf_size b"
    using bd by (intro szsub_exact) simp_all
  show "sshbuf_inv b'" using inv ro bd d s
    by (auto simp: b'_def sshbuf_inv_def sshbuf_check_sanity_def)
  have "mem_read (buf_off b) (buf_size b - buf_off b)
      (mem_write (buf_size b) (replicate (buf_alloc b - buf_size b) 0) (blk (buf_cd b)))
      = sshbuf_bytes b"
    unfolding sshbuf_bytes_def using bd d by (intro mem_read_write_below) auto
  then show "sshbuf_bytes b' = sshbuf_bytes b" by (simp add: b'_def sshbuf_bytes_def d s)
  show "sshbuf_writable b'" using w by (simp add: b'_def sshbuf_writable_def)
qed

lemma sshbuf_set_max_size_spec:
  assumes inv: "sshbuf_inv b" and res: "sshbuf_set_max_size env b n = (r, b')"
  shows "sshbuf_inv b' \<and> sshbuf_bytes b' = sshbuf_bytes b \<and>
    buf_max_size b' = (if r = Inr () then n else buf_max_size b)"
proof (cases "n \<noteq> buf_max_size b \<and> sshbuf_writable b \<and> n \<le> SSHBUF_SIZE_MAX")
  case False
  with inv res show ?thesis
    by (auto simp: sshbuf_set_max_size_def sshbuf_writable_def split: if_splits)
next
  case True
  define b1 where "b1 = sshbuf_maybe_pack b (n < buf_size b)"
  define b2 where "b2 = set_mem (mem_write (buf_size b1)
     (replicate (szsub (buf_alloc b1) (buf_size b1)) 0) (blk (buf_d b1))) b1"
  define rlen where "rlen =
    (if n < (if buf_size b1 < SSHBUF_SIZE_INIT then SSHBUF_SIZE_INIT
             else ROUNDUP (buf_size b1) SSHBUF_SIZE_INC) then n
     else if buf_size b1 < SSHBUF_SIZE_INIT then SSHBUF_SIZE_INIT
     else ROUNDUP (buf_size b1) SSHBUF_SIZE_INC)"
  have p: "sshbuf_inv b1" "sshbuf_bytes b1 = sshbuf_bytes b" "buf_max_size b1 = buf_max_size b"
    using sshbuf_maybe_pack_inv [OF inv] by (simp_all add: b1_def)
  have w1: "sshbuf_writable b1" using True by (simp add: b1_def sshbuf_writable_def)
  note wt = sshbuf_wipe_tail [OF p(1) w1, folded b2_def]
  note bd = sshbuf_inv_bounds [OF p(1)]
  have rl: "buf_size b1 \<le> rlen" "rlen \<le> n" if "n > buf_size b1"
    using that bd ROUNDUP_ge [of 256 "buf_size b1"]
    by (auto simp: rlen_def SSHBUF_SIZE_INIT_def SSHBUF_SIZE_INC_def)
  have grow: "sshbuf_inv ((set_mem m b2)\<lparr>buf_alloc := rlen\<rparr>) \<and>
      sshbuf_bytes ((set_mem m b2)\<lparr>buf_alloc := rlen\<rparr>) = sshbuf_bytes b"
    if "n < buf_alloc b1" "n > buf_size b1"
      and m: "realloc_bytes env (blk (buf_d b2)) rlen = Some m" for m
    using sshbuf_realloc_step [OF wt(1,3) m] rl that bd p(2) wt(2)
    by (simp add: set_mem_alloc) (simp add: b2_def)
  have eq: "sshbuf_set_max_size env b n =
    rbind
      (if n < buf_alloc b1 \<and> n > buf_size b1 then
         (case realloc_bytes env (blk (buf_d b2)) rlen of
            None \<Rightarrow> (Inl SSH_ERR_ALLOC_FAIL, b2)
          | Some dp \<Rightarrow> (Inr (), (set_mem dp b2)\<lparr>buf_alloc := rlen\<rparr>))
       else (Inr (), b1))
      (\<lambda>_ b3. if n < buf_alloc b3 then (Inl SSH_ERR_NO_BUFFER_SPACE, b3)
              else (Inr (), b3\<lparr>buf_max_size := n\<rparr>))"
    unfolding sshbuf_set_max_size_def Let_def b1_def [symmetric] b2_def [symmetric]
      rlen_def [symmetric]
    using True inv by (simp add: sshbuf_writable_def)
  have mx: "sshbuf_inv (b3\<lparr>buf_max_size := n\<rparr>) \<and> sshbuf_bytes (b3\<lparr>buf_max_size := n\<rparr>) = sshbuf_bytes b3"
    if "sshbuf_inv b3" "\<not> n < buf_alloc b3" for b3
    using that True by (auto simp: sshbuf_inv_def sshbuf_check_sanity_def sshbuf_bytes_def)
  have m2: "buf_max_size b2 = buf_max_size b" by (simp add: b2_def p(3))
  show ?thesis
    using res p wt(1,2) grow mx [of b1] mx m2
    unfolding eq by (auto split: if_splits option.splits)
qed

section \<open>The interface of a byte buffer\<close>

text \<open>
  What the packet and key exchange code relies on: a buffer with an invariant whose abstract
  value is a byte string, where appending and consuming work at the two ends and a failing
  operation changes nothing of the abstract value.
\<close>

locale byte_fifo =
  fixes invar :: "'b \<Rightarrow> bool"
    and content :: "'b \<Rightarrow> bytes"
    and append_bytes :: "'b \<Rightarrow> bytes \<Rightarrow> (ssherr, 'b, unit) outcome"
    and consume :: "'b \<Rightarrow> nat \<Rightarrow> (ssherr, 'b, unit) outcome"
  assumes append_inv: "invar b \<Longrightarrow> append_bytes b xs = (r, b') \<Longrightarrow> invar b'"
    and append_content: "invar b \<Longrightarrow> append_bytes b xs = (r, b') \<Longrightarrow>
      content b' = (if r = Inr () then content b @ xs else content b)"
    and consume_inv: "invar b \<Longrightarrow> consume b n = (r, b') \<Longrightarrow> invar b'"
    and consume_content: "invar b \<Longrightarrow> n \<le> length (content b) \<Longrightarrow>
      \<exists>b'. consume b n = (Inr (), b') \<and> content b' = drop n (content b)"
    and consume_short: "invar b \<Longrightarrow> length (content b) < n \<Longrightarrow>
      consume b n = (Inl SSH_ERR_MESSAGE_INCOMPLETE, b)"
begin

text \<open>
  A run of appends and consumes, and the same run on byte strings: the buffer refines the
  abstract queue whatever the interleaving.
\<close>

primrec run :: "(bytes + nat) list \<Rightarrow> 'b \<Rightarrow> (ssherr, 'b, unit) outcome" where
  "run [] b = (Inr (), b)"
| "run (x # xs) b =
     rbind (case x of Inl bs \<Rightarrow> append_bytes b bs | Inr n \<Rightarrow> consume b n) (\<lambda>_. run xs)"

primrec abs_run :: "(bytes + nat) list \<Rightarrow> bytes \<Rightarrow> bytes" where
  "abs_run [] q = q"
| "abs_run (x # xs) q = abs_run xs (case x of Inl bs \<Rightarrow> q @ bs | Inr n \<Rightarrow> drop n q)"

lemma consume_success:
  assumes "invar b" and "consume b n = (Inr u, b')"
  shows "invar b' \<and> content b' = drop n (content b)"
proof -
  have "n \<le> length (content b)"
    using assms consume_short [of b n] by (cases "n \<le> length (content b)") auto
  then show ?thesis using assms consume_content [of b n] consume_inv by auto
qed

lemma run_refines:
  "invar b \<Longrightarrow> run xs b = (Inr u, b') \<Longrightarrow> invar b' \<and> content b' = abs_run xs (content b)"
proof (induction xs arbitrary: b)
  case Nil
  then show ?case by simp
next
  case (Cons x xs)
  obtain v b1 where step: "(case x of Inl bs \<Rightarrow> append_bytes b bs | Inr n \<Rightarrow> consume b n) = (Inr v, b1)"
    and rest: "run xs b1 = (Inr u, b')"
    using Cons.prems(2) by (auto simp: rbind_eq_Inr_iff)
  have "invar b1 \<and> content b1 = (case x of Inl bs \<Rightarrow> content b @ bs | Inr n \<Rightarrow> drop n (content b))"
  proof (cases x)
    case (Inl bs)
    then show ?thesis
      using step append_inv [OF Cons.prems(1)] append_content [OF Cons.prems(1)] by simp
  next
    case (Inr n)
    then show ?thesis using step consume_success [OF Cons.prems(1)] by simp
  qed
  with Cons.IH [OF _ rest] show ?case by simp
qed

lemma run_inv: "invar b \<Longrightarrow> run xs b = (r, b') \<Longrightarrow> invar b'"
proof (induction xs arbitrary: b)
  case Nil
  then show ?case by simp
next
  case (Cons x xs)
  obtain s b1 where step: "(case x of Inl bs \<Rightarrow> append_bytes b bs | Inr n \<Rightarrow> consume b n) = (s, b1)"
    by (cases "case x of Inl bs \<Rightarrow> append_bytes b bs | Inr n \<Rightarrow> consume b n") auto
  have inv: "invar b1"
    using step append_inv [OF Cons.prems(1)] consume_inv [OF Cons.prems(1)] by (cases x) simp_all
  show ?case
  proof (cases s)
    case (Inl e)
    then show ?thesis using Cons.prems(2) step inv by simp
  next
    case (Inr u)
    then show ?thesis using Cons.prems(2) step Cons.IH [OF inv] by simp
  qed
qed

end

end
