(* ===== verification/Sshbuf_Getput.thy ===== *)
theory Sshbuf_Getput
  imports Sshbuf
begin

text \<open>
  The typed accessors of \<open>sshbuf-getput-basic.c\<close> and the helpers of \<open>sshbuf-misc.c\<close>:
  integers, length-prefixed strings, C strings, nested buffers, formatted text and the byte
  representation of SSH2 big numbers. A pointer result of the C code is the byte string it
  points to. \<open>sshbuf\<close> with \<open>sshbuf_put\<close> and \<open>sshbuf_consume\<close> is shown to implement the
  interface \<open>byte_fifo\<close>.
\<close>

section \<open>Extracting integers and raw bytes\<close>

definition sshbuf_get :: "sshbuf \<Rightarrow> nat \<Rightarrow> (ssherr, sshbuf, bytes) outcome" where
  "sshbuf_get b len =
     (let p = blk (sshbuf_ptr b) in
      rbind (sshbuf_consume b len) (\<lambda>_ b'. (Inr (take len p), b')))"

definition sshbuf_get_u64 :: "sshbuf \<Rightarrow> (ssherr, sshbuf, u64) outcome" where
  "sshbuf_get_u64 b =
     (let p = blk (sshbuf_ptr b) in
      rbind (sshbuf_consume b 8) (\<lambda>_ b'. (Inr (PEEK_U64 p), b')))"

definition sshbuf_get_u32 :: "sshbuf \<Rightarrow> (ssherr, sshbuf, u32) outcome" where
  "sshbuf_get_u32 b =
     (let p = blk (sshbuf_ptr b) in
      rbind (sshbuf_consume b 4) (\<lambda>_ b'. (Inr (PEEK_U32 p), b')))"

definition sshbuf_get_u16 :: "sshbuf \<Rightarrow> (ssherr, sshbuf, u16) outcome" where
  "sshbuf_get_u16 b =
     (let p = blk (sshbuf_ptr b) in
      rbind (sshbuf_consume b 2) (\<lambda>_ b'. (Inr (PEEK_U16 p), b')))"

definition sshbuf_get_u8 :: "sshbuf \<Rightarrow> (ssherr, sshbuf, byte) outcome" where
  "sshbuf_get_u8 b =
     (let p = blk (sshbuf_ptr b) in
      rbind (sshbuf_consume b 1) (\<lambda>_ b'. (Inr (p ! 0), b')))"

section \<open>Extracting strings\<close>

text \<open>The value is the \<open>*lenp\<close> bytes at \<open>*valp\<close>.\<close>

definition sshbuf_peek_string_direct :: "sshbuf \<Rightarrow> ssherr + bytes" where
  "sshbuf_peek_string_direct b =
     (let p = blk (sshbuf_ptr b) in
      if sshbuf_len b < 4 then Inl SSH_ERR_MESSAGE_INCOMPLETE
      else let len = unat (PEEK_U32 p) in
        if len > SSHBUF_SIZE_MAX - 4 then Inl SSH_ERR_STRING_TOO_LARGE
        else if szsub (sshbuf_len b) 4 < len then Inl SSH_ERR_MESSAGE_INCOMPLETE
        else Inr (take len (drop 4 p)))"

definition sshbuf_get_string_direct :: "sshbuf \<Rightarrow> (ssherr, sshbuf, bytes) outcome" where
  "sshbuf_get_string_direct b =
     (case sshbuf_peek_string_direct b of
        Inl r \<Rightarrow> (Inl r, b)
      | Inr val \<Rightarrow>
          (case sshbuf_consume b (szadd (length val) 4) of
             (Inl _, b') \<Rightarrow> (Inl SSH_ERR_INTERNAL_ERROR, b')
           | (Inr _, b') \<Rightarrow> (Inr val, b')))"

text \<open>\<open>want\<close> is \<open>valp != NULL\<close>: only then is a copy allocated.\<close>

definition sshbuf_get_string :: "alloc_env \<Rightarrow> sshbuf \<Rightarrow> bool \<Rightarrow> (ssherr, sshbuf, bytes) outcome" where
  "sshbuf_get_string env b want =
     rbind (sshbuf_get_string_direct b)
       (\<lambda>val b'. if want \<and> \<not> malloc_ok env (szadd (length val) 1)
                 then (Inl SSH_ERR_ALLOC_FAIL, b') else (Inr val, b'))"

definition memchr_nul :: "bytes \<Rightarrow> nat" where
  "memchr_nul val = length (takeWhile (\<lambda>c. c \<noteq> 0) val)"

definition sshbuf_get_cstring :: "alloc_env \<Rightarrow> sshbuf \<Rightarrow> bool \<Rightarrow> (ssherr, sshbuf, bytes) outcome" where
  "sshbuf_get_cstring env b want =
     (case sshbuf_peek_string_direct b of
        Inl r \<Rightarrow> (Inl r, b)
      | Inr val \<Rightarrow>
          if length val > 0 \<and> memchr_nul val < length val \<and> memchr_nul val < length val - 1
          then (Inl SSH_ERR_INVALID_FORMAT, b)
          else (case sshbuf_get_string_direct b of
                  (Inl _, b') \<Rightarrow> (Inl SSH_ERR_INTERNAL_ERROR, b')
                | (Inr _, b') \<Rightarrow>
                    if want \<and> \<not> malloc_ok env (szadd (length val) 1)
                    then (Inl SSH_ERR_ALLOC_FAIL, b') else (Inr val, b')))"

section \<open>Appending\<close>

definition sshbuf_put :: "alloc_env \<Rightarrow> sshbuf \<Rightarrow> bytes \<Rightarrow> (ssherr, sshbuf, unit) outcome" where
  "sshbuf_put env b v =
     rbind (sshbuf_reserve env b (length v))
       (\<lambda>p b'. (Inr (), if length v \<noteq> 0 then sshbuf_poke b' p v else b'))"

definition sshbuf_putb :: "alloc_env \<Rightarrow> sshbuf \<Rightarrow> sshbuf \<Rightarrow> (ssherr, sshbuf, unit) outcome" where
  "sshbuf_putb env b v = sshbuf_put env b (take (sshbuf_len v) (blk (sshbuf_ptr v)))"

text \<open>
  \<open>sshbuf_get_stringb\<close> works on two buffers, the source and the destination; the outcome
  carries both.
\<close>

definition sshbuf_get_stringb ::
  "alloc_env \<Rightarrow> sshbuf \<Rightarrow> sshbuf \<Rightarrow> (ssherr, sshbuf \<times> sshbuf, unit) outcome" where
  "sshbuf_get_stringb env b v =
     (case sshbuf_peek_string_direct b of
        Inl r \<Rightarrow> (Inl r, (b, v))
      | Inr _ \<Rightarrow>
          (case sshbuf_get_u32 b of
             (Inl r, b1) \<Rightarrow> (Inl r, (b1, v))
           | (Inr len, b1) \<Rightarrow>
               (case sshbuf_reserve env v (unat len) of
                  (Inl r, v1) \<Rightarrow> (Inl r, (b1, v1))
                | (Inr p, v1) \<Rightarrow>
                    (case sshbuf_get b1 (unat len) of
                       (Inl r, b2) \<Rightarrow> (Inl r, (b2, v1))
                     | (Inr bs, b2) \<Rightarrow> (Inr (), (b2, sshbuf_poke v1 p bs))))))"

text \<open>\<open>fmt\<close> is what \<open>vsnprintf\<close> produces, \<open>None\<close> when it returns a negative number.\<close>

definition sshbuf_putfv :: "alloc_env \<Rightarrow> sshbuf \<Rightarrow> bytes option \<Rightarrow> (ssherr, sshbuf, unit) outcome" where
  "sshbuf_putfv env b fmt =
     (case fmt of
        None \<Rightarrow> (Inl SSH_ERR_INVALID_ARGUMENT, b)
      | Some s \<Rightarrow>
          if length s = 0 then (Inr (), b)
          else rbind (sshbuf_reserve env b (szadd (length s) 1))
                 (\<lambda>p b'. sshbuf_consume_end (sshbuf_poke b' p (s @ [0])) 1))"

definition sshbuf_put_u64 :: "alloc_env \<Rightarrow> sshbuf \<Rightarrow> u64 \<Rightarrow> (ssherr, sshbuf, unit) outcome" where
  "sshbuf_put_u64 env b val =
     rbind (sshbuf_reserve env b 8) (\<lambda>p b'. (Inr (), sshbuf_poke b' p (POKE_U64 val)))"

definition sshbuf_put_u32 :: "alloc_env \<Rightarrow> sshbuf \<Rightarrow> u32 \<Rightarrow> (ssherr, sshbuf, unit) outcome" where
  "sshbuf_put_u32 env b val =
     rbind (sshbuf_reserve env b 4) (\<lambda>p b'. (Inr (), sshbuf_poke b' p (POKE_U32 val)))"

definition sshbuf_put_u16 :: "alloc_env \<Rightarrow> sshbuf \<Rightarrow> u16 \<Rightarrow> (ssherr, sshbuf, unit) outcome" where
  "sshbuf_put_u16 env b val =
     rbind (sshbuf_reserve env b 2) (\<lambda>p b'. (Inr (), sshbuf_poke b' p (POKE_U16 val)))"

definition sshbuf_put_u8 :: "alloc_env \<Rightarrow> sshbuf \<Rightarrow> byte \<Rightarrow> (ssherr, sshbuf, unit) outcome" where
  "sshbuf_put_u8 env b val =
     rbind (sshbuf_reserve env b 1) (\<lambda>p b'. (Inr (), sshbuf_poke b' p [val]))"

definition sshbuf_put_string :: "alloc_env \<Rightarrow> sshbuf \<Rightarrow> bytes \<Rightarrow> (ssherr, sshbuf, unit) outcome" where
  "sshbuf_put_string env b v =
     (if length v > SSHBUF_SIZE_MAX - 4 then (Inl SSH_ERR_NO_BUFFER_SPACE, b)
      else rbind (sshbuf_reserve env b (szadd (length v) 4))
        (\<lambda>d b'. (let b1 = sshbuf_poke b' d (POKE_U32 (of_nat (length v)))
                 in (Inr (), if length v \<noteq> 0 then sshbuf_poke b1 (d + 4) v else b1))))"

text \<open>A C string argument is the memory it points to; the string ends before its first NUL.\<close>

definition cstr :: "bytes \<Rightarrow> bytes" where
  "cstr v = takeWhile (\<lambda>c. c \<noteq> 0) v"

definition sshbuf_put_cstring ::
  "alloc_env \<Rightarrow> sshbuf \<Rightarrow> bytes option \<Rightarrow> (ssherr, sshbuf, unit) outcome" where
  "sshbuf_put_cstring env b v =
     sshbuf_put_string env b (case v of None \<Rightarrow> [] | Some s \<Rightarrow> cstr s)"

definition sshbuf_put_stringb :: "alloc_env \<Rightarrow> sshbuf \<Rightarrow> sshbuf \<Rightarrow> (ssherr, sshbuf, unit) outcome" where
  "sshbuf_put_stringb env b v = sshbuf_put_string env b (take (sshbuf_len v) (blk (sshbuf_ptr v)))"

section \<open>Big numbers as byte strings\<close>

definition skip_zeros :: "bytes \<Rightarrow> bytes" where
  "skip_zeros s = dropWhile (\<lambda>c. c = 0) s"

definition sshbuf_put_bignum2_bytes ::
  "alloc_env \<Rightarrow> sshbuf \<Rightarrow> bytes \<Rightarrow> (ssherr, sshbuf, unit) outcome" where
  "sshbuf_put_bignum2_bytes env b v =
     (if length v > SSHBUF_SIZE_MAX - 5 then (Inl SSH_ERR_NO_BUFFER_SPACE, b)
      else
        let s = skip_zeros v;
            len = length s;
            prepend = (if len > 0 \<and> (s ! 0) AND 0x80 \<noteq> 0 then 1 else 0)
        in rbind (sshbuf_reserve env b (len + 4 + prepend))
             (\<lambda>d b'.
                let b1 = sshbuf_poke b' d (POKE_U32 (of_nat (len + prepend)));
                    b2 = (if prepend = 1 then sshbuf_poke b1 (d + 4) [0] else b1)
                in (Inr (), if len \<noteq> 0 then sshbuf_poke b2 (d + 4 + prepend) s else b2)))"

definition sshbuf_get_bignum2_bytes_direct :: "sshbuf \<Rightarrow> (ssherr, sshbuf, bytes) outcome" where
  "sshbuf_get_bignum2_bytes_direct b =
     (case sshbuf_peek_string_direct b of
        Inl r \<Rightarrow> (Inl r, b)
      | Inr d \<Rightarrow>
          let olen = length d in
          if olen \<noteq> 0 \<and> (d ! 0) AND 0x80 \<noteq> 0 then (Inl SSH_ERR_BIGNUM_IS_NEGATIVE, b)
          else if olen > SSHBUF_MAX_BIGNUM + 1 \<or> (olen = SSHBUF_MAX_BIGNUM + 1 \<and> d ! 0 \<noteq> 0)
            then (Inl SSH_ERR_BIGNUM_TOO_LARGE, b)
          else (case sshbuf_consume b (szadd olen 4) of
                  (Inl _, b') \<Rightarrow> (Inl SSH_ERR_INTERNAL_ERROR, b')
                | (Inr _, b') \<Rightarrow> (Inr (skip_zeros d), b')))"

section \<open>Helpers of sshbuf-misc.c\<close>

definition hex_digit :: "byte \<Rightarrow> byte" where
  "hex_digit n = (if n < 10 then 48 + n else 87 + n)"

definition sshbuf_dtob16 :: "alloc_env \<Rightarrow> sshbuf \<Rightarrow> bytes option" where
  "sshbuf_dtob16 env b =
     (let len = sshbuf_len b; p = take len (blk (sshbuf_ptr b)) in
      if len = 0 then (if malloc_ok env 1 then Some [] else None)
      else if SIZE_MAX div 2 \<le> len \<or> \<not> malloc_ok env (szadd (szmul len 2) 1) then None
      else Some (concat (map (\<lambda>c. [hex_digit (drop_bit 4 c AND 0xf), hex_digit (c AND 0xf)]) p)))"

definition sshbuf_dup_string :: "alloc_env \<Rightarrow> sshbuf \<Rightarrow> bytes option" where
  "sshbuf_dup_string env b =
     (let l = sshbuf_len b in
      case sshbuf_ptr b of
        None \<Rightarrow> None
      | Some s0 \<Rightarrow>
          let s = take l s0 in
          if l > SIZE_MAX then None
          else if l > 0 \<and> memchr_nul s < l \<and> memchr_nul s \<noteq> l - 1 then None
          else let l' = (if l > 0 \<and> memchr_nul s < l then l - 1 else l) in
            if \<not> malloc_ok env (szadd l' 1) then None else Some (take l' s))"

section \<open>Appending: every put appends its encoding\<close>

lemma sshbuf_poke_append:
  "sshbuf_poke (sshbuf_poke b d xs) (d + length xs) ys = sshbuf_poke b d (xs @ ys)"
  if "d + length xs + length ys \<le> length (blk (buf_d b))"
proof -
  have "d \<le> length (blk (buf_d b))" using that by simp
  then show ?thesis
    by (simp add: sshbuf_poke_def set_mem_def mem_write_def min_absorb2 drop_drop)
      (simp add: ac_simps)
qed

lemma sshbuf_poke_Nil:
  assumes "sshbuf_inv b" and "\<not> buf_readonly b"
  shows "sshbuf_poke b d [] = b"
  using assms sshbuf_inv_ptrs(1,2) [of b]
  by (cases b) (auto simp: sshbuf_poke_def set_mem_def)

lemma sshbuf_reserve_room:
  assumes inv: "sshbuf_inv b" and res: "sshbuf_reserve env b len = (Inr dp, b1)"
  shows "dp + len \<le> length (blk (buf_d b1))" and "sshbuf_inv b1" and "\<not> buf_readonly b1"
proof -
  from res obtain b0 where al: "sshbuf_allocate env b len = (Inr (), b0)"
    and dp: "dp = buf_size b0" and b1: "b1 = b0\<lparr>buf_size := szadd (buf_size b0) len\<rparr>"
    by (auto simp: sshbuf_reserve_def elim!: rbind_InrE)
  note s = sshbuf_allocate_spec [OF inv al]
  note bd = sshbuf_inv_bounds [OF s(1)]
  have room: "len + buf_size b0 \<le> buf_alloc b0" using s(5) by simp
  have w: "\<not> buf_readonly b0"
    using s(4) s(6) inv by (simp add: sshbuf_check_reserve_None_iff sshbuf_writable_def)
  then show "\<not> buf_readonly b1" by (simp add: b1)
  have d: "blk (buf_d b0) = blk (buf_cd b0)" "length (blk (buf_cd b0)) = buf_alloc b0"
    using sshbuf_inv_ptrs(2,3) [OF s(1)] w by simp_all
  then show "dp + len \<le> length (blk (buf_d b1))" using room by (simp add: dp b1 add.commute)
  have "szadd (buf_size b0) len = buf_size b0 + len"
    using bd room by (intro szadd_exact) simp
  then show "sshbuf_inv b1"
    using s(1) w d bd room by (auto simp: b1 sshbuf_inv_def sshbuf_check_sanity_def)
qed

text \<open>Every typed put is a raw put of the encoding.\<close>

lemma rbind_cong_Inr:
  "(\<And>x s. m = (Inr x, s) \<Longrightarrow> f x s = g x s) \<Longrightarrow> rbind m f = rbind m g"
  by (cases m) (auto simp: rbind_def split: sum.splits)

lemma sshbuf_put_ints_eq:
  "sshbuf_put_u64 env b v8 = sshbuf_put env b (POKE_U64 v8)"
  "sshbuf_put_u32 env b v4 = sshbuf_put env b (POKE_U32 v4)"
  "sshbuf_put_u16 env b v2 = sshbuf_put env b (POKE_U16 v2)"
  "sshbuf_put_u8 env b v1 = sshbuf_put env b [v1]"
  by (simp_all add: sshbuf_put_u64_def sshbuf_put_u32_def sshbuf_put_u16_def sshbuf_put_u8_def
      sshbuf_put_def)

definition wire_string :: "bytes \<Rightarrow> bytes" where
  "wire_string v = POKE_U32 (of_nat (length v)) @ v"

lemma length_wire_string [simp]: "length (wire_string v) = length v + 4"
  by (simp add: wire_string_def)

lemma sshbuf_put_string_eq:
  assumes inv: "sshbuf_inv b" and len: "length v \<le> SSHBUF_SIZE_MAX - 4"
  shows "sshbuf_put_string env b v = sshbuf_put env b (wire_string v)"
proof -
  have ex: "szadd (length v) 4 = length v + 4"
    using len by (intro szadd_exact) (simp add: SSHBUF_SIZE_MAX_def)
  have "(let b1 = sshbuf_poke b' d (POKE_U32 (of_nat (length v)))
         in (Inr () :: ssherr + unit, if length v \<noteq> 0 then sshbuf_poke b1 (d + 4) v else b1)) =
        (Inr (), sshbuf_poke b' d (wire_string v))"
    if "sshbuf_reserve env b (length v + 4) = (Inr d, b')" for d b'
    using sshbuf_poke_append [of d "POKE_U32 (of_nat (length v))" v b']
      sshbuf_reserve_room(1) [OF inv that]
    by (auto simp: wire_string_def Let_def)
  then show ?thesis
    using len
    by (simp add: sshbuf_put_string_def ex sshbuf_put_def del: length_greater_0_conv)
      (rule rbind_cong_Inr, simp)
qed

definition wire_bignum :: "bytes \<Rightarrow> bytes" where
  "wire_bignum v = (let s = skip_zeros v in
     wire_string ((if s \<noteq> [] \<and> (s ! 0) AND 0x80 \<noteq> 0 then [0] else []) @ s))"

lemma length_skip_zeros: "length (skip_zeros v) \<le> length v"
  by (simp add: skip_zeros_def length_dropWhile_le)

lemma sshbuf_put_bignum2_bytes_eq:
  assumes inv: "sshbuf_inv b" and len: "length v \<le> SSHBUF_SIZE_MAX - 5"
  shows "sshbuf_put_bignum2_bytes env b v = sshbuf_put env b (wire_bignum v)"
proof -
  define s where "s = skip_zeros v"
  define pre :: bytes where "pre = (if s \<noteq> [] \<and> (s ! 0) AND 0x80 \<noteq> 0 then [0] else [])"
  have lp: "(if length s > 0 \<and> (s ! 0) AND 0x80 \<noteq> 0 then 1 else 0) = length pre"
    by (simp add: pre_def)
  have step: "(let b1 = sshbuf_poke b' d (POKE_U32 (of_nat (length s + length pre)));
             b2 = (if length pre = 1 then sshbuf_poke b1 (d + 4) [0] else b1)
         in (Inr () :: ssherr + unit,
             if length s \<noteq> 0 then sshbuf_poke b2 (d + 4 + length pre) s else b2)) =
        (Inr (), sshbuf_poke b' d (wire_string (pre @ s)))"
    if r: "sshbuf_reserve env b (length s + 4 + length pre) = (Inr d, b')" for d b'
  proof -
    note room = sshbuf_reserve_room [OF inv r]
    have p: "length pre = 0 \<and> pre = [] \<or> length pre = 1 \<and> pre = [0]" by (simp add: pre_def)
    show ?thesis
      using p room(1)
        sshbuf_poke_append [of d "POKE_U32 (of_nat (length s + length pre))" pre b']
        sshbuf_poke_append [of d "POKE_U32 (of_nat (length s + length pre)) @ pre" s b']
      by (auto simp: wire_string_def Let_def add.commute)
  qed
  have "sshbuf_put_bignum2_bytes env b v =
      rbind (sshbuf_reserve env b (length s + 4 + length pre))
        (\<lambda>d b'. let b1 = sshbuf_poke b' d (POKE_U32 (of_nat (length s + length pre)));
             b2 = (if length pre = 1 then sshbuf_poke b1 (d + 4) [0] else b1)
         in (Inr (), if length s \<noteq> 0 then sshbuf_poke b2 (d + 4 + length pre) s else b2))"
    unfolding sshbuf_put_bignum2_bytes_def Let_def s_def [symmetric] lp using len by simp
  also have "\<dots> = rbind (sshbuf_reserve env b (length s + 4 + length pre))
        (\<lambda>d b'. (Inr (), sshbuf_poke b' d (wire_string (pre @ s))))"
    by (rule rbind_cong_Inr) (rule step)
  also have "\<dots> = sshbuf_put env b (wire_string (pre @ s))"
    by (simp add: sshbuf_put_def ac_simps)
  finally show ?thesis by (simp add: wire_bignum_def s_def [symmetric] pre_def [symmetric])
qed

text \<open>The raw put: contents, invariant and the exact reason of a failure.\<close>

lemma sshbuf_put_spec:
  assumes inv: "sshbuf_inv b" and res: "sshbuf_put env b v = (r, b')"
  shows "sshbuf_inv b'" and "sshbuf_bytes b' = (if r = Inr () then sshbuf_bytes b @ v else sshbuf_bytes b)"
    and "buf_max_size b' = buf_max_size b"
    and "r = Inr () \<Longrightarrow> sshbuf_writable b'"
proof -
  have "sshbuf_inv b' \<and> sshbuf_bytes b' = (if r = Inr () then sshbuf_bytes b @ v else sshbuf_bytes b)
     \<and> buf_max_size b' = buf_max_size b \<and> (r = Inr () \<longrightarrow> sshbuf_writable b')"
  proof (cases "sshbuf_reserve env b (length v)")
    case (Pair rr b1)
    show ?thesis
    proof (cases rr)
      case (Inl e)
      with Pair res sshbuf_reserve_error [OF inv, of env "length v" e b1] show ?thesis
        by (auto simp: sshbuf_put_def)
    next
      case (Inr dp)
      note st = sshbuf_reserve_poke [OF inv Pair [unfolded Inr] refl]
      note rm = sshbuf_reserve_room [OF inv Pair [unfolded Inr]]
      have "b' = sshbuf_poke b1 dp v"
        using res Pair Inr sshbuf_poke_Nil [OF rm(2,3)] by (auto simp: sshbuf_put_def split: if_splits)
      then show ?thesis using st res Pair Inr by (simp add: sshbuf_put_def)
    qed
  qed
  then show "sshbuf_inv b'"
    and "sshbuf_bytes b' = (if r = Inr () then sshbuf_bytes b @ v else sshbuf_bytes b)"
    and "buf_max_size b' = buf_max_size b" and "r = Inr () \<Longrightarrow> sshbuf_writable b'" by auto
qed

lemma sshbuf_put_error:
  assumes inv: "sshbuf_inv b" and res: "sshbuf_put env b v = (Inl e, b')"
  shows "e = (if \<not> sshbuf_writable b then SSH_ERR_BUFFER_READ_ONLY
              else if length (sshbuf_bytes b) + length v > buf_max_size b then SSH_ERR_NO_BUFFER_SPACE
              else SSH_ERR_ALLOC_FAIL)"
proof -
  have "sshbuf_reserve env b (length v) = (Inl e, b')"
    using res by (cases "sshbuf_reserve env b (length v)")
      (auto simp: sshbuf_put_def rbind_def split: sum.splits)
  from sshbuf_reserve_error(4) [OF inv this] show ?thesis by (rule sshbuf_allocate_error [OF inv])
qed

lemma sshbuf_allocate_no_oom:
  assumes inv: "sshbuf_inv b" and env: "\<And>n. malloc_ok env n"
    and ok: "sshbuf_check_reserve b len = None"
  shows "\<exists>b'. sshbuf_allocate env b len = (Inr (), b')"
  unfolding sshbuf_allocate_eq [OF inv ok] using env by (simp add: realloc_bytes_def)

lemma sshbuf_put_ok:
  assumes inv: "sshbuf_inv b" and env: "\<And>n. malloc_ok env n" and w: "sshbuf_writable b"
    and room: "length (sshbuf_bytes b) + length v \<le> buf_max_size b"
  shows "\<exists>b'. sshbuf_put env b v = (Inr (), b') \<and> sshbuf_inv b' \<and>
    sshbuf_bytes b' = sshbuf_bytes b @ v \<and> sshbuf_writable b' \<and> buf_max_size b' = buf_max_size b"
proof -
  have "sshbuf_check_reserve b (length v) = None"
    using inv w room by (simp add: sshbuf_check_reserve_None_iff)
  from sshbuf_allocate_no_oom [OF inv env this] obtain b0
    where "sshbuf_allocate env b (length v) = (Inr (), b0)" by blast
  then obtain b' where b': "sshbuf_put env b v = (Inr (), b')"
    by (simp add: sshbuf_put_def sshbuf_reserve_def)
  from sshbuf_put_spec [OF inv b'] b' show ?thesis by simp
qed

interpretation sb: byte_fifo sshbuf_inv sshbuf_bytes "sshbuf_put env" sshbuf_consume for env
proof unfold_locales
  fix b n r b'
  assume inv: "sshbuf_inv b" and c: "sshbuf_consume b n = (r, b')"
  show "sshbuf_inv b'"
    using c inv sshbuf_consume_short [OF inv, of n] sshbuf_consume_ok [OF inv, of n]
    by (cases "n \<le> length (sshbuf_bytes b)") auto
next
  fix b n
  assume "sshbuf_inv b" "n \<le> length (sshbuf_bytes b)"
  then show "\<exists>b'. sshbuf_consume b n = (Inr (), b') \<and> sshbuf_bytes b' = drop n (sshbuf_bytes b)"
    using sshbuf_consume_ok by blast
next
  fix b n
  assume "sshbuf_inv b" "length (sshbuf_bytes b) < n"
  then show "sshbuf_consume b n = (Inl SSH_ERR_MESSAGE_INCOMPLETE, b)"
    by (rule sshbuf_consume_short)
qed (use sshbuf_put_spec in blast)+

section \<open>Extracting what was appended\<close>

lemma sshbuf_ptr_take:
  "sshbuf_inv b \<Longrightarrow> n \<le> length (sshbuf_bytes b) \<Longrightarrow>
     take n (blk (sshbuf_ptr b)) = take n (sshbuf_bytes b)"
  by (simp add: sshbuf_ptr_def) (simp add: sshbuf_bytes_def mem_read_def)

lemma sshbuf_ptr_nth:
  assumes "sshbuf_inv b" and "i < length (sshbuf_bytes b)"
  shows "blk (sshbuf_ptr b) ! i = sshbuf_bytes b ! i"
  using sshbuf_ptr_take [OF assms(1), of "Suc i"] assms(2)
  by (metis Suc_leI lessI nth_take)

lemma sshbuf_ptr_PEEK:
  assumes "sshbuf_inv b"
  shows "8 \<le> length (sshbuf_bytes b) \<Longrightarrow> PEEK_U64 (blk (sshbuf_ptr b)) = PEEK_U64 (sshbuf_bytes b)"
    and "4 \<le> length (sshbuf_bytes b) \<Longrightarrow> PEEK_U32 (blk (sshbuf_ptr b)) = PEEK_U32 (sshbuf_bytes b)"
    and "2 \<le> length (sshbuf_bytes b) \<Longrightarrow> PEEK_U16 (blk (sshbuf_ptr b)) = PEEK_U16 (sshbuf_bytes b)"
  using sshbuf_ptr_nth [OF assms]
  by (simp_all add: PEEK_U64_def PEEK_U32_def PEEK_U16_def del: length_greater_0_conv)

text \<open>
  \<open>parsed b x rest m\<close>: the extraction \<open>m\<close> of \<open>b\<close> succeeds with \<open>x\<close> and leaves \<open>rest\<close>; the
  limits and the writability of the buffer are untouched.
\<close>

definition parsed :: "sshbuf \<Rightarrow> 'a \<Rightarrow> bytes \<Rightarrow> (ssherr, sshbuf, 'a) outcome \<Rightarrow> bool" where
  "parsed b x rest m \<longleftrightarrow> (\<exists>b'. m = (Inr x, b') \<and> sshbuf_inv b' \<and> sshbuf_bytes b' = rest \<and>
     buf_max_size b' = buf_max_size b \<and> sshbuf_writable b' = sshbuf_writable b)"

lemma parsed_consume:
  assumes inv: "sshbuf_inv b" and cnt: "sshbuf_bytes b = xs @ rest"
  shows "parsed b y rest (rbind (sshbuf_consume b (length xs)) (\<lambda>_ b'. (Inr y, b')))"
  using sshbuf_consume_ok [OF inv, of "length xs"] cnt by (auto simp: parsed_def)

lemma sshbuf_get_ints_ok:
  assumes inv: "sshbuf_inv b"
  shows "sshbuf_bytes b = POKE_U64 v8 @ rest \<Longrightarrow> parsed b v8 rest (sshbuf_get_u64 b)"
    and "sshbuf_bytes b = POKE_U32 v4 @ rest \<Longrightarrow> parsed b v4 rest (sshbuf_get_u32 b)"
    and "sshbuf_bytes b = POKE_U16 v2 @ rest \<Longrightarrow> parsed b v2 rest (sshbuf_get_u16 b)"
    and "sshbuf_bytes b = v1 # rest \<Longrightarrow> parsed b v1 rest (sshbuf_get_u8 b)"
  using parsed_consume [OF inv, of "POKE_U64 v8" rest v8]
    parsed_consume [OF inv, of "POKE_U32 v4" rest v4]
    parsed_consume [OF inv, of "POKE_U16 v2" rest v2]
    parsed_consume [OF inv, of "[v1]" rest v1]
    sshbuf_ptr_PEEK [OF inv] sshbuf_ptr_nth [OF inv, of 0]
  by (simp_all add: sshbuf_get_u64_def sshbuf_get_u32_def sshbuf_get_u16_def sshbuf_get_u8_def)

lemma sshbuf_get_ok:
  assumes inv: "sshbuf_inv b" and cnt: "sshbuf_bytes b = xs @ rest"
  shows "parsed b xs rest (sshbuf_get b (length xs))"
  using parsed_consume [OF assms, of xs] sshbuf_ptr_take [OF inv, of "length xs"] cnt
  by (simp add: sshbuf_get_def)

lemma sshbuf_get_short:
  assumes inv: "sshbuf_inv b"
  shows "length (sshbuf_bytes b) < 8 \<Longrightarrow> sshbuf_get_u64 b = (Inl SSH_ERR_MESSAGE_INCOMPLETE, b)"
    and "length (sshbuf_bytes b) < 4 \<Longrightarrow> sshbuf_get_u32 b = (Inl SSH_ERR_MESSAGE_INCOMPLETE, b)"
    and "length (sshbuf_bytes b) < 2 \<Longrightarrow> sshbuf_get_u16 b = (Inl SSH_ERR_MESSAGE_INCOMPLETE, b)"
    and "sshbuf_bytes b = [] \<Longrightarrow> sshbuf_get_u8 b = (Inl SSH_ERR_MESSAGE_INCOMPLETE, b)"
    and "length (sshbuf_bytes b) < n \<Longrightarrow> sshbuf_get b n = (Inl SSH_ERR_MESSAGE_INCOMPLETE, b)"
  using sshbuf_consume_short [OF inv, of 8] sshbuf_consume_short [OF inv, of 4]
    sshbuf_consume_short [OF inv, of 2] sshbuf_consume_short [OF inv, of 1]
    sshbuf_consume_short [OF inv, of n]
  by (simp_all add: sshbuf_get_u64_def sshbuf_get_u32_def sshbuf_get_u16_def sshbuf_get_u8_def
      sshbuf_get_def del: length_sshbuf_bytes)

lemma unat_of_nat_len: "n \<le> SSHBUF_SIZE_MAX \<Longrightarrow> unat (of_nat n :: u32) = n"
  by (simp add: SSHBUF_SIZE_MAX_def unsigned_of_nat take_bit_nat_eq_self)

text \<open>The string header: what is accepted and every reason for rejection.\<close>

lemma sshbuf_peek_string_direct_eq:
  assumes inv: "sshbuf_inv b"
  defines "bs \<equiv> sshbuf_bytes b"
  shows "sshbuf_peek_string_direct b =
    (if length bs < 4 then Inl SSH_ERR_MESSAGE_INCOMPLETE
     else if unat (PEEK_U32 bs) > SSHBUF_SIZE_MAX - 4 then Inl SSH_ERR_STRING_TOO_LARGE
     else if length bs - 4 < unat (PEEK_U32 bs) then Inl SSH_ERR_MESSAGE_INCOMPLETE
     else Inr (take (unat (PEEK_U32 bs)) (drop 4 bs)))"
proof (cases "length bs < 4")
  case True
  then show ?thesis using inv by (simp add: sshbuf_peek_string_direct_def sshbuf_len_bytes bs_def)
next
  case False
  define n where "n = unat (PEEK_U32 bs)"
  have pk: "PEEK_U32 (blk (sshbuf_ptr b)) = PEEK_U32 bs"
    unfolding bs_def using sshbuf_ptr_PEEK(2) [OF inv] False by (simp add: bs_def)
  have ln: "sshbuf_len b = length bs" using inv by (simp add: sshbuf_len_bytes bs_def)
  have "length bs < 2 ^ 64"
    using inv sshbuf_inv_bounds [OF inv] by (simp add: bs_def)
  then have sz: "szsub (length bs) 4 = length bs - 4" using False by (intro szsub_exact) simp_all
  have tk: "take n (drop 4 (blk (sshbuf_ptr b))) = take n (drop 4 bs)" if "n \<le> length bs - 4"
  proof -
    have "take (n + 4) (blk (sshbuf_ptr b)) = take (n + 4) bs"
      unfolding bs_def using sshbuf_ptr_take [OF inv, of "n + 4"] that False by (simp add: bs_def)
    then have "drop 4 (take (n + 4) (blk (sshbuf_ptr b))) = drop 4 (take (n + 4) bs)" by simp
    then show ?thesis by (simp add: drop_take)
  qed
  show ?thesis
    using False tk
    by (simp add: sshbuf_peek_string_direct_def ln pk sz Let_def n_def [symmetric] not_less)
qed

lemma sshbuf_peek_string_direct_ok:
  assumes inv: "sshbuf_inv b" and cnt: "sshbuf_bytes b = wire_string v @ rest"
    and len: "length v \<le> SSHBUF_SIZE_MAX - 4"
  shows "sshbuf_peek_string_direct b = Inr v"
proof -
  have n: "unat (of_nat (length v) :: u32) = length v"
    using len by (intro unat_of_nat_len) (simp add: SSHBUF_SIZE_MAX_def)
  show ?thesis
    unfolding sshbuf_peek_string_direct_eq [OF inv] cnt
    using len by (simp add: wire_string_def n)
qed

lemma sshbuf_peek_string_direct_sound:
  assumes inv: "sshbuf_inv b" and pk: "sshbuf_peek_string_direct b = Inr v"
  shows "sshbuf_bytes b = wire_string v @ drop (length v + 4) (sshbuf_bytes b)"
    and "length v \<le> SSHBUF_SIZE_MAX - 4"
proof -
  define bs where "bs = sshbuf_bytes b"
  from pk have l4: "4 \<le> length bs" and u: "unat (PEEK_U32 bs) \<le> SSHBUF_SIZE_MAX - 4"
    and c: "unat (PEEK_U32 bs) \<le> length bs - 4"
    and v: "v = take (unat (PEEK_U32 bs)) (drop 4 bs)"
    unfolding sshbuf_peek_string_direct_eq [OF inv] bs_def [symmetric]
    by (auto split: if_splits)
  have lv: "length v = unat (PEEK_U32 bs)" using v c by simp
  have "POKE_U32 (of_nat (length v)) = take 4 bs" using l4 by (simp add: lv POKE_PEEK_U32)
  moreover have "bs = take 4 bs @ v @ drop (length v + 4) bs"
    using v lv by (metis append_take_drop_id drop_drop)
  ultimately show "sshbuf_bytes b = wire_string v @ drop (length v + 4) (sshbuf_bytes b)"
    unfolding bs_def [symmetric] by (simp add: wire_string_def)
  show "length v \<le> SSHBUF_SIZE_MAX - 4" using lv u by simp
qed

lemma sshbuf_get_string_direct_ok:
  assumes inv: "sshbuf_inv b" and cnt: "sshbuf_bytes b = wire_string v @ rest"
    and len: "length v \<le> SSHBUF_SIZE_MAX - 4"
  shows "parsed b v rest (sshbuf_get_string_direct b)"
proof -
  have ex: "szadd (length v) 4 = length v + 4"
    using len by (intro szadd_exact) (simp add: SSHBUF_SIZE_MAX_def)
  show ?thesis
    using sshbuf_consume_ok [OF inv, of "length v + 4"] cnt
    by (auto simp: sshbuf_get_string_direct_def sshbuf_peek_string_direct_ok [OF inv cnt len] ex
        parsed_def)
qed

text \<open>
  The two ``shouldn't happen'' branches of the string readers are unreachable: a failure is
  the failure of the header and leaves the buffer as it was.
\<close>

lemma sshbuf_get_string_direct_cases:
  assumes inv: "sshbuf_inv b"
  shows "(\<exists>e. sshbuf_peek_string_direct b = Inl e \<and> sshbuf_get_string_direct b = (Inl e, b)) \<or>
    (\<exists>v. sshbuf_peek_string_direct b = Inr v \<and>
       parsed b v (drop (length v + 4) (sshbuf_bytes b)) (sshbuf_get_string_direct b))"
proof (cases "sshbuf_peek_string_direct b")
  case (Inl e)
  then show ?thesis by (simp add: sshbuf_get_string_direct_def)
next
  case (Inr v)
  note s = sshbuf_peek_string_direct_sound [OF inv Inr]
  show ?thesis using Inr sshbuf_get_string_direct_ok [OF inv s] by blast
qed

lemma sshbuf_get_cstring_eq:
  assumes inv: "sshbuf_inv b"
  shows "sshbuf_get_cstring env b want =
    (case sshbuf_peek_string_direct b of
       Inl e \<Rightarrow> (Inl e, b)
     | Inr v \<Rightarrow> if memchr_nul v < length v - 1 then (Inl SSH_ERR_INVALID_FORMAT, b)
               else sshbuf_get_string env b want)"
  using sshbuf_get_string_direct_cases [OF inv]
  by (auto simp: sshbuf_get_cstring_def sshbuf_get_string_def parsed_def split: sum.splits)

lemma sshbuf_get_string_ok:
  assumes inv: "sshbuf_inv b" and cnt: "sshbuf_bytes b = wire_string v @ rest"
    and len: "length v \<le> SSHBUF_SIZE_MAX - 4"
    and mem: "want \<Longrightarrow> malloc_ok env (length v + 1)"
  shows "parsed b v rest (sshbuf_get_string env b want)"
proof -
  have "szadd (length v) 1 = length v + 1"
    using len by (intro szadd_exact) (simp add: SSHBUF_SIZE_MAX_def)
  then show ?thesis
    using sshbuf_get_string_direct_ok [OF inv cnt len] mem
    by (auto simp: sshbuf_get_string_def parsed_def)
qed

lemma sshbuf_get_cstring_ok:
  assumes inv: "sshbuf_inv b" and cnt: "sshbuf_bytes b = wire_string v @ rest"
    and len: "length v \<le> SSHBUF_SIZE_MAX - 4" and nul: "0 \<notin> set v"
    and mem: "want \<Longrightarrow> malloc_ok env (length v + 1)"
  shows "parsed b v rest (sshbuf_get_cstring env b want)"
proof -
  have "takeWhile (\<lambda>c. c \<noteq> 0) v = v" using nul by (auto simp: takeWhile_eq_all_conv)
  then have "memchr_nul v = length v" unfolding memchr_nul_def by (rule arg_cong)
  then have "\<not> memchr_nul v < length v - 1" by simp
  then show ?thesis
    using sshbuf_get_string_ok [OF inv cnt len mem]
    by (simp add: sshbuf_get_cstring_eq [OF inv] sshbuf_peek_string_direct_ok [OF inv cnt len])
qed

lemma skip_zeros_Cons_nz: "skip_zeros v = c # cs \<Longrightarrow> c \<noteq> 0"
  by (metis (mono_tags) dropWhile_eq_Cons_conv skip_zeros_def)

lemma skip_zeros_idem [simp]: "skip_zeros (skip_zeros v) = skip_zeros v"
  by (simp add: skip_zeros_def dropWhile_idem)

lemma sshbuf_get_bignum2_ok:
  assumes inv: "sshbuf_inv b" and cnt: "sshbuf_bytes b = wire_bignum v @ rest"
    and len: "length (skip_zeros v) \<le> SSHBUF_MAX_BIGNUM"
  shows "parsed b (skip_zeros v) rest (sshbuf_get_bignum2_bytes_direct b)"
proof -
  define s where "s = skip_zeros v"
  define d where "d = (if s \<noteq> [] \<and> (s ! 0) AND 0x80 \<noteq> 0 then [0] else []) @ s"
  have cnt': "sshbuf_bytes b = wire_string d @ rest"
    using cnt by (simp add: wire_bignum_def d_def s_def)
  have ld: "length d \<le> Suc (length s)" by (simp add: d_def)
  then have l: "length d \<le> SSHBUF_SIZE_MAX - 4"
    using len by (simp add: s_def SSHBUF_SIZE_MAX_def SSHBUF_MAX_BIGNUM_def)
  have ex: "szadd (length d) 4 = length d + 4"
    using l by (intro szadd_exact) (simp add: SSHBUF_SIZE_MAX_def)
  have sz: "skip_zeros d = s"
    by (simp add: d_def) (simp add: s_def skip_zeros_def dropWhile_idem)
  have pos: "\<not> (length d \<noteq> 0 \<and> (d ! 0) AND 0x80 \<noteq> 0)" by (auto simp: d_def)
  have fit: "\<not> (length d > SSHBUF_MAX_BIGNUM + 1 \<or> (length d = SSHBUF_MAX_BIGNUM + 1 \<and> d ! 0 \<noteq> 0))"
    using len by (auto simp: d_def s_def)
  show ?thesis
    using sshbuf_consume_ok [OF inv, of "length d + 4"] cnt' pos fit sz
    by (auto simp: sshbuf_get_bignum2_bytes_direct_def sshbuf_peek_string_direct_ok [OF inv cnt' l]
        Let_def ex parsed_def s_def [symmetric])
qed

section \<open>Messages: sequences of typed fields\<close>

text \<open>
  A message is a sequence of typed fields. Writing the fields and reading them back with the
  accessors above gives the message back, and whatever the readers accept is the encoding of
  what they return.
\<close>

datatype wire_item = WU8 byte | WU16 u16 | WU32 u32 | WU64 u64 | WString bytes
datatype wire_kind = KU8 | KU16 | KU32 | KU64 | KString

fun kind_of :: "wire_item \<Rightarrow> wire_kind" where
  "kind_of (WU8 _) = KU8"
| "kind_of (WU16 _) = KU16"
| "kind_of (WU32 _) = KU32"
| "kind_of (WU64 _) = KU64"
| "kind_of (WString _) = KString"

fun encode_item :: "wire_item \<Rightarrow> bytes" where
  "encode_item (WU8 v) = [v]"
| "encode_item (WU16 v) = POKE_U16 v"
| "encode_item (WU32 v) = POKE_U32 v"
| "encode_item (WU64 v) = POKE_U64 v"
| "encode_item (WString v) = wire_string v"

fun item_ok :: "wire_item \<Rightarrow> bool" where
  "item_ok (WString v) = (length v \<le> SSHBUF_SIZE_MAX - 4)"
| "item_ok _ = True"

fun put_item :: "alloc_env \<Rightarrow> sshbuf \<Rightarrow> wire_item \<Rightarrow> (ssherr, sshbuf, unit) outcome" where
  "put_item env b (WU8 v) = sshbuf_put_u8 env b v"
| "put_item env b (WU16 v) = sshbuf_put_u16 env b v"
| "put_item env b (WU32 v) = sshbuf_put_u32 env b v"
| "put_item env b (WU64 v) = sshbuf_put_u64 env b v"
| "put_item env b (WString v) = sshbuf_put_string env b v"

definition rmap :: "('a \<Rightarrow> 'b) \<Rightarrow> ('e, 's, 'a) outcome \<Rightarrow> ('e, 's, 'b) outcome" where
  "rmap f m = rbind m (\<lambda>x s. (Inr (f x), s))"

fun get_item :: "sshbuf \<Rightarrow> wire_kind \<Rightarrow> (ssherr, sshbuf, wire_item) outcome" where
  "get_item b KU8 = rmap WU8 (sshbuf_get_u8 b)"
| "get_item b KU16 = rmap WU16 (sshbuf_get_u16 b)"
| "get_item b KU32 = rmap WU32 (sshbuf_get_u32 b)"
| "get_item b KU64 = rmap WU64 (sshbuf_get_u64 b)"
| "get_item b KString = rmap WString (sshbuf_get_string_direct b)"

primrec put_items :: "alloc_env \<Rightarrow> wire_item list \<Rightarrow> sshbuf \<Rightarrow> (ssherr, sshbuf, unit) outcome" where
  "put_items env [] b = (Inr (), b)"
| "put_items env (x # xs) b = rbind (put_item env b x) (\<lambda>_. put_items env xs)"

primrec get_items :: "wire_kind list \<Rightarrow> sshbuf \<Rightarrow> (ssherr, sshbuf, wire_item list) outcome" where
  "get_items [] b = (Inr [], b)"
| "get_items (k # ks) b =
     rbind (get_item b k) (\<lambda>x b'. rmap ((#) x) (get_items ks b'))"

definition encode_items :: "wire_item list \<Rightarrow> bytes" where
  "encode_items xs = concat (map encode_item xs)"

lemma put_item_eq:
  "sshbuf_inv b \<Longrightarrow> item_ok x \<Longrightarrow> put_item env b x = sshbuf_put env b (encode_item x)"
  by (cases x) (simp_all add: sshbuf_put_ints_eq sshbuf_put_string_eq)

lemma parsed_rmap: "parsed b x rest m \<Longrightarrow> parsed b (f x) rest (rmap f m)"
  by (auto simp: parsed_def rmap_def)

lemma get_item_ok:
  assumes "sshbuf_inv b" and "item_ok x" and "sshbuf_bytes b = encode_item x @ rest"
  shows "parsed b x rest (get_item b (kind_of x))"
  using assms
  by (cases x) (auto intro!: parsed_rmap sshbuf_get_ints_ok sshbuf_get_string_direct_ok)

lemma put_items_ok:
  assumes env: "\<And>n. malloc_ok env n"
  shows "sshbuf_inv b \<Longrightarrow> sshbuf_writable b \<Longrightarrow> list_all item_ok xs \<Longrightarrow>
    length (sshbuf_bytes b) + length (encode_items xs) \<le> buf_max_size b \<Longrightarrow>
    \<exists>b'. put_items env xs b = (Inr (), b') \<and> sshbuf_inv b' \<and>
      sshbuf_bytes b' = sshbuf_bytes b @ encode_items xs"
proof (induction xs arbitrary: b)
  case Nil
  then show ?case by (simp add: encode_items_def)
next
  case (Cons x xs)
  have room: "length (sshbuf_bytes b) + length (encode_item x) \<le> buf_max_size b"
    using Cons.prems(4) by (simp add: encode_items_def)
  obtain b1 where b1: "sshbuf_put env b (encode_item x) = (Inr (), b1)" "sshbuf_inv b1"
    "sshbuf_bytes b1 = sshbuf_bytes b @ encode_item x" "sshbuf_writable b1"
    "buf_max_size b1 = buf_max_size b"
    using sshbuf_put_ok [OF Cons.prems(1) env Cons.prems(2) room] by blast
  have "length (sshbuf_bytes b1) + length (encode_items xs) \<le> buf_max_size b1"
    using Cons.prems(4) by (simp add: b1(3,5) encode_items_def del: length_sshbuf_bytes)
  with Cons.IH [OF b1(2,4)] Cons.prems(3) obtain b' where
    "put_items env xs b1 = (Inr (), b')" "sshbuf_inv b'"
    "sshbuf_bytes b' = sshbuf_bytes b1 @ encode_items xs" by auto
  then show ?case
    using b1 Cons.prems(1,3) by (simp add: put_item_eq encode_items_def)
qed

lemma get_items_ok:
  "sshbuf_inv b \<Longrightarrow> list_all item_ok xs \<Longrightarrow> sshbuf_bytes b = encode_items xs @ rest \<Longrightarrow>
   parsed b xs rest (get_items (map kind_of xs) b)"
proof (induction xs arbitrary: b)
  case Nil
  then show ?case by (simp add: encode_items_def parsed_def)
next
  case (Cons x xs)
  have "parsed b x (encode_items xs @ rest) (get_item b (kind_of x))"
    using Cons.prems by (intro get_item_ok) (simp_all add: encode_items_def)
  then obtain b1 where b1: "get_item b (kind_of x) = (Inr x, b1)" "sshbuf_inv b1"
    "sshbuf_bytes b1 = encode_items xs @ rest" "buf_max_size b1 = buf_max_size b"
    "sshbuf_writable b1 = sshbuf_writable b" by (auto simp: parsed_def)
  have "parsed b1 xs rest (get_items (map kind_of xs) b1)"
    using Cons.IH [OF b1(2) _ b1(3)] Cons.prems(2) by simp
  with b1 show ?case by (auto simp: parsed_def rmap_def)
qed

section \<open>Properties\<close>

text \<open>
  C28. A message survives the buffer: on an empty writable buffer with room for it and an
  allocator that does not fail, writing any sequence of integers and strings with the
  \<open>sshbuf_put\<close> functions succeeds, and reading the same kinds of fields back with the
  \<open>sshbuf_get\<close> functions returns exactly these fields and leaves the buffer empty.
\<close>

theorem message_roundtrip:
  assumes "sshbuf_inv b" and "sshbuf_writable b" and "sshbuf_bytes b = []"
    and "\<And>n. malloc_ok env n" and "list_all item_ok xs"
    and "length (encode_items xs) \<le> buf_max_size b"
  shows "\<exists>b1 b2. put_items env xs b = (Inr (), b1) \<and>
    get_items (map kind_of xs) b1 = (Inr xs, b2) \<and> sshbuf_bytes b2 = []"
proof -
  obtain b1 where b1: "put_items env xs b = (Inr (), b1)" "sshbuf_inv b1"
    "sshbuf_bytes b1 = encode_items xs"
    using put_items_ok [of env b xs] assms by auto
  with get_items_ok [of b1 xs "[]"] assms(5) show ?thesis by (auto simp: parsed_def)
qed

text \<open>The buffer that \<open>sshbuf_new\<close> returns when memory is available, for concrete runs.\<close>

definition new_buf :: sshbuf where
  "new_buf = the (sshbuf_new plenty)"

lemma sshbuf_new_plenty: "sshbuf_new plenty = Some new_buf"
  by (simp add: new_buf_def sshbuf_new_def Let_def calloc_bytes_def)

lemma new_buf_facts [simp]:
  "sshbuf_inv new_buf" "sshbuf_bytes new_buf = []" "sshbuf_writable new_buf"
  "buf_max_size new_buf = SSHBUF_SIZE_MAX" "buf_parent new_buf = None" "buf_refcount new_buf = 1"
  using sshbuf_new_inv [OF sshbuf_new_plenty] sshbuf_new_plenty
  by (simp_all add: new_buf_def sshbuf_new_def Let_def calloc_bytes_def)

lemma message_roundtrip_witness:
  "\<exists>b1 b2. put_items plenty [WU8 20, WU32 7, WString [1, 2, 3]] new_buf = (Inr (), b1) \<and>
     get_items [KU8, KU32, KString] b1 = (Inr [WU8 20, WU32 7, WString [1, 2, 3]], b2) \<and>
     sshbuf_bytes b2 = []"
  using message_roundtrip [of new_buf plenty "[WU8 20, WU32 7, WString [1, 2, 3]]"]
  by (simp add: SSHBUF_SIZE_MAX_def encode_items_def)

text \<open>
  C11. The buffer refines a byte queue: whatever sequence of \<open>sshbuf_put\<close> and \<open>sshbuf_consume\<close>
  calls a client makes, if every call succeeds the contents are those of the queue after the
  same sequence, and the invariant holds after any sequence, failed calls included.
\<close>

theorem sshbuf_refines_queue:
  assumes "sshbuf_inv b" and "sb.run env xs b = (r, b')"
  shows "sshbuf_inv b' \<and> (r = Inr () \<longrightarrow> sshbuf_bytes b' = sb.abs_run xs (sshbuf_bytes b))"
  using sb.run_inv [OF assms] sb.run_refines [OF assms(1), of env xs "()" b'] assms(2) by auto

lemma sshbuf_refines_queue_witness:
  "\<exists>b'. sb.run plenty [Inl [1, 2, 3], Inr 2, Inl [4]] new_buf = (Inr (), b') \<and> sshbuf_bytes b' = [3, 4]"
proof -
  obtain b1 where b1: "sshbuf_put plenty new_buf [1, 2, 3] = (Inr (), b1)" "sshbuf_inv b1"
    "sshbuf_bytes b1 = [1, 2, 3]" "sshbuf_writable b1" "buf_max_size b1 = SSHBUF_SIZE_MAX"
    using sshbuf_put_ok [of new_buf plenty "[1, 2, 3]"] by (auto simp: SSHBUF_SIZE_MAX_def)
  obtain b2 where b2: "sshbuf_consume b1 2 = (Inr (), b2)" "sshbuf_inv b2" "sshbuf_bytes b2 = [3]"
    "sshbuf_writable b2" "buf_max_size b2 = SSHBUF_SIZE_MAX"
    using sshbuf_consume_ok [OF b1(2), of 2] b1(3-5) by auto
  obtain b3 where "sshbuf_put plenty b2 [4] = (Inr (), b3)"
    using sshbuf_put_ok [OF b2(2), where env = plenty and v = "[4]"] b2(3-5) by (auto simp: SSHBUF_SIZE_MAX_def)
  then have r: "sb.run plenty [Inl [1, 2, 3], Inr 2, Inl [4]] new_buf = (Inr (), b3)"
    by (simp add: b1(1) b2(1))
  with sshbuf_refines_queue [OF _ r] show ?thesis by simp
qed

text \<open>
  \<open>sshbuf_put\<close> either appends its bytes or changes nothing a reader can see. It fails only
  for the three reasons it documents, checked in this order: the buffer is read-only or shared,
  its contents and the new bytes exceed the maximum size, or memory ran out. On a sane buffer it
  never reports an internal error.
\<close>

theorem sshbuf_put_outcome:
  assumes "sshbuf_inv b"
  shows "case sshbuf_put env b v of
     (Inr _, b') \<Rightarrow> sshbuf_inv b' \<and> sshbuf_bytes b' = sshbuf_bytes b @ v
   | (Inl e, b') \<Rightarrow> sshbuf_inv b' \<and> sshbuf_bytes b' = sshbuf_bytes b \<and>
       e = (if \<not> sshbuf_writable b then SSH_ERR_BUFFER_READ_ONLY
            else if length (sshbuf_bytes b) + length v > buf_max_size b then SSH_ERR_NO_BUFFER_SPACE
            else SSH_ERR_ALLOC_FAIL)"
proof -
  obtain r b' where res: "sshbuf_put env b v = (r, b')" by force
  show ?thesis
  proof (cases r)
    case (Inl e)
    then show ?thesis
      using sshbuf_put_spec(1,2) [OF assms res] sshbuf_put_error [OF assms, of env v e b'] res
      by (simp del: length_sshbuf_bytes)
  next
    case (Inr u)
    then show ?thesis using sshbuf_put_spec(1,2) [OF assms res] res by simp
  qed
qed

lemma sshbuf_put_outcome_witness:
  "\<exists>b'. sshbuf_put plenty new_buf [7] = (Inr (), b') \<and> sshbuf_bytes b' = [7]"
proof -
  obtain b' where "sshbuf_put plenty new_buf [7] = (Inr (), b')"
    using sshbuf_put_ok [of new_buf plenty "[7]"] by (auto simp: SSHBUF_SIZE_MAX_def)
  with sshbuf_put_outcome [where b = new_buf and env = plenty and v = "[7]"] show ?thesis by simp
qed

text \<open>
  A string field accepted by \<open>sshbuf_peek_string_direct\<close> lies entirely inside the buffer: the
  contents start with its length prefix and its bytes, and its length is within the limit
  whatever the (untrusted) prefix said.
\<close>

theorem peek_string_in_bounds:
  assumes "sshbuf_inv b" and "sshbuf_peek_string_direct b = Inr v"
  shows "sshbuf_bytes b = wire_string v @ drop (length v + 4) (sshbuf_bytes b) \<and>
    length v + 4 \<le> sshbuf_len b \<and> length v \<le> SSHBUF_SIZE_MAX - 4"
proof -
  note s = sshbuf_peek_string_direct_sound [OF assms]
  have "length (wire_string v) \<le> length (sshbuf_bytes b)"
    using s(1) [THEN arg_cong, of length] by (simp del: length_sshbuf_bytes length_wire_string)
  then show ?thesis using s sshbuf_len_bytes [OF assms(1)] by (simp del: length_sshbuf_bytes)
qed

lemma peek_string_in_bounds_witness:
  "\<exists>b. sshbuf_from plenty (Some [0, 0, 0, 2, 5, 6, 9]) 7 = Some b \<and>
     sshbuf_peek_string_direct b = Inr [5, 6] \<and> 6 \<le> sshbuf_len b"
proof -
  obtain b where b: "sshbuf_from plenty (Some [0, 0, 0, 2, 5, 6, 9]) 7 = Some b"
    by (simp add: sshbuf_from_def SSHBUF_SIZE_MAX_def)
  have i: "sshbuf_inv b" "sshbuf_bytes b = wire_string [5, 6] @ [9]"
    using sshbuf_from_inv [OF b] by (simp_all add: wire_string_def POKE_U32_def)
  have p: "sshbuf_peek_string_direct b = Inr [5, 6]"
    using sshbuf_peek_string_direct_ok [OF i] by (simp add: SSHBUF_SIZE_MAX_def)
  from peek_string_in_bounds [OF i(1) p] b p show ?thesis by auto
qed

text \<open>
  Big numbers survive the wire: on an empty writable buffer \<open>sshbuf_put_bignum2_bytes\<close>
  followed by \<open>sshbuf_get_bignum2_bytes_direct\<close> returns the number without its leading zeros,
  for every magnitude of at most \<open>SSHBUF_MAX_BIGNUM\<close> bytes; a set top bit is never read as a
  sign.
\<close>

theorem bignum_roundtrip:
  assumes "sshbuf_inv b" and "sshbuf_writable b" and "sshbuf_bytes b = []"
    and "\<And>n. malloc_ok env n" and "length v \<le> SSHBUF_MAX_BIGNUM"
    and "buf_max_size b = SSHBUF_SIZE_MAX"
  shows "\<exists>b1 b2. sshbuf_put_bignum2_bytes env b v = (Inr (), b1) \<and>
    sshbuf_get_bignum2_bytes_direct b1 = (Inr (skip_zeros v), b2) \<and> sshbuf_bytes b2 = []"
proof -
  have l: "length (skip_zeros v) \<le> SSHBUF_MAX_BIGNUM" using assms(5) length_skip_zeros [of v] by linarith
  have "length (wire_bignum v) \<le> length (skip_zeros v) + 5"
    by (simp add: wire_bignum_def Let_def)
  then have room: "length (sshbuf_bytes b) + length (wire_bignum v) \<le> buf_max_size b"
    using l assms(3,6) by (simp add: SSHBUF_MAX_BIGNUM_def SSHBUF_SIZE_MAX_def del: length_sshbuf_bytes)
  obtain b1 where b1: "sshbuf_put env b (wire_bignum v) = (Inr (), b1)" "sshbuf_inv b1"
    "sshbuf_bytes b1 = wire_bignum v @ []"
    using sshbuf_put_ok [OF assms(1,4,2) room] assms(3) by auto
  have "sshbuf_put_bignum2_bytes env b v = (Inr (), b1)"
    using b1(1) assms(1,5) by (subst sshbuf_put_bignum2_bytes_eq)
      (simp_all add: SSHBUF_MAX_BIGNUM_def SSHBUF_SIZE_MAX_def)
  with sshbuf_get_bignum2_ok [OF b1(2,3) l] show ?thesis by (auto simp: parsed_def)
qed

lemma bignum_roundtrip_witness:
  "\<exists>b1 b2. sshbuf_put_bignum2_bytes plenty new_buf [0, 0x80, 1] = (Inr (), b1) \<and>
    sshbuf_get_bignum2_bytes_direct b1 = (Inr [0x80, 1], b2) \<and> sshbuf_bytes b2 = []"
  using bignum_roundtrip [of new_buf plenty "[0, 0x80, 1]"]
  by (simp add: SSHBUF_MAX_BIGNUM_def skip_zeros_def)

text \<open>
  Changing the maximum size never loses data: whatever \<open>sshbuf_set_max_size\<close> returns, the
  invariant and the contents are kept, and the limit is the new one exactly on success.
\<close>

theorem set_max_size_keeps_contents:
  assumes "sshbuf_inv b" and "sshbuf_set_max_size env b n = (r, b')"
  shows "sshbuf_inv b' \<and> sshbuf_bytes b' = sshbuf_bytes b \<and>
    buf_max_size b' = (if r = Inr () then n else buf_max_size b)"
  by (rule sshbuf_set_max_size_spec [OF assms])

lemma set_max_size_keeps_contents_witness:
  "sshbuf_inv new_buf \<and> sshbuf_inv (snd (sshbuf_set_max_size plenty new_buf 100)) \<and>
   sshbuf_bytes (snd (sshbuf_set_max_size plenty new_buf 100)) = []"
  using set_max_size_keeps_contents
    [of new_buf plenty 100 "fst (sshbuf_set_max_size plenty new_buf 100)"
        "snd (sshbuf_set_max_size plenty new_buf 100)"] by simp

text \<open>
  \<open>sshbuf_reset\<close> ignores the maximum size: on a writable buffer limited to less than the
  initial 256 bytes it reallocates to 256 bytes and leaves a buffer that \<open>sshbuf_check_sanity\<close>
  rejects, so that every later call on it fails; with a limit of at least 256 it keeps the
  invariant and empties the buffer.
\<close>

theorem sshbuf_reset_limit:
  assumes "sshbuf_inv b" and "sshbuf_writable b" and "malloc_ok env SSHBUF_SIZE_INIT"
  shows "if buf_max_size b < SSHBUF_SIZE_INIT then \<not> sshbuf_check_sanity (sshbuf_reset env b)
    else sshbuf_inv (sshbuf_reset env b) \<and> sshbuf_bytes (sshbuf_reset env b) = []"
  using sshbuf_reset_insane [OF assms(1,2) _ assms(3)] sshbuf_reset_writable [OF assms(1,2)]
  by (simp add: not_less)

definition small_buf :: sshbuf where
  "small_buf = \<lparr>buf_d = Some (replicate 64 0), buf_cd = Some (replicate 64 0), buf_off = 0,
     buf_size = 0, buf_max_size = 64, buf_alloc = 64, buf_readonly = False, buf_dont_free = False,
     buf_refcount = 1, buf_parent = None\<rparr>"

lemma sshbuf_reset_limit_witness:
  "sshbuf_inv small_buf \<and> \<not> sshbuf_check_sanity (sshbuf_reset plenty small_buf)"
proof -
  have "sshbuf_inv small_buf" "sshbuf_writable small_buf"
    by (simp_all add: small_buf_def sshbuf_inv_def sshbuf_check_sanity_def sshbuf_writable_def
        sshbuf_consts SSHBUF_REFS_MAX_def)
  then show ?thesis using sshbuf_reset_limit [of small_buf plenty]
    by (simp add: small_buf_def SSHBUF_SIZE_INIT_def)
qed

text \<open>
  \<open>sshbuf_from_im\<close>, which adopts the plaintext block of the InterMAC library, trusts its
  caller: it checks only \<open>len\<close> against the global limit, and its result is a valid buffer holding
  the first \<open>len\<close> bytes exactly when \<open>len\<close> does not exceed the allocated size and the allocated
  size is within the limit.
\<close>

theorem from_im_trusts_lengths:
  assumes "sshbuf_from_im env (Some blob) len allocated = Some b" and "length blob = unat allocated"
  shows "(sshbuf_inv b \<longleftrightarrow> len \<le> unat allocated \<and> unat allocated \<le> SSHBUF_SIZE_MAX) \<and>
    (sshbuf_inv b \<longrightarrow> sshbuf_bytes b = take len blob \<and> sshbuf_writable b)"
  using sshbuf_from_im_inv [OF assms] by blast

lemma from_im_trusts_lengths_witness:
  "\<exists>b. sshbuf_from_im plenty (Some [1, 2, 3]) 2 3 = Some b \<and> sshbuf_inv b \<and> sshbuf_bytes b = [1, 2]"
proof -
  obtain b where b: "sshbuf_from_im plenty (Some [1, 2, 3]) 2 3 = Some b"
    by (simp add: sshbuf_from_im_def SSHBUF_SIZE_MAX_def)
  from from_im_trusts_lengths [OF b] b show ?thesis by (simp add: SSHBUF_SIZE_MAX_def)
qed

end
