(* ===== verification/Sshbuf_Refs.thy ===== *)
theory Sshbuf_Refs
  imports Sshbuf_Getput
begin

text \<open>
  Child buffers and reference counts: \<open>sshbuf_set_parent\<close>, \<open>sshbuf_fromb\<close> and \<open>sshbuf_free\<close>
  of \<open>sshbuf.c\<close> and \<open>sshbuf_froms\<close> of \<open>sshbuf-getput-basic.c\<close>. These functions follow the
  \<open>parent\<close> pointers, so they work on a store that maps the address of every live buffer to
  its contents. A new child's address is an argument (what \<open>calloc\<close> returned for it).
  \<open>sshbuf_free\<close> recurses along the parent chain, which nothing in the structure makes finite:
  its result is an option, \<open>None\<close> when the call has no defined result (a cyclic chain, or a
  dead buffer on it).
\<close>

type_synonym bufstore = "nat \<rightharpoonup> sshbuf"

definition sshbuf_set_parent :: "bufstore \<Rightarrow> nat \<Rightarrow> nat \<Rightarrow> (ssherr, bufstore, unit) outcome" where
  "sshbuf_set_parent st child parent =
     (case (st child, st parent) of
        (Some c, Some p) \<Rightarrow>
          if \<not> sshbuf_check_sanity c \<or> \<not> sshbuf_check_sanity p
          then (Inl SSH_ERR_INTERNAL_ERROR, st)
          else
            let st1 = st(child \<mapsto> c\<lparr>buf_parent := Some parent\<rparr>) in
            (Inr (), st1(parent \<mapsto> (the (st1 parent))
                        \<lparr>buf_refcount := buf_refcount (the (st1 parent)) + 1\<rparr>))
      | _ \<Rightarrow> (Inl SSH_ERR_INTERNAL_ERROR, st))"

partial_function (option) sshbuf_free :: "nat option \<Rightarrow> bufstore \<Rightarrow> bufstore option" where
  "sshbuf_free ptr st =
     (case ptr of
        None \<Rightarrow> Some st
      | Some a \<Rightarrow>
          (case st a of
             None \<Rightarrow> None
           | Some b \<Rightarrow>
               if \<not> sshbuf_check_sanity b then Some st
               else Option.bind (sshbuf_free (buf_parent b) st)
                 (\<lambda>st1. case st1 a of
                    None \<Rightarrow> None
                  | Some b1 \<Rightarrow>
                      let b2 = b1\<lparr>buf_parent := None, buf_refcount := buf_refcount b1 - 1\<rparr> in
                      if buf_refcount b2 > 0 then Some (st1(a \<mapsto> b2))
                      else if buf_dont_free b2 then Some (st1(a \<mapsto> sshbuf_zeroed))
                      else Some (st1(a := None)))))"

text \<open>The child of \<open>buf\<close> at the fresh address \<open>a\<close>; \<open>None\<close> is the \<open>NULL\<close> result.\<close>

definition sshbuf_fromb :: "alloc_env \<Rightarrow> bufstore \<Rightarrow> nat \<Rightarrow> nat \<Rightarrow> nat option \<times> bufstore" where
  "sshbuf_fromb env st buf a =
     (case st buf of
        None \<Rightarrow> (None, st)
      | Some b \<Rightarrow>
          if \<not> sshbuf_check_sanity b then (None, st)
          else (case sshbuf_from env (sshbuf_ptr b) (sshbuf_len b) of
                  None \<Rightarrow> (None, st)
                | Some ret \<Rightarrow>
                    (case sshbuf_set_parent (st(a \<mapsto> ret)) a buf of
                       (Inr _, st1) \<Rightarrow> (Some a, st1)
                     | (Inl _, st1) \<Rightarrow>
                         (None, case sshbuf_free (Some a) st1 of Some st2 \<Rightarrow> st2 | None \<Rightarrow> st1))))"

definition sshbuf_froms ::
  "alloc_env \<Rightarrow> bufstore \<Rightarrow> nat \<Rightarrow> nat \<Rightarrow> (ssherr, bufstore, nat) outcome" where
  "sshbuf_froms env st buf a =
     (case st buf of
        None \<Rightarrow> (Inl SSH_ERR_INVALID_ARGUMENT, st)
      | Some b \<Rightarrow>
          (case sshbuf_peek_string_direct b of
             Inl r \<Rightarrow> (Inl r, st)
           | Inr p \<Rightarrow>
               (case sshbuf_from env (Some p) (length p) of
                  None \<Rightarrow> (Inl SSH_ERR_ALLOC_FAIL, st)
                | Some ret \<Rightarrow>
                    (case sshbuf_consume b (szadd (length p) 4) of
                       (Inl r, b') \<Rightarrow> (Inl r, st(buf \<mapsto> b'))
                     | (Inr _, b') \<Rightarrow>
                         (case sshbuf_set_parent (st(buf \<mapsto> b', a \<mapsto> ret)) a buf of
                            (Inr _, st1) \<Rightarrow> (Inr a, st1)
                          | (Inl r, st1) \<Rightarrow>
                              (Inl r, case sshbuf_free (Some a) st1 of
                                        Some st2 \<Rightarrow> st2 | None \<Rightarrow> st1))))))"

section \<open>Freeing returns when the parent chain is finite\<close>

lemma sshbuf_free_NULL [simp]: "sshbuf_free None st = Some st"
  by (simp add: sshbuf_free.simps)

text \<open>
  \<open>parent_chain st n p\<close>: following at most \<open>n\<close> parent pointers from \<open>p\<close> reaches \<open>NULL\<close>, over
  live buffers only.
\<close>

fun parent_chain :: "bufstore \<Rightarrow> nat \<Rightarrow> nat option \<Rightarrow> nat list \<Rightarrow> bool" where
  "parent_chain st n None as \<longleftrightarrow> as = []"
| "parent_chain st 0 (Some a) as \<longleftrightarrow> False"
| "parent_chain st (Suc n) (Some a) (x # xs) \<longleftrightarrow>
     x = a \<and> (\<exists>b. st a = Some b \<and> parent_chain st n (buf_parent b) xs)"
| "parent_chain st (Suc n) (Some a) [] \<longleftrightarrow> False"

text \<open>Freeing along a chain of distinct live buffers touches no other address.\<close>

lemma sshbuf_free_total:
  "parent_chain st n p as \<Longrightarrow> distinct as \<Longrightarrow>
   \<exists>st'. sshbuf_free p st = Some st' \<and> (\<forall>a. a \<notin> set as \<longrightarrow> st' a = st a)"
proof (induction st n p as rule: parent_chain.induct)
  case (3 st n a x xs)
  then obtain b where x: "x = a" and b: "st a = Some b" and ch: "parent_chain st n (buf_parent b) xs"
    by auto
  from "3.IH" [OF ch] "3.prems"(2) obtain st1 where
    st1: "sshbuf_free (buf_parent b) st = Some st1" "\<forall>a. a \<notin> set xs \<longrightarrow> st1 a = st a" by auto
  have "a \<notin> set xs" using "3.prems"(2) x by simp
  then have "st1 a = Some b" using st1(2) b by simp
  then show ?case
    using st1 b x by (subst sshbuf_free.simps) (simp add: Let_def)
qed simp_all

section \<open>A child pins its parent\<close>

lemma refcount_incr:
  fixes x :: u32
  assumes "x \<noteq> 0" and "x < 0x100000"
  shows "1 < x + 1" and "x + 1 \<le> 0x100000"
proof -
  have u: "unat x < 0x100000" using assms(2) by (simp add: word_less_nat_alt)
  then have s: "unat (x + 1) = unat x + 1" by (simp add: unat_word_ariths)
  have "0 < unat x" using assms(1) by (simp add: unat_gt_0)
  then show "1 < x + 1" by (simp add: word_less_nat_alt s)
  show "x + 1 \<le> 0x100000" using u by (simp add: word_le_nat_alt s)
qed

lemma sshbuf_fromb_ok:
  assumes inv: "sshbuf_inv b" and st: "st buf = Some b" and fresh: "a \<noteq> buf" "st a = None"
    and mem: "malloc_ok env sizeof_sshbuf"
  obtains c where
    "sshbuf_fromb env st buf a = (Some a, st(a \<mapsto> c, buf \<mapsto> b\<lparr>buf_refcount := buf_refcount b + 1\<rparr>))"
    and "sshbuf_inv c" and "sshbuf_bytes c = sshbuf_bytes b" and "buf_parent c = Some buf"
    and "buf_refcount c = 1" and "buf_readonly c" and "\<not> buf_dont_free c"
proof -
  note bd = sshbuf_inv_bounds [OF inv]
  obtain p where p: "sshbuf_ptr b = Some p" "take (sshbuf_len b) p = sshbuf_bytes b"
    using sshbuf_ptr_bytes [OF inv] by blast
  have len: "sshbuf_len b \<le> SSHBUF_SIZE_MAX"
    using inv bd by (simp add: sshbuf_len_bytes SSHBUF_SIZE_MAX_def)
  then obtain r where r: "sshbuf_from env (Some p) (sshbuf_len b) = Some r"
    using mem by (simp add: sshbuf_from_def)
  have "length (take (sshbuf_len b) p) = sshbuf_len b"
    using inv p(2) by (simp add: sshbuf_len_bytes)
  then have lp: "sshbuf_len b \<le> length p" by simp
  note ri = sshbuf_from_inv [OF r lp]
  let ?c = "r\<lparr>buf_parent := Some buf\<rparr>"
  have rr: "buf_refcount r = 1" "buf_readonly r" "\<not> buf_dont_free r"
    using r by (auto simp: sshbuf_from_def sshbuf_zeroed_def split: if_splits)
  have "sshbuf_fromb env st buf a = (Some a, st(a \<mapsto> ?c, buf \<mapsto> b\<lparr>buf_refcount := buf_refcount b + 1\<rparr>))"
    using st inv r ri fresh p(1)
    by (simp add: sshbuf_fromb_def sshbuf_set_parent_def Let_def)
  moreover have "sshbuf_inv ?c" using ri rr by (auto simp: sshbuf_inv_def sshbuf_check_sanity_def)
  moreover have "sshbuf_bytes ?c = sshbuf_bytes b" using ri p(2) by (simp add: sshbuf_bytes_def)
  ultimately show thesis using that [of ?c] rr by simp
qed

text \<open>
  While a child made by \<open>sshbuf_fromb\<close> is alive its parent cannot be written: every
  function that would change the bytes the child aliases refuses, or (\<open>sshbuf_reset\<close>) only
  moves the read position; and freeing the child gives back the store from before, with the
  parent writable again if it was.
\<close>

theorem fromb_pins_parent:
  assumes inv: "sshbuf_inv b" and st: "st buf = Some b" and fresh: "a \<noteq> buf" "st a = None"
    and mem: "malloc_ok env sizeof_sshbuf"
    and root: "buf_parent b = None" and refs: "buf_refcount b < SSHBUF_REFS_MAX"
  shows "\<exists>st1 p c. sshbuf_fromb env st buf a = (Some a, st1) \<and>
    st1 buf = Some p \<and> st1 a = Some c \<and> sshbuf_bytes c = sshbuf_bytes b \<and>
    (\<forall>env' v. sshbuf_put env' p v = (Inl SSH_ERR_BUFFER_READ_ONLY, p)) \<and>
    (\<forall>env' n. n \<noteq> buf_max_size p \<longrightarrow>
       sshbuf_set_max_size env' p n = (Inl SSH_ERR_BUFFER_READ_ONLY, p)) \<and>
    (\<forall>env'. buf_cd (sshbuf_reset env' p) = buf_cd b) \<and>
    sshbuf_mutable_ptr p = None \<and>
    sshbuf_free (Some a) st1 = Some st"
proof -
  from sshbuf_fromb_ok [OF inv st fresh mem] obtain c where c:
    "sshbuf_fromb env st buf a = (Some a, st(a \<mapsto> c, buf \<mapsto> b\<lparr>buf_refcount := buf_refcount b + 1\<rparr>))"
    "sshbuf_inv c" "sshbuf_bytes c = sshbuf_bytes b" "buf_parent c = Some buf"
    "buf_refcount c = 1" "buf_readonly c" "\<not> buf_dont_free c" by blast
  define p where "p = b\<lparr>buf_refcount := buf_refcount b + 1\<rparr>"
  have rc: "buf_refcount b \<noteq> 0" "buf_refcount b < 0x100000"
    using inv refs by (auto simp: sshbuf_inv_def sshbuf_check_sanity_def SSHBUF_REFS_MAX_def)
  then have gt: "1 < buf_refcount b + 1" "buf_refcount b + 1 \<le> SSHBUF_REFS_MAX"
    unfolding SSHBUF_REFS_MAX_def by (rule refcount_incr)+
  then have san: "sshbuf_check_sanity p"
    using inv by (auto simp: p_def sshbuf_inv_def sshbuf_check_sanity_def)
  have shared: "buf_refcount p > 1" using gt by (simp add: p_def)
  have rsv: "sshbuf_check_reserve p n = Some SSH_ERR_BUFFER_READ_ONLY" for n
    using san shared by (simp add: sshbuf_check_reserve_def)
  have put: "sshbuf_put env' p v = (Inl SSH_ERR_BUFFER_READ_ONLY, p)" for env' v
    by (simp add: sshbuf_put_def sshbuf_reserve_def sshbuf_allocate_def rsv)
  have mx: "n \<noteq> buf_max_size p \<Longrightarrow>
      sshbuf_set_max_size env' p n = (Inl SSH_ERR_BUFFER_READ_ONLY, p)" for env' n
    using san shared by (simp add: sshbuf_set_max_size_def)
  have rst: "buf_cd (sshbuf_reset env' p) = buf_cd b" for env'
    using shared by (simp add: sshbuf_reset_def p_def)
  let ?st1 = "st(a \<mapsto> c, buf \<mapsto> p)"
  have same: "b\<lparr>buf_parent := None\<rparr> = b" using root by (cases b) simp
  have fp: "sshbuf_free (Some buf) ?st1 = Some (st(a \<mapsto> c, buf \<mapsto> b))"
    using san root rc
    by (subst sshbuf_free.simps) (simp add: p_def Let_def word_gt_0 same)
  have "sshbuf_free (Some a) ?st1 = Some ((st(a \<mapsto> c, buf \<mapsto> b))(a := None))"
    using c(2,4,5,7) fresh
    by (subst sshbuf_free.simps) (simp add: fp Let_def)
  also have "(st(a \<mapsto> c, buf \<mapsto> b))(a := None) = st"
    using fresh st by (auto simp: fun_eq_iff)
  finally have free: "sshbuf_free (Some a) ?st1 = Some st" .
  show ?thesis
  proof (intro exI conjI)
    show "sshbuf_fromb env st buf a = (Some a, ?st1)" using c(1) by (simp add: p_def)
    show "?st1 buf = Some p" by simp
    show "?st1 a = Some c" using fresh by simp
    show "sshbuf_mutable_ptr p = None" using shared by (simp add: sshbuf_mutable_ptr_def)
  qed (use c(3) put mx rst free in auto)
qed

lemma fromb_pins_parent_witness:
  "\<exists>st1 p. sshbuf_fromb plenty [1 \<mapsto> new_buf] 1 2 = (Some 2, st1) \<and> st1 1 = Some p \<and>
     sshbuf_put plenty p [0] = (Inl SSH_ERR_BUFFER_READ_ONLY, p) \<and>
     sshbuf_free (Some 2) st1 = Some [1 \<mapsto> new_buf]"
  using fromb_pins_parent [of new_buf "[1 \<mapsto> new_buf]" 1 2 plenty]
  by (auto simp: SSHBUF_REFS_MAX_def)



end
