(* ===== verification/Bitmap.thy ===== *)
theory Bitmap
  imports Sshbuf
begin

text \<open>
  The bit vectors of \<open>bitmap.c\<close>, used for revoked certificate serials: an array of 32-bit
  words with its allocated length and the index of the top word in use. The abstract value of
  a bitmap is the set of its bit positions (\<open>bitmap_set_of\<close>); the operations implement the
  interface \<open>bit_set\<close>, and the conversions to and from big-endian strings are proved against
  the bits they carry. The size of a request to the allocator counts bytes.
\<close>

section \<open>The structure and the operations\<close>

record bitmap =
  bm_d :: "u32 list"
  bm_len :: nat
  bm_top :: nat

definition BITMAP_MAX :: nat where "BITMAP_MAX = 2 ^ 24"
definition BITMAP_BYTES :: nat where "BITMAP_BYTES = 4"
definition BITMAP_BITS :: nat where "BITMAP_BITS = 32"
definition BITMAP_WMASK :: u32 where "BITMAP_WMASK = 31"
definition sizeof_bitmap :: nat where "sizeof_bitmap = 24"

lemmas bitmap_consts = BITMAP_MAX_def BITMAP_BYTES_def BITMAP_BITS_def BITMAP_WMASK_def

definition bitmap_new :: "alloc_env \<Rightarrow> bitmap option" where
  "bitmap_new env =
     (if \<not> malloc_ok env sizeof_bitmap then None
      else if \<not> malloc_ok env BITMAP_BYTES then None
      else Some \<lparr>bm_d = [0], bm_len = 1, bm_top = 0\<rparr>)"

definition bitmap_zero :: "bitmap \<Rightarrow> bitmap" where
  "bitmap_zero b = b\<lparr>bm_d := mem_write 0 (replicate (bm_len b) 0) (bm_d b), bm_top := 0\<rparr>"

definition bitmap_test_bit :: "bitmap \<Rightarrow> u32 \<Rightarrow> u32" where
  "bitmap_test_bit b n =
     (if bm_top b \<ge> bm_len b then 0
      else if bm_len b = 0 \<or> unat n div BITMAP_BITS > bm_top b then 0
      else drop_bit (unat (n AND BITMAP_WMASK)) (bm_d b ! (unat n div BITMAP_BITS)) AND 1)"

text \<open>\<open>True\<close> is the return value 0 of the static function \<open>reserve\<close>.\<close>

definition bitmap_reserve :: "alloc_env \<Rightarrow> bitmap \<Rightarrow> u32 \<Rightarrow> bool \<times> bitmap" where
  "bitmap_reserve env b n =
     (if bm_top b \<ge> bm_len b \<or> unat n > BITMAP_MAX then (False, b)
      else let nlen = unat n div BITMAP_BITS + 1 in
        if bm_len b < nlen then
          if \<not> malloc_ok env (nlen * BITMAP_BYTES) then (False, b)
          else (True, b\<lparr>bm_d := take (bm_len b) (bm_d b) @ replicate (nlen - bm_len b) 0,
                       bm_len := nlen\<rparr>)
        else (True, b))"

definition bitmap_set_bit :: "alloc_env \<Rightarrow> bitmap \<Rightarrow> u32 \<Rightarrow> bool \<times> bitmap" where
  "bitmap_set_bit env b n =
     (case bitmap_reserve env b n of
        (False, b1) \<Rightarrow> (False, b1)
      | (True, b1) \<Rightarrow>
          let offset = unat n div BITMAP_BITS;
              b2 = (if offset > bm_top b1 then b1\<lparr>bm_top := offset\<rparr> else b1)
          in (True, b2\<lparr>bm_d := (bm_d b2)[offset :=
                 bm_d b2 ! offset OR push_bit (unat (n AND BITMAP_WMASK)) 1]\<rparr>))"

text \<open>The loop of \<open>retop\<close> counts the top index down over zero words.\<close>

primrec retop_loop :: "u32 list \<Rightarrow> nat \<Rightarrow> nat" where
  "retop_loop d 0 = 0"
| "retop_loop d (Suc t) = (if d ! Suc t = 0 then retop_loop d t else Suc t)"

definition retop :: "bitmap \<Rightarrow> bitmap" where
  "retop b = (if bm_top b \<ge> bm_len b then b else b\<lparr>bm_top := retop_loop (bm_d b) (bm_top b)\<rparr>)"

definition bitmap_clear_bit :: "bitmap \<Rightarrow> u32 \<Rightarrow> bitmap" where
  "bitmap_clear_bit b n =
     (if bm_top b \<ge> bm_len b \<or> unat n > BITMAP_MAX then b
      else let offset = unat n div BITMAP_BITS in
        if offset > bm_top b then b
        else retop (b\<lparr>bm_d := (bm_d b)[offset :=
               bm_d b ! offset AND NOT (push_bit (unat (n AND BITMAP_WMASK)) 1)]\<rparr>))"

text \<open>
  The search for the most significant bit shifts the top word left until its bit 31 is set;
  it does not return on 0.
\<close>

partial_function (option) msb_loop :: "u32 \<Rightarrow> nat \<Rightarrow> nat option" where
  "msb_loop w bits =
     (if w AND push_bit 31 1 \<noteq> 0 then Some bits else msb_loop (push_bit 1 w) (bits - 1))"

definition bitmap_nbits :: "bitmap \<Rightarrow> nat option \<times> bitmap" where
  "bitmap_nbits b0 =
     (let b = retop b0 in
      if bm_top b \<ge> bm_len b then (Some 0, b)
      else if bm_len b = 0 \<or> (bm_top b = 0 \<and> bm_d b ! 0 = 0) then (Some 0, b)
      else (msb_loop (bm_d b ! bm_top b) ((bm_top b + 1) * BITMAP_BITS), b))"

definition bitmap_nbytes :: "bitmap \<Rightarrow> nat option \<times> bitmap" where
  "bitmap_nbytes b = (case bitmap_nbits b of (n, b') \<Rightarrow> (map_option (\<lambda>n. (n + 7) div 8) n, b'))"

text \<open>
  \<open>bitmap_to_string\<close> writes \<open>need\<close> bytes into the caller's buffer \<open>s\<close> from its end backwards;
  the two nested loops run over the words and the bytes of a word.
\<close>

definition to_string_inner :: "nat \<Rightarrow> nat \<Rightarrow> u32 \<Rightarrow> nat \<times> bytes \<Rightarrow> nat \<times> bytes" where
  "to_string_inner l need w =
     fold (\<lambda>j (k, s). if k \<ge> l then (k, s)
             else (k + 1, s[need - 1 - k := ucast (drop_bit (j * 8) w AND 0xff)]))
       [0..<BITMAP_BYTES]"

definition bitmap_to_string :: "bitmap \<Rightarrow> bytes \<Rightarrow> bytes option option \<times> bitmap" where
  "bitmap_to_string b s =
     (case bitmap_nbytes b of
        (None, b') \<Rightarrow> (None, b')
      | (Some need, b') \<Rightarrow>
          if length s < need \<or> bm_top b' \<ge> bm_len b' then (Some None, b')
          else let l = need in
            (Some (Some (snd (fold (\<lambda>i. to_string_inner l need (bm_d b' ! i))
                [0..<bm_top b' + 1] (0, s)))), b'))"

fun from_string_loop :: "bytes \<Rightarrow> nat \<Rightarrow> nat \<Rightarrow> u32 list \<Rightarrow> u32 list" where
  "from_string_loop [] offset shift d = d"
| "from_string_loop (c # s) offset shift d =
     (let d' = d[offset := d ! offset OR push_bit shift (ucast c)] in
      if shift = 0 then from_string_loop s (szsub offset 1) (BITMAP_BITS - 8) d'
      else from_string_loop s offset (shift - 8) d')"

definition bitmap_from_string :: "alloc_env \<Rightarrow> bitmap \<Rightarrow> bytes \<Rightarrow> bool \<times> bitmap" where
  "bitmap_from_string env b s =
     (let l = length s in
      if l > BITMAP_MAX div 8 then (False, b)
      else (case bitmap_reserve env b (of_nat (l * 8)) of
              (False, b1) \<Rightarrow> (False, b1)
            | (True, b1) \<Rightarrow>
                let b2 = bitmap_zero b1 in
                if l = 0 then (True, b2)
                else let offset = (l + (BITMAP_BYTES - 1)) div BITMAP_BYTES - 1;
                         shift = ((l + (BITMAP_BYTES - 1)) mod BITMAP_BYTES) * 8
                     in (True, retop (b2\<lparr>bm_top := offset,
                           bm_d := from_string_loop s offset shift (bm_d b2)\<rparr>))))"

section \<open>Invariant and abstract value\<close>

definition bitmap_inv :: "bitmap \<Rightarrow> bool" where
  "bitmap_inv b \<longleftrightarrow> length (bm_d b) = bm_len b \<and> bm_top b < bm_len b \<and>
     (\<forall>i. bm_top b < i \<and> i < bm_len b \<longrightarrow> bm_d b ! i = 0)"

definition bitmap_set_of :: "bitmap \<Rightarrow> nat set" where
  "bitmap_set_of b = {n. n div 32 < bm_len b \<and> bit (bm_d b ! (n div 32)) (n mod 32)}"

lemma bitmap_invD:
  assumes "bitmap_inv b"
  shows "length (bm_d b) = bm_len b" "bm_top b < bm_len b"
    "bm_top b < i \<Longrightarrow> i < bm_len b \<Longrightarrow> bm_d b ! i = 0"
  using assms by (auto simp: bitmap_inv_def)

lemma wmask_eq: "unat (n AND BITMAP_WMASK) = unat n mod 32" for n :: u32
proof -
  have "n AND BITMAP_WMASK = take_bit 5 n"
    by (simp add: BITMAP_WMASK_def take_bit_eq_mask mask_eq_exp_minus_1)
  then show ?thesis by (simp only: unsigned_take_bit_eq) (simp only: take_bit_eq_mod, simp)
qed

lemma bitmap_new_inv: "bitmap_new env = Some b \<Longrightarrow> bitmap_inv b \<and> bitmap_set_of b = {}"
  by (auto simp: bitmap_new_def bitmap_inv_def bitmap_set_of_def split: if_splits)

lemma bitmap_test_bit_iff:
  assumes inv: "bitmap_inv b"
  shows "bitmap_test_bit b n = of_bool (unat n \<in> bitmap_set_of b)"
proof -
  note d = bitmap_invD [OF inv]
  have "(drop_bit (unat n mod 32) w AND 1 :: u32) = of_bool (bit w (unat n mod 32))" for w :: u32
    by (simp add: and_one_eq odd_iff_mod_2_eq_one flip: bit_iff_odd_drop_bit)
      (simp add: bit_iff_odd_drop_bit mod_2_eq_odd)
  then show ?thesis
    using d
    by (auto simp: bitmap_test_bit_def bitmap_set_of_def BITMAP_BITS_def wmask_eq not_less)
qed

section \<open>The operations on the abstract value\<close>

lemma bitmap_reserve_spec:
  assumes inv: "bitmap_inv b" and r: "bitmap_reserve env b n = (ok, b')"
  shows "bitmap_inv b' \<and> bitmap_set_of b' = bitmap_set_of b \<and> bm_top b' = bm_top b \<and>
    (ok \<longrightarrow> unat n div 32 < bm_len b' \<and> unat n \<le> BITMAP_MAX) \<and> (\<not> ok \<longrightarrow> b' = b)"
proof -
  note d = bitmap_invD [OF inv]
  show ?thesis
  proof (cases "ok \<and> bm_len b < unat n div 32 + 1")
    case True
    with r have b': "b' = b\<lparr>bm_d := bm_d b @ replicate (unat n div 32 + 1 - bm_len b) 0,
        bm_len := unat n div 32 + 1\<rparr>" and n: "unat n \<le> BITMAP_MAX"
      using d by (auto simp: bitmap_reserve_def BITMAP_BITS_def Let_def not_less split: if_splits)
    have "bitmap_inv b'"
      using True d by (auto simp: b' bitmap_inv_def nth_append)
    moreover have "bitmap_set_of b' = bitmap_set_of b"
      using True d by (auto simp: b' bitmap_set_of_def nth_append split: if_splits)
    ultimately show ?thesis using n True by (simp add: b')
  next
    case False
    with r show ?thesis using inv
      by (auto simp: bitmap_reserve_def BITMAP_BITS_def Let_def split: if_splits)
  qed
qed

lemma bitmap_reserve_ok:
  assumes "bitmap_inv b" and "unat n \<le> BITMAP_MAX" and "malloc_ok env ((unat n div 32 + 1) * 4)"
  shows "fst (bitmap_reserve env b n)"
  using assms by (simp add: bitmap_reserve_def bitmap_invD bitmap_consts Let_def not_le)

lemma bit_set_one:
  "bit (w OR 2 ^ k :: u32) j \<longleftrightarrow> bit w j \<or> j = k \<and> k < 32"
  by (auto simp: bit_simps)

lemma bit_clear_one:
  "bit (w AND NOT (2 ^ k) :: u32) j \<longleftrightarrow> bit w j \<and> j \<noteq> k"
  by (auto simp: bit_simps dest: bit_imp_le_length)

lemma retop_loop_le: "retop_loop d t \<le> t"
  by (induction t) auto

lemma retop_loop_zeros: "retop_loop d t < i \<Longrightarrow> i \<le> t \<Longrightarrow> d ! i = 0"
  by (induction t) (auto simp: le_Suc_eq split: if_splits)

lemma retop_loop_top: "retop_loop d t > 0 \<Longrightarrow> d ! retop_loop d t \<noteq> 0"
  by (induction t) auto

lemma retop_spec:
  assumes "bitmap_inv b"
  shows "bitmap_inv (retop b)" "bitmap_set_of (retop b) = bitmap_set_of b"
    "bm_d (retop b) = bm_d b" "bm_len (retop b) = bm_len b"
    "0 < bm_top (retop b) \<Longrightarrow> bm_d (retop b) ! bm_top (retop b) \<noteq> 0"
proof -
  have r: "retop b = b\<lparr>bm_top := retop_loop (bm_d b) (bm_top b)\<rparr>"
    using bitmap_invD(2) [OF assms] by (simp add: retop_def)
  show "bitmap_inv (retop b)"
    unfolding r using assms retop_loop_le [of "bm_d b" "bm_top b"]
    by (auto simp: bitmap_inv_def dest: retop_loop_zeros intro: le_less_trans)
      (metis not_le retop_loop_zeros)
  show "bitmap_set_of (retop b) = bitmap_set_of b" "bm_d (retop b) = bm_d b"
    "bm_len (retop b) = bm_len b" by (simp_all add: r bitmap_set_of_def)
  show "0 < bm_top (retop b) \<Longrightarrow> bm_d (retop b) ! bm_top (retop b) \<noteq> 0"
    using retop_loop_top by (simp add: r)
qed

lemma bitmap_zero_spec:
  "bitmap_inv b \<Longrightarrow> bitmap_zero b = \<lparr>bm_d = replicate (bm_len b) 0, bm_len = bm_len b, bm_top = 0\<rparr>"
  by (cases b) (auto simp: bitmap_zero_def mem_write_def bitmap_inv_def)

lemma div_mod_eq_iff: "(m :: nat) = n \<longleftrightarrow> m div k = n div k \<and> m mod k = n mod k"
  by (metis div_mult_mod_eq)

lemma bitmap_set_bit_spec:
  assumes inv: "bitmap_inv b" and r: "bitmap_set_bit env b n = (ok, b')"
  shows "bitmap_inv b'"
    "bitmap_set_of b' = (if ok then insert (unat n) (bitmap_set_of b) else bitmap_set_of b)"
    "ok \<Longrightarrow> unat n \<le> BITMAP_MAX"
proof -
  obtain ok1 b1 where r1: "bitmap_reserve env b n = (ok1, b1)" by force
  note s = bitmap_reserve_spec [OF inv r1]
  let ?o = "unat n div 32"
  have ok: "ok = ok1" using r r1 by (auto simp: bitmap_set_bit_def Let_def split: bool.splits)
  have b': "b' = (if ok then b1\<lparr>bm_top := max ?o (bm_top b1),
        bm_d := (bm_d b1)[?o := bm_d b1 ! ?o OR 2 ^ (unat n mod 32)]\<rparr> else b)"
  proof (cases ok)
    case True
    with r r1 ok show ?thesis
      by (simp add: bitmap_set_bit_def BITMAP_BITS_def Let_def wmask_eq max_def split: if_splits)
  next
    case False
    with r r1 ok s show ?thesis by (simp add: bitmap_set_bit_def)
  qed
  show "bitmap_inv b'"
  proof (cases ok)
    case True
    with s ok have "bitmap_inv b1" "?o < bm_len b1" by auto
    then show ?thesis using True by (simp add: b' bitmap_inv_def)
  qed (simp add: b' inv)
  show "bitmap_set_of b' = (if ok then insert (unat n) (bitmap_set_of b) else bitmap_set_of b)"
  proof (cases ok)
    case True
    with s ok have "bitmap_inv b1" "?o < bm_len b1" "bitmap_set_of b = bitmap_set_of b1" by auto
    then have "j \<in> bitmap_set_of b' \<longleftrightarrow> j = unat n \<or> j \<in> bitmap_set_of b" for j
      unfolding div_mod_eq_iff [of j "unat n" 32]
      using True bitmap_invD(1) [of b1]
      by (auto simp: b' bitmap_set_of_def nth_list_update bit_set_one)
    then show ?thesis using True by auto
  qed (simp add: b')
  show "ok \<Longrightarrow> unat n \<le> BITMAP_MAX" using s ok by simp
qed

lemma bitmap_set_bit_ok:
  assumes "bitmap_inv b" and "unat n \<le> BITMAP_MAX" and "malloc_ok env ((unat n div 32 + 1) * 4)"
  shows "fst (bitmap_set_bit env b n)"
  using bitmap_reserve_ok [OF assms]
  by (auto simp: bitmap_set_bit_def Let_def split: prod.splits bool.splits)

lemma bitmap_clear_bit_spec:
  assumes inv: "bitmap_inv b" and n: "unat n \<le> BITMAP_MAX"
  shows "bitmap_inv (bitmap_clear_bit b n)"
    "bitmap_set_of (bitmap_clear_bit b n) = bitmap_set_of b - {unat n}"
proof -
  note d = bitmap_invD [OF inv]
  let ?o = "unat n div 32"
  let ?b = "b\<lparr>bm_d := (bm_d b)[?o := bm_d b ! ?o AND NOT (2 ^ (unat n mod 32))]\<rparr>"
  have invb: "bitmap_inv ?b" if "?o \<le> bm_top b"
    using inv that by (auto simp: bitmap_inv_def nth_list_update)
  have c: "bitmap_clear_bit b n = (if ?o > bm_top b then b else retop ?b)"
    using d n by (auto simp: bitmap_clear_bit_def BITMAP_BITS_def Let_def wmask_eq)
  show "bitmap_inv (bitmap_clear_bit b n)"
    using inv retop_spec(1) [OF invb] by (auto simp: c not_less)
  have "unat n \<notin> bitmap_set_of b" if "?o > bm_top b"
    using d(3) that by (auto simp: bitmap_set_of_def)
  moreover have "bitmap_set_of ?b = bitmap_set_of b - {unat n}" if "?o \<le> bm_top b"
    using that d
    by (auto simp: bitmap_set_of_def nth_list_update bit_clear_one div_mod_eq_iff [of _ "unat n" 32])
  ultimately show "bitmap_set_of (bitmap_clear_bit b n) = bitmap_set_of b - {unat n}"
    using retop_spec(2) [OF invb] by (auto simp: c not_less)
qed

section \<open>Length of a bitmap\<close>

lemma top_bit_set: "w AND push_bit 31 1 \<noteq> 0 \<longleftrightarrow> bit w 31" for w :: u32
  unfolding push_bit_of_1 and_exp_eq_0_iff_not_bit by simp

lemma msb_loop_eq:
  assumes "k \<le> 31" and "bit w (31 - k)" and "\<And>j. 31 - k < j \<Longrightarrow> \<not> bit w j"
  shows "msb_loop w bits = Some (bits - k)"
  using assms
proof (induction k arbitrary: w bits)
  case 0
  then show ?case unfolding msb_loop.simps [of w] top_bit_set by simp
next
  case (Suc k)
  have "\<not> bit w 31" using Suc.prems by simp
  moreover have "msb_loop (push_bit 1 w) (bits - 1) = Some (bits - 1 - k)"
  proof (rule Suc.IH)
    show "k \<le> 31" using Suc.prems by simp
    have "31 - k - 1 = 31 - Suc k" "1 \<le> 31 - k" "31 - k < 32" using Suc.prems by simp_all
    then show "bit (push_bit 1 w) (31 - k)" using Suc.prems(2) unfolding bit_push_bit_iff by simp
    show "\<not> bit (push_bit 1 w) j" if "31 - k < j" for j
      using Suc.prems(1) Suc.prems(3) [of "j - 1"] that unfolding bit_push_bit_iff by auto
  qed
  ultimately show ?case unfolding msb_loop.simps [of w] top_bit_set by simp
qed

lemma nonzero_msb:
  fixes w :: u32
  assumes "w \<noteq> 0"
  obtains m where "m \<le> 31" and "bit w m" and "\<And>j. m < j \<Longrightarrow> \<not> bit w j"
proof -
  let ?S = "{j. bit w j}"
  have sub: "?S \<subseteq> {..31}" using bit_imp_le_length [of w] by force
  then have fin: "finite ?S" by (rule finite_subset) simp
  moreover have "?S \<noteq> {}" using assms bit_eqI [of w 0] by auto
  ultimately have "Max ?S \<in> ?S" by (rule Max_in)
  moreover have "\<not> bit w j" if "Max ?S < j" for j
    using that Max_ge [OF fin, of j] by (metis mem_Collect_eq not_le)
  ultimately show thesis using that [of "Max ?S"] sub by blast
qed

lemma bitmap_set_of_below_top:
  assumes "bitmap_inv b" and "n \<in> bitmap_set_of b"
  shows "n div 32 \<le> bm_top b" "bit (bm_d b ! (n div 32)) (n mod 32)"
  using assms bitmap_invD(3) [OF assms(1), of "n div 32"]
  by (auto simp: bitmap_set_of_def not_less [symmetric])

lemma bitmap_nbits_spec:
  assumes inv: "bitmap_inv b"
  obtains k where "bitmap_nbits b = (Some k, retop b)"
    and "\<And>n. n \<in> bitmap_set_of b \<Longrightarrow> n < k" and "0 < k \<Longrightarrow> k - 1 \<in> bitmap_set_of b"
    and "k \<le> 32 * (bm_top (retop b) + 1)"
proof -
  let ?b = "retop b"
  note r = retop_spec [OF inv]
  note d = bitmap_invD [OF r(1)]
  let ?t = "bm_top ?b"
  show thesis
  proof (cases "bm_d ?b ! ?t = 0")
    case True
    then have t: "?t = 0" using r(5) by auto
    have "bitmap_nbits b = (Some 0, ?b)" using True t d by (simp add: bitmap_nbits_def Let_def)
    moreover have "bitmap_set_of b = {}"
      using True t bitmap_set_of_below_top [OF r(1)] r(2) by fastforce
    ultimately show thesis using that [of 0] by simp
  next
    case False
    then obtain m where m: "m \<le> 31" "bit (bm_d ?b ! ?t) m" "\<And>j. m < j \<Longrightarrow> \<not> bit (bm_d ?b ! ?t) j"
      using nonzero_msb [OF False] by metis
    have "msb_loop (bm_d ?b ! ?t) ((?t + 1) * 32) = Some ((?t + 1) * 32 - (31 - m))"
      using m by (intro msb_loop_eq) auto
    moreover have k: "(?t + 1) * 32 - (31 - m) = ?t * 32 + m + 1" using m(1) by simp
    ultimately have n: "bitmap_nbits b = (Some (?t * 32 + m + 1), ?b)"
      using False d by (auto simp: bitmap_nbits_def Let_def BITMAP_BITS_def)
    show thesis
    proof (rule that [OF n])
      show "?t * 32 + m + 1 - 1 \<in> bitmap_set_of b" if "0 < ?t * 32 + m + 1"
        using m(1,2) d(2) unfolding r(2) [symmetric] by (simp add: bitmap_set_of_def)
      show "?t * 32 + m + 1 \<le> 32 * (?t + 1)" using m(1) by simp
      fix i assume "i \<in> bitmap_set_of b"
      then have i: "i div 32 \<le> ?t" "bit (bm_d ?b ! (i div 32)) (i mod 32)"
        using bitmap_set_of_below_top [OF r(1)] r(2) by auto
      show "i < ?t * 32 + m + 1"
      proof (cases "i div 32 = ?t")
        case True
        then have "i mod 32 \<le> m" using i(2) m(3) [of "i mod 32"] by (auto simp: not_less [symmetric])
        then show ?thesis using True by (metis add_Suc_right div_mult_mod_eq less_Suc_eq_le nat_add_left_cancel_le Suc_eq_plus1)
      next
        case False
        then have "Suc (i div 32) \<le> ?t" using i(1) by simp
        then show ?thesis by simp
      qed
    qed
  qed
qed

section \<open>Conversion to and from big-endian strings\<close>

text \<open>The bit positions a big-endian byte string carries.\<close>

definition bytes_bits :: "bytes \<Rightarrow> nat set" where
  "bytes_bits s = {n. n div 8 < length s \<and> bit (s ! (length s - 1 - n div 8)) (n mod 8)}"

lemma bytes_bits_Cons:
  "n \<in> bytes_bits (c # s) \<longleftrightarrow> n \<in> bytes_bits s \<or> n div 8 = length s \<and> bit c (n mod 8)"
  by (auto simp: bytes_bits_def nth_Cons' less_Suc_eq)

text \<open>The word index and the shift at which the loop stores the first of \<open>l\<close> bytes.\<close>

lemma word_byte_position:
  fixes n :: nat
  shows "n div 32 = n div 8 div 4" "n mod 32 = 8 * (n div 8 mod 4) + n mod 8"
proof -
  show "n div 32 = n div 8 div 4" by (simp add: div_mult2_eq [symmetric])
  show "n mod 32 = 8 * (n div 8 mod 4) + n mod 8" using mod_mult2_eq [of n 8 4] by simp
qed

lemma byte_position_iff:
  "n div 32 = l div 4 \<and> 8 * (l mod 4) \<le> n mod 32 \<and> n mod 32 < 8 * (l mod 4) + 8 \<longleftrightarrow> n div 8 = l"
  (is "?L \<longleftrightarrow> ?R") for n l :: nat
proof
  assume L: ?L
  have "n mod 8 < 8" by simp
  then have "n div 8 mod 4 = l mod 4" using L unfolding word_byte_position [of n] by linarith
  then show ?R using L unfolding word_byte_position(1) by (metis div_mod_eq_iff)
next
  assume ?R
  then show ?L unfolding word_byte_position by auto
qed

lemma pred_div_mod_4:
  fixes l :: nat
  assumes "l mod 4 \<noteq> 0"
  shows "(l - 1) div 4 = l div 4" "(l - 1) mod 4 = l mod 4 - 1"
  using assms by (cases l; simp add: div_Suc mod_Suc split: if_splits)+

lemma from_string_loop_bits:
  assumes "length s \<le> 4 * length d" and "s \<noteq> [] \<Longrightarrow> offset = (length s - 1) div 4"
    and "s \<noteq> [] \<Longrightarrow> shift = 8 * ((length s - 1) mod 4)" and "length s < 2 ^ 60"
  shows "length (from_string_loop s offset shift d) = length d \<and>
    (\<forall>n. n div 32 < length d \<longrightarrow>
      bit (from_string_loop s offset shift d ! (n div 32)) (n mod 32) \<longleftrightarrow>
      bit (d ! (n div 32)) (n mod 32) \<or> n \<in> bytes_bits s)"
  using assms
proof (induction s offset shift d rule: from_string_loop.induct)
  case (1 offset shift d)
  then show ?case by (simp add: bytes_bits_def)
next
  case (2 c s offset shift d)
  let ?l = "length s"
  define d' where "d' = d[offset := d ! offset OR push_bit shift (ucast c)]"
  have o: "offset = ?l div 4" and sh: "shift = 8 * (?l mod 4)" and ol: "offset < length d"
    using "2.prems" by auto
  have bit': "bit (d' ! (n div 32)) (n mod 32) \<longleftrightarrow>
      bit (d ! (n div 32)) (n mod 32) \<or> n div 8 = ?l \<and> bit c (n mod 8)"
    if "n div 32 < length d" for n
  proof -
    have "bit (d' ! (n div 32)) (n mod 32) \<longleftrightarrow> bit (d ! (n div 32)) (n mod 32) \<or>
        n div 32 = offset \<and> shift \<le> n mod 32 \<and> bit c (n mod 32 - shift)"
      using that ol by (auto simp: d'_def nth_list_update bit_simps dest: bit_imp_le_length)
    also have "shift \<le> n mod 32 \<and> bit c (n mod 32 - shift) \<longleftrightarrow>
        shift \<le> n mod 32 \<and> n mod 32 < shift + 8 \<and> bit c (n mod 32 - shift)"
      by (auto dest: bit_imp_le_length)
    also have "n div 32 = offset \<and> (shift \<le> n mod 32 \<and> n mod 32 < shift + 8 \<and>
        bit c (n mod 32 - shift)) \<longleftrightarrow> n div 8 = ?l \<and> bit c (n mod 32 - shift)"
    proof -
      have "n div 32 = offset \<and> shift \<le> n mod 32 \<and> n mod 32 < shift + 8 \<longleftrightarrow> n div 8 = ?l"
        unfolding o sh by (rule byte_position_iff)
      then show ?thesis by blast
    qed
    also have "\<dots> \<longleftrightarrow> n div 8 = ?l \<and> bit c (n mod 8)"
    proof -
      have "n mod 32 - shift = n mod 8" if "n div 8 = ?l"
        unfolding sh that [symmetric] word_byte_position by simp
      then show ?thesis by auto
    qed
    finally show ?thesis .
  qed
  have step: "from_string_loop (c # s) offset shift d =
      from_string_loop s (if shift = 0 then szsub offset 1 else offset)
        (if shift = 0 then 24 else shift - 8) d'"
    by (simp add: d'_def Let_def BITMAP_BITS_def)
  have "length (from_string_loop (c # s) offset shift d) = length d' \<and>
    (\<forall>n. n div 32 < length d' \<longrightarrow>
      bit (from_string_loop (c # s) offset shift d ! (n div 32)) (n mod 32) \<longleftrightarrow>
      bit (d' ! (n div 32)) (n mod 32) \<or> n \<in> bytes_bits s)"
  proof (cases "shift = 0")
    case True
    have "s \<noteq> [] \<Longrightarrow> szsub offset 1 = (?l - 1) div 4 \<and> 24 = 8 * ((?l - 1) mod 4)"
    proof -
      assume "s \<noteq> []"
      moreover have "4 dvd ?l" using True sh by (simp add: dvd_eq_mod_eq_0)
      ultimately obtain q where q: "?l = 4 * Suc q" by (metis dvdE length_0_conv mult_0_right not0_implies_Suc)
      then have "szsub offset 1 = offset - 1" using o "2.prems"(4) by (intro szsub_exact) auto
      moreover have "?l - 1 = 4 * q + 3" using q by simp
      ultimately show ?thesis using q o by simp
    qed
    then show ?thesis
      unfolding step using "2.IH"(1) [OF d'_def True] True "2.prems"
      by (simp add: d'_def BITMAP_BITS_def)
  next
    case False
    have "s \<noteq> [] \<Longrightarrow> offset = (?l - 1) div 4 \<and> shift - 8 = 8 * ((?l - 1) mod 4)"
      using False pred_div_mod_4 [of ?l] unfolding o sh by (auto simp: diff_mult_distrib2)
    then show ?thesis
      unfolding step using "2.IH"(2) [OF d'_def False] False "2.prems"
      by (simp add: d'_def)
  qed
  moreover have "length d' = length d" by (simp add: d'_def)
  ultimately show ?case using bit' bytes_bits_Cons by metis
qed

lemma bitmap_from_string_spec:
  assumes inv: "bitmap_inv b" and r: "bitmap_from_string env b s = (ok, b')"
  shows "bitmap_inv b'"
    "bitmap_set_of b' = (if ok then bytes_bits s else bitmap_set_of b)"
    "ok \<Longrightarrow> length s * 8 \<le> BITMAP_MAX"
proof -
  let ?n = "of_nat (length s * 8) :: u32"
  obtain ok1 b1 where r1: "bitmap_reserve env b ?n = (ok1, b1)" by force
  note s1 = bitmap_reserve_spec [OF inv r1]
  have "bitmap_inv b' \<and> bitmap_set_of b' = (if ok then bytes_bits s else bitmap_set_of b) \<and>
      (ok \<longrightarrow> length s * 8 \<le> BITMAP_MAX)"
  proof (cases "length s \<le> BITMAP_MAX div 8 \<and> ok1")
    case False
    then show ?thesis using r r1 s1 inv
      by (auto simp: bitmap_from_string_def Let_def split: bool.splits if_splits)
  next
    case True
    have un: "unat ?n = length s * 8"
      using True by (subst unat_of_nat) (simp add: bitmap_consts)
    have inv1: "bitmap_inv b1" and len: "length s * 8 div 32 < bm_len b1"
      using s1 True un by auto
    note z = bitmap_zero_spec [OF inv1]
    show ?thesis
    proof (cases "s = []")
      case True
      then have "b' = bitmap_zero b1" "ok" using r r1 \<open>_ \<and> ok1\<close>
        by (auto simp: bitmap_from_string_def)
      then show ?thesis unfolding z using True bitmap_invD(2) [OF inv1]
        by (simp add: bitmap_inv_def bitmap_set_of_def bytes_bits_def)
    next
      case ne: False
      let ?o = "(length s - 1) div 4" and ?sh = "8 * ((length s - 1) mod 4)"
      let ?d = "from_string_loop s ?o ?sh (replicate (bm_len b1) 0)"
      let ?b = "\<lparr>bm_d = ?d, bm_len = bm_len b1, bm_top = ?o\<rparr>"
      have pos: "(length s + 3) div 4 - 1 = ?o" "(length s + 3) mod 4 * 8 = ?sh"
        using ne by (cases s; simp; presburger)+
      have b': "b' = retop ?b" "ok"
        using r r1 True ne z
        by (auto simp: bitmap_from_string_def Let_def BITMAP_BYTES_def pos simp flip: One_nat_def)
      have "length s \<le> 4 * bm_len b1" using len by linarith
      then have loop: "length ?d = bm_len b1" "\<And>n. n div 32 < bm_len b1 \<Longrightarrow>
          bit (?d ! (n div 32)) (n mod 32) \<longleftrightarrow> n \<in> bytes_bits s"
        using from_string_loop_bits [of s "replicate (bm_len b1) 0" ?o ?sh] True
        by (auto simp: BITMAP_MAX_def)
      have below: "n div 32 \<le> ?o" if "n \<in> bytes_bits s" for n
        using that unfolding bytes_bits_def word_byte_position by (intro div_le_mono) auto
      have ol: "?o < bm_len b1" using len by linarith
      have "?d ! i = 0" if "?o < i" "i < bm_len b1" for i
      proof (rule bit_word_eqI)
        fix j assume "j < LENGTH(32)"
        then have "(i * 32 + j) div 32 = i" "(i * 32 + j) mod 32 = j" by auto
        then show "bit (?d ! i) j = bit 0 j"
          using loop(2) [of "i * 32 + j"] below [of "i * 32 + j"] that by auto
      qed
      then have "bitmap_inv ?b" using loop(1) ol by (simp add: bitmap_inv_def)
      moreover have "bitmap_set_of ?b = bytes_bits s"
        using loop(2) below ol by (auto simp: bitmap_set_of_def intro: le_less_trans)
      ultimately show ?thesis
        using b' retop_spec(1,2) [of ?b] True by (auto simp: BITMAP_MAX_def)
    qed
  qed
  then show "bitmap_inv b'" "bitmap_set_of b' = (if ok then bytes_bits s else bitmap_set_of b)"
    "ok \<Longrightarrow> length s * 8 \<le> BITMAP_MAX" by simp_all
qed

lemma bitmap_from_string_ok:
  assumes "bitmap_inv b" and "length s \<le> BITMAP_MAX div 8" and "\<And>k. malloc_ok env k"
  shows "fst (bitmap_from_string env b s)"
proof -
  have "unat (of_nat (length s * 8) :: u32) = length s * 8"
    using assms(2) by (subst unat_of_nat) (simp add: bitmap_consts)
  then have "fst (bitmap_reserve env b (of_nat (length s * 8)))"
    using assms by (intro bitmap_reserve_ok) (simp_all add: BITMAP_MAX_def)
  then show ?thesis using assms(2)
    by (auto simp: bitmap_from_string_def Let_def split: prod.splits bool.splits)
qed

text \<open>Byte \<open>k\<close>, counted from the least significant one, of the words of a bitmap.\<close>

definition bitmap_byte :: "bitmap \<Rightarrow> nat \<Rightarrow> byte" where
  "bitmap_byte b k = ucast (drop_bit (8 * (k mod 4)) (bm_d b ! (k div 4)))"

text \<open>What the loops have written after \<open>k\<close> bytes.\<close>

definition to_string_state :: "bitmap \<Rightarrow> bytes \<Rightarrow> nat \<Rightarrow> nat \<Rightarrow> bytes \<Rightarrow> bool" where
  "to_string_state b s need k s' \<longleftrightarrow> length s' = length s \<and>
     (\<forall>m < length s. s' ! m =
        (if m < need \<and> need - 1 - m < k then bitmap_byte b (need - 1 - m) else s ! m))"

lemma to_string_state_step:
  assumes "to_string_state b s need k s'" and "k < need" and "need \<le> length s"
  shows "to_string_state b s need (Suc k) (s'[need - 1 - k := bitmap_byte b k])"
  using assms unfolding to_string_state_def
  by (auto simp: nth_list_update less_Suc_eq)

lemma to_string_inner_state:
  assumes "to_string_state b s need k s'" and "need \<le> length s" and "k = min need (4 * i)"
    and "to_string_inner need need (bm_d b ! i) (k, s') = (k2, s2)"
  shows "k2 = min need (4 * Suc i) \<and> to_string_state b s need k2 s2"
proof -
  let ?f = "\<lambda>j (k, s). if k \<ge> need then (k, s)
             else (k + 1, s[need - 1 - k := (ucast (drop_bit (j * 8) (bm_d b ! i) AND 0xff) :: byte)])"
  have step: "\<exists>r. ?f j (min need (4 * i + j), r0) = (min need (4 * i + Suc j), r) \<and>
      to_string_state b s need (min need (4 * i + Suc j)) r"
    if "to_string_state b s need (min need (4 * i + j)) r0" "j < 4" for j r0
  proof (cases "4 * i + j < need")
    case True
    then have m: "min need (4 * i + j) = 4 * i + j" "min need (4 * i + Suc j) = Suc (4 * i + j)"
      by auto
    have "(4 * i + j) mod 4 = j" "(4 * i + j) div 4 = i" using that(2) by auto
    then show ?thesis
      using to_string_state_step [of b s need "4 * i + j" r0] that True assms(2) unfolding m
      by (auto simp: bitmap_byte_def mult.commute)
  qed (use that in \<open>simp add: min_absorb1\<close>)
  have "\<exists>r. fold ?f [0..<j] (k, s') = (min need (4 * i + j), r) \<and>
      to_string_state b s need (min need (4 * i + j)) r" if "j \<le> 4" for j
    using that
  proof (induction j)
    case 0
    then show ?case using assms(1,3) by simp
  next
    case (Suc j)
    then obtain r0 where r0: "fold ?f [0..<j] (k, s') = (min need (4 * i + j), r0)"
      "to_string_state b s need (min need (4 * i + j)) r0" by auto
    show ?case using step [OF r0(2)] Suc.prems by (simp add: r0(1))
  qed
  from this [of 4] show ?thesis
    using assms(4) by (auto simp: to_string_inner_def BITMAP_BYTES_def add.commute)
qed

lemma to_string_words_state:
  assumes "need \<le> length s"
  shows "\<exists>r. fold (\<lambda>i. to_string_inner need need (bm_d b ! i)) [0..<w] (0, s) = (min need (4 * w), r)
    \<and> to_string_state b s need (min need (4 * w)) r"
proof (induction w)
  case 0
  then show ?case by (simp add: to_string_state_def)
next
  case (Suc w)
  then obtain r0 where r0: "fold (\<lambda>i. to_string_inner need need (bm_d b ! i)) [0..<w] (0, s) =
      (min need (4 * w), r0)" "to_string_state b s need (min need (4 * w)) r0" by auto
  obtain k2 s2 where "to_string_inner need need (bm_d b ! w) (min need (4 * w), r0) = (k2, s2)"
    by force
  with to_string_inner_state [OF r0(2) assms refl this] show ?case by (auto simp: r0(1))
qed

text \<open>
  Writing a bitmap into a buffer of sufficient length succeeds, writes exactly \<open>need\<close> bytes,
  and these bytes carry exactly the bits of the bitmap.
\<close>

lemma bitmap_to_string_spec:
  assumes inv: "bitmap_inv b"
  obtains need where "bitmap_nbytes b = (Some need, retop b)"
    and "need \<le> length s \<Longrightarrow> \<exists>s'. bitmap_to_string b s = (Some (Some s'), retop b) \<and>
      length s' = length s \<and> drop need s' = drop need s \<and>
      bytes_bits (take need s') = bitmap_set_of b"
    and "length s < need \<Longrightarrow> bitmap_to_string b s = (Some None, retop b)"
    and "\<And>m. bitmap_set_of b \<subseteq> {..<m} \<Longrightarrow> 8 * need \<le> m + 7"
proof -
  note r = retop_spec [OF inv]
  note d = bitmap_invD [OF r(1)]
  obtain k where k: "bitmap_nbits b = (Some k, retop b)" "\<And>n. n \<in> bitmap_set_of b \<Longrightarrow> n < k"
    "0 < k \<Longrightarrow> k - 1 \<in> bitmap_set_of b" "k \<le> 32 * (bm_top (retop b) + 1)"
    using bitmap_nbits_spec [OF inv] by metis
  define need where "need = (k + 7) div 8"
  have nb: "bitmap_nbytes b = (Some need, retop b)" by (simp add: bitmap_nbytes_def k(1) need_def)
  have nw: "need \<le> 4 * (bm_top (retop b) + 1)" using k(4) unfolding need_def by linarith
  have "\<exists>s'. bitmap_to_string b s = (Some (Some s'), retop b) \<and>
      length s' = length s \<and> drop need s' = drop need s \<and>
      bytes_bits (take need s') = bitmap_set_of b" if le: "need \<le> length s"
  proof -
    obtain s' where s': "fold (\<lambda>i. to_string_inner need need (bm_d (retop b) ! i))
        [0..<bm_top (retop b) + 1] (0, s) = (need, s')" "to_string_state (retop b) s need need s'"
      using to_string_words_state [OF le, of "retop b" "bm_top (retop b) + 1"] nw
      by (auto simp: min_absorb1)
    have eq: "bitmap_to_string b s = (Some (Some s'), retop b)"
      using le d nb s'(1) by (simp add: bitmap_to_string_def)
    have l: "length s' = length s" using s'(2) by (simp add: to_string_state_def)
    have dr: "drop need s' = drop need s"
      using s'(2) l by (intro nth_equalityI) (auto simp: to_string_state_def)
    have wr: "s' ! (need - 1 - m) = bitmap_byte (retop b) m" if "m < need" for m
      using s'(2) that le by (auto simp: to_string_state_def)
    have "n \<in> bytes_bits (take need s') \<longleftrightarrow> n \<in> bitmap_set_of b" for n
    proof (cases "n div 8 < need")
      case True
      have "n div 8 div 4 < bm_len (retop b)" using True nw d(2) by (auto simp: div_less_iff_less_mult)
      moreover have "n mod 8 + 8 * (n div 8 mod 4) = n mod 32" by (simp add: word_byte_position(2))
      moreover have "n div 32 = n div 8 div 4" "n mod 8 < 8" by (rule word_byte_position) simp
      ultimately show ?thesis
        using True le l wr [of "n div 8"] unfolding r(2) [symmetric]
        by (simp add: bytes_bits_def bitmap_set_of_def bitmap_byte_def bit_simps min_absorb2 add.commute del: mod_less_divisor)
    next
      case False
      then have "n \<notin> bitmap_set_of b" using k(2) [of n] unfolding need_def by linarith
      then show ?thesis using False le l by (simp add: bytes_bits_def)
    qed
    then show ?thesis using eq l dr by blast
  qed
  moreover have "length s < need \<Longrightarrow> bitmap_to_string b s = (Some None, retop b)"
    using nb by (simp add: bitmap_to_string_def)
  moreover have "8 * need \<le> m + 7" if "bitmap_set_of b \<subseteq> {..<m}" for m
  proof -
    have "k \<le> m" using k(3) that by (cases "k = 0") auto
    then show ?thesis unfolding need_def by linarith
  qed
  ultimately show thesis using that nb by blast
qed

section \<open>The interface: a finite set of bit numbers\<close>

datatype bit_op = Set_Bit u32 | Clear_Bit u32

locale bit_set =
  fixes invar :: "'b \<Rightarrow> bool"
    and content :: "'b \<Rightarrow> nat set"
    and set_bit :: "'b \<Rightarrow> u32 \<Rightarrow> bool \<times> 'b"
    and clear_bit :: "'b \<Rightarrow> u32 \<Rightarrow> 'b"
    and test_bit :: "'b \<Rightarrow> u32 \<Rightarrow> u32"
    and limit :: nat
  assumes set_bit_law: "invar b \<Longrightarrow> set_bit b n = (ok, b') \<Longrightarrow>
      invar b' \<and> content b' = (if ok then insert (unat n) (content b) else content b) \<and>
      (ok \<longrightarrow> unat n \<le> limit)"
    and clear_bit_law: "invar b \<Longrightarrow> unat n \<le> limit \<Longrightarrow>
      invar (clear_bit b n) \<and> content (clear_bit b n) = content b - {unat n}"
    and clear_bit_beyond: "limit < unat n \<Longrightarrow> clear_bit b n = b"
    and test_bit_law: "invar b \<Longrightarrow> test_bit b n = of_bool (unat n \<in> content b)"
begin

text \<open>A client's history: each request together with whether it was granted.\<close>

primrec run :: "'b \<Rightarrow> bit_op list \<Rightarrow> (bit_op \<times> bool) list \<times> 'b" where
  "run b [] = ([], b)"
| "run b (x # ops) =
     (let (ok, b1) = (case x of Set_Bit n \<Rightarrow> set_bit b n
                      | Clear_Bit n \<Rightarrow> (unat n \<le> limit, clear_bit b n));
          (h, b2) = run b1 ops
      in ((x, ok) # h, b2))"

text \<open>The same history on a mathematical set.\<close>

primrec abs_run :: "nat set \<Rightarrow> (bit_op \<times> bool) list \<Rightarrow> nat set" where
  "abs_run A [] = A"
| "abs_run A (e # h) = abs_run
     (case e of (Set_Bit n, ok) \<Rightarrow> if ok then insert (unat n) A else A
      | (Clear_Bit n, ok) \<Rightarrow> if ok then A - {unat n} else A) h"

lemma run_refines:
  assumes "invar b" and "run b ops = (h, b')"
  shows "invar b' \<and> content b' = abs_run (content b) h \<and> map fst h = ops"
  using assms
proof (induction ops arbitrary: b h)
  case Nil
  then show ?case by simp
next
  case (Cons x ops)
  obtain ok b1 where s: "(case x of Set_Bit n \<Rightarrow> set_bit b n
      | Clear_Bit n \<Rightarrow> (unat n \<le> limit, clear_bit b n)) = (ok, b1)" by force
  obtain h' where h': "run b1 ops = (h', b')" "h = (x, ok) # h'"
    using Cons.prems(2) s by (auto split: prod.splits)
  have "invar b1 \<and> content b1 = (case (x, ok) of
      (Set_Bit n, ok) \<Rightarrow> if ok then insert (unat n) (content b) else content b
      | (Clear_Bit n, ok) \<Rightarrow> if ok then content b - {unat n} else content b)"
    using s set_bit_law [OF Cons.prems(1)] clear_bit_law [OF Cons.prems(1)] clear_bit_beyond
      Cons.prems(1)
    by (cases x) (auto simp: not_le)
  then show ?case using Cons.IH [of b1 h'] h' by auto
qed

lemma test_after_run:
  "invar b \<Longrightarrow> run b ops = (h, b') \<Longrightarrow>
    test_bit b' n = of_bool (unat n \<in> abs_run (content b) h)"
  using run_refines test_bit_law by metis

end

interpretation bm: bit_set bitmap_inv bitmap_set_of "bitmap_set_bit env" bitmap_clear_bit
  bitmap_test_bit BITMAP_MAX for env
proof (unfold_locales, goal_cases)
  case (1 b n ok b')
  then show ?case using bitmap_set_bit_spec by auto
next
  case (2 b n)
  then show ?case using bitmap_clear_bit_spec by simp
next
  case (3 n b)
  then show ?case by (simp add: bitmap_clear_bit_def)
next
  case (4 b n)
  then show ?case by (rule bitmap_test_bit_iff)
qed

section \<open>Properties\<close>

text \<open>
  C30. From a fresh bitmap, after any sequence of \<open>bitmap_set_bit\<close> and \<open>bitmap_clear_bit\<close> calls,
  \<open>bitmap_test_bit\<close> answers for every position as a mathematical set on which the granted
  requests were played, whatever requests the allocator refused.
\<close>

theorem bitmap_refines_set:
  assumes "bitmap_new env = Some b" and "bm.run env b ops = (h, b')"
  shows "bitmap_inv b' \<and> map fst h = ops \<and>
    (\<forall>n. bitmap_test_bit b' n = of_bool (unat n \<in> bm.abs_run {} h))"
  using bitmap_new_inv [OF assms(1)] bm.run_refines [OF _ assms(2)] bm.test_after_run [OF _ assms(2)]
  by metis

lemma bitmap_refines_set_witness:
  "\<exists>b b'. bitmap_new plenty = Some b \<and>
     bm.run plenty b [Set_Bit 3, Set_Bit 40, Clear_Bit 3] =
       ([(Set_Bit 3, True), (Set_Bit 40, True), (Clear_Bit 3, True)], b') \<and>
     bitmap_test_bit b' 3 = 0 \<and> bitmap_test_bit b' 40 = 1"
proof -
  let ?b = "\<lparr>bm_d = [0], bm_len = 1, bm_top = 0\<rparr>"
  let ?h = "[(Set_Bit 3, True), (Set_Bit 40, True), (Clear_Bit 3, True)]"
  have n: "bitmap_new plenty = Some ?b" by (simp add: bitmap_new_def)
  have m: "\<not> BITMAP_MAX < 3" "\<not> BITMAP_MAX < 40" "3 \<le> BITMAP_MAX" by (simp_all add: BITMAP_MAX_def)
  obtain b' where r: "bm.run plenty ?b [Set_Bit 3, Set_Bit 40, Clear_Bit 3] = (?h, b')"
    using m by (simp add: bitmap_set_bit_def bitmap_reserve_def BITMAP_BITS_def BITMAP_WMASK_def)
  have "bitmap_test_bit b' 3 = 0" "bitmap_test_bit b' 40 = 1"
    using bitmap_refines_set [OF n r] by simp_all
  then show ?thesis using n r by blast
qed

text \<open>
  Round trip through the wire format of a bitmap whose bits are below \<open>BITMAP_MAX\<close>:
  \<open>bitmap_nbytes\<close> returns, writing the bitmap into a buffer of at least that many bytes
  succeeds and touches no byte beyond them, and with memory available
  \<open>bitmap_from_string\<close> accepts these bytes and restores exactly the set of bits, whatever
  the receiving bitmap held.
\<close>

theorem bitmap_string_roundtrip:
  assumes "bitmap_inv b" and "bitmap_set_of b \<subseteq> {..<BITMAP_MAX}"
    and "bitmap_inv c" and "\<And>k. malloc_ok env k"
  shows "\<exists>need. fst (bitmap_nbytes b) = Some need \<and> (\<forall>s. need \<le> length s \<longrightarrow>
    (\<exists>s' c'. bitmap_to_string b s = (Some (Some s'), retop b) \<and> drop need s' = drop need s \<and>
       bitmap_set_of (retop b) = bitmap_set_of b \<and>
       bitmap_from_string env c (take need s') = (True, c') \<and>
       bitmap_inv c' \<and> bitmap_set_of c' = bitmap_set_of b))"
proof -
  obtain need where n: "bitmap_nbytes b = (Some need, retop b)" "8 * need \<le> BITMAP_MAX + 7"
    using bitmap_to_string_spec [OF assms(1)] assms(2) by metis
  have "\<exists>s' c'. bitmap_to_string b s = (Some (Some s'), retop b) \<and> drop need s' = drop need s \<and>
       bitmap_set_of (retop b) = bitmap_set_of b \<and>
       bitmap_from_string env c (take need s') = (True, c') \<and>
       bitmap_inv c' \<and> bitmap_set_of c' = bitmap_set_of b" if le: "need \<le> length s" for s
  proof -
    obtain s' where s': "bitmap_to_string b s = (Some (Some s'), retop b)" "length s' = length s"
      "drop need s' = drop need s" "bytes_bits (take need s') = bitmap_set_of b"
      using bitmap_to_string_spec [OF assms(1), of s] n(1) le by (metis option.inject prod.inject)
    obtain ok c' where c': "bitmap_from_string env c (take need s') = (ok, c')" by force
    have "ok"
      using bitmap_from_string_ok [of c "take need s'" env] assms(3,4) n(2) c' le s'(2)
      by (simp add: BITMAP_MAX_def)
    then show ?thesis
      using bitmap_from_string_spec [OF assms(3) c'] retop_spec(2) [OF assms(1)] s' c' by auto
  qed
  then show ?thesis using n(1) by auto
qed

lemma bitmap_string_roundtrip_witness:
  "\<exists>s' c'. bitmap_to_string \<lparr>bm_d = [2, 0x103], bm_len = 2, bm_top = 1\<rparr> (replicate 8 0) =
       (Some (Some s'), \<lparr>bm_d = [2, 0x103], bm_len = 2, bm_top = 1\<rparr>) \<and>
     bitmap_from_string plenty \<lparr>bm_d = [0], bm_len = 1, bm_top = 0\<rparr> (take 6 s') = (True, c') \<and>
     bitmap_test_bit c' 33 = 1 \<and> bitmap_test_bit c' 34 = 0"
proof -
  let ?b = "\<lparr>bm_d = [2, 0x103], bm_len = 2, bm_top = Suc 0\<rparr>"
    and ?c = "\<lparr>bm_d = [0], bm_len = 1, bm_top = 0\<rparr>"
  have i: "bitmap_inv ?b" "bitmap_inv ?c" by (auto simp: bitmap_inv_def less_Suc_eq)
  have m: "bitmap_set_of ?b \<subseteq> {..<BITMAP_MAX}" by (auto simp: bitmap_set_of_def BITMAP_MAX_def)
  have rt: "retop ?b = ?b" by (simp add: retop_def)
  have "msb_loop 0x103 64 = Some 41" by (simp add: msb_loop.simps)
  then have nb: "fst (bitmap_nbytes ?b) = Some 6"
    by (simp add: bitmap_nbytes_def bitmap_nbits_def rt BITMAP_BITS_def)
  obtain s' c' where "bitmap_to_string ?b (replicate 8 0) = (Some (Some s'), ?b)"
    "bitmap_from_string plenty ?c (take 6 s') = (True, c')" "bitmap_inv c'"
    "bitmap_set_of c' = bitmap_set_of ?b"
    using bitmap_string_roundtrip [OF i(1) m i(2) plenty_ok] unfolding nb rt by force
  moreover from this have "bitmap_test_bit c' 33 = 1" "bitmap_test_bit c' 34 = 0"
    by (simp_all add: bitmap_test_bit_iff bitmap_set_of_def)
  ultimately show ?thesis by auto
qed

text \<open>
  The bit numbered \<open>BITMAP_MAX\<close> itself is accepted by \<open>bitmap_set_bit\<close> (its guard is
  \<open>n > BITMAP_MAX\<close>) but the string of such a bitmap is refused by \<open>bitmap_from_string\<close>, whose
  guard \<open>l > BITMAP_MAX / 8\<close> counts whole bytes: the two limits differ by one bit.
\<close>

theorem bitmap_max_bit_not_readable:
  assumes "bitmap_inv b" and "BITMAP_MAX \<in> bitmap_set_of b" and "bitmap_nbytes b = (Some need, b1)"
    and "bitmap_to_string b s = (Some (Some s'), b2)"
  shows "\<not> fst (bitmap_from_string env c (take need s'))"
proof -
  obtain need' where n: "bitmap_nbytes b = (Some need', retop b)" and
    ok: "need' \<le> length s \<Longrightarrow> \<exists>s'. bitmap_to_string b s = (Some (Some s'), retop b) \<and>
      length s' = length s \<and> drop need' s' = drop need' s \<and>
      bytes_bits (take need' s') = bitmap_set_of b"
    and short: "length s < need' \<Longrightarrow> bitmap_to_string b s = (Some None, retop b)"
    using bitmap_to_string_spec [OF assms(1)] by metis
  have "need' = need" using n assms(3) by simp
  moreover have le: "need' \<le> length s" using short assms(4) by (auto simp: not_less [symmetric])
  ultimately have "bytes_bits (take need s') = bitmap_set_of b" using ok assms(4) by simp
  then have "BITMAP_MAX div 8 < length (take need s')"
    using assms(2) by (auto simp: bytes_bits_def)
  then show ?thesis by (simp add: bitmap_from_string_def)
qed

lemma bitmap_max_bit_not_readable_witness:
  "\<exists>b need b1 s s' b2. bitmap_inv b \<and> BITMAP_MAX \<in> bitmap_set_of b \<and>
     bitmap_nbytes b = (Some need, b1) \<and> bitmap_to_string b s = (Some (Some s'), b2) \<and>
     \<not> fst (bitmap_from_string plenty b (take need s'))"
proof -
  define d :: "u32 list" where "d = replicate (2 ^ 19) 0 @ [1]"
  let ?b = "\<lparr>bm_d = d, bm_len = 2 ^ 19 + 1, bm_top = 2 ^ 19\<rparr>"
  have i: "bitmap_inv ?b" by (auto simp: bitmap_inv_def d_def)
  have "d ! length (replicate (2 ^ 19) (0 :: u32)) = 1" unfolding d_def by (rule nth_append_length)
  then have "d ! 524288 = 1" by simp
  then have m: "BITMAP_MAX \<in> bitmap_set_of ?b" by (simp add: bitmap_set_of_def BITMAP_MAX_def)
  obtain need where n: "bitmap_nbytes ?b = (Some need, retop ?b)"
    using bitmap_to_string_spec [OF i] by metis
  obtain s' where "bitmap_to_string ?b (replicate need 0) = (Some (Some s'), retop ?b)"
    using bitmap_to_string_spec [OF i, of "replicate need 0"] n
    by (metis le_refl length_replicate option.inject prod.inject)
  with bitmap_max_bit_not_readable [OF i m n this] i m n show ?thesis by blast
qed

end
