(* ===== verification/Nchan.thy ===== *)
theory Nchan
  imports Prelude
begin

text \<open>
  The half-close state machines of a channel (\<open>nchan.c\<close>): the input half, the output half and the
  close flags, for protocol 1.5 and protocol 2. A channel carries the list of what it did to the
  outside world, in order: the messages given to \<open>packet_send\<close> and the system calls on its
  descriptors. \<open>shutdown\<close> and \<open>close\<close> failures are only logged by the code and have no effect here.
  The handlers are executed by the step relation \<open>chan_step\<close>, in which everything else the
  program does to a channel (data moving through its buffers, descriptors, its type, messages other
  than those of the close handshake) is an arbitrary environment step; the invariants hold in every reachable state.
\<close>

section \<open>Channels\<close>

datatype istate = CHAN_INPUT_OPEN | CHAN_INPUT_WAIT_DRAIN | CHAN_INPUT_WAIT_OCLOSE | CHAN_INPUT_CLOSED
datatype ostate = CHAN_OUTPUT_OPEN | CHAN_OUTPUT_WAIT_DRAIN | CHAN_OUTPUT_WAIT_IEOF | CHAN_OUTPUT_CLOSED

text \<open>The type-specific rest of a message: strings and integers.\<close>

datatype pkt_item = P_string string | P_int int

datatype chan_effect =
    MSG_CHANNEL_INPUT_EOF int | MSG_CHANNEL_OUTPUT_CLOSE int
  | MSG_CHANNEL_EOF int | MSG_CHANNEL_CLOSE int | MSG_CHANNEL_EOW int
  | MSG_CHANNEL_DATA int bytes | MSG_CHANNEL_EXTENDED_DATA int u32 bytes | MSG_CHANNEL_WINDOW_ADJUST int u32
  | MSG_CHANNEL_OPEN string int u32 u32 "pkt_item list" | MSG_CHANNEL_OPEN_CONFIRMATION int int u32 u32
  | MSG_CHANNEL_OPEN_FAILURE int u32 "pkt_item list" | MSG_CHANNEL_CLOSE_CONFIRMATION int | MSG_IGNORE nat
  | MSG_PROTO1 int "pkt_item list"
  | SYS_SHUT_RD int | SYS_SHUT_WR int | SYS_SHUT_RDWR int | SYS_CLOSE int
  | SYS_READ int bytes | SYS_READ_EFD int bytes | SYS_WRITE int bytes | SYS_WRITE_EFD int bytes

datatype chan_ext = CHAN_EXTENDED_IGNORE | CHAN_EXTENDED_READ | CHAN_EXTENDED_WRITE

text \<open>
  The fields of \<open>struct Channel\<close> that the modelled functions use. A callback is the number of the
  function it points to.
\<close>

record channel =
  ch_type :: int
  ch_self :: int
  ch_remote_id :: int
  ch_istate :: istate
  ch_ostate :: ostate
  ch_flags :: u32
  ch_rfd :: int
  ch_wfd :: int
  ch_efd :: int
  ch_sock :: int
  ch_isatty :: bool
  ch_force_drain :: bool
  ch_delayed :: bool
  ch_notbefore :: int
  ch_input :: bytes
  ch_output :: bytes
  ch_extended :: bytes
  ch_path :: "string option"
  ch_listening_port :: int
  ch_listening_addr :: "string option"
  ch_host_port :: int
  ch_remote_window :: u32
  ch_remote_maxpacket :: u32
  ch_local_window :: u32
  ch_local_window_max :: u32
  ch_local_consumed :: u32
  ch_local_maxpacket :: u32
  ch_extended_usage :: chan_ext
  ch_single_connection :: bool
  ch_ctype :: string
  ch_remote_name :: string
  ch_open_confirm :: "nat option"
  ch_detach_user :: "nat option"
  ch_detach_close :: bool
  ch_status_confirms :: "nat list"
  ch_input_filter :: "nat option"
  ch_output_filter :: "nat option"
  ch_filter_cleanup :: "nat option"
  ch_datagram :: bool
  ch_mux_ctx :: "int option"
  ch_mux_pause :: bool
  ch_mux_downstream_id :: u32
  ch_did :: "chan_effect list"

definition SSH_CHANNEL_LARVAL :: int where "SSH_CHANNEL_LARVAL = 10"
definition SSH_CHANNEL_ZOMBIE :: int where "SSH_CHANNEL_ZOMBIE = 14"
definition CHAN_CLOSE_SENT :: u32 where "CHAN_CLOSE_SENT = 0x01"
definition CHAN_CLOSE_RCVD :: u32 where "CHAN_CLOSE_RCVD = 0x02"
definition CHAN_EOF_SENT :: u32 where "CHAN_EOF_SENT = 0x04"
definition CHAN_EOF_RCVD :: u32 where "CHAN_EOF_RCVD = 0x08"
definition CHAN_LOCAL :: u32 where "CHAN_LOCAL = 0x10"

lemmas chan_flag_defs = CHAN_CLOSE_SENT_def CHAN_CLOSE_RCVD_def CHAN_EOF_SENT_def
  CHAN_EOF_RCVD_def CHAN_LOCAL_def

text \<open>The globals the handlers read: the protocol and the peer's known bugs.\<close>

record compat =
  compat20 :: bool
  datafellows :: u32

definition SSH_NEW_OPENSSH :: u32 where "SSH_NEW_OPENSSH = 0x04000000"
definition SSH_BUG_EXTEOF :: u32 where "SSH_BUG_EXTEOF = 0x00200000"

definition has_flag :: "u32 \<Rightarrow> channel \<Rightarrow> bool" where
  "has_flag f c \<longleftrightarrow> ch_flags c AND f \<noteq> 0"

definition set_flag :: "u32 \<Rightarrow> channel \<Rightarrow> channel" where
  "set_flag f c = c\<lparr>ch_flags := ch_flags c OR f\<rparr>"

definition emit :: "chan_effect \<Rightarrow> channel \<Rightarrow> channel" where
  "emit e c = c\<lparr>ch_did := ch_did c @ [e]\<rparr>"

definition CHANNEL_EFD_OUTPUT_ACTIVE :: "compat \<Rightarrow> channel \<Rightarrow> bool" where
  "CHANNEL_EFD_OUTPUT_ACTIVE g c \<longleftrightarrow>
     compat20 g \<and> ch_extended_usage c = CHAN_EXTENDED_WRITE \<and> ch_efd c \<noteq> - 1 \<and>
     (\<not> has_flag (CHAN_EOF_RCVD OR CHAN_CLOSE_RCVD) c \<or> ch_extended c \<noteq> [])"

definition chan_set_istate :: "channel \<Rightarrow> istate \<Rightarrow> channel" where
  "chan_set_istate c n = c\<lparr>ch_istate := n\<rparr>"

definition chan_set_ostate :: "channel \<Rightarrow> ostate \<Rightarrow> channel" where
  "chan_set_ostate c n = c\<lparr>ch_ostate := n\<rparr>"

section \<open>Helpers: shutting down one half\<close>

text \<open>\<open>channel_close_fd\<close> of \<open>channels.c\<close> on the read and the write descriptor.\<close>

definition close_wfd :: "channel \<Rightarrow> channel" where
  "close_wfd c = (if ch_wfd c \<noteq> - 1 then (emit (SYS_CLOSE (ch_wfd c)) c)\<lparr>ch_wfd := - 1\<rparr> else c)"

definition close_rfd :: "channel \<Rightarrow> channel" where
  "close_rfd c = (if ch_rfd c \<noteq> - 1 then (emit (SYS_CLOSE (ch_rfd c)) c)\<lparr>ch_rfd := - 1\<rparr> else c)"

definition chan_shutdown_write :: "compat \<Rightarrow> channel \<Rightarrow> channel" where
  "chan_shutdown_write g c0 =
     (let c = c0\<lparr>ch_output := []\<rparr> in
      if compat20 g \<and> ch_type c = SSH_CHANNEL_LARVAL then c
      else if ch_sock c \<noteq> - 1 then emit (SYS_SHUT_WR (ch_sock c)) c
      else close_wfd c)"

definition chan_shutdown_read :: "compat \<Rightarrow> channel \<Rightarrow> channel" where
  "chan_shutdown_read g c =
     (if compat20 g \<and> ch_type c = SSH_CHANNEL_LARVAL then c
      else if ch_sock c \<noteq> - 1 then emit (SYS_SHUT_RD (ch_sock c)) c
      else close_rfd c)"

section \<open>Actions\<close>

definition chan_send_ieof1 :: "channel \<Rightarrow> channel" where
  "chan_send_ieof1 c =
     (case ch_istate c of
        CHAN_INPUT_OPEN \<Rightarrow> emit (MSG_CHANNEL_INPUT_EOF (ch_remote_id c)) c
      | CHAN_INPUT_WAIT_DRAIN \<Rightarrow> emit (MSG_CHANNEL_INPUT_EOF (ch_remote_id c)) c
      | _ \<Rightarrow> c)"

definition chan_send_oclose1 :: "channel \<Rightarrow> channel" where
  "chan_send_oclose1 c =
     (case ch_ostate c of
        CHAN_OUTPUT_OPEN \<Rightarrow> emit (MSG_CHANNEL_OUTPUT_CLOSE (ch_remote_id c)) (c\<lparr>ch_output := []\<rparr>)
      | CHAN_OUTPUT_WAIT_DRAIN \<Rightarrow>
          emit (MSG_CHANNEL_OUTPUT_CLOSE (ch_remote_id c)) (c\<lparr>ch_output := []\<rparr>)
      | _ \<Rightarrow> c)"

definition chan_send_eof2 :: "channel \<Rightarrow> channel" where
  "chan_send_eof2 c =
     (case ch_istate c of
        CHAN_INPUT_WAIT_DRAIN \<Rightarrow> set_flag CHAN_EOF_SENT (emit (MSG_CHANNEL_EOF (ch_remote_id c)) c)
      | _ \<Rightarrow> c)"

definition chan_send_close2 :: "channel \<Rightarrow> channel" where
  "chan_send_close2 c =
     (if ch_ostate c \<noteq> CHAN_OUTPUT_CLOSED \<or> ch_istate c \<noteq> CHAN_INPUT_CLOSED then c
      else if has_flag CHAN_CLOSE_SENT c then c
      else set_flag CHAN_CLOSE_SENT (emit (MSG_CHANNEL_CLOSE (ch_remote_id c)) c))"

definition chan_send_eow2 :: "compat \<Rightarrow> channel \<Rightarrow> channel" where
  "chan_send_eow2 g c =
     (if ch_ostate c = CHAN_OUTPUT_CLOSED then c
      else if datafellows g AND SSH_NEW_OPENSSH = 0 then c
      else emit (MSG_CHANNEL_EOW (ch_remote_id c)) c)"

section \<open>Events\<close>

definition chan_rcvd_oclose1 :: "compat \<Rightarrow> channel \<Rightarrow> channel" where
  "chan_rcvd_oclose1 g c =
     (case ch_istate c of
        CHAN_INPUT_WAIT_OCLOSE \<Rightarrow> chan_set_istate c CHAN_INPUT_CLOSED
      | CHAN_INPUT_OPEN \<Rightarrow>
          chan_set_istate (chan_send_ieof1 (chan_shutdown_read g c)) CHAN_INPUT_CLOSED
      | CHAN_INPUT_WAIT_DRAIN \<Rightarrow> chan_set_istate (chan_send_ieof1 c) CHAN_INPUT_CLOSED
      | _ \<Rightarrow> c)"

definition chan_read_failed :: "compat \<Rightarrow> channel \<Rightarrow> channel" where
  "chan_read_failed g c =
     (case ch_istate c of
        CHAN_INPUT_OPEN \<Rightarrow> chan_set_istate (chan_shutdown_read g c) CHAN_INPUT_WAIT_DRAIN
      | _ \<Rightarrow> c)"

definition chan_ibuf_empty :: "compat \<Rightarrow> channel \<Rightarrow> channel" where
  "chan_ibuf_empty g c =
     (if ch_input c \<noteq> [] then c
      else case ch_istate c of
        CHAN_INPUT_WAIT_DRAIN \<Rightarrow>
          if compat20 g then
            chan_set_istate
              (if \<not> has_flag (CHAN_CLOSE_SENT OR CHAN_LOCAL) c then chan_send_eof2 c else c)
              CHAN_INPUT_CLOSED
          else chan_set_istate (chan_send_ieof1 c) CHAN_INPUT_WAIT_OCLOSE
      | _ \<Rightarrow> c)"

definition chan_rcvd_ieof1 :: "channel \<Rightarrow> channel" where
  "chan_rcvd_ieof1 c =
     (case ch_ostate c of
        CHAN_OUTPUT_OPEN \<Rightarrow> chan_set_ostate c CHAN_OUTPUT_WAIT_DRAIN
      | CHAN_OUTPUT_WAIT_IEOF \<Rightarrow> chan_set_ostate c CHAN_OUTPUT_CLOSED
      | _ \<Rightarrow> c)"

definition chan_write_failed1 :: "compat \<Rightarrow> channel \<Rightarrow> channel" where
  "chan_write_failed1 g c =
     (case ch_ostate c of
        CHAN_OUTPUT_OPEN \<Rightarrow>
          chan_set_ostate (chan_send_oclose1 (chan_shutdown_write g c)) CHAN_OUTPUT_WAIT_IEOF
      | CHAN_OUTPUT_WAIT_DRAIN \<Rightarrow>
          chan_set_ostate (chan_send_oclose1 (chan_shutdown_write g c)) CHAN_OUTPUT_CLOSED
      | _ \<Rightarrow> c)"

definition chan_obuf_empty :: "compat \<Rightarrow> channel \<Rightarrow> channel" where
  "chan_obuf_empty g c =
     (if ch_output c \<noteq> [] then c
      else case ch_ostate c of
        CHAN_OUTPUT_WAIT_DRAIN \<Rightarrow>
          let c1 = chan_shutdown_write g c;
              c2 = (if \<not> compat20 g then chan_send_oclose1 c1 else c1)
          in chan_set_ostate c2 CHAN_OUTPUT_CLOSED
      | _ \<Rightarrow> c)"

definition chan_rcvd_close2 :: "compat \<Rightarrow> channel \<Rightarrow> channel" where
  "chan_rcvd_close2 g c0 =
     (let c = (if \<not> has_flag CHAN_LOCAL c0 then set_flag CHAN_CLOSE_RCVD c0 else c0) in
      if ch_type c = SSH_CHANNEL_LARVAL
      then chan_set_istate (chan_set_ostate c CHAN_OUTPUT_CLOSED) CHAN_INPUT_CLOSED
      else let c1 = (case ch_ostate c of
                       CHAN_OUTPUT_OPEN \<Rightarrow> chan_set_ostate c CHAN_OUTPUT_WAIT_DRAIN | _ \<Rightarrow> c)
           in (case ch_istate c1 of
                 CHAN_INPUT_OPEN \<Rightarrow> chan_set_istate (chan_shutdown_read g c1) CHAN_INPUT_CLOSED
               | CHAN_INPUT_WAIT_DRAIN \<Rightarrow>
                   chan_set_istate
                     (if \<not> has_flag CHAN_LOCAL c1 then chan_send_eof2 c1 else c1) CHAN_INPUT_CLOSED
               | _ \<Rightarrow> c1))"

definition chan_rcvd_eow :: "compat \<Rightarrow> channel \<Rightarrow> channel" where
  "chan_rcvd_eow g c =
     (case ch_istate c of
        CHAN_INPUT_OPEN \<Rightarrow> chan_set_istate (chan_shutdown_read g c) CHAN_INPUT_CLOSED
      | _ \<Rightarrow> c)"

definition chan_rcvd_eof2 :: "channel \<Rightarrow> channel" where
  "chan_rcvd_eof2 c0 =
     (let c = set_flag CHAN_EOF_RCVD c0 in
      if ch_ostate c = CHAN_OUTPUT_OPEN then chan_set_ostate c CHAN_OUTPUT_WAIT_DRAIN else c)"

definition chan_write_failed2 :: "compat \<Rightarrow> channel \<Rightarrow> channel" where
  "chan_write_failed2 g c =
     (let go = (let c1 = chan_shutdown_write g c;
                    c2 = (if ch_ctype c1 = ''session'' then chan_send_eow2 g c1 else c1)
                in chan_set_ostate c2 CHAN_OUTPUT_CLOSED)
      in case ch_ostate c of
           CHAN_OUTPUT_OPEN \<Rightarrow> go
         | CHAN_OUTPUT_WAIT_DRAIN \<Rightarrow> go
         | _ \<Rightarrow> c)"

definition chan_rcvd_ieof :: "compat \<Rightarrow> channel \<Rightarrow> channel" where
  "chan_rcvd_ieof g c0 =
     (let c = (if compat20 g then chan_rcvd_eof2 c0 else chan_rcvd_ieof1 c0) in
      if ch_ostate c = CHAN_OUTPUT_WAIT_DRAIN \<and> ch_output c = [] \<and> \<not> CHANNEL_EFD_OUTPUT_ACTIVE g c
      then chan_obuf_empty g c else c)"

definition chan_rcvd_oclose :: "compat \<Rightarrow> channel \<Rightarrow> channel" where
  "chan_rcvd_oclose g c = (if compat20 g then chan_rcvd_close2 g c else chan_rcvd_oclose1 g c)"

definition chan_write_failed :: "compat \<Rightarrow> channel \<Rightarrow> channel" where
  "chan_write_failed g c = (if compat20 g then chan_write_failed2 g c else chan_write_failed1 g c)"

definition chan_mark_dead :: "channel \<Rightarrow> channel" where
  "chan_mark_dead c = c\<lparr>ch_type := SSH_CHANNEL_ZOMBIE\<rparr>"

definition chan_is_dead :: "compat \<Rightarrow> channel \<Rightarrow> bool \<Rightarrow> bool \<times> channel" where
  "chan_is_dead g c do_send =
     (if ch_type c = SSH_CHANNEL_ZOMBIE then (True, c)
      else if ch_istate c \<noteq> CHAN_INPUT_CLOSED \<or> ch_ostate c \<noteq> CHAN_OUTPUT_CLOSED then (False, c)
      else if \<not> compat20 g then (True, c)
      else if datafellows g AND SSH_BUG_EXTEOF \<noteq> 0 \<and> ch_extended_usage c = CHAN_EXTENDED_WRITE \<and>
              ch_efd c \<noteq> - 1 \<and> ch_extended c \<noteq> [] then (False, c)
      else if has_flag CHAN_LOCAL c then (True, c)
      else if \<not> has_flag CHAN_CLOSE_SENT c \<and> \<not> do_send \<and> has_flag CHAN_CLOSE_RCVD c then (True, c)
      else let c1 = (if \<not> has_flag CHAN_CLOSE_SENT c \<and> do_send then chan_send_close2 c else c) in
        (has_flag CHAN_CLOSE_SENT c1 \<and> has_flag CHAN_CLOSE_RCVD c1, c1))"

section \<open>The step relation\<close>

text \<open>The messages of the close handshake that a channel has sent, in order.\<close>

fun is_msg :: "chan_effect \<Rightarrow> bool" where
  "is_msg (MSG_CHANNEL_INPUT_EOF _) = True"
| "is_msg (MSG_CHANNEL_OUTPUT_CLOSE _) = True"
| "is_msg (MSG_CHANNEL_EOF _) = True"
| "is_msg (MSG_CHANNEL_CLOSE _) = True"
| "is_msg (MSG_CHANNEL_EOW _) = True"
| "is_msg _ = False"

definition wire :: "channel \<Rightarrow> chan_effect list" where
  "wire c = filter is_msg (ch_did c)"

text \<open>
  \<open>chan_step\<close> runs one handler, or lets the rest of the program move data, descriptors and the
  type of the channel. \<open>chan_rcvd_eow\<close> is only called for protocol 2.
\<close>

inductive chan_step :: "compat \<Rightarrow> channel \<Rightarrow> channel \<Rightarrow> bool" for g where
  read_failed: "chan_step g c (chan_read_failed g c)"
| ibuf_empty: "chan_step g c (chan_ibuf_empty g c)"
| rcvd_ieof: "chan_step g c (chan_rcvd_ieof g c)"
| rcvd_oclose: "chan_step g c (chan_rcvd_oclose g c)"
| rcvd_eow: "compat20 g \<Longrightarrow> chan_step g c (chan_rcvd_eow g c)"
| write_failed: "chan_step g c (chan_write_failed g c)"
| obuf_empty: "chan_step g c (chan_obuf_empty g c)"
| mark_dead: "chan_step g c (chan_mark_dead c)"
| is_dead: "chan_step g c (snd (chan_is_dead g c do_send))"
| elsewhere: "ch_istate c' = ch_istate c \<Longrightarrow> ch_ostate c' = ch_ostate c \<Longrightarrow> ch_flags c' = ch_flags c \<Longrightarrow>
    ch_remote_id c' = ch_remote_id c \<Longrightarrow> wire c' = wire c \<Longrightarrow> chan_step g c c'"

definition chan_new :: "channel \<Rightarrow> bool" where
  "chan_new c \<longleftrightarrow> ch_istate c = CHAN_INPUT_OPEN \<and> ch_ostate c = CHAN_OUTPUT_OPEN \<and> ch_did c = [] \<and>
     ch_flags c \<in> {0, CHAN_LOCAL}"

section \<open>Flags, effects and shutdowns\<close>

lemma has_set_flag [simp]: "has_flag f (set_flag h c) \<longleftrightarrow> has_flag f c \<or> h AND f \<noteq> 0"
  by (simp add: has_flag_def set_flag_def bit.conj_disj_distrib2 or_eq_0_iff)

lemma has_flag_or: "has_flag (f OR h) c \<longleftrightarrow> has_flag f c \<or> has_flag h c"
  by (simp add: has_flag_def bit.conj_disj_distrib or_eq_0_iff)

lemma has_flag_cong: "ch_flags c = ch_flags c' \<Longrightarrow> has_flag f c = has_flag f c'"
  by (simp add: has_flag_def)

lemma has_flag_upd [simp]:
  "has_flag f (c\<lparr>ch_istate := i\<rparr>) = has_flag f c" "has_flag f (c\<lparr>ch_ostate := j\<rparr>) = has_flag f c"
  "has_flag f (c\<lparr>ch_type := t\<rparr>) = has_flag f c"
  "has_flag f (c\<lparr>ch_output := bs\<rparr>) = has_flag f c" "has_flag f (emit e c) = has_flag f c"
  by (simp_all add: has_flag_def emit_def)

lemma set_flag_sel [simp]:
  "ch_istate (set_flag h c) = ch_istate c" "ch_ostate (set_flag h c) = ch_ostate c"
  "ch_remote_id (set_flag h c) = ch_remote_id c" "ch_type (set_flag h c) = ch_type c"
  "ch_output (set_flag h c) = ch_output c" "wire (set_flag h c) = wire c"
  by (simp_all add: set_flag_def wire_def)

lemma emit_sel [simp]:
  "ch_istate (emit e c) = ch_istate c" "ch_ostate (emit e c) = ch_ostate c"
  "ch_remote_id (emit e c) = ch_remote_id c" "ch_type (emit e c) = ch_type c"
  "wire (emit e c) = wire c @ (if is_msg e then [e] else [])"
  by (simp_all add: emit_def wire_def)

lemma wire_upd [simp]:
  "wire (c\<lparr>ch_istate := i\<rparr>) = wire c" "wire (c\<lparr>ch_ostate := j\<rparr>) = wire c"
  "wire (c\<lparr>ch_type := t\<rparr>) = wire c" "wire (c\<lparr>ch_output := bs\<rparr>) = wire c"
  by (simp_all add: wire_def)

text \<open>Shutting down a half touches neither the state of the channel nor the wire.\<close>

lemma shutdown_read_sel [simp]:
  "ch_istate (chan_shutdown_read g c) = ch_istate c" "ch_ostate (chan_shutdown_read g c) = ch_ostate c"
  "ch_remote_id (chan_shutdown_read g c) = ch_remote_id c"
  "has_flag f (chan_shutdown_read g c) = has_flag f c" "wire (chan_shutdown_read g c) = wire c"
  by (simp_all add: chan_shutdown_read_def close_rfd_def emit_def has_flag_def wire_def)

lemma shutdown_write_sel [simp]:
  "ch_istate (chan_shutdown_write g c) = ch_istate c" "ch_ostate (chan_shutdown_write g c) = ch_ostate c"
  "ch_remote_id (chan_shutdown_write g c) = ch_remote_id c"
  "has_flag f (chan_shutdown_write g c) = has_flag f c" "wire (chan_shutdown_write g c) = wire c"
  by (simp_all add: chan_shutdown_write_def close_wfd_def emit_def has_flag_def wire_def Let_def)

named_theorems nchan_defs

lemmas [nchan_defs] = chan_set_istate_def chan_set_ostate_def chan_send_ieof1_def
  chan_send_oclose1_def chan_send_eof2_def chan_send_close2_def chan_send_eow2_def
  chan_rcvd_oclose1_def chan_read_failed_def chan_ibuf_empty_def chan_rcvd_ieof1_def
  chan_write_failed1_def chan_obuf_empty_def chan_rcvd_close2_def chan_rcvd_eow_def
  chan_rcvd_eof2_def chan_write_failed2_def chan_rcvd_ieof_def chan_rcvd_oclose_def
  chan_write_failed_def chan_mark_dead_def chan_is_dead_def Let_def

section \<open>Protocol 2\<close>

text \<open>
  What a protocol 2 channel may have sent: at most one EOF and one EOW, then at most one CLOSE and
  nothing after it; each only once its half is closed.
\<close>

definition inv2 :: "channel \<Rightarrow> bool" where
  "inv2 c \<longleftrightarrow> ch_istate c \<noteq> CHAN_INPUT_WAIT_OCLOSE \<and> ch_ostate c \<noteq> CHAN_OUTPUT_WAIT_IEOF \<and>
     (has_flag CHAN_CLOSE_SENT c \<longrightarrow> ch_istate c = CHAN_INPUT_CLOSED \<and> ch_ostate c = CHAN_OUTPUT_CLOSED) \<and>
     (\<exists>u. wire c = u @ (if has_flag CHAN_CLOSE_SENT c then [MSG_CHANNEL_CLOSE (ch_remote_id c)] else []) \<and>
        distinct u \<and> set u \<subseteq> {MSG_CHANNEL_EOF (ch_remote_id c), MSG_CHANNEL_EOW (ch_remote_id c)} \<and>
        (MSG_CHANNEL_EOF (ch_remote_id c) \<in> set u \<longleftrightarrow> has_flag CHAN_EOF_SENT c) \<and>
        (MSG_CHANNEL_EOF (ch_remote_id c) \<in> set u \<longrightarrow> ch_istate c = CHAN_INPUT_CLOSED) \<and>
        (MSG_CHANNEL_EOW (ch_remote_id c) \<in> set u \<longrightarrow> ch_ostate c = CHAN_OUTPUT_CLOSED))"

lemma flag_ands [simp]:
  "CHAN_CLOSE_RCVD AND CHAN_CLOSE_SENT = 0" "CHAN_EOF_RCVD AND CHAN_CLOSE_SENT = 0"
  "CHAN_EOF_SENT AND CHAN_CLOSE_SENT = 0" "CHAN_CLOSE_SENT \<noteq> 0"
  "CHAN_CLOSE_RCVD AND CHAN_EOF_SENT = 0" "CHAN_EOF_RCVD AND CHAN_EOF_SENT = 0"
  "CHAN_CLOSE_SENT AND CHAN_EOF_SENT = 0" "CHAN_EOF_SENT \<noteq> 0"
  "CHAN_CLOSE_RCVD AND CHAN_LOCAL = 0" "CHAN_EOF_RCVD AND CHAN_LOCAL = 0"
  "CHAN_EOF_SENT AND CHAN_LOCAL = 0" "CHAN_CLOSE_SENT AND CHAN_LOCAL = 0"
  "CHAN_CLOSE_RCVD \<noteq> 0" "CHAN_EOF_RCVD AND CHAN_CLOSE_RCVD = 0"
  "CHAN_EOF_SENT AND CHAN_CLOSE_RCVD = 0" "CHAN_CLOSE_SENT AND CHAN_CLOSE_RCVD = 0"
  by (simp_all add: chan_flag_defs)

text \<open>The elementary changes and when they keep the invariant.\<close>

lemma inv2_flag: "inv2 c \<Longrightarrow> h \<in> {CHAN_CLOSE_RCVD, CHAN_EOF_RCVD} \<Longrightarrow> inv2 (set_flag h c)"
  by (auto simp: inv2_def)

lemma inv2_cong:
  assumes "ch_istate c' = ch_istate c" and "ch_ostate c' = ch_ostate c"
    and "\<And>f. has_flag f c' = has_flag f c"
    and "ch_remote_id c' = ch_remote_id c" and "wire c' = wire c"
  shows "inv2 c' = inv2 c"
  unfolding inv2_def assms ..

lemma inv2_shutdown [simp]:
  "inv2 (chan_shutdown_read g c) = inv2 c" "inv2 (chan_shutdown_write g c) = inv2 c"
  by (rule inv2_cong; simp)+

lemma inv2_istate:
  "inv2 c \<Longrightarrow> ch_istate c \<noteq> CHAN_INPUT_CLOSED \<Longrightarrow> i \<noteq> CHAN_INPUT_WAIT_OCLOSE \<Longrightarrow>
   inv2 (c\<lparr>ch_istate := i\<rparr>)"
  by (auto simp: inv2_def)

lemma inv2_istate_closed: "inv2 c \<Longrightarrow> inv2 (c\<lparr>ch_istate := CHAN_INPUT_CLOSED\<rparr>)"
  by (auto simp: inv2_def)

lemma inv2_ostate:
  "inv2 c \<Longrightarrow> ch_ostate c \<noteq> CHAN_OUTPUT_CLOSED \<Longrightarrow> i \<noteq> CHAN_OUTPUT_WAIT_IEOF \<Longrightarrow>
   inv2 (c\<lparr>ch_ostate := i\<rparr>)"
  by (auto simp: inv2_def)

lemma inv2_ostate_closed: "inv2 c \<Longrightarrow> inv2 (c\<lparr>ch_ostate := CHAN_OUTPUT_CLOSED\<rparr>)"
  by (auto simp: inv2_def)

lemma inv2_type: "inv2 (c\<lparr>ch_type := t\<rparr>) = inv2 c"
  by (rule inv2_cong) simp_all

lemma inv2_eof:
  assumes "inv2 c"
  shows "inv2 (chan_set_istate (chan_send_eof2 c) CHAN_INPUT_CLOSED)"
proof (cases "ch_istate c = CHAN_INPUT_WAIT_DRAIN")
  case True
  with assms have n: "\<not> has_flag CHAN_CLOSE_SENT c" "\<not> has_flag CHAN_EOF_SENT c"
    by (auto simp: inv2_def)
  with assms obtain u where u: "wire c = u" "distinct u"
    "set u \<subseteq> {MSG_CHANNEL_EOF (ch_remote_id c), MSG_CHANNEL_EOW (ch_remote_id c)}"
    "MSG_CHANNEL_EOF (ch_remote_id c) \<notin> set u"
    "MSG_CHANNEL_EOW (ch_remote_id c) \<in> set u \<longrightarrow> ch_ostate c = CHAN_OUTPUT_CLOSED"
    by (auto simp: inv2_def)
  with assms True n show ?thesis
    by (auto simp: inv2_def chan_set_istate_def chan_send_eof2_def)
next
  case False
  then have "chan_send_eof2 c = c" by (cases "ch_istate c") (auto simp: chan_send_eof2_def)
  then show ?thesis using inv2_istate_closed [OF assms] by (simp add: chan_set_istate_def)
qed

lemma inv2_eow:
  assumes "inv2 c" and "ch_ostate c \<noteq> CHAN_OUTPUT_CLOSED"
  shows "inv2 (chan_set_ostate (chan_send_eow2 g c) CHAN_OUTPUT_CLOSED)"
proof (cases "datafellows g AND SSH_NEW_OPENSSH = 0")
  case False
  from assms have n: "\<not> has_flag CHAN_CLOSE_SENT c" by (auto simp: inv2_def)
  with assms obtain u where u: "wire c = u" "distinct u"
    "set u \<subseteq> {MSG_CHANNEL_EOF (ch_remote_id c), MSG_CHANNEL_EOW (ch_remote_id c)}"
    "MSG_CHANNEL_EOW (ch_remote_id c) \<notin> set u"
    "MSG_CHANNEL_EOF (ch_remote_id c) \<in> set u \<longleftrightarrow> has_flag CHAN_EOF_SENT c"
    "MSG_CHANNEL_EOF (ch_remote_id c) \<in> set u \<longrightarrow> ch_istate c = CHAN_INPUT_CLOSED"
    by (auto simp: inv2_def)
  with assms False n show ?thesis
    by (auto simp: inv2_def chan_set_ostate_def chan_send_eow2_def)
qed (use inv2_ostate_closed [OF assms(1)] in \<open>simp add: chan_set_ostate_def chan_send_eow2_def\<close>)

lemma inv2_close: "inv2 c \<Longrightarrow> inv2 (chan_send_close2 c)"
  by (auto simp: inv2_def chan_send_close2_def)

lemma inv2_step:
  assumes "compat20 g" and "inv2 c" and "chan_step g c c'"
  shows "inv2 c'"
  using assms(3)
proof cases
  case read_failed
  then show ?thesis using assms(2) inv2_istate [of "chan_shutdown_read g c" CHAN_INPUT_WAIT_DRAIN]
    by (cases "ch_istate c") (simp_all add: chan_read_failed_def chan_set_istate_def)
next
  case ibuf_empty
  then show ?thesis using assms(1,2) inv2_eof [OF assms(2)] inv2_istate_closed [OF assms(2)]
    by (cases "ch_istate c") (simp_all add: chan_ibuf_empty_def chan_set_istate_def)
next
  case rcvd_ieof
  let ?c = "chan_rcvd_eof2 c"
  have "inv2 ?c"
    using inv2_flag [OF assms(2), of CHAN_EOF_RCVD] inv2_ostate [of "set_flag CHAN_EOF_RCVD c" CHAN_OUTPUT_WAIT_DRAIN]
    by (simp add: chan_rcvd_eof2_def chan_set_ostate_def Let_def)
  then show ?thesis
    using rcvd_ieof assms(1) inv2_ostate_closed [of "chan_shutdown_write g ?c"]
    by (cases "ch_ostate ?c") (simp_all add: chan_rcvd_ieof_def chan_obuf_empty_def chan_set_ostate_def Let_def)
next
  case rcvd_oclose
  let ?c = "if \<not> has_flag CHAN_LOCAL c then set_flag CHAN_CLOSE_RCVD c else c"
  let ?d = "case ch_ostate ?c of CHAN_OUTPUT_OPEN \<Rightarrow> chan_set_ostate ?c CHAN_OUTPUT_WAIT_DRAIN | _ \<Rightarrow> ?c"
  have c: "inv2 ?c" using inv2_flag [OF assms(2), of CHAN_CLOSE_RCVD] assms(2) by simp
  have d: "inv2 ?d"
    using c inv2_ostate [OF c, of CHAN_OUTPUT_WAIT_DRAIN]
    by (cases "ch_ostate ?c") (simp_all add: chan_set_ostate_def)
  have "inv2 (chan_rcvd_close2 g c)"
  proof (cases "ch_type ?c = SSH_CHANNEL_LARVAL")
    case True
    then show ?thesis using inv2_istate_closed [OF inv2_ostate_closed [OF c]]
      by (simp add: chan_rcvd_close2_def chan_set_istate_def chan_set_ostate_def Let_def)
  next
    case False
    have "chan_rcvd_close2 g c = (case ch_istate ?d of
        CHAN_INPUT_OPEN \<Rightarrow> chan_set_istate (chan_shutdown_read g ?d) CHAN_INPUT_CLOSED
      | CHAN_INPUT_WAIT_DRAIN \<Rightarrow> chan_set_istate (if \<not> has_flag CHAN_LOCAL ?d then chan_send_eof2 ?d else ?d) CHAN_INPUT_CLOSED
      | _ \<Rightarrow> ?d)"
      using False unfolding chan_rcvd_close2_def Let_def by (simp only: if_False)
    then show ?thesis
      using d inv2_eof [OF d] inv2_istate_closed [OF d] inv2_istate_closed [of "chan_shutdown_read g ?d"]
      by (cases "ch_istate ?d") (simp_all only: istate.case chan_set_istate_def inv2_shutdown, auto)
  qed
  then show ?thesis using rcvd_oclose assms(1) by (simp add: chan_rcvd_oclose_def)
next
  case rcvd_eow
  then show ?thesis using assms(2) inv2_istate_closed [of "chan_shutdown_read g c"]
    by (cases "ch_istate c") (simp_all add: chan_rcvd_eow_def chan_set_istate_def)
next
  case write_failed
  then show ?thesis
    using assms(1,2) inv2_eow [of "chan_shutdown_write g c" g] inv2_ostate_closed [of "chan_shutdown_write g c"]
    by (cases "ch_ostate c")
      (simp_all add: chan_write_failed_def chan_write_failed2_def chan_set_ostate_def Let_def)
next
  case obuf_empty
  then show ?thesis using assms(1,2) inv2_ostate_closed [of "chan_shutdown_write g c"]
    by (cases "ch_ostate c") (simp_all add: chan_obuf_empty_def chan_set_ostate_def Let_def)
next
  case mark_dead
  then show ?thesis using assms(2) by (simp add: chan_mark_dead_def inv2_type)
next
  case (is_dead do_send)
  then show ?thesis using assms(2) inv2_close by (simp add: chan_is_dead_def Let_def)
next
  case elsewhere
  then show ?thesis using assms(2) inv2_cong [of c' c]
    by (simp add: wire_def has_flag_cong [of c' c])
qed

lemma inv2_new: "chan_new c \<Longrightarrow> inv2 c"
  by (auto simp: chan_new_def inv2_def wire_def has_flag_def chan_flag_defs)

interpretation n2: transition_invariant chan_new "chan_step (g\<lparr>compat20 := True\<rparr>)" inv2 for g
  by unfold_locales (auto intro: inv2_new inv2_step [rotated])

section \<open>Protocol 1.5\<close>

text \<open>
  Each half announces its closing exactly once, at the moment it leaves the open and draining
  states.
\<close>

definition inv1 :: "channel \<Rightarrow> bool" where
  "inv1 c \<longleftrightarrow>
     set (wire c) \<subseteq> {MSG_CHANNEL_INPUT_EOF (ch_remote_id c), MSG_CHANNEL_OUTPUT_CLOSE (ch_remote_id c)} \<and>
     count_list (wire c) (MSG_CHANNEL_INPUT_EOF (ch_remote_id c)) =
       of_bool (ch_istate c \<in> {CHAN_INPUT_WAIT_OCLOSE, CHAN_INPUT_CLOSED}) \<and>
     count_list (wire c) (MSG_CHANNEL_OUTPUT_CLOSE (ch_remote_id c)) =
       of_bool (ch_ostate c \<in> {CHAN_OUTPUT_WAIT_IEOF, CHAN_OUTPUT_CLOSED})"

lemma inv1_cong:
  assumes "ch_istate c' = ch_istate c" and "ch_ostate c' = ch_ostate c"
    and "ch_remote_id c' = ch_remote_id c" and "wire c' = wire c"
  shows "inv1 c' = inv1 c"
  unfolding inv1_def assms ..

lemma inv1_step:
  assumes "\<not> compat20 g" and "inv1 c" and "chan_step g c c'"
  shows "inv1 c'"
  using assms(3)
proof cases
  case read_failed
  then show ?thesis using assms(2)
    by (cases "ch_istate c") (simp_all add: inv1_def chan_read_failed_def chan_set_istate_def)
next
  case ibuf_empty
  then show ?thesis using assms(1,2)
    by (cases "ch_istate c")
      (simp_all add: inv1_def chan_ibuf_empty_def chan_send_ieof1_def chan_set_istate_def)
next
  case rcvd_ieof
  then show ?thesis using assms(1,2)
    by (cases "ch_ostate c") (auto simp: inv1_def chan_rcvd_ieof_def chan_rcvd_ieof1_def
        chan_obuf_empty_def chan_send_oclose1_def chan_set_ostate_def Let_def)
next
  case rcvd_oclose
  then show ?thesis using assms(1,2)
    by (cases "ch_istate c") (simp_all add: inv1_def chan_rcvd_oclose_def chan_rcvd_oclose1_def
        chan_send_ieof1_def chan_set_istate_def)
next
  case rcvd_eow
  then show ?thesis using assms(1) by simp
next
  case write_failed
  then show ?thesis using assms(1,2)
    by (cases "ch_ostate c") (simp_all add: inv1_def chan_write_failed_def chan_write_failed1_def
        chan_send_oclose1_def chan_set_ostate_def)
next
  case obuf_empty
  then show ?thesis using assms(1,2)
    by (cases "ch_ostate c") (simp_all add: inv1_def chan_obuf_empty_def chan_send_oclose1_def
        chan_set_ostate_def Let_def)
next
  case mark_dead
  then show ?thesis using assms(2) inv1_cong [of c' c] by (simp add: chan_mark_dead_def)
next
  case (is_dead do_send)
  then show ?thesis using assms(1,2) by (simp add: chan_is_dead_def)
next
  case elsewhere
  then show ?thesis using assms(2) inv1_cong [of c' c] by (simp add: wire_def)
qed

lemma inv1_new: "chan_new c \<Longrightarrow> inv1 c"
  by (auto simp: chan_new_def inv1_def wire_def)

interpretation n1: transition_invariant chan_new "chan_step (g\<lparr>compat20 := False\<rparr>)" inv1 for g
  by unfold_locales (auto intro: inv1_new inv1_step [rotated])

section \<open>Properties\<close>


definition fresh_channel :: channel where
  "fresh_channel = \<lparr>ch_type = 4, ch_self = 0, ch_remote_id = 7, ch_istate = CHAN_INPUT_OPEN,
     ch_ostate = CHAN_OUTPUT_OPEN, ch_flags = 0, ch_rfd = 3, ch_wfd = 4, ch_efd = - 1, ch_sock = - 1,
     ch_isatty = False, ch_force_drain = False, ch_delayed = False, ch_notbefore = 0,
     ch_input = [], ch_output = [], ch_extended = [], ch_path = None, ch_listening_port = 0,
     ch_listening_addr = None, ch_host_port = 0, ch_remote_window = 1000, ch_remote_maxpacket = 500,
     ch_local_window = 1000, ch_local_window_max = 1000, ch_local_consumed = 0, ch_local_maxpacket = 500,
     ch_extended_usage = CHAN_EXTENDED_IGNORE, ch_single_connection = False, ch_ctype = ''session'', ch_remote_name = [],
     ch_open_confirm = None, ch_detach_user = None, ch_detach_close = False, ch_status_confirms = [],
     ch_input_filter = None, ch_output_filter = None, ch_filter_cleanup = None, ch_datagram = False,
     ch_mux_ctx = None, ch_mux_pause = False, ch_mux_downstream_id = 0, ch_did = []\<rparr>"

definition proto2 :: compat where "proto2 = \<lparr>compat20 = True, datafellows = SSH_NEW_OPENSSH\<rparr>"

lemma fresh_channel_new: "chan_new fresh_channel"
  by (simp add: chan_new_def fresh_channel_def)






text \<open>
  A protocol 1.5 channel, whatever happens to it, sends its input EOF exactly once, when its
  input half leaves the open and draining states, and its output close exactly once, when its
  output half does; so a channel with both halves closed has sent exactly one of each.
\<close>

theorem chan1_messages:
  assumes "chan_new c" and "(chan_step (g\<lparr>compat20 := False\<rparr>))\<^sup>*\<^sup>* c c'"
  shows "count_list (wire c') (MSG_CHANNEL_INPUT_EOF (ch_remote_id c')) =
      of_bool (ch_istate c' \<in> {CHAN_INPUT_WAIT_OCLOSE, CHAN_INPUT_CLOSED}) \<and>
    count_list (wire c') (MSG_CHANNEL_OUTPUT_CLOSE (ch_remote_id c')) =
      of_bool (ch_ostate c' \<in> {CHAN_OUTPUT_WAIT_IEOF, CHAN_OUTPUT_CLOSED}) \<and>
    set (wire c') \<subseteq> {MSG_CHANNEL_INPUT_EOF (ch_remote_id c'), MSG_CHANNEL_OUTPUT_CLOSE (ch_remote_id c')}"
  using n1.reachable_inv [OF assms(2,1)] unfolding inv1_def by blast

lemma chan1_messages_witness:
  "\<exists>c'. (chan_step (proto2\<lparr>compat20 := False\<rparr>))\<^sup>*\<^sup>* fresh_channel c' \<and>
     count_list (wire c') (MSG_CHANNEL_INPUT_EOF (ch_remote_id c')) = 1"
proof -
  let ?g = "proto2\<lparr>compat20 := False\<rparr>"
  let ?c = "chan_rcvd_oclose ?g fresh_channel"
  have r: "(chan_step ?g)\<^sup>*\<^sup>* fresh_channel ?c"
    by (intro r_into_rtranclp chan_step.rcvd_oclose)
  have "ch_istate ?c = CHAN_INPUT_CLOSED" by code_simp
  then show ?thesis using chan1_messages [OF fresh_channel_new r] r by auto
qed

end
