(* ===== verification/Chan_IO.thy ===== *)
theory Chan_IO
  imports Nchan Sshbuf_Getput
begin

text \<open>
  Data through a channel (\<open>channels.c\<close>): the handlers that run around \<open>select\<close> for an open
  channel, \<open>channel_output_poll\<close> for one channel, and what the protocol messages for one channel do
  to it. A channel keeps its buffers as byte lists: the \<open>buffer_*\<close> functions of \<open>buffer.c\<close> and
  \<open>bufaux.c\<close> end the process where the \<open>sshbuf\<close> call fails, which for a buffer of the default
  size limit means growing past \<open>SSHBUF_SIZE_MAX\<close> (running out of memory, which ends the process
  everywhere in this file, is not a case of its own). What the system calls return is an argument.
  The file is configured without \<open>PTY_ZEROREAD\<close>, \<open>BROKEN_TCGETATTR_ICANON\<close> and \<open>_AIX\<close>.
\<close>

section \<open>The environment of a channel\<close>

text \<open>How a handler ends the process: \<open>fatal\<close> or \<open>packet_disconnect\<close>.\<close>

datatype chan_stop = Fatal | Disconnect

type_synonym 'a chan_result = "(chan_stop, channel, 'a) outcome"

text \<open>
  What the handlers read besides the channel. The filters are callbacks of the tunnel and client
  code, which may change the channel; \<open>ce_noecho\<close> says that the terminal is in line mode without
  echo.
\<close>

record chan_env =
  ce_compat :: compat
  ce_compat13 :: bool
  ce_maxsize :: u32
  ce_interactive :: bool
  ce_infilter :: "nat \<Rightarrow> channel \<Rightarrow> bytes \<Rightarrow> bool \<times> channel"
  ce_outfilter :: "nat \<Rightarrow> channel \<Rightarrow> bytes option \<times> channel"
  ce_noecho :: bool

text \<open>The results of \<open>read\<close> and \<open>write\<close>: bytes, a retry, or another error.\<close>

datatype rdres = RD bytes | RD_EINTR | RD_EAGAIN | RD_ERR
datatype wrres = WR nat | WR_AGAIN | WR_ERR

definition SSH_CHANNEL_OPEN :: int where "SSH_CHANNEL_OPEN = 4"
definition SSH_CHANNEL_X11_OPEN :: int where "SSH_CHANNEL_X11_OPEN = 7"
definition SSH_CHANNEL_INPUT_DRAINING :: int where "SSH_CHANNEL_INPUT_DRAINING = 8"
definition SSH2_EXTENDED_DATA_STDERR :: u32 where "SSH2_EXTENDED_DATA_STDERR = 1"
definition CHAN_RBUF :: nat where "CHAN_RBUF = 16 * 1024"

definition CHANNEL_EFD_INPUT_ACTIVE :: "compat \<Rightarrow> channel \<Rightarrow> bool" where
  "CHANNEL_EFD_INPUT_ACTIVE g c \<longleftrightarrow>
     compat20 g \<and> ch_extended_usage c = CHAN_EXTENDED_READ \<and> (ch_efd c \<noteq> - 1 \<or> ch_extended c \<noteq> [])"

section \<open>Buffers and packets\<close>

definition buffer_append :: "bytes \<Rightarrow> bytes \<Rightarrow> bytes option" where
  "buffer_append b d = (if length b + length d > SSHBUF_SIZE_MAX then None else Some (b @ d))"

definition buffer_put_string :: "bytes \<Rightarrow> bytes \<Rightarrow> bytes option" where
  "buffer_put_string b d = buffer_append b (POKE_U32 (of_nat (length d)) @ d)"

definition buffer_check_alloc :: "bytes \<Rightarrow> nat \<Rightarrow> bool" where
  "buffer_check_alloc b len \<longleftrightarrow> length b + len \<le> SSHBUF_SIZE_MAX"

definition packet_get_int :: "bytes \<Rightarrow> chan_stop + u32 \<times> bytes" where
  "packet_get_int p = (if length p < 4 then Inl Fatal else Inr (PEEK_U32 p, drop 4 p))"

text \<open>
  \<open>packet_get_string\<close>, \<open>packet_get_string_ptr\<close> and \<open>buffer_get_string\<close>: the string and what follows it.
\<close>

definition packet_get_string :: "bytes \<Rightarrow> chan_stop + bytes \<times> bytes" where
  "packet_get_string p =
     (if length p < 4 then Inl Fatal
      else let len = unat (PEEK_U32 p) in
        if len > SSHBUF_SIZE_MAX - 4 \<or> length p - 4 < len then Inl Fatal
        else Inr (take len (drop 4 p), drop (4 + len) p))"

definition packet_check_eom :: "bytes \<Rightarrow> channel \<Rightarrow> unit chan_result" where
  "packet_check_eom p c = (if p \<noteq> [] then (Inl Disconnect, c) else (Inr (), c))"

definition put_input :: "bytes option \<Rightarrow> channel \<Rightarrow> unit chan_result" where
  "put_input b c = (case b of None \<Rightarrow> (Inl Fatal, c) | Some b \<Rightarrow> (Inr (), c\<lparr>ch_input := b\<rparr>))"

definition put_output :: "bytes option \<Rightarrow> channel \<Rightarrow> unit chan_result" where
  "put_output b c = (case b of None \<Rightarrow> (Inl Fatal, c) | Some b \<Rightarrow> (Inr (), c\<lparr>ch_output := b\<rparr>))"

definition put_extended :: "bytes option \<Rightarrow> channel \<Rightarrow> unit chan_result" where
  "put_extended b c = (case b of None \<Rightarrow> (Inl Fatal, c) | Some b \<Rightarrow> (Inr (), c\<lparr>ch_extended := b\<rparr>))"

definition close_efd :: "channel \<Rightarrow> channel" where
  "close_efd c = (if ch_efd c \<noteq> - 1 then (emit (SYS_CLOSE (ch_efd c)) c)\<lparr>ch_efd := - 1\<rparr> else c)"

section \<open>Before select\<close>

text \<open>
  A pre-handler adds descriptors to the read and the write set and may move the channel on.
\<close>

type_synonym chan_pre = "channel \<times> int list \<times> int list"

definition pre_read :: "chan_env \<Rightarrow> channel \<Rightarrow> int list" where
  "pre_read env c =
     (let limit = (if compat20 (ce_compat env) then ch_remote_window c else ce_maxsize env) in
      if ch_istate c = CHAN_INPUT_OPEN \<and> limit > 0 \<and> length (ch_input c) < unat limit \<and>
         buffer_check_alloc (ch_input c) CHAN_RBUF
      then [ch_rfd c] else [])"

definition pre_write :: "chan_env \<Rightarrow> channel \<Rightarrow> channel \<times> int list" where
  "pre_write env c =
     (if ch_ostate c = CHAN_OUTPUT_OPEN \<or> ch_ostate c = CHAN_OUTPUT_WAIT_DRAIN then
        if ch_output c \<noteq> [] then (c, [ch_wfd c])
        else if ch_ostate c = CHAN_OUTPUT_WAIT_DRAIN then
          if CHANNEL_EFD_OUTPUT_ACTIVE (ce_compat env) c then (c, [])
          else (chan_obuf_empty (ce_compat env) c, [])
        else (c, [])
      else (c, []))"

definition pre_efd :: "chan_env \<Rightarrow> channel \<Rightarrow> int list \<times> int list" where
  "pre_efd env c =
     (if compat20 (ce_compat env) \<and> ch_efd c \<noteq> - 1 \<and>
         \<not> (ch_istate c = CHAN_INPUT_CLOSED \<and> ch_ostate c = CHAN_OUTPUT_CLOSED) then
        if ch_extended_usage c = CHAN_EXTENDED_WRITE \<and> ch_extended c \<noteq> [] then ([], [ch_efd c])
        else if \<not> has_flag CHAN_EOF_SENT c \<and>
                (ch_extended_usage c = CHAN_EXTENDED_READ \<or> ch_extended_usage c = CHAN_EXTENDED_IGNORE) \<and>
                length (ch_extended c) < unat (ch_remote_window c)
        then ([ch_efd c], [])
        else ([], [])
      else ([], []))"

definition channel_pre_open :: "chan_env \<Rightarrow> channel \<Rightarrow> chan_pre" where
  "channel_pre_open env c =
     (let rs = pre_read env c;
          (c, ws) = pre_write env c;
          (ers, ews) = pre_efd env c
      in (c, rs @ ers, ws @ ews))"

section \<open>After select\<close>

definition rfd_failed :: "chan_env \<Rightarrow> channel \<Rightarrow> int chan_result" where
  "rfd_failed env c =
     (if ch_type c \<noteq> SSH_CHANNEL_OPEN then (Inr (- 1), chan_mark_dead c)
      else if ce_compat13 env
      then (Inr (- 1), c\<lparr>ch_output := [], ch_type := SSH_CHANNEL_INPUT_DRAINING\<rparr>)
      else (Inr (- 1), chan_read_failed (ce_compat env) c))"

definition rfd_data :: "chan_env \<Rightarrow> bytes \<Rightarrow> channel \<Rightarrow> int chan_result" where
  "rfd_data env buf c =
     (case ch_input_filter c of
        Some f \<Rightarrow>
          (case ce_infilter env f c buf of
             (ok, c) \<Rightarrow> (Inr 1, if ok then c else chan_read_failed (ce_compat env) c))
      | None \<Rightarrow>
          rbind (put_input (if ch_datagram c then buffer_put_string (ch_input c) buf
                            else buffer_append (ch_input c) buf) c) (\<lambda>_ c. (Inr 1, c)))"

definition channel_handle_rfd :: "chan_env \<Rightarrow> int list \<Rightarrow> rdres \<Rightarrow> channel \<Rightarrow> int chan_result" where
  "channel_handle_rfd env readset r c =
     (let force = ch_isatty c \<and> ch_detach_close c \<and> ch_istate c \<noteq> CHAN_INPUT_CLOSED in
      if ch_rfd c \<noteq> - 1 \<and> (force \<or> ch_rfd c \<in> set readset) then
        (case r of
           RD_EINTR \<Rightarrow> (Inr 1, c)
         | RD_EAGAIN \<Rightarrow> if force then rfd_failed env c else (Inr 1, c)
         | RD_ERR \<Rightarrow> rfd_failed env c
         | RD bs \<Rightarrow>
             if bs = [] then rfd_failed env c
             else rfd_data env (take CHAN_RBUF bs) (emit (SYS_READ (ch_rfd c) (take CHAN_RBUF bs)) c))
      else (Inr 1, c))"

text \<open>What is to be written, \<open>None\<close> when the output filter stops.\<close>

definition wfd_data :: "chan_env \<Rightarrow> channel \<Rightarrow> bytes option chan_result" where
  "wfd_data env c =
     (case ch_output_filter c of
        Some f \<Rightarrow> (case ce_outfilter env f c of (buf, c) \<Rightarrow> (Inr buf, c))
      | None \<Rightarrow>
          if ch_datagram c then
            (case packet_get_string (ch_output c) of
               Inl e \<Rightarrow> (Inl e, c)
             | Inr (d, rest) \<Rightarrow> (Inr (Some d), c\<lparr>ch_output := rest\<rparr>))
          else (Inr (Some (ch_output c)), c))"

definition wfd_failed :: "chan_env \<Rightarrow> channel \<Rightarrow> int chan_result" where
  "wfd_failed env c =
     (if ch_type c \<noteq> SSH_CHANNEL_OPEN then (Inr (- 1), chan_mark_dead c)
      else (Inr (- 1), chan_write_failed (ce_compat env) c))"

definition credit :: "chan_env \<Rightarrow> nat \<Rightarrow> channel \<Rightarrow> channel" where
  "credit env olen c =
     (if compat20 (ce_compat env) \<and> olen > 0
      then c\<lparr>ch_local_consumed := ch_local_consumed c + (of_nat olen - of_nat (length (ch_output c)))\<rparr>
      else c)"

definition fake_echo :: "chan_env \<Rightarrow> bytes \<Rightarrow> nat \<Rightarrow> channel \<Rightarrow> channel" where
  "fake_echo env buf len c =
     (if compat20 (ce_compat env) \<and> ch_isatty c \<and> buf \<noteq> [] \<and> hd buf \<noteq> 13 \<and> ce_noecho env
      then emit (MSG_IGNORE (4 + len)) c else c)"

definition wfd_written :: "chan_env \<Rightarrow> bytes \<Rightarrow> nat \<Rightarrow> nat \<Rightarrow> channel \<Rightarrow> int chan_result" where
  "wfd_written env buf olen len c =
     (let c = fake_echo env buf len (emit (SYS_WRITE (ch_wfd c) (take len buf)) c) in
      if len > length (ch_output c) then (Inl Fatal, c)
      else (Inr 1, credit env olen (c\<lparr>ch_output := drop len (ch_output c)\<rparr>)))"

definition channel_handle_wfd :: "chan_env \<Rightarrow> int list \<Rightarrow> wrres \<Rightarrow> channel \<Rightarrow> int chan_result" where
  "channel_handle_wfd env writeset w c =
     (if ch_wfd c \<noteq> - 1 \<and> ch_wfd c \<in> set writeset \<and> ch_output c \<noteq> [] then
        let olen = length (ch_output c) in
        rbind (wfd_data env c) (\<lambda>buf c.
          case buf of
            None \<Rightarrow> wfd_failed env c
          | Some buf \<Rightarrow>
              let len = (case w of WR n \<Rightarrow> min n (length buf) | _ \<Rightarrow> 0) in
              if w = WR_AGAIN then (Inr 1, c)
              else if ch_datagram c then
                if len = 0 then wfd_failed env c
                else (Inr 1, credit env olen (emit (SYS_WRITE (ch_wfd c) (take len buf)) c))
              else if len = 0 then
                if ch_type c = SSH_CHANNEL_OPEN \<and> ce_compat13 env
                then (Inr (- 1), c\<lparr>ch_output := [], ch_type := SSH_CHANNEL_INPUT_DRAINING\<rparr>)
                else wfd_failed env c
              else wfd_written env buf olen len c)
      else (Inr 1, c))"

definition efd_write :: "wrres \<Rightarrow> channel \<Rightarrow> int chan_result" where
  "efd_write w c =
     (let len = (case w of WR n \<Rightarrow> min n (length (ch_extended c)) | _ \<Rightarrow> 0) in
      if w = WR_AGAIN then (Inr 1, c)
      else if len = 0 then (Inr 1, close_efd c)
      else (Inr 1, (emit (SYS_WRITE_EFD (ch_efd c) (take len (ch_extended c))) c)
              \<lparr>ch_extended := drop len (ch_extended c),
               ch_local_consumed := ch_local_consumed c + of_nat len\<rparr>))"

definition efd_read :: "rdres \<Rightarrow> channel \<Rightarrow> int chan_result" where
  "efd_read r c =
     (case r of
        RD_EINTR \<Rightarrow> (Inr 1, c)
      | RD_EAGAIN \<Rightarrow> (Inr 1, if ch_detach_close c then close_efd c else c)
      | RD_ERR \<Rightarrow> (Inr 1, close_efd c)
      | RD bs \<Rightarrow>
          if bs = [] then (Inr 1, close_efd c)
          else let buf = take CHAN_RBUF bs; c = emit (SYS_READ_EFD (ch_efd c) buf) c in
            if ch_extended_usage c = CHAN_EXTENDED_IGNORE then (Inr 1, c)
            else rbind (put_extended (buffer_append (ch_extended c) buf) c) (\<lambda>_ c. (Inr 1, c)))"

definition channel_handle_efd ::
  "chan_env \<Rightarrow> int list \<Rightarrow> int list \<Rightarrow> rdres \<Rightarrow> wrres \<Rightarrow> channel \<Rightarrow> int chan_result" where
  "channel_handle_efd env readset writeset r w c =
     (if ch_efd c \<noteq> - 1 then
        if ch_extended_usage c = CHAN_EXTENDED_WRITE \<and> ch_efd c \<in> set writeset \<and> ch_extended c \<noteq> []
        then efd_write w c
        else if (ch_extended_usage c = CHAN_EXTENDED_READ \<or> ch_extended_usage c = CHAN_EXTENDED_IGNORE) \<and>
                (ch_detach_close c \<or> ch_efd c \<in> set readset)
        then efd_read r c
        else (Inr 1, c)
      else (Inr 1, c))"

definition channel_check_window :: "channel \<Rightarrow> channel" where
  "channel_check_window c =
     (if ch_type c = SSH_CHANNEL_OPEN \<and> \<not> has_flag (CHAN_CLOSE_SENT OR CHAN_CLOSE_RCVD) c \<and>
         (ch_local_window_max c - ch_local_window c > ch_local_maxpacket c * 3 \<or>
          ch_local_window c < ch_local_window_max c div 2) \<and>
         ch_local_consumed c > 0
      then (emit (MSG_CHANNEL_WINDOW_ADJUST (ch_remote_id c) (ch_local_consumed c)) c)
             \<lparr>ch_local_window := ch_local_window c + ch_local_consumed c, ch_local_consumed := 0\<rparr>
      else c)"

text \<open>What \<open>select\<close> and the system calls of one round bring: the ready descriptors and the results.\<close>

record chan_ready =
  rd_set :: "int list"
  wr_set :: "int list"
  rd_rfd :: rdres
  wr_wfd :: wrres
  rd_efd :: rdres
  wr_efd :: wrres

definition channel_post_open :: "chan_env \<Rightarrow> chan_ready \<Rightarrow> channel \<Rightarrow> unit chan_result" where
  "channel_post_open env s c =
     rbind (channel_handle_rfd env (rd_set s) (rd_rfd s) c) (\<lambda>_ c.
     rbind (channel_handle_wfd env (wr_set s) (wr_wfd s) c) (\<lambda>_ c.
     if \<not> compat20 (ce_compat env) then (Inr (), c)
     else rbind (channel_handle_efd env (rd_set s) (wr_set s) (rd_efd s) (wr_efd s) c) (\<lambda>_ c.
       (Inr (), channel_check_window c))))"

section \<open>Sending buffered data\<close>

text \<open>
  One round of the loop of \<open>channel_output_poll\<close>: the buffered input of the channel as a datagram or
  as a part of the stream, then what its extended buffer holds. The boolean of \<open>poll_input\<close> says
  that the rest of the round is skipped (\<open>continue\<close>).
\<close>

definition send_data :: "bytes \<Rightarrow> channel \<Rightarrow> channel" where
  "send_data d c =
     (emit (MSG_CHANNEL_DATA (ch_remote_id c) d) c)\<lparr>ch_remote_window := ch_remote_window c - of_nat (length d)\<rparr>"

definition poll_datagram :: "channel \<Rightarrow> bool chan_result" where
  "poll_datagram c =
     (case packet_get_string (ch_input c) of
        Inl e \<Rightarrow> (Inl e, c)
      | Inr (d, rest) \<Rightarrow>
          let c = c\<lparr>ch_input := rest\<rparr> in
          if length d > unat (ch_remote_window c) \<or> length d > unat (ch_remote_maxpacket c)
          then (Inr True, c) else (Inr True, send_data d c))"

definition poll_len :: "chan_env \<Rightarrow> channel \<Rightarrow> nat" where
  "poll_len env c =
     (let len = length (ch_input c) in
      if compat20 (ce_compat env)
      then min (min len (unat (ch_remote_window c))) (unat (ch_remote_maxpacket c))
      else if ce_interactive env then (if len > 1024 then 512 else len)
      else min len (unat (ce_maxsize env) div 2))"

definition poll_stream :: "chan_env \<Rightarrow> channel \<Rightarrow> bool chan_result" where
  "poll_stream env c =
     (let len = poll_len env c in
      (Inr False,
       if len > 0 then send_data (take len (ch_input c)) (c\<lparr>ch_input := drop len (ch_input c)\<rparr>) else c))"

definition poll_input :: "chan_env \<Rightarrow> channel \<Rightarrow> bool chan_result" where
  "poll_input env c =
     (if (ch_istate c = CHAN_INPUT_OPEN \<or> ch_istate c = CHAN_INPUT_WAIT_DRAIN) \<and> ch_input c \<noteq> [] then
        if ch_datagram c then poll_datagram c else poll_stream env c
      else if ch_istate c = CHAN_INPUT_WAIT_DRAIN then
        if ce_compat13 env then (Inl Fatal, c)
        else if CHANNEL_EFD_INPUT_ACTIVE (ce_compat env) c then (Inr False, c)
        else (Inr False, chan_ibuf_empty (ce_compat env) c)
      else (Inr False, c))"

definition poll_extended :: "chan_env \<Rightarrow> channel \<Rightarrow> channel" where
  "poll_extended env c =
     (if compat20 (ce_compat env) \<and> \<not> has_flag CHAN_EOF_SENT c \<and> ch_remote_window c > 0 \<and>
         ch_extended c \<noteq> [] \<and> ch_extended_usage c = CHAN_EXTENDED_READ
      then let len = min (min (length (ch_extended c)) (unat (ch_remote_window c)))
                         (unat (ch_remote_maxpacket c))
           in (emit (MSG_CHANNEL_EXTENDED_DATA (ch_remote_id c) SSH2_EXTENDED_DATA_STDERR
                       (take len (ch_extended c))) c)
                \<lparr>ch_extended := drop len (ch_extended c),
                 ch_remote_window := ch_remote_window c - of_nat len\<rparr>
      else c)"

definition output_poll_chan :: "chan_env \<Rightarrow> channel \<Rightarrow> unit chan_result" where
  "output_poll_chan env c =
     (if ch_type c \<noteq> SSH_CHANNEL_OPEN \<and>
         \<not> (ce_compat13 env \<and> ch_type c = SSH_CHANNEL_INPUT_DRAINING) then (Inr (), c)
      else if compat20 (ce_compat env) \<and> has_flag (CHAN_CLOSE_SENT OR CHAN_CLOSE_RCVD) c then (Inr (), c)
      else rbind (poll_input env c) (\<lambda>skip c. (Inr (), if skip then c else poll_extended env c)))"

section \<open>Messages for one channel\<close>

text \<open>
  The handlers of \<open>channels.c\<close> from the point where the channel was found and the message is not one
  for a multiplexing client; \<open>p\<close> is the rest of the payload.
\<close>

definition input_data_chan :: "chan_env \<Rightarrow> bytes \<Rightarrow> channel \<Rightarrow> unit chan_result" where
  "input_data_chan env p c =
     (if ch_type c \<noteq> SSH_CHANNEL_OPEN \<and> ch_type c \<noteq> SSH_CHANNEL_X11_OPEN then (Inr (), c)
      else case packet_get_string p of
        Inl e \<Rightarrow> (Inl e, c)
      | Inr (d, rest) \<Rightarrow>
          let win_len = of_nat (length d) + (if ch_datagram c then 4 else 0);
              c20 = compat20 (ce_compat env)
          in if \<not> ce_compat13 env \<and> ch_ostate c \<noteq> CHAN_OUTPUT_OPEN then
               (Inr (), if c20 then c\<lparr>ch_local_window := ch_local_window c - win_len,
                                     ch_local_consumed := ch_local_consumed c + win_len\<rparr> else c)
             else if c20 \<and> win_len > ch_local_window c then (Inr (), c)
             else
               let c = (if c20 then c\<lparr>ch_local_window := ch_local_window c - win_len\<rparr> else c) in
               rbind (put_output (if ch_datagram c then buffer_put_string (ch_output c) d
                                  else buffer_append (ch_output c) d) c) (\<lambda>_ c.
               packet_check_eom rest c))"

definition input_extended_data_chan :: "chan_env \<Rightarrow> bytes \<Rightarrow> channel \<Rightarrow> unit chan_result" where
  "input_extended_data_chan env p c =
     (if ch_type c \<noteq> SSH_CHANNEL_OPEN then (Inr (), c)
      else if has_flag CHAN_EOF_RCVD c \<and> datafellows (ce_compat env) AND SSH_BUG_EXTEOF = 0
      then (Inl Disconnect, c)
      else case packet_get_int p of
        Inl e \<Rightarrow> (Inl e, c)
      | Inr (tcode, p) \<Rightarrow>
          if ch_efd c = - 1 \<or> ch_extended_usage c \<noteq> CHAN_EXTENDED_WRITE \<or>
             tcode \<noteq> SSH2_EXTENDED_DATA_STDERR
          then (Inr (), c)
          else case packet_get_string p of
            Inl e \<Rightarrow> (Inl e, c)
          | Inr (d, rest) \<Rightarrow>
              rbind (packet_check_eom rest c) (\<lambda>_ c.
                if length d > unat (ch_local_window c) then (Inr (), c)
                else put_extended (buffer_append (ch_extended c) d)
                       (c\<lparr>ch_local_window := ch_local_window c - of_nat (length d)\<rparr>)))"

definition input_ieof_chan :: "chan_env \<Rightarrow> channel \<Rightarrow> channel" where
  "input_ieof_chan env c0 =
     (let c = chan_rcvd_ieof (ce_compat env) c0 in
      if ch_force_drain c \<and> ch_istate c = CHAN_INPUT_OPEN then
        let c = c\<lparr>ch_istate := CHAN_INPUT_WAIT_DRAIN\<rparr> in
        if ch_input c = [] then chan_ibuf_empty (ce_compat env) c else c
      else c)"

definition input_oclose_chan :: "chan_env \<Rightarrow> bytes \<Rightarrow> channel \<Rightarrow> unit chan_result" where
  "input_oclose_chan env p c =
     rbind (packet_check_eom p c) (\<lambda>_ c. (Inr (), chan_rcvd_oclose (ce_compat env) c))"

definition window_adjust_chan :: "bytes \<Rightarrow> channel \<Rightarrow> unit chan_result" where
  "window_adjust_chan p c =
     (case packet_get_int p of
        Inl e \<Rightarrow> (Inl e, c)
      | Inr (adjust, rest) \<Rightarrow>
          rbind (packet_check_eom rest c) (\<lambda>_ c.
            let tmp = ch_remote_window c + adjust in
            if tmp < ch_remote_window c then (Inl Fatal, c)
            else (Inr (), c\<lparr>ch_remote_window := tmp\<rparr>)))"

end
