(* ===== verification/Chan_Flow.thy ===== *)
theory Chan_Flow
  imports Chan_IO "HOL-Library.Sublist"
begin

text \<open>
  Two ends of one protocol 2 channel, joined by a reliable connection: each end runs the handlers of
  \<open>Chan_IO\<close> and \<open>Nchan\<close>, and each message an end sent is handled by the other end, in order. This
  theory holds the system (\<open>own_step\<close>, \<open>deliver\<close>, \<open>link_step\<close>), the invariant of one end
  (\<open>end_ok\<close>) and that everything an end does on its own keeps it and accounts for what it sends
  (\<open>own_ok\<close>); \<open>Chan_Link\<close> puts the ends together.
\<close>

section \<open>What a channel did\<close>

fun flow_msg :: "chan_effect \<Rightarrow> bool" where
  "flow_msg (MSG_CHANNEL_DATA _ _) = True"
| "flow_msg (MSG_CHANNEL_EXTENDED_DATA _ _ _) = True"
| "flow_msg (MSG_CHANNEL_WINDOW_ADJUST _ _) = True"
| "flow_msg (MSG_CHANNEL_EOF _) = True"
| "flow_msg (MSG_CHANNEL_CLOSE _) = True"
| "flow_msg (MSG_CHANNEL_EOW _) = True"
| "flow_msg _ = False"

fun data_of :: "chan_effect \<Rightarrow> bytes" where
  "data_of (MSG_CHANNEL_DATA _ d) = d"
| "data_of _ = []"

fun load_of :: "chan_effect \<Rightarrow> nat" where
  "load_of (MSG_CHANNEL_DATA _ d) = length d"
| "load_of (MSG_CHANNEL_EXTENDED_DATA _ _ d) = length d"
| "load_of _ = 0"

fun adjust_of :: "chan_effect \<Rightarrow> nat" where
  "adjust_of (MSG_CHANNEL_WINDOW_ADJUST _ n) = unat n"
| "adjust_of _ = 0"

fun read_of :: "chan_effect \<Rightarrow> bytes" where
  "read_of (SYS_READ _ d) = d"
| "read_of _ = []"

fun write_of :: "chan_effect \<Rightarrow> bytes" where
  "write_of (SYS_WRITE _ d) = d"
| "write_of _ = []"

fun is_data :: "chan_effect \<Rightarrow> bool" where
  "is_data (MSG_CHANNEL_DATA _ _) = True"
| "is_data (MSG_CHANNEL_EXTENDED_DATA _ _ _) = True"
| "is_data _ = False"

fun is_eof :: "chan_effect \<Rightarrow> bool" where
  "is_eof (MSG_CHANNEL_EOF _) = True"
| "is_eof _ = False"

fun is_close :: "chan_effect \<Rightarrow> bool" where
  "is_close (MSG_CHANNEL_CLOSE _) = True"
| "is_close _ = False"

text \<open>The messages of the channel in order, and the bytes sent, read and written.\<close>

definition msgs :: "channel \<Rightarrow> chan_effect list" where "msgs c = filter flow_msg (ch_did c)"
definition sent :: "channel \<Rightarrow> bytes" where "sent c = concat (map data_of (ch_did c))"
definition reads :: "channel \<Rightarrow> bytes" where "reads c = concat (map read_of (ch_did c))"
definition written :: "channel \<Rightarrow> bytes" where "written c = concat (map write_of (ch_did c))"

definition load :: "chan_effect list \<Rightarrow> nat" where "load ms = sum_list (map load_of ms)"
definition adjusts :: "chan_effect list \<Rightarrow> nat" where "adjusts ms = sum_list (map adjust_of ms)"

lemma log_emit [simp]:
  "msgs (emit e c) = msgs c @ (if flow_msg e then [e] else [])"
  "sent (emit e c) = sent c @ data_of e" "reads (emit e c) = reads c @ read_of e"
  "written (emit e c) = written c @ write_of e"
  by (simp_all add: msgs_def sent_def reads_def written_def emit_def)

lemma load_simps [simp]: "load [] = 0" "load (m # ms) = load_of m + load ms" "load (ms @ ns) = load ms + load ns"
  by (simp_all add: load_def)

lemma adjusts_simps [simp]:
  "adjusts [] = 0" "adjusts (m # ms) = adjust_of m + adjusts ms" "adjusts (ms @ ns) = adjusts ms + adjusts ns"
  by (simp_all add: adjusts_def)

lemma data_of_not_data: "\<not> is_data e \<Longrightarrow> data_of e = [] \<and> load_of e = 0"
  by (cases e) auto

lemma sent_msgs: "sent c = concat (map data_of (msgs c))"
proof -
  have "concat (map data_of es) = concat (map data_of (filter flow_msg es))" for es
  proof (induction es)
    case (Cons e es)
    then show ?case by (cases e) simp_all
  qed simp
  then show ?thesis by (simp add: sent_def msgs_def)
qed

text \<open>Nothing follows a CLOSE, and no data follows an EOF.\<close>

definition orderly :: "chan_effect list \<Rightarrow> bool" where
  "orderly ms \<longleftrightarrow> (\<forall>p m q. ms = p @ m # q \<longrightarrow> (is_close m \<longrightarrow> q = []) \<and> (is_eof m \<longrightarrow> \<not> list_ex is_data q))"

lemma orderly_Nil [simp]: "orderly []"
  by (simp add: orderly_def)

lemma orderly_snocI:
  assumes "orderly ms" and "\<not> list_ex is_close ms" and "is_data m \<Longrightarrow> \<not> list_ex is_eof ms"
  shows "orderly (ms @ [m])"
  unfolding orderly_def
proof (intro allI impI)
  fix p x q assume "ms @ [m] = p @ x # q"
  then consider "q = []" | q' where "q = q' @ [m]" "ms = p @ x # q'"
    by (cases q rule: rev_cases) auto
  then show "(is_close x \<longrightarrow> q = []) \<and> (is_eof x \<longrightarrow> \<not> list_ex is_data q)"
  proof cases
    case 2
    then have "\<not> is_close x" "is_eof x \<longrightarrow> \<not> list_ex is_data q'" "is_data m \<longrightarrow> \<not> is_eof x"
      using assms unfolding orderly_def by fastforce+
    then show ?thesis using 2(1) by auto
  qed simp
qed

lemma orderly_after_close:
  assumes "orderly ms" and "n \<le> length ms" and "list_ex is_close (take n ms)"
  shows "n = length ms"
proof -
  obtain i where i: "i < n" "is_close (ms ! i)" using assms(2,3) by (auto simp: list_ex_iff in_set_conv_nth)
  have "ms = take i ms @ ms ! i # drop (Suc i) ms" using i assms(2) by (simp add: id_take_nth_drop)
  then have "drop (Suc i) ms = []" using assms(1) i(2) unfolding orderly_def by blast
  then show ?thesis using i assms(2) by simp
qed

lemma orderly_after_eof:
  assumes "orderly ms" and "n < length ms" and "list_ex is_eof (take n ms)"
  shows "\<not> is_data (ms ! n)"
proof -
  obtain i where i: "i < n" "is_eof (ms ! i)" using assms(2,3) by (auto simp: list_ex_iff in_set_conv_nth)
  have "ms = take i ms @ ms ! i # drop (Suc i) ms" using i assms(2) by (simp add: id_take_nth_drop)
  then have "\<not> list_ex is_data (drop (Suc i) ms)" using assms(1) i(2) unfolding orderly_def by blast
  moreover have "ms ! n = drop (Suc i) ms ! (n - Suc i)" "n - Suc i < length (drop (Suc i) ms)"
    using i assms(2) by auto
  ultimately show ?thesis by (metis list_ex_iff nth_mem)
qed

section \<open>The two ends\<close>

text \<open>What an end does on its own: a round around \<open>select\<close>, sending, and the events of \<open>nchan.c\<close>.\<close>

inductive own_step :: "chan_env \<Rightarrow> channel \<Rightarrow> channel \<Rightarrow> bool" for env where
  prepare: "channel_pre_open env c = (c', rs, ws) \<Longrightarrow> own_step env c c'"
| select: "channel_pre_open env c = (c1, rs, ws) \<Longrightarrow> set (rd_set s) \<subseteq> set rs \<Longrightarrow> set (wr_set s) \<subseteq> set ws \<Longrightarrow>
    channel_post_open env s c1 = (Inr (), c') \<Longrightarrow> own_step env c c'"
| poll: "output_poll_chan env c = (Inr (), c') \<Longrightarrow> own_step env c c'"
| read_failed: "own_step env c (chan_read_failed (ce_compat env) c)"
| write_failed: "own_step env c (chan_write_failed (ce_compat env) c)"
| collect: "own_step env c (snd (chan_is_dead (ce_compat env) c do_send))"

text \<open>The handler of one message of the peer; EOW arrives as a channel request.\<close>

fun deliver :: "chan_env \<Rightarrow> chan_effect \<Rightarrow> channel \<Rightarrow> unit chan_result" where
  "deliver env (MSG_CHANNEL_DATA _ d) c = input_data_chan env (POKE_U32 (of_nat (length d)) @ d) c"
| "deliver env (MSG_CHANNEL_EXTENDED_DATA _ t d) c =
     input_extended_data_chan env (POKE_U32 t @ POKE_U32 (of_nat (length d)) @ d) c"
| "deliver env (MSG_CHANNEL_WINDOW_ADJUST _ n) c = window_adjust_chan (POKE_U32 n) c"
| "deliver env (MSG_CHANNEL_EOF _) c = (Inr (), input_ieof_chan env c)"
| "deliver env (MSG_CHANNEL_CLOSE _) c = input_oclose_chan env [] c"
| "deliver env (MSG_CHANNEL_EOW _) c = (Inr (), chan_rcvd_eow (ce_compat env) c)"
| "deliver env _ c = (Inr (), c)"

text \<open>The two channels and how many messages of the other one each has handled.\<close>

record link =
  end_a :: channel
  end_b :: channel
  got_a :: nat
  got_b :: nat

inductive link_step :: "chan_env \<Rightarrow> chan_env \<Rightarrow> link \<Rightarrow> link \<Rightarrow> bool" for ea eb where
  a_own: "own_step ea (end_a l) a \<Longrightarrow> link_step ea eb l (l\<lparr>end_a := a\<rparr>)"
| b_own: "own_step eb (end_b l) b \<Longrightarrow> link_step ea eb l (l\<lparr>end_b := b\<rparr>)"
| a_recv: "got_a l < length (msgs (end_b l)) \<Longrightarrow>
    deliver ea (msgs (end_b l) ! got_a l) (end_a l) = (Inr (), a) \<Longrightarrow>
    link_step ea eb l (l\<lparr>end_a := a, got_a := Suc (got_a l)\<rparr>)"
| b_recv: "got_b l < length (msgs (end_a l)) \<Longrightarrow>
    deliver eb (msgs (end_a l) ! got_b l) (end_b l) = (Inr (), b) \<Longrightarrow>
    link_step ea eb l (l\<lparr>end_b := b, got_b := Suc (got_b l)\<rparr>)"

definition proto2_env :: "chan_env \<Rightarrow> bool" where
  "proto2_env env \<longleftrightarrow> compat20 (ce_compat env) \<and> \<not> ce_compat13 env"

text \<open>A stream channel in normal operation; its extended descriptor is not its read descriptor.\<close>

definition fds_ok :: "channel \<Rightarrow> bool" where
  "fds_ok c \<longleftrightarrow> ch_efd c = - 1 \<or> ch_efd c \<noteq> ch_rfd c"

definition plain :: "channel \<Rightarrow> bool" where
  "plain c \<longleftrightarrow> ch_type c = SSH_CHANNEL_OPEN \<and> \<not> ch_datagram c \<and> ch_input_filter c = None \<and>
     ch_output_filter c = None \<and> \<not> has_flag CHAN_LOCAL c \<and> fds_ok c"

definition fresh :: "channel \<Rightarrow> bool" where
  "fresh c \<longleftrightarrow> plain c \<and> ch_istate c = CHAN_INPUT_OPEN \<and> ch_ostate c = CHAN_OUTPUT_OPEN \<and> ch_flags c = 0 \<and>
     ch_input c = [] \<and> ch_output c = [] \<and> ch_extended c = [] \<and> ch_local_consumed c = 0 \<and>
     ch_local_window c = ch_local_window_max c \<and> unat (ch_local_window_max c) \<le> SSHBUF_SIZE_MAX - 4 \<and>
     ch_did c = []"

text \<open>A channel opened between two ends: each knows the window of the other.\<close>

definition opened :: "link \<Rightarrow> bool" where
  "opened l \<longleftrightarrow> fresh (end_a l) \<and> fresh (end_b l) \<and> got_a l = 0 \<and> got_b l = 0 \<and>
     ch_remote_window (end_a l) = ch_local_window (end_b l) \<and>
     ch_remote_window (end_b l) = ch_local_window (end_a l)"

section \<open>The invariant of one end\<close>

text \<open>
  What counts against the window: the credit the peer still has, what was consumed and not yet
  granted again, and what is buffered for the descriptors.
\<close>

definition held :: "channel \<Rightarrow> nat" where
  "held c = length (ch_output c) +
     (if ch_extended_usage c = CHAN_EXTENDED_WRITE then length (ch_extended c) else 0)"

definition charged :: "channel \<Rightarrow> nat" where
  "charged c = unat (ch_local_window c) + unat (ch_local_consumed c) + held c"

definition halves_ok :: "channel \<Rightarrow> bool" where
  "halves_ok c \<longleftrightarrow> ch_istate c \<noteq> CHAN_INPUT_WAIT_OCLOSE \<and> ch_ostate c \<noteq> CHAN_OUTPUT_WAIT_IEOF \<and>
     (has_flag CHAN_CLOSE_SENT c \<longrightarrow> ch_istate c = CHAN_INPUT_CLOSED \<and> ch_ostate c = CHAN_OUTPUT_CLOSED) \<and>
     (has_flag CHAN_EOF_SENT c \<longrightarrow> ch_istate c = CHAN_INPUT_CLOSED) \<and>
     (ch_ostate c = CHAN_OUTPUT_CLOSED \<longrightarrow> ch_output c = []) \<and>
     (ch_ostate c = CHAN_OUTPUT_WAIT_DRAIN \<longrightarrow> has_flag CHAN_EOF_RCVD c \<or> has_flag CHAN_CLOSE_RCVD c) \<and>
     (has_flag CHAN_EOF_SENT c \<and> \<not> has_flag CHAN_CLOSE_RCVD c \<longrightarrow> ch_input c = [])"

definition log_ok :: "channel \<Rightarrow> bool" where
  "log_ok c \<longleftrightarrow> orderly (msgs c) \<and> (list_ex is_close (msgs c) \<longleftrightarrow> has_flag CHAN_CLOSE_SENT c) \<and>
     (list_ex is_eof (msgs c) \<longleftrightarrow> has_flag CHAN_EOF_SENT c) \<and> reads c = sent c @ ch_input c"

definition end_ok :: "channel \<Rightarrow> bool" where
  "end_ok c \<longleftrightarrow> plain c \<and> halves_ok c \<and> log_ok c \<and> charged c \<le> unat (ch_local_window_max c) \<and>
     unat (ch_local_window_max c) \<le> SSHBUF_SIZE_MAX - 4"

text \<open>
  A step of an end that handles no message: what it sends is taken from its window at the peer or
  added to the window it grants, and its output is written in order or, when the output half is
  closed, dropped.
\<close>

definition moves :: "channel \<Rightarrow> channel \<Rightarrow> chan_effect list \<Rightarrow> bool" where
  "moves c c' ms \<longleftrightarrow>
     ch_local_window_max c' = ch_local_window_max c \<and> msgs c' = msgs c @ ms \<and>
     unat (ch_remote_window c') + load ms = unat (ch_remote_window c) \<and>
     unat (ch_local_window c') = unat (ch_local_window c) + adjusts ms \<and>
     has_flag CHAN_EOF_RCVD c' = has_flag CHAN_EOF_RCVD c \<and>
     has_flag CHAN_CLOSE_RCVD c' = has_flag CHAN_CLOSE_RCVD c \<and>
     (ch_ostate c = CHAN_OUTPUT_CLOSED \<longrightarrow> ch_ostate c' = CHAN_OUTPUT_CLOSED) \<and>
     prefix (written c' @ ch_output c') (written c @ ch_output c) \<and>
     (ch_ostate c' \<noteq> CHAN_OUTPUT_CLOSED \<longrightarrow> written c' @ ch_output c' = written c @ ch_output c)"

definition own_ok :: "channel \<Rightarrow> channel \<Rightarrow> bool" where
  "own_ok c c' \<longleftrightarrow> (end_ok c \<longrightarrow> end_ok c' \<and> (\<exists>ms. moves c c' ms))"

lemma own_ok_refl [simp, intro]: "own_ok c c"
  unfolding own_ok_def moves_def by (intro impI conjI exI [of _ "[]"]) simp_all

lemma moves_trans: "moves c c' ms \<Longrightarrow> moves c' c'' ns \<Longrightarrow> moves c c'' (ms @ ns)"
  unfolding moves_def by (auto intro: prefix_order.trans)

lemma own_ok_trans [trans]: "own_ok c c' \<Longrightarrow> own_ok c' c'' \<Longrightarrow> own_ok c c''"
  unfolding own_ok_def using moves_trans by blast

section \<open>What the handlers do to one end\<close>

text \<open>Everything the invariant and \<open>moves\<close> depend on.\<close>

definition view :: "channel \<Rightarrow> _" where
  "view c = ((ch_type c, ch_datagram c, ch_input_filter c, ch_output_filter c, ch_flags c),
     (ch_istate c, ch_ostate c, ch_input c, ch_output c, ch_extended c, ch_extended_usage c),
     (ch_remote_window c, ch_local_window c, ch_local_window_max c, ch_local_consumed c),
     (msgs c, sent c, reads c, written c))"

lemma own_ok_view:
  assumes "view c' = view c" and "fds_ok c \<Longrightarrow> fds_ok c'"
  shows "own_ok c c'"
proof -
  have f: "has_flag f c' = has_flag f c" for f using assms(1) by (simp add: has_flag_def view_def)
  have "plain c \<Longrightarrow> plain c'" using assms by (simp add: plain_def view_def f)
  moreover have "halves_ok c' = halves_ok c" using assms(1) unfolding halves_ok_def view_def by (simp only: f prod.inject)
  moreover have "log_ok c' = log_ok c" using assms(1) unfolding log_ok_def view_def by (simp only: f prod.inject)
  moreover have "charged c' = charged c" "ch_local_window_max c' = ch_local_window_max c"
    using assms(1) unfolding charged_def held_def view_def by (simp_all only: prod.inject)
  ultimately have "end_ok c \<Longrightarrow> end_ok c'" by (simp add: end_ok_def)
  moreover have "moves c c' []" using assms(1) unfolding moves_def view_def by (simp add: f)
  ultimately show ?thesis unfolding own_ok_def by blast
qed

lemma fds_ok_simps [simp]:
  "fds_ok c \<Longrightarrow> fds_ok (chan_shutdown_read g c)" "fds_ok (chan_shutdown_write g c) = fds_ok c"
  "fds_ok (close_efd c)" "fds_ok (emit e c) = fds_ok c" "fds_ok (set_flag f c) = fds_ok c"
  by (auto simp: fds_ok_def chan_shutdown_read_def chan_shutdown_write_def close_rfd_def close_wfd_def
      close_efd_def emit_def set_flag_def Let_def)

lemma fds_ok_upd [simp]:
  "fds_ok (c\<lparr>ch_istate := i\<rparr>) = fds_ok c" "fds_ok (c\<lparr>ch_ostate := j\<rparr>) = fds_ok c"
  "fds_ok (c\<lparr>ch_output := bs\<rparr>) = fds_ok c" "fds_ok (c\<lparr>ch_input := bs\<rparr>) = fds_ok c"
  "fds_ok (c\<lparr>ch_extended := bs\<rparr>) = fds_ok c" "fds_ok (c\<lparr>ch_remote_window := n\<rparr>) = fds_ok c"
  "fds_ok (c\<lparr>ch_local_window := n\<rparr>) = fds_ok c" "fds_ok (c\<lparr>ch_local_consumed := n\<rparr>) = fds_ok c"
  by (simp_all add: fds_ok_def)

lemma view_shutdown_read [simp]: "view (chan_shutdown_read g c) = view c"
  by (simp add: view_def chan_shutdown_read_def close_rfd_def emit_def msgs_def sent_def reads_def written_def)

lemma view_shutdown_write [simp]: "view (chan_shutdown_write g c) = view (c\<lparr>ch_output := []\<rparr>)"
  by (simp add: view_def chan_shutdown_write_def close_wfd_def emit_def msgs_def sent_def reads_def
      written_def Let_def)

lemma view_close_efd [simp]: "view (close_efd c) = view c"
  by (simp add: view_def close_efd_def emit_def msgs_def sent_def reads_def written_def)

lemmas log_defs = msgs_def sent_def reads_def written_def

lemma log_upd [simp]:
  "msgs (c\<lparr>ch_istate := i\<rparr>) = msgs c" "msgs (c\<lparr>ch_ostate := j\<rparr>) = msgs c" "msgs (c\<lparr>ch_output := bs\<rparr>) = msgs c"
  "msgs (c\<lparr>ch_input := bs\<rparr>) = msgs c" "msgs (c\<lparr>ch_extended := bs\<rparr>) = msgs c"
  "msgs (c\<lparr>ch_remote_window := n\<rparr>) = msgs c" "msgs (c\<lparr>ch_local_window := n\<rparr>) = msgs c"
  "msgs (c\<lparr>ch_local_consumed := n\<rparr>) = msgs c" "msgs (set_flag f c) = msgs c"
  "sent (c\<lparr>ch_istate := i\<rparr>) = sent c" "sent (c\<lparr>ch_ostate := j\<rparr>) = sent c" "sent (c\<lparr>ch_output := bs\<rparr>) = sent c"
  "sent (c\<lparr>ch_input := bs\<rparr>) = sent c" "sent (c\<lparr>ch_extended := bs\<rparr>) = sent c"
  "sent (c\<lparr>ch_remote_window := n\<rparr>) = sent c" "sent (c\<lparr>ch_local_window := n\<rparr>) = sent c"
  "sent (c\<lparr>ch_local_consumed := n\<rparr>) = sent c" "sent (set_flag f c) = sent c"
  "reads (c\<lparr>ch_istate := i\<rparr>) = reads c" "reads (c\<lparr>ch_ostate := j\<rparr>) = reads c" "reads (c\<lparr>ch_output := bs\<rparr>) = reads c"
  "reads (c\<lparr>ch_input := bs\<rparr>) = reads c" "reads (c\<lparr>ch_extended := bs\<rparr>) = reads c"
  "reads (c\<lparr>ch_remote_window := n\<rparr>) = reads c" "reads (c\<lparr>ch_local_window := n\<rparr>) = reads c"
  "reads (c\<lparr>ch_local_consumed := n\<rparr>) = reads c" "reads (set_flag f c) = reads c"
  "written (c\<lparr>ch_istate := i\<rparr>) = written c" "written (c\<lparr>ch_ostate := j\<rparr>) = written c" "written (c\<lparr>ch_output := bs\<rparr>) = written c"
  "written (c\<lparr>ch_input := bs\<rparr>) = written c" "written (c\<lparr>ch_extended := bs\<rparr>) = written c"
  "written (c\<lparr>ch_remote_window := n\<rparr>) = written c" "written (c\<lparr>ch_local_window := n\<rparr>) = written c"
  "written (c\<lparr>ch_local_consumed := n\<rparr>) = written c" "written (set_flag f c) = written c"
  by (simp_all add: log_defs set_flag_def)

lemma flag_ands2 [simp]:
  "CHAN_CLOSE_SENT AND CHAN_EOF_RCVD = 0" "CHAN_EOF_SENT AND CHAN_EOF_RCVD = 0"
  "CHAN_CLOSE_RCVD AND CHAN_EOF_RCVD = 0" "CHAN_EOF_RCVD \<noteq> 0"
  by (simp_all add: chan_flag_defs)

lemma has_flag_upd2 [simp]:
  "has_flag f (c\<lparr>ch_input := bs\<rparr>) = has_flag f c" "has_flag f (c\<lparr>ch_extended := bs\<rparr>) = has_flag f c"
  "has_flag f (c\<lparr>ch_remote_window := n\<rparr>) = has_flag f c" "has_flag f (c\<lparr>ch_local_window := n\<rparr>) = has_flag f c"
  "has_flag f (c\<lparr>ch_local_consumed := n\<rparr>) = has_flag f c"
  by (simp_all add: has_flag_def)

lemma set_flag_sel2 [simp]:
  "ch_input (set_flag f c) = ch_input c" "ch_datagram (set_flag f c) = ch_datagram c"
  "ch_extended (set_flag f c) = ch_extended c" "ch_extended_usage (set_flag f c) = ch_extended_usage c"
  "ch_input_filter (set_flag f c) = ch_input_filter c" "ch_output_filter (set_flag f c) = ch_output_filter c"
  "ch_remote_window (set_flag f c) = ch_remote_window c" "ch_local_window (set_flag f c) = ch_local_window c"
  "ch_local_window_max (set_flag f c) = ch_local_window_max c" "ch_local_consumed (set_flag f c) = ch_local_consumed c"
  by (simp_all add: set_flag_def)

lemma emit_sel2 [simp]:
  "ch_input (emit e c) = ch_input c" "ch_output (emit e c) = ch_output c" "ch_datagram (emit e c) = ch_datagram c"
  "ch_extended (emit e c) = ch_extended c" "ch_extended_usage (emit e c) = ch_extended_usage c"
  "ch_input_filter (emit e c) = ch_input_filter c" "ch_output_filter (emit e c) = ch_output_filter c"
  "ch_remote_window (emit e c) = ch_remote_window c" "ch_local_window (emit e c) = ch_local_window c"
  "ch_local_window_max (emit e c) = ch_local_window_max c" "ch_local_consumed (emit e c) = ch_local_consumed c"
  "ch_flags (emit e c) = ch_flags c"
  by (simp_all add: emit_def)

lemmas end_defs = end_ok_def plain_def halves_ok_def log_ok_def charged_def held_def

text \<open>The elementary changes of an end.\<close>

lemma own_ok_drain: "ch_istate c = CHAN_INPUT_OPEN \<Longrightarrow> own_ok c (c\<lparr>ch_istate := CHAN_INPUT_WAIT_DRAIN\<rparr>)"
  unfolding own_ok_def
  by (intro impI conjI exI [of _ "[]"]) (auto simp: end_defs moves_def)

lemma own_ok_close_output:
  "own_ok c (c\<lparr>ch_output := [], ch_ostate := CHAN_OUTPUT_CLOSED\<rparr>)"
  unfolding own_ok_def
  by (intro impI conjI exI [of _ "[]"]) (auto simp: end_defs moves_def)

lemma own_ok_eow:
  assumes "ch_ostate c \<noteq> CHAN_OUTPUT_CLOSED"
  shows "own_ok c (emit (MSG_CHANNEL_EOW r) c)"
  unfolding own_ok_def using assms
  by (intro impI conjI exI [of _ "[MSG_CHANNEL_EOW r]"]) (auto simp: end_defs moves_def intro!: orderly_snocI)

lemma own_ok_send_eof:
  assumes "ch_istate c = CHAN_INPUT_WAIT_DRAIN" and "ch_input c = [] \<or> has_flag CHAN_CLOSE_RCVD c"
  shows "own_ok c ((set_flag CHAN_EOF_SENT (emit (MSG_CHANNEL_EOF r) c))\<lparr>ch_istate := CHAN_INPUT_CLOSED\<rparr>)"
  unfolding own_ok_def using assms
  by (intro impI conjI exI [of _ "[MSG_CHANNEL_EOF r]"])
    (auto simp: end_defs moves_def intro!: orderly_snocI)

lemma own_ok_send_close:
  assumes "ch_istate c = CHAN_INPUT_CLOSED" and "ch_ostate c = CHAN_OUTPUT_CLOSED" and "\<not> has_flag CHAN_CLOSE_SENT c"
  shows "own_ok c (set_flag CHAN_CLOSE_SENT (emit (MSG_CHANNEL_CLOSE r) c))"
  unfolding own_ok_def using assms
  by (intro impI conjI exI [of _ "[MSG_CHANNEL_CLOSE r]"])
    (auto simp: end_defs moves_def intro!: orderly_snocI)

text \<open>The events of \<open>nchan.c\<close>. A premise \<open>end_ok c\<close> is available in every one of them.\<close>

lemma own_ok_end: "(end_ok c \<Longrightarrow> own_ok c c') \<Longrightarrow> own_ok c c'"
  unfolding own_ok_def by blast

lemma read_failed_ok: "own_ok c (chan_read_failed g c)"
proof (cases "ch_istate c = CHAN_INPUT_OPEN")
  case True
  have "own_ok c (chan_shutdown_read g c)" by (rule own_ok_view) simp_all
  also have "own_ok (chan_shutdown_read g c) (chan_read_failed g c)"
    using own_ok_drain [of "chan_shutdown_read g c"] True by (simp add: chan_read_failed_def chan_set_istate_def)
  finally show ?thesis .
qed (auto simp: chan_read_failed_def split: istate.split)

lemma ibuf_empty_ok:
  assumes "compat20 g"
  shows "own_ok c (chan_ibuf_empty g c)"
proof (rule own_ok_end)
  assume w: "end_ok c"
  show ?thesis
  proof (cases "ch_input c = [] \<and> ch_istate c = CHAN_INPUT_WAIT_DRAIN")
    case True
    have "\<not> has_flag (CHAN_CLOSE_SENT OR CHAN_LOCAL) c" using w True by (auto simp: end_defs has_flag_or)
    then show ?thesis
      using True assms own_ok_send_eof [of c "ch_remote_id c"]
      by (simp add: chan_ibuf_empty_def chan_set_istate_def chan_send_eof2_def)
  qed (auto simp: chan_ibuf_empty_def split: istate.split)
qed

lemma close_output_ok:
  "own_ok c ((chan_shutdown_write g c)\<lparr>ch_ostate := CHAN_OUTPUT_CLOSED\<rparr>)"
proof -
  have "view ((chan_shutdown_write g c)\<lparr>ch_ostate := CHAN_OUTPUT_CLOSED\<rparr>) =
        view (c\<lparr>ch_output := [], ch_ostate := CHAN_OUTPUT_CLOSED\<rparr>)"
    using view_shutdown_write [of g c] by (simp add: view_def)
  then have "own_ok (c\<lparr>ch_output := [], ch_ostate := CHAN_OUTPUT_CLOSED\<rparr>)
      ((chan_shutdown_write g c)\<lparr>ch_ostate := CHAN_OUTPUT_CLOSED\<rparr>)"
    by (rule own_ok_view) simp
  with own_ok_close_output show ?thesis by (rule own_ok_trans)
qed

lemma obuf_empty_ok: "compat20 g \<Longrightarrow> own_ok c (chan_obuf_empty g c)"
  by (auto simp: chan_obuf_empty_def chan_set_ostate_def close_output_ok split: ostate.split)

lemma write_failed_ok:
  assumes "compat20 g"
  shows "own_ok c (chan_write_failed g c)"
proof (cases "ch_ostate c = CHAN_OUTPUT_OPEN \<or> ch_ostate c = CHAN_OUTPUT_WAIT_DRAIN")
  case True
  let ?c = "emit (MSG_CHANNEL_EOW (ch_remote_id c)) c"
  have "chan_write_failed g c =
      (if ch_ctype c = ''session'' then chan_send_eow2 g (chan_shutdown_write g c) else chan_shutdown_write g c)
        \<lparr>ch_ostate := CHAN_OUTPUT_CLOSED\<rparr>"
    using True assms
    by (auto simp: chan_write_failed_def chan_write_failed2_def chan_set_ostate_def chan_shutdown_write_def
        close_wfd_def emit_def Let_def)
  moreover have "own_ok c ((chan_send_eow2 g (chan_shutdown_write g c))\<lparr>ch_ostate := CHAN_OUTPUT_CLOSED\<rparr>)"
  proof (cases "datafellows g AND SSH_NEW_OPENSSH = 0")
    case False
    have "own_ok c ?c" using True by (intro own_ok_eow) auto
    also have "own_ok ?c ((chan_shutdown_write g ?c)\<lparr>ch_ostate := CHAN_OUTPUT_CLOSED\<rparr>)" by (rule close_output_ok)
    also have "own_ok ((chan_shutdown_write g ?c)\<lparr>ch_ostate := CHAN_OUTPUT_CLOSED\<rparr>)
        ((chan_send_eow2 g (chan_shutdown_write g c))\<lparr>ch_ostate := CHAN_OUTPUT_CLOSED\<rparr>)"
      using False True
      by (intro own_ok_view)
        (auto simp: view_def chan_send_eow2_def chan_shutdown_write_def close_wfd_def emit_def log_defs fds_ok_def Let_def)
    finally show ?thesis .
  qed (use close_output_ok in \<open>simp add: chan_send_eow2_def\<close>)
  ultimately show ?thesis using close_output_ok by simp
qed (use assms in \<open>auto simp: chan_write_failed_def chan_write_failed2_def Let_def split: ostate.split\<close>)

lemma is_dead_ok:
  assumes "compat20 g"
  shows "own_ok c (snd (chan_is_dead g c do_send))"
  using own_ok_send_close [of c "ch_remote_id c"]
  by (auto simp: chan_is_dead_def chan_send_close2_def Let_def)

text \<open>The rounds around \<open>select\<close>.\<close>

lemma unat_add_charged:
  fixes w v m :: u32
  assumes "unat w + unat v \<le> unat m"
  shows "unat (w + v) = unat w + unat v"
  using assms unsigned_less [of m, where ?'a = nat] by (intro unat_add_lem [THEN iffD1]) simp

lemma pre_open_ok:
  assumes "proto2_env env" and "channel_pre_open env c = (c', rs, ws)"
  shows "own_ok c c'"
  using assms obuf_empty_ok [of "ce_compat env" c]
  by (auto simp: channel_pre_open_def pre_write_def proto2_env_def Let_def split: prod.splits if_splits)

lemma pre_open_reads:
  assumes "channel_pre_open env c = (c', rs, ws)" and "fds_ok c" and "ch_rfd c' \<in> set rs" and "ch_rfd c' \<noteq> - 1"
  shows "ch_istate c' = CHAN_INPUT_OPEN"
proof -
  obtain ws' where p: "pre_write env c = (c', ws')" and rs: "rs = pre_read env c @ fst (pre_efd env c')"
    using assms(1) by (auto simp: channel_pre_open_def Let_def split: prod.splits)
  have c': "c' = c \<or> c' = chan_obuf_empty (ce_compat env) c"
    using p by (auto simp: pre_write_def split: if_splits)
  have e: "ch_istate c' = ch_istate c" "ch_efd c' = ch_efd c" "ch_rfd c' = ch_rfd c"
    using c' by (auto simp: chan_obuf_empty_def chan_set_ostate_def chan_send_oclose1_def chan_shutdown_write_def
        close_wfd_def emit_def Let_def split: ostate.split)
  have "ch_rfd c' \<notin> set (fst (pre_efd env c'))"
    using assms(2,4) e by (auto simp: pre_efd_def fds_ok_def split: if_splits)
  then have "ch_rfd c' \<in> set (pre_read env c)" using assms(3) rs by simp
  then show ?thesis using e by (auto simp: pre_read_def Let_def split: if_splits)
qed

lemma own_ok_read:
  assumes "ch_istate c \<noteq> CHAN_INPUT_CLOSED"
  shows "own_ok c ((emit (SYS_READ fd buf) c)\<lparr>ch_input := ch_input c @ buf\<rparr>)"
  unfolding own_ok_def using assms
  by (intro impI conjI exI [of _ "[]"]) (auto simp: end_defs moves_def)

lemma handle_rfd_ok:
  assumes "proto2_env env" and "ch_rfd c \<in> set rs \<Longrightarrow> ch_rfd c \<noteq> - 1 \<Longrightarrow> ch_istate c = CHAN_INPUT_OPEN"
    and "channel_handle_rfd env rs r c = (Inr x, c')"
  shows "own_ok c c'"
proof (rule own_ok_end)
  assume w: "end_ok c"
  then have p: "ch_type c = SSH_CHANNEL_OPEN" "ch_input_filter c = None" "\<not> ch_datagram c"
    by (simp_all add: end_defs)
  have f: "rfd_failed env c = (Inr (- 1), chan_read_failed (ce_compat env) c)"
    using p assms(1) by (simp add: rfd_failed_def proto2_env_def)
  show ?thesis
  proof (cases "\<exists>bs. r = RD bs \<and> bs \<noteq> [] \<and> c' = (emit (SYS_READ (ch_rfd c) (take CHAN_RBUF bs)) c)
                  \<lparr>ch_input := ch_input c @ take CHAN_RBUF bs\<rparr> \<and> ch_istate c \<noteq> CHAN_INPUT_CLOSED")
    case True
    then show ?thesis using own_ok_read by blast
  next
    case False
    then have "c' = c \<or> c' = chan_read_failed (ce_compat env) c"
      using assms(2,3) p f
      by (auto simp: channel_handle_rfd_def rfd_data_def put_input_def buffer_append_def rbind_eq_Inr_iff Let_def
          split: rdres.splits if_splits option.splits)
    then show ?thesis using read_failed_ok by auto
  qed
qed

lemma fds_ok_write [simp]: "fds_ok (credit env n c) = fds_ok c" "fds_ok (fake_echo env bs n c) = fds_ok c"
  by (simp_all add: credit_def fake_echo_def)

lemma own_ok_write:
  assumes "proto2_env env" and "n \<le> length (ch_output c)"
  shows "own_ok c (credit env (length (ch_output c))
     ((emit (SYS_WRITE fd (take n (ch_output c))) c)\<lparr>ch_output := drop n (ch_output c)\<rparr>))"
proof (rule own_ok_end)
  assume w: "end_ok c"
  let ?c = "credit env (length (ch_output c))
     ((emit (SYS_WRITE fd (take n (ch_output c))) c)\<lparr>ch_output := drop n (ch_output c)\<rparr>)"
  have n: "unat (of_nat n :: u32) = n" "unat (ch_local_consumed c) + n \<le> unat (ch_local_window_max c)"
    using w assms(2) by (auto simp: end_defs intro!: unat_of_nat_len)
  have d: "of_nat (length (ch_output c)) - of_nat (length (drop n (ch_output c))) = (of_nat n :: u32)"
    using assms(2) by (simp add: of_nat_diff)
  have c: "?c = (emit (SYS_WRITE fd (take n (ch_output c))) c)
      \<lparr>ch_output := drop n (ch_output c), ch_local_consumed := ch_local_consumed c + of_nat n\<rparr>"
  proof (cases "ch_output c = []")
    case True
    then show ?thesis using assms(2) by (simp add: credit_def emit_def)
  next
    case False
    then show ?thesis using assms(1) d by (simp add: credit_def proto2_env_def)
  qed
  have u: "unat (ch_local_consumed c + of_nat n) = unat (ch_local_consumed c) + n"
    using n unat_add_charged [of "ch_local_consumed c" "of_nat n"] by simp
  have "end_ok ?c" using w assms(2) u unfolding c by (auto simp: end_defs)
  moreover have "moves c ?c []" unfolding c by (auto simp: moves_def)
  ultimately show ?thesis unfolding own_ok_def by blast
qed

lemma own_ok_write_efd:
  assumes "ch_extended_usage c = CHAN_EXTENDED_WRITE" and "n \<le> length (ch_extended c)"
  shows "own_ok c ((emit (SYS_WRITE_EFD fd (take n (ch_extended c))) c)
     \<lparr>ch_extended := drop n (ch_extended c), ch_local_consumed := ch_local_consumed c + of_nat n\<rparr>)"
proof (rule own_ok_end)
  assume w: "end_ok c"
  have n: "unat (of_nat n :: u32) = n" "unat (ch_local_consumed c) + n \<le> unat (ch_local_window_max c)"
    using w assms by (auto simp: end_defs intro!: unat_of_nat_len)
  have u: "unat (ch_local_consumed c + of_nat n) = unat (ch_local_consumed c) + n"
    using n unat_add_charged [of "ch_local_consumed c" "of_nat n"] by simp
  show ?thesis unfolding own_ok_def using assms u
    by (intro impI conjI exI [of _ "[]"]) (auto simp: end_defs moves_def)
qed

lemma handle_wfd_ok:
  assumes "proto2_env env" and "channel_handle_wfd env ws r c = (Inr x, c')"
  shows "own_ok c c'"
proof (rule own_ok_end)
  assume w: "end_ok c"
  then have p: "ch_type c = SSH_CHANNEL_OPEN" "ch_output_filter c = None" "\<not> ch_datagram c"
    by (simp_all add: end_defs)
  define f where "f n = (emit (SYS_WRITE (ch_wfd c) (take n (ch_output c))) c)" for n
  have "c' = c \<or> c' = chan_write_failed (ce_compat env) c \<or>
      (\<exists>n \<le> length (ch_output c). c' = credit env (length (ch_output c))
         ((fake_echo env (ch_output c) n (f n))\<lparr>ch_output := drop n (ch_output c)\<rparr>))"
  proof (cases r)
    case (WR n)
    then show ?thesis
      using assms p
      by (auto simp: channel_handle_wfd_def wfd_data_def wfd_failed_def wfd_written_def proto2_env_def f_def
          fake_echo_def Let_def split: if_splits intro!: exI [of _ "min n (length (ch_output c))"])
  qed (use assms p in \<open>auto simp: channel_handle_wfd_def wfd_data_def wfd_failed_def proto2_env_def Let_def
          split: if_splits\<close>)
  moreover have "own_ok c (credit env (length (ch_output c))
         ((fake_echo env (ch_output c) n (f n))\<lparr>ch_output := drop n (ch_output c)\<rparr>))"
    if "n \<le> length (ch_output c)" for n
  proof -
    have "own_ok c (credit env (length (ch_output c)) ((f n)\<lparr>ch_output := drop n (ch_output c)\<rparr>))"
      unfolding f_def using assms(1) that by (rule own_ok_write)
    also have "own_ok \<dots> (credit env (length (ch_output c))
         ((fake_echo env (ch_output c) n (f n))\<lparr>ch_output := drop n (ch_output c)\<rparr>))"
      by (rule own_ok_view, simp add: view_def credit_def fake_echo_def emit_def log_defs, simp)
    finally show ?thesis .
  qed
  ultimately show ?thesis using write_failed_ok assms(1) unfolding proto2_env_def by auto
qed

lemma handle_efd_ok:
  assumes "channel_handle_efd env rs ws r q c = (Inr x, c')"
  shows "own_ok c c'"
proof -
  have e: "own_ok c (close_efd c)" by (rule own_ok_view) simp_all
  have rd: "own_ok c ((emit (SYS_READ_EFD fd buf) c)\<lparr>ch_extended := ch_extended c @ buf\<rparr>)"
    if "ch_extended_usage c = CHAN_EXTENDED_READ" for fd buf
    unfolding own_ok_def using that
    by (intro impI conjI exI [of _ "[]"]) (auto simp: end_defs moves_def)
  have ig: "own_ok c (emit (SYS_READ_EFD fd buf) c)" for fd buf
    by (rule own_ok_view) (simp_all add: view_def)
  show ?thesis
    using assms e rd ig own_ok_write_efd [of c _ "ch_efd c"]
    by (auto simp: channel_handle_efd_def efd_write_def efd_read_def put_extended_def buffer_append_def
        rbind_eq_Inr_iff Let_def split: if_splits rdres.splits wrres.splits)
qed

lemma check_window_ok: "own_ok c (channel_check_window c)"
proof (rule own_ok_end)
  assume w: "end_ok c"
  then have u: "unat (ch_local_window c + ch_local_consumed c) = unat (ch_local_window c) + unat (ch_local_consumed c)"
    by (intro unat_add_charged [where m = "ch_local_window_max c"]) (simp add: end_defs)
  let ?m = "MSG_CHANNEL_WINDOW_ADJUST (ch_remote_id c) (ch_local_consumed c)"
  show ?thesis
  proof (cases "channel_check_window c = c")
    case False
    then have f: "\<not> has_flag CHAN_CLOSE_SENT c" by (auto simp: channel_check_window_def has_flag_or split: if_splits)
    have c: "channel_check_window c = (emit ?m c)
        \<lparr>ch_local_window := ch_local_window c + ch_local_consumed c, ch_local_consumed := 0\<rparr>"
      using False by (auto simp: channel_check_window_def split: if_splits)
    have "end_ok (channel_check_window c)"
      unfolding c using w u f by (auto simp: end_defs intro!: orderly_snocI)
    moreover have "moves c (channel_check_window c) [?m]" unfolding c using u by (simp add: moves_def)
    ultimately show ?thesis unfolding own_ok_def by blast
  qed simp
qed

lemma post_open_ok:
  assumes "proto2_env env" and "ch_rfd c \<in> set (rd_set s) \<Longrightarrow> ch_rfd c \<noteq> - 1 \<Longrightarrow> ch_istate c = CHAN_INPUT_OPEN"
    and "channel_post_open env s c = (Inr (), c')"
  shows "own_ok c c'"
proof -
  obtain x c1 y c2 z c3 where s: "channel_handle_rfd env (rd_set s) (rd_rfd s) c = (Inr x, c1)"
      "channel_handle_wfd env (wr_set s) (wr_wfd s) c1 = (Inr y, c2)"
      "channel_handle_efd env (rd_set s) (wr_set s) (rd_efd s) (wr_efd s) c2 = (Inr z, c3)"
      "c' = channel_check_window c3"
    using assms(1,3) by (auto simp: channel_post_open_def proto2_env_def rbind_eq_Inr_iff)
  have "own_ok c c1" using handle_rfd_ok [OF assms(1,2) s(1)] by blast
  also have "own_ok c1 c2" using handle_wfd_ok [OF assms(1) s(2)] .
  also have "own_ok c2 c3" using handle_efd_ok [OF s(3)] .
  also have "own_ok c3 c'" unfolding s(4) by (rule check_window_ok)
  finally show ?thesis .
qed

text \<open>Sending buffered data.\<close>

lemma unat_of_nat_le:
  fixes w :: u32
  assumes "n \<le> unat w"
  shows "unat (of_nat n :: u32) = n"
proof -
  have "n < 2 ^ 32" using assms unsigned_less [of w, where ?'a = nat] by simp
  then show ?thesis by (simp add: unat_of_nat take_bit_eq_mod)
qed

lemma own_ok_send_data:
  assumes "ch_istate c \<noteq> CHAN_INPUT_CLOSED" and "length d \<le> unat (ch_remote_window c)" and "ch_input c = d @ rest"
  shows "own_ok c (send_data d (c\<lparr>ch_input := rest\<rparr>))"
proof -
  have u: "unat (ch_remote_window c - of_nat (length d)) = unat (ch_remote_window c) - length d"
    using assms(2) unat_of_nat_le [OF assms(2)] by (simp add: unat_sub word_le_nat_alt)
  show ?thesis unfolding own_ok_def send_data_def using assms(1-3) u
    by (intro impI conjI exI [of _ "[MSG_CHANNEL_DATA (ch_remote_id c) d]"])
      (auto simp: end_defs moves_def intro!: orderly_snocI)
qed

lemma poll_extended_ok:
  assumes "\<not> has_flag CHAN_CLOSE_SENT c"
  shows "own_ok c (poll_extended env c)"
proof (cases "poll_extended env c = c")
  case False
  define n where "n = min (min (length (ch_extended c)) (unat (ch_remote_window c))) (unat (ch_remote_maxpacket c))"
  define m where "m = MSG_CHANNEL_EXTENDED_DATA (ch_remote_id c) SSH2_EXTENDED_DATA_STDERR (take n (ch_extended c))"
  have c: "poll_extended env c = (emit m c)\<lparr>ch_extended := drop n (ch_extended c),
        ch_remote_window := ch_remote_window c - of_nat n\<rparr>"
    and e: "\<not> has_flag CHAN_EOF_SENT c" "ch_extended_usage c \<noteq> CHAN_EXTENDED_WRITE"
    using False by (auto simp: poll_extended_def n_def m_def Let_def split: if_splits)
  have n: "n \<le> unat (ch_remote_window c)" "n \<le> length (ch_extended c)" by (auto simp: n_def)
  have u: "unat (ch_remote_window c - of_nat n) = unat (ch_remote_window c) - n"
    using n unat_of_nat_le [OF n(1)] by (simp add: unat_sub word_le_nat_alt)
  show ?thesis unfolding own_ok_def c using assms e n u
    by (intro impI conjI exI [of _ "[m]"])
      (auto simp: end_defs moves_def m_def intro!: orderly_snocI)
qed simp

lemma ibuf_empty_close_flag: "has_flag CHAN_CLOSE_SENT (chan_ibuf_empty g c) = has_flag CHAN_CLOSE_SENT c"
  by (cases "ch_istate c")
    (simp_all add: chan_ibuf_empty_def chan_set_istate_def chan_send_eof2_def chan_send_ieof1_def)

lemma output_poll_ok:
  assumes "proto2_env env" and "output_poll_chan env c = (Inr (), c')"
  shows "own_ok c c'"
proof (rule own_ok_end)
  assume w: "end_ok c"
  show ?thesis
  proof (cases "has_flag (CHAN_CLOSE_SENT OR CHAN_CLOSE_RCVD) c")
    case False
    then obtain skip c1 where p: "poll_input env c = (Inr skip, c1)"
        and c': "c' = (if skip then c1 else poll_extended env c1)"
      using assms w by (auto simp: output_poll_chan_def proto2_env_def end_defs rbind_eq_Inr_iff)
    have nd: "\<not> ch_datagram c" using w by (simp add: end_defs)
    define n where "n = poll_len env c"
    have n: "n \<le> unat (ch_remote_window c)" "n \<le> length (ch_input c)"
      using assms(1) by (auto simp: n_def poll_len_def proto2_env_def Let_def)
    have c1: "c1 = c \<or> c1 = chan_ibuf_empty (ce_compat env) c \<or>
        (ch_istate c \<noteq> CHAN_INPUT_CLOSED \<and>
         c1 = send_data (take n (ch_input c)) (c\<lparr>ch_input := drop n (ch_input c)\<rparr>))"
      using p nd by (auto simp: poll_input_def poll_stream_def n_def Let_def split: if_splits)
    have s: "own_ok c (send_data (take n (ch_input c)) (c\<lparr>ch_input := drop n (ch_input c)\<rparr>))"
      if "ch_istate c \<noteq> CHAN_INPUT_CLOSED"
      using own_ok_send_data [of c "take n (ch_input c)" "drop n (ch_input c)"] that n by simp
    have "own_ok c c1" using c1 s ibuf_empty_ok assms(1) by (auto simp: proto2_env_def)
    also have "own_ok c1 c'"
      using c1 False unfolding c'
      by (auto simp: has_flag_or ibuf_empty_close_flag send_data_def intro!: poll_extended_ok)
    finally show ?thesis .
  qed (use assms in \<open>auto simp: output_poll_chan_def proto2_env_def split: if_splits\<close>)
qed

lemma own_step_ok:
  assumes "own_step env c c'" and "proto2_env env"
  shows "own_ok c c'"
  using assms
proof (cases rule: own_step.cases)
  case (prepare rs ws)
  then show ?thesis using assms(2) pre_open_ok by blast
next
  case (select c1 rs ws s)
  show ?thesis
  proof (rule own_ok_end)
    assume w: "end_ok c"
    have "own_ok c c1" using pre_open_ok [OF assms(2) select(1)] .
    also have "own_ok c1 c'"
    proof (rule post_open_ok [OF assms(2) _ select(4)])
      assume "ch_rfd c1 \<in> set (rd_set s)" "ch_rfd c1 \<noteq> - 1"
      then show "ch_istate c1 = CHAN_INPUT_OPEN"
        using pre_open_reads [OF select(1)] w select(2) by (auto simp: end_defs)
    qed
    finally show ?thesis .
  qed
next
  case poll
  then show ?thesis using assms(2) output_poll_ok by blast
next
  case read_failed
  then show ?thesis using read_failed_ok by simp
next
  case write_failed
  then show ?thesis using write_failed_ok assms(2) by (simp add: proto2_env_def)
next
  case (collect do_send)
  then show ?thesis using is_dead_ok assms(2) by (simp add: proto2_env_def)
qed

end
