(* ===== verification/Chan_Link.thy ===== *)
theory Chan_Link
  imports Chan_Flow "HOL-Library.Code_Target_Nat"
begin

text \<open>
  The two ends of \<open>Chan_Flow\<close> joined: what handling a message of the peer does to an end, the
  invariant of the connection (\<open>link_ok\<close>: windows, close handshake and stream in both directions), an
  executable version of the steps, and the theorems on every reachable state. The connection starts
  with two open channels that know each other's window; opening a channel is in \<open>Channels\<close>.
\<close>

section \<open>Handling a message of the peer\<close>

text \<open>What handling the message \<open>m\<close> does to an end that sends \<open>ms\<close> in answer.\<close>

definition got :: "channel \<Rightarrow> channel \<Rightarrow> chan_effect \<Rightarrow> chan_effect list \<Rightarrow> bool" where
  "got c c' m ms \<longleftrightarrow>
     ch_local_window_max c' = ch_local_window_max c \<and> msgs c' = msgs c @ ms \<and>
     unat (ch_remote_window c') + load ms = unat (ch_remote_window c) + adjust_of m \<and>
     unat (ch_local_window c) + adjusts ms \<le> unat (ch_local_window c') + load_of m \<and>
     has_flag CHAN_EOF_RCVD c' = (has_flag CHAN_EOF_RCVD c \<or> is_eof m) \<and>
     has_flag CHAN_CLOSE_RCVD c' = (has_flag CHAN_CLOSE_RCVD c \<or> is_close m) \<and>
     (ch_ostate c = CHAN_OUTPUT_CLOSED \<longrightarrow> ch_ostate c' = CHAN_OUTPUT_CLOSED) \<and>
     prefix (written c' @ ch_output c')
       (written c @ ch_output c @ (if ch_ostate c = CHAN_OUTPUT_CLOSED then [] else data_of m)) \<and>
     (ch_ostate c' \<noteq> CHAN_OUTPUT_CLOSED \<and> (is_data m \<longrightarrow> ch_ostate c = CHAN_OUTPUT_OPEN) \<longrightarrow>
        written c' @ ch_output c' = written c @ ch_output c @ data_of m)"

lemma got_moves:
  assumes "got c c' m ms" and "moves c' c'' ns"
  shows "got c c'' m (ms @ ns)"
proof -
  have g: "ch_local_window_max c' = ch_local_window_max c" "msgs c' = msgs c @ ms"
      "unat (ch_remote_window c') + load ms = unat (ch_remote_window c) + adjust_of m"
      "unat (ch_local_window c) + adjusts ms \<le> unat (ch_local_window c') + load_of m"
      "has_flag CHAN_EOF_RCVD c' = (has_flag CHAN_EOF_RCVD c \<or> is_eof m)"
      "has_flag CHAN_CLOSE_RCVD c' = (has_flag CHAN_CLOSE_RCVD c \<or> is_close m)"
    and go: "ch_ostate c = CHAN_OUTPUT_CLOSED \<longrightarrow> ch_ostate c' = CHAN_OUTPUT_CLOSED"
    and gp: "prefix (written c' @ ch_output c')
       (written c @ ch_output c @ (if ch_ostate c = CHAN_OUTPUT_CLOSED then [] else data_of m))"
    and ge: "ch_ostate c' \<noteq> CHAN_OUTPUT_CLOSED \<and> (is_data m \<longrightarrow> ch_ostate c = CHAN_OUTPUT_OPEN) \<longrightarrow>
        written c' @ ch_output c' = written c @ ch_output c @ data_of m"
    using assms(1) unfolding got_def by blast+
  have v: "ch_local_window_max c'' = ch_local_window_max c'" "msgs c'' = msgs c' @ ns"
      "unat (ch_remote_window c'') + load ns = unat (ch_remote_window c')"
      "unat (ch_local_window c'') = unat (ch_local_window c') + adjusts ns"
      "has_flag CHAN_EOF_RCVD c'' = has_flag CHAN_EOF_RCVD c'"
      "has_flag CHAN_CLOSE_RCVD c'' = has_flag CHAN_CLOSE_RCVD c'"
    and vo: "ch_ostate c' = CHAN_OUTPUT_CLOSED \<longrightarrow> ch_ostate c'' = CHAN_OUTPUT_CLOSED"
    and vp: "prefix (written c'' @ ch_output c'') (written c' @ ch_output c')"
    and ve: "ch_ostate c'' \<noteq> CHAN_OUTPUT_CLOSED \<longrightarrow> written c'' @ ch_output c'' = written c' @ ch_output c'"
    using assms(2) unfolding moves_def by blast+
  have "ch_ostate c'' \<noteq> CHAN_OUTPUT_CLOSED \<and> (is_data m \<longrightarrow> ch_ostate c = CHAN_OUTPUT_OPEN) \<longrightarrow>
      written c'' @ ch_output c'' = written c @ ch_output c @ data_of m"
    using ge ve vo by auto
  then show ?thesis
    unfolding got_def using g v go vo prefix_order.trans [OF vp gp] by (intro conjI) simp_all
qed

lemma got_own:
  assumes "end_ok c'" and "got c c' m ms" and "own_ok c' c''"
  shows "end_ok c'' \<and> (\<exists>ms. got c c'' m ms)"
  using assms got_moves unfolding own_ok_def by blast

lemma moves_got: "moves c c' ms \<Longrightarrow> \<not> is_data m \<Longrightarrow> \<not> is_eof m \<Longrightarrow> \<not> is_close m \<Longrightarrow> adjust_of m = 0 \<Longrightarrow>
    got c c' m ms"
  using data_of_not_data [of m] by (simp add: got_def moves_def)

lemma recv_data:
  assumes "proto2_env env" and "end_ok c" and "length d \<le> unat (ch_local_window c)"
  shows "\<exists>c'. deliver env (MSG_CHANNEL_DATA r d) c = (Inr (), c') \<and> end_ok c' \<and> got c c' (MSG_CHANNEL_DATA r d) []"
proof -
  have le: "length d \<le> SSHBUF_SIZE_MAX - 4" "length d + length (ch_output c) \<le> SSHBUF_SIZE_MAX"
    using assms(2,3) by (auto simp: end_defs)
  have u: "unat (of_nat (length d) :: u32) = length d" using unat_of_nat_le [OF assms(3)] .
  have p: "packet_get_string (POKE_U32 (of_nat (length d)) @ d) = Inr (d, [])"
    using le u by (simp add: packet_get_string_def Let_def)
  have s: "unat (ch_local_window c - of_nat (length d)) = unat (ch_local_window c) - length d"
    using assms(3) u by (simp add: unat_sub word_le_nat_alt)
  have "unat (ch_local_consumed c) + length d \<le> unat (ch_local_window_max c)"
    using assms(2,3) by (simp add: end_defs)
  then have k: "unat (ch_local_consumed c + of_nat (length d)) = unat (ch_local_consumed c) + length d"
    using unat_add_charged [of "ch_local_consumed c" "of_nat (length d)"] u by simp
  have t: "ch_type c = SSH_CHANNEL_OPEN" "\<not> ch_datagram c" using assms(2) by (simp_all add: end_defs)
  show ?thesis
  proof (cases "ch_ostate c = CHAN_OUTPUT_OPEN")
    case True
    let ?c = "c\<lparr>ch_local_window := ch_local_window c - of_nat (length d), ch_output := ch_output c @ d\<rparr>"
    have "deliver env (MSG_CHANNEL_DATA r d) c = (Inr (), ?c)"
      using True assms(1,3) t p u le
      by (simp add: input_data_chan_def proto2_env_def put_output_def buffer_append_def packet_check_eom_def
          word_less_nat_alt Let_def not_less)
    moreover have "end_ok ?c" using assms(2,3) s True by (auto simp: end_defs)
    moreover have "got c ?c (MSG_CHANNEL_DATA r d) []" using s assms(3) True by (simp add: got_def)
    ultimately show ?thesis by blast
  next
    case False
    let ?c = "c\<lparr>ch_local_window := ch_local_window c - of_nat (length d),
                 ch_local_consumed := ch_local_consumed c + of_nat (length d)\<rparr>"
    have "deliver env (MSG_CHANNEL_DATA r d) c = (Inr (), ?c)"
      using False assms(1) t p by (simp add: input_data_chan_def proto2_env_def Let_def)
    moreover have "end_ok ?c" using assms(2,3) s k by (auto simp: end_defs)
    moreover have "got c ?c (MSG_CHANNEL_DATA r d) []" using s assms(3) False by (simp add: got_def)
    ultimately show ?thesis by blast
  qed
qed

lemma recv_extended:
  assumes "proto2_env env" and "end_ok c" and "length d \<le> unat (ch_local_window c)" and "\<not> has_flag CHAN_EOF_RCVD c"
  shows "\<exists>c'. deliver env (MSG_CHANNEL_EXTENDED_DATA r k d) c = (Inr (), c') \<and> end_ok c' \<and>
    got c c' (MSG_CHANNEL_EXTENDED_DATA r k d) []"
proof -
  have le: "length d \<le> SSHBUF_SIZE_MAX - 4" using assms(2,3) by (auto simp: end_defs)
  have u: "unat (of_nat (length d) :: u32) = length d" using unat_of_nat_le [OF assms(3)] .
  have p: "packet_get_string (POKE_U32 (of_nat (length d)) @ d) = Inr (d, [])"
    using le u by (simp add: packet_get_string_def Let_def)
  have i: "packet_get_int (POKE_U32 k @ bs) = Inr (k, bs)" for k bs by (simp add: packet_get_int_def)
  have s: "unat (ch_local_window c - of_nat (length d)) = unat (ch_local_window c) - length d"
    using assms(3) u by (simp add: unat_sub word_le_nat_alt)
  have t: "ch_type c = SSH_CHANNEL_OPEN" using assms(2) by (simp add: end_defs)
  show ?thesis
  proof (cases "ch_efd c = - 1 \<or> ch_extended_usage c \<noteq> CHAN_EXTENDED_WRITE \<or> k \<noteq> SSH2_EXTENDED_DATA_STDERR")
    case True
    then have "deliver env (MSG_CHANNEL_EXTENDED_DATA r k d) c = (Inr (), c)"
      using assms(4) t by (auto simp: input_extended_data_chan_def i)
    then show ?thesis using assms(2) by (auto simp: got_def)
  next
    case False
    let ?c = "c\<lparr>ch_local_window := ch_local_window c - of_nat (length d), ch_extended := ch_extended c @ d\<rparr>"
    have "length d + length (ch_extended c) \<le> SSHBUF_SIZE_MAX" using False assms(2,3) by (auto simp: end_defs)
    then have "deliver env (MSG_CHANNEL_EXTENDED_DATA r k d) c = (Inr (), ?c)"
      using False assms(3,4) t
      by (simp add: input_extended_data_chan_def i p put_extended_def buffer_append_def packet_check_eom_def)
    moreover have "end_ok ?c" using assms(2,3) s by (auto simp: end_defs)
    moreover have "got c ?c (MSG_CHANNEL_EXTENDED_DATA r k d) []" using s assms(3) by (simp add: got_def)
    ultimately show ?thesis by blast
  qed
qed

lemma recv_adjust:
  assumes "end_ok c" and "unat (ch_remote_window c) + unat n < 2 ^ 32"
  shows "\<exists>c'. deliver env (MSG_CHANNEL_WINDOW_ADJUST r n) c = (Inr (), c') \<and> end_ok c' \<and>
    got c c' (MSG_CHANNEL_WINDOW_ADJUST r n) []"
proof -
  have u: "unat (ch_remote_window c + n) = unat (ch_remote_window c) + unat n"
    using assms(2) by (intro unat_add_lem [THEN iffD1]) simp
  let ?c = "c\<lparr>ch_remote_window := ch_remote_window c + n\<rparr>"
  have i: "packet_get_int (POKE_U32 n) = Inr (n, [])"
    using PEEK_POKE_U32 [of n "[]"] by (simp add: packet_get_int_def)
  have "deliver env (MSG_CHANNEL_WINDOW_ADJUST r n) c = (Inr (), ?c)"
    using u by (simp add: window_adjust_chan_def i packet_check_eom_def word_less_nat_alt Let_def)
  moreover have "end_ok ?c" using assms(1) by (auto simp: end_defs)
  moreover have "got c ?c (MSG_CHANNEL_WINDOW_ADJUST r n) []" using u by (simp add: got_def)
  ultimately show ?thesis by blast
qed

text \<open>EOF and CLOSE of the peer are recorded, and end the output half once it is drained.\<close>

definition note_end :: "u32 \<Rightarrow> channel \<Rightarrow> channel" where
  "note_end f c = (if ch_ostate c = CHAN_OUTPUT_OPEN
     then (set_flag f c)\<lparr>ch_ostate := CHAN_OUTPUT_WAIT_DRAIN\<rparr> else set_flag f c)"

lemma note_end_ok:
  assumes "f = CHAN_EOF_RCVD \<or> f = CHAN_CLOSE_RCVD" and "end_ok c"
  shows "end_ok (note_end f c)"
proof -
  have f: "f AND CHAN_LOCAL = 0" "f AND CHAN_CLOSE_SENT = 0" "f AND CHAN_EOF_SENT = 0" using assms(1) by auto
  have "plain (note_end f c)" using assms(2) f by (simp add: note_end_def plain_def end_ok_def)
  moreover have "halves_ok (note_end f c)"
    using assms f by (auto simp: note_end_def halves_ok_def end_ok_def)
  moreover have "log_ok (note_end f c)" using assms(2) f by (simp add: note_end_def log_ok_def end_ok_def)
  moreover have "charged (note_end f c) = charged c" "ch_local_window_max (note_end f c) = ch_local_window_max c"
    by (simp_all add: note_end_def charged_def held_def)
  ultimately show ?thesis using assms(2) by (simp add: end_ok_def)
qed

lemma note_end_got:
  "got c (note_end CHAN_EOF_RCVD c) (MSG_CHANNEL_EOF r) []"
  "got c (note_end CHAN_CLOSE_RCVD c) (MSG_CHANNEL_CLOSE r) []"
  by (auto simp: note_end_def got_def)

lemma recv_eof:
  assumes "proto2_env env" and "end_ok c"
  shows "\<exists>c' ms. deliver env (MSG_CHANNEL_EOF r) c = (Inr (), c') \<and> end_ok c' \<and> got c c' (MSG_CHANNEL_EOF r) ms"
proof -
  let ?g = "ce_compat env" and ?c = "note_end CHAN_EOF_RCVD c"
  have c20: "compat20 ?g" using assms(1) by (simp add: proto2_env_def)
  define c1 where "c1 = chan_rcvd_ieof ?g c"
  have "c1 = ?c \<or> c1 = chan_obuf_empty ?g ?c"
    by (auto simp: c1_def chan_rcvd_ieof_def chan_rcvd_eof2_def note_end_def chan_set_ostate_def c20 Let_def)
  then have o1: "own_ok ?c c1" using obuf_empty_ok [OF c20] by auto
  have o2: "own_ok c1 (input_ieof_chan env c)"
  proof (cases "ch_force_drain c1 \<and> ch_istate c1 = CHAN_INPUT_OPEN")
    case True
    let ?d = "c1\<lparr>ch_istate := CHAN_INPUT_WAIT_DRAIN\<rparr>"
    have "own_ok c1 ?d" using True by (intro own_ok_drain) simp
    also have "own_ok ?d (input_ieof_chan env c)"
      using True ibuf_empty_ok [OF c20] by (auto simp: input_ieof_chan_def c1_def [symmetric] Let_def)
    finally show ?thesis .
  qed (auto simp: input_ieof_chan_def c1_def Let_def)
  have "end_ok (input_ieof_chan env c) \<and> (\<exists>ms. got c (input_ieof_chan env c) (MSG_CHANNEL_EOF r) ms)"
    using assms(2) by (intro got_own [OF note_end_ok note_end_got(1) own_ok_trans [OF o1 o2]]) auto
  then show ?thesis by auto
qed

lemma own_ok_close_input:
  "ch_istate c = CHAN_INPUT_OPEN \<Longrightarrow> own_ok c ((chan_shutdown_read g c)\<lparr>ch_istate := CHAN_INPUT_CLOSED\<rparr>)"
proof -
  assume i: "ch_istate c = CHAN_INPUT_OPEN"
  have "own_ok c (chan_shutdown_read g c)" by (rule own_ok_view) simp_all
  also have "own_ok (chan_shutdown_read g c) ((chan_shutdown_read g c)\<lparr>ch_istate := CHAN_INPUT_CLOSED\<rparr>)"
    unfolding own_ok_def using i
    by (intro impI conjI exI [of _ "[]"]) (auto simp: end_defs moves_def)
  finally show ?thesis .
qed

lemma recv_close:
  assumes "proto2_env env" and "end_ok c"
  shows "\<exists>c' ms. deliver env (MSG_CHANNEL_CLOSE r) c = (Inr (), c') \<and> end_ok c' \<and> got c c' (MSG_CHANNEL_CLOSE r) ms"
proof -
  let ?g = "ce_compat env" and ?c = "note_end CHAN_CLOSE_RCVD c"
  define c1 where "c1 = chan_rcvd_close2 ?g c"
  have p: "\<not> has_flag CHAN_LOCAL c" "ch_type c \<noteq> SSH_CHANNEL_LARVAL"
    using assms(2) by (auto simp: end_defs SSH_CHANNEL_OPEN_def SSH_CHANNEL_LARVAL_def)
  have f: "has_flag CHAN_CLOSE_RCVD ?c" "\<not> has_flag CHAN_LOCAL ?c" using p by (simp_all add: note_end_def)
  have c1: "c1 = (case ch_istate ?c of
      CHAN_INPUT_OPEN \<Rightarrow> (chan_shutdown_read ?g ?c)\<lparr>ch_istate := CHAN_INPUT_CLOSED\<rparr>
    | CHAN_INPUT_WAIT_DRAIN \<Rightarrow>
        (set_flag CHAN_EOF_SENT (emit (MSG_CHANNEL_EOF (ch_remote_id ?c)) ?c))\<lparr>ch_istate := CHAN_INPUT_CLOSED\<rparr>
    | _ \<Rightarrow> ?c)"
    using p
    by (cases "ch_istate c"; cases "ch_ostate c")
      (simp_all add: c1_def chan_rcvd_close2_def note_end_def chan_set_ostate_def chan_set_istate_def chan_send_eof2_def Let_def)
  have "own_ok ?c c1"
    unfolding c1 using own_ok_close_input [of ?c] own_ok_send_eof [of ?c] f by (auto split: istate.split)
  then have "end_ok c1 \<and> (\<exists>ms. got c c1 (MSG_CHANNEL_CLOSE r) ms)"
    using assms(2) by (intro got_own [OF note_end_ok note_end_got(2)]) auto
  then show ?thesis
    using assms(1) by (auto simp: input_oclose_chan_def packet_check_eom_def chan_rcvd_oclose_def proto2_env_def c1_def)
qed

lemma recv_eow:
  assumes "end_ok c"
  shows "\<exists>c' ms. deliver env (MSG_CHANNEL_EOW r) c = (Inr (), c') \<and> end_ok c' \<and> got c c' (MSG_CHANNEL_EOW r) ms"
proof -
  have "own_ok c (chan_rcvd_eow (ce_compat env) c)"
    using own_ok_close_input by (auto simp: chan_rcvd_eow_def chan_set_istate_def split: istate.split)
  then obtain ms where "end_ok (chan_rcvd_eow (ce_compat env) c)" "moves c (chan_rcvd_eow (ce_compat env) c) ms"
    using assms unfolding own_ok_def by blast
  then show ?thesis using moves_got [of c _ ms "MSG_CHANNEL_EOW r"] by auto
qed

section \<open>The invariant of the connection\<close>

text \<open>
  One direction: \<open>b\<close> has handled \<open>nb\<close> messages of \<open>a\<close>, and \<open>a\<close> has handled \<open>na\<close> messages of \<open>b\<close>. What
  \<open>a\<close> may still send, what is on its way to \<open>b\<close> and the credit on its way to \<open>a\<close> fit into the window
  of \<open>b\<close>.
\<close>

definition toward :: "channel \<Rightarrow> channel \<Rightarrow> nat \<Rightarrow> nat \<Rightarrow> bool" where
  "toward a b na nb \<longleftrightarrow> nb \<le> length (msgs a) \<and>
     unat (ch_remote_window a) + load (drop nb (msgs a)) + adjusts (drop na (msgs b)) \<le> unat (ch_local_window b) \<and>
     has_flag CHAN_EOF_RCVD b = list_ex is_eof (take nb (msgs a)) \<and>
     has_flag CHAN_CLOSE_RCVD b = list_ex is_close (take nb (msgs a)) \<and>
     prefix (written b @ ch_output b) (concat (map data_of (take nb (msgs a)))) \<and>
     (ch_ostate b \<noteq> CHAN_OUTPUT_CLOSED \<longrightarrow>
        written b @ ch_output b = concat (map data_of (take nb (msgs a))))"

definition link_ok :: "link \<Rightarrow> bool" where
  "link_ok l \<longleftrightarrow> end_ok (end_a l) \<and> end_ok (end_b l) \<and>
     toward (end_a l) (end_b l) (got_a l) (got_b l) \<and> toward (end_b l) (end_a l) (got_b l) (got_a l)"

lemma toward_own:
  assumes "moves a a' ms" and "toward a b na nb" and "toward b a nb na"
  shows "toward a' b na nb \<and> toward b a' nb na"
  using assms unfolding toward_def moves_def by (auto intro: prefix_order.trans)

lemma toward_recv:
  assumes "got b b' (msgs a ! nb) ms" and "nb < length (msgs a)" and "toward a b na nb" and "toward b a nb na"
    and "is_data (msgs a ! nb) \<Longrightarrow> ch_ostate b \<noteq> CHAN_OUTPUT_CLOSED \<Longrightarrow> ch_ostate b = CHAN_OUTPUT_OPEN"
  shows "toward a b' na (Suc nb) \<and> toward b' a (Suc nb) na"
proof -
  have d: "drop nb (msgs a) = msgs a ! nb # drop (Suc nb) (msgs a)"
    and t: "take (Suc nb) (msgs a) = take nb (msgs a) @ [msgs a ! nb]"
    using assms(2) by (simp_all add: Cons_nth_drop_Suc take_Suc_conv_app_nth)
  let ?m = "msgs a ! nb" and ?D = "concat (map data_of (take nb (msgs a)))"
  have g: "msgs b' = msgs b @ ms" "unat (ch_remote_window b') + load ms = unat (ch_remote_window b) + adjust_of ?m"
      "unat (ch_local_window b) + adjusts ms \<le> unat (ch_local_window b') + load_of ?m"
      "has_flag CHAN_EOF_RCVD b' = (has_flag CHAN_EOF_RCVD b \<or> is_eof ?m)"
      "has_flag CHAN_CLOSE_RCVD b' = (has_flag CHAN_CLOSE_RCVD b \<or> is_close ?m)"
    and go: "ch_ostate b = CHAN_OUTPUT_CLOSED \<longrightarrow> ch_ostate b' = CHAN_OUTPUT_CLOSED"
    and gp: "prefix (written b' @ ch_output b')
       (written b @ ch_output b @ (if ch_ostate b = CHAN_OUTPUT_CLOSED then [] else data_of ?m))"
    and ge: "ch_ostate b' \<noteq> CHAN_OUTPUT_CLOSED \<and> (is_data ?m \<longrightarrow> ch_ostate b = CHAN_OUTPUT_OPEN) \<longrightarrow>
        written b' @ ch_output b' = written b @ ch_output b @ data_of ?m"
    using assms(1) unfolding got_def by blast+
  have ab: "unat (ch_remote_window a) + load (drop nb (msgs a)) + adjusts (drop na (msgs b)) \<le> unat (ch_local_window b)"
      "has_flag CHAN_EOF_RCVD b = list_ex is_eof (take nb (msgs a))"
      "has_flag CHAN_CLOSE_RCVD b = list_ex is_close (take nb (msgs a))"
    and ap: "prefix (written b @ ch_output b) ?D"
    and ae: "ch_ostate b \<noteq> CHAN_OUTPUT_CLOSED \<longrightarrow> written b @ ch_output b = ?D"
    using assms(3) unfolding toward_def by blast+
  have ba: "na \<le> length (msgs b)"
      "unat (ch_remote_window b) + load (drop na (msgs b)) + adjusts (drop nb (msgs a)) \<le> unat (ch_local_window a)"
    using assms(4) unfolding toward_def by blast+
  have p: "prefix (written b' @ ch_output b') (?D @ data_of ?m)"
  proof (cases "ch_ostate b = CHAN_OUTPUT_CLOSED")
    case True
    then have "prefix (written b' @ ch_output b') ?D" using gp ap prefix_order.trans by auto
    then show ?thesis by simp
  next
    case False
    then show ?thesis using gp ae by (metis append_assoc)
  qed
  have q: "written b' @ ch_output b' = ?D @ data_of ?m" if "ch_ostate b' \<noteq> CHAN_OUTPUT_CLOSED"
    using that ge go ae assms(5) by (metis append_assoc)
  have "unat (ch_remote_window a) + load (drop (Suc nb) (msgs a)) + adjusts (drop na (msgs b'))
      \<le> unat (ch_local_window b')"
    using g(1,3) ab(1) ba(1) by (simp add: d)
  then have "toward a b' na (Suc nb)"
    using g(4,5) ab(2,3) assms(2) p q unfolding toward_def t by simp
  moreover have "unat (ch_remote_window b') + load (drop na (msgs b')) + adjusts (drop (Suc nb) (msgs a))
      \<le> unat (ch_local_window a)"
    using g(1,2) ba by (simp add: d)
  then have "toward b' a (Suc nb) na"
    using assms(4) g(1) ba(1) unfolding toward_def by simp
  ultimately show ?thesis ..
qed

text \<open>Every message of the peer is handled without ending the process.\<close>

lemma recv_ok:
  assumes "proto2_env env" and "end_ok a" and "end_ok b" and "nb < length (msgs a)"
    and "toward a b na nb" and "toward b a nb na"
  shows "\<exists>b' ms. deliver env (msgs a ! nb) b = (Inr (), b') \<and> end_ok b' \<and> got b b' (msgs a ! nb) ms"
    and "load_of (msgs a ! nb) \<le> unat (ch_local_window b)"
    and "is_data (msgs a ! nb) \<Longrightarrow> ch_ostate b \<noteq> CHAN_OUTPUT_CLOSED \<Longrightarrow> ch_ostate b = CHAN_OUTPUT_OPEN"
proof -
  let ?m = "msgs a ! nb"
  have d: "drop nb (msgs a) = ?m # drop (Suc nb) (msgs a)" using assms(4) by (simp add: Cons_nth_drop_Suc)
  have o: "orderly (msgs a)" using assms(2) by (simp add: end_ok_def log_ok_def)
  have win: "unat (ch_remote_window a) + load (drop nb (msgs a)) + adjusts (drop na (msgs b)) \<le> unat (ch_local_window b)"
      "unat (ch_remote_window b) + load (drop na (msgs b)) + adjusts (drop nb (msgs a)) \<le> unat (ch_local_window a)"
    and fl: "has_flag CHAN_EOF_RCVD b = list_ex is_eof (take nb (msgs a))"
      "has_flag CHAN_CLOSE_RCVD b = list_ex is_close (take nb (msgs a))"
    using assms(5,6) unfolding toward_def by blast+
  show ld: "load_of ?m \<le> unat (ch_local_window b)" using win(1) d by simp
  have ad: "unat (ch_remote_window b) + adjust_of ?m < 2 ^ 32"
    using win(2) d unsigned_less [of "ch_local_window a", where ?'a = nat] by simp
  have nc: "\<not> has_flag CHAN_CLOSE_RCVD b" using fl(2) orderly_after_close [OF o, of nb] assms(4) by auto
  have ne: "is_data ?m \<Longrightarrow> \<not> has_flag CHAN_EOF_RCVD b" using fl(1) orderly_after_eof [OF o assms(4)] by blast
  show "is_data ?m \<Longrightarrow> ch_ostate b \<noteq> CHAN_OUTPUT_CLOSED \<Longrightarrow> ch_ostate b = CHAN_OUTPUT_OPEN"
    using assms(3) nc ne by (cases "ch_ostate b") (auto simp: end_ok_def halves_ok_def)
  have "flow_msg ?m" using nth_mem [OF assms(4)] by (simp add: msgs_def)
  then show "\<exists>b' ms. deliver env ?m b = (Inr (), b') \<and> end_ok b' \<and> got b b' ?m ms"
  proof (cases ?m)
    case (MSG_CHANNEL_DATA r bs)
    then show ?thesis using recv_data [OF assms(1,3), of bs r] ld by auto
  next
    case (MSG_CHANNEL_EXTENDED_DATA r k bs)
    then show ?thesis using recv_extended [OF assms(1,3), of bs r k] ld ne by auto
  next
    case (MSG_CHANNEL_WINDOW_ADJUST r n)
    then show ?thesis using recv_adjust [OF assms(3), of n env r] ad by auto
  next
    case (MSG_CHANNEL_EOF r)
    then show ?thesis using recv_eof [OF assms(1,3), of r] by auto
  next
    case (MSG_CHANNEL_CLOSE r)
    then show ?thesis using recv_close [OF assms(1,3), of r] by auto
  next
    case (MSG_CHANNEL_EOW r)
    then show ?thesis using recv_eow [OF assms(3), of env r] by auto
  qed simp_all
qed

lemma recv_step_ok:
  assumes "proto2_env env" and "end_ok a" and "end_ok b" and "nb < length (msgs a)"
    and "toward a b na nb" and "toward b a nb na" and "deliver env (msgs a ! nb) b = (Inr (), b')"
  shows "end_ok b' \<and> toward a b' na (Suc nb) \<and> toward b' a (Suc nb) na"
proof -
  obtain ms where "end_ok b'" "got b b' (msgs a ! nb) ms" using recv_ok(1) [OF assms(1-6)] assms(7) by auto
  then show ?thesis using toward_recv [OF _ assms(4-6) recv_ok(3) [OF assms(1-6)]] by blast
qed

lemma own_step_toward:
  assumes "proto2_env env" and "own_step env a a'" and "end_ok a" and "toward a b na nb" and "toward b a nb na"
  shows "end_ok a' \<and> toward a' b na nb \<and> toward b a' nb na"
  using own_step_ok [OF assms(2,1)] assms(3) toward_own [OF _ assms(4,5)] unfolding own_ok_def by blast

lemma opened_ok: "opened l \<Longrightarrow> link_ok l"
  by (auto simp: opened_def fresh_def link_ok_def end_defs toward_def log_defs has_flag_def)

lemma link_step_ok:
  assumes "link_step ea eb l l'" and "proto2_env ea" and "proto2_env eb" and "link_ok l"
  shows "link_ok l'"
  using assms(1)
proof (cases rule: link_step.cases)
  case (a_own a)
  then show ?thesis using own_step_toward [OF assms(2), of "end_a l" a "end_b l" "got_a l" "got_b l"] assms(4) by (simp add: link_ok_def)
next
  case (b_own b)
  then show ?thesis using own_step_toward [OF assms(3), of "end_b l" b "end_a l" "got_b l" "got_a l"] assms(4) by (simp add: link_ok_def)
next
  case (a_recv a)
  then show ?thesis using recv_step_ok [OF assms(2), of "end_b l" "end_a l" "got_a l" "got_b l" a] assms(4) by (simp add: link_ok_def)
next
  case (b_recv b)
  then show ?thesis using recv_step_ok [OF assms(3), of "end_a l" "end_b l" "got_b l" "got_a l" b] assms(4) by (simp add: link_ok_def)
qed

interpretation lk: transition_invariant "\<lambda>l. proto2_env ea \<and> proto2_env eb \<and> opened l" "link_step ea eb"
  "\<lambda>l. proto2_env ea \<and> proto2_env eb \<and> link_ok l" for ea eb
  by unfold_locales (auto intro: opened_ok link_step_ok)

section \<open>Properties of the connection\<close>

text \<open>The lemmas are stated for the direction from \<open>a\<close> to \<open>b\<close>; the other one is its mirror image.\<close>

lemma link_reach: "opened l \<Longrightarrow> (link_step ea eb)\<^sup>*\<^sup>* l l' \<Longrightarrow> proto2_env ea \<Longrightarrow> proto2_env eb \<Longrightarrow> link_ok l'"
  using lk.reachable_inv [of ea eb l l'] by blast

lemma link_grows:
  assumes "(link_step ea eb)\<^sup>*\<^sup>* l l'" and "link_ok l" and "proto2_env ea" and "proto2_env eb"
  shows "prefix (msgs (end_b l)) (msgs (end_b l')) \<and> ch_local_window_max (end_b l') = ch_local_window_max (end_b l)"
  using assms(1,2)
proof (induction rule: rtranclp_induct)
  case (step y z)
  then have ok: "link_ok y" using lk.steps_inv [of ea eb l y] assms by blast
  have "prefix (msgs (end_b y)) (msgs (end_b z)) \<and> ch_local_window_max (end_b z) = ch_local_window_max (end_b y)"
    using step(2)
  proof (cases rule: link_step.cases)
    case (b_own b)
    then show ?thesis using own_step_ok [OF b_own(2) assms(4)] ok by (auto simp: own_ok_def moves_def link_ok_def)
  next
    case (b_recv b)
    then show ?thesis
      using recv_ok(1) [OF assms(4), of "end_a y" "end_b y" "got_b y" "got_a y"] ok by (auto simp: got_def link_ok_def)
  qed simp_all
  then show ?case using step prefix_order.trans by auto
qed simp

lemma no_data_after_eof:
  assumes "orderly ms" and "list_ex is_eof (take n ms)"
  shows "concat (map data_of (drop n ms)) = []"
proof -
  have "\<not> is_data x" if "x \<in> set (drop n ms)" for x
  proof -
    obtain i where "i < length ms - n" "x = ms ! (n + i)" using \<open>x \<in> set (drop n ms)\<close> by (auto simp: in_set_conv_nth)
    moreover have "list_ex is_eof (take (n + i) ms)" using assms(2) by (simp add: take_add)
    ultimately show ?thesis using orderly_after_eof [OF assms(1), of "n + i"] by auto
  qed
  then have "data_of x = []" if "x \<in> set (drop n ms)" for x using that data_of_not_data by blast
  then show ?thesis by (simp add: concat_eq_Nil_conv)
qed

section \<open>Running the connection\<close>

text \<open>
  The steps as a function of what is to be done, to run the connection on concrete inputs: \<open>True\<close>
  selects the end \<open>a\<close>.
\<close>

datatype act = Select chan_ready | Poll | Read_failed | Collect | Recv

fun own_act :: "chan_env \<Rightarrow> act \<Rightarrow> channel \<Rightarrow> channel option" where
  "own_act env (Select s) c =
     (case channel_pre_open env c of
        (c1, rs, ws) \<Rightarrow>
          if set (rd_set s) \<subseteq> set rs \<and> set (wr_set s) \<subseteq> set ws then
            (case channel_post_open env s c1 of (Inr _, c') \<Rightarrow> Some c' | _ \<Rightarrow> None)
          else None)"
| "own_act env Poll c = (case output_poll_chan env c of (Inr _, c') \<Rightarrow> Some c' | _ \<Rightarrow> None)"
| "own_act env Read_failed c = Some (chan_read_failed (ce_compat env) c)"
| "own_act env Collect c = Some (snd (chan_is_dead (ce_compat env) c True))"
| "own_act env Recv c = None"

definition recv_act :: "chan_env \<Rightarrow> channel \<Rightarrow> nat \<Rightarrow> channel \<Rightarrow> channel option" where
  "recv_act env a n b =
     (if n < length (msgs a) then case deliver env (msgs a ! n) b of (Inr _, b') \<Rightarrow> Some b' | _ \<Rightarrow> None else None)"

fun link_act :: "chan_env \<Rightarrow> chan_env \<Rightarrow> bool \<times> act \<Rightarrow> link \<Rightarrow> link option" where
  "link_act ea eb (True, Recv) l =
     map_option (\<lambda>a. l\<lparr>end_a := a, got_a := Suc (got_a l)\<rparr>) (recv_act ea (end_b l) (got_a l) (end_a l))"
| "link_act ea eb (False, Recv) l =
     map_option (\<lambda>b. l\<lparr>end_b := b, got_b := Suc (got_b l)\<rparr>) (recv_act eb (end_a l) (got_b l) (end_b l))"
| "link_act ea eb (True, act) l = map_option (\<lambda>a. l\<lparr>end_a := a\<rparr>) (own_act ea act (end_a l))"
| "link_act ea eb (False, act) l = map_option (\<lambda>b. l\<lparr>end_b := b\<rparr>) (own_act eb act (end_b l))"

primrec link_run :: "chan_env \<Rightarrow> chan_env \<Rightarrow> (bool \<times> act) list \<Rightarrow> link \<Rightarrow> link option" where
  "link_run ea eb [] l = Some l"
| "link_run ea eb (x # xs) l = (case link_act ea eb x l of None \<Rightarrow> None | Some l' \<Rightarrow> link_run ea eb xs l')"

lemma own_act_step: "own_act env act c = Some c' \<Longrightarrow> own_step env c c'"
  by (cases act)
    (auto intro: own_step.intros split: prod.splits sum.splits if_splits simp: unit_eq)

lemma link_act_step: "link_act ea eb x l = Some l' \<Longrightarrow> link_step ea eb l l'"
  by (cases "(ea, eb, x, l)" rule: link_act.cases)
    (auto simp: recv_act_def simp del: own_act.simps dest!: own_act_step intro: link_step.intros
      split: if_splits prod.splits sum.splits)

lemma link_run_steps: "link_run ea eb xs l = Some l' \<Longrightarrow> (link_step ea eb)\<^sup>*\<^sup>* l l'"
  by (induction xs arbitrary: l)
    (auto split: option.splits dest: link_act_step intro: converse_rtranclp_into_rtranclp)

text \<open>A run in which \<open>a\<close> sends two bytes and both ends close the channel.\<close>

definition link_env :: chan_env where
  "link_env = \<lparr>ce_compat = proto2, ce_compat13 = False, ce_maxsize = 32768, ce_interactive = False,
     ce_infilter = (\<lambda>_ c _. (True, c)), ce_outfilter = (\<lambda>_ c. (None, c)), ce_noecho = False\<rparr>"

definition link0 :: link where
  "link0 = \<lparr>end_a = fresh_channel, end_b = fresh_channel\<lparr>ch_remote_id := 0\<rparr>, got_a = 0, got_b = 0\<rparr>"

definition ready0 :: chan_ready where
  "ready0 = \<lparr>rd_set = [], wr_set = [], rd_rfd = RD_EAGAIN, wr_wfd = WR_AGAIN, rd_efd = RD_EAGAIN, wr_efd = WR_AGAIN\<rparr>"

definition run1 :: "(bool \<times> act) list" where
  "run1 = [(True, Select (ready0\<lparr>rd_set := [3], rd_rfd := RD [104, 105]\<rparr>)), (True, Read_failed), (True, Poll), (True, Poll)]"

definition run2 :: "(bool \<times> act) list" where
  "run2 = run1 @ [(False, Recv), (False, Recv), (False, Select (ready0\<lparr>wr_set := [4], wr_wfd := WR 2\<rparr>))]"

definition run3 :: "(bool \<times> act) list" where
  "run3 = run2 @ [(False, Select ready0), (False, Read_failed), (False, Poll), (False, Collect), (True, Recv), (True, Recv)]"

lemma link0_opened: "opened link0" "proto2_env link_env"
  by (simp_all add: opened_def fresh_def plain_def fds_ok_def has_flag_def link0_def fresh_channel_def
      SSH_CHANNEL_OPEN_def SSHBUF_SIZE_MAX_def proto2_env_def link_env_def proto2_def)

lemma run_to:
  assumes "map_option f (link_run link_env link_env xs link0) = Some v"
  obtains l where "(link_step link_env link_env)\<^sup>*\<^sup>* link0 l" and "f l = v"
proof -
  from assms obtain l where "link_run link_env link_env xs link0 = Some l" "f l = v" by auto
  then show ?thesis using link_run_steps that by blast
qed

section \<open>Theorems\<close>

text \<open>
  C5. Between two ends that run the handlers of \<open>channels.c\<close> and \<open>nchan.c\<close>, in every reachable state
  the next message of one end is handled by the other without \<open>fatal\<close> or \<open>packet_disconnect\<close>, and if
  it carries data the data fits into the window the receiver has granted, so that nothing is dropped
  as "too much data" and no window adjustment overflows.
\<close>

theorem channel_messages_accepted:
  assumes "opened l" and "(link_step ea eb)\<^sup>*\<^sup>* l l'" and "proto2_env ea" and "proto2_env eb"
    and "got_b l' < length (msgs (end_a l'))"
  shows "load_of (msgs (end_a l') ! got_b l') \<le> unat (ch_local_window (end_b l')) \<and>
    (\<exists>b. deliver eb (msgs (end_a l') ! got_b l') (end_b l') = (Inr (), b))"
proof -
  have "link_ok l'" using link_reach assms(1-4) by blast
  then show ?thesis
    using recv_ok(1,2) [OF assms(4) _ _ assms(5), of "end_b l'" "got_a l'"] unfolding link_ok_def by blast
qed

lemma channel_messages_accepted_witness:
  "\<exists>l. (link_step link_env link_env)\<^sup>*\<^sup>* link0 l \<and> msgs (end_a l) ! got_b l = MSG_CHANNEL_DATA 7 [104, 105] \<and>
     (\<exists>b. deliver link_env (MSG_CHANNEL_DATA 7 [104, 105]) (end_b l) = (Inr (), b))"
proof -
  have "map_option (\<lambda>l. (got_b l, msgs (end_a l))) (link_run link_env link_env run1 link0) =
      Some (0, [MSG_CHANNEL_DATA 7 [104, 105], MSG_CHANNEL_EOF 7])"
    by code_simp
  then obtain l where l: "(link_step link_env link_env)\<^sup>*\<^sup>* link0 l"
      "got_b l = 0" "msgs (end_a l) = [MSG_CHANNEL_DATA 7 [104, 105], MSG_CHANNEL_EOF 7]"
    by (elim run_to) auto
  then show ?thesis using channel_messages_accepted [OF link0_opened(1) l(1) link0_opened(2,2)] by auto
qed

text \<open>
  C6. Flow control: what an end may still send, the data on its way and the credit on its way back
  never exceed the window its peer has granted; and that window, the consumed bytes not yet granted
  again and the bytes buffered for the descriptors never exceed the maximum the channel was opened
  with, so that the buffers of the receiver are bounded.
\<close>

theorem channel_window_conserved:
  assumes "opened l" and "(link_step ea eb)\<^sup>*\<^sup>* l l'" and "proto2_env ea" and "proto2_env eb"
  shows "unat (ch_remote_window (end_a l')) + load (drop (got_b l') (msgs (end_a l'))) +
      adjusts (drop (got_a l') (msgs (end_b l'))) \<le> unat (ch_local_window (end_b l')) \<and>
    unat (ch_local_window (end_b l')) + unat (ch_local_consumed (end_b l')) + held (end_b l')
      \<le> unat (ch_local_window_max (end_b l))"
proof -
  have "link_ok l'" using link_reach assms by blast
  moreover have "ch_local_window_max (end_b l') = ch_local_window_max (end_b l)"
    using link_grows [OF assms(2) opened_ok [OF assms(1)] assms(3,4)] by blast
  ultimately show ?thesis by (simp add: link_ok_def toward_def end_ok_def charged_def)
qed

lemma channel_window_conserved_witness:
  "\<exists>l. (link_step link_env link_env)\<^sup>*\<^sup>* link0 l \<and> unat (ch_remote_window (end_a l)) = 998 \<and> held (end_b l) \<le> 1000"
proof -
  have "map_option (\<lambda>l. unat (ch_remote_window (end_a l))) (link_run link_env link_env run1 link0) = Some 998"
    by code_simp
  then obtain l where l: "(link_step link_env link_env)\<^sup>*\<^sup>* link0 l" "unat (ch_remote_window (end_a l)) = 998"
    by (elim run_to)
  have "unat (ch_local_window_max (end_b link0)) = 1000" by (simp add: link0_def fresh_channel_def)
  then show ?thesis using channel_window_conserved [OF link0_opened(1) l(1) link0_opened(2,2)] l by auto
qed



text \<open>
  C9. When an end has received CLOSE, it has handled every message of its peer, and the peer will
  never send another one for this channel: a channel that is freed after the close handshake leaves
  no message behind that would find no channel and end the connection.
\<close>

theorem channel_close_is_last:
  assumes "opened l" and "(link_step ea eb)\<^sup>*\<^sup>* l l'" and "(link_step ea eb)\<^sup>*\<^sup>* l' l''"
    and "proto2_env ea" and "proto2_env eb" and "has_flag CHAN_CLOSE_RCVD (end_a l')"
  shows "got_a l' = length (msgs (end_b l')) \<and> msgs (end_b l'') = msgs (end_b l')"
proof -
  have ok: "link_ok l'" "link_ok l''" using link_reach assms rtranclp_trans by metis+
  obtain ms where ms: "msgs (end_b l'') = msgs (end_b l') @ ms"
    using link_grows [OF assms(3) ok(1) assms(4,5)] by (auto simp: prefix_def)
  have b: "got_a l' \<le> length (msgs (end_b l'))" "list_ex is_close (take (got_a l') (msgs (end_b l')))"
    using ok(1) assms(6) by (auto simp: link_ok_def toward_def)
  have "orderly (msgs (end_b l'))" "orderly (msgs (end_b l') @ ms)"
    using ok ms by (simp_all add: link_ok_def end_ok_def log_ok_def)
  then have "got_a l' = length (msgs (end_b l'))" "got_a l' = length (msgs (end_b l') @ ms)"
    using orderly_after_close b by (fastforce, fastforce)
  then show ?thesis using ms by simp
qed

lemma channel_close_is_last_witness:
  "\<exists>l. (link_step link_env link_env)\<^sup>*\<^sup>* link0 l \<and> has_flag CHAN_CLOSE_RCVD (end_a l) \<and>
     got_a l = length (msgs (end_b l)) \<and> (\<forall>l'. (link_step link_env link_env)\<^sup>*\<^sup>* l l' \<longrightarrow> msgs (end_b l') = msgs (end_b l))"
proof -
  have "map_option (\<lambda>l. has_flag CHAN_CLOSE_RCVD (end_a l)) (link_run link_env link_env run3 link0) = Some True"
    by code_simp
  then obtain l where l: "(link_step link_env link_env)\<^sup>*\<^sup>* link0 l" "has_flag CHAN_CLOSE_RCVD (end_a l)"
    by (elim run_to) auto
  note last = channel_close_is_last [OF link0_opened(1) l(1) _ link0_opened(2,2) l(2)]
  show ?thesis using l last [OF rtranclp.rtrancl_refl] last by blast
qed

end
