(* ===== verification/Match.thy ===== *)
theory Match
  imports Prelude "HOL-Library.Sublist"
begin

text \<open>
  The pattern and name-list functions of \<open>match.c\<close>, on strings without their terminating NUL.
  \<open>match_pattern\<close> keeps the structure of the code, the two inner loops being mutually
  recursive with it, and is compared with the language \<open>glob\<close> of a wildcard pattern. The
  interface \<open>negatable_list\<close> states what the pattern lists with \<open>!\<close> entries promise; it is
  implemented here by \<open>match_pattern_list\<close> and in \<open>Addrmatch\<close> by \<open>addr_match_list\<close>.
\<close>

section \<open>strsep and tokens\<close>

definition strsep :: "char \<Rightarrow> string option \<Rightarrow> string option \<times> string option" where
  "strsep d sp =
     (case sp of
        None \<Rightarrow> (None, None)
      | Some s \<Rightarrow> (Some (takeWhile (\<lambda>c. c \<noteq> d) s),
                   case dropWhile (\<lambda>c. c \<noteq> d) s of [] \<Rightarrow> None | _ # r \<Rightarrow> Some r))"

text \<open>The bound of a loop over \<open>strsep\<close>.\<close>

definition sep_size :: "string option \<Rightarrow> nat" where
  "sep_size sp = (case sp of None \<Rightarrow> 0 | Some s \<Rightarrow> Suc (length s))"

lemma strsep_size_eq:
  assumes "strsep d sp = (Some p, sp')"
  shows "sep_size sp = Suc (length p + sep_size sp')"
proof -
  obtain s where s: "sp = Some s" using assms by (cases sp) (auto simp: strsep_def)
  have "length s = length (takeWhile (\<lambda>c. c \<noteq> d) s) + length (dropWhile (\<lambda>c. c \<noteq> d) s)"
    by (metis length_append takeWhile_dropWhile_id)
  then show ?thesis using assms unfolding s
    by (cases "dropWhile (\<lambda>c. c \<noteq> d) s")
      (auto simp: strsep_def sep_size_def simp del: dropWhile_eq_Nil_conv)
qed

lemma strsep_size: "strsep d sp = (Some p, sp') \<Longrightarrow> sep_size sp' < sep_size sp"
  by (simp add: strsep_size_eq)

text \<open>All tokens that successive calls of \<open>strsep\<close> return.\<close>

function tokens_from :: "char \<Rightarrow> string option \<Rightarrow> string list" where
  "tokens_from d sp =
     (case strsep d sp of (None, _) \<Rightarrow> [] | (Some p, sp') \<Rightarrow> p # tokens_from d sp')"
  by auto
termination by (relation "measure (sep_size \<circ> snd)") (auto simp: strsep_size dest: sym)

declare tokens_from.simps [simp del]

abbreviation tokens :: "string \<Rightarrow> string list" where
  "tokens s \<equiv> tokens_from CHR '','' (Some s)"

lemma tokens_from_None [simp]: "tokens_from d None = []"
  by (simp add: tokens_from.simps strsep_def)

lemma tokens_Nil [simp]: "tokens_from d (Some []) = [[]]"
  by (simp add: tokens_from.simps strsep_def)

lemma tokens_unfold:
  "tokens_from d (Some s) = takeWhile (\<lambda>c. c \<noteq> d) s #
     (case dropWhile (\<lambda>c. c \<noteq> d) s of [] \<Rightarrow> [] | _ # r \<Rightarrow> tokens_from d (Some r))"
  by (subst tokens_from.simps, cases "dropWhile (\<lambda>c. c \<noteq> d) s")
    (simp_all add: strsep_def del: dropWhile_eq_Nil_conv)

lemma tokens_no_sep:
  assumes "t \<in> set (tokens_from d sp)"
  shows "d \<notin> set t"
  using assms
proof (induction d sp rule: tokens_from.induct)
  case (1 d sp)
  obtain r sp' where r: "strsep d sp = (r, sp')" by force
  show ?case
  proof (cases r)
    case None
    then show ?thesis using "1.prems" r unfolding tokens_from.simps [of d sp] by simp
  next
    case (Some p)
    have "d \<notin> set p"
      using r Some by (auto simp: strsep_def split: option.splits dest: set_takeWhileD)
    moreover have "t = p \<or> t \<in> set (tokens_from d sp')"
      using "1.prems" r Some unfolding tokens_from.simps [of d sp] by simp
    ultimately show ?thesis using "1.IH" [OF r [symmetric] Some] by blast
  qed
qed

primrec join :: "char \<Rightarrow> string list \<Rightarrow> string" where
  "join d [] = []"
| "join d (t # ts) = t @ (if ts = [] then [] else d # join d ts)"

lemma tokens_append_sep:
  assumes "d \<notin> set t"
  shows "tokens_from d (Some (t @ d # s)) = t # tokens_from d (Some s)"
proof -
  have "\<And>x. x \<in> set t \<Longrightarrow> x \<noteq> d" using assms by auto
  then show ?thesis by (subst tokens_unfold) simp
qed

lemma tokens_single:
  assumes "d \<notin> set t"
  shows "tokens_from d (Some t) = [t]"
proof -
  have "takeWhile (\<lambda>c. c \<noteq> d) t = t" "dropWhile (\<lambda>c. c \<noteq> d) t = []" using assms by auto
  then show ?thesis unfolding tokens_unfold [of d t] by (simp only: list.case)
qed

text \<open>Splitting a joined list gives the list back.\<close>

lemma tokens_join:
  assumes "ts \<noteq> []" and "\<And>t. t \<in> set ts \<Longrightarrow> d \<notin> set t"
  shows "tokens_from d (Some (join d ts)) = ts"
  using assms
proof (induction ts)
  case Nil
  then show ?case by simp
next
  case (Cons t ts)
  then show ?case by (cases "ts = []") (simp_all add: tokens_single tokens_append_sep)
qed

lemma tokens_append:
  "tokens_from d (Some (a @ d # s)) = tokens_from d (Some a) @ tokens_from d (Some s)"
proof (induction "length a" arbitrary: a rule: less_induct)
  case less
  show ?case
  proof (cases "d \<in> set a")
    case False
    then show ?thesis by (simp add: tokens_append_sep tokens_single)
  next
    case True
    then obtain u v where a: "a = u @ d # v" "d \<notin> set u" by (metis split_list_first)
    then show ?thesis using less [of v] by (simp add: tokens_append_sep)
  qed
qed

section \<open>match_pattern\<close>

function match_pattern :: "string \<Rightarrow> string \<Rightarrow> bool"
  and star_known :: "string \<Rightarrow> string \<Rightarrow> bool"
  and star_any :: "string \<Rightarrow> string \<Rightarrow> bool" where
  "match_pattern s pattern =
     (case pattern of
        [] \<Rightarrow> s = []
      | p # ps \<Rightarrow>
          if p = CHR ''*'' then
            if ps = [] then True
            else if hd ps \<noteq> CHR ''?'' \<and> hd ps \<noteq> CHR ''*'' then star_known s ps
            else star_any s ps
          else (case s of
                  [] \<Rightarrow> False
                | c # s' \<Rightarrow> if p \<noteq> CHR ''?'' \<and> p \<noteq> c then False else match_pattern s' ps))"
| "star_known s pattern =
     (case s of
        [] \<Rightarrow> False
      | c # s' \<Rightarrow> if pattern \<noteq> [] \<and> c = hd pattern \<and> match_pattern s' (tl pattern) then True
                  else star_known s' pattern)"
| "star_any s pattern =
     (case s of
        [] \<Rightarrow> False
      | c # s' \<Rightarrow> if match_pattern (c # s') pattern then True else star_any s' pattern)"
  by pat_completeness auto
termination
  by (relation "inv_image (less_than <*lex*> less_than <*lex*> less_than)
       (\<lambda>x. case x of Inl (s, p) \<Rightarrow> (length p, length s, 0)
            | Inr (Inl (s, p)) \<Rightarrow> (length p, length s, 1 :: nat)
            | Inr (Inr (s, p)) \<Rightarrow> (length p, length s, 1))") auto

declare match_pattern.simps [simp del] star_known.simps [simp del] star_any.simps [simp del]

text \<open>The language of a pattern: \<open>*\<close> matches zero or more characters, \<open>?\<close> exactly one.\<close>

primrec glob :: "string \<Rightarrow> string \<Rightarrow> bool" where
  "glob [] s \<longleftrightarrow> s = []"
| "glob (p # ps) s \<longleftrightarrow>
     (if p = CHR ''*'' then \<exists>v. suffix v s \<and> glob ps v
      else \<exists>c s'. s = c # s' \<and> (p = CHR ''?'' \<or> p = c) \<and> glob ps s')"

lemma match_pattern_Nil: "match_pattern s [] \<longleftrightarrow> s = []"
  by (simp add: match_pattern.simps)

lemma match_pattern_step:
  "p \<noteq> CHR ''*'' \<Longrightarrow> match_pattern s (p # ps) \<longleftrightarrow>
     (\<exists>c s'. s = c # s' \<and> (p = CHR ''?'' \<or> p = c) \<and> match_pattern s' ps)"
  by (subst match_pattern.simps) (auto split: list.splits)

lemma star_known_iff:
  "star_known s (q # qs) \<longleftrightarrow> (\<exists>v. suffix (q # v) s \<and> match_pattern v qs)"
  by (induction s) (auto simp: star_known.simps suffix_Cons)

lemma star_any_iff:
  "star_any s ps \<longleftrightarrow> (\<exists>v. v \<noteq> [] \<and> suffix v s \<and> match_pattern v ps)"
  by (induction s) (auto simp: star_any.simps suffix_Cons)

lemma match_pattern_star:
  "match_pattern s (CHR ''*'' # ps) \<longleftrightarrow> ps = [] \<or>
     (\<exists>v. suffix v s \<and> (hd ps = CHR ''*'' \<longrightarrow> v \<noteq> []) \<and> match_pattern v ps)" (is "?L \<longleftrightarrow> ?R")
proof (cases ps)
  case Nil
  then show ?thesis by (simp add: match_pattern.simps)
next
  case (Cons q qs)
  consider "q \<noteq> CHR ''?'' \<and> q \<noteq> CHR ''*''" | "q = CHR ''?''" | "q = CHR ''*''" by blast
  then show ?thesis
  proof cases
    case 1
    then have "?L \<longleftrightarrow> star_known s (q # qs)"
      by (subst match_pattern.simps) (simp add: Cons)
    then show ?thesis using 1 by (auto simp: Cons star_known_iff match_pattern_step)
  next
    case 2
    then have "?L \<longleftrightarrow> star_any s (q # qs)"
      by (subst match_pattern.simps) (simp add: Cons)
    then show ?thesis using 2 by (auto simp: Cons star_any_iff match_pattern_step)
  next
    case 3
    then have "?L \<longleftrightarrow> star_any s (q # qs)"
      by (subst match_pattern.simps) (simp add: Cons)
    then show ?thesis using 3 by (auto simp: Cons star_any_iff)
  qed
qed

lemma match_pattern_sound: "match_pattern s pat \<Longrightarrow> glob pat s"
proof (induction pat arbitrary: s)
  case Nil
  then show ?case by (simp add: match_pattern_Nil)
next
  case (Cons p ps)
  then show ?case
    by (cases "p = CHR ''*''") (auto simp: match_pattern_star match_pattern_step)
qed

text \<open>The patterns on which the code is complete: those that do not end in two asterisks.\<close>

definition no_double_star_end :: "string \<Rightarrow> bool" where
  "no_double_star_end pat \<longleftrightarrow> \<not> suffix ''**'' pat"

lemma glob_double_star: "glob (CHR ''*'' # CHR ''*'' # ps) s \<longleftrightarrow> glob (CHR ''*'' # ps) s"
  by (auto intro: suffix_order.order_trans)

lemma glob_empty: "glob pat [] \<longleftrightarrow> set pat \<subseteq> {CHR ''*''}"
  by (induction pat) auto

lemma no_double_star_end_tl: "no_double_star_end (p # ps) \<Longrightarrow> no_double_star_end ps"
  by (auto simp: no_double_star_end_def suffix_Cons)

lemma double_star_end:
  assumes "set ps \<subseteq> {CHR ''*''}" and "ps \<noteq> []"
  shows "\<not> no_double_star_end (CHR ''*'' # ps)"
proof -
  have "ps = replicate (length ps) CHR ''*''" using assms(1) by (auto intro: replicate_eqI [symmetric] replicate_eqI)
  then obtain n where "ps = replicate (Suc n) CHR ''*''" using assms(2) by (cases "length ps") auto
  then have "CHR ''*'' # ps = replicate n CHR ''*'' @ ''**''" 
    using replicate_add [of n 2 "CHR ''*''"] replicate_add [of 2 n "CHR ''*''"]
    by (simp add: numeral_2_eq_2)
  then show ?thesis by (simp add: no_double_star_end_def suffix_def)
qed

lemma match_pattern_complete:
  "no_double_star_end pat \<Longrightarrow> glob pat s \<Longrightarrow> match_pattern s pat"
proof (induction pat arbitrary: s)
  case Nil
  then show ?case by (simp add: match_pattern_Nil)
next
  case (Cons p ps)
  note nds = no_double_star_end_tl [OF Cons.prems(1)]
  show ?case
  proof (cases "p = CHR ''*''")
    case False
    then show ?thesis using Cons.prems Cons.IH [OF nds] by (auto simp: match_pattern_step)
  next
    case True
    then obtain v where v: "suffix v s" "glob ps v" using Cons.prems(2) by auto
    show ?thesis
    proof (cases "ps \<noteq> [] \<and> hd ps = CHR ''*'' \<and> v = []")
      case False
      then show ?thesis using v Cons.IH [OF nds v(2)] True by (auto simp: match_pattern_star)
    next
      case dbl: True
      then have "set ps \<subseteq> {CHR ''*''}" using v(2) by (simp add: glob_empty)
      then show ?thesis using double_star_end [of ps] dbl Cons.prems(1) True by simp
    qed
  qed
qed

section \<open>match_pattern_list\<close>

text \<open>\<open>isupper\<close> and \<open>tolower\<close> in the C locale.\<close>

definition isupper :: "char \<Rightarrow> bool" where
  "isupper c \<longleftrightarrow> 65 \<le> (of_char c :: nat) \<and> (of_char c :: nat) \<le> 90"

definition tolower :: "char \<Rightarrow> char" where
  "tolower c = (if isupper c then char_of (of_char c + 32 :: nat) else c)"

definition fold_case :: "bool \<Rightarrow> char \<Rightarrow> char" where
  "fold_case dolower c = (if dolower \<and> isupper c then tolower c else c)"

definition SUB_SIZE :: nat where "SUB_SIZE = 1024"

text \<open>
  The loop that copies a subpattern into \<open>sub\<close>: the copied characters and the rest of the
  pattern, where it stopped because \<open>sub\<close> was full, at a comma or at the end.
\<close>

fun extract_sub :: "bool \<Rightarrow> nat \<Rightarrow> string \<Rightarrow> string \<times> string" where
  "extract_sub dolower subi [] = ([], [])"
| "extract_sub dolower subi (c # cs) =
     (if subi < SUB_SIZE - 1 \<and> c \<noteq> CHR '','' then
        case extract_sub dolower (Suc subi) cs of (sub, rest) \<Rightarrow> (fold_case dolower c # sub, rest)
      else ([], c # cs))"

lemma extract_sub_length: "extract_sub dolower subi p = (sub, rest) \<Longrightarrow> length p = length sub + length rest"
  by (induction dolower subi p arbitrary: sub rest rule: extract_sub.induct)
    (auto split: if_splits prod.splits)

lemma extract_sub_stop:
  "extract_sub dolower subi p = (sub, rest) \<Longrightarrow> rest \<noteq> [] \<Longrightarrow> hd rest \<noteq> CHR '','' \<Longrightarrow>
     SUB_SIZE - 1 \<le> subi + length sub"
  by (induction dolower subi p arbitrary: sub rest rule: extract_sub.induct)
    (auto split: if_splits prod.splits)

definition skip_bang :: "string \<Rightarrow> bool \<times> string" where
  "skip_bang p = (if p \<noteq> [] \<and> hd p = CHR ''!'' then (True, tl p) else (False, p))"

definition skip_comma :: "string \<Rightarrow> string" where
  "skip_comma p = (if p \<noteq> [] \<and> hd p = CHR '','' then tl p else p)"

function match_pattern_list_loop :: "string \<Rightarrow> bool \<Rightarrow> int \<Rightarrow> string \<Rightarrow> int" where
  "match_pattern_list_loop str dolower got_positive p =
     (if p = [] then got_positive
      else let (negated, p1) = skip_bang p;
               (sub, p2) = extract_sub dolower 0 p1
           in if length sub \<ge> SUB_SIZE - 1 then 0
              else let p3 = skip_comma p2 in
                if match_pattern str sub then
                  if negated then - 1
                  else match_pattern_list_loop str dolower 1 p3
                else match_pattern_list_loop str dolower got_positive p3)"
  by auto

lemma match_pattern_list_progress:
  assumes "p \<noteq> []" and "skip_bang p = (n, p1)" and "extract_sub dolower 0 p1 = (sub, p2)"
    and "length sub < SUB_SIZE - 1"
  shows "length (skip_comma p2) < length p"
proof (cases "p2 = []")
  case True
  then show ?thesis using assms(1) by (simp add: skip_comma_def)
next
  case False
  then have "hd p2 = CHR '',''" using extract_sub_stop [OF assms(3)] assms(4) by fastforce
  moreover have "length p2 \<le> length p1" using extract_sub_length [OF assms(3)] by simp
  moreover have "length p1 \<le> length p" using assms(2) by (auto simp: skip_bang_def split: if_splits)
  ultimately show ?thesis using False by (cases p2) (auto simp: skip_comma_def)
qed

termination match_pattern_list_loop
  by (relation "measure (\<lambda>(_, _, _, p). length p)")
    (auto simp: not_le intro: match_pattern_list_progress dest: sym)

declare match_pattern_list_loop.simps [simp del]

definition match_pattern_list :: "string \<Rightarrow> string \<Rightarrow> bool \<Rightarrow> int" where
  "match_pattern_list str pattern dolower = match_pattern_list_loop str dolower 0 pattern"

definition match_hostname :: "string \<Rightarrow> string \<Rightarrow> int" where
  "match_hostname host pattern = match_pattern_list host pattern True"

section \<open>match_list and match_filter_list\<close>

definition MAX_PROP :: nat where "MAX_PROP = 40"

function collect_props :: "nat \<Rightarrow> string option \<Rightarrow> string list" where
  "collect_props i sp =
     (case strsep CHR '','' sp of
        (None, _) \<Rightarrow> []
      | (Some p, sp') \<Rightarrow> if p = [] then []
                         else if i < MAX_PROP then p # collect_props (Suc i) sp' else [])"
  by auto
termination by (relation "measure (sep_size \<circ> snd)") (auto simp: strsep_size dest: sym)

declare collect_props.simps [simp del]

text \<open>
  The loop over the client's names; the second component is \<open>*next\<close>, \<open>clen\<close> is the length of
  the client's list.
\<close>

function match_list_loop :: "string list \<Rightarrow> nat \<Rightarrow> string option \<Rightarrow> string option \<times> nat" where
  "match_list_loop sproposals clen cp =
     (case strsep CHR '','' cp of
        (None, _) \<Rightarrow> (None, clen)
      | (Some p, cp') \<Rightarrow>
          if p = [] then (None, clen)
          else if list_ex (\<lambda>q. p = q) sproposals
          then (Some p, case cp' of None \<Rightarrow> clen | Some r \<Rightarrow> clen - length r)
          else match_list_loop sproposals clen cp')"
  by auto
termination by (relation "measure (\<lambda>(_, _, cp). sep_size cp)") (auto simp: strsep_size dest: sym)

declare match_list_loop.simps [simp del]

definition match_list :: "string \<Rightarrow> string \<Rightarrow> string option \<times> nat" where
  "match_list client server = match_list_loop (collect_props 0 (Some server)) (length client) (Some client)"

text \<open>\<open>strlcat(dst, src, n)\<close> truncates so that the result with its NUL fits in \<open>n\<close> bytes.\<close>

definition strlcat :: "string \<Rightarrow> string \<Rightarrow> nat \<Rightarrow> string" where
  "strlcat dst src n = (if n \<le> length dst then dst else dst @ take (n - 1 - length dst) src)"

function filter_loop :: "string \<Rightarrow> nat \<Rightarrow> string \<Rightarrow> string option \<Rightarrow> string" where
  "filter_loop flt len fix_prop tmp =
     (case strsep CHR '','' tmp of
        (None, _) \<Rightarrow> fix_prop
      | (Some cp, tmp') \<Rightarrow>
          filter_loop flt len
            (if match_pattern_list cp flt False \<noteq> 1
             then strlcat (if fix_prop \<noteq> [] then strlcat fix_prop '','' len else fix_prop) cp len
             else fix_prop) tmp')"
  by auto
termination by (relation "measure (\<lambda>(_, _, _, tmp). sep_size tmp)") (auto simp: strsep_size dest: sym)

declare filter_loop.simps [simp del]

text \<open>\<open>mem\<close>: whether both allocations succeed.\<close>

definition match_filter_list :: "bool \<Rightarrow> string \<Rightarrow> string \<Rightarrow> string option" where
  "match_filter_list mem proposal flt =
     (let len = length proposal + 1 in
      if \<not> mem then None else Some (filter_loop flt len [] (Some proposal)))"

section \<open>Pattern lists as lists of negatable items\<close>

text \<open>
  The interface of a pattern list with negation: the items of a list, each with its negation
  flag, and which items a query hits. The verdict is \<open>- 1\<close> when a negated item is hit, else
  1 when an item is hit, else 0.
\<close>

definition neg_verdict :: "(bool \<times> bool) list \<Rightarrow> int" where
  "neg_verdict xs = (if (True, True) \<in> set xs then - 1 else if (False, True) \<in> set xs then 1 else 0)"

locale negatable_list =
  fixes verdict :: "'q \<Rightarrow> string \<Rightarrow> int"
    and items :: "string \<Rightarrow> (bool \<times> 'e) list"
    and hit :: "'q \<Rightarrow> 'e \<Rightarrow> bool"
    and valid :: "'q \<Rightarrow> string \<Rightarrow> bool"
  assumes verdict_law: "valid q l \<Longrightarrow> verdict q l = neg_verdict (map (\<lambda>(n, e). (n, hit q e)) (items l))"
begin

lemma accept_iff:
  "valid q l \<Longrightarrow> verdict q l = 1 \<longleftrightarrow>
     (\<exists>e. (False, e) \<in> set (items l) \<and> hit q e) \<and> (\<forall>e. (True, e) \<in> set (items l) \<longrightarrow> \<not> hit q e)"
  by (force simp: verdict_law neg_verdict_def)

lemma reject_iff:
  "valid q l \<Longrightarrow> verdict q l = - 1 \<longleftrightarrow> (\<exists>e. (True, e) \<in> set (items l) \<and> hit q e)"
  by (force simp: verdict_law neg_verdict_def)

text \<open>The verdict does not depend on the order or the multiplicity of the items.\<close>

lemma order_irrelevant:
  "valid q l \<Longrightarrow> valid q l' \<Longrightarrow> set (items l) = set (items l') \<Longrightarrow> verdict q l = verdict q l'"
  by (simp add: verdict_law neg_verdict_def)

lemma negation_wins:
  assumes "valid q l" and "valid q l'" and "set (items l) \<subseteq> set (items l')" and "verdict q l = - 1"
  shows "verdict q l' = - 1"
  using assms by (auto simp: reject_iff)

end

fun neg_eval :: "int \<Rightarrow> (bool \<times> bool) list \<Rightarrow> int" where
  "neg_eval g [] = g"
| "neg_eval g ((n, h) # xs) = (if h then if n then - 1 else neg_eval 1 xs else neg_eval g xs)"

lemma neg_eval_verdict:
  "neg_eval g xs = (if (True, True) \<in> set xs then - 1 else if (False, True) \<in> set xs then 1 else g)"
  by (induction g xs rule: neg_eval.induct) auto

text \<open>The items of a list: a trailing empty token does not count.\<close>

definition list_tokens :: "string \<Rightarrow> string list" where
  "list_tokens p = (if last (tokens p) = [] then butlast (tokens p) else tokens p)"

definition list_items :: "bool \<Rightarrow> string \<Rightarrow> (bool \<times> string) list" where
  "list_items dolower p = map (\<lambda>t. apsnd (map (fold_case dolower)) (skip_bang t)) (list_tokens p)"

lemma list_tokens_Nil [simp]: "list_tokens [] = []"
  by (simp add: list_tokens_def)

lemma tokens_ne [simp]: "tokens_from d (Some p) \<noteq> []"
  by (subst tokens_unfold) simp

lemma list_tokens_step:
  assumes "p \<noteq> []"
  shows "list_tokens p = takeWhile (\<lambda>c. c \<noteq> CHR '','') p #
    list_tokens (skip_comma (dropWhile (\<lambda>c. c \<noteq> CHR '','') p))"
proof (cases "dropWhile (\<lambda>c. c \<noteq> CHR '','') p")
  case Nil
  then have w: "takeWhile (\<lambda>c. c \<noteq> CHR '','') p = p" by (simp add: takeWhile_eq_all_conv)
  then have "tokens p = [p]" using tokens_unfold [of "CHR '',''" p] unfolding Nil by simp
  then show ?thesis unfolding Nil w using assms by (simp add: list_tokens_def skip_comma_def)
next
  case (Cons x r)
  then have x: "x = CHR '',''" using hd_dropWhile [of "\<lambda>c. c \<noteq> CHR '',''" p] by (simp del: dropWhile_eq_Nil_conv)
  have "tokens p = takeWhile (\<lambda>c. c \<noteq> CHR '','') p # tokens r"
    using tokens_unfold [of "CHR '',''" p] unfolding Cons by simp
  then show ?thesis unfolding Cons by (simp add: list_tokens_def skip_comma_def x)
qed

lemma extract_sub_eq:
  "k + length (takeWhile (\<lambda>c. c \<noteq> CHR '','') p) \<le> SUB_SIZE - 1 \<Longrightarrow>
   extract_sub dolower k p =
     (map (fold_case dolower) (takeWhile (\<lambda>c. c \<noteq> CHR '','') p), dropWhile (\<lambda>c. c \<noteq> CHR '','') p)"
  by (induction dolower k p rule: extract_sub.induct) auto

lemma skip_bang_while:
  assumes "skip_bang p = (n, q)"
  shows "skip_bang (takeWhile (\<lambda>c. c \<noteq> CHR '','') p) = (n, takeWhile (\<lambda>c. c \<noteq> CHR '','') q)"
    "dropWhile (\<lambda>c. c \<noteq> CHR '','') p = dropWhile (\<lambda>c. c \<noteq> CHR '','') q"
  using assms by (cases p; auto simp: skip_bang_def split: if_splits)+

lemma match_pattern_list_loop_eq:
  assumes "\<And>n sub. (n, sub) \<in> set (list_items dolower p) \<Longrightarrow> length sub < SUB_SIZE - 1"
  shows "match_pattern_list_loop str dolower g p =
    neg_eval g (map (\<lambda>(n, sub). (n, match_pattern str sub)) (list_items dolower p))"
  using assms
proof (induction str dolower g p rule: match_pattern_list_loop.induct)
  case (1 str dolower g p)
  show ?case
  proof (cases "p = []")
    case True
    then show ?thesis by (simp add: match_pattern_list_loop.simps list_items_def)
  next
    case False
    let ?w = "takeWhile (\<lambda>c. c \<noteq> CHR '','')" and ?d = "dropWhile (\<lambda>c. c \<noteq> CHR '','')"
    obtain n q where q: "skip_bang p = (n, q)" by force
    let ?sub = "map (fold_case dolower) (?w q)" and ?rest = "skip_comma (?d q)"
    have items: "list_items dolower p = (n, ?sub) # list_items dolower ?rest"
      using list_tokens_step [OF False] skip_bang_while [OF q] by (simp add: list_items_def)
    have short: "length ?sub < SUB_SIZE - 1"
      using "1.prems" [of n ?sub] unfolding items by (simp only: list.set insert_iff simp_thms)
    have ex: "extract_sub dolower 0 q = (?sub, ?d q)" using short by (intro extract_sub_eq) simp
    have nle: "\<not> SUB_SIZE - 1 \<le> length ?sub" using short by simp
    have prem: "\<And>n sub. (n, sub) \<in> set (list_items dolower ?rest) \<Longrightarrow> length sub < SUB_SIZE - 1"
      using "1.prems" unfolding items by auto
    have step: "match_pattern_list_loop str dolower g p =
        (if match_pattern str ?sub then
           if n then - 1 else match_pattern_list_loop str dolower 1 ?rest
         else match_pattern_list_loop str dolower g ?rest)"
      by (subst match_pattern_list_loop.simps) (simp only: q ex Let_def prod.case if_False False nle)
    note ih = "1.IH" [OF False refl q [symmetric] refl ex [symmetric] nle refl]
    show ?thesis
      unfolding step items using ih(1) [OF _ _ prem] ih(2) [OF _ prem] by simp
  qed
qed

definition list_short :: "bool \<Rightarrow> 'q \<Rightarrow> string \<Rightarrow> bool" where
  "list_short dolower q p \<longleftrightarrow> list_all (\<lambda>(n, sub). length sub < SUB_SIZE - 1) (list_items dolower p)"

interpretation mp: negatable_list "\<lambda>q l. match_pattern_list q l dolower" "list_items dolower"
  match_pattern "list_short dolower" for dolower
proof
  fix q l :: string assume "list_short dolower q l"
  then have "match_pattern_list q l dolower =
      neg_eval 0 (map (\<lambda>(n, sub). (n, match_pattern q sub)) (list_items dolower l))"
    unfolding match_pattern_list_def
    by (intro match_pattern_list_loop_eq) (auto simp: list_short_def list_all_iff)
  then show "match_pattern_list q l dolower =
      neg_verdict (map (\<lambda>(n, e). (n, match_pattern q e)) (list_items dolower l))"
    by (simp add: neg_eval_verdict neg_verdict_def)
qed

section \<open>Name lists\<close>

text \<open>The names of a list as \<open>match_list\<close> reads it: up to the first empty one.\<close>

definition names :: "string \<Rightarrow> string list" where
  "names s = takeWhile (\<lambda>p. p \<noteq> []) (tokens s)"

lemma strsep_tokens:
  "strsep d sp = (Some p, sp') \<Longrightarrow> tokens_from d sp = p # tokens_from d sp'"
  "strsep d sp = (None, sp') \<Longrightarrow> tokens_from d sp = []"
  by (simp_all add: tokens_from.simps [of d sp])

lemma collect_props_eq:
  "collect_props i sp = take (MAX_PROP - i) (takeWhile (\<lambda>p. p \<noteq> []) (tokens_from CHR '','' sp))"
proof (induction i sp rule: collect_props.induct)
  case (1 i sp)
  obtain r sp' where r: "strsep CHR '','' sp = (r, sp')" by force
  show ?case
  proof (cases r)
    case None
    then show ?thesis using r by (simp add: collect_props.simps [of i sp] strsep_tokens)
  next
    case (Some p)
    show ?thesis
    proof (cases "p \<noteq> [] \<and> i < MAX_PROP")
      case True
      then have "MAX_PROP - i = Suc (MAX_PROP - Suc i)" by (simp add: Suc_diff_Suc)
      then show ?thesis
        using "1.IH" [OF r [symmetric] Some] True r Some
        by (simp add: collect_props.simps [of i sp] strsep_tokens)
    qed (use r Some in \<open>auto simp: collect_props.simps [of i sp] strsep_tokens\<close>)
  qed
qed

lemma match_list_loop_eq:
  "fst (match_list_loop props n cp) =
     find (\<lambda>p. p \<in> set props) (takeWhile (\<lambda>p. p \<noteq> []) (tokens_from CHR '','' cp))"
proof (induction props n cp rule: match_list_loop.induct)
  case (1 props n cp)
  obtain r cp' where r: "strsep CHR '','' cp = (r, cp')" by force
  show ?case
  proof (cases r)
    case None
    then show ?thesis using r by (simp add: match_list_loop.simps [of props n cp] strsep_tokens)
  next
    case (Some p)
    have m: "list_ex (\<lambda>q. p = q) props \<longleftrightarrow> p \<in> set props" by (auto simp: list_ex_iff)
    show ?thesis
      using "1.IH" [OF r [symmetric] Some] r Some
      by (auto simp: match_list_loop.simps [of props n cp] strsep_tokens m)
  qed
qed

lemma match_list_eq:
  "fst (match_list client server) = find (\<lambda>p. p \<in> set (take MAX_PROP (names server))) (names client)"
  by (simp add: match_list_def match_list_loop_eq collect_props_eq names_def)

text \<open>\<open>*next\<close> is the position just past the matched name and the comma that follows it.\<close>

lemma match_list_loop_next:
  assumes "match_list_loop props clen (Some s) = (Some p, k)" and "length s \<le> clen"
  shows "\<exists>pre post. s = pre @ p @ post \<and> (post = [] \<or> hd post = CHR '','') \<and>
    k = clen - length s + length pre + length p + min 1 (length post)"
  using assms
proof (induction "length s" arbitrary: s rule: less_induct)
  case less
  let ?c = "CHR '',''"
  let ?w = "takeWhile (\<lambda>c. c \<noteq> ?c) s"
  have m: "list_ex (\<lambda>q. t = q) props \<longleftrightarrow> t \<in> set props" for t by (auto simp: list_ex_iff)
  show ?case
  proof (cases "dropWhile (\<lambda>c. c \<noteq> ?c) s")
    case Nil
    then have w: "?w = s" by (simp add: takeWhile_eq_all_conv)
    have sep: "strsep ?c (Some s) = (Some s, None)" unfolding strsep_def option.case Nil w by simp
    have "p = s" "k = clen"
      using less.prems by (auto simp: match_list_loop.simps [of _ _ "Some s"]
          match_list_loop.simps [of _ _ None] strsep_def [of _ None] sep m split: if_splits)
    then show ?thesis using less.prems(2) by (intro exI [of _ "[]"]) simp
  next
    case (Cons x r)
    then have x: "x = ?c" using hd_dropWhile [of "\<lambda>c. c \<noteq> ?c" s] by (simp del: dropWhile_eq_Nil_conv)
    have s: "?w @ ?c # r = s" using takeWhile_dropWhile_id [of "\<lambda>c. c \<noteq> ?c" s] unfolding Cons x .
    have sep: "strsep ?c (Some s) = (Some ?w, Some r)" unfolding strsep_def option.case Cons by simp
    have ll: "length s = Suc (length ?w + length r)" using s [THEN arg_cong, of length] by simp
    show ?thesis
    proof (cases "?w \<in> set props")
      case True
      then have "p = ?w" "k = clen - length r"
        using less.prems(1) by (auto simp: match_list_loop.simps [of _ _ "Some s"] sep m split: if_splits)
      then show ?thesis using s ll less.prems(2)
        by (intro exI [of _ "[]"] exI [of _ "?c # r"]) simp
    next
      case False
      then have "match_list_loop props clen (Some r) = (Some p, k)"
        using less.prems(1) by (auto simp: match_list_loop.simps [of _ _ "Some s"] sep m split: if_splits)
      moreover have "length r < length s" "length r \<le> clen" using ll less.prems(2) by simp_all
      ultimately obtain pre post where "r = pre @ p @ post" "post = [] \<or> hd post = ?c"
        "k = clen - length r + length pre + length p + min 1 (length post)"
        using less.hyps [of r] by blast
      then show ?thesis using s ll less.prems(2)
        by (intro exI [of _ "?w @ ?c # pre"] exI [of _ post]) auto
    qed
  qed
qed

section \<open>Filtered lists\<close>

lemma strlcat_fits: "length dst + length src < n \<Longrightarrow> strlcat dst src n = dst @ src"
  by (simp add: strlcat_def)

text \<open>A list with no empty name: the kept names, in order, separated by commas.\<close>

lemma filter_loop_eq:
  assumes "\<And>t. t \<in> set (tokens_from CHR '','' sp) \<Longrightarrow> t \<noteq> []"
    and "length acc + sep_size sp < n + (if acc = [] then 1 else 0)"
  shows "filter_loop flt n acc sp = join CHR '',''
    ((if acc = [] then [] else [acc]) @
     filter (\<lambda>t. match_pattern_list t flt False \<noteq> 1) (tokens_from CHR '','' sp))"
  using assms
proof (induction flt n acc sp rule: filter_loop.induct)
  case (1 flt n acc sp)
  obtain r sp' where r: "strsep CHR '','' sp = (r, sp')" by force
  show ?case
  proof (cases r)
    case None
    then show ?thesis using r by (simp add: filter_loop.simps [of flt n acc sp] strsep_tokens)
  next
    case (Some cp)
    have ne: "cp \<noteq> []" using "1.prems"(1) r Some by (simp add: strsep_tokens)
    note sz = strsep_size_eq [OF r [unfolded Some]]
    note ih = "1.IH" [OF r [symmetric] Some]
    have fits: "strlcat (if acc \<noteq> [] then strlcat acc '','' n else acc) cp n =
        (if acc = [] then cp else acc @ CHR '','' # cp)"
      using "1.prems"(2) sz by (cases "acc = []") (simp_all add: strlcat_fits)
    have toks: "\<And>t. t \<in> set (tokens_from CHR '','' sp') \<Longrightarrow> t \<noteq> []"
      using "1.prems"(1) r Some by (simp add: strsep_tokens)
    have step: "filter_loop flt n acc sp = filter_loop flt n
        (if match_pattern_list cp flt False \<noteq> 1 then if acc = [] then cp else acc @ CHR '','' # cp
         else acc) sp'"
      using fits by (simp add: filter_loop.simps [of flt n acc sp] r Some)
    show ?thesis
    proof (cases "match_pattern_list cp flt False = 1")
      case True
      then show ?thesis
        using ih [OF toks] "1.prems"(2) sz r Some step by (auto simp: strsep_tokens)
    next
      case False
      then show ?thesis
        using ih [OF toks] "1.prems"(2) sz ne r Some step fits
        by (auto simp: strsep_tokens)
    qed
  qed
qed

lemma match_filter_list_eq:
  assumes "\<And>t. t \<in> set (tokens proposal) \<Longrightarrow> t \<noteq> []"
  shows "match_filter_list True proposal flt =
    Some (join CHR '','' (filter (\<lambda>t. match_pattern_list t flt False \<noteq> 1) (tokens proposal)))"
  using filter_loop_eq [of "Some proposal" "[]" "length proposal + 1" flt] assms
  by (simp add: match_filter_list_def sep_size_def)

section \<open>Properties\<close>

text \<open>
  C31. \<open>match_pattern\<close> decides the wildcard language: it never accepts a string outside the
  language of the pattern, and it accepts every string of the language unless the pattern ends
  in two asterisks.
\<close>

theorem match_pattern_glob:
  "(match_pattern s pat \<longrightarrow> glob pat s) \<and> (\<not> suffix ''**'' pat \<longrightarrow> match_pattern s pat = glob pat s)"
  using match_pattern_sound match_pattern_complete [unfolded no_double_star_end_def] by blast

lemma match_pattern_glob_witness:
  "\<not> suffix ''**'' ''a*?b*'' \<and> match_pattern ''axxbz'' ''a*?b*'' = glob ''a*?b*'' ''axxbz''
   \<and> match_pattern ''axxbz'' ''a*?b*''"
  using match_pattern_glob [of "''axxbz''" "''a*?b*''"]
  by (simp add: suffix_Cons) (simp add: match_pattern.simps star_known.simps star_any.simps)

text \<open>
  At the end of a pattern two asterisks do not match the empty rest although one does: the
  loop after the asterisk runs only while characters remain. So every string of plain
  characters is in the language of itself followed by \<open>**\<close>, matches itself followed by \<open>*\<close>,
  and is refused with \<open>**\<close>.
\<close>

theorem match_pattern_double_star:
  assumes "set s \<inter> {CHR ''*'', CHR ''?''} = {}"
  shows "glob (s @ ''**'') s \<and> match_pattern s (s @ ''*'') \<and> \<not> match_pattern s (s @ ''**'')"
proof (intro conjI)
  show "glob (s @ ''**'') s" using assms by (induction s) auto
  show "match_pattern s (s @ ''*'')"
    using assms by (induction s) (auto simp: match_pattern_star match_pattern_step)
  show "\<not> match_pattern s (s @ ''**'')"
    using assms by (induction s) (auto simp: match_pattern_star match_pattern_step)
qed

lemma match_pattern_double_star_witness:
  "set ''host'' \<inter> {CHR ''*'', CHR ''?''} = {} \<and> glob ''host**'' ''host'' \<and>
   \<not> match_pattern ''host'' ''host**''"
  using match_pattern_double_star [of "''host''"] by simp

text \<open>
  C32. A pattern list whose subpatterns fit the buffer accepts exactly when some plain entry
  matches and no negated entry does, and rejects exactly when a negated entry matches,
  whatever the order of the entries.
\<close>

theorem match_pattern_list_verdict:
  assumes "list_short dolower str l"
  shows "(match_pattern_list str l dolower = 1 \<longleftrightarrow>
      (\<exists>e. (False, e) \<in> set (list_items dolower l) \<and> match_pattern str e) \<and>
      (\<forall>e. (True, e) \<in> set (list_items dolower l) \<longrightarrow> \<not> match_pattern str e)) \<and>
    (match_pattern_list str l dolower = - 1 \<longleftrightarrow>
      (\<exists>e. (True, e) \<in> set (list_items dolower l) \<and> match_pattern str e))"
  using mp.accept_iff [OF assms] mp.reject_iff [OF assms] by blast

lemma list_items_example:
  "list_items True ''*.Org,!x*'' = [(False, ''*.org''), (True, ''x*'')]"
  by code_simp

lemma match_pattern_list_verdict_witness:
  "match_pattern_list ''x.org'' ''*.Org,!x*'' True = - 1"
proof -
  have "list_short True ''x.org'' ''*.Org,!x*''"
    by (simp add: list_short_def list_items_example SUB_SIZE_def)
  moreover have "match_pattern ''x.org'' ''x*''" by (simp add: match_pattern.simps)
  ultimately show ?thesis
    using match_pattern_list_verdict [of True "''x.org''" "''*.Org,!x*''"]
    unfolding list_items_example by auto
qed

text \<open>
  \<open>match_list\<close> returns the first name of the client's list that is among the first 40 names
  of the server's list, and \<open>None\<close> exactly when there is none; \<open>*next\<close> then points just past
  the name and its comma in the client's list.
\<close>

theorem match_list_first:
  shows "fst (match_list client server) =
      find (\<lambda>p. p \<in> set (take MAX_PROP (names server))) (names client) \<and>
    (\<forall>p k. match_list client server = (Some p, k) \<longrightarrow>
      (\<exists>pre post. client = pre @ p @ post \<and> (post = [] \<or> hd post = CHR '','') \<and>
        k = length pre + length p + min 1 (length post)))"
  using match_list_eq match_list_loop_next [of _ "length client" client]
  by (auto simp: match_list_def)

lemma match_list_first_witness:
  "match_list ''a,bc,d'' ''d,bc'' = (Some ''bc'', 5)"
proof -
  have n: "names ''a,bc,d'' = [''a'', ''bc'', ''d'']" "names ''d,bc'' = [''d'', ''bc'']"
    by (simp_all add: names_def tokens_from.simps strsep_def)
  have f: "fst (match_list ''a,bc,d'' ''d,bc'') = Some ''bc''"
    using match_list_first [of "''a,bc,d''" "''d,bc''"] unfolding n by (simp add: MAX_PROP_def)
  then obtain k where m: "match_list ''a,bc,d'' ''d,bc'' = (Some ''bc'', k)"
    by (cases "match_list ''a,bc,d'' ''d,bc''") auto
  from match_list_first [of "''a,bc,d''" "''d,bc''"] m have
    "\<exists>pre post. ''a,bc,d'' = pre @ ''bc'' @ post \<and> (post = [] \<or> hd post = CHR '','') \<and>
      k = length pre + 2 + min 1 (length post)" by fastforce
  then have "k = 5"
    by (auto simp: append_eq_Cons_conv Cons_eq_append_conv)
  then show ?thesis using m by simp
qed

text \<open>
  Filtering a list without empty names keeps, in order, exactly the names that the filter
  does not accept, separated by single commas; the buffer of \<open>strlen(proposal) + 1\<close> bytes is
  never too small.
\<close>

theorem match_filter_list_keeps:
  assumes "[] \<notin> set (tokens proposal)"
  shows "\<exists>r. match_filter_list True proposal flt = Some r \<and>
    r = join CHR '','' (filter (\<lambda>t. match_pattern_list t flt False \<noteq> 1) (tokens proposal))"
  using match_filter_list_eq [of proposal flt] assms by blast

lemma match_filter_list_keeps_witness:
  "[] \<notin> set (tokens ''ssh-rsa,ssh-dss'') \<and>
   match_filter_list True ''ssh-rsa,ssh-dss'' ''*dss'' = Some ''ssh-rsa''"
proof -
  have t: "tokens ''ssh-rsa,ssh-dss'' = [''ssh-rsa'', ''ssh-dss'']" by code_simp
  have "match_pattern_list ''ssh-rsa'' ''*dss'' False = 0" "match_pattern_list ''ssh-dss'' ''*dss'' False = 1"
    by code_simp+
  then show ?thesis using match_filter_list_keeps [of "''ssh-rsa,ssh-dss''" "''*dss''"] by (simp add: t)
qed

end
