(* ===== verification/Addrmatch.thy ===== *)
theory Addrmatch
  imports Match
begin

text \<open>
  The address matching of \<open>addrmatch.c\<close> and the host and user matching of \<open>match.c\<close> that rests
  on it. The union of \<open>struct xaddr\<close> is its 16 bytes in memory; \<open>htonl\<close> followed by a store is
  the big-endian store \<open>POKE_U32\<close>, a load followed by \<open>ntohl\<close> is \<open>PEEK_U32\<close>. The resolver
  \<open>getaddrinfo\<close> (called with \<open>AI_NUMERICHOST\<close>) is a parameter: \<open>None\<close> for a non-zero result,
  \<open>Some None\<close> for a result without an address, else the socket address and its length.
\<close>

section \<open>Addresses\<close>

datatype sa_family = AF_UNSPEC | AF_INET | AF_INET6 | AF_OTHER

record sockaddr =
  sa_fam :: sa_family
  sin_addr :: bytes
  sin6_addr :: bytes
  sin6_scope_id :: u32

type_synonym resolver = "string \<Rightarrow> (sockaddr \<times> nat) option option"

definition sizeof_sockaddr_in :: nat where "sizeof_sockaddr_in = 16"
definition sizeof_sockaddr_in6 :: nat where "sizeof_sockaddr_in6 = 28"

record xaddr =
  xa_af :: sa_family
  addr8 :: bytes
  scope_id :: u32

definition xaddr_zero :: xaddr where
  "xaddr_zero = \<lparr>xa_af = AF_UNSPEC, addr8 = replicate 16 0, scope_id = 0\<rparr>"

definition addr_unicast_masklen :: "sa_family \<Rightarrow> int" where
  "addr_unicast_masklen af = (case af of AF_INET \<Rightarrow> 32 | AF_INET6 \<Rightarrow> 128 | _ \<Rightarrow> - 1)"

definition masklen_valid :: "sa_family \<Rightarrow> nat \<Rightarrow> bool" where
  "masklen_valid af masklen =
     (case af of AF_INET \<Rightarrow> masklen \<le> 32 | AF_INET6 \<Rightarrow> masklen \<le> 128 | _ \<Rightarrow> False)"

definition addr_sa_to_xaddr :: "sockaddr \<Rightarrow> nat \<Rightarrow> xaddr option" where
  "addr_sa_to_xaddr sa slen =
     (case sa_fam sa of
        AF_INET \<Rightarrow>
          if slen < sizeof_sockaddr_in then None
          else Some (xaddr_zero\<lparr>xa_af := AF_INET,
                       addr8 := mem_write 0 (take 4 (sin_addr sa)) (addr8 xaddr_zero)\<rparr>)
      | AF_INET6 \<Rightarrow>
          if slen < sizeof_sockaddr_in6 then None
          else Some (xaddr_zero\<lparr>xa_af := AF_INET6,
                       addr8 := mem_write 0 (take 16 (sin6_addr sa)) (addr8 xaddr_zero),
                       scope_id := sin6_scope_id sa\<rparr>)
      | _ \<Rightarrow> None)"

text \<open>The loop over the whole words of an IPv6 mask: index, remaining length, address bytes.\<close>

function netmask6_loop :: "nat \<Rightarrow> nat \<Rightarrow> bytes \<Rightarrow> nat \<times> nat \<times> bytes" where
  "netmask6_loop i l n =
     (if i < 4 \<and> l \<ge> 32 then netmask6_loop (Suc i) (l - 32) (mem_write (4 * i) (POKE_U32 0xffffffff) n)
      else (i, l, n))"
  by auto
termination by (relation "measure (\<lambda>(i, _, _). 4 - i)") auto

declare netmask6_loop.simps [simp del]

definition addr_netmask :: "sa_family \<Rightarrow> nat \<Rightarrow> xaddr option" where
  "addr_netmask af l =
     (if \<not> masklen_valid af l then None
      else case af of
        AF_INET \<Rightarrow>
          Some (xaddr_zero\<lparr>xa_af := AF_INET, addr8 :=
            (if l = 0 then addr8 xaddr_zero
             else mem_write 0 (POKE_U32 (push_bit (32 - l) 0xffffffff AND 0xffffffff))
                    (addr8 xaddr_zero))\<rparr>)
      | AF_INET6 \<Rightarrow>
          Some (xaddr_zero\<lparr>xa_af := AF_INET6, addr8 :=
            (case netmask6_loop 0 l (addr8 xaddr_zero) of (i, l', n) \<Rightarrow>
               if i < 4 \<and> l' \<noteq> 0
               then mem_write (4 * i) (POKE_U32 (push_bit (32 - l') 0xffffffff AND 0xffffffff)) n
               else n)\<rparr>)
      | _ \<Rightarrow> None)"

definition bytes_and :: "bytes \<Rightarrow> bytes \<Rightarrow> bytes" where
  "bytes_and a b = map (\<lambda>(x, y). x AND y) (zip a b)"

definition addr_and :: "xaddr \<Rightarrow> xaddr \<Rightarrow> xaddr option" where
  "addr_and a b =
     (if xa_af a \<noteq> xa_af b then None
      else case xa_af a of
        AF_INET \<Rightarrow> Some (a\<lparr>addr8 := mem_write 0 (bytes_and (take 4 (addr8 a)) (take 4 (addr8 b))) (addr8 a)\<rparr>)
      | AF_INET6 \<Rightarrow> Some (a\<lparr>scope_id := scope_id a, addr8 := bytes_and (addr8 a) (addr8 b)\<rparr>)
      | _ \<Rightarrow> None)"

fun cmp8 :: "bytes \<Rightarrow> bytes \<Rightarrow> int" where
  "cmp8 (x # xs) (y # ys) = (if x \<noteq> y then if x > y then 1 else - 1 else cmp8 xs ys)"
| "cmp8 _ _ = 0"

definition addr_cmp :: "xaddr \<Rightarrow> xaddr \<Rightarrow> int" where
  "addr_cmp a b =
     (if xa_af a \<noteq> xa_af b then if xa_af a = AF_INET6 then 1 else - 1
      else case xa_af a of
        AF_INET \<Rightarrow>
          if take 4 (addr8 a) = take 4 (addr8 b) then 0
          else if PEEK_U32 (addr8 a) > PEEK_U32 (addr8 b) then 1 else - 1
      | AF_INET6 \<Rightarrow>
          let c = cmp8 (addr8 a) (addr8 b) in
          if c \<noteq> 0 then c
          else if scope_id a = scope_id b then 0
          else if scope_id a > scope_id b then 1 else - 1
      | _ \<Rightarrow> - 1)"

definition addr_pton :: "resolver \<Rightarrow> string option \<Rightarrow> xaddr option" where
  "addr_pton getaddrinfo p =
     (case p of
        None \<Rightarrow> None
      | Some s \<Rightarrow>
          (case getaddrinfo s of
             None \<Rightarrow> None
           | Some None \<Rightarrow> None
           | Some (Some (sa, slen)) \<Rightarrow> addr_sa_to_xaddr sa slen))"

definition addr_invert :: "xaddr \<Rightarrow> xaddr option" where
  "addr_invert n =
     (case xa_af n of
        AF_INET \<Rightarrow> Some (n\<lparr>addr8 := mem_write 0 (map (\<lambda>x. NOT x) (take 4 (addr8 n))) (addr8 n)\<rparr>)
      | AF_INET6 \<Rightarrow> Some (n\<lparr>addr8 := map (\<lambda>x. NOT x) (addr8 n)\<rparr>)
      | _ \<Rightarrow> None)"

definition addr_hostmask :: "sa_family \<Rightarrow> nat \<Rightarrow> xaddr option" where
  "addr_hostmask af l = Option.bind (addr_netmask af l) addr_invert"

definition addr_is_all0s :: "xaddr \<Rightarrow> bool" where
  "addr_is_all0s a =
     (case xa_af a of
        AF_INET \<Rightarrow> list_all (\<lambda>x. x = 0) (take 4 (addr8 a))
      | AF_INET6 \<Rightarrow> list_all (\<lambda>x. x = 0) (addr8 a)
      | _ \<Rightarrow> False)"

definition addr_host_is_all0s :: "xaddr \<Rightarrow> nat \<Rightarrow> bool" where
  "addr_host_is_all0s a masklen =
     (case addr_hostmask (xa_af a) masklen of
        None \<Rightarrow> False
      | Some m \<Rightarrow> (case addr_and a m of None \<Rightarrow> False | Some r \<Rightarrow> addr_is_all0s r))"

text \<open>
  \<open>strtoul(s, &cp, 10)\<close>: leading white space and one sign are skipped; without a digit nothing
  is consumed; an overflow gives \<open>ULONG_MAX\<close>; a minus sign negates modulo \<open>2^64\<close>.
\<close>

definition isspace :: "char \<Rightarrow> bool" where
  "isspace c \<longleftrightarrow> c = CHR '' '' \<or> 9 \<le> (of_char c :: nat) \<and> (of_char c :: nat) \<le> 13"

definition isdigit :: "char \<Rightarrow> bool" where
  "isdigit c \<longleftrightarrow> 48 \<le> (of_char c :: nat) \<and> (of_char c :: nat) \<le> 57"

definition digits_value :: "string \<Rightarrow> nat" where
  "digits_value ds = foldl (\<lambda>v c. v * 10 + (of_char c - 48)) 0 ds"

definition strtoul :: "string \<Rightarrow> nat \<times> string" where
  "strtoul s =
     (let s1 = dropWhile isspace s;
          neg = (s1 \<noteq> [] \<and> hd s1 = CHR ''-'');
          s2 = (if s1 \<noteq> [] \<and> (hd s1 = CHR ''-'' \<or> hd s1 = CHR ''+'') then tl s1 else s1);
          ds = takeWhile isdigit s2; v = digits_value ds
      in if ds = [] then (0, s)
         else (if v > 2 ^ 64 - 1 then 2 ^ 64 - 1 else if neg then (2 ^ 64 - v) mod 2 ^ 64 else v,
               dropWhile isdigit s2))"

definition ADDRBUF_SIZE :: nat where "ADDRBUF_SIZE = 64"

text \<open>\<open>Inl (- 1)\<close>: parse error, \<open>Inl (- 2)\<close>: inconsistency; else the network and its mask length.\<close>

definition addr_pton_cidr :: "resolver \<Rightarrow> string option \<Rightarrow> int + xaddr \<times> nat" where
  "addr_pton_cidr getaddrinfo p =
     (case p of
        None \<Rightarrow> Inl (- 1)
      | Some s \<Rightarrow>
          if length s \<ge> ADDRBUF_SIZE then Inl (- 1)
          else let has_mask = CHR ''/'' \<in> set s;
                   addrbuf = takeWhile (\<lambda>c. c \<noteq> CHR ''/'') s;
                   mp = tl (dropWhile (\<lambda>c. c \<noteq> CHR ''/'') s);
                   (masklen, cp) = (if has_mask then strtoul mp else (999, []))
               in if has_mask \<and> (mp = [] \<or> cp \<noteq> [] \<or> masklen > 128) then Inl (- 1)
                  else (case addr_pton getaddrinfo (Some addrbuf) of
                          None \<Rightarrow> Inl (- 1)
                        | Some tmp \<Rightarrow>
                            let ml = (if has_mask then masklen
                                      else nat (addr_unicast_masklen (xa_af tmp) mod 2 ^ 64))
                            in if \<not> masklen_valid (xa_af tmp) (ml mod 2 ^ 32) then Inl (- 2)
                               else if \<not> addr_host_is_all0s tmp (ml mod 2 ^ 32) then Inl (- 2)
                               else Inr (tmp, ml mod 2 ^ 32)))"

definition addr_netmatch :: "xaddr \<Rightarrow> xaddr \<Rightarrow> nat \<Rightarrow> int" where
  "addr_netmatch host net masklen =
     (if xa_af host \<noteq> xa_af net then - 1
      else case addr_netmask (xa_af host) masklen of
        None \<Rightarrow> - 1
      | Some m \<Rightarrow> (case addr_and host m of None \<Rightarrow> - 1 | Some r \<Rightarrow> addr_cmp r net))"

section \<open>Address lists\<close>

text \<open>
  The loop of \<open>addr_match_list\<close>; \<open>q\<close> is the address to try with its parsed form, absent when the
  list is only checked. \<open>addr_entry\<close> is one pass of the body: whether an entry is invalid,
  and whether it is hit.
\<close>

definition addr_entry :: "resolver \<Rightarrow> (string \<times> xaddr) option \<Rightarrow> string \<Rightarrow> bool option" where
  "addr_entry getaddrinfo q cp =
     (case addr_pton_cidr getaddrinfo (Some cp) of
        Inl r \<Rightarrow> if r = - 2 then None
                 else Some (case q of None \<Rightarrow> False | Some (addr, _) \<Rightarrow> match_pattern addr cp)
      | Inr (net, masklen) \<Rightarrow>
          Some (case q of None \<Rightarrow> False | Some (_, try_addr) \<Rightarrow> addr_netmatch try_addr net masklen = 0))"

function addr_match_loop :: "resolver \<Rightarrow> (string \<times> xaddr) option \<Rightarrow> int \<Rightarrow> string option \<Rightarrow> int" where
  "addr_match_loop getaddrinfo q ret lst =
     (case strsep CHR '','' lst of
        (None, _) \<Rightarrow> ret
      | (Some cp0, lst') \<Rightarrow>
          let (neg, cp) = skip_bang cp0 in
          if cp = [] then - 2
          else (case addr_entry getaddrinfo q cp of
                  None \<Rightarrow> - 2
                | Some hit \<Rightarrow>
                    if hit then if neg then - 1 else addr_match_loop getaddrinfo q 1 lst'
                    else addr_match_loop getaddrinfo q ret lst'))"
  by auto
termination by (relation "measure (\<lambda>(_, _, _, lst). sep_size lst)") (auto simp: strsep_size dest: sym)

declare addr_match_loop.simps [simp del]

text \<open>\<open>mem\<close>: whether \<open>strdup\<close> succeeds.\<close>

definition addr_match_list :: "resolver \<Rightarrow> bool \<Rightarrow> string option \<Rightarrow> string \<Rightarrow> int" where
  "addr_match_list getaddrinfo mem addr lst =
     (case addr of
        None \<Rightarrow> if mem then addr_match_loop getaddrinfo None 0 (Some lst) else - 1
      | Some a \<Rightarrow>
          (case addr_pton getaddrinfo addr of
             None \<Rightarrow> 0
           | Some try_addr \<Rightarrow>
               if mem then addr_match_loop getaddrinfo (Some (a, try_addr)) 0 (Some lst) else - 1))"

definition INET6_ADDRSTRLEN :: nat where "INET6_ADDRSTRLEN = 46"

definition VALID_CIDR_CHARS :: string where "VALID_CIDR_CHARS = ''0123456789abcdefABCDEF.:/''"

function addr_match_cidr_loop :: "resolver \<Rightarrow> xaddr option \<Rightarrow> int \<Rightarrow> string option \<Rightarrow> int" where
  "addr_match_cidr_loop getaddrinfo q ret lst =
     (case strsep CHR '','' lst of
        (None, _) \<Rightarrow> ret
      | (Some cp, lst') \<Rightarrow>
          if cp = [] then - 1
          else if length cp > INET6_ADDRSTRLEN + 3 then - 1
          else let ret1 = (if \<not> list_all (\<lambda>c. c \<in> set VALID_CIDR_CHARS) cp then - 1 else ret) in
            (case addr_pton_cidr getaddrinfo (Some cp) of
               Inl _ \<Rightarrow> - 1
             | Inr (net, masklen) \<Rightarrow>
                 addr_match_cidr_loop getaddrinfo q
                   (case q of None \<Rightarrow> ret1
                    | Some try_addr \<Rightarrow> if addr_netmatch try_addr net masklen = 0 then 1 else ret1) lst'))"
  by auto
termination by (relation "measure (\<lambda>(_, _, _, lst). sep_size lst)") (auto simp: strsep_size dest: sym)

declare addr_match_cidr_loop.simps [simp del]

definition addr_match_cidr_list :: "resolver \<Rightarrow> bool \<Rightarrow> string option \<Rightarrow> string \<Rightarrow> int" where
  "addr_match_cidr_list getaddrinfo mem addr lst =
     (case addr of
        None \<Rightarrow> if mem then addr_match_cidr_loop getaddrinfo None 0 (Some lst) else - 1
      | Some a \<Rightarrow>
          (case addr_pton getaddrinfo addr of
             None \<Rightarrow> 0
           | Some try_addr \<Rightarrow>
               if mem then addr_match_cidr_loop getaddrinfo (Some try_addr) 0 (Some lst) else - 1))"

section \<open>Host and user patterns (match.c)\<close>

definition match_host_and_ip ::
  "resolver \<Rightarrow> bool \<Rightarrow> string option \<Rightarrow> string option \<Rightarrow> string \<Rightarrow> int" where
  "match_host_and_ip getaddrinfo mem host ipaddr patterns =
     (let mip = addr_match_list getaddrinfo mem ipaddr patterns in
      if mip = - 2 then - 1
      else if host = None \<or> ipaddr = None \<or> mip = - 1 then 0
      else let mhost = match_hostname (the host) patterns in
        if mhost = - 1 then 0
        else if mhost = 0 \<and> mip = 0 then 0
        else 1)"

definition match_user ::
  "resolver \<Rightarrow> bool \<Rightarrow> string option \<Rightarrow> string option \<Rightarrow> string option \<Rightarrow> string \<Rightarrow> int" where
  "match_user getaddrinfo mem user host ipaddr pattern =
     (let at = (CHR ''@'' \<in> set pattern);
          pat = takeWhile (\<lambda>c. c \<noteq> CHR ''@'') pattern;
          p = tl (dropWhile (\<lambda>c. c \<noteq> CHR ''@'') pattern)
      in if user = None \<and> host = None \<and> ipaddr = None
         then if at \<and> match_host_and_ip getaddrinfo mem None None p < 0 then - 1 else 0
         else if \<not> at then of_bool (match_pattern (the user) pattern)
         else if match_pattern (the user) pat then match_host_and_ip getaddrinfo mem host ipaddr p
         else 0)"

section \<open>Masks and prefixes\<close>

text \<open>Bit \<open>i\<close> of an address, counted from the most significant one.\<close>

definition abit :: "bytes \<Rightarrow> nat \<Rightarrow> bool" where
  "abit bs i \<longleftrightarrow> bit (bs ! (i div 8)) (7 - i mod 8)"

definition xaddr_wf :: "xaddr \<Rightarrow> bool" where
  "xaddr_wf a \<longleftrightarrow> length (addr8 a) = 16"

definition addr_width :: "sa_family \<Rightarrow> nat" where
  "addr_width af = (case af of AF_INET \<Rightarrow> 32 | AF_INET6 \<Rightarrow> 128 | _ \<Rightarrow> 0)"

lemma abit_POKE_U32:
  assumes "i < 32"
  shows "abit (POKE_U32 w) i \<longleftrightarrow> bit w (31 - i)"
proof -
  define q r where "q = i div 8" and "r = i mod 8"
  have i: "31 - i = 31 - (8 * q + r)" and r: "r < 8" by (simp_all add: q_def r_def)
  have "q < 4" using assms by (simp add: q_def)
  then consider "q = 0" | "q = 1" | "q = 2" | "q = 3" by linarith
  then have "bit (POKE_U32 w ! q) (7 - r) \<longleftrightarrow> bit w (31 - (8 * q + r))"
    using r by cases (auto simp: POKE_U32_def bit_simps)
  then show ?thesis unfolding abit_def i by (simp add: q_def r_def)
qed

lemma abit_mem_write:
  assumes "4 * k + length bs \<le> length m" and "i div 8 < length m"
  shows "abit (mem_write (4 * k) bs m) i \<longleftrightarrow>
    (if 32 * k \<le> i \<and> i < 32 * k + 8 * length bs then abit bs (i - 32 * k) else abit m i)"
proof -
  have "4 * k \<le> i div 8 \<and> i div 8 < 4 * k + length bs \<longleftrightarrow> 32 * k \<le> i \<and> i < 32 * k + 8 * length bs"
    by (auto simp: less_eq_div_iff_mult_less_eq div_less_iff_less_mult)
  moreover have "(i - 32 * k) div 8 = i div 8 - 4 * k" "(i - 32 * k) mod 8 = i mod 8" if "32 * k \<le> i"
  proof -
    obtain j where i: "i = 8 * (4 * k) + j" using \<open>32 * k \<le> i\<close> by (auto simp: le_iff_add)
    then have "i - 32 * k = j" by simp
    then show "(i - 32 * k) div 8 = i div 8 - 4 * k" "(i - 32 * k) mod 8 = i mod 8"
      using mod_mult_self4 [of 8 "4 * k" j] by (simp_all add: i)
  qed
  ultimately show ?thesis
    using nth_mem_write [OF assms] by (auto simp: abit_def)
qed

lemma abit_replicate_zero [simp]: "i div 8 < n \<Longrightarrow> \<not> abit (replicate n 0) i"
  by (simp add: abit_def)

lemma mask_word_bit:
  assumes "l \<le> 32" and "i < 32"
  shows "bit (push_bit (32 - l) 0xffffffff AND 0xffffffff :: u32) (31 - i) \<longleftrightarrow> i < l"
proof -
  have m: "(0xffffffff :: u32) = mask 32" by (simp add: mask_eq_exp_minus_1)
  show ?thesis using assms unfolding m by (auto simp: bit_simps)
qed

lemma netmask6_loop_bits:
  assumes "netmask6_loop i l n = (i', l', n')" and "i \<le> 4" and "length n = 16"
    and "\<And>k. k < 128 \<Longrightarrow> abit n k \<longleftrightarrow> k < 32 * i"
  shows "length n' = 16 \<and> i' \<le> 4 \<and> 32 * i' + l' = 32 * i + l \<and> (i' = 4 \<or> l' < 32) \<and>
    (\<forall>k < 128. abit n' k \<longleftrightarrow> k < 32 * i')"
  using assms
proof (induction i l n rule: netmask6_loop.induct)
  case (1 i l n)
  show ?case
  proof (cases "i < 4 \<and> l \<ge> 32")
    case False
    then show ?thesis using "1.prems" by (auto simp: netmask6_loop.simps [of i l n])
  next
    case True
    let ?n = "mem_write (4 * i) (POKE_U32 0xffffffff) n"
    have "bit (0xffffffff :: u32) j" if "j < 32" for j
    proof -
      have m: "(0xffffffff :: u32) = mask 32" by (simp add: mask_eq_exp_minus_1)
      show ?thesis using that unfolding m by (simp add: bit_mask_iff)
    qed
    then have "abit ?n k \<longleftrightarrow> k < 32 * Suc i" if "k < 128" for k
      using abit_mem_write [of i "POKE_U32 0xffffffff" n k] "1.prems"(3,4) True that
      by (auto simp: abit_POKE_U32)
    then show ?thesis
      using "1.IH" [OF True] "1.prems" True by (simp add: netmask6_loop.simps [of i l n])
  qed
qed

lemma addr_netmask_bits:
  assumes "addr_netmask af l = Some m"
  shows "xa_af m = af" "length (addr8 m) = 16" "l \<le> addr_width af"
    "i < addr_width af \<Longrightarrow> abit (addr8 m) i \<longleftrightarrow> i < l"
proof -
  have v: "masklen_valid af l" using assms by (auto simp: addr_netmask_def split: if_splits)
  then have af: "af = AF_INET \<and> l \<le> 32 \<or> af = AF_INET6 \<and> l \<le> 128"
    by (auto simp: masklen_valid_def split: sa_family.splits)
  show "l \<le> addr_width af" using af by (auto simp: addr_width_def)
  have "xa_af m = af \<and> length (addr8 m) = 16 \<and> (\<forall>i < addr_width af. abit (addr8 m) i \<longleftrightarrow> i < l)"
    using af
  proof
    assume a: "af = AF_INET \<and> l \<le> 32"
    let ?w = "push_bit (32 - l) 0xffffffff AND 0xffffffff :: u32"
    have m: "addr8 m = (if l = 0 then replicate 16 0 else mem_write (4 * 0) (POKE_U32 ?w) (replicate 16 0))"
      "xa_af m = af"
      using assms a v by (auto simp: addr_netmask_def xaddr_zero_def)
    have "abit (mem_write (4 * 0) (POKE_U32 ?w) (replicate 16 0)) i \<longleftrightarrow> i < l" if "i < 32" for i
      using abit_mem_write [of 0 "POKE_U32 ?w" "replicate 16 0" i] that a
      by (simp add: abit_POKE_U32 mask_word_bit)
    then show ?thesis using a m by (simp add: addr_width_def)
  next
    assume a: "af = AF_INET6 \<and> l \<le> 128"
    obtain i' l' n where loop: "netmask6_loop 0 l (replicate 16 0) = (i', l', n)"
      by (metis prod_cases3)
    have b: "length n = 16" "i' \<le> 4" "32 * i' + l' = l" "i' = 4 \<or> l' < 32"
      "\<And>k. k < 128 \<Longrightarrow> abit n k \<longleftrightarrow> k < 32 * i'"
      using netmask6_loop_bits [OF loop] by auto
    let ?w = "push_bit (32 - l') 0xffffffff AND 0xffffffff :: u32"
    have m: "addr8 m = (if i' < 4 \<and> l' \<noteq> 0 then mem_write (4 * i') (POKE_U32 ?w) n else n)"
      "xa_af m = af"
      using assms a v loop by (auto simp: addr_netmask_def xaddr_zero_def)
    have "abit (mem_write (4 * i') (POKE_U32 ?w) n) k \<longleftrightarrow> k < l" if k: "k < 128" "i' < 4" for k
    proof -
      have "k div 8 < 16" using k(1) by linarith
      then have w: "abit (mem_write (4 * i') (POKE_U32 ?w) n) k \<longleftrightarrow>
          (if 32 * i' \<le> k \<and> k < 32 * i' + 32 then abit (POKE_U32 ?w) (k - 32 * i') else k < 32 * i')"
        using abit_mem_write [of i' "POKE_U32 ?w" n k] k b by simp
      have "abit (POKE_U32 ?w) (k - 32 * i') \<longleftrightarrow> k - 32 * i' < l'" if "k - 32 * i' < 32"
        using abit_POKE_U32 [OF that, of ?w] mask_word_bit [OF _ that, of l'] b(4) k(2) by simp
      moreover have "k - 32 * i' < l' \<longleftrightarrow> k < l" if "32 * i' \<le> k" using b(3) that by linarith
      ultimately show ?thesis unfolding w using b(3,4) k(2) by (cases "k < 32 * i' + 32") auto
    qed
    then show ?thesis using a m b by (auto simp: addr_width_def)
  qed
  then show "xa_af m = af" "length (addr8 m) = 16"
    "i < addr_width af \<Longrightarrow> abit (addr8 m) i \<longleftrightarrow> i < l" by blast+
qed

lemma abit_bytes_and:
  assumes "length a = length b" and "i div 8 < length a"
  shows "abit (bytes_and a b) i \<longleftrightarrow> abit a i \<and> abit b i"
  using assms by (simp add: abit_def bytes_and_def bit_and_iff)

lemma abit_take: "i div 8 < n \<Longrightarrow> abit (take n a) i \<longleftrightarrow> abit a i"
  by (simp add: abit_def)

lemma bytes_eq_abit:
  assumes "length a = length b"
  shows "a = b \<longleftrightarrow> (\<forall>i < 8 * length a. abit a i \<longleftrightarrow> abit b i)" (is "_ \<longleftrightarrow> ?R")
proof
  assume R: ?R
  show "a = b"
  proof (rule nth_equalityI [OF assms])
    fix k assume k: "k < length a"
    show "a ! k = b ! k"
    proof (rule bit_word_eqI)
      fix j assume "j < LENGTH(8)"
      then have j: "7 - j < 8" "7 - (7 - j) = j" by simp_all
      have "8 * k + (7 - j) < 8 * length a" using k j(1) by linarith
      moreover have "(8 * k + (7 - j)) div 8 = k" "(8 * k + (7 - j)) mod 8 = 7 - j"
        using j(1) mod_mult_self4 [of 8 k "7 - j"] by (simp_all only: div_mult_self4) simp_all
      moreover note j(2)
      ultimately show "bit (a ! k) j = bit (b ! k) j" using R [rule_format, of "8 * k + (7 - j)"]
        by (simp add: abit_def)
    qed
  qed
qed simp

lemma cmp8_eq_0: "length a = length b \<Longrightarrow> cmp8 a b = 0 \<longleftrightarrow> a = b"
  by (induction a b rule: cmp8.induct) auto

lemma addr_cmp_eq_0:
  assumes "xaddr_wf a" and "xaddr_wf b" and "xa_af a = xa_af b"
  shows "addr_cmp a b = 0 \<longleftrightarrow> 0 < addr_width (xa_af a) \<and>
    (\<forall>i < addr_width (xa_af a). abit (addr8 a) i \<longleftrightarrow> abit (addr8 b) i) \<and>
    (xa_af a = AF_INET6 \<longrightarrow> scope_id a = scope_id b)"
proof (cases "xa_af a")
  case AF_INET
  have "take 4 (addr8 a) = take 4 (addr8 b) \<longleftrightarrow> (\<forall>i < 32. abit (addr8 a) i \<longleftrightarrow> abit (addr8 b) i)"
    using assms by (subst bytes_eq_abit) (auto simp: xaddr_wf_def abit_take)
  then show ?thesis using AF_INET assms(3) by (simp add: addr_cmp_def addr_width_def)
next
  case AF_INET6
  have "cmp8 (addr8 a) (addr8 b) = 0 \<longleftrightarrow> (\<forall>i < 128. abit (addr8 a) i \<longleftrightarrow> abit (addr8 b) i)"
    using assms by (simp add: xaddr_wf_def cmp8_eq_0 bytes_eq_abit)
  then show ?thesis using AF_INET6 assms(3) by (auto simp: addr_cmp_def addr_width_def Let_def)
qed (use assms(3) in \<open>simp_all add: addr_cmp_def addr_width_def\<close>)

lemma addr_and_bits:
  assumes "xaddr_wf a" and "xaddr_wf b" and "xa_af a = xa_af b" and "0 < addr_width (xa_af a)"
  obtains r where "addr_and a b = Some r" and "xaddr_wf r" and "xa_af r = xa_af a"
    and "scope_id r = scope_id a"
    and "\<And>i. i < addr_width (xa_af a) \<Longrightarrow> abit (addr8 r) i \<longleftrightarrow> abit (addr8 a) i \<and> abit (addr8 b) i"
proof (cases "xa_af a")
  case AF_INET
  let ?x = "bytes_and (take 4 (addr8 a)) (take 4 (addr8 b))"
  have l: "length ?x = 4" using assms by (simp add: bytes_and_def xaddr_wf_def)
  have "abit (mem_write (4 * 0) ?x (addr8 a)) i \<longleftrightarrow> abit (addr8 a) i \<and> abit (addr8 b) i" if "i < 32" for i
    using abit_mem_write [of 0 ?x "addr8 a" i] l assms that
    by (simp add: xaddr_wf_def abit_bytes_and abit_take)
  then show thesis
    using AF_INET assms l
    by (intro that [of "a\<lparr>addr8 := mem_write (4 * 0) ?x (addr8 a)\<rparr>"])
      (auto simp: addr_and_def addr_width_def xaddr_wf_def)
next
  case AF_INET6
  then show thesis
    using assms
    by (intro that [of "a\<lparr>addr8 := bytes_and (addr8 a) (addr8 b)\<rparr>"])
      (auto simp: addr_and_def addr_width_def xaddr_wf_def abit_bytes_and, auto simp: bytes_and_def)
qed (use assms(4) in \<open>simp_all add: addr_width_def\<close>)

lemma masklen_valid_iff: "masklen_valid af l \<longleftrightarrow> 0 < addr_width af \<and> l \<le> addr_width af"
  by (auto simp: masklen_valid_def addr_width_def split: sa_family.splits)

lemma addr_netmask_Some: "masklen_valid af l \<Longrightarrow> \<exists>m. addr_netmask af l = Some m"
  by (auto simp: addr_netmask_def masklen_valid_def split: sa_family.splits)

text \<open>A network is canonical for a mask length when its host part is zero.\<close>

lemma addr_host_is_all0s_iff:
  assumes wf: "xaddr_wf a" and v: "masklen_valid (xa_af a) l"
  shows "addr_host_is_all0s a l \<longleftrightarrow> (\<forall>i < addr_width (xa_af a). l \<le> i \<longrightarrow> \<not> abit (addr8 a) i)"
proof -
  let ?w = "addr_width (xa_af a)"
  have w: "0 < ?w" using v by (simp add: masklen_valid_iff)
  obtain m where m: "addr_netmask (xa_af a) l = Some m" using addr_netmask_Some [OF v] by blast
  note mb = addr_netmask_bits [OF m]
  obtain h where h: "addr_invert m = Some h" "xa_af h = xa_af a" "xaddr_wf h"
    "\<And>i. i < ?w \<Longrightarrow> abit (addr8 h) i \<longleftrightarrow> l \<le> i"
  proof (cases "xa_af a")
    case AF_INET
    let ?x = "map (\<lambda>x. NOT x) (take 4 (addr8 m))"
    have "abit (mem_write (4 * 0) ?x (addr8 m)) i \<longleftrightarrow> l \<le> i" if "i < 32" for i
      using abit_mem_write [of 0 ?x "addr8 m" i] mb(2) mb(4) [of i] that AF_INET
      by (auto simp: addr_width_def abit_def bit_not_iff)
    then show thesis
      using AF_INET mb by (intro that [of "m\<lparr>addr8 := mem_write (4 * 0) ?x (addr8 m)\<rparr>"])
        (auto simp: addr_invert_def addr_width_def xaddr_wf_def)
  next
    case AF_INET6
    then show thesis
      using mb by (intro that [of "m\<lparr>addr8 := map (\<lambda>x. NOT x) (addr8 m)\<rparr>"])
        (auto simp: addr_invert_def addr_width_def xaddr_wf_def abit_def bit_not_iff)
  qed (use w in \<open>simp_all add: addr_width_def\<close>)
  obtain r where r: "addr_and a h = Some r" "xaddr_wf r" "xa_af r = xa_af a"
    "\<And>i. i < ?w \<Longrightarrow> abit (addr8 r) i \<longleftrightarrow> abit (addr8 a) i \<and> abit (addr8 h) i"
    using addr_and_bits [OF wf h(3) h(2) [symmetric] w] by metis
  have z: "list_all (\<lambda>x. x = 0) bs \<longleftrightarrow> (\<forall>i < 8 * length bs. \<not> abit bs i)" for bs :: bytes
  proof -
    have "list_all (\<lambda>x. x = 0) bs \<longleftrightarrow> bs = replicate (length bs) 0"
      by (simp add: list_all_iff) (metis in_set_replicate replicate_length_same)
    then show ?thesis by (auto simp: bytes_eq_abit)
  qed
  have "addr_is_all0s r \<longleftrightarrow> (\<forall>i < ?w. \<not> abit (addr8 r) i)"
    using w r(2,3)
    by (cases "xa_af a") (auto simp: addr_is_all0s_def z addr_width_def xaddr_wf_def abit_take)
  then show ?thesis
    using m h(1) r h(4) by (auto simp: addr_host_is_all0s_def addr_hostmask_def)
qed

text \<open>
  \<open>addr_netmatch\<close> against a canonical network: same family, same prefix and, for IPv6, the same
  scope.
\<close>

lemma addr_netmatch_iff:
  assumes wf: "xaddr_wf host" "xaddr_wf net" and v: "masklen_valid (xa_af net) l"
    and can: "addr_host_is_all0s net l"
  shows "addr_netmatch host net l = 0 \<longleftrightarrow> xa_af host = xa_af net \<and>
    (\<forall>i < l. abit (addr8 host) i \<longleftrightarrow> abit (addr8 net) i) \<and>
    (xa_af net = AF_INET6 \<longrightarrow> scope_id host = scope_id net)"
proof (cases "xa_af host = xa_af net")
  case True
  let ?w = "addr_width (xa_af net)"
  have w: "0 < ?w" "l \<le> ?w" using v by (simp_all add: masklen_valid_iff)
  obtain m where m: "addr_netmask (xa_af net) l = Some m" using addr_netmask_Some [OF v] by blast
  note mb = addr_netmask_bits [OF m]
  obtain r where r: "addr_and host m = Some r" "xaddr_wf r" "xa_af r = xa_af net" "scope_id r = scope_id host"
    "\<And>i. i < ?w \<Longrightarrow> abit (addr8 r) i \<longleftrightarrow> abit (addr8 host) i \<and> i < l"
    using addr_and_bits [OF wf(1), of m] mb True w(1) by (metis xaddr_wf_def)
  have n: "\<And>i. i < ?w \<Longrightarrow> l \<le> i \<Longrightarrow> \<not> abit (addr8 net) i"
    using can addr_host_is_all0s_iff [OF wf(2) v] by blast
  have "addr_netmatch host net l = addr_cmp r net" using True m r(1) by (simp add: addr_netmatch_def)
  also have "addr_cmp r net = 0 \<longleftrightarrow> (\<forall>i < ?w. abit (addr8 host) i \<and> i < l \<longleftrightarrow> abit (addr8 net) i) \<and>
      (xa_af net = AF_INET6 \<longrightarrow> scope_id host = scope_id net)"
    using addr_cmp_eq_0 [OF r(2) wf(2) r(3)] w(1) r(3-5) by auto
  also have "(\<forall>i < ?w. abit (addr8 host) i \<and> i < l \<longleftrightarrow> abit (addr8 net) i) \<longleftrightarrow>
      (\<forall>i < l. abit (addr8 host) i \<longleftrightarrow> abit (addr8 net) i)"
    using n w(2) by (meson leI less_le_trans)
  finally show ?thesis using True by simp
qed (simp add: addr_netmatch_def)

section \<open>Address lists as negatable lists\<close>

definition addr_items :: "string \<Rightarrow> (bool \<times> string) list" where
  "addr_items l = map skip_bang (tokens l)"

text \<open>An address string is asked for, parses, and every entry of the list is well-formed.\<close>

definition addr_list_ok :: "resolver \<Rightarrow> string \<Rightarrow> string \<Rightarrow> bool" where
  "addr_list_ok getaddrinfo a l \<longleftrightarrow> addr_pton getaddrinfo (Some a) \<noteq> None \<and>
     list_all (\<lambda>(n, e). e \<noteq> [] \<and> addr_pton_cidr getaddrinfo (Some e) \<noteq> Inl (- 2)) (addr_items l)"

definition addr_hit :: "resolver \<Rightarrow> string \<Rightarrow> string \<Rightarrow> bool" where
  "addr_hit getaddrinfo a e =
     (case addr_pton_cidr getaddrinfo (Some e) of
        Inl _ \<Rightarrow> match_pattern a e
      | Inr (net, l) \<Rightarrow> addr_netmatch (the (addr_pton getaddrinfo (Some a))) net l = 0)"

lemma addr_entry_eq:
  assumes "addr_pton getaddrinfo (Some a) = Some x" and "addr_pton_cidr getaddrinfo (Some e) \<noteq> Inl (- 2)"
  shows "addr_entry getaddrinfo (Some (a, x)) e = Some (addr_hit getaddrinfo a e)"
  using assms by (auto simp: addr_entry_def addr_hit_def split: sum.splits)

lemma addr_match_loop_eq:
  assumes "addr_pton getaddrinfo (Some a) = Some x"
    and "\<And>t. t \<in> set (tokens_from CHR '','' lst) \<Longrightarrow> snd (skip_bang t) \<noteq> [] \<and>
      addr_pton_cidr getaddrinfo (Some (snd (skip_bang t))) \<noteq> Inl (- 2)"
  shows "addr_match_loop getaddrinfo (Some (a, x)) ret lst =
    neg_eval ret (map (\<lambda>(n, e). (n, addr_hit getaddrinfo a e)) (map skip_bang (tokens_from CHR '','' lst)))"
  using assms
proof (induction getaddrinfo "Some (a, x)" ret lst rule: addr_match_loop.induct)
  case (1 gai ret lst)
  obtain r lst' where r: "strsep CHR '','' lst = (r, lst')" by force
  show ?case
  proof (cases r)
    case None
    then show ?thesis using r by (simp add: addr_match_loop.simps [of _ _ _ lst] strsep_tokens)
  next
    case (Some t)
    obtain n e where ne: "skip_bang t = (n, e)" by force
    have e: "e \<noteq> []" "addr_entry gai (Some (a, x)) e = Some (addr_hit gai a e)"
      using "1.prems"(2) [of t] r Some ne addr_entry_eq [OF "1.prems"(1)] by (simp_all add: strsep_tokens)
    have rest: "\<And>t. t \<in> set (tokens_from CHR '','' lst') \<Longrightarrow> snd (skip_bang t) \<noteq> [] \<and>
        addr_pton_cidr gai (Some (snd (skip_bang t))) \<noteq> Inl (- 2)"
      using "1.prems"(2) r Some by (simp add: strsep_tokens)
    show ?thesis
      using "1.hyps"(1) [OF r [symmetric] Some ne [symmetric] refl e(1) e(2) _ _ "1.prems"(1) rest]
        "1.hyps"(2) [OF r [symmetric] Some ne [symmetric] refl e(1) e(2) _ "1.prems"(1) rest]
      by (simp add: addr_match_loop.simps [of _ _ _ lst] strsep_tokens r Some ne e)
  qed
qed

interpretation am: negatable_list "\<lambda>a l. addr_match_list getaddrinfo True (Some a) l" addr_items
  "addr_hit getaddrinfo" "addr_list_ok getaddrinfo" for getaddrinfo
proof
  fix a l assume ok: "addr_list_ok getaddrinfo a l"
  then obtain x where x: "addr_pton getaddrinfo (Some a) = Some x" by (auto simp: addr_list_ok_def)
  have "addr_match_list getaddrinfo True (Some a) l =
      addr_match_loop getaddrinfo (Some (a, x)) 0 (Some l)"
    by (simp add: addr_match_list_def x)
  also have "\<dots> = neg_eval 0 (map (\<lambda>(n, e). (n, addr_hit getaddrinfo a e)) (addr_items l))"
    unfolding addr_items_def using ok
    by (intro addr_match_loop_eq [OF x]) (force simp: addr_list_ok_def addr_items_def list_all_iff)
  finally show "addr_match_list getaddrinfo True (Some a) l =
      neg_verdict (map (\<lambda>(n, e). (n, addr_hit getaddrinfo a e)) (addr_items l))"
    by (simp add: neg_eval_verdict neg_verdict_def)
qed

section \<open>Properties\<close>

text \<open>
  What is assumed of the resolver: an address of a family has the size of that family.
\<close>

definition resolver_wf :: "resolver \<Rightarrow> bool" where
  "resolver_wf getaddrinfo \<longleftrightarrow> (\<forall>s sa slen. getaddrinfo s = Some (Some (sa, slen)) \<longrightarrow>
     (sa_fam sa = AF_INET \<longrightarrow> length (sin_addr sa) = 4) \<and>
     (sa_fam sa = AF_INET6 \<longrightarrow> length (sin6_addr sa) = 16))"

lemma addr_pton_wf:
  assumes "resolver_wf getaddrinfo" and "addr_pton getaddrinfo p = Some x"
  shows "xaddr_wf x"
  using assms unfolding resolver_wf_def
  by (fastforce simp: addr_pton_def addr_sa_to_xaddr_def xaddr_wf_def xaddr_zero_def
      split: option.splits prod.splits sa_family.splits if_splits)

lemma addr_pton_cidr_Inr:
  assumes "addr_pton_cidr getaddrinfo (Some s) = Inr (net, l)"
  shows "masklen_valid (xa_af net) l" "addr_host_is_all0s net l"
    "addr_pton getaddrinfo (Some (takeWhile (\<lambda>c. c \<noteq> CHR ''/'') s)) = Some net"
  using assms
  by (auto simp: addr_pton_cidr_def Let_def split: if_splits option.splits prod.splits)

text \<open>
  C33. An entry \<open>addr/len\<close> that \<open>addr_pton_cidr\<close> accepts is a canonical network of valid mask
  length, and \<open>addr_netmatch\<close> then holds exactly for the addresses of the same family whose first
  \<open>len\<close> bits agree with it (and, for IPv6, whose scope is the same).
\<close>

theorem addr_cidr_match:
  assumes "resolver_wf getaddrinfo"
    and "addr_pton_cidr getaddrinfo (Some e) = Inr (net, l)"
    and "addr_pton getaddrinfo (Some a) = Some host"
  shows "l \<le> addr_width (xa_af net) \<and>
    (\<forall>i < addr_width (xa_af net). l \<le> i \<longrightarrow> \<not> abit (addr8 net) i) \<and>
    (addr_netmatch host net l = 0 \<longleftrightarrow> xa_af host = xa_af net \<and>
      (\<forall>i < l. abit (addr8 host) i = abit (addr8 net) i) \<and>
      (xa_af net = AF_INET6 \<longrightarrow> scope_id host = scope_id net))"
proof -
  note c = addr_pton_cidr_Inr [OF assms(2)]
  have wf: "xaddr_wf net" "xaddr_wf host"
    using addr_pton_wf [OF assms(1) c(3)] addr_pton_wf [OF assms(1,3)] by simp_all
  show ?thesis
    using addr_netmatch_iff [OF wf(2,1) c(1,2)] addr_host_is_all0s_iff [OF wf(1) c(1)] c(1,2)
    by (simp add: masklen_valid_iff)
qed

text \<open>A resolver that knows two IPv4 addresses.\<close>

definition two_hosts :: resolver where
  "two_hosts s =
     (if s = ''10.0.0.0'' then Some (Some (\<lparr>sa_fam = AF_INET, sin_addr = [10, 0, 0, 0],
        sin6_addr = [], sin6_scope_id = 0\<rparr>, 16))
      else if s = ''10.1.2.3'' then Some (Some (\<lparr>sa_fam = AF_INET, sin_addr = [10, 1, 2, 3],
        sin6_addr = [], sin6_scope_id = 0\<rparr>, 16))
      else None)"

lemma two_hosts_wf: "resolver_wf two_hosts"
  by (simp add: resolver_wf_def two_hosts_def)

definition net10 :: xaddr where
  "net10 = \<lparr>xa_af = AF_INET, addr8 = 10 # replicate 15 0, scope_id = 0\<rparr>"

definition host10 :: xaddr where
  "host10 = \<lparr>xa_af = AF_INET, addr8 = [10, 1, 2, 3] @ replicate 12 0, scope_id = 0\<rparr>"

lemma strtoul_8: "strtoul ''8'' = (8, [])" "strtoul '' 8'' = (8, [])"
  by (simp_all add: strtoul_def isspace_def isdigit_def digits_value_def)

lemma net10_canonical: "addr_host_is_all0s net10 8"
  by code_simp

lemma two_hosts_pton:
  "addr_pton two_hosts (Some ''10.0.0.0'') = Some net10"
  "addr_pton two_hosts (Some ''10.1.2.3'') = Some host10"
  by code_simp+

lemma two_hosts_parse:
  "addr_pton_cidr two_hosts (Some ''10.0.0.0/8'') = Inr (net10, 8)"
  "addr_pton_cidr two_hosts (Some ''10.0.0.0/ 8'') = Inr (net10, 8)"
  "addr_pton_cidr two_hosts (Some ''x*'') = Inl (- 1)"
  using two_hosts_pton net10_canonical
  by (simp_all add: addr_pton_cidr_def ADDRBUF_SIZE_def strtoul_8 masklen_valid_def
      addr_pton_def [of _ "Some ''x*''"] two_hosts_def [of "''x*''"])
    (simp_all add: net10_def)

lemma addr_cidr_match_witness: "addr_netmatch host10 net10 8 = 0"
proof -
  have "abit (addr8 host10) i = abit (addr8 net10) i" if "i < 8" for i
    using that by (simp add: abit_def host10_def net10_def)
  then show ?thesis
    using addr_cidr_match [OF two_hosts_wf two_hosts_parse(1) two_hosts_pton(2)] by (simp add: host10_def net10_def)
qed

text \<open>
  C34. On a well-formed list, \<open>match_host_and_ip\<close> accepts exactly when some plain entry is hit,
  by the address or by the host name, and no negated entry is hit by either; an invalid address
  entry is reported as an error whatever the host name.
\<close>

theorem match_host_and_ip_iff:
  assumes "addr_list_ok getaddrinfo ip pats" and "list_short True host pats"
  shows "match_host_and_ip getaddrinfo True (Some host) (Some ip) pats = 1 \<longleftrightarrow>
    ((\<exists>e. (False, e) \<in> set (addr_items pats) \<and> addr_hit getaddrinfo ip e) \<or>
     (\<exists>e. (False, e) \<in> set (list_items True pats) \<and> match_pattern host e)) \<and>
    (\<forall>e. (True, e) \<in> set (addr_items pats) \<longrightarrow> \<not> addr_hit getaddrinfo ip e) \<and>
    (\<forall>e. (True, e) \<in> set (list_items True pats) \<longrightarrow> \<not> match_pattern host e)"
proof -
  let ?ip = "addr_match_list getaddrinfo True (Some ip) pats"
  let ?h = "match_pattern_list host pats True"
  have r: "?ip \<in> {- 1, 0, 1}" "?h \<in> {- 1, 0, 1}"
    using am.verdict_law [OF assms(1)] mp.verdict_law [OF assms(2)] by (simp_all add: neg_verdict_def)
  then have "match_host_and_ip getaddrinfo True (Some host) (Some ip) pats = 1 \<longleftrightarrow>
      (?ip = 1 \<or> ?h = 1) \<and> ?ip \<noteq> - 1 \<and> ?h \<noteq> - 1"
    by (auto simp: match_host_and_ip_def match_hostname_def Let_def)
  then show ?thesis
    unfolding am.accept_iff [OF assms(1)] mp.accept_iff [OF assms(2)]
      am.reject_iff [OF assms(1)] mp.reject_iff [OF assms(2)] by blast
qed

lemma match_host_and_ip_iff_witness:
  "match_host_and_ip two_hosts True (Some ''h'') (Some ''10.1.2.3'') ''10.0.0.0/8,!x*'' = 1"
proof -
  have i: "addr_items ''10.0.0.0/8,!x*'' = [(False, ''10.0.0.0/8''), (True, ''x*'')]"
    "list_items True ''10.0.0.0/8,!x*'' = [(False, ''10.0.0.0/8''), (True, ''x*'')]"
    by code_simp+
  have "addr_list_ok two_hosts ''10.1.2.3'' ''10.0.0.0/8,!x*''"
    by (simp add: addr_list_ok_def i two_hosts_parse two_hosts_pton)
  moreover have "list_short True ''h'' ''10.0.0.0/8,!x*''"
    by (simp add: list_short_def i SUB_SIZE_def)
  moreover have "addr_netmatch host10 net10 8 = 0" by code_simp
  then have "addr_hit two_hosts ''10.1.2.3'' ''10.0.0.0/8''"
    by (simp add: addr_hit_def two_hosts_parse two_hosts_pton)
  moreover have "\<not> match_pattern ''10.1.2.3'' ''x*''" "\<not> match_pattern ''h'' ''x*''" by code_simp+
  moreover from this have "\<not> addr_hit two_hosts ''10.1.2.3'' ''x*''"
    by (simp add: addr_hit_def two_hosts_parse)
  ultimately show ?thesis
    using match_host_and_ip_iff [of two_hosts "''10.1.2.3''" "''10.0.0.0/8,!x*''" "''h''"]
    unfolding i by auto
qed

text \<open>
  \<open>addr_match_cidr_list\<close> notes an entry with forbidden characters but goes on: the entry still
  reaches the resolver and, when it parses and matches, the result is 1 and not the error \<open>- 1\<close>.
\<close>

theorem addr_match_cidr_list_junk:
  assumes "\<not> list_all (\<lambda>c. c \<in> set VALID_CIDR_CHARS) e" and "CHR '','' \<notin> set e"
    and "length e \<le> INET6_ADDRSTRLEN + 3"
    and "addr_pton_cidr getaddrinfo (Some e) = Inr (net, l)"
    and "addr_pton getaddrinfo (Some a) = Some host" and "addr_netmatch host net l = 0"
  shows "addr_match_cidr_list getaddrinfo True (Some a) e = 1"
proof -
  have ne: "e \<noteq> []" using assms(1) by auto
  have "dropWhile (\<lambda>c. c \<noteq> CHR '','') e = []" "takeWhile (\<lambda>c. c \<noteq> CHR '','') e = e"
    using assms(2) by (auto simp: dropWhile_eq_Nil_conv takeWhile_eq_all_conv)
  then have sep: "strsep CHR '','' (Some e) = (Some e, None)" "strsep CHR '','' None = (None, None)"
    by (simp_all add: strsep_def del: dropWhile_eq_Nil_conv)
  show ?thesis
    using assms(3-6) ne
    by (simp add: addr_match_cidr_list_def addr_match_cidr_loop.simps sep)
qed

lemma addr_match_cidr_list_junk_witness:
  "addr_match_cidr_list two_hosts True (Some ''10.1.2.3'') ''10.0.0.0/ 8'' = 1"
proof (rule addr_match_cidr_list_junk)
  show "\<not> list_all (\<lambda>c. c \<in> set VALID_CIDR_CHARS) ''10.0.0.0/ 8''" by code_simp
  show "addr_pton_cidr two_hosts (Some ''10.0.0.0/ 8'') = Inr (net10, 8)" by (rule two_hosts_parse)
  show "addr_pton two_hosts (Some ''10.1.2.3'') = Some host10" by (rule two_hosts_pton)
  show "addr_netmatch host10 net10 8 = 0" by code_simp
qed (simp_all add: INET6_ADDRSTRLEN_def)

end
