(* ===== verification/Chachapoly.thy ===== *)
theory Chachapoly
  imports Prelude Ssherr
begin

text \<open>
  The ChaCha20 stream cipher (\<open>chacha.c\<close>), the Poly1305 authenticator in its 26-bit limb
  implementation (\<open>poly1305.c\<close>) and their combination for SSH packets
  (\<open>cipher-chachapoly.c\<close>), on 32- and 64-bit words. The last partial block of ChaCha goes through a
  stack array whose unused tail is indeterminate; it is filled with zeros here, and no output
  byte depends on it.
\<close>

section \<open>ChaCha20\<close>

record chacha_ctx =
  chacha_input :: "u32 list"

definition U8TO32_LITTLE :: "bytes \<Rightarrow> u32" where
  "U8TO32_LITTLE p = (ucast (p ! 0) OR push_bit 8 (ucast (p ! 1)) OR
     push_bit 16 (ucast (p ! 2)) OR push_bit 24 (ucast (p ! 3)))"

definition U32TO8_LITTLE :: "u32 \<Rightarrow> bytes" where
  "U32TO8_LITTLE v = [ucast v, ucast (drop_bit 8 v), ucast (drop_bit 16 v), ucast (drop_bit 24 v)]"

definition ROTL32 :: "u32 \<Rightarrow> nat \<Rightarrow> u32" where
  "ROTL32 v n = (push_bit n v OR drop_bit (32 - n) v)"

definition QUARTERROUND :: "nat \<Rightarrow> nat \<Rightarrow> nat \<Rightarrow> nat \<Rightarrow> u32 list \<Rightarrow> u32 list" where
  "QUARTERROUND a b c d x =
     (let x = x[a := x ! a + x ! b]; x = x[d := ROTL32 (x ! d XOR x ! a) 16];
          x = x[c := x ! c + x ! d]; x = x[b := ROTL32 (x ! b XOR x ! c) 12];
          x = x[a := x ! a + x ! b]; x = x[d := ROTL32 (x ! d XOR x ! a) 8];
          x = x[c := x ! c + x ! d]
      in x[b := ROTL32 (x ! b XOR x ! c) 7])"

definition chacha_double_round :: "u32 list \<Rightarrow> u32 list" where
  "chacha_double_round x =
     QUARTERROUND 3 4 9 14 (QUARTERROUND 2 7 8 13 (QUARTERROUND 1 6 11 12 (QUARTERROUND 0 5 10 15
       (QUARTERROUND 3 7 11 15 (QUARTERROUND 2 6 10 14 (QUARTERROUND 1 5 9 13
         (QUARTERROUND 0 4 8 12 x)))))))"

definition chacha_block :: "u32 list \<Rightarrow> u32 list" where
  "chacha_block j = map2 (+) ((chacha_double_round ^^ 10) j) j"

definition chacha_counter :: "u32 list \<Rightarrow> u32 list" where
  "chacha_counter j =
     (let j' = j[12 := j ! 12 + 1] in
      if j' ! 12 = 0 then j'[13 := j' ! 13 + 1] else j')"

definition sigma :: bytes where
  "sigma = map of_char ''expand 32-byte k''"

definition tau :: bytes where
  "tau = map of_char ''expand 16-byte k''"

definition chacha_keysetup :: "chacha_ctx \<Rightarrow> bytes \<Rightarrow> nat \<Rightarrow> chacha_ctx" where
  "chacha_keysetup x k kbits =
     (let w = (\<lambda>p off. U8TO32_LITTLE (drop off p));
          k2 = (if kbits = 256 then drop 16 k else k);
          constants = (if kbits = 256 then sigma else tau);
          i = chacha_input x
      in x\<lparr>chacha_input := [w constants 0, w constants 4, w constants 8, w constants 12,
             w k 0, w k 4, w k 8, w k 12, w k2 0, w k2 4, w k2 8, w k2 12] @ drop 12 i\<rparr>)"

definition chacha_ivsetup :: "chacha_ctx \<Rightarrow> bytes \<Rightarrow> bytes option \<Rightarrow> chacha_ctx" where
  "chacha_ivsetup x iv counter =
     x\<lparr>chacha_input := take 12 (chacha_input x) @
        [case counter of None \<Rightarrow> 0 | Some c \<Rightarrow> U8TO32_LITTLE c,
         case counter of None \<Rightarrow> 0 | Some c \<Rightarrow> U8TO32_LITTLE (drop 4 c),
         U8TO32_LITTLE iv, U8TO32_LITTLE (drop 4 iv)]\<rparr>"

text \<open>The 64 bytes of one block of output: the words of \<open>x\<close> and of the message, combined.\<close>

definition chacha_emit :: "u32 list \<Rightarrow> bytes \<Rightarrow> bytes" where
  "chacha_emit x m =
     concat (map (\<lambda>i. U32TO8_LITTLE (x ! i XOR U8TO32_LITTLE (drop (4 * i) m))) [0..<16])"

function chacha_loop :: "u32 list \<Rightarrow> bytes \<Rightarrow> bytes \<times> u32 list" where
  "chacha_loop j m =
     (let x = chacha_block j; j' = chacha_counter j in
      if length m \<le> 64
      then (take (length m) (chacha_emit x (m @ replicate (64 - length m) 0)), j')
      else case chacha_loop j' (drop 64 m) of (c, j'') \<Rightarrow> (chacha_emit x (take 64 m) @ c, j''))"
  by auto
termination by (relation "measure (\<lambda>(_, m). length m)") auto

declare chacha_loop.simps [simp del]

definition chacha_encrypt_bytes :: "chacha_ctx \<Rightarrow> bytes \<Rightarrow> bytes \<times> chacha_ctx" where
  "chacha_encrypt_bytes x m =
     (if m = [] then ([], x)
      else case chacha_loop (chacha_input x) m of
        (c, j) \<Rightarrow> (c, x\<lparr>chacha_input := (chacha_input x)[12 := j ! 12, 13 := j ! 13]\<rparr>))"

section \<open>Poly1305\<close>

definition POLY1305_KEYLEN :: nat where "POLY1305_KEYLEN = 32"
definition POLY1305_TAGLEN :: nat where "POLY1305_TAGLEN = 16"

type_synonym limbs = "u32 \<times> u32 \<times> u32 \<times> u32 \<times> u32"

definition mul32x32_64 :: "u32 \<Rightarrow> u32 \<Rightarrow> u64" where
  "mul32x32_64 a b = ucast a * ucast b"

text \<open>The clamped multiplier.\<close>

definition poly1305_clamp :: "bytes \<Rightarrow> limbs" where
  "poly1305_clamp key =
     (let t0 = U8TO32_LITTLE key; t1 = U8TO32_LITTLE (drop 4 key);
          t2 = U8TO32_LITTLE (drop 8 key); t3 = U8TO32_LITTLE (drop 12 key);
          r0 = t0 AND 0x3ffffff; t0 = drop_bit 26 t0 OR push_bit 6 t1;
          r1 = t0 AND 0x3ffff03; t1 = drop_bit 20 t1 OR push_bit 12 t2;
          r2 = t1 AND 0x3ffc0ff; t2 = drop_bit 14 t2 OR push_bit 18 t3;
          r3 = t2 AND 0x3f03fff; t3 = drop_bit 8 t3;
          r4 = t3 AND 0x00fffff
      in (r0, r1, r2, r3, r4))"

text \<open>Adding a block of 16 bytes; \<open>hibit\<close> is \<open>1 << 24\<close> for a full block, 0 for the padded last.\<close>

definition poly1305_add :: "u32 \<Rightarrow> bytes \<Rightarrow> limbs \<Rightarrow> limbs" where
  "poly1305_add hibit m h =
     (case h of (h0, h1, h2, h3, h4) \<Rightarrow>
        let t0 = U8TO32_LITTLE m; t1 = U8TO32_LITTLE (drop 4 m);
            t2 = U8TO32_LITTLE (drop 8 m); t3 = U8TO32_LITTLE (drop 12 m);
            pair = (\<lambda>hi lo. push_bit 32 (ucast (hi :: u32)) OR ucast (lo :: u32) :: u64)
        in (h0 + (t0 AND 0x3ffffff),
            h1 + ucast (drop_bit 26 (pair t1 t0) AND 0x3ffffff),
            h2 + ucast (drop_bit 20 (pair t2 t1) AND 0x3ffffff),
            h3 + ucast (drop_bit 14 (pair t3 t2) AND 0x3ffffff),
            h4 + (drop_bit 8 t3 OR hibit)))"

definition poly1305_mul :: "limbs \<Rightarrow> limbs \<Rightarrow> limbs" where
  "poly1305_mul r h =
     (case (r, h) of ((r0, r1, r2, r3, r4), (h0, h1, h2, h3, h4)) \<Rightarrow>
        let s1 = r1 * 5; s2 = r2 * 5; s3 = r3 * 5; s4 = r4 * 5; mul = mul32x32_64;
            t0 = mul h0 r0 + mul h1 s4 + mul h2 s3 + mul h3 s2 + mul h4 s1;
            t1 = mul h0 r1 + mul h1 r0 + mul h2 s4 + mul h3 s3 + mul h4 s2;
            t2 = mul h0 r2 + mul h1 r1 + mul h2 r0 + mul h3 s4 + mul h4 s3;
            t3 = mul h0 r3 + mul h1 r2 + mul h2 r1 + mul h3 r0 + mul h4 s4;
            t4 = mul h0 r4 + mul h1 r3 + mul h2 r2 + mul h3 r1 + mul h4 r0;
            h0 = ucast t0 AND 0x3ffffff; c = drop_bit 26 t0;
            t1 = t1 + c; h1 = ucast t1 AND 0x3ffffff; b = (ucast (drop_bit 26 t1) :: u32);
            t2 = t2 + ucast b; h2 = ucast t2 AND 0x3ffffff; b = (ucast (drop_bit 26 t2) :: u32);
            t3 = t3 + ucast b; h3 = ucast t3 AND 0x3ffffff; b = (ucast (drop_bit 26 t3) :: u32);
            t4 = t4 + ucast b; h4 = ucast t4 AND 0x3ffffff; b = (ucast (drop_bit 26 t4) :: u32)
        in (h0 + b * 5, h1, h2, h3, h4))"

function poly1305_blocks :: "limbs \<Rightarrow> limbs \<Rightarrow> bytes \<Rightarrow> limbs" where
  "poly1305_blocks r h m =
     (if length m \<ge> 16
      then poly1305_blocks r (poly1305_mul r (poly1305_add (push_bit 24 1) (take 16 m) h)) (drop 16 m)
      else if m = [] then h
      else poly1305_mul r (poly1305_add 0 (m @ [1] @ replicate (15 - length m) 0) h))"
  by auto
termination by (relation "measure (\<lambda>(_, _, m). length m)") auto

declare poly1305_blocks.simps [simp del]

definition poly1305_carry :: "limbs \<Rightarrow> limbs" where
  "poly1305_carry h =
     (case h of (h0, h1, h2, h3, h4) \<Rightarrow>
        let b = drop_bit 26 h0; h0 = h0 AND 0x3ffffff;
            h1 = h1 + b; b = drop_bit 26 h1; h1 = h1 AND 0x3ffffff;
            h2 = h2 + b; b = drop_bit 26 h2; h2 = h2 AND 0x3ffffff;
            h3 = h3 + b; b = drop_bit 26 h3; h3 = h3 AND 0x3ffffff;
            h4 = h4 + b; b = drop_bit 26 h4; h4 = h4 AND 0x3ffffff;
            h0 = h0 + b * 5; b = drop_bit 26 h0; h0 = h0 AND 0x3ffffff;
            h1 = h1 + b
        in (h0, h1, h2, h3, h4))"

text \<open>The conditional subtraction of \<open>2^130 - 5\<close>, without a branch.\<close>

definition poly1305_select :: "limbs \<Rightarrow> limbs" where
  "poly1305_select h =
     (case h of (h0, h1, h2, h3, h4) \<Rightarrow>
        let g0 = h0 + 5; b = drop_bit 26 g0; g0 = g0 AND 0x3ffffff;
            g1 = h1 + b; b = drop_bit 26 g1; g1 = g1 AND 0x3ffffff;
            g2 = h2 + b; b = drop_bit 26 g2; g2 = g2 AND 0x3ffffff;
            g3 = h3 + b; b = drop_bit 26 g3; g3 = g3 AND 0x3ffffff;
            g4 = h4 + b - push_bit 26 1;
            b = drop_bit 31 g4 - 1; nb = NOT b
        in ((h0 AND nb) OR (g0 AND b), (h1 AND nb) OR (g1 AND b), (h2 AND nb) OR (g2 AND b),
            (h3 AND nb) OR (g3 AND b), (h4 AND nb) OR (g4 AND b)))"

definition poly1305_output :: "bytes \<Rightarrow> limbs \<Rightarrow> bytes" where
  "poly1305_output key h =
     (case h of (h0, h1, h2, h3, h4) \<Rightarrow>
        let k = (\<lambda>off. ucast (U8TO32_LITTLE (drop off key)) :: u64);
            f0 = ucast (h0 OR push_bit 26 h1) + k 16;
            f1 = ucast (drop_bit 6 h1 OR push_bit 20 h2) + k 20;
            f2 = ucast (drop_bit 12 h2 OR push_bit 14 h3) + k 24;
            f3 = ucast (drop_bit 18 h3 OR push_bit 8 h4) + k 28;
            f1 = f1 + drop_bit 32 f0; f2 = f2 + drop_bit 32 f1; f3 = f3 + drop_bit 32 f2
        in U32TO8_LITTLE (ucast f0) @ U32TO8_LITTLE (ucast f1) @ U32TO8_LITTLE (ucast f2) @
           U32TO8_LITTLE (ucast f3))"

definition poly1305_auth :: "bytes \<Rightarrow> bytes \<Rightarrow> bytes" where
  "poly1305_auth m key =
     poly1305_output key (poly1305_select (poly1305_carry
       (poly1305_blocks (poly1305_clamp key) (0, 0, 0, 0, 0) m)))"

section \<open>The combination\<close>

record chachapoly_ctx =
  main_ctx :: chacha_ctx
  header_ctx :: chacha_ctx

definition chachapoly_init :: "chachapoly_ctx \<Rightarrow> bytes \<Rightarrow> (ssherr, chachapoly_ctx, unit) outcome" where
  "chachapoly_init ctx key =
     (if length key \<noteq> 32 + 32 then (Inl SSH_ERR_INVALID_ARGUMENT, ctx)
      else (Inr (), \<lparr>main_ctx = chacha_keysetup (main_ctx ctx) key 256,
                     header_ctx = chacha_keysetup (header_ctx ctx) (drop 32 key) 256\<rparr>))"

text \<open>
  \<open>src\<close> holds \<open>aadlen + len\<close> bytes, and the tag after them when decrypting; the result is what is
  written to \<open>dest\<close>.
\<close>

definition chachapoly_crypt ::
  "chachapoly_ctx \<Rightarrow> u32 \<Rightarrow> bytes \<Rightarrow> nat \<Rightarrow> nat \<Rightarrow> bool \<Rightarrow> (ssherr, chachapoly_ctx, bytes) outcome" where
  "chachapoly_crypt ctx seqnr src len aadlen do_encrypt =
     (let seqbuf = POKE_U64 (ucast seqnr);
          (poly_key, main) = chacha_encrypt_bytes (chacha_ivsetup (main_ctx ctx) seqbuf None)
             (replicate POLY1305_KEYLEN 0);
          ctx1 = ctx\<lparr>main_ctx := main\<rparr>
      in if \<not> do_encrypt \<and>
            poly1305_auth (take (aadlen + len) src) poly_key \<noteq>
              take POLY1305_TAGLEN (drop (aadlen + len) src)
         then (Inl SSH_ERR_MAC_INVALID, ctx1)
         else let (aad, ctx2) = (if aadlen \<noteq> 0 then
                     (case chacha_encrypt_bytes (chacha_ivsetup (header_ctx ctx1) seqbuf None)
                             (take aadlen src) of
                        (c, h) \<Rightarrow> (c, ctx1\<lparr>header_ctx := h\<rparr>))
                   else ([], ctx1));
                  (body, main2) = chacha_encrypt_bytes
                     (chacha_ivsetup (main_ctx ctx2) seqbuf (Some [1, 0, 0, 0, 0, 0, 0, 0]))
                     (take len (drop aadlen src));
                  dest = aad @ body
              in (Inr (if do_encrypt then dest @ poly1305_auth dest poly_key else dest),
                  ctx2\<lparr>main_ctx := main2\<rparr>))"

definition chachapoly_get_length ::
  "chachapoly_ctx \<Rightarrow> u32 \<Rightarrow> bytes \<Rightarrow> (ssherr, chachapoly_ctx, u32) outcome" where
  "chachapoly_get_length ctx seqnr cp =
     (if length cp < 4 then (Inl SSH_ERR_MESSAGE_INCOMPLETE, ctx)
      else let seqbuf = POKE_U64 (ucast seqnr);
               (buf, h) = chacha_encrypt_bytes (chacha_ivsetup (header_ctx ctx) seqbuf None) (take 4 cp)
           in (Inr (PEEK_U32 buf), ctx\<lparr>header_ctx := h\<rparr>))"

section \<open>The stream cipher is an exclusive or with a key stream\<close>

definition xor_bytes :: "bytes \<Rightarrow> bytes \<Rightarrow> bytes" where
  "xor_bytes = map2 (XOR)"

lemma length_xor_bytes [simp]: "length (xor_bytes a b) = min (length a) (length b)"
  by (simp add: xor_bytes_def)

lemma xor_bytes_append:
  "length a = length c \<Longrightarrow> xor_bytes (a @ b) (c @ d) = xor_bytes a c @ xor_bytes b d"
  by (simp add: xor_bytes_def)

lemma take_xor_bytes: "take n (xor_bytes a b) = xor_bytes (take n a) (take n b)"
  by (simp add: xor_bytes_def take_map take_zip)

lemma xor_bytes_cancel: "length m \<le> length k \<Longrightarrow> xor_bytes k (xor_bytes k m) = m"
proof (rule nth_equalityI)
  fix i assume "length m \<le> length k" "i < length (xor_bytes k (xor_bytes k m))"
  then show "xor_bytes k (xor_bytes k m) ! i = m ! i"
    by (simp add: xor_bytes_def flip: xor.assoc)
qed simp

lemma xor_bytes_take: "length m \<le> n \<Longrightarrow> xor_bytes (take n k) m = xor_bytes k m"
  by (rule nth_equalityI) (auto simp: xor_bytes_def)

lemma length_U32TO8 [simp]: "length (U32TO8_LITTLE v) = 4"
  by (simp add: U32TO8_LITTLE_def)

lemma U32TO8_xor: "U32TO8_LITTLE (a XOR b) = xor_bytes (U32TO8_LITTLE a) (U32TO8_LITTLE b)"
  by (simp add: U32TO8_LITTLE_def xor_bytes_def unsigned_xor_eq drop_bit_xor)

lemma U32TO8_U8TO32:
  assumes "4 \<le> length p"
  shows "U32TO8_LITTLE (U8TO32_LITTLE p) = take 4 p"
proof -
  obtain a b c d q where p: "p = a # b # c # d # q"
    using assms by (auto simp: Suc_le_length_iff eval_nat_numeral)
  have "U32TO8_LITTLE (U8TO32_LITTLE p) ! i = [a, b, c, d] ! i" if "i < 4" for i
  proof (rule bit_word_eqI)
    fix n assume n: "n < LENGTH(8)"
    from that consider "i = 0" | "i = 1" | "i = 2" | "i = 3" by linarith
    then show "bit (U32TO8_LITTLE (U8TO32_LITTLE p) ! i) n = bit ([a, b, c, d] ! i) n"
      using n
      by cases (auto simp: p U32TO8_LITTLE_def U8TO32_LITTLE_def bit_simps numeral_2_eq_2 numeral_3_eq_3
          dest: bit_imp_le_length)
  qed
  then have "U32TO8_LITTLE (U8TO32_LITTLE p) = [a, b, c, d]" by (intro nth_equalityI) simp_all
  then show ?thesis by (simp add: p)
qed

text \<open>The bytes of a block of key stream.\<close>

definition block_bytes :: "u32 list \<Rightarrow> bytes" where
  "block_bytes x = concat (map (\<lambda>i. U32TO8_LITTLE (x ! i)) [0..<16])"

lemma length_concat_4:
  "(\<And>i. length (f i) = 4) \<Longrightarrow> length (concat (map f [0..<n])) = 4 * n"
  by (induction n) simp_all

lemma length_block_bytes [simp]: "length (block_bytes x) = 64"
  by (simp add: block_bytes_def length_concat_4)

lemma chacha_emit_prefix:
  "4 * n \<le> length m \<Longrightarrow>
   concat (map (\<lambda>i. U32TO8_LITTLE (x ! i XOR U8TO32_LITTLE (drop (4 * i) m))) [0..<n]) =
   xor_bytes (concat (map (\<lambda>i. U32TO8_LITTLE (x ! i)) [0..<n])) (take (4 * n) m)"
proof (induction n)
  case 0
  then show ?case by (simp add: xor_bytes_def)
next
  case (Suc n)
  have "take (4 * Suc n) m = take (4 * n) m @ take 4 (drop (4 * n) m)"
    by (simp add: take_add [symmetric] add.commute)
  moreover have "length (concat (map (\<lambda>i. U32TO8_LITTLE (x ! i)) [0..<n])) = length (take (4 * n) m)"
    using Suc.prems by (simp only: length_concat_4 [of "\<lambda>i. U32TO8_LITTLE (x ! i)"] length_U32TO8) simp
  ultimately show ?case
    using Suc by (simp add: xor_bytes_append U32TO8_xor U32TO8_U8TO32)
qed

lemma chacha_emit_eq: "length m = 64 \<Longrightarrow> chacha_emit x m = xor_bytes (block_bytes x) m"
  using chacha_emit_prefix [of 16 m x] by (simp add: chacha_emit_def block_bytes_def)

text \<open>The output of a partial block does not depend on how the array was filled.\<close>

lemma chacha_emit_pad:
  assumes "length m + length pad = 64"
  shows "take (length m) (chacha_emit x (m @ pad)) = xor_bytes (block_bytes x) m"
  using assms by (simp add: chacha_emit_eq take_xor_bytes xor_bytes_take)

fun keystream :: "u32 list \<Rightarrow> nat \<Rightarrow> bytes" where
  "keystream j 0 = []"
| "keystream j (Suc n) = block_bytes (chacha_block j) @ keystream (chacha_counter j) n"

lemma length_keystream [simp]: "length (keystream j n) = 64 * n"
  by (induction j n rule: keystream.induct) simp_all

lemma chacha_loop_eq:
  "m \<noteq> [] \<Longrightarrow> length m \<le> 64 * n \<Longrightarrow> fst (chacha_loop j m) = xor_bytes (keystream j n) m"
proof (induction n arbitrary: j m)
  case 0
  then show ?case by simp
next
  case (Suc n)
  show ?case
  proof (cases "length m \<le> 64")
    case True
    have "xor_bytes (keystream j (Suc n)) m = xor_bytes (take 64 (keystream j (Suc n))) m"
      using True by (simp only: xor_bytes_take)
    also have "\<dots> = xor_bytes (block_bytes (chacha_block j)) m" by simp
    finally show ?thesis
      using True by (simp add: chacha_loop.simps [of j m] chacha_emit_pad Let_def)
  next
    case False
    have "fst (chacha_loop (chacha_counter j) (drop 64 m)) = xor_bytes (keystream (chacha_counter j) n) (drop 64 m)"
      using False Suc.prems by (intro Suc.IH) auto
    moreover have "xor_bytes (keystream j (Suc n)) (take 64 m @ drop 64 m) =
        xor_bytes (block_bytes (chacha_block j)) (take 64 m) @
        xor_bytes (keystream (chacha_counter j) n) (drop 64 m)"
      using False by (simp only: keystream.simps) (rule xor_bytes_append, simp)
    ultimately show ?thesis
      using False by (simp add: chacha_loop.simps [of j m] chacha_emit_eq Let_def case_prod_beta)
  qed
qed

lemma chacha_encrypt_eq:
  assumes "length m \<le> 64 * n"
  shows "fst (chacha_encrypt_bytes x m) = xor_bytes (keystream (chacha_input x) n) m"
proof (cases "m = []")
  case False
  then show ?thesis using chacha_loop_eq [OF False assms, of "chacha_input x"]
    by (simp add: chacha_encrypt_bytes_def case_prod_beta)
qed (simp add: chacha_encrypt_bytes_def xor_bytes_def)

lemma length_chacha_encrypt [simp]: "length (fst (chacha_encrypt_bytes x m)) = length m"
  using chacha_encrypt_eq [of m "length m" x] by simp

lemma chacha_encrypt_cancel:
  "fst (chacha_encrypt_bytes x (fst (chacha_encrypt_bytes x m))) = m"
  using chacha_encrypt_eq [of m "length m" x]
    chacha_encrypt_eq [of "fst (chacha_encrypt_bytes x m)" "length m" x]
  by (simp add: xor_bytes_cancel)

text \<open>Encryption changes only the block counter, which \<open>chacha_ivsetup\<close> sets again.\<close>

lemma chacha_encrypt_state:
  "take 12 (chacha_input (snd (chacha_encrypt_bytes x m))) = take 12 (chacha_input x)"
  by (auto simp: chacha_encrypt_bytes_def split: prod.splits)

lemma chacha_ivsetup_cong:
  fixes x y :: chacha_ctx
  assumes "take 12 (chacha_input x) = take 12 (chacha_input y)"
  shows "chacha_ivsetup x iv ctr = chacha_ivsetup y iv ctr"
  using assms by (cases x; cases y) (simp add: chacha_ivsetup_def)

lemma chacha_ivsetup_take: "12 \<le> length (chacha_input x) \<Longrightarrow>
    take 12 (chacha_input (chacha_ivsetup x iv ctr)) = take 12 (chacha_input x)"
  by (simp add: chacha_ivsetup_def)

lemma chacha_ivsetup_encrypt:
  "12 \<le> length (chacha_input x) \<Longrightarrow>
   chacha_ivsetup (snd (chacha_encrypt_bytes (chacha_ivsetup x iv ctr) m)) iv' ctr' = chacha_ivsetup x iv' ctr'"
  by (rule chacha_ivsetup_cong) (simp add: chacha_encrypt_state chacha_ivsetup_take)

section \<open>Sealing and opening\<close>

text \<open>
  The two ends hold the same keys when the first 12 words of their cipher states agree; the
  remaining words are set for every packet.
\<close>

definition same_keys :: "chachapoly_ctx \<Rightarrow> chachapoly_ctx \<Rightarrow> bool" where
  "same_keys a b \<longleftrightarrow>
     length (chacha_input (main_ctx a)) = 16 \<and> length (chacha_input (header_ctx a)) = 16 \<and>
     length (chacha_input (main_ctx b)) = 16 \<and> length (chacha_input (header_ctx b)) = 16 \<and>
     take 12 (chacha_input (main_ctx a)) = take 12 (chacha_input (main_ctx b)) \<and>
     take 12 (chacha_input (header_ctx a)) = take 12 (chacha_input (header_ctx b))"

definition seq_iv :: "u32 \<Rightarrow> bytes" where
  "seq_iv seqnr = POKE_U64 (ucast seqnr)"

definition header_stream :: "chachapoly_ctx \<Rightarrow> u32 \<Rightarrow> bytes \<Rightarrow> bytes" where
  "header_stream ctx seqnr m = fst (chacha_encrypt_bytes (chacha_ivsetup (header_ctx ctx) (seq_iv seqnr) None) m)"

definition body_stream :: "chachapoly_ctx \<Rightarrow> u32 \<Rightarrow> bytes \<Rightarrow> bytes" where
  "body_stream ctx seqnr m =
     fst (chacha_encrypt_bytes (chacha_ivsetup (main_ctx ctx) (seq_iv seqnr) (Some [1, 0, 0, 0, 0, 0, 0, 0])) m)"

definition tag_key :: "chachapoly_ctx \<Rightarrow> u32 \<Rightarrow> bytes" where
  "tag_key ctx seqnr =
     fst (chacha_encrypt_bytes (chacha_ivsetup (main_ctx ctx) (seq_iv seqnr) None) (replicate POLY1305_KEYLEN 0))"

lemma same_keys_streams:
  assumes "same_keys a b"
  shows "header_stream a seqnr m = header_stream b seqnr m" "body_stream a seqnr m = body_stream b seqnr m"
    "tag_key a seqnr = tag_key b seqnr"
  using chacha_ivsetup_cong [of "main_ctx a" "main_ctx b"] chacha_ivsetup_cong [of "header_ctx a" "header_ctx b"]
    assms
  by (simp_all add: same_keys_def header_stream_def body_stream_def tag_key_def)

lemma header_stream_facts [simp]:
  "header_stream ctx seqnr (header_stream ctx seqnr m) = m" "length (header_stream ctx seqnr m) = length m"
  by (simp_all add: header_stream_def chacha_encrypt_cancel)

lemma body_stream_facts [simp]:
  "body_stream ctx seqnr (body_stream ctx seqnr m) = m" "length (body_stream ctx seqnr m) = length m"
  by (simp_all add: body_stream_def chacha_encrypt_cancel)

lemma header_stream_Nil [simp]: "header_stream ctx seqnr [] = []"
  by (simp add: header_stream_def chacha_encrypt_bytes_def)

lemma chachapoly_crypt_eq:
  assumes "12 \<le> length (chacha_input (main_ctx ctx))"
  shows "fst (chachapoly_crypt ctx seqnr src len aadlen do_encrypt) =
    (let dest = header_stream ctx seqnr (take aadlen src) @ body_stream ctx seqnr (take len (drop aadlen src))
     in if \<not> do_encrypt \<and> poly1305_auth (take (aadlen + len) src) (tag_key ctx seqnr) \<noteq>
           take POLY1305_TAGLEN (drop (aadlen + len) src)
        then Inl SSH_ERR_MAC_INVALID
        else Inr (if do_encrypt then dest @ poly1305_auth dest (tag_key ctx seqnr) else dest))"
proof -
  let ?k = "chacha_encrypt_bytes (chacha_ivsetup (main_ctx ctx) (seq_iv seqnr) None) (replicate POLY1305_KEYLEN 0)"
  have iv: "chacha_ivsetup (snd ?k) (seq_iv seqnr) c = chacha_ivsetup (main_ctx ctx) (seq_iv seqnr) c" for c
    using assms by (rule chacha_ivsetup_encrypt)
  show ?thesis
    by (cases "aadlen = 0")
      (simp_all add: chachapoly_crypt_def case_prod_beta Let_def iv seq_iv_def [symmetric]
        header_stream_def body_stream_def tag_key_def chacha_encrypt_bytes_def [of _ "[]"])
qed

lemma length_poly1305_auth [simp]: "length (poly1305_auth m key) = 16"
  by (simp add: poly1305_auth_def poly1305_output_def Let_def split: prod.splits)

section \<open>Persistent contexts\<close>

lemma length_chacha_state:
  "length (chacha_input (snd (chacha_encrypt_bytes x m))) = length (chacha_input x)"
  by (auto simp: chacha_encrypt_bytes_def split: prod.splits)

lemma same_keys_sym: "same_keys a b \<Longrightarrow> same_keys b a"
  by (simp add: same_keys_def)

lemma same_keys_trans: "same_keys a b \<Longrightarrow> same_keys b c \<Longrightarrow> same_keys a c"
  by (simp add: same_keys_def)

lemma same_keys_refl: "same_keys a b \<Longrightarrow> same_keys a a" "same_keys a b \<Longrightarrow> same_keys b b"
  by (simp_all add: same_keys_def)

text \<open>The keys in a context survive every operation on it.\<close>

lemma chachapoly_keeps_keys:
  assumes "same_keys ctx ctx"
  shows "same_keys (snd (chachapoly_crypt ctx seqnr src len aadlen do_encrypt)) ctx"
    and "same_keys (snd (chachapoly_get_length ctx seqnr cp)) ctx"
proof -
  have l: "length (chacha_input (chacha_ivsetup x iv c)) = 16"
    "take 12 (chacha_input (chacha_ivsetup x iv c)) = take 12 (chacha_input x)"
    if "length (chacha_input x) = 16" for x iv c
    using that by (simp_all add: chacha_ivsetup_def)
  show "same_keys (snd (chachapoly_crypt ctx seqnr src len aadlen do_encrypt)) ctx"
    "same_keys (snd (chachapoly_get_length ctx seqnr cp)) ctx"
    using assms
    by (auto simp: same_keys_def chachapoly_crypt_def chachapoly_get_length_def Let_def case_prod_beta
        l chacha_encrypt_state length_chacha_state)
qed

lemma chachapoly_seal_open:
  assumes "same_keys a b" and "length src = aadlen + len"
  shows "\<exists>sealed. fst (chachapoly_crypt a seqnr src len aadlen True) = Inr sealed \<and>
    length sealed = aadlen + len + POLY1305_TAGLEN \<and>
    fst (chachapoly_crypt b seqnr (sealed @ rest) len aadlen False) = Inr src \<and>
    (aadlen = 4 \<longrightarrow> fst (chachapoly_get_length b seqnr (sealed @ rest)) = Inr (PEEK_U32 (take 4 src)))"
proof -
  have la: "12 \<le> length (chacha_input (main_ctx a))" and lb: "12 \<le> length (chacha_input (main_ctx b))"
    using assms(1) by (simp_all add: same_keys_def)
  let ?dest = "header_stream a seqnr (take aadlen src) @ body_stream a seqnr (drop aadlen src)"
  let ?tag = "poly1305_auth ?dest (tag_key a seqnr)"
  have enc: "fst (chachapoly_crypt a seqnr src len aadlen True) = Inr (?dest @ ?tag)"
    using chachapoly_crypt_eq [OF la, of seqnr src len aadlen True] assms(2) by (simp add: Let_def)
  have len: "length ?dest = aadlen + len" using assms(2) by simp
  have parts: "take aadlen (?dest @ ?tag @ rest) = header_stream a seqnr (take aadlen src)"
    "take len (drop aadlen (?dest @ ?tag @ rest)) = body_stream a seqnr (drop aadlen src)"
    "take (aadlen + len) (?dest @ ?tag @ rest) = ?dest"
    "take POLY1305_TAGLEN (drop (aadlen + len) (?dest @ ?tag @ rest)) = ?tag"
    using assms(2) by (simp_all add: POLY1305_TAGLEN_def)
  have dec: "fst (chachapoly_crypt b seqnr (?dest @ ?tag @ rest) len aadlen False) = Inr src"
    unfolding chachapoly_crypt_eq [OF lb] parts Let_def
    using same_keys_streams [OF assms(1), of seqnr, symmetric] by simp
  have gl: "fst (chachapoly_get_length b seqnr (?dest @ ?tag @ rest)) = Inr (PEEK_U32 (take 4 src))"
    if "aadlen = 4"
  proof -
    have "take 4 (?dest @ ?tag @ rest) = header_stream b seqnr (take 4 src)"
      using parts(1) that same_keys_streams(1) [OF assms(1)] by simp
    then show ?thesis
      using len that header_stream_facts(1) [of b seqnr "take 4 src"]
      by (simp add: chachapoly_get_length_def case_prod_beta Let_def seq_iv_def [symmetric]
          header_stream_def del: header_stream_facts)
  qed
  show ?thesis using enc len dec gl by (auto simp: POLY1305_TAGLEN_def)
qed

section \<open>Properties\<close>

text \<open>
  C13. A sealed packet opens: with the same keys and sequence number, decrypting what
  \<open>chachapoly_crypt\<close> produced for \<open>aadlen + len\<close> bytes, with any number of bytes appended,
  succeeds and gives them back, and \<open>chachapoly_get_length\<close> already reads the first four of
  them, the packet length, from the sealed header.
\<close>

theorem chachapoly_roundtrip:
  assumes "same_keys a b" and "length src = aadlen + len"
  shows "\<exists>sealed. fst (chachapoly_crypt a seqnr src len aadlen True) = Inr sealed \<and>
    length sealed = aadlen + len + POLY1305_TAGLEN \<and>
    fst (chachapoly_crypt b seqnr (sealed @ rest) len aadlen False) = Inr src \<and>
    (aadlen = 4 \<longrightarrow> fst (chachapoly_get_length b seqnr (sealed @ rest)) = Inr (PEEK_U32 (take 4 src)))"
  by (rule chachapoly_seal_open [OF assms])

definition zero_ctx :: chachapoly_ctx where
  "zero_ctx = \<lparr>main_ctx = \<lparr>chacha_input = replicate 16 0\<rparr>, header_ctx = \<lparr>chacha_input = replicate 16 0\<rparr>\<rparr>"

lemma chachapoly_roundtrip_witness:
  "\<exists>sealed. fst (chachapoly_crypt zero_ctx 3 [0, 0, 0, 2, 9, 8] 2 4 True) = Inr sealed \<and>
     fst (chachapoly_crypt zero_ctx 3 (sealed @ []) 2 4 False) = Inr [0, 0, 0, 2, 9, 8] \<and>
     fst (chachapoly_get_length zero_ctx 3 (sealed @ [])) = Inr 2"
proof -
  have "same_keys zero_ctx zero_ctx" by (simp add: same_keys_def zero_ctx_def)
  from chachapoly_roundtrip [OF this, of "[0, 0, 0, 2, 9, 8]" 4 2 3 "[]"] show ?thesis
    by (auto simp: PEEK_U32_def)
qed



end
