(* ===== verification/Alglist.thy ===== *)
theory Alglist
  imports Sshbuf Match
begin

text \<open>
  What the algorithm tables of \<open>cipher.c\<close>, \<open>mac.c\<close> and \<open>kex.c\<close> share: the loop that writes the
  names of a table as a list (\<open>cipher_alg_list\<close>, \<open>mac_alg_list\<close>, \<open>kex_alg_list\<close>) and the loop that
  checks a comma-separated list against a table (\<open>ciphers_valid\<close>, \<open>mac_valid\<close>,
  \<open>kex_names_valid\<close>). The second is an interface, the locale \<open>name_checker\<close>, which the three
  tables interpret.
\<close>

section \<open>Writing a list\<close>

text \<open>
  One round: the list under construction \<open>ret\<close> (\<open>None\<close> for the null pointer) grows by
  \<open>realloc\<close>. The outer \<open>None\<close> is the return after a failed allocation.
\<close>

definition alg_list_add ::
  "alloc_env \<Rightarrow> char \<Rightarrow> string \<Rightarrow> string option option \<Rightarrow> string option option" where
  "alg_list_add env sep name acc =
     (case acc of
        None \<Rightarrow> None
      | Some ret \<Rightarrow>
          let r = (case ret of None \<Rightarrow> [] | Some r \<Rightarrow> r @ [sep]) in
          if \<not> malloc_ok env (length r + length name + 2) then None
          else Some (Some (r @ name)))"

lemma join_snoc: "join d (ts @ [t]) = (if ts = [] then t else join d ts @ d # t)"
  by (induction ts) auto

lemma alg_list_add_None [simp]: "alg_list_add env sep n None = None"
  by (simp add: alg_list_add_def)

lemma alg_list_fold:
  assumes "fold (alg_list_add env sep) ns (Some None) = Some l"
  shows "l = (if ns = [] then None else Some (join sep ns))"
  using assms
proof (induction ns arbitrary: l rule: rev_induct)
  case Nil
  then show ?case by simp
next
  case (snoc n ns)
  then obtain l' where l': "fold (alg_list_add env sep) ns (Some None) = Some l'"
    by (cases "fold (alg_list_add env sep) ns (Some None)") auto
  then have "alg_list_add env sep n (Some l') = Some l" using snoc.prems by simp
  then show ?case
    using snoc.IH [OF l'] by (auto simp: alg_list_add_def join_snoc Let_def split: if_splits)
qed

lemma alg_list_fold_ok:
  assumes "\<And>n. malloc_ok env n" and "ns \<noteq> []"
  shows "fold (alg_list_add env sep) ns (Some None) = Some (Some (join sep ns))"
proof -
  have add: "alg_list_add env sep n (Some l) \<noteq> None" for n l
    using assms(1) by (simp add: alg_list_add_def Let_def)
  have "\<exists>l. fold (alg_list_add env sep) ns (Some None) = Some l"
    by (induction ns rule: rev_induct) (use add in auto)
  then show ?thesis using alg_list_fold assms(2) by fastforce
qed

section \<open>Checking a list\<close>

locale name_checker =
  fixes known :: "string \<Rightarrow> bool"
    and valid_loop :: "string option \<Rightarrow> bool"
  assumes valid_loop_unfold:
    "valid_loop cp =
       (case strsep CHR '','' cp of
          (None, _) \<Rightarrow> True
        | (Some p, cp') \<Rightarrow> if p = [] then True else if \<not> known p then False else valid_loop cp')"
begin

lemma valid_loop_iff: "valid_loop cp \<longleftrightarrow> (\<forall>n\<in>set (takeWhile (\<lambda>p. p \<noteq> []) (tokens_from CHR '','' cp)). known n)"
proof (induction "sep_size cp" arbitrary: cp rule: less_induct)
  case less
  obtain r cp' where s: "strsep CHR '','' cp = (r, cp')" by force
  show ?case
  proof (cases r)
    case None
    then have "tokens_from CHR '','' cp = []" using s by (simp add: tokens_from.simps)
    then show ?thesis using s None by (simp add: valid_loop_unfold [of cp])
  next
    case (Some p)
    then have "valid_loop cp' \<longleftrightarrow> (\<forall>n\<in>set (takeWhile (\<lambda>p. p \<noteq> []) (tokens_from CHR '','' cp')). known n)"
      using s by (intro less) (simp add: strsep_size)
    then show ?thesis
      using s Some by (auto simp: valid_loop_unfold [of cp] strsep_tokens)
  qed
qed

lemma valid_names: "valid_loop (Some s) \<longleftrightarrow> (\<forall>n\<in>set (names s). known n)"
  by (simp add: valid_loop_iff names_def)

lemma valid_join:
  assumes "ns \<noteq> []" and "\<And>n. n \<in> set ns \<Longrightarrow> known n \<and> CHR '','' \<notin> set n"
  shows "valid_loop (Some (join CHR '','' ns))"
  using assms by (auto simp: valid_loop_iff tokens_join dest!: set_takeWhileD)

end

end
