(* ===== verification/Cipher.thy ===== *)
theory Cipher
  imports Chachapoly Alglist
begin

text \<open>
  The cipher layer (\<open>cipher.c\<close>), as built with OpenSSL and without protocol 1: the table of
  ciphers with its InterMAC additions, the look-ups and list functions, and the set-up and
  per-packet operations. The OpenSSL cipher contexts (type \<open>'e\<close>) and the InterMAC library
  contexts (type \<open>'i\<close>) belong to libraries outside the repository: the record \<open>crypto\<close> holds the
  library calls the code makes.
\<close>

section \<open>The library calls\<close>

record ('e, 'i) crypto =
  EVP_CIPHER_CTX_new :: "'e option"
  EVP_CipherInit_iv :: "'e \<Rightarrow> string \<Rightarrow> bytes option \<Rightarrow> bool \<Rightarrow> 'e option"
  EVP_GCM_SET_IV_FIXED :: "'e \<Rightarrow> bytes option \<Rightarrow> 'e option"
  EVP_CIPHER_CTX_key_length :: "'e \<Rightarrow> int"
  EVP_CIPHER_CTX_set_key_length :: "'e \<Rightarrow> nat \<Rightarrow> 'e option"
  EVP_CipherInit_key :: "'e \<Rightarrow> bytes \<Rightarrow> 'e option"
  EVP_Cipher_discard :: "'e \<Rightarrow> nat \<Rightarrow> 'e option"
  EVP_GCM_IV_GEN :: "'e \<Rightarrow> 'e option"
  EVP_GCM_SET_TAG :: "'e \<Rightarrow> bytes \<Rightarrow> 'e option"
  EVP_Cipher_aad :: "'e \<Rightarrow> bytes \<Rightarrow> 'e option"
  EVP_Cipher_data :: "'e \<Rightarrow> bytes \<Rightarrow> (bytes \<times> 'e) option"
  EVP_Cipher_final :: "'e \<Rightarrow> 'e option"
  EVP_GCM_GET_TAG :: "'e \<Rightarrow> nat \<Rightarrow> bytes option"
  EVP_CIPHER_CTX_iv_length :: "'e \<Rightarrow> int"
  im_initialise :: "bytes \<Rightarrow> nat \<Rightarrow> string \<Rightarrow> bool \<Rightarrow> 'i option"
  im_encrypt :: "'i \<Rightarrow> bytes \<Rightarrow> (bytes \<times> 'i) option"
  im_decrypt :: "'i \<Rightarrow> bytes \<Rightarrow> (u32 \<times> bytes \<times> nat \<times> u32 \<times> 'i) option"

section \<open>The table\<close>

record sshcipher =
  ci_name :: string
  ci_number :: int
  ci_block_size :: nat
  ci_key_len :: nat
  ci_iv_len :: nat
  ci_auth_len :: nat
  ci_discard_len :: nat
  ci_flags :: u32
  ci_evptype :: "string option"

definition CFLAG_CBC :: u32 where "CFLAG_CBC = 1"
definition CFLAG_CHACHAPOLY :: u32 where "CFLAG_CHACHAPOLY = 2"
definition CFLAG_AESCTR :: u32 where "CFLAG_AESCTR = 4"
definition CFLAG_NONE :: u32 where "CFLAG_NONE = 8"
definition CFLAG_INTERMAC :: u32 where "CFLAG_INTERMAC = 16"
definition SSH_CIPHER_SSH2 :: int where "SSH_CIPHER_SSH2 = - 3"
definition SSH_CIPHER_NONE :: int where "SSH_CIPHER_NONE = 0"
definition SSH_CIPHER_DES :: int where "SSH_CIPHER_DES = 2"
definition SSH_CIPHER_3DES :: int where "SSH_CIPHER_3DES = 3"
definition SSH_CIPHER_BLOWFISH :: int where "SSH_CIPHER_BLOWFISH = 6"

lemmas cipher_consts = CFLAG_CBC_def CFLAG_CHACHAPOLY_def CFLAG_AESCTR_def CFLAG_NONE_def
  CFLAG_INTERMAC_def SSH_CIPHER_SSH2_def SSH_CIPHER_NONE_def SSH_CIPHER_DES_def

definition cipher_entry ::
  "string \<Rightarrow> int \<Rightarrow> nat \<Rightarrow> nat \<Rightarrow> nat \<Rightarrow> nat \<Rightarrow> nat \<Rightarrow> u32 \<Rightarrow> string option \<Rightarrow> sshcipher" where
  "cipher_entry name num block key iv auth discard flags evp =
     \<lparr>ci_name = name, ci_number = num, ci_block_size = block, ci_key_len = key, ci_iv_len = iv,
      ci_auth_len = auth, ci_discard_len = discard, ci_flags = flags, ci_evptype = evp\<rparr>"

definition ciphers :: "sshcipher list" where
  "ciphers =
    [cipher_entry ''none'' SSH_CIPHER_NONE 8 0 0 0 0 0 (Some ''EVP_enc_null''),
     cipher_entry ''3des-cbc'' SSH_CIPHER_SSH2 8 24 0 0 0 1 (Some ''EVP_des_ede3_cbc''),
     cipher_entry ''blowfish-cbc'' SSH_CIPHER_SSH2 8 16 0 0 0 1 (Some ''EVP_bf_cbc''),
     cipher_entry ''cast128-cbc'' SSH_CIPHER_SSH2 8 16 0 0 0 1 (Some ''EVP_cast5_cbc''),
     cipher_entry ''arcfour'' SSH_CIPHER_SSH2 8 16 0 0 0 0 (Some ''EVP_rc4''),
     cipher_entry ''arcfour128'' SSH_CIPHER_SSH2 8 16 0 0 1536 0 (Some ''EVP_rc4''),
     cipher_entry ''arcfour256'' SSH_CIPHER_SSH2 8 32 0 0 1536 0 (Some ''EVP_rc4''),
     cipher_entry ''aes128-cbc'' SSH_CIPHER_SSH2 16 16 0 0 0 1 (Some ''EVP_aes_128_cbc''),
     cipher_entry ''aes192-cbc'' SSH_CIPHER_SSH2 16 24 0 0 0 1 (Some ''EVP_aes_192_cbc''),
     cipher_entry ''aes256-cbc'' SSH_CIPHER_SSH2 16 32 0 0 0 1 (Some ''EVP_aes_256_cbc''),
     cipher_entry ''rijndael-cbc@lysator.liu.se'' SSH_CIPHER_SSH2 16 32 0 0 0 1 (Some ''EVP_aes_256_cbc''),
     cipher_entry ''aes128-ctr'' SSH_CIPHER_SSH2 16 16 0 0 0 0 (Some ''EVP_aes_128_ctr''),
     cipher_entry ''aes192-ctr'' SSH_CIPHER_SSH2 16 24 0 0 0 0 (Some ''EVP_aes_192_ctr''),
     cipher_entry ''aes256-ctr'' SSH_CIPHER_SSH2 16 32 0 0 0 0 (Some ''EVP_aes_256_ctr''),
     cipher_entry ''aes128-gcm@openssh.com'' SSH_CIPHER_SSH2 16 16 12 16 0 0 (Some ''EVP_aes_128_gcm''),
     cipher_entry ''aes256-gcm@openssh.com'' SSH_CIPHER_SSH2 16 32 12 16 0 0 (Some ''EVP_aes_256_gcm''),
     cipher_entry ''im-aes128-gcm-128'' SSH_CIPHER_SSH2 128 16 0 1 0 CFLAG_INTERMAC None,
     cipher_entry ''im-chacha-poly-128'' SSH_CIPHER_SSH2 128 16 0 1 0 CFLAG_INTERMAC None,
     cipher_entry ''im-aes128-gcm-256'' SSH_CIPHER_SSH2 256 16 0 1 0 CFLAG_INTERMAC None,
     cipher_entry ''im-chacha-poly-256'' SSH_CIPHER_SSH2 256 16 0 1 0 CFLAG_INTERMAC None,
     cipher_entry ''im-chacha-poly-512'' SSH_CIPHER_SSH2 512 16 0 1 0 CFLAG_INTERMAC None,
     cipher_entry ''im-aes128-gcm-512'' SSH_CIPHER_SSH2 512 16 0 1 0 CFLAG_INTERMAC None,
     cipher_entry ''im-chacha-poly-1024'' SSH_CIPHER_SSH2 1024 16 0 1 0 CFLAG_INTERMAC None,
     cipher_entry ''im-aes128-gcm-1024'' SSH_CIPHER_SSH2 1024 16 0 1 0 CFLAG_INTERMAC None,
     cipher_entry ''im-chacha-poly-2048'' SSH_CIPHER_SSH2 2048 16 0 1 0 CFLAG_INTERMAC None,
     cipher_entry ''im-aes128-gcm-2048'' SSH_CIPHER_SSH2 2048 16 0 1 0 CFLAG_INTERMAC None,
     cipher_entry ''im-chacha-poly-4096'' SSH_CIPHER_SSH2 4096 16 0 1 0 CFLAG_INTERMAC None,
     cipher_entry ''im-aes128-gcm-4096'' SSH_CIPHER_SSH2 4096 16 0 1 0 CFLAG_INTERMAC None,
     cipher_entry ''chacha20-poly1305@openssh.com'' SSH_CIPHER_SSH2 8 64 0 16 0 CFLAG_CHACHAPOLY None]"

section \<open>Names and parameters\<close>

definition is_intermac :: "sshcipher \<Rightarrow> bool" where
  "is_intermac c \<longleftrightarrow> ci_flags c AND CFLAG_INTERMAC \<noteq> 0"

definition is_chachapoly :: "sshcipher \<Rightarrow> bool" where
  "is_chachapoly c \<longleftrightarrow> ci_flags c AND CFLAG_CHACHAPOLY \<noteq> 0"

definition cipher_im_get_name :: "string \<Rightarrow> string option" where
  "cipher_im_get_name cipher_name =
     (let cp_len = length ''im-chacha-poly''; gcm_len = length ''im-aes128-gcm'' in
      if length cipher_name \<ge> cp_len \<and> take cp_len cipher_name = ''im-chacha-poly''
      then Some ''im-chacha-poly''
      else if length cipher_name \<ge> gcm_len \<and> take gcm_len cipher_name = ''im-aes128-gcm''
      then Some ''im-aes128-gcm''
      else None)"

text \<open>
  \<open>memcmp\<close> as a C condition: true when the bytes differ.
\<close>

definition memcmp_nonzero :: "string \<Rightarrow> string \<Rightarrow> nat \<Rightarrow> bool" where
  "memcmp_nonzero a b n \<longleftrightarrow> take n a \<noteq> take n b"

definition cipher_im_block_size :: "sshcipher \<Rightarrow> int" where
  "cipher_im_block_size c =
     (case cipher_im_get_name (ci_name c) of
        None \<Rightarrow> ssherr_code SSH_ERR_INTERNAL_ERROR
      | Some name \<Rightarrow>
          let name_length = length name in
          if length ''im-aes128-gcm'' = name_length \<and> memcmp_nonzero ''im-aes128-gcm'' name name_length
          then 16
          else if length ''im-chacha-poly'' = name_length \<and>
                  memcmp_nonzero ''im-chacha-poly'' name name_length
          then 64
          else ssherr_code SSH_ERR_INTERNAL_ERROR)"

definition cipher_alg_list :: "alloc_env \<Rightarrow> char \<Rightarrow> bool \<Rightarrow> string option option" where
  "cipher_alg_list env sep auth_only =
     fold (\<lambda>c acc.
         if ci_number c \<noteq> SSH_CIPHER_SSH2 then acc
         else if auth_only \<and> ci_auth_len c = 0 then acc
         else alg_list_add env sep (ci_name c) acc)
       ciphers (Some None)"

definition cipher_blocksize :: "sshcipher \<Rightarrow> nat" where
  "cipher_blocksize c = ci_block_size c"

definition cipher_keylen :: "sshcipher \<Rightarrow> nat" where
  "cipher_keylen c = ci_key_len c"

definition cipher_seclen :: "sshcipher \<Rightarrow> nat" where
  "cipher_seclen c = (if ''3des-cbc'' = ci_name c then 14 else cipher_keylen c)"

definition cipher_authlen :: "sshcipher \<Rightarrow> nat" where
  "cipher_authlen c = ci_auth_len c"

definition cipher_ivlen :: "sshcipher \<Rightarrow> nat" where
  "cipher_ivlen c =
     (if ci_iv_len c \<noteq> 0 \<or> is_chachapoly c \<or> is_intermac c then ci_iv_len c else ci_block_size c)"

definition cipher_get_number :: "sshcipher \<Rightarrow> int" where
  "cipher_get_number c = ci_number c"

definition cipher_is_cbc :: "sshcipher \<Rightarrow> bool" where
  "cipher_is_cbc c \<longleftrightarrow> ci_flags c AND CFLAG_CBC \<noteq> 0"

definition cipher_mask_ssh1 :: "bool \<Rightarrow> u32" where
  "cipher_mask_ssh1 client =
     (let mask = push_bit (nat SSH_CIPHER_3DES) 1 OR push_bit (nat SSH_CIPHER_BLOWFISH) 1 in
      if client then mask OR push_bit (nat SSH_CIPHER_DES) 1 else mask)"

definition cipher_by_name :: "string \<Rightarrow> sshcipher option" where
  "cipher_by_name name = find (\<lambda>c. ci_name c = name) ciphers"

definition cipher_by_number :: "int \<Rightarrow> sshcipher option" where
  "cipher_by_number i = find (\<lambda>c. ci_number c = i) ciphers"

function ciphers_valid_loop :: "string option \<Rightarrow> bool" where
  "ciphers_valid_loop cp =
     (case strsep CHR '','' cp of
        (None, _) \<Rightarrow> True
      | (Some p, cp') \<Rightarrow>
          if p = [] then True
          else (case cipher_by_name p of
                  None \<Rightarrow> False
                | Some c \<Rightarrow> if ci_number c \<noteq> SSH_CIPHER_SSH2 then False else ciphers_valid_loop cp'))"
  by auto
termination by (relation "measure sep_size") (auto simp: strsep_size dest: sym)

declare ciphers_valid_loop.simps [simp del]

definition ciphers_valid :: "bool \<Rightarrow> string option \<Rightarrow> bool" where
  "ciphers_valid mem nms =
     (case nms of
        None \<Rightarrow> False
      | Some s \<Rightarrow> if s = [] then False else if \<not> mem then False else ciphers_valid_loop (Some s))"

definition cipher_number :: "string option \<Rightarrow> int" where
  "cipher_number name =
     (case name of
        None \<Rightarrow> - 1
      | Some s \<Rightarrow>
          (case find (\<lambda>c. map tolower (ci_name c) = map tolower s) ciphers of
             None \<Rightarrow> - 1 | Some c \<Rightarrow> ci_number c))"

definition cipher_name :: "int \<Rightarrow> string" where
  "cipher_name i = (case cipher_by_number i of None \<Rightarrow> ''<unknown>'' | Some c \<Rightarrow> ci_name c)"

section \<open>Cipher contexts\<close>

record ('e, 'i) sshcipher_ctx =
  cc_plaintext :: bool
  cc_encrypt :: bool
  cc_evp :: "'e option"
  cc_cp :: chachapoly_ctx
  cc_im :: "'i option"
  cc_cipher :: sshcipher

definition cipher_is_intermac :: "('e, 'i) sshcipher_ctx \<Rightarrow> bool" where
  "cipher_is_intermac cc \<longleftrightarrow> is_intermac (cc_cipher cc)"

definition cipher_get_intermac_context :: "('e, 'i) sshcipher_ctx \<Rightarrow> 'i option" where
  "cipher_get_intermac_context cc = cc_im cc"

definition cipher_ctx_is_plaintext :: "('e, 'i) sshcipher_ctx \<Rightarrow> bool" where
  "cipher_ctx_is_plaintext cc = cc_plaintext cc"

definition cipher_ctx_get_number :: "('e, 'i) sshcipher_ctx \<Rightarrow> int" where
  "cipher_ctx_get_number cc = ci_number (cc_cipher cc)"

definition cipher_warning_message :: "('e, 'i) sshcipher_ctx option \<Rightarrow> string option" where
  "cipher_warning_message cc =
     (case cc of
        None \<Rightarrow> None
      | Some c \<Rightarrow> if ci_number (cc_cipher c) = SSH_CIPHER_DES
                  then Some ''use of DES is strongly discouraged due to cryptographic weaknesses''
                  else None)"

definition zero_chachapoly :: chachapoly_ctx where
  "zero_chachapoly = \<lparr>main_ctx = \<lparr>chacha_input = replicate 16 0\<rparr>,
     header_ctx = \<lparr>chacha_input = replicate 16 0\<rparr>\<rparr>"

definition of_evp :: "ssherr \<Rightarrow> 'a option \<Rightarrow> ssherr + 'a" where
  "of_evp e x = (case x of None \<Rightarrow> Inl e | Some y \<Rightarrow> Inr y)"

text \<open>The OpenSSL branch of \<open>cipher_init\<close>: the initialised library context.\<close>

definition cipher_init_evp ::
  "('e, 'i) crypto \<Rightarrow> alloc_env \<Rightarrow> sshcipher \<Rightarrow> bytes \<Rightarrow> bytes option \<Rightarrow> bool \<Rightarrow> ssherr + 'e" where
  "cipher_init_evp lib env c key iv do_encrypt =
     (case EVP_CIPHER_CTX_new lib of
        None \<Rightarrow> Inl SSH_ERR_ALLOC_FAIL
      | Some e0 \<Rightarrow>
     (case EVP_CipherInit_iv lib e0 (the (ci_evptype c)) iv do_encrypt of
        None \<Rightarrow> Inl SSH_ERR_LIBCRYPTO_ERROR
      | Some e1 \<Rightarrow>
     (case (if cipher_authlen c \<noteq> 0 then EVP_GCM_SET_IV_FIXED lib e1 iv else Some e1) of
        None \<Rightarrow> Inl SSH_ERR_LIBCRYPTO_ERROR
      | Some e2 \<Rightarrow>
     (case (let klen = EVP_CIPHER_CTX_key_length lib e2 in
            if klen > 0 \<and> int (length key) \<noteq> klen
            then EVP_CIPHER_CTX_set_key_length lib e2 (length key) else Some e2) of
        None \<Rightarrow> Inl SSH_ERR_LIBCRYPTO_ERROR
      | Some e3 \<Rightarrow>
     (case EVP_CipherInit_key lib e3 key of
        None \<Rightarrow> Inl SSH_ERR_LIBCRYPTO_ERROR
      | Some e4 \<Rightarrow>
          if ci_discard_len c > 0
          then if \<not> malloc_ok env (ci_discard_len c) then Inl SSH_ERR_ALLOC_FAIL
               else (case EVP_Cipher_discard lib e4 (ci_discard_len c) of
                       None \<Rightarrow> Inl SSH_ERR_LIBCRYPTO_ERROR | Some e5 \<Rightarrow> Inr e5)
          else Inr e4)))))"

definition sizeof_sshcipher_ctx :: nat where "sizeof_sshcipher_ctx = 408"

definition cipher_init ::
  "('e, 'i) crypto \<Rightarrow> alloc_env \<Rightarrow> sshcipher \<Rightarrow> bytes \<Rightarrow> bytes option \<Rightarrow> bool \<Rightarrow>
     ssherr + ('e, 'i) sshcipher_ctx" where
  "cipher_init lib env c key0 iv do_encrypt =
     (if \<not> malloc_ok env sizeof_sshcipher_ctx then Inl SSH_ERR_ALLOC_FAIL
      else let key = (if ci_number c = SSH_CIPHER_DES \<and> length key0 > 8 then take 8 key0 else key0);
               cc = \<lparr>cc_plaintext = (ci_number c = SSH_CIPHER_NONE), cc_encrypt = do_encrypt,
                     cc_evp = None, cc_cp = zero_chachapoly, cc_im = None, cc_cipher = c\<rparr>
           in if length key < ci_key_len c \<or> (case iv of None \<Rightarrow> False | Some v \<Rightarrow> length v < cipher_ivlen c)
              then Inl SSH_ERR_INVALID_ARGUMENT
              else if is_intermac c then
                (case cipher_im_get_name (ci_name c) of
                   None \<Rightarrow> Inl SSH_ERR_INTERNAL_ERROR
                 | Some name \<Rightarrow>
                     (case im_initialise lib key (ci_block_size c) name do_encrypt of
                        None \<Rightarrow> Inl SSH_ERR_INTERNAL_ERROR
                      | Some im \<Rightarrow> Inr (cc\<lparr>cc_im := Some im\<rparr>)))
              else if is_chachapoly c then
                (case chachapoly_init (cc_cp cc) key of
                   (Inl e, _) \<Rightarrow> Inl e
                 | (Inr _, cp) \<Rightarrow> Inr (cc\<lparr>cc_cp := cp\<rparr>))
              else (case cipher_init_evp lib env c key iv do_encrypt of
                      Inl e \<Rightarrow> Inl e
                    | Inr e \<Rightarrow> Inr (cc\<lparr>cc_evp := Some e\<rparr>)))"

text \<open>
  \<open>cipher_crypt\<close> on \<open>aadlen + len\<close> bytes of \<open>src\<close> followed, when an authenticated packet is
  decrypted, by its tag; the result is what is written to \<open>dest\<close>. InterMAC contexts have no
  OpenSSL context and are never passed to this function.
\<close>

definition cipher_crypt_evp ::
  "('e, 'i) crypto \<Rightarrow> sshcipher \<Rightarrow> bool \<Rightarrow> bytes \<Rightarrow> nat \<Rightarrow> nat \<Rightarrow> nat \<Rightarrow> 'e \<Rightarrow> (ssherr, 'e, bytes) outcome" where
  "cipher_crypt_evp lib c enc src len aadlen authlen e0 =
     (if authlen \<noteq> 0 \<and> authlen \<noteq> cipher_authlen c then (Inl SSH_ERR_INVALID_ARGUMENT, e0)
      else (case (if authlen \<noteq> 0 then EVP_GCM_IV_GEN lib e0 else Some e0) of
         None \<Rightarrow> (Inl SSH_ERR_LIBCRYPTO_ERROR, e0)
       | Some e1 \<Rightarrow>
      (case (if authlen \<noteq> 0 \<and> \<not> enc
             then EVP_GCM_SET_TAG lib e1 (take authlen (drop (aadlen + len) src)) else Some e1) of
         None \<Rightarrow> (Inl SSH_ERR_LIBCRYPTO_ERROR, e1)
       | Some e2 \<Rightarrow>
      (case (if aadlen \<noteq> 0 \<and> authlen \<noteq> 0 then EVP_Cipher_aad lib e2 (take aadlen src) else Some e2) of
         None \<Rightarrow> (Inl SSH_ERR_LIBCRYPTO_ERROR, e2)
       | Some e3 \<Rightarrow>
          if len mod ci_block_size c \<noteq> 0 then (Inl SSH_ERR_INVALID_ARGUMENT, e3)
          else (case EVP_Cipher_data lib e3 (take len (drop aadlen src)) of
             None \<Rightarrow> (Inl SSH_ERR_LIBCRYPTO_ERROR, e3)
           | Some (body, e4) \<Rightarrow>
               let dest = take aadlen src @ body in
               if authlen = 0 then (Inr dest, e4)
               else (case EVP_Cipher_final lib e4 of
                  None \<Rightarrow> (Inl (if enc then SSH_ERR_LIBCRYPTO_ERROR else SSH_ERR_MAC_INVALID), e4)
                | Some e5 \<Rightarrow>
                    if \<not> enc then (Inr dest, e5)
                    else (case EVP_GCM_GET_TAG lib e5 authlen of
                            None \<Rightarrow> (Inl SSH_ERR_LIBCRYPTO_ERROR, e5)
                          | Some tag \<Rightarrow> (Inr (dest @ tag), e5))))))))"

definition cipher_crypt ::
  "('e, 'i) crypto \<Rightarrow> ('e, 'i) sshcipher_ctx \<Rightarrow> u32 \<Rightarrow> bytes \<Rightarrow> nat \<Rightarrow> nat \<Rightarrow> nat \<Rightarrow>
     (ssherr, ('e, 'i) sshcipher_ctx, bytes) outcome" where
  "cipher_crypt lib cc seqnr src len aadlen authlen =
     (if is_chachapoly (cc_cipher cc)
      then (case chachapoly_crypt (cc_cp cc) seqnr src len aadlen (cc_encrypt cc) of
              (r, cp) \<Rightarrow> (r, cc\<lparr>cc_cp := cp\<rparr>))
      else (case cc_evp cc of
              None \<Rightarrow> (Inl SSH_ERR_INTERNAL_ERROR, cc)
            | Some e \<Rightarrow>
                (case cipher_crypt_evp lib (cc_cipher cc) (cc_encrypt cc) src len aadlen authlen e of
                   (r, e') \<Rightarrow> (r, cc\<lparr>cc_evp := Some e'\<rparr>))))"

definition cipher_get_length ::
  "('e, 'i) sshcipher_ctx \<Rightarrow> u32 \<Rightarrow> bytes \<Rightarrow> (ssherr, ('e, 'i) sshcipher_ctx, u32) outcome" where
  "cipher_get_length cc seqnr cp =
     (if is_chachapoly (cc_cipher cc)
      then (case chachapoly_get_length (cc_cp cc) seqnr cp of (r, c) \<Rightarrow> (r, cc\<lparr>cc_cp := c\<rparr>))
      else if length cp < 4 then (Inl SSH_ERR_MESSAGE_INCOMPLETE, cc)
      else (Inr (PEEK_U32 cp), cc))"

definition cipher_get_keyiv_len :: "('e, 'i) crypto \<Rightarrow> ('e, 'i) sshcipher_ctx \<Rightarrow> int" where
  "cipher_get_keyiv_len lib cc =
     (let c = cc_cipher cc in
      if ci_number c = SSH_CIPHER_3DES then 24
      else if is_chachapoly c then 0
      else if ci_flags c AND CFLAG_AESCTR \<noteq> 0 then 16
      else if is_intermac c then 0
      else EVP_CIPHER_CTX_iv_length lib (the (cc_evp cc)))"

section \<open>The table\<close>

lemmas table_simps = ciphers_def cipher_entry_def cipher_consts is_intermac_def is_chachapoly_def

lemma cipher_names_distinct: "distinct (map ci_name ciphers)"
  by code_simp

lemma cipher_names_no_comma: "\<forall>c\<in>set ciphers. CHR '','' \<notin> set (ci_name c) \<and> ci_name c \<noteq> []"
  by code_simp

lemma find_distinct:
  assumes "distinct (map f xs)" and "x \<in> set xs"
  shows "find (\<lambda>y. f y = f x) xs = Some x"
  using assms by (induction xs) auto

lemma cipher_by_name_table: "c \<in> set ciphers \<Longrightarrow> cipher_by_name (ci_name c) = Some c"
  unfolding cipher_by_name_def by (rule find_distinct [OF cipher_names_distinct])

lemma cipher_by_name_Some:
  "cipher_by_name n = Some c \<longleftrightarrow> c \<in> set ciphers \<and> ci_name c = n"
  using cipher_by_name_table by (auto simp: cipher_by_name_def find_Some_iff in_set_conv_nth)

text \<open>The decimal numeral of a chunk length.\<close>

fun decimal :: "nat \<Rightarrow> string" where
  "decimal n = (if n < 10 then [] else decimal (n div 10)) @ [''0123456789'' ! (n mod 10)]"

declare decimal.simps [simp del]

text \<open>What the rest of the program relies on in an entry.\<close>

definition cipher_entry_ok :: "sshcipher \<Rightarrow> bool" where
  "cipher_entry_ok c \<longleftrightarrow>
     (if is_intermac c
      then ci_block_size c \<in> set [128, 256, 512, 1024, 2048, 4096] \<and> ci_key_len c = 16 \<and>
        ci_evptype c = None \<and>
        (case cipher_im_get_name (ci_name c) of
           None \<Rightarrow> False
         | Some suite \<Rightarrow> ci_name c = suite @ ''-'' @ decimal (ci_block_size c))
      else ci_block_size c \<in> set [8, 16] \<and> (ci_evptype c = None \<longleftrightarrow> is_chachapoly c)) \<and>
     (cipher_is_cbc c \<longrightarrow> ci_auth_len c = 0) \<and>
     (ci_number c = SSH_CIPHER_SSH2 \<or> ci_name c = ''none'')"

lemma cipher_entries_ok: "list_all cipher_entry_ok ciphers"
  by (simp add: table_simps cipher_entry_ok_def cipher_im_get_name_def cipher_is_cbc_def
      decimal.simps)

section \<open>Checking and writing lists of ciphers\<close>

definition cipher_known :: "string \<Rightarrow> bool" where
  "cipher_known p \<longleftrightarrow>
     (case cipher_by_name p of None \<Rightarrow> False | Some c \<Rightarrow> ci_number c = SSH_CIPHER_SSH2)"

interpretation cl: name_checker cipher_known ciphers_valid_loop
proof unfold_locales
  fix cp
  show "ciphers_valid_loop cp =
       (case strsep CHR '','' cp of
          (None, _) \<Rightarrow> True
        | (Some p, cp') \<Rightarrow> if p = [] then True else if \<not> cipher_known p then False else ciphers_valid_loop cp')"
    by (subst ciphers_valid_loop.simps)
      (auto simp: cipher_known_def split: option.splits prod.splits)
qed

lemma fold_filter: "fold (\<lambda>c acc. if P c then f c acc else acc) xs = fold f (filter P xs)"
  by (induction xs) auto

definition alg_names :: "bool \<Rightarrow> string list" where
  "alg_names auth_only =
     map ci_name (filter (\<lambda>c. ci_number c = SSH_CIPHER_SSH2 \<and> (auth_only \<longrightarrow> ci_auth_len c \<noteq> 0)) ciphers)"

lemma alg_names_ne: "alg_names b \<noteq> []"
proof -
  have "alg_names True \<noteq> []" "alg_names False \<noteq> []" by code_simp+
  then show ?thesis by (cases b) simp_all
qed

lemma cipher_alg_list_fold:
  "cipher_alg_list env sep auth_only = fold (alg_list_add env sep) (alg_names auth_only) (Some None)"
proof -
  have "cipher_alg_list env sep auth_only =
      fold (\<lambda>c acc. if ci_number c = SSH_CIPHER_SSH2 \<and> (auth_only \<longrightarrow> ci_auth_len c \<noteq> 0)
           then (alg_list_add env sep \<circ> ci_name) c acc else acc) ciphers (Some None)"
    unfolding cipher_alg_list_def by (rule fold_cong) (auto simp: fun_eq_iff)
  then show ?thesis by (simp only: fold_filter alg_names_def fold_map)
qed

lemma alg_names_known: "n \<in> set (alg_names b) \<Longrightarrow> cipher_known n \<and> CHR '','' \<notin> set n"
  using cipher_names_no_comma cipher_by_name_table
  by (auto simp: alg_names_def cipher_known_def)

text \<open>The list of ciphers that the program offers is a list it accepts: whatever the separator
  selection, when \<open>cipher_alg_list\<close> returns a comma-separated list, its names are exactly those of
  the protocol 2 entries of the table (the authenticated ones when \<open>auth_only\<close> is set), in table
  order, \<open>ciphers_valid\<close> accepts it, and looking a name up gives back an entry whose fields are
  consistent (block sizes 8 or 16, or for the InterMAC entries the chunk length their name ends in);
  an allocation failure is the only way not to return a list.\<close>

theorem cipher_alg_list_valid:
  assumes "cipher_alg_list env CHR '','' auth_only = r"
  shows "case r of
      None \<Rightarrow> \<not> (\<forall>n. malloc_ok env n)
    | Some None \<Rightarrow> False
    | Some (Some l) \<Rightarrow>
        ciphers_valid True (Some l) \<and> tokens l = alg_names auth_only \<and>
        (\<forall>n\<in>set (tokens l). \<exists>c. cipher_by_name n = Some c \<and> ci_number c = SSH_CIPHER_SSH2 \<and>
           (auth_only \<longrightarrow> cipher_authlen c \<noteq> 0) \<and> cipher_entry_ok c)"
proof (cases r)
  case None
  then show ?thesis
    using assms alg_list_fold_ok [OF _ alg_names_ne, of env "CHR '',''" auth_only]
    by (cases "\<forall>n. malloc_ok env n") (auto simp: cipher_alg_list_fold)
next
  case (Some l)
  have l: "l = Some (join CHR '','' (alg_names auth_only))"
    using alg_list_fold [of env "CHR '',''" "alg_names auth_only" l] assms Some alg_names_ne
    by (auto simp: cipher_alg_list_fold)
  have tok: "tokens (join CHR '','' (alg_names auth_only)) = alg_names auth_only"
    using alg_names_ne alg_names_known by (intro tokens_join) auto
  have ne: "join CHR '','' (alg_names auth_only) \<noteq> []"
  proof
    assume "join CHR '','' (alg_names auth_only) = []"
    then have "[] \<in> set (alg_names auth_only)" using tok by (metis tokens_Nil list.set_intros(1))
    then show False using cipher_names_no_comma by (auto simp: alg_names_def)
  qed
  have "ciphers_valid True l"
    using ne cl.valid_join [OF alg_names_ne] alg_names_known by (simp add: l ciphers_valid_def)
  moreover have "\<forall>n\<in>set (alg_names auth_only). \<exists>c. cipher_by_name n = Some c \<and>
      ci_number c = SSH_CIPHER_SSH2 \<and> (auth_only \<longrightarrow> cipher_authlen c \<noteq> 0) \<and> cipher_entry_ok c"
    using cipher_by_name_table cipher_entries_ok
    by (fastforce simp: alg_names_def cipher_authlen_def list_all_iff)
  ultimately show ?thesis using Some l tok by simp
qed

theorem cipher_alg_list_valid_witness:
  "case cipher_alg_list plenty CHR '','' True of
      None \<Rightarrow> \<not> (\<forall>n. malloc_ok plenty n)
    | Some None \<Rightarrow> False
    | Some (Some l) \<Rightarrow>
        ciphers_valid True (Some l) \<and> tokens l = alg_names True \<and>
        (\<forall>n\<in>set (tokens l). \<exists>c. cipher_by_name n = Some c \<and> ci_number c = SSH_CIPHER_SSH2 \<and>
           (True \<longrightarrow> cipher_authlen c \<noteq> 0) \<and> cipher_entry_ok c)"
  by (rule cipher_alg_list_valid [of plenty True, OF refl])

section \<open>InterMAC ciphers and contexts\<close>

lemma cipher_im_get_name_cases:
  "cipher_im_get_name n = Some s \<Longrightarrow> s = ''im-chacha-poly'' \<or> s = ''im-aes128-gcm''"
  by (auto simp: cipher_im_get_name_def Let_def split: if_splits)

text \<open>\<open>cipher_im_block_size\<close> returns the error code -1 for every cipher: its two comparisons
  hold only where the names differ, so neither of the block sizes 16 and 64 is ever returned.\<close>

theorem cipher_im_block_size_error: "cipher_im_block_size c = -1"
  by (auto simp: cipher_im_block_size_def memcmp_nonzero_def Let_def
      split: option.split dest!: cipher_im_get_name_cases)

text \<open>C37. A context that \<open>cipher_init\<close> hands out holds exactly the sub-context its cipher needs
  (InterMAC, OpenSSL, or neither for chacha20-poly1305), was given at least the key the table asks
  for and no short IV, and is marked as plaintext only for the cipher \<open>none\<close>; an InterMAC context
  is the library's initialisation for the suite and the chunk length of the entry's name.\<close>

theorem cipher_init_ok:
  assumes "c \<in> set ciphers" and "cipher_init lib env c key iv enc = Inr cc"
  shows "ci_key_len c \<le> length key \<and> (iv = None \<or> cipher_ivlen c \<le> length (the iv)) \<and>
    cc_cipher cc = c \<and> cc_encrypt cc = enc \<and> (cc_plaintext cc \<longleftrightarrow> ci_name c = ''none'') \<and>
    (cc_evp cc \<noteq> None \<longleftrightarrow> \<not> is_intermac c \<and> \<not> is_chachapoly c) \<and>
    (if is_intermac c
     then \<exists>suite. ci_name c = suite @ ''-'' @ decimal (ci_block_size c) \<and>
            cc_im cc = im_initialise lib key (ci_block_size c) suite enc \<and> cc_im cc \<noteq> None
     else cc_im cc = None)"
proof -
  have ok: "cipher_entry_ok c" using assms(1) cipher_entries_ok by (simp add: list_all_iff)
  have ssh2: "ci_number c = SSH_CIPHER_SSH2 \<or> ci_name c = ''none''"
    using ok by (simp add: cipher_entry_ok_def)
  have none: "ci_name c = ''none'' \<longleftrightarrow> ci_number c = SSH_CIPHER_NONE"
    using assms(1) by (auto simp: table_simps)
  have suite: "\<exists>suite. cipher_im_get_name (ci_name c) = Some suite \<and>
      ci_name c = suite @ ''-'' @ decimal (ci_block_size c)" if "is_intermac c"
    using ok that by (auto simp: cipher_entry_ok_def split: option.splits)
  have nodes: "ci_number c \<noteq> SSH_CIPHER_DES" using ssh2 none by (auto simp: cipher_consts)
  show ?thesis
    using assms(2) nodes none suite
    by (auto simp: cipher_init_def Let_def split: if_splits option.splits sum.splits prod.splits)
qed

definition null_crypto :: "(unit, bytes \<times> nat \<times> string) crypto" where
  "null_crypto = \<lparr>EVP_CIPHER_CTX_new = Some (), EVP_CipherInit_iv = (\<lambda>_ _ _ _. Some ()),
     EVP_GCM_SET_IV_FIXED = (\<lambda>_ _. Some ()), EVP_CIPHER_CTX_key_length = (\<lambda>_. 0),
     EVP_CIPHER_CTX_set_key_length = (\<lambda>_ _. Some ()), EVP_CipherInit_key = (\<lambda>_ _. Some ()),
     EVP_Cipher_discard = (\<lambda>_ _. Some ()), EVP_GCM_IV_GEN = (\<lambda>_. Some ()),
     EVP_GCM_SET_TAG = (\<lambda>_ _. Some ()), EVP_Cipher_aad = (\<lambda>_ _. Some ()),
     EVP_Cipher_data = (\<lambda>_ d. Some (d, ())), EVP_Cipher_final = (\<lambda>_. Some ()),
     EVP_GCM_GET_TAG = (\<lambda>_ n. Some (replicate n 0)), EVP_CIPHER_CTX_iv_length = (\<lambda>_. 16),
     im_initialise = (\<lambda>k n s _. Some (k, n, s)), im_encrypt = (\<lambda>i d. Some (d, i)),
     im_decrypt = (\<lambda>i d. Some (of_nat (length d), d, length d, of_nat (length d), i))\<rparr>"

definition im_gcm_128 :: sshcipher where
  "im_gcm_128 = cipher_entry ''im-aes128-gcm-128'' SSH_CIPHER_SSH2 128 16 0 1 0 CFLAG_INTERMAC None"

theorem cipher_init_ok_witness:
  "case cipher_init null_crypto plenty im_gcm_128 (replicate 16 1) None True of
     Inl _ \<Rightarrow> False
   | Inr cc \<Rightarrow> cc_im cc = Some (replicate 16 1, 128, ''im-aes128-gcm'') \<and> \<not> cc_plaintext cc"
proof -
  have tab: "im_gcm_128 \<in> set ciphers" by (simp add: im_gcm_128_def ciphers_def)
  obtain cc where cc: "cipher_init null_crypto plenty im_gcm_128 (replicate 16 1) None True = Inr cc"
    by (simp add: cipher_init_def im_gcm_128_def table_simps null_crypto_def cipher_im_get_name_def)
  show ?thesis
    using cipher_init_ok [OF tab cc] cc
    by (simp add: cipher_init_def im_gcm_128_def table_simps null_crypto_def cipher_im_get_name_def
        decimal.simps)
qed

end
