(* ===== verification/Mac.thy ===== *)
theory Mac
  imports Alglist Sshbuf_Getput
begin

text \<open>
  Message digests over OpenSSL (\<open>digest-openssl.c\<close>), HMAC (\<open>hmac.c\<close>) and the MAC layer of the
  transport (\<open>mac.c\<close>, \<open>mac.h\<close>). The OpenSSL digest contexts (type \<open>'d\<close>) and the UMAC contexts
  (type \<open>'u\<close>) are opaque; the records \<open>evp_md\<close> and \<open>umac_lib\<close> hold the calls the code makes.
\<close>

section \<open>Digests\<close>

record 'd evp_md =
  EVP_DigestInit_ex :: "string \<Rightarrow> 'd option"
  EVP_DigestUpdate :: "'d \<Rightarrow> bytes \<Rightarrow> 'd option"
  EVP_DigestFinal_ex :: "'d \<Rightarrow> (bytes \<times> 'd) option"
  EVP_MD_CTX_copy_ex :: "'d \<Rightarrow> 'd option"
  EVP_MD_CTX_block_size :: "'d \<Rightarrow> nat"
  EVP_Digest :: "string \<Rightarrow> bytes \<Rightarrow> bytes option"

record ssh_digest =
  dg_id :: int
  dg_name :: string
  dg_digest_len :: nat
  dg_mdfunc :: "string option"

definition SSH_DIGEST_MD5 :: int where "SSH_DIGEST_MD5 = 0"
definition SSH_DIGEST_RIPEMD160 :: int where "SSH_DIGEST_RIPEMD160 = 1"
definition SSH_DIGEST_SHA1 :: int where "SSH_DIGEST_SHA1 = 2"
definition SSH_DIGEST_SHA256 :: int where "SSH_DIGEST_SHA256 = 3"
definition SSH_DIGEST_SHA384 :: int where "SSH_DIGEST_SHA384 = 4"
definition SSH_DIGEST_SHA512 :: int where "SSH_DIGEST_SHA512 = 5"
definition SSH_DIGEST_MAX :: int where "SSH_DIGEST_MAX = 6"
definition SSH_DIGEST_MAX_LENGTH :: nat where "SSH_DIGEST_MAX_LENGTH = 64"
definition UINT_MAX :: nat where "UINT_MAX = 4294967295"

lemmas digest_consts = SSH_DIGEST_MD5_def SSH_DIGEST_RIPEMD160_def SSH_DIGEST_SHA1_def
  SSH_DIGEST_SHA256_def SSH_DIGEST_SHA384_def SSH_DIGEST_SHA512_def SSH_DIGEST_MAX_def
  SSH_DIGEST_MAX_LENGTH_def UINT_MAX_def

definition digest_entry :: "int \<Rightarrow> string \<Rightarrow> nat \<Rightarrow> string \<Rightarrow> ssh_digest" where
  "digest_entry i name len f =
     \<lparr>dg_id = i, dg_name = name, dg_digest_len = len, dg_mdfunc = Some f\<rparr>"

definition digests :: "ssh_digest list" where
  "digests =
    [digest_entry SSH_DIGEST_MD5 ''MD5'' 16 ''EVP_md5'',
     digest_entry SSH_DIGEST_RIPEMD160 ''RIPEMD160'' 20 ''EVP_ripemd160'',
     digest_entry SSH_DIGEST_SHA1 ''SHA1'' 20 ''EVP_sha1'',
     digest_entry SSH_DIGEST_SHA256 ''SHA256'' 32 ''EVP_sha256'',
     digest_entry SSH_DIGEST_SHA384 ''SHA384'' 48 ''EVP_sha384'',
     digest_entry SSH_DIGEST_SHA512 ''SHA512'' 64 ''EVP_sha512'']"

definition ssh_digest_by_alg :: "int \<Rightarrow> ssh_digest option" where
  "ssh_digest_by_alg alg =
     (if alg < 0 \<or> alg \<ge> SSH_DIGEST_MAX then None
      else let d = digests ! nat alg in
        if dg_id d \<noteq> alg then None
        else if dg_mdfunc d = None then None
        else Some d)"

definition ssh_digest_alg_by_name :: "string \<Rightarrow> int" where
  "ssh_digest_alg_by_name name =
     (case find (\<lambda>d. map tolower name = map tolower (dg_name d)) digests of
        None \<Rightarrow> - 1 | Some d \<Rightarrow> dg_id d)"

definition ssh_digest_alg_name :: "int \<Rightarrow> string option" where
  "ssh_digest_alg_name alg = map_option dg_name (ssh_digest_by_alg alg)"

definition ssh_digest_bytes :: "int \<Rightarrow> nat" where
  "ssh_digest_bytes alg = (case ssh_digest_by_alg alg of None \<Rightarrow> 0 | Some d \<Rightarrow> dg_digest_len d)"

record 'd ssh_digest_ctx =
  dctx_alg :: int
  mdctx :: 'd

definition sizeof_ssh_digest_ctx :: nat where "sizeof_ssh_digest_ctx = 56"

definition ssh_digest_blocksize :: "'d evp_md \<Rightarrow> 'd ssh_digest_ctx \<Rightarrow> nat" where
  "ssh_digest_blocksize lib ctx = EVP_MD_CTX_block_size lib (mdctx ctx)"

definition ssh_digest_start :: "'d evp_md \<Rightarrow> alloc_env \<Rightarrow> int \<Rightarrow> 'd ssh_digest_ctx option" where
  "ssh_digest_start lib env alg =
     (case ssh_digest_by_alg alg of
        None \<Rightarrow> None
      | Some dig \<Rightarrow>
          if \<not> malloc_ok env sizeof_ssh_digest_ctx then None
          else (case EVP_DigestInit_ex lib (the (dg_mdfunc dig)) of
                  None \<Rightarrow> None
                | Some d \<Rightarrow> Some \<lparr>dctx_alg = alg, mdctx = d\<rparr>))"

definition ssh_digest_copy_state ::
  "'d evp_md \<Rightarrow> 'd ssh_digest_ctx \<Rightarrow> 'd ssh_digest_ctx \<Rightarrow> (ssherr, 'd ssh_digest_ctx, unit) outcome" where
  "ssh_digest_copy_state lib src dst =
     (if dctx_alg src \<noteq> dctx_alg dst then (Inl SSH_ERR_INVALID_ARGUMENT, dst)
      else (case EVP_MD_CTX_copy_ex lib (mdctx src) of
              None \<Rightarrow> (Inl SSH_ERR_LIBCRYPTO_ERROR, dst)
            | Some d \<Rightarrow> (Inr (), dst\<lparr>mdctx := d\<rparr>)))"

definition ssh_digest_update ::
  "'d evp_md \<Rightarrow> 'd ssh_digest_ctx \<Rightarrow> bytes \<Rightarrow> (ssherr, 'd ssh_digest_ctx, unit) outcome" where
  "ssh_digest_update lib ctx m =
     (case EVP_DigestUpdate lib (mdctx ctx) m of
        None \<Rightarrow> (Inl SSH_ERR_LIBCRYPTO_ERROR, ctx)
      | Some d \<Rightarrow> (Inr (), ctx\<lparr>mdctx := d\<rparr>))"

definition ssh_digest_update_buffer ::
  "'d evp_md \<Rightarrow> 'd ssh_digest_ctx \<Rightarrow> sshbuf \<Rightarrow> (ssherr, 'd ssh_digest_ctx, unit) outcome" where
  "ssh_digest_update_buffer lib ctx b =
     ssh_digest_update lib ctx (take (sshbuf_len b) (blk (sshbuf_ptr b)))"

definition ssh_digest_final ::
  "'d evp_md \<Rightarrow> 'd ssh_digest_ctx \<Rightarrow> nat \<Rightarrow> (ssherr, 'd ssh_digest_ctx, bytes) outcome" where
  "ssh_digest_final lib ctx dlen =
     (let dig = the (ssh_digest_by_alg (dctx_alg ctx)) in
      if dlen > UINT_MAX then (Inl SSH_ERR_INVALID_ARGUMENT, ctx)
      else if dlen < dg_digest_len dig then (Inl SSH_ERR_INVALID_ARGUMENT, ctx)
      else (case EVP_DigestFinal_ex lib (mdctx ctx) of
              None \<Rightarrow> (Inl SSH_ERR_LIBCRYPTO_ERROR, ctx)
            | Some (h, d) \<Rightarrow>
                let ctx' = ctx\<lparr>mdctx := d\<rparr> in
                if length h \<noteq> dg_digest_len dig then (Inl SSH_ERR_INTERNAL_ERROR, ctx')
                else (Inr h, ctx')))"

definition ssh_digest_memory :: "'d evp_md \<Rightarrow> int \<Rightarrow> bytes \<Rightarrow> nat \<Rightarrow> ssherr + bytes" where
  "ssh_digest_memory lib alg m dlen =
     (case ssh_digest_by_alg alg of
        None \<Rightarrow> Inl SSH_ERR_INVALID_ARGUMENT
      | Some dig \<Rightarrow>
          if dlen > UINT_MAX then Inl SSH_ERR_INVALID_ARGUMENT
          else if dlen < dg_digest_len dig then Inl SSH_ERR_INVALID_ARGUMENT
          else (case EVP_Digest lib (the (dg_mdfunc dig)) m of
                  None \<Rightarrow> Inl SSH_ERR_LIBCRYPTO_ERROR
                | Some h \<Rightarrow> Inr h))"

definition ssh_digest_buffer :: "'d evp_md \<Rightarrow> int \<Rightarrow> sshbuf \<Rightarrow> nat \<Rightarrow> ssherr + bytes" where
  "ssh_digest_buffer lib alg b dlen =
     ssh_digest_memory lib alg (take (sshbuf_len b) (blk (sshbuf_ptr b))) dlen"

section \<open>HMAC\<close>

record 'd ssh_hmac_ctx =
  h_alg :: int
  h_ictx :: "'d ssh_digest_ctx"
  h_octx :: "'d ssh_digest_ctx"
  h_digest :: "'d ssh_digest_ctx"
  h_buf :: bytes

definition sizeof_ssh_hmac_ctx :: nat where "sizeof_ssh_hmac_ctx = 48"

definition ssh_hmac_bytes :: "int \<Rightarrow> nat" where
  "ssh_hmac_bytes alg = ssh_digest_bytes alg"

definition ssh_hmac_start :: "'d evp_md \<Rightarrow> alloc_env \<Rightarrow> int \<Rightarrow> 'd ssh_hmac_ctx option" where
  "ssh_hmac_start lib env alg =
     (if \<not> malloc_ok env sizeof_ssh_hmac_ctx then None
      else (case ssh_digest_start lib env alg of
         None \<Rightarrow> None
       | Some ictx \<Rightarrow>
      (case ssh_digest_start lib env alg of
         None \<Rightarrow> None
       | Some octx \<Rightarrow>
      (case ssh_digest_start lib env alg of
         None \<Rightarrow> None
       | Some dig \<Rightarrow>
      (case calloc_bytes env (ssh_digest_blocksize lib ictx) of
         None \<Rightarrow> None
       | Some buf \<Rightarrow>
           Some \<lparr>h_alg = alg, h_ictx = ictx, h_octx = octx, h_digest = dig, h_buf = buf\<rparr>)))))"

text \<open>
  The functions of \<open>hmac.c\<close> report every failure as -1, here \<open>Inl ()\<close>. \<open>hmac_part\<close> lifts a call
  on one of the three digest contexts to the HMAC context.
\<close>

definition hmac_part ::
  "(ssherr, 'c, 'a) outcome \<Rightarrow> ('c \<Rightarrow> 'h) \<Rightarrow> (unit, 'h, 'a) outcome" where
  "hmac_part r upd = (case r of (Inl _, c) \<Rightarrow> (Inl (), upd c) | (Inr x, c) \<Rightarrow> (Inr x, upd c))"

definition ssh_hmac_init ::
  "'d evp_md \<Rightarrow> 'd ssh_hmac_ctx \<Rightarrow> bytes option \<Rightarrow> (unit, 'd ssh_hmac_ctx, unit) outcome" where
  "ssh_hmac_init lib ctx key =
     rbind (case key of
         None \<Rightarrow> (Inr (), ctx)
       | Some k \<Rightarrow>
           rbind (if length k \<le> length (h_buf ctx) then (Inr (), ctx\<lparr>h_buf := mem_write 0 k (h_buf ctx)\<rparr>)
              else (case ssh_digest_memory lib (h_alg ctx) k (length (h_buf ctx)) of
                      Inl _ \<Rightarrow> (Inl (), ctx)
                    | Inr h \<Rightarrow> (Inr (), ctx\<lparr>h_buf := mem_write 0 h (h_buf ctx)\<rparr>)))
           (\<lambda>_ ctx. let ctx = ctx\<lparr>h_buf := map (\<lambda>b. b XOR 0x36) (h_buf ctx)\<rparr> in
           rbind (hmac_part (ssh_digest_update lib (h_ictx ctx) (h_buf ctx)) (\<lambda>c. ctx\<lparr>h_ictx := c\<rparr>))
           (\<lambda>_ ctx. let ctx = ctx\<lparr>h_buf := map (\<lambda>b. b XOR (0x36 XOR 0x5c)) (h_buf ctx)\<rparr> in
           rbind (hmac_part (ssh_digest_update lib (h_octx ctx) (h_buf ctx)) (\<lambda>c. ctx\<lparr>h_octx := c\<rparr>))
           (\<lambda>_ ctx. (Inr (), ctx\<lparr>h_buf := replicate (length (h_buf ctx)) 0\<rparr>)))))
     (\<lambda>_ ctx. hmac_part (ssh_digest_copy_state lib (h_ictx ctx) (h_digest ctx))
                (\<lambda>c. ctx\<lparr>h_digest := c\<rparr>))"

definition ssh_hmac_update ::
  "'d evp_md \<Rightarrow> 'd ssh_hmac_ctx \<Rightarrow> bytes \<Rightarrow> (unit, 'd ssh_hmac_ctx, unit) outcome" where
  "ssh_hmac_update lib ctx m =
     hmac_part (ssh_digest_update lib (h_digest ctx) m) (\<lambda>c. ctx\<lparr>h_digest := c\<rparr>)"

definition ssh_hmac_update_buffer ::
  "'d evp_md \<Rightarrow> 'd ssh_hmac_ctx \<Rightarrow> sshbuf \<Rightarrow> (unit, 'd ssh_hmac_ctx, unit) outcome" where
  "ssh_hmac_update_buffer lib ctx b =
     hmac_part (ssh_digest_update_buffer lib (h_digest ctx) b) (\<lambda>c. ctx\<lparr>h_digest := c\<rparr>)"

definition ssh_hmac_final ::
  "'d evp_md \<Rightarrow> 'd ssh_hmac_ctx \<Rightarrow> nat \<Rightarrow> (unit, 'd ssh_hmac_ctx, bytes) outcome" where
  "ssh_hmac_final lib ctx dlen =
     (let len = ssh_digest_bytes (h_alg ctx) in
      if dlen < len then (Inl (), ctx)
      else
        rbind (hmac_part (ssh_digest_final lib (h_digest ctx) len) (\<lambda>c. ctx\<lparr>h_digest := c\<rparr>))
        (\<lambda>h ctx. let ctx = ctx\<lparr>h_buf := mem_write 0 h (h_buf ctx)\<rparr> in
        rbind (hmac_part (ssh_digest_copy_state lib (h_octx ctx) (h_digest ctx)) (\<lambda>c. ctx\<lparr>h_digest := c\<rparr>))
        (\<lambda>_ ctx.
        rbind (hmac_part (ssh_digest_update lib (h_digest ctx) (mem_read 0 len (h_buf ctx)))
                 (\<lambda>c. ctx\<lparr>h_digest := c\<rparr>))
        (\<lambda>_ ctx. hmac_part (ssh_digest_final lib (h_digest ctx) dlen) (\<lambda>c. ctx\<lparr>h_digest := c\<rparr>)))))"

section \<open>The MAC layer\<close>

record 'u umac_lib =
  umac_new :: "bytes \<Rightarrow> 'u option"
  umac_update :: "'u \<Rightarrow> bytes \<Rightarrow> 'u"
  umac_final :: "'u \<Rightarrow> bytes \<Rightarrow> bytes \<times> 'u"
  umac128_new :: "bytes \<Rightarrow> 'u option"
  umac128_update :: "'u \<Rightarrow> bytes \<Rightarrow> 'u"
  umac128_final :: "'u \<Rightarrow> bytes \<Rightarrow> bytes \<times> 'u"

definition SSH_DIGEST :: int where "SSH_DIGEST = 1"
definition SSH_UMAC :: int where "SSH_UMAC = 2"
definition SSH_UMAC128 :: int where "SSH_UMAC128 = 3"

record macalg =
  ma_name :: string
  ma_type :: int
  ma_alg :: int
  ma_truncatebits :: nat
  ma_key_len :: nat
  ma_len :: nat
  ma_etm :: bool

definition mac_entry :: "string \<Rightarrow> int \<Rightarrow> int \<Rightarrow> nat \<Rightarrow> nat \<Rightarrow> nat \<Rightarrow> bool \<Rightarrow> macalg" where
  "mac_entry name ty alg trunc klen len etm =
     \<lparr>ma_name = name, ma_type = ty, ma_alg = alg, ma_truncatebits = trunc, ma_key_len = klen,
      ma_len = len, ma_etm = etm\<rparr>"

definition macs :: "macalg list" where
  "macs =
    [mac_entry ''hmac-sha1'' SSH_DIGEST SSH_DIGEST_SHA1 0 0 0 False,
     mac_entry ''hmac-sha1-96'' SSH_DIGEST SSH_DIGEST_SHA1 96 0 0 False,
     mac_entry ''hmac-sha2-256'' SSH_DIGEST SSH_DIGEST_SHA256 0 0 0 False,
     mac_entry ''hmac-sha2-512'' SSH_DIGEST SSH_DIGEST_SHA512 0 0 0 False,
     mac_entry ''hmac-md5'' SSH_DIGEST SSH_DIGEST_MD5 0 0 0 False,
     mac_entry ''hmac-md5-96'' SSH_DIGEST SSH_DIGEST_MD5 96 0 0 False,
     mac_entry ''hmac-ripemd160'' SSH_DIGEST SSH_DIGEST_RIPEMD160 0 0 0 False,
     mac_entry ''hmac-ripemd160@openssh.com'' SSH_DIGEST SSH_DIGEST_RIPEMD160 0 0 0 False,
     mac_entry ''umac-64@openssh.com'' SSH_UMAC 0 0 128 64 False,
     mac_entry ''umac-128@openssh.com'' SSH_UMAC128 0 0 128 128 False,
     mac_entry ''hmac-sha1-etm@openssh.com'' SSH_DIGEST SSH_DIGEST_SHA1 0 0 0 True,
     mac_entry ''hmac-sha1-96-etm@openssh.com'' SSH_DIGEST SSH_DIGEST_SHA1 96 0 0 True,
     mac_entry ''hmac-sha2-256-etm@openssh.com'' SSH_DIGEST SSH_DIGEST_SHA256 0 0 0 True,
     mac_entry ''hmac-sha2-512-etm@openssh.com'' SSH_DIGEST SSH_DIGEST_SHA512 0 0 0 True,
     mac_entry ''hmac-md5-etm@openssh.com'' SSH_DIGEST SSH_DIGEST_MD5 0 0 0 True,
     mac_entry ''hmac-md5-96-etm@openssh.com'' SSH_DIGEST SSH_DIGEST_MD5 96 0 0 True,
     mac_entry ''hmac-ripemd160-etm@openssh.com'' SSH_DIGEST SSH_DIGEST_RIPEMD160 0 0 0 True,
     mac_entry ''umac-64-etm@openssh.com'' SSH_UMAC 0 0 128 64 True,
     mac_entry ''umac-128-etm@openssh.com'' SSH_UMAC128 0 0 128 128 True]"

definition mac_alg_list :: "alloc_env \<Rightarrow> char \<Rightarrow> string option option" where
  "mac_alg_list env sep = fold (\<lambda>m. alg_list_add env sep (ma_name m)) macs (Some None)"

record ('d, 'u) sshmac =
  mac_name :: "string option"
  mac_enabled :: bool
  mac_len :: nat
  mac_key :: "bytes option"
  mac_key_len :: nat
  mac_type :: int
  mac_etm :: bool
  mac_hmac_ctx :: "'d ssh_hmac_ctx option"
  mac_umac_ctx :: "'u option"

definition mac_zeroed :: "('d, 'u) sshmac" where
  "mac_zeroed = \<lparr>mac_name = None, mac_enabled = False, mac_len = 0, mac_key = None,
     mac_key_len = 0, mac_type = 0, mac_etm = False, mac_hmac_ctx = None, mac_umac_ctx = None\<rparr>"

definition mac_setup_by_alg ::
  "'d evp_md \<Rightarrow> alloc_env \<Rightarrow> ('d, 'u) sshmac \<Rightarrow> macalg \<Rightarrow> (ssherr, ('d, 'u) sshmac, unit) outcome" where
  "mac_setup_by_alg lib env mac0 m =
     (let mac = mac0\<lparr>mac_type := ma_type m\<rparr> in
      rbind (if mac_type mac = SSH_DIGEST
             then (case ssh_hmac_start lib env (ma_alg m) of
                     None \<Rightarrow> (Inl SSH_ERR_ALLOC_FAIL, mac\<lparr>mac_hmac_ctx := None\<rparr>)
                   | Some h \<Rightarrow> (Inr (), mac\<lparr>mac_hmac_ctx := Some h,
                       mac_len := ssh_hmac_bytes (ma_alg m), mac_key_len := ssh_hmac_bytes (ma_alg m)\<rparr>))
             else (Inr (), mac\<lparr>mac_len := ma_len m div 8, mac_key_len := ma_key_len m div 8,
                     mac_umac_ctx := None\<rparr>))
      (\<lambda>_ mac. let mac = (if ma_truncatebits m \<noteq> 0 then mac\<lparr>mac_len := ma_truncatebits m div 8\<rparr> else mac)
               in (Inr (), mac\<lparr>mac_etm := ma_etm m\<rparr>)))"

text \<open>\<open>mac_setup\<close> with a null \<open>mac\<close> only looks the name up; that use is \<open>mac_name_known\<close>.\<close>

definition mac_name_known :: "string \<Rightarrow> ssherr + unit" where
  "mac_name_known name =
     (case find (\<lambda>m. name = ma_name m) macs of
        None \<Rightarrow> Inl SSH_ERR_INVALID_ARGUMENT | Some _ \<Rightarrow> Inr ())"

definition mac_setup ::
  "'d evp_md \<Rightarrow> alloc_env \<Rightarrow> ('d, 'u) sshmac \<Rightarrow> string \<Rightarrow> (ssherr, ('d, 'u) sshmac, unit) outcome" where
  "mac_setup lib env mac name =
     (case find (\<lambda>m. name = ma_name m) macs of
        None \<Rightarrow> (Inl SSH_ERR_INVALID_ARGUMENT, mac)
      | Some m \<Rightarrow> mac_setup_by_alg lib env mac m)"

definition mac_init ::
  "'d evp_md \<Rightarrow> 'u umac_lib \<Rightarrow> ('d, 'u) sshmac \<Rightarrow> (ssherr, ('d, 'u) sshmac, unit) outcome" where
  "mac_init lib ulib mac =
     (case mac_key mac of
        None \<Rightarrow> (Inl SSH_ERR_INVALID_ARGUMENT, mac)
      | Some key \<Rightarrow>
          if mac_type mac = SSH_DIGEST
          then (case mac_hmac_ctx mac of
                  None \<Rightarrow> (Inl SSH_ERR_INVALID_ARGUMENT, mac)
                | Some h \<Rightarrow>
                    (case ssh_hmac_init lib h (Some (take (mac_key_len mac) key)) of
                       (Inl _, h') \<Rightarrow> (Inl SSH_ERR_INVALID_ARGUMENT, mac\<lparr>mac_hmac_ctx := Some h'\<rparr>)
                     | (Inr _, h') \<Rightarrow> (Inr (), mac\<lparr>mac_hmac_ctx := Some h'\<rparr>)))
          else if mac_type mac = SSH_UMAC
          then (case umac_new ulib key of
                  None \<Rightarrow> (Inl SSH_ERR_ALLOC_FAIL, mac\<lparr>mac_umac_ctx := None\<rparr>)
                | Some u \<Rightarrow> (Inr (), mac\<lparr>mac_umac_ctx := Some u\<rparr>))
          else if mac_type mac = SSH_UMAC128
          then (case umac128_new ulib key of
                  None \<Rightarrow> (Inl SSH_ERR_ALLOC_FAIL, mac\<lparr>mac_umac_ctx := None\<rparr>)
                | Some u \<Rightarrow> (Inr (), mac\<lparr>mac_umac_ctx := Some u\<rparr>))
          else (Inl SSH_ERR_INVALID_ARGUMENT, mac))"

text \<open>
  \<open>um\<close> is the content of the function's static buffer when it is called; the result is what is
  written to \<open>digest\<close>, of which the caller offers \<open>dlen\<close> bytes. A MAC structure of type
  \<open>SSH_DIGEST\<close>, \<open>SSH_UMAC\<close> or \<open>SSH_UMAC128\<close> reaches this function with its context set.
\<close>

definition mac_compute ::
  "'d evp_md \<Rightarrow> 'u umac_lib \<Rightarrow> bytes \<Rightarrow> ('d, 'u) sshmac \<Rightarrow> u32 \<Rightarrow> bytes \<Rightarrow> nat \<Rightarrow>
     (ssherr, ('d, 'u) sshmac, bytes) outcome" where
  "mac_compute lib ulib um mac seqno d dlen =
     (if mac_len mac > SSH_DIGEST_MAX_LENGTH then (Inl SSH_ERR_INTERNAL_ERROR, mac)
      else rbind
        (if mac_type mac = SSH_DIGEST
         then (let h = the (mac_hmac_ctx mac) in
               case rbind (ssh_hmac_init lib h None) (\<lambda>_ h.
                    rbind (ssh_hmac_update lib h (POKE_U32 seqno)) (\<lambda>_ h.
                    rbind (ssh_hmac_update lib h d) (\<lambda>_ h.
                    ssh_hmac_final lib h SSH_DIGEST_MAX_LENGTH)))
               of (Inl _, h') \<Rightarrow> (Inl SSH_ERR_LIBCRYPTO_ERROR, mac\<lparr>mac_hmac_ctx := Some h'\<rparr>)
                | (Inr tag, h') \<Rightarrow> (Inr tag, mac\<lparr>mac_hmac_ctx := Some h'\<rparr>))
         else if mac_type mac = SSH_UMAC
         then (let nonce = POKE_U64 (ucast seqno); u = umac_update ulib (the (mac_umac_ctx mac)) d
               in case umac_final ulib u nonce of
                    (tag, u') \<Rightarrow> (Inr tag, mac\<lparr>mac_umac_ctx := Some u'\<rparr>))
         else if mac_type mac = SSH_UMAC128
         then (let nonce = POKE_U64 (ucast seqno); u = umac128_update ulib (the (mac_umac_ctx mac)) d
               in case umac128_final ulib u nonce of
                    (tag, u') \<Rightarrow> (Inr tag, mac\<lparr>mac_umac_ctx := Some u'\<rparr>))
         else (Inl SSH_ERR_INVALID_ARGUMENT, mac))
        (\<lambda>tag mac. (Inr (take (min dlen (mac_len mac)) (mem_write 0 tag um)), mac)))"

definition timingsafe_bcmp :: "bytes \<Rightarrow> bytes \<Rightarrow> nat \<Rightarrow> bool" where
  "timingsafe_bcmp b1 b2 n \<longleftrightarrow>
     fold (\<lambda>(x, y) ret. ret OR (x XOR y)) (zip (take n b1) (take n b2)) 0 \<noteq> 0"

definition mac_check ::
  "'d evp_md \<Rightarrow> 'u umac_lib \<Rightarrow> bytes \<Rightarrow> ('d, 'u) sshmac \<Rightarrow> u32 \<Rightarrow> bytes \<Rightarrow> bytes \<Rightarrow>
     (ssherr, ('d, 'u) sshmac, unit) outcome" where
  "mac_check lib ulib um mac seqno d theirmac =
     (if mac_len mac > length theirmac then (Inl SSH_ERR_INVALID_ARGUMENT, mac)
      else rbind (mac_compute lib ulib um mac seqno d SSH_DIGEST_MAX_LENGTH)
        (\<lambda>ourmac mac.
           if timingsafe_bcmp ourmac theirmac (mac_len mac) then (Inl SSH_ERR_MAC_INVALID, mac)
           else (Inr (), mac)))"

definition mac_clear :: "('d, 'u) sshmac \<Rightarrow> ('d, 'u) sshmac" where
  "mac_clear mac = mac\<lparr>mac_hmac_ctx := None, mac_umac_ctx := None\<rparr>"

function mac_valid_loop :: "string option \<Rightarrow> bool" where
  "mac_valid_loop cp =
     (case strsep CHR '','' cp of
        (None, _) \<Rightarrow> True
      | (Some p, cp') \<Rightarrow>
          if p = [] then True
          else (case mac_name_known p of Inl _ \<Rightarrow> False | Inr _ \<Rightarrow> mac_valid_loop cp'))"
  by auto
termination by (relation "measure sep_size") (auto simp: strsep_size dest: sym)

declare mac_valid_loop.simps [simp del]

definition mac_valid :: "bool \<Rightarrow> string option \<Rightarrow> bool" where
  "mac_valid mem nms =
     (case nms of
        None \<Rightarrow> False
      | Some s \<Rightarrow> if s = [] then False else if \<not> mem then False else mac_valid_loop (Some s))"

section \<open>What the code relies on in OpenSSL\<close>

text \<open>
  The documented behaviour of the EVP digest functions: a context \<open>d\<close> with \<open>absorbed d = Some (md, x)\<close>
  has been initialised for the function \<open>md\<close> and fed the bytes \<open>x\<close>; updating appends, copying keeps,
  finalising gives the digest \<open>H md x\<close> of what was fed. \<open>B md\<close> is the block size of \<open>md\<close>.
\<close>

definition evp_md_ok ::
  "'d evp_md \<Rightarrow> (string \<Rightarrow> bytes \<Rightarrow> bytes) \<Rightarrow> (string \<Rightarrow> nat) \<Rightarrow> ('d \<Rightarrow> (string \<times> bytes) option) \<Rightarrow> bool" where
  "evp_md_ok lib H B absorbed \<longleftrightarrow>
     (\<forall>md. \<exists>d. EVP_DigestInit_ex lib md = Some d \<and> absorbed d = Some (md, [])) \<and>
     (\<forall>d md x m. absorbed d = Some (md, x) \<longrightarrow>
        (\<exists>d'. EVP_DigestUpdate lib d m = Some d' \<and> absorbed d' = Some (md, x @ m))) \<and>
     (\<forall>d md x. absorbed d = Some (md, x) \<longrightarrow> (\<exists>d'. EVP_DigestFinal_ex lib d = Some (H md x, d'))) \<and>
     (\<forall>d p. absorbed d = Some p \<longrightarrow> (\<exists>d'. EVP_MD_CTX_copy_ex lib d = Some d' \<and> absorbed d' = Some p)) \<and>
     (\<forall>d md x. absorbed d = Some (md, x) \<longrightarrow> EVP_MD_CTX_block_size lib d = B md) \<and>
     (\<forall>md m. EVP_Digest lib md m = Some (H md m)) \<and>
     (\<forall>dg\<in>set digests. \<forall>x. length (H (the (dg_mdfunc dg)) x) = dg_digest_len dg \<and>
        dg_digest_len dg \<le> B (the (dg_mdfunc dg)) \<and> B (the (dg_mdfunc dg)) \<le> UINT_MAX)"

lemma evp_md_okD:
  assumes "evp_md_ok lib H B absorbed"
  shows "\<exists>d. EVP_DigestInit_ex lib md = Some d \<and> absorbed d = Some (md, [])"
    and "absorbed d = Some (md, x) \<Longrightarrow> \<exists>d'. EVP_DigestUpdate lib d m = Some d' \<and> absorbed d' = Some (md, x @ m)"
    and "absorbed d = Some (md, x) \<Longrightarrow> \<exists>d'. EVP_DigestFinal_ex lib d = Some (H md x, d')"
    and "absorbed d = Some p \<Longrightarrow> \<exists>d'. EVP_MD_CTX_copy_ex lib d = Some d' \<and> absorbed d' = Some p"
    and "absorbed d = Some (md, x) \<Longrightarrow> EVP_MD_CTX_block_size lib d = B md"
    and "EVP_Digest lib md m = Some (H md m)"
    and "dg \<in> set digests \<Longrightarrow> length (H (the (dg_mdfunc dg)) x) = dg_digest_len dg \<and>
        dg_digest_len dg \<le> B (the (dg_mdfunc dg)) \<and> B (the (dg_mdfunc dg)) \<le> UINT_MAX"
  using assms unfolding evp_md_ok_def by blast+

definition alg_md :: "int \<Rightarrow> string" where
  "alg_md alg = the (dg_mdfunc (the (ssh_digest_by_alg alg)))"

lemma digest_by_alg:
  assumes "0 \<le> alg" and "alg < SSH_DIGEST_MAX"
  shows "\<exists>dg. ssh_digest_by_alg alg = Some dg \<and> dg \<in> set digests \<and> dg_digest_len dg \<le> SSH_DIGEST_MAX_LENGTH"
proof -
  have "alg \<in> {0, 1, 2, 3, 4, 5}" using assms by (auto simp: digest_consts)
  then show ?thesis by (auto simp: ssh_digest_by_alg_def digests_def digest_entry_def digest_consts)
qed

section \<open>HMAC computed by the code and HMAC as specified\<close>

text \<open>HMAC of RFC 2104 over the digest \<open>h\<close> with block size \<open>b\<close>.\<close>

definition hmac_key :: "(bytes \<Rightarrow> bytes) \<Rightarrow> nat \<Rightarrow> bytes \<Rightarrow> bytes" where
  "hmac_key h b key = (let k = (if length key \<le> b then key else h key) in k @ replicate (b - length k) 0)"

definition hmac :: "(bytes \<Rightarrow> bytes) \<Rightarrow> nat \<Rightarrow> bytes \<Rightarrow> bytes \<Rightarrow> bytes" where
  "hmac h b key msg =
     (let k0 = hmac_key h b key in
      h (map (\<lambda>x. x XOR 0x5c) k0 @ h (map (\<lambda>x. x XOR 0x36) k0 @ msg)))"

text \<open>A context of algorithm \<open>alg\<close> that was fed \<open>x\<close>.\<close>

definition dctx_is :: "('d \<Rightarrow> (string \<times> bytes) option) \<Rightarrow> int \<Rightarrow> bytes \<Rightarrow> 'd ssh_digest_ctx \<Rightarrow> bool" where
  "dctx_is absorbed alg x c \<longleftrightarrow> dctx_alg c = alg \<and> absorbed (mdctx c) = Some (alg_md alg, x)"

definition hmac_keyed ::
  "(string \<Rightarrow> bytes \<Rightarrow> bytes) \<Rightarrow> (string \<Rightarrow> nat) \<Rightarrow> ('d \<Rightarrow> (string \<times> bytes) option) \<Rightarrow> int \<Rightarrow> bytes \<Rightarrow>
     'd ssh_hmac_ctx \<Rightarrow> bool" where
  "hmac_keyed H B absorbed alg key h \<longleftrightarrow>
     h_alg h = alg \<and> dctx_alg (h_digest h) = alg \<and> length (h_buf h) = B (alg_md alg) \<and>
     (let k0 = hmac_key (H (alg_md alg)) (B (alg_md alg)) key in
      dctx_is absorbed alg (map (\<lambda>x. x XOR 0x36) k0) (h_ictx h) \<and>
      dctx_is absorbed alg (map (\<lambda>x. x XOR 0x5c) k0) (h_octx h))"

lemma start_is:
  assumes "evp_md_ok lib H B absorbed" and "ssh_digest_start lib env alg = Some c"
  shows "dctx_is absorbed alg [] c"
  using assms(2) evp_md_okD(1) [OF assms(1), of "alg_md alg"]
  by (auto simp: ssh_digest_start_def dctx_is_def alg_md_def split: option.splits if_splits)

lemma update_is:
  assumes "evp_md_ok lib H B absorbed" and "dctx_is absorbed alg x c"
  shows "\<exists>c'. ssh_digest_update lib c m = (Inr (), c') \<and> dctx_is absorbed alg (x @ m) c'"
  using assms(2) evp_md_okD(2) [OF assms(1), of "mdctx c" "alg_md alg" x m]
  by (auto simp: ssh_digest_update_def dctx_is_def)

lemma copy_is:
  assumes "evp_md_ok lib H B absorbed" and "dctx_is absorbed alg x c" and "dctx_alg c' = alg"
  shows "\<exists>c''. ssh_digest_copy_state lib c c' = (Inr (), c'') \<and> dctx_is absorbed alg x c''"
  using assms(2,3) evp_md_okD(4) [OF assms(1), of "mdctx c"]
  by (fastforce simp: ssh_digest_copy_state_def dctx_is_def)

lemma final_is:
  assumes "evp_md_ok lib H B absorbed" and "dctx_is absorbed alg x c"
    and "0 \<le> alg" and "alg < SSH_DIGEST_MAX" and "ssh_digest_bytes alg \<le> dlen" and "dlen \<le> UINT_MAX"
  shows "\<exists>c'. ssh_digest_final lib c dlen = (Inr (H (alg_md alg) x), c') \<and> dctx_alg c' = alg"
  using assms(2,5,6) digest_by_alg [OF assms(3,4)] evp_md_okD(7) [OF assms(1)]
    evp_md_okD(3) [OF assms(1), of "mdctx c" "alg_md alg" x]
  by (fastforce simp: ssh_digest_final_def dctx_is_def ssh_digest_bytes_def alg_md_def Let_def)

lemma digest_len:
  assumes "evp_md_ok lib H B absorbed" and "0 \<le> alg" and "alg < SSH_DIGEST_MAX"
  shows "length (H (alg_md alg) x) = ssh_digest_bytes alg"
    and "ssh_digest_bytes alg \<le> B (alg_md alg)" and "B (alg_md alg) \<le> UINT_MAX"
    and "ssh_digest_bytes alg \<le> SSH_DIGEST_MAX_LENGTH"
  using digest_by_alg [OF assms(2,3)] evp_md_okD(7) [OF assms(1)]
  by (auto simp: ssh_digest_bytes_def alg_md_def)

lemmas final_is_max = final_is [where dlen = SSH_DIGEST_MAX_LENGTH]

text \<open>Keying a fresh context.\<close>

definition hmac_fresh :: "(string \<Rightarrow> nat) \<Rightarrow> ('d \<Rightarrow> (string \<times> bytes) option) \<Rightarrow> int \<Rightarrow> 'd ssh_hmac_ctx \<Rightarrow> bool" where
  "hmac_fresh B absorbed alg h \<longleftrightarrow>
     h_alg h = alg \<and> h_buf h = replicate (B (alg_md alg)) 0 \<and> dctx_is absorbed alg [] (h_ictx h) \<and>
     dctx_is absorbed alg [] (h_octx h) \<and> dctx_is absorbed alg [] (h_digest h)"

lemma hmac_start_fresh:
  assumes ok: "evp_md_ok lib H B absorbed" and "ssh_hmac_start lib env alg = Some h"
  shows "hmac_fresh B absorbed alg h"
proof -
  from assms(2) obtain ic oc dc buf where s: "ssh_digest_start lib env alg = Some ic"
      "ssh_digest_start lib env alg = Some oc" "ssh_digest_start lib env alg = Some dc"
      "calloc_bytes env (ssh_digest_blocksize lib ic) = Some buf"
      and h: "h = \<lparr>h_alg = alg, h_ictx = ic, h_octx = oc, h_digest = dc, h_buf = buf\<rparr>"
    by (auto simp: ssh_hmac_start_def split: option.splits if_splits)
  note parts = s(1-3) [THEN start_is [OF ok]]
  then have "ssh_digest_blocksize lib ic = B (alg_md alg)"
    using evp_md_okD(5) [OF ok] by (simp add: ssh_digest_blocksize_def dctx_is_def)
  then show ?thesis using parts s(4) by (simp add: hmac_fresh_def h calloc_bytes_def split: if_splits)
qed

lemma xor_pads: "map ((\<lambda>b. b XOR 106) \<circ> (\<lambda>b. b XOR 54)) k = map (\<lambda>b :: byte. b XOR 92) k"
  by (simp add: xor.assoc)

lemma hmac_init_keyed:
  assumes ok: "evp_md_ok lib H B absorbed" and alg: "0 \<le> alg" "alg < SSH_DIGEST_MAX"
    and fresh: "hmac_fresh B absorbed alg h"
  shows "\<exists>h'. ssh_hmac_init lib h (Some key) = (Inr (), h') \<and> hmac_keyed H B absorbed alg key h'"
proof -
  let ?b = "B (alg_md alg)"
  let ?k0 = "hmac_key (H (alg_md alg)) ?b key"
  let ?buf = "mem_write 0 (if length key \<le> ?b then key else H (alg_md alg) key) (replicate ?b 0)"
  note dl = digest_len [OF ok alg]
  have h: "h_alg h = alg" "h_buf h = replicate ?b 0" "dctx_is absorbed alg [] (h_ictx h)"
    "dctx_is absorbed alg [] (h_octx h)" "dctx_alg (h_digest h) = alg"
    using fresh by (auto simp: hmac_fresh_def dctx_is_def)
  have k0: "?buf = ?k0" using dl by (simp add: mem_write_def hmac_key_def Let_def)
  have len: "length ?k0 = ?b" using dl by (simp add: hmac_key_def Let_def)
  have mem: "ssh_digest_memory lib alg key ?b = Inr (H (alg_md alg) key)"
    using digest_by_alg [OF alg] dl evp_md_okD(6) [OF ok]
    by (auto simp: ssh_digest_memory_def ssh_digest_bytes_def alg_md_def)
  obtain ic where ic: "ssh_digest_update lib (h_ictx h) (map (\<lambda>x. x XOR 0x36) ?k0) = (Inr (), ic)"
      "dctx_is absorbed alg (map (\<lambda>x. x XOR 0x36) ?k0) ic"
    using update_is [OF ok h(3)] by force
  obtain oc where oc: "ssh_digest_update lib (h_octx h) (map (\<lambda>x. x XOR 0x5c) ?k0) = (Inr (), oc)"
      "dctx_is absorbed alg (map (\<lambda>x. x XOR 0x5c) ?k0) oc"
    using update_is [OF ok h(4)] by force
  obtain dc where dc: "ssh_digest_copy_state lib ic (h_digest h) = (Inr (), dc)" "dctx_alg dc = alg"
    using copy_is [OF ok ic(2) h(5)] by (auto simp: dctx_is_def)
  have "ssh_hmac_init lib h (Some key) =
      (Inr (), h\<lparr>h_buf := replicate ?b 0, h_ictx := ic, h_octx := oc, h_digest := dc\<rparr>)"
    using k0 ic(1) oc(1) dc(1) mem h len
    by (simp add: ssh_hmac_init_def hmac_part_def xor_pads Let_def split: if_splits)
  then show ?thesis using ic(2) oc(2) dc(2) h by (simp add: hmac_keyed_def Let_def)
qed

text \<open>One computation on a keyed context, as \<open>mac_compute\<close> chains the calls; the context stays keyed.\<close>

lemma hmac_compute_keyed:
  assumes ok: "evp_md_ok lib H B absorbed" and alg: "0 \<le> alg" "alg < SSH_DIGEST_MAX"
    and keyed: "hmac_keyed H B absorbed alg key h"
  shows "\<exists>h'. rbind (ssh_hmac_init lib h None) (\<lambda>_ h.
      rbind (ssh_hmac_update lib h s) (\<lambda>_ h.
      rbind (ssh_hmac_update lib h d) (\<lambda>_ h.
      ssh_hmac_final lib h SSH_DIGEST_MAX_LENGTH))) =
        (Inr (hmac (H (alg_md alg)) (B (alg_md alg)) key (s @ d)), h') \<and>
      hmac_keyed H B absorbed alg key h'"
proof -
  let ?H = "H (alg_md alg)"
  let ?k0 = "hmac_key ?H (B (alg_md alg)) key"
  let ?inner = "?H (map (\<lambda>x. x XOR 0x36) ?k0 @ s @ d)"
  note dl = digest_len [OF ok alg]
  have maxlen: "SSH_DIGEST_MAX_LENGTH \<le> UINT_MAX" by (simp add: digest_consts)
  have h: "h_alg h = alg" "dctx_alg (h_digest h) = alg" "length (h_buf h) = B (alg_md alg)"
    "dctx_is absorbed alg (map (\<lambda>x. x XOR 0x36) ?k0) (h_ictx h)"
    "dctx_is absorbed alg (map (\<lambda>x. x XOR 0x5c) ?k0) (h_octx h)"
    using keyed by (auto simp: hmac_keyed_def Let_def)
  obtain d1 where d1: "ssh_digest_copy_state lib (h_ictx h) (h_digest h) = (Inr (), d1)"
      "dctx_is absorbed alg (map (\<lambda>x. x XOR 0x36) ?k0) d1"
    using copy_is [OF ok h(4,2)] by blast
  obtain d2 where d2: "ssh_digest_update lib d1 s = (Inr (), d2)"
      "dctx_is absorbed alg (map (\<lambda>x. x XOR 0x36) ?k0 @ s) d2"
    using update_is [OF ok d1(2)] by blast
  obtain d3 where d3: "ssh_digest_update lib d2 d = (Inr (), d3)"
      "dctx_is absorbed alg (map (\<lambda>x. x XOR 0x36) ?k0 @ s @ d) d3"
    using update_is [OF ok d2(2)] by auto
  obtain d4 where d4: "ssh_digest_final lib d3 (ssh_digest_bytes alg) = (Inr ?inner, d4)" "dctx_alg d4 = alg"
    using final_is [OF ok d3(2) alg order.refl] dl maxlen by auto
  obtain d5 where d5: "ssh_digest_copy_state lib (h_octx h) d4 = (Inr (), d5)"
      "dctx_is absorbed alg (map (\<lambda>x. x XOR 0x5c) ?k0) d5"
    using copy_is [OF ok h(5) d4(2)] by blast
  obtain d6 where d6: "ssh_digest_update lib d5 ?inner = (Inr (), d6)"
      "dctx_is absorbed alg (map (\<lambda>x. x XOR 0x5c) ?k0 @ ?inner) d6"
    using update_is [OF ok d5(2)] by blast
  obtain d7 where d7: "ssh_digest_final lib d6 SSH_DIGEST_MAX_LENGTH =
      (Inr (?H (map (\<lambda>x. x XOR 0x5c) ?k0 @ ?inner)), d7)" "dctx_alg d7 = alg"
    using final_is_max [OF ok d6(2) alg dl(4) maxlen] by blast
  have rd: "mem_read 0 (ssh_digest_bytes alg) (mem_write 0 ?inner (h_buf h)) = ?inner"
    using mem_read_write_same [of 0 ?inner "h_buf h"] dl h(3) by simp
  show ?thesis
    using d1(1) d2(1) d3(1) d4(1) d5(1) d6(1) d7 rd h dl
    by (simp add: ssh_hmac_init_def ssh_hmac_update_def ssh_hmac_final_def hmac_part_def hmac_def
        hmac_keyed_def Let_def)
qed

section \<open>The MAC layer: keyed structures\<close>

lemma mac_table_ok:
  "\<forall>m\<in>set macs. CHR '','' \<notin> set (ma_name m) \<and> ma_name m \<noteq> [] \<and>
     (ma_type m = SSH_DIGEST \<longrightarrow> 0 \<le> ma_alg m \<and> ma_alg m < SSH_DIGEST_MAX \<and>
        ma_truncatebits m div 8 \<le> ssh_digest_bytes (ma_alg m))"
  by code_simp

definition mac_keyed ::
  "(string \<Rightarrow> bytes \<Rightarrow> bytes) \<Rightarrow> (string \<Rightarrow> nat) \<Rightarrow> ('d \<Rightarrow> (string \<times> bytes) option) \<Rightarrow> int \<Rightarrow> bytes \<Rightarrow>
     ('d, 'u) sshmac \<Rightarrow> bool" where
  "mac_keyed H B absorbed alg key mac \<longleftrightarrow>
     mac_type mac = SSH_DIGEST \<and> 0 \<le> alg \<and> alg < SSH_DIGEST_MAX \<and>
     mac_len mac \<le> ssh_digest_bytes alg \<and>
     (\<exists>h. mac_hmac_ctx mac = Some h \<and> hmac_keyed H B absorbed alg key h)"

lemma mac_setup_digest:
  assumes "mac_setup lib env mac0 name = (Inr (), mac)" and "mac_type mac = SSH_DIGEST"
  shows "\<exists>m h. m \<in> set macs \<and> ma_name m = name \<and> ma_type m = SSH_DIGEST \<and>
    ssh_hmac_start lib env (ma_alg m) = Some h \<and> mac_hmac_ctx mac = Some h \<and>
    mac_len mac \<le> ssh_digest_bytes (ma_alg m)"
proof -
  obtain m where m: "find (\<lambda>m. name = ma_name m) macs = Some m"
    using assms(1) by (auto simp: mac_setup_def split: option.splits)
  then have tab: "m \<in> set macs" "ma_name m = name" by (auto simp: find_Some_iff)
  have "mac_setup_by_alg lib env mac0 m = (Inr (), mac)" using assms(1) m by (simp add: mac_setup_def)
  then show ?thesis
    using tab mac_table_ok assms(2)
    by (intro exI [of _ m]) (auto simp: mac_setup_by_alg_def Let_def rbind_eq_Inr_iff ssh_hmac_bytes_def
        split: if_splits option.splits)
qed

lemma mac_init_keyed:
  assumes ok: "evp_md_ok lib H B absorbed"
    and su: "mac_setup lib env mac0 name = (Inr (), m1)" "mac_type m1 = SSH_DIGEST"
    and m1': "mac_type m1' = mac_type m1" "mac_hmac_ctx m1' = mac_hmac_ctx m1" "mac_len m1' = mac_len m1"
      "mac_key m1' = Some key"
  shows "\<exists>m m2. m \<in> set macs \<and> ma_name m = name \<and> mac_init lib ulib m1' = (Inr (), m2) \<and>
    mac_keyed H B absorbed (ma_alg m) (take (mac_key_len m1') key) m2 \<and> mac_len m2 = mac_len m1"
proof -
  obtain m h where m: "m \<in> set macs" "ma_name m = name" "ma_type m = SSH_DIGEST"
      "ssh_hmac_start lib env (ma_alg m) = Some h" "mac_hmac_ctx m1 = Some h"
      "mac_len m1 \<le> ssh_digest_bytes (ma_alg m)"
    using mac_setup_digest [OF su] by blast
  then have alg: "0 \<le> ma_alg m" "ma_alg m < SSH_DIGEST_MAX" using mac_table_ok by auto
  obtain h' where "ssh_hmac_init lib h (Some (take (mac_key_len m1') key)) = (Inr (), h')"
      "hmac_keyed H B absorbed (ma_alg m) (take (mac_key_len m1') key) h'"
    using hmac_init_keyed [OF ok alg hmac_start_fresh [OF ok m(4)]] by blast
  then show ?thesis
    using m alg su(2) m1' by (intro exI [of _ m]) (simp add: mac_init_def mac_keyed_def)
qed

lemma mac_compute_keyed:
  assumes ok: "evp_md_ok lib H B absorbed" and keyed: "mac_keyed H B absorbed alg key mac"
    and "length um = SSH_DIGEST_MAX_LENGTH"
  shows "\<exists>mac'. mac_compute lib ulib um mac seqno d dlen =
      (Inr (take (min dlen (mac_len mac))
         (hmac (H (alg_md alg)) (B (alg_md alg)) key (POKE_U32 seqno @ d))), mac') \<and>
      mac_keyed H B absorbed alg key mac' \<and> mac_len mac' = mac_len mac"
proof -
  obtain h where k: "mac_type mac = SSH_DIGEST" "0 \<le> alg" "alg < SSH_DIGEST_MAX"
      "mac_len mac \<le> ssh_digest_bytes alg" "mac_hmac_ctx mac = Some h" "hmac_keyed H B absorbed alg key h"
    using keyed by (auto simp: mac_keyed_def)
  let ?tag = "hmac (H (alg_md alg)) (B (alg_md alg)) key (POKE_U32 seqno @ d)"
  note dl = digest_len [OF ok k(2,3)]
  have len: "length ?tag = ssh_digest_bytes alg" using dl(1) by (simp add: hmac_def Let_def)
  have trunc: "take (min dlen (mac_len mac)) (mem_write 0 ?tag um) = take (min dlen (mac_len mac)) ?tag"
    using k(4) by (simp add: mem_write_def len)
  obtain h' where "rbind (ssh_hmac_init lib h None) (\<lambda>_ h.
      rbind (ssh_hmac_update lib h (POKE_U32 seqno)) (\<lambda>_ h.
      rbind (ssh_hmac_update lib h d) (\<lambda>_ h.
      ssh_hmac_final lib h SSH_DIGEST_MAX_LENGTH))) = (Inr ?tag, h')"
      "hmac_keyed H B absorbed alg key h'"
    using hmac_compute_keyed [OF ok k(2,3,6)] by blast
  then show ?thesis
    using k dl(4) trunc by (auto simp: mac_compute_def mac_keyed_def)
qed

lemma fold_or_zero:
  "fold (\<lambda>(x, y) ret. ret OR (x XOR y)) ps (r :: byte) = 0 \<longleftrightarrow> r = 0 \<and> (\<forall>(x, y)\<in>set ps. x = y)"
proof (induction ps arbitrary: r)
  case (Cons p ps)
  have "(x XOR y = 0) = (x = y)" for x y :: byte
    by (metis xor.assoc xor.left_neutral xor_self_eq)
  then have "(r OR (x XOR y) = 0) = (r = 0 \<and> x = y)" for x y :: byte
    by (simp add: or_eq_0_iff)
  then show ?case using Cons by (cases p) auto
qed simp

lemma timingsafe_bcmp_iff:
  assumes "n \<le> length b1" and "n \<le> length b2"
  shows "timingsafe_bcmp b1 b2 n \<longleftrightarrow> take n b1 \<noteq> take n b2"
  using assms by (auto simp: timingsafe_bcmp_def fold_or_zero list_eq_iff_zip_eq)

section \<open>Properties of the MAC layer\<close>

text \<open>A run of \<open>mac_compute\<close> over the packets of a connection: the static buffer's content, the
  sequence number and the data of each call, and the results.\<close>

primrec mac_run ::
  "'d evp_md \<Rightarrow> 'u umac_lib \<Rightarrow> ('d, 'u) sshmac \<Rightarrow> (bytes \<times> u32 \<times> bytes) list \<Rightarrow> (ssherr + bytes) list" where
  "mac_run lib ulib mac [] = []"
| "mac_run lib ulib mac (m # ms) =
     (case m of (um, seqno, d) \<Rightarrow>
        (case mac_compute lib ulib um mac seqno d SSH_DIGEST_MAX_LENGTH of
           (r, mac') \<Rightarrow> r # mac_run lib ulib mac' ms))"

lemma mac_run_keyed:
  assumes ok: "evp_md_ok lib H B absorbed"
    and "mac_keyed H B absorbed alg key mac"
    and "\<And>um s d. (um, s, d) \<in> set msgs \<Longrightarrow> length um = SSH_DIGEST_MAX_LENGTH"
  shows "mac_run lib ulib mac msgs = map (\<lambda>(um, s, d).
    Inr (take (mac_len mac) (hmac (H (alg_md alg)) (B (alg_md alg)) key (POKE_U32 s @ d)))) msgs"
  using assms(2,3)
proof (induction msgs arbitrary: mac)
  case (Cons m ms)
  obtain um s d where m: "m = (um, s, d)" by (cases m)
  obtain mac' where c: "mac_compute lib ulib um mac s d SSH_DIGEST_MAX_LENGTH =
      (Inr (take (min SSH_DIGEST_MAX_LENGTH (mac_len mac))
         (hmac (H (alg_md alg)) (B (alg_md alg)) key (POKE_U32 s @ d))), mac')"
      "mac_keyed H B absorbed alg key mac'" "mac_len mac' = mac_len mac"
    using mac_compute_keyed [OF ok Cons.prems(1)] Cons.prems(2) m by (metis list.set_intros(1))
  have "min SSH_DIGEST_MAX_LENGTH (mac_len mac) = mac_len mac"
    using Cons.prems(1) digest_len(4) [OF ok] by (fastforce simp: mac_keyed_def)
  then show ?case using c Cons.IH [OF c(2)] Cons.prems(2) m by fastforce
qed simp

text \<open>C15. With a MAC of the table set up by \<open>mac_setup\<close>, given a key and initialised by \<open>mac_init\<close>,
  every \<open>mac_compute\<close> of a connection returns the HMAC of RFC 2104, under the first \<open>mac_key_len\<close>
  bytes of the key and truncated to \<open>mac_len\<close> bytes, of the big-endian sequence number followed by
  the packet: the context is keyed once, and neither the static buffer nor the calls before a
  packet influence its MAC. The hypothesis on OpenSSL is the documented meaning of its digest
  calls.\<close>

theorem mac_compute_hmac:
  assumes "evp_md_ok lib H B absorbed"
    and "mac_setup lib env mac_zeroed name = (Inr (), m1)" and "mac_type m1 = SSH_DIGEST"
    and "\<And>um s d. (um, s, d) \<in> set msgs \<Longrightarrow> length um = SSH_DIGEST_MAX_LENGTH"
  shows "\<exists>m m2. m \<in> set macs \<and> ma_name m = name \<and>
    mac_init lib ulib (m1\<lparr>mac_key := Some key\<rparr>) = (Inr (), m2) \<and>
    mac_run lib ulib m2 msgs =
      map (\<lambda>(um, s, d). Inr (take (mac_len m1) (hmac (H (alg_md (ma_alg m))) (B (alg_md (ma_alg m)))
        (take (mac_key_len m1) key) (POKE_U32 s @ d)))) msgs"
proof -
  obtain m m2 where m: "m \<in> set macs" "ma_name m = name"
      "mac_init lib ulib (m1\<lparr>mac_key := Some key\<rparr>) = (Inr (), m2)"
      "mac_keyed H B absorbed (ma_alg m) (take (mac_key_len m1) key) m2" "mac_len m2 = mac_len m1"
    using mac_init_keyed [OF assms(1-3), of "m1\<lparr>mac_key := Some key\<rparr>" key ulib] by auto
  have "mac_run lib ulib m2 msgs =
      map (\<lambda>(um, s, d). Inr (take (mac_len m2) (hmac (H (alg_md (ma_alg m))) (B (alg_md (ma_alg m)))
        (take (mac_key_len m1) key) (POKE_U32 s @ d)))) msgs"
    by (rule mac_run_keyed [OF assms(1) m(4) assms(4)])
  then show ?thesis using m by auto
qed

text \<open>A digest library to evaluate the model with: it remembers what it was fed, and the digest of
  \<open>x\<close> is the exclusive or of its bytes, repeated to the length of the algorithm.\<close>

definition toy_len :: "string \<Rightarrow> nat" where
  "toy_len md = (case find (\<lambda>d. dg_mdfunc d = Some md) digests of None \<Rightarrow> 0 | Some d \<Rightarrow> dg_digest_len d)"

definition toy_H :: "string \<Rightarrow> bytes \<Rightarrow> bytes" where
  "toy_H md x = replicate (toy_len md) (fold (XOR) x 0)"

definition toy_md :: "(string \<times> bytes) evp_md" where
  "toy_md = \<lparr>EVP_DigestInit_ex = (\<lambda>md. Some (md, [])), EVP_DigestUpdate = (\<lambda>(md, x) m. Some (md, x @ m)),
     EVP_DigestFinal_ex = (\<lambda>(md, x). Some (toy_H md x, (md, x))), EVP_MD_CTX_copy_ex = Some,
     EVP_MD_CTX_block_size = (\<lambda>_. 64), EVP_Digest = (\<lambda>md x. Some (toy_H md x))\<rparr>"

definition toy_umac :: "unit umac_lib" where
  "toy_umac = \<lparr>umac_new = (\<lambda>_. Some ()), umac_update = (\<lambda>_ _. ()), umac_final = (\<lambda>_ _. (replicate 8 0, ())),
     umac128_new = (\<lambda>_. Some ()), umac128_update = (\<lambda>_ _. ()), umac128_final = (\<lambda>_ _. (replicate 16 0, ()))\<rparr>"

lemma toy_md_ok: "evp_md_ok toy_md toy_H (\<lambda>_. 64) Some"
proof -
  have "\<forall>dg\<in>set digests. toy_len (the (dg_mdfunc dg)) = dg_digest_len dg \<and> dg_digest_len dg \<le> 64"
    by code_simp
  then show ?thesis by (auto simp: evp_md_ok_def toy_md_def toy_H_def UINT_MAX_def)
qed

definition toy_sha1_96 :: "(string \<times> bytes, unit) sshmac" where
  "toy_sha1_96 = snd (mac_setup toy_md plenty mac_zeroed ''hmac-sha1-96'')"

lemma toy_setup:
  "mac_setup toy_md plenty mac_zeroed ''hmac-sha1-96'' = (Inr (), toy_sha1_96)"
  "mac_type toy_sha1_96 = SSH_DIGEST"
  by (simp_all add: toy_sha1_96_def mac_setup_def macs_def mac_entry_def mac_setup_by_alg_def
      ssh_hmac_start_def ssh_digest_start_def ssh_digest_by_alg_def digests_def digest_entry_def
      digest_consts toy_md_def calloc_bytes_def SSH_DIGEST_def)

theorem mac_compute_hmac_witness:
  "\<exists>m m2. m \<in> set macs \<and> ma_name m = ''hmac-sha1-96'' \<and>
    mac_init toy_md toy_umac (toy_sha1_96\<lparr>mac_key := Some (replicate 20 7)\<rparr>) = (Inr (), m2) \<and>
    mac_run toy_md toy_umac m2 [(replicate 64 0, 3, [1, 2]), (replicate 64 9, 4, [])] =
      map (\<lambda>(um, s, d). Inr (take (mac_len toy_sha1_96) (hmac (toy_H (alg_md (ma_alg m))) 64
        (take (mac_key_len toy_sha1_96) (replicate 20 7)) (POKE_U32 s @ d))))
        [(replicate 64 (0 :: byte), 3, [1, 2]), (replicate 64 9, 4, [])]"
proof -
  have um: "length um = SSH_DIGEST_MAX_LENGTH"
    if "(um, s, d) \<in> set [(replicate 64 0, 3, [1, 2]), (replicate 64 9, 4, [])]" for um :: bytes and s :: u32 and d :: bytes
    using that by (auto simp: SSH_DIGEST_MAX_LENGTH_def)
  show ?thesis by (rule mac_compute_hmac [OF toy_md_ok toy_setup um])
qed

text \<open>C16. \<open>mac_check\<close> on a keyed MAC accepts exactly the tags whose first \<open>mac_len\<close> bytes are the
  truncated HMAC of the sequence number and the data, rejects every other tag with
  \<open>SSH_ERR_MAC_INVALID\<close> and a tag shorter than \<open>mac_len\<close> with \<open>SSH_ERR_INVALID_ARGUMENT\<close>, and leaves
  the MAC keyed for the next packet in each case.\<close>

theorem mac_check_iff:
  assumes ok: "evp_md_ok lib H B absorbed" and keyed: "mac_keyed H B absorbed alg key mac"
    and um: "length um = SSH_DIGEST_MAX_LENGTH"
  shows "case mac_check lib ulib um mac seqno d theirmac of (r, mac') \<Rightarrow>
    mac_keyed H B absorbed alg key mac' \<and> mac_len mac' = mac_len mac \<and>
    r = (if length theirmac < mac_len mac then Inl SSH_ERR_INVALID_ARGUMENT
         else if take (mac_len mac) theirmac =
                 take (mac_len mac) (hmac (H (alg_md alg)) (B (alg_md alg)) key (POKE_U32 seqno @ d))
         then Inr () else Inl SSH_ERR_MAC_INVALID)"
proof -
  let ?tag = "hmac (H (alg_md alg)) (B (alg_md alg)) key (POKE_U32 seqno @ d)"
  have len: "mac_len mac \<le> ssh_digest_bytes alg" "length ?tag = ssh_digest_bytes alg"
    "ssh_digest_bytes alg \<le> SSH_DIGEST_MAX_LENGTH"
    using keyed digest_len [OF ok] by (auto simp: mac_keyed_def hmac_def Let_def)
  then have m: "min SSH_DIGEST_MAX_LENGTH (mac_len mac) = mac_len mac" by simp
  obtain mac' where c: "mac_compute lib ulib um mac seqno d SSH_DIGEST_MAX_LENGTH =
      (Inr (take (mac_len mac) ?tag), mac')"
      "mac_keyed H B absorbed alg key mac'" "mac_len mac' = mac_len mac"
    using mac_compute_keyed [OF ok keyed um, of ulib seqno d SSH_DIGEST_MAX_LENGTH] unfolding m by blast
  have "timingsafe_bcmp (take (mac_len mac) ?tag) theirmac (mac_len mac) \<longleftrightarrow>
      take (mac_len mac) ?tag \<noteq> take (mac_len mac) theirmac" if "mac_len mac \<le> length theirmac"
    using timingsafe_bcmp_iff [of "mac_len mac" "take (mac_len mac) ?tag" theirmac] len that by simp
  then show ?thesis using c keyed by (auto simp: mac_check_def)
qed

definition toy_keyed :: "(string \<times> bytes, unit) sshmac" where
  "toy_keyed = snd (mac_init toy_md toy_umac (toy_sha1_96\<lparr>mac_key := Some (replicate 20 7)\<rparr>))"

lemma toy_mac_keyed:
  "mac_keyed toy_H (\<lambda>_. 64) Some SSH_DIGEST_SHA1 (replicate 20 7) toy_keyed \<and> mac_len toy_keyed = 12"
proof -
  have len: "mac_key_len toy_sha1_96 = 20" "mac_len toy_sha1_96 = 12" by code_simp+
  obtain m m2 where m: "m \<in> set macs" "ma_name m = ''hmac-sha1-96''"
      "mac_init toy_md toy_umac (toy_sha1_96\<lparr>mac_key := Some (replicate 20 7)\<rparr>) = (Inr (), m2)"
      "mac_keyed toy_H (\<lambda>_. 64) Some (ma_alg m) (take 20 (replicate 20 7)) m2" "mac_len m2 = 12"
    using mac_init_keyed [OF toy_md_ok toy_setup, of "toy_sha1_96\<lparr>mac_key := Some (replicate 20 7)\<rparr>"
        "replicate 20 7" toy_umac] len by auto
  moreover have "ma_alg m = SSH_DIGEST_SHA1" using m(1,2) by (auto simp: macs_def mac_entry_def)
  ultimately show ?thesis by (simp add: toy_keyed_def)
qed

theorem mac_check_iff_witness:
  "fst (mac_check toy_md toy_umac (replicate 64 0) toy_keyed 5 [1] (replicate 11 0)) = Inl SSH_ERR_INVALID_ARGUMENT \<and>
   fst (mac_check toy_md toy_umac (replicate 64 0) toy_keyed 5 [1]
     (hmac (toy_H (alg_md SSH_DIGEST_SHA1)) 64 (replicate 20 7) (POKE_U32 5 @ [1]))) = Inr ()"
proof -
  have um: "length (replicate 64 (0 :: byte)) = SSH_DIGEST_MAX_LENGTH" by (simp add: SSH_DIGEST_MAX_LENGTH_def)
  have "length (hmac (toy_H (alg_md SSH_DIGEST_SHA1)) 64 (replicate 20 7) (POKE_U32 5 @ [1])) = 20"
    by code_simp
  then show ?thesis
    using mac_check_iff [OF toy_md_ok toy_mac_keyed [THEN conjunct1] um, where ulib = toy_umac and seqno = 5 and d = "[1]" and theirmac = "replicate 11 0"]
      mac_check_iff [OF toy_md_ok toy_mac_keyed [THEN conjunct1] um, where ulib = toy_umac and seqno = 5 and d = "[1]" and theirmac =
        "hmac (toy_H (alg_md SSH_DIGEST_SHA1)) 64 (replicate 20 7) (POKE_U32 5 @ [1])"]
      toy_mac_keyed
    by (auto split: prod.splits)
qed

section \<open>Lists of MACs\<close>

lemma mac_names_distinct: "distinct (map ma_name macs)"
  by code_simp

interpretation ml: name_checker "\<lambda>p. mac_name_known p = Inr ()" mac_valid_loop
proof unfold_locales
  fix cp
  show "mac_valid_loop cp =
       (case strsep CHR '','' cp of
          (None, _) \<Rightarrow> True
        | (Some p, cp') \<Rightarrow> if p = [] then True else if \<not> mac_name_known p = Inr () then False else mac_valid_loop cp')"
    by (subst mac_valid_loop.simps)
      (auto simp: mac_name_known_def split: option.splits prod.splits)
qed

text \<open>The list \<open>mac_alg_list\<close> writes is accepted by \<open>mac_valid\<close>.\<close>

lemma mac_alg_list_valid:
  assumes "mac_alg_list env CHR '','' = Some (Some l)"
  shows "mac_valid True (Some l) \<and> tokens l = map ma_name macs"
proof -
  have ne: "map ma_name macs \<noteq> []" by (simp add: macs_def)
  have known: "mac_name_known n = Inr () \<and> CHR '','' \<notin> set n" if "n \<in> set (map ma_name macs)" for n
    using that mac_table_ok by (auto simp: mac_name_known_def find_None_iff split: option.split)
  have l: "l = join CHR '','' (map ma_name macs)"
    using alg_list_fold [of env "CHR '',''" "map ma_name macs" "Some l"] assms ne
    by (simp add: mac_alg_list_def fold_map comp_def)
  have tok: "tokens l = map ma_name macs" unfolding l using ne known by (intro tokens_join) auto
  have "l \<noteq> []"
    using tok mac_table_ok by (metis image_iff list.set_intros(1) list.set_map tokens_Nil)
  moreover have "mac_valid_loop (Some l)" unfolding l by (rule ml.valid_join [OF ne known])
  ultimately show ?thesis using tok by (simp add: mac_valid_def)
qed

end
