(* ===== verification/Sshkey_Names.thy ===== *)
theory Sshkey_Names
  imports Alglist
begin

text \<open>
  The key types of \<open>sshkey.c\<close> and \<open>sshkey.h\<close>: the table of names, the conversions between names
  and types, and the lists of host key algorithms that key exchange negotiates with, as built
  with OpenSSL and elliptic curves and without protocol 1.
\<close>

section \<open>The table\<close>

datatype keytype_id = KEY_RSA1 | KEY_RSA | KEY_DSA | KEY_ECDSA | KEY_ED25519 | KEY_RSA_CERT
  | KEY_DSA_CERT | KEY_ECDSA_CERT | KEY_ED25519_CERT | KEY_UNSPEC

text \<open>The curve identifiers of OpenSSL; \<open>NID_0\<close> is the table's 0 and \<open>NID_none\<close> the result -1.\<close>

datatype ec_nid = NID_0 | NID_X9_62_prime256v1 | NID_secp384r1 | NID_secp521r1 | NID_none

record keytype =
  kt_name :: string
  kt_shortname :: string
  kt_type :: keytype_id
  kt_nid :: ec_nid
  kt_cert :: bool
  kt_sigonly :: bool

definition key_entry :: "string \<Rightarrow> string \<Rightarrow> keytype_id \<Rightarrow> ec_nid \<Rightarrow> bool \<Rightarrow> bool \<Rightarrow> keytype" where
  "key_entry name short t n c so =
     \<lparr>kt_name = name, kt_shortname = short, kt_type = t, kt_nid = n, kt_cert = c, kt_sigonly = so\<rparr>"

definition keytypes :: "keytype list" where
  "keytypes =
    [key_entry ''ssh-ed25519'' ''ED25519'' KEY_ED25519 NID_0 False False,
     key_entry ''ssh-ed25519-cert-v01@openssh.com'' ''ED25519-CERT'' KEY_ED25519_CERT NID_0 True False,
     key_entry ''ssh-rsa'' ''RSA'' KEY_RSA NID_0 False False,
     key_entry ''rsa-sha2-256'' ''RSA'' KEY_RSA NID_0 False True,
     key_entry ''rsa-sha2-512'' ''RSA'' KEY_RSA NID_0 False True,
     key_entry ''ssh-dss'' ''DSA'' KEY_DSA NID_0 False False,
     key_entry ''ecdsa-sha2-nistp256'' ''ECDSA'' KEY_ECDSA NID_X9_62_prime256v1 False False,
     key_entry ''ecdsa-sha2-nistp384'' ''ECDSA'' KEY_ECDSA NID_secp384r1 False False,
     key_entry ''ecdsa-sha2-nistp521'' ''ECDSA'' KEY_ECDSA NID_secp521r1 False False,
     key_entry ''ssh-rsa-cert-v01@openssh.com'' ''RSA-CERT'' KEY_RSA_CERT NID_0 True False,
     key_entry ''ssh-dss-cert-v01@openssh.com'' ''DSA-CERT'' KEY_DSA_CERT NID_0 True False,
     key_entry ''ecdsa-sha2-nistp256-cert-v01@openssh.com'' ''ECDSA-CERT'' KEY_ECDSA_CERT
       NID_X9_62_prime256v1 True False,
     key_entry ''ecdsa-sha2-nistp384-cert-v01@openssh.com'' ''ECDSA-CERT'' KEY_ECDSA_CERT
       NID_secp384r1 True False,
     key_entry ''ecdsa-sha2-nistp521-cert-v01@openssh.com'' ''ECDSA-CERT'' KEY_ECDSA_CERT
       NID_secp521r1 True False]"

section \<open>Names and types\<close>

definition sshkey_type :: "keytype_id \<Rightarrow> string" where
  "sshkey_type t =
     (case find (\<lambda>kt. kt_type kt = t) keytypes of None \<Rightarrow> ''unknown'' | Some kt \<Rightarrow> kt_shortname kt)"

definition sshkey_ssh_name_from_type_nid :: "keytype_id \<Rightarrow> ec_nid \<Rightarrow> string" where
  "sshkey_ssh_name_from_type_nid t n =
     (case find (\<lambda>kt. kt_type kt = t \<and> (kt_nid kt = NID_0 \<or> kt_nid kt = n)) keytypes of
        None \<Rightarrow> ''ssh-unknown'' | Some kt \<Rightarrow> kt_name kt)"

definition sshkey_type_is_cert :: "keytype_id \<Rightarrow> bool" where
  "sshkey_type_is_cert t =
     (case find (\<lambda>kt. kt_type kt = t) keytypes of None \<Rightarrow> False | Some kt \<Rightarrow> kt_cert kt)"

definition sshkey_type_from_name :: "string \<Rightarrow> keytype_id" where
  "sshkey_type_from_name name =
     (case find (\<lambda>kt. name = kt_name kt \<or>
                   \<not> kt_cert kt \<and> map tolower (kt_shortname kt) = map tolower name) keytypes of
        None \<Rightarrow> KEY_UNSPEC | Some kt \<Rightarrow> kt_type kt)"

definition sshkey_ecdsa_nid_from_name :: "string \<Rightarrow> ec_nid" where
  "sshkey_ecdsa_nid_from_name name =
     (case find (\<lambda>kt. \<not> (kt_type kt \<noteq> KEY_ECDSA \<and> kt_type kt \<noteq> KEY_ECDSA_CERT) \<and> name = kt_name kt)
        keytypes of
        None \<Rightarrow> NID_none | Some kt \<Rightarrow> kt_nid kt)"

definition sshkey_alg_list :: "alloc_env \<Rightarrow> bool \<Rightarrow> bool \<Rightarrow> char \<Rightarrow> string option option" where
  "sshkey_alg_list env certs_only plain_only sep =
     fold (\<lambda>kt acc.
         if kt_sigonly kt then acc
         else if certs_only \<and> \<not> kt_cert kt \<or> plain_only \<and> kt_cert kt then acc
         else alg_list_add env sep (kt_name kt) acc)
       keytypes (Some None)"

text \<open>One component of a list, with patterns allowed when \<open>allow_wildcard\<close> is set.\<close>

definition sshkey_name_ok :: "bool \<Rightarrow> string \<Rightarrow> bool" where
  "sshkey_name_ok allow_wildcard p =
     (let t = sshkey_type_from_name p in
      if t = KEY_RSA1 then False
      else if t = KEY_UNSPEC
      then allow_wildcard \<and>
        list_ex (\<lambda>kt. kt_type kt \<noteq> KEY_RSA1 \<and> match_pattern_list (kt_name kt) p False \<noteq> 0) keytypes
      else True)"

function sshkey_names_valid2_loop :: "bool \<Rightarrow> string option \<Rightarrow> bool" where
  "sshkey_names_valid2_loop allow_wildcard cp =
     (case strsep CHR '','' cp of
        (None, _) \<Rightarrow> True
      | (Some p, cp') \<Rightarrow>
          if p = [] then True
          else if \<not> sshkey_name_ok allow_wildcard p then False
          else sshkey_names_valid2_loop allow_wildcard cp')"
  by auto
termination by (relation "measure (sep_size \<circ> snd)") (auto simp: strsep_size dest: sym)

declare sshkey_names_valid2_loop.simps [simp del]

definition sshkey_names_valid2 :: "bool \<Rightarrow> string option \<Rightarrow> bool \<Rightarrow> bool" where
  "sshkey_names_valid2 mem nms allow_wildcard =
     (case nms of
        None \<Rightarrow> False
      | Some s \<Rightarrow>
          if s = [] then False else if \<not> mem then False
          else sshkey_names_valid2_loop allow_wildcard (Some s))"

definition sshkey_type_is_valid_ca :: "keytype_id \<Rightarrow> bool" where
  "sshkey_type_is_valid_ca t \<longleftrightarrow> t = KEY_RSA \<or> t = KEY_DSA \<or> t = KEY_ECDSA \<or> t = KEY_ED25519"

definition sshkey_type_plain :: "keytype_id \<Rightarrow> keytype_id" where
  "sshkey_type_plain t =
     (case t of
        KEY_RSA_CERT \<Rightarrow> KEY_RSA
      | KEY_DSA_CERT \<Rightarrow> KEY_DSA
      | KEY_ECDSA_CERT \<Rightarrow> KEY_ECDSA
      | KEY_ED25519_CERT \<Rightarrow> KEY_ED25519
      | _ \<Rightarrow> t)"

section \<open>Consistency of the table\<close>

lemma key_table:
  "\<forall>kt\<in>set keytypes. kt_name kt \<noteq> [] \<and> CHR '','' \<notin> set (kt_name kt) \<and>
     sshkey_type_from_name (kt_name kt) = kt_type kt \<and>
     (kt_cert kt \<longleftrightarrow> sshkey_type_is_cert (kt_type kt)) \<and>
     (kt_cert kt \<longleftrightarrow> sshkey_type_plain (kt_type kt) \<noteq> kt_type kt) \<and>
     sshkey_type_is_valid_ca (sshkey_type_plain (kt_type kt)) \<and>
     (\<not> kt_sigonly kt \<longrightarrow> sshkey_ssh_name_from_type_nid (kt_type kt) (kt_nid kt) = kt_name kt)"
  by code_simp

lemma sshkey_name_ok_iff:
  "sshkey_name_ok w p \<longleftrightarrow> sshkey_type_from_name p \<noteq> KEY_UNSPEC \<or>
     w \<and> (\<exists>kt\<in>set keytypes. match_pattern_list (kt_name kt) p False \<noteq> 0)"
proof -
  have no1: "kt_type kt \<noteq> KEY_RSA1" if "kt \<in> set keytypes" for kt
    using that by (auto simp: keytypes_def key_entry_def)
  then have "sshkey_type_from_name p \<noteq> KEY_RSA1"
    by (auto simp: sshkey_type_from_name_def find_Some_iff split: option.splits)
  then show ?thesis using no1 by (auto simp: sshkey_name_ok_def Let_def list_ex_iff)
qed

interpretation kl: name_checker "sshkey_name_ok w" "sshkey_names_valid2_loop w" for w
  by unfold_locales (subst sshkey_names_valid2_loop.simps, rule refl)

end
