(* ===== verification/Dh.thy ===== *)
theory Dh
  imports Ssherr
begin

text \<open>
  Diffie-Hellman groups and key generation (\<open>dh.c\<close>, \<open>dh.h\<close>). OpenSSL's big numbers are integers;
  the fixed groups are the numbers their hexadecimal strings denote. The choice of the private
  exponent and the exponentiation (\<open>DH_generate_key\<close>) are OpenSSL's and a parameter, as is
  whether \<open>DH_new\<close> finds memory.
\<close>

section \<open>Groups\<close>

record dh =
  dh_p :: "int option"
  dh_g :: "int option"
  dh_length :: int
  dh_pub_key :: "int option"

fun num_bits :: "nat \<Rightarrow> nat" where
  "num_bits n = (if n = 0 then 0 else Suc (num_bits (n div 2)))"

declare num_bits.simps [simp del]

definition BN_num_bits :: "int \<Rightarrow> int" where
  "BN_num_bits n = int (num_bits (nat \<bar>n\<bar>))"

text \<open>The number a hexadecimal string denotes, given by its pieces of eight digits.\<close>

definition hex_chunks :: "int list \<Rightarrow> int" where
  "hex_chunks ws = foldl (\<lambda>a w. a * 2 ^ 32 + w) 0 ws"

definition dh_new_group_asc :: "bool \<Rightarrow> int \<Rightarrow> int \<Rightarrow> dh option" where
  "dh_new_group_asc mem gen modulus =
     (if \<not> mem then None
      else Some \<lparr>dh_p = Some modulus, dh_g = Some gen, dh_length = 0, dh_pub_key = None\<rparr>)"

definition dh_new_group :: "bool \<Rightarrow> int \<Rightarrow> int \<Rightarrow> dh option" where
  "dh_new_group mem gen modulus =
     (if \<not> mem then None
      else Some \<lparr>dh_p = Some modulus, dh_g = Some gen, dh_length = 0, dh_pub_key = None\<rparr>)"

definition group1_hex :: "int list" where
  "group1_hex =
     [0xFFFFFFFF, 0xFFFFFFFF, 0xC90FDAA2, 0x2168C234, 0xC4C6628B, 0x80DC1CD1, 0x29024E08, 0x8A67CC74,
      0x020BBEA6, 0x3B139B22, 0x514A0879, 0x8E3404DD, 0xEF9519B3, 0xCD3A431B, 0x302B0A6D, 0xF25F1437,
      0x4FE1356D, 0x6D51C245, 0xE485B576, 0x625E7EC6, 0xF44C42E9, 0xA637ED6B, 0x0BFF5CB6, 0xF406B7ED,
      0xEE386BFB, 0x5A899FA5, 0xAE9F2411, 0x7C4B1FE6, 0x49286651, 0xECE65381, 0xFFFFFFFF, 0xFFFFFFFF]"

definition dh_new_group1 :: "bool \<Rightarrow> dh option" where
  "dh_new_group1 mem = dh_new_group_asc mem 2 (hex_chunks group1_hex)"

definition group14_hex :: "int list" where
  "group14_hex =
     [0xFFFFFFFF, 0xFFFFFFFF, 0xC90FDAA2, 0x2168C234, 0xC4C6628B, 0x80DC1CD1, 0x29024E08, 0x8A67CC74,
      0x020BBEA6, 0x3B139B22, 0x514A0879, 0x8E3404DD, 0xEF9519B3, 0xCD3A431B, 0x302B0A6D, 0xF25F1437,
      0x4FE1356D, 0x6D51C245, 0xE485B576, 0x625E7EC6, 0xF44C42E9, 0xA637ED6B, 0x0BFF5CB6, 0xF406B7ED,
      0xEE386BFB, 0x5A899FA5, 0xAE9F2411, 0x7C4B1FE6, 0x49286651, 0xECE45B3D, 0xC2007CB8, 0xA163BF05,
      0x98DA4836, 0x1C55D39A, 0x69163FA8, 0xFD24CF5F, 0x83655D23, 0xDCA3AD96, 0x1C62F356, 0x208552BB,
      0x9ED52907, 0x7096966D, 0x670C354E, 0x4ABC9804, 0xF1746C08, 0xCA18217C, 0x32905E46, 0x2E36CE3B,
      0xE39E772C, 0x180E8603, 0x9B2783A2, 0xEC07A28F, 0xB5C55DF0, 0x6F4C52C9, 0xDE2BCBF6, 0x95581718,
      0x3995497C, 0xEA956AE5, 0x15D22618, 0x98FA0510, 0x15728E5A, 0x8AACAA68, 0xFFFFFFFF, 0xFFFFFFFF]"

definition dh_new_group14 :: "bool \<Rightarrow> dh option" where
  "dh_new_group14 mem = dh_new_group_asc mem 2 (hex_chunks group14_hex)"

definition group16_hex :: "int list" where
  "group16_hex =
     [0xFFFFFFFF, 0xFFFFFFFF, 0xC90FDAA2, 0x2168C234, 0xC4C6628B, 0x80DC1CD1, 0x29024E08, 0x8A67CC74,
      0x020BBEA6, 0x3B139B22, 0x514A0879, 0x8E3404DD, 0xEF9519B3, 0xCD3A431B, 0x302B0A6D, 0xF25F1437,
      0x4FE1356D, 0x6D51C245, 0xE485B576, 0x625E7EC6, 0xF44C42E9, 0xA637ED6B, 0x0BFF5CB6, 0xF406B7ED,
      0xEE386BFB, 0x5A899FA5, 0xAE9F2411, 0x7C4B1FE6, 0x49286651, 0xECE45B3D, 0xC2007CB8, 0xA163BF05,
      0x98DA4836, 0x1C55D39A, 0x69163FA8, 0xFD24CF5F, 0x83655D23, 0xDCA3AD96, 0x1C62F356, 0x208552BB,
      0x9ED52907, 0x7096966D, 0x670C354E, 0x4ABC9804, 0xF1746C08, 0xCA18217C, 0x32905E46, 0x2E36CE3B,
      0xE39E772C, 0x180E8603, 0x9B2783A2, 0xEC07A28F, 0xB5C55DF0, 0x6F4C52C9, 0xDE2BCBF6, 0x95581718,
      0x3995497C, 0xEA956AE5, 0x15D22618, 0x98FA0510, 0x15728E5A, 0x8AAAC42D, 0xAD33170D, 0x04507A33,
      0xA85521AB, 0xDF1CBA64, 0xECFB8504, 0x58DBEF0A, 0x8AEA7157, 0x5D060C7D, 0xB3970F85, 0xA6E1E4C7,
      0xABF5AE8C, 0xDB0933D7, 0x1E8C94E0, 0x4A25619D, 0xCEE3D226, 0x1AD2EE6B, 0xF12FFA06, 0xD98A0864,
      0xD8760273, 0x3EC86A64, 0x521F2B18, 0x177B200C, 0xBBE11757, 0x7A615D6C, 0x770988C0, 0xBAD946E2,
      0x08E24FA0, 0x74E5AB31, 0x43DB5BFC, 0xE0FD108E, 0x4B82D120, 0xA9210801, 0x1A723C12, 0xA787E6D7,
      0x88719A10, 0xBDBA5B26, 0x99C32718, 0x6AF4E23C, 0x1A946834, 0xB6150BDA, 0x2583E9CA, 0x2AD44CE8,
      0xDBBBC2DB, 0x04DE8EF9, 0x2E8EFC14, 0x1FBECAA6, 0x287C5947, 0x4E6BC05D, 0x99B2964F, 0xA090C3A2,
      0x233BA186, 0x515BE7ED, 0x1F612970, 0xCEE2D7AF, 0xB81BDD76, 0x2170481C, 0xD0069127, 0xD5B05AA9,
      0x93B4EA98, 0x8D8FDDC1, 0x86FFB7DC, 0x90A6C08F, 0x4DF435C9, 0x34063199, 0xFFFFFFFF, 0xFFFFFFFF]"

definition dh_new_group16 :: "bool \<Rightarrow> dh option" where
  "dh_new_group16 mem = dh_new_group_asc mem 2 (hex_chunks group16_hex)"

definition group18_hex :: "int list" where
  "group18_hex =
     [0xFFFFFFFF, 0xFFFFFFFF, 0xC90FDAA2, 0x2168C234, 0xC4C6628B, 0x80DC1CD1, 0x29024E08, 0x8A67CC74,
      0x020BBEA6, 0x3B139B22, 0x514A0879, 0x8E3404DD, 0xEF9519B3, 0xCD3A431B, 0x302B0A6D, 0xF25F1437,
      0x4FE1356D, 0x6D51C245, 0xE485B576, 0x625E7EC6, 0xF44C42E9, 0xA637ED6B, 0x0BFF5CB6, 0xF406B7ED,
      0xEE386BFB, 0x5A899FA5, 0xAE9F2411, 0x7C4B1FE6, 0x49286651, 0xECE45B3D, 0xC2007CB8, 0xA163BF05,
      0x98DA4836, 0x1C55D39A, 0x69163FA8, 0xFD24CF5F, 0x83655D23, 0xDCA3AD96, 0x1C62F356, 0x208552BB,
      0x9ED52907, 0x7096966D, 0x670C354E, 0x4ABC9804, 0xF1746C08, 0xCA18217C, 0x32905E46, 0x2E36CE3B,
      0xE39E772C, 0x180E8603, 0x9B2783A2, 0xEC07A28F, 0xB5C55DF0, 0x6F4C52C9, 0xDE2BCBF6, 0x95581718,
      0x3995497C, 0xEA956AE5, 0x15D22618, 0x98FA0510, 0x15728E5A, 0x8AAAC42D, 0xAD33170D, 0x04507A33,
      0xA85521AB, 0xDF1CBA64, 0xECFB8504, 0x58DBEF0A, 0x8AEA7157, 0x5D060C7D, 0xB3970F85, 0xA6E1E4C7,
      0xABF5AE8C, 0xDB0933D7, 0x1E8C94E0, 0x4A25619D, 0xCEE3D226, 0x1AD2EE6B, 0xF12FFA06, 0xD98A0864,
      0xD8760273, 0x3EC86A64, 0x521F2B18, 0x177B200C, 0xBBE11757, 0x7A615D6C, 0x770988C0, 0xBAD946E2,
      0x08E24FA0, 0x74E5AB31, 0x43DB5BFC, 0xE0FD108E, 0x4B82D120, 0xA9210801, 0x1A723C12, 0xA787E6D7,
      0x88719A10, 0xBDBA5B26, 0x99C32718, 0x6AF4E23C, 0x1A946834, 0xB6150BDA, 0x2583E9CA, 0x2AD44CE8,
      0xDBBBC2DB, 0x04DE8EF9, 0x2E8EFC14, 0x1FBECAA6, 0x287C5947, 0x4E6BC05D, 0x99B2964F, 0xA090C3A2,
      0x233BA186, 0x515BE7ED, 0x1F612970, 0xCEE2D7AF, 0xB81BDD76, 0x2170481C, 0xD0069127, 0xD5B05AA9,
      0x93B4EA98, 0x8D8FDDC1, 0x86FFB7DC, 0x90A6C08F, 0x4DF435C9, 0x34028492, 0x36C3FAB4, 0xD27C7026,
      0xC1D4DCB2, 0x602646DE, 0xC9751E76, 0x3DBA37BD, 0xF8FF9406, 0xAD9E530E, 0xE5DB382F, 0x413001AE,
      0xB06A53ED, 0x9027D831, 0x179727B0, 0x865A8918, 0xDA3EDBEB, 0xCF9B14ED, 0x44CE6CBA, 0xCED4BB1B,
      0xDB7F1447, 0xE6CC254B, 0x33205151, 0x2BD7AF42, 0x6FB8F401, 0x378CD2BF, 0x5983CA01, 0xC64B92EC,
      0xF032EA15, 0xD1721D03, 0xF482D7CE, 0x6E74FEF6, 0xD55E702F, 0x46980C82, 0xB5A84031, 0x900B1C9E,
      0x59E7C97F, 0xBEC7E8F3, 0x23A97A7E, 0x36CC88BE, 0x0F1D45B7, 0xFF585AC5, 0x4BD407B2, 0x2B4154AA,
      0xCC8F6D7E, 0xBF48E1D8, 0x14CC5ED2, 0x0F8037E0, 0xA79715EE, 0xF29BE328, 0x06A1D58B, 0xB7C5DA76,
      0xF550AA3D, 0x8A1FBFF0, 0xEB19CCB1, 0xA313D55C, 0xDA56C9EC, 0x2EF29632, 0x387FE8D7, 0x6E3C0468,
      0x043E8F66, 0x3F4860EE, 0x12BF2D5B, 0x0B7474D6, 0xE694F91E, 0x6DBE1159, 0x74A3926F, 0x12FEE5E4,
      0x38777CB6, 0xA932DF8C, 0xD8BEC4D0, 0x73B931BA, 0x3BC832B6, 0x8D9DD300, 0x741FA7BF, 0x8AFC47ED,
      0x2576F693, 0x6BA42466, 0x3AAB639C, 0x5AE4F568, 0x3423B474, 0x2BF1C978, 0x238F16CB, 0xE39D652D,
      0xE3FDB8BE, 0xFC848AD9, 0x22222E04, 0xA4037C07, 0x13EB57A8, 0x1A23F0C7, 0x3473FC64, 0x6CEA306B,
      0x4BCBC886, 0x2F8385DD, 0xFA9D4B7F, 0xA2C087E8, 0x79683303, 0xED5BDD3A, 0x062B3CF5, 0xB3A278A6,
      0x6D2A13F8, 0x3F44F82D, 0xDF310EE0, 0x74AB6A36, 0x4597E899, 0xA0255DC1, 0x64F31CC5, 0x0846851D,
      0xF9AB4819, 0x5DED7EA1, 0xB1D510BD, 0x7EE74D73, 0xFAF36BC3, 0x1ECFA268, 0x359046F4, 0xEB879F92,
      0x4009438B, 0x481C6CD7, 0x889A002E, 0xD5EE382B, 0xC9190DA6, 0xFC026E47, 0x9558E447, 0x5677E9AA,
      0x9E3050E2, 0x765694DF, 0xC81F56E8, 0x80B96E71, 0x60C980DD, 0x98EDD3DF, 0xFFFFFFFF, 0xFFFFFFFF]"

definition dh_new_group18 :: "bool \<Rightarrow> dh option" where
  "dh_new_group18 mem = dh_new_group_asc mem 2 (hex_chunks group18_hex)"

definition dh_new_group_fallback :: "bool \<Rightarrow> int \<Rightarrow> dh option" where
  "dh_new_group_fallback mem mx =
     (if mx < 3072 then dh_new_group14 mem
      else if mx < 6144 then dh_new_group16 mem
      else dh_new_group18 mem)"

definition dh_estimate :: "int \<Rightarrow> int" where
  "dh_estimate bits =
     (if bits \<le> 112 then 2048 else if bits \<le> 128 then 3072 else if bits \<le> 192 then 7680 else 8192)"

section \<open>Keys\<close>

definition bits_set :: "int \<Rightarrow> nat" where
  "bits_set pub = length (filter (\<lambda>i. bit pub i) [0..<Suc (nat (BN_num_bits pub))])"

definition dh_pub_is_valid :: "bool \<Rightarrow> dh \<Rightarrow> int \<Rightarrow> bool" where
  "dh_pub_is_valid mem dh pub \<longleftrightarrow>
     (if pub < 0 then False
      else if pub \<le> 1 then False
      else if \<not> mem then False
      else if \<not> pub < the (dh_p dh) - 1 then False
      else if bits_set pub < 4 then False
      else True)"

definition INT_MAX :: int where "INT_MAX = 2147483647"

definition dh_gen_key :: "(dh \<Rightarrow> int option) \<Rightarrow> bool \<Rightarrow> dh \<Rightarrow> int \<Rightarrow> (ssherr + unit) \<times> dh" where
  "dh_gen_key DH_generate_key mem dh need0 =
     (case dh_p dh of
        None \<Rightarrow> (Inl SSH_ERR_INVALID_ARGUMENT, dh)
      | Some p \<Rightarrow>
          let pbits = BN_num_bits p in
          if need0 < 0 \<or> pbits \<le> 0 \<or> need0 > INT_MAX div 2 \<or> 2 * need0 > pbits
          then (Inl SSH_ERR_INVALID_ARGUMENT, dh)
          else let need = (if need0 < 256 then 256 else need0);
                   dh = dh\<lparr>dh_length := min (need * 2) (pbits - 1)\<rparr>
               in case DH_generate_key dh of
                    None \<Rightarrow> (Inl SSH_ERR_LIBCRYPTO_ERROR, dh)
                  | Some pub \<Rightarrow>
                      let dh = dh\<lparr>dh_pub_key := Some pub\<rparr> in
                      if \<not> dh_pub_is_valid mem dh pub then (Inl SSH_ERR_LIBCRYPTO_ERROR, dh)
                      else (Inr (), dh))"

section \<open>Sizes\<close>

lemma num_bits_eq: "2 ^ k \<le> n \<Longrightarrow> n < 2 ^ Suc k \<Longrightarrow> num_bits n = Suc k"
proof (induction k arbitrary: n)
  case 0
  then have "n = 1" by simp
  then show ?case by (simp add: num_bits.simps)
next
  case (Suc k)
  have "2 ^ k \<le> n div 2" "n div 2 < 2 ^ Suc k" using Suc.prems by simp_all
  then have "num_bits (n div 2) = Suc k" by (rule Suc.IH)
  moreover have "n \<noteq> 0" using Suc.prems(1) by (intro notI) simp
  ultimately show ?case by (simp add: num_bits.simps [of n])
qed

lemma BN_num_bits_eq:
  assumes "2 ^ k \<le> n" and "n < 2 ^ Suc k"
  shows "BN_num_bits n = int (Suc k)"
proof -
  have "2 ^ k \<le> nat n" "nat n < 2 ^ Suc k"
    using assms by (simp_all add: nat_le_eq_zle le_nat_iff nat_less_iff)
  moreover have "0 \<le> n" using assms(1) by (meson order_trans zero_le_numeral zero_le_power)
  ultimately show ?thesis by (simp add: BN_num_bits_def num_bits_eq)
qed

lemma hex_chunks_bounds:
  assumes "ws \<noteq> []" and "2 ^ 31 \<le> hd ws" and "\<forall>w\<in>set ws. 0 \<le> w \<and> w < 2 ^ 32"
  shows "2 ^ (32 * length ws - 1) \<le> hex_chunks ws \<and> hex_chunks ws < 2 ^ (32 * length ws)"
  using assms
proof (induction ws rule: rev_induct)
  case (snoc w ws)
  show ?case
  proof (cases "ws = []")
    case True
    then show ?thesis using snoc.prems by (simp add: hex_chunks_def)
  next
    case False
    let ?n = "32 * length ws"
    have ih: "2 ^ (?n - 1) \<le> hex_chunks ws" "hex_chunks ws \<le> 2 ^ ?n - 1"
      using snoc False by auto
    have w: "0 \<le> w" "w \<le> 2 ^ 32 - 1" using snoc.prems(3) by auto
    have v: "hex_chunks (ws @ [w]) = hex_chunks ws * 2 ^ 32 + w" by (simp add: hex_chunks_def)
    have "2 ^ (?n - 1) * 2 ^ 32 \<le> hex_chunks (ws @ [w])"
      unfolding v using mult_right_mono [OF ih(1), of "2 ^ 32"] w(1) by simp
    moreover have "hex_chunks (ws @ [w]) < 2 ^ ?n * 2 ^ 32"
      unfolding v using mult_right_mono [OF ih(2), of "2 ^ 32"] w(2) by (simp add: algebra_simps)
    moreover have "32 * length (ws @ [w]) = ?n + 32" "32 * length (ws @ [w]) - 1 = ?n - 1 + 32"
      using False by (cases ws, simp_all)
    ultimately show ?thesis by (simp only: power_add)
  qed
qed simp

definition chunks_ok :: "int list \<Rightarrow> bool" where
  "chunks_ok ws \<longleftrightarrow> ws \<noteq> [] \<and> 2147483648 \<le> hd ws \<and> list_all (\<lambda>w. 0 \<le> w \<and> w < 4294967296) ws"

lemma hex_chunks_bits: "chunks_ok ws \<Longrightarrow> BN_num_bits (hex_chunks ws) = 32 * int (length ws)"
  using hex_chunks_bounds [of ws] BN_num_bits_eq [of "32 * length ws - 1" "hex_chunks ws"]
  by (simp add: chunks_ok_def list_all_iff)

lemma group1_chunks: "chunks_ok group1_hex \<and> length group1_hex = 32"
  by code_simp

lemma group1_bits: "dh_new_group1 mem = Some d \<Longrightarrow> \<exists>p. dh_p d = Some p \<and> BN_num_bits p = 1024"
  using hex_chunks_bits [of group1_hex] group1_chunks
  by (auto simp: dh_new_group_asc_def dh_new_group1_def split: if_splits)

lemma group14_chunks: "chunks_ok group14_hex \<and> length group14_hex = 64"
  by code_simp

lemma group14_bits: "dh_new_group14 mem = Some d \<Longrightarrow> \<exists>p. dh_p d = Some p \<and> BN_num_bits p = 2048"
  using hex_chunks_bits [of group14_hex] group14_chunks
  by (auto simp: dh_new_group_asc_def dh_new_group14_def split: if_splits)

lemma group16_chunks: "chunks_ok group16_hex \<and> length group16_hex = 128"
  by code_simp

lemma group16_bits: "dh_new_group16 mem = Some d \<Longrightarrow> \<exists>p. dh_p d = Some p \<and> BN_num_bits p = 4096"
  using hex_chunks_bits [of group16_hex] group16_chunks
  by (auto simp: dh_new_group_asc_def dh_new_group16_def split: if_splits)

lemma group18_chunks: "chunks_ok group18_hex \<and> length group18_hex = 256"
  by code_simp

lemma group18_bits: "dh_new_group18 mem = Some d \<Longrightarrow> \<exists>p. dh_p d = Some p \<and> BN_num_bits p = 8192"
  using hex_chunks_bits [of group18_hex] group18_chunks
  by (auto simp: dh_new_group_asc_def dh_new_group18_def split: if_splits)

end
