(* ===== verification/Kex.thy ===== *)
theory Kex
  imports Cipher Mac Sshkey_Names Sshbuf_Refs Dh
begin

text \<open>
  Algorithm negotiation and key derivation of the key exchange (\<open>kex.c\<close>, \<open>kex.h\<close>): the table of
  methods, the lists of names from the configuration, the proposals and their wire format, the
  choice of algorithms and the derivation of the six keys. The message handlers that use these
  are in the theories of the packet layer.
\<close>

section \<open>Data\<close>

datatype kex_exchange = KEX_DH_GRP1_SHA1 | KEX_DH_GRP14_SHA1 | KEX_DH_GRP14_SHA256
  | KEX_DH_GRP16_SHA512 | KEX_DH_GRP18_SHA512 | KEX_DH_GEX_SHA1 | KEX_DH_GEX_SHA256
  | KEX_ECDH_SHA2 | KEX_C25519_SHA256

datatype kex_mode = MODE_IN | MODE_OUT

definition PROPOSAL_KEX_ALGS :: nat where "PROPOSAL_KEX_ALGS = 0"
definition PROPOSAL_SERVER_HOST_KEY_ALGS :: nat where "PROPOSAL_SERVER_HOST_KEY_ALGS = 1"
definition PROPOSAL_ENC_ALGS_CTOS :: nat where "PROPOSAL_ENC_ALGS_CTOS = 2"
definition PROPOSAL_ENC_ALGS_STOC :: nat where "PROPOSAL_ENC_ALGS_STOC = 3"
definition PROPOSAL_MAC_ALGS_CTOS :: nat where "PROPOSAL_MAC_ALGS_CTOS = 4"
definition PROPOSAL_MAC_ALGS_STOC :: nat where "PROPOSAL_MAC_ALGS_STOC = 5"
definition PROPOSAL_COMP_ALGS_CTOS :: nat where "PROPOSAL_COMP_ALGS_CTOS = 6"
definition PROPOSAL_COMP_ALGS_STOC :: nat where "PROPOSAL_COMP_ALGS_STOC = 7"
definition PROPOSAL_MAX :: nat where "PROPOSAL_MAX = 10"
definition KEX_COOKIE_LEN :: nat where "KEX_COOKIE_LEN = 16"
definition KEX_INIT_SENT :: u32 where "KEX_INIT_SENT = 1"
definition COMP_NONE :: nat where "COMP_NONE = 0"
definition COMP_ZLIB :: nat where "COMP_ZLIB = 1"
definition COMP_DELAYED :: nat where "COMP_DELAYED = 2"
definition SSH_BUG_HMAC :: u32 where "SSH_BUG_HMAC = 4"
definition SSH_BUG_FIRSTKEX :: u32 where "SSH_BUG_FIRSTKEX = 0x00800000"

lemmas proposal_consts = PROPOSAL_KEX_ALGS_def PROPOSAL_SERVER_HOST_KEY_ALGS_def
  PROPOSAL_ENC_ALGS_CTOS_def PROPOSAL_ENC_ALGS_STOC_def PROPOSAL_MAC_ALGS_CTOS_def
  PROPOSAL_MAC_ALGS_STOC_def PROPOSAL_COMP_ALGS_CTOS_def PROPOSAL_COMP_ALGS_STOC_def

record sshenc =
  enc_name :: "string option"
  enc_cipher :: "sshcipher option"
  enc_enabled :: bool
  enc_key_len :: nat
  enc_iv_len :: nat
  enc_block_size :: nat
  enc_key :: "bytes option"
  enc_iv :: "bytes option"

record sshcomp =
  comp_type :: nat
  comp_enabled :: bool
  comp_name :: "string option"

record ('d, 'u) newkeys =
  nk_enc :: sshenc
  nk_mac :: "('d, 'u) sshmac"
  nk_comp :: sshcomp

definition newkeys_zeroed :: "('d, 'u) newkeys" where
  "newkeys_zeroed =
     \<lparr>nk_enc = \<lparr>enc_name = None, enc_cipher = None, enc_enabled = False, enc_key_len = 0,
        enc_iv_len = 0, enc_block_size = 0, enc_key = None, enc_iv = None\<rparr>,
      nk_mac = mac_zeroed,
      nk_comp = \<lparr>comp_type = 0, comp_enabled = False, comp_name = None\<rparr>\<rparr>"

text \<open>
  The members of \<open>struct kex\<close> that negotiation and derivation use. The callbacks and the
  state of the individual methods are not part of the record.
\<close>

record ('d, 'u) kex =
  session_id :: "bytes option"
  kex_newkeys :: "kex_mode \<Rightarrow> ('d, 'u) newkeys option"
  we_need :: nat
  dh_need :: nat
  kex_server :: bool
  kex_name :: "string option"
  hostkey_alg :: "string option"
  hostkey_type :: keytype_id
  hostkey_nid :: ec_nid
  kex_type :: kex_exchange
  rsa_sha2 :: int
  ext_info_c :: bool
  kex_my :: sshbuf
  kex_peer :: sshbuf
  kex_done :: bool
  kex_flags :: u32
  kex_hash_alg :: int
  kex_ec_nid :: ec_nid
  failed_choice :: "string option"

record kexalg =
  ka_name :: string
  ka_type :: kex_exchange
  ka_ec_nid :: ec_nid
  ka_hash_alg :: int

definition kex_entry :: "string \<Rightarrow> kex_exchange \<Rightarrow> ec_nid \<Rightarrow> int \<Rightarrow> kexalg" where
  "kex_entry name t n h = \<lparr>ka_name = name, ka_type = t, ka_ec_nid = n, ka_hash_alg = h\<rparr>"

definition kexalgs :: "kexalg list" where
  "kexalgs =
    [kex_entry ''diffie-hellman-group1-sha1'' KEX_DH_GRP1_SHA1 NID_0 SSH_DIGEST_SHA1,
     kex_entry ''diffie-hellman-group14-sha1'' KEX_DH_GRP14_SHA1 NID_0 SSH_DIGEST_SHA1,
     kex_entry ''diffie-hellman-group14-sha256'' KEX_DH_GRP14_SHA256 NID_0 SSH_DIGEST_SHA256,
     kex_entry ''diffie-hellman-group16-sha512'' KEX_DH_GRP16_SHA512 NID_0 SSH_DIGEST_SHA512,
     kex_entry ''diffie-hellman-group18-sha512'' KEX_DH_GRP18_SHA512 NID_0 SSH_DIGEST_SHA512,
     kex_entry ''diffie-hellman-group-exchange-sha1'' KEX_DH_GEX_SHA1 NID_0 SSH_DIGEST_SHA1,
     kex_entry ''diffie-hellman-group-exchange-sha256'' KEX_DH_GEX_SHA256 NID_0 SSH_DIGEST_SHA256,
     kex_entry ''ecdh-sha2-nistp256'' KEX_ECDH_SHA2 NID_X9_62_prime256v1 SSH_DIGEST_SHA256,
     kex_entry ''ecdh-sha2-nistp384'' KEX_ECDH_SHA2 NID_secp384r1 SSH_DIGEST_SHA384,
     kex_entry ''ecdh-sha2-nistp521'' KEX_ECDH_SHA2 NID_secp521r1 SSH_DIGEST_SHA512,
     kex_entry ''curve25519-sha256'' KEX_C25519_SHA256 NID_0 SSH_DIGEST_SHA256,
     kex_entry ''curve25519-sha256@libssh.org'' KEX_C25519_SHA256 NID_0 SSH_DIGEST_SHA256]"

section \<open>Lists of names\<close>

definition kex_alg_list :: "alloc_env \<Rightarrow> char \<Rightarrow> string option option" where
  "kex_alg_list env sep = fold (\<lambda>k. alg_list_add env sep (ka_name k)) kexalgs (Some None)"

definition kex_alg_by_name :: "string \<Rightarrow> kexalg option" where
  "kex_alg_by_name name = find (\<lambda>k. ka_name k = name) kexalgs"

function kex_names_valid_loop :: "string option \<Rightarrow> bool" where
  "kex_names_valid_loop cp =
     (case strsep CHR '','' cp of
        (None, _) \<Rightarrow> True
      | (Some p, cp') \<Rightarrow>
          if p = [] then True
          else if kex_alg_by_name p = None then False
          else kex_names_valid_loop cp')"
  by auto
termination by (relation "measure sep_size") (auto simp: strsep_size dest: sym)

declare kex_names_valid_loop.simps [simp del]

definition kex_names_valid :: "bool \<Rightarrow> string option \<Rightarrow> bool" where
  "kex_names_valid mem nms =
     (case nms of
        None \<Rightarrow> False
      | Some s \<Rightarrow> if s = [] then False else if \<not> mem then False else kex_names_valid_loop (Some s))"

text \<open>
  The loop of \<open>kex_names_cat\<close> on the buffer \<open>ret\<close> of \<open>n\<close> bytes. \<open>strlcat\<close> returns the length it
  tried to make, which is compared with \<open>n\<close>.
\<close>

function names_cat_loop :: "nat \<Rightarrow> string \<Rightarrow> string option \<Rightarrow> string option" where
  "names_cat_loop n ret cp =
     (case strsep CHR '','' cp of
        (None, _) \<Rightarrow> Some ret
      | (Some p, cp') \<Rightarrow>
          if p = [] then Some ret
          else if fst (match_list ret p) \<noteq> None then names_cat_loop n ret cp'
          else if length ret + 1 \<ge> n then None
          else (let ret1 = strlcat ret '','' n in
                if length ret1 + length p \<ge> n then None
                else names_cat_loop n (strlcat ret1 p n) cp'))"
  by auto
termination by (relation "measure (\<lambda>(_, _, cp). sep_size cp)") (auto simp: strsep_size dest: sym)

declare names_cat_loop.simps [simp del]

text \<open>\<open>mem\<close>: whether the allocations succeed.\<close>

definition kex_names_cat :: "bool \<Rightarrow> string option \<Rightarrow> string option \<Rightarrow> string option" where
  "kex_names_cat mem a b =
     (case a of
        None \<Rightarrow> None
      | Some sa \<Rightarrow>
          if sa = [] then None
          else (case b of
             None \<Rightarrow> if mem then Some sa else None
           | Some sb \<Rightarrow>
               if sb = [] then if mem then Some sa else None
               else if length sb > 1024 * 1024 then None
               else let n = length sa + length sb + 2 in
                 if \<not> mem then None else names_cat_loop n sa (Some sb)))"

text \<open>The list from the configuration file, updated in place.\<close>

definition kex_assemble_names ::
  "bool \<Rightarrow> string \<Rightarrow> string option \<Rightarrow> (ssherr, string option, unit) outcome" where
  "kex_assemble_names mem def lst =
     (case lst of
        None \<Rightarrow> (Inr (), if mem then Some def else None)
      | Some l \<Rightarrow>
          if l = [] then (Inr (), if mem then Some def else None)
          else if hd l = CHR ''+''
          then (case kex_names_cat mem (Some def) (Some (tl l)) of
                  None \<Rightarrow> (Inl SSH_ERR_ALLOC_FAIL, lst) | Some r \<Rightarrow> (Inr (), Some r))
          else if hd l = CHR ''-''
          then (case match_filter_list mem def (tl l) of
                  None \<Rightarrow> (Inl SSH_ERR_ALLOC_FAIL, lst) | Some r \<Rightarrow> (Inr (), Some r))
          else (Inr (), lst))"

section \<open>Proposals on the wire\<close>

definition bytes_of :: "string \<Rightarrow> bytes" where
  "bytes_of s = map (\<lambda>c. of_nat (of_char c)) s"

definition string_of :: "bytes \<Rightarrow> string" where
  "string_of bs = map (\<lambda>b. char_of (unat b)) bs"

primrec put_cookie :: "alloc_env \<Rightarrow> nat \<Rightarrow> sshbuf \<Rightarrow> (ssherr, sshbuf, unit) outcome" where
  "put_cookie env 0 b = (Inr (), b)"
| "put_cookie env (Suc n) b = rbind (sshbuf_put_u8 env b 0) (\<lambda>_ b. put_cookie env n b)"

primrec put_props :: "alloc_env \<Rightarrow> string list \<Rightarrow> sshbuf \<Rightarrow> (ssherr, sshbuf, unit) outcome" where
  "put_props env [] b = (Inr (), b)"
| "put_props env (p # ps) b =
     rbind (sshbuf_put_cstring env b (Some (bytes_of p))) (\<lambda>_ b. put_props env ps b)"

definition kex_prop2buf :: "alloc_env \<Rightarrow> sshbuf \<Rightarrow> string list \<Rightarrow> (ssherr, sshbuf, unit) outcome" where
  "kex_prop2buf env b0 proposal =
     rbind (put_cookie env KEX_COOKIE_LEN (sshbuf_reset env b0)) (\<lambda>_ b.
     rbind (put_props env proposal b) (\<lambda>_ b.
     rbind (sshbuf_put_u8 env b 0) (\<lambda>_ b.
     sshbuf_put_u32 env b 0)))"

primrec get_props :: "alloc_env \<Rightarrow> nat \<Rightarrow> sshbuf \<Rightarrow> (ssherr, sshbuf, string list) outcome" where
  "get_props env 0 b = (Inr [], b)"
| "get_props env (Suc n) b =
     rbind (sshbuf_get_cstring env b True) (\<lambda>v b.
     rbind (get_props env n b) (\<lambda>vs b. (Inr (string_of (cstr v) # vs), b)))"

text \<open>
  The parser works on a child of \<open>raw\<close> (\<open>sshbuf_fromb\<close>) that it frees before returning, so \<open>raw\<close>
  is left as it was; \<open>raw\<close> and its child are at the addresses 0 and 1 of a store.
\<close>

definition kex_buf2prop :: "alloc_env \<Rightarrow> sshbuf \<Rightarrow> ssherr + byte \<times> string list" where
  "kex_buf2prop env raw =
     (if \<not> malloc_ok env (PROPOSAL_MAX * 8) then Inl SSH_ERR_ALLOC_FAIL
      else (case sshbuf_fromb env [0 \<mapsto> raw] 0 1 of
         (None, _) \<Rightarrow> Inl SSH_ERR_ALLOC_FAIL
       | (Some a, st) \<Rightarrow>
           fst (rbind (sshbuf_consume (the (st a)) KEX_COOKIE_LEN) (\<lambda>_ b.
                rbind (get_props env PROPOSAL_MAX b) (\<lambda>ps b.
                rbind (sshbuf_get_u8 b) (\<lambda>v b.
                rbind (sshbuf_get_u32 b) (\<lambda>_ b. (Inr (v, ps), b))))))))"

section \<open>Choosing the algorithms\<close>

definition choose_enc :: "sshenc \<Rightarrow> string \<Rightarrow> string \<Rightarrow> (ssherr, sshenc, unit) outcome" where
  "choose_enc enc client server =
     (case fst (match_list client server) of
        None \<Rightarrow> (Inl SSH_ERR_NO_CIPHER_ALG_MATCH, enc)
      | Some name \<Rightarrow>
          (case cipher_by_name name of
             None \<Rightarrow> (Inl SSH_ERR_INTERNAL_ERROR, enc\<lparr>enc_cipher := None\<rparr>)
           | Some c \<Rightarrow>
               (Inr (), enc\<lparr>enc_cipher := Some c, enc_name := Some name, enc_enabled := False,
                  enc_iv := None, enc_iv_len := cipher_ivlen c, enc_key := None,
                  enc_key_len := cipher_keylen c, enc_block_size := cipher_blocksize c\<rparr>)))"

definition choose_mac ::
  "'d evp_md \<Rightarrow> alloc_env \<Rightarrow> u32 \<Rightarrow> ('d, 'u) sshmac \<Rightarrow> string \<Rightarrow> string \<Rightarrow>
     (ssherr, ('d, 'u) sshmac, unit) outcome" where
  "choose_mac lib env cflags mac client server =
     (case fst (match_list client server) of
        None \<Rightarrow> (Inl SSH_ERR_NO_MAC_ALG_MATCH, mac)
      | Some name \<Rightarrow>
          (case mac_setup lib env mac name of
             (Inl _, mac) \<Rightarrow> (Inl SSH_ERR_INTERNAL_ERROR, mac)
           | (Inr _, mac) \<Rightarrow>
               let mac = (if cflags AND SSH_BUG_HMAC \<noteq> 0 then mac\<lparr>mac_key_len := 16\<rparr> else mac)
               in (Inr (), mac\<lparr>mac_name := Some name, mac_key := None, mac_enabled := False\<rparr>)))"

definition choose_comp :: "sshcomp \<Rightarrow> string \<Rightarrow> string \<Rightarrow> (ssherr, sshcomp, unit) outcome" where
  "choose_comp cmp client server =
     (case fst (match_list client server) of
        None \<Rightarrow> (Inl SSH_ERR_NO_COMPRESS_ALG_MATCH, cmp)
      | Some name \<Rightarrow>
          if name = ''zlib@openssh.com''
          then (Inr (), cmp\<lparr>comp_type := COMP_DELAYED, comp_name := Some name\<rparr>)
          else if name = ''zlib'' then (Inr (), cmp\<lparr>comp_type := COMP_ZLIB, comp_name := Some name\<rparr>)
          else if name = ''none'' then (Inr (), cmp\<lparr>comp_type := COMP_NONE, comp_name := Some name\<rparr>)
          else (Inl SSH_ERR_INTERNAL_ERROR, cmp))"

definition choose_kex :: "('d, 'u) kex \<Rightarrow> string \<Rightarrow> string \<Rightarrow> (ssherr, ('d, 'u) kex, unit) outcome" where
  "choose_kex k0 client server =
     (let k = k0\<lparr>kex_name := fst (match_list client server)\<rparr> in
      case kex_name k of
        None \<Rightarrow> (Inl SSH_ERR_NO_KEX_ALG_MATCH, k)
      | Some name \<Rightarrow>
          (case kex_alg_by_name name of
             None \<Rightarrow> (Inl SSH_ERR_INTERNAL_ERROR, k)
           | Some a \<Rightarrow> (Inr (), k\<lparr>kex_type := ka_type a, kex_hash_alg := ka_hash_alg a,
                            kex_ec_nid := ka_ec_nid a\<rparr>)))"

definition choose_hostkeyalg ::
  "('d, 'u) kex \<Rightarrow> string \<Rightarrow> string \<Rightarrow> (ssherr, ('d, 'u) kex, unit) outcome" where
  "choose_hostkeyalg k0 client server =
     (let k = k0\<lparr>hostkey_alg := fst (match_list client server)\<rparr> in
      case hostkey_alg k of
        None \<Rightarrow> (Inl SSH_ERR_NO_HOSTKEY_ALG_MATCH, k)
      | Some alg \<Rightarrow>
          let k = k\<lparr>hostkey_type := sshkey_type_from_name alg\<rparr> in
          if hostkey_type k = KEY_UNSPEC then (Inl SSH_ERR_INTERNAL_ERROR, k)
          else (Inr (), k\<lparr>hostkey_nid := sshkey_ecdsa_nid_from_name alg\<rparr>))"

definition first_name :: "string \<Rightarrow> string" where
  "first_name s = takeWhile (\<lambda>c. c \<noteq> CHR '','') s"

definition proposals_match :: "string list \<Rightarrow> string list \<Rightarrow> bool" where
  "proposals_match my peer \<longleftrightarrow>
     list_all (\<lambda>i. first_name (my ! i) = first_name (peer ! i))
       [PROPOSAL_KEX_ALGS, PROPOSAL_SERVER_HOST_KEY_ALGS]"

definition sizeof_newkeys :: nat where "sizeof_newkeys = 136"

definition kex_ctos :: "bool \<Rightarrow> kex_mode \<Rightarrow> bool" where
  "kex_ctos server mode \<longleftrightarrow> \<not> server \<and> mode = MODE_OUT \<or> server \<and> mode = MODE_IN"

text \<open>The loop body of \<open>kex_choose_conf\<close> for one direction.\<close>

definition choose_mode ::
  "'d evp_md \<Rightarrow> alloc_env \<Rightarrow> u32 \<Rightarrow> string list \<Rightarrow> string list \<Rightarrow> string list \<Rightarrow> kex_mode \<Rightarrow> ('d, 'u) kex \<Rightarrow>
     (ssherr, ('d, 'u) kex, unit) outcome" where
  "choose_mode lib env cflags cprop sprop peer mode kex =
     (if \<not> malloc_ok env sizeof_newkeys then (Inl SSH_ERR_ALLOC_FAIL, kex)
      else
        let ctos = kex_ctos (kex_server kex) mode;
            nenc = (if ctos then PROPOSAL_ENC_ALGS_CTOS else PROPOSAL_ENC_ALGS_STOC);
            nmac = (if ctos then PROPOSAL_MAC_ALGS_CTOS else PROPOSAL_MAC_ALGS_STOC);
            ncomp = (if ctos then PROPOSAL_COMP_ALGS_CTOS else PROPOSAL_COMP_ALGS_STOC);
            upd = (\<lambda>nk. kex\<lparr>kex_newkeys := (kex_newkeys kex)(mode := Some nk)\<rparr>);
            nk = newkeys_zeroed
        in case choose_enc (nk_enc nk) (cprop ! nenc) (sprop ! nenc) of
           (Inl r, enc) \<Rightarrow> (Inl r, (upd (nk\<lparr>nk_enc := enc\<rparr>))\<lparr>failed_choice := Some (peer ! nenc)\<rparr>)
         | (Inr _, enc) \<Rightarrow>
             let nk = nk\<lparr>nk_enc := enc\<rparr>;
                 authlen = cipher_authlen (the (enc_cipher enc))
             in case (if authlen = 0
                      then choose_mac lib env cflags (nk_mac nk) (cprop ! nmac) (sprop ! nmac)
                      else (Inr (), nk_mac nk)) of
                (Inl r, mac) \<Rightarrow> (Inl r, (upd (nk\<lparr>nk_mac := mac\<rparr>))\<lparr>failed_choice := Some (peer ! nmac)\<rparr>)
              | (Inr _, mac) \<Rightarrow>
                  let nk = nk\<lparr>nk_mac := mac\<rparr> in
                  case choose_comp (nk_comp nk) (cprop ! ncomp) (sprop ! ncomp) of
                    (Inl r, cmp) \<Rightarrow>
                      (Inl r, (upd (nk\<lparr>nk_comp := cmp\<rparr>))\<lparr>failed_choice := Some (peer ! ncomp)\<rparr>)
                  | (Inr _, cmp) \<Rightarrow> (Inr (), upd (nk\<lparr>nk_comp := cmp\<rparr>)))"

definition newkeys_need :: "('d, 'u) newkeys \<Rightarrow> nat \<Rightarrow> nat" where
  "newkeys_need nk need =
     max (max (max (max need (enc_key_len (nk_enc nk))) (enc_block_size (nk_enc nk)))
       (enc_iv_len (nk_enc nk))) (mac_key_len (nk_mac nk))"

definition newkeys_dh_need :: "('d, 'u) newkeys \<Rightarrow> nat \<Rightarrow> nat" where
  "newkeys_dh_need nk need =
     max (max (max (max need (cipher_seclen (the (enc_cipher (nk_enc nk))))) (enc_block_size (nk_enc nk)))
       (enc_iv_len (nk_enc nk))) (mac_key_len (nk_mac nk))"

text \<open>The result says whether \<open>dispatch_skip_packets\<close> is set to 1.\<close>

definition kex_choose_conf ::
  "'d evp_md \<Rightarrow> alloc_env \<Rightarrow> u32 \<Rightarrow> ('d, 'u) kex \<Rightarrow> (ssherr, ('d, 'u) kex, bool) outcome" where
  "kex_choose_conf lib env cflags kex =
     (case kex_buf2prop env (kex_my kex) of
        Inl r \<Rightarrow> (Inl r, kex)
      | Inr (_, my) \<Rightarrow>
     (case kex_buf2prop env (kex_peer kex) of
        Inl r \<Rightarrow> (Inl r, kex)
      | Inr (first_kex_follows, peer) \<Rightarrow>
          let cprop = (if kex_server kex then peer else my);
              sprop = (if kex_server kex then my else peer);
              kex = (if kex_server kex
                     then kex\<lparr>ext_info_c :=
                            (fst (match_list ''ext-info-c'' (peer ! PROPOSAL_KEX_ALGS)) \<noteq> None)\<rparr>
                     else kex)
          in case choose_kex kex (cprop ! PROPOSAL_KEX_ALGS) (sprop ! PROPOSAL_KEX_ALGS) of
               (Inl r, kex) \<Rightarrow> (Inl r, kex\<lparr>failed_choice := Some (peer ! PROPOSAL_KEX_ALGS)\<rparr>)
             | (Inr _, kex) \<Rightarrow>
             case choose_hostkeyalg kex (cprop ! PROPOSAL_SERVER_HOST_KEY_ALGS)
                    (sprop ! PROPOSAL_SERVER_HOST_KEY_ALGS) of
               (Inl r, kex) \<Rightarrow>
                 (Inl r, kex\<lparr>failed_choice := Some (peer ! PROPOSAL_SERVER_HOST_KEY_ALGS)\<rparr>)
             | (Inr _, kex) \<Rightarrow>
               rbind (choose_mode lib env cflags cprop sprop peer MODE_IN kex) (\<lambda>_ kex.
               rbind (choose_mode lib env cflags cprop sprop peer MODE_OUT kex) (\<lambda>_ kex.
                 let nk_in = the (kex_newkeys kex MODE_IN); nk_out = the (kex_newkeys kex MODE_OUT);
                     need = newkeys_need nk_out (newkeys_need nk_in 0);
                     dhneed = newkeys_dh_need nk_out (newkeys_dh_need nk_in 0)
                 in (Inr (first_kex_follows \<noteq> 0 \<and> \<not> proposals_match my peer \<and>
                          cflags AND SSH_BUG_FIRSTKEX = 0),
                     kex\<lparr>we_need := need, dh_need := dhneed\<rparr>)))))"

section \<open>Deriving the keys\<close>

text \<open>One digest over several pieces; every failure becomes \<open>SSH_ERR_LIBCRYPTO_ERROR\<close>.\<close>

definition digest_pieces :: "'d evp_md \<Rightarrow> alloc_env \<Rightarrow> int \<Rightarrow> bytes list \<Rightarrow> nat \<Rightarrow> bytes option" where
  "digest_pieces lib env alg pieces dlen =
     (case ssh_digest_start lib env alg of
        None \<Rightarrow> None
      | Some c \<Rightarrow>
          (case fold (\<lambda>m r. rbind r (\<lambda>_ c. ssh_digest_update lib c m)) pieces (Inr (), c) of
             (Inl _, _) \<Rightarrow> None
           | (Inr _, c) \<Rightarrow>
               (case ssh_digest_final lib c dlen of (Inl _, _) \<Rightarrow> None | (Inr h, _) \<Rightarrow> Some h)))"

lemma digest_pieces_pos: "digest_pieces lib env alg ps n = Some h \<Longrightarrow> 0 < ssh_digest_bytes alg"
proof -
  assume "digest_pieces lib env alg ps n = Some h"
  then obtain d where d: "ssh_digest_by_alg alg = Some d"
    by (auto simp: digest_pieces_def ssh_digest_start_def split: option.splits)
  then have "d \<in> set digests" "alg \<in> {0, 1, 2, 3, 4, 5}"
    by (auto simp: ssh_digest_by_alg_def digests_def digest_entry_def digest_consts Let_def nth_Cons'
        split: if_splits)
  then show ?thesis by (auto simp: ssh_digest_bytes_def d digests_def digest_entry_def)
qed

text \<open>The buffer \<open>digest\<close> holds \<open>have\<close> bytes of key material.\<close>

function derive_loop ::
  "'d evp_md \<Rightarrow> alloc_env \<Rightarrow> int \<Rightarrow> bytes \<Rightarrow> bytes \<Rightarrow> nat \<Rightarrow> nat \<Rightarrow> bytes \<Rightarrow> ssherr + bytes" where
  "derive_loop lib env alg secret hash need have digest =
     (if need > have
      then (case digest_pieces lib env alg [secret, hash, take have digest] (ssh_digest_bytes alg) of
              None \<Rightarrow> Inl SSH_ERR_LIBCRYPTO_ERROR
            | Some h \<Rightarrow> derive_loop lib env alg secret hash need (have + ssh_digest_bytes alg) (digest @ h))
      else Inr digest)"
  by auto
termination
  by (relation "measure (\<lambda>(_, _, _, _, _, need, have, _). need - have)")
    (auto dest: digest_pieces_pos)

declare derive_loop.simps [simp del]

text \<open>
  \<open>derive_key\<close> returns the bytes it has written to its buffer of \<open>ROUNDUP(need, mdsz)\<close> bytes; the
  exchange hash, the session identifier and the shared secret are byte strings.
\<close>

definition derive_key ::
  "'d evp_md \<Rightarrow> alloc_env \<Rightarrow> ('d, 'u) kex \<Rightarrow> nat \<Rightarrow> nat \<Rightarrow> bytes \<Rightarrow> sshbuf \<Rightarrow> ssherr + bytes" where
  "derive_key lib env kex i need hash shared_secret =
     (let mdsz = ssh_digest_bytes (kex_hash_alg kex);
          secret = take (sshbuf_len shared_secret) (blk (sshbuf_ptr shared_secret)) in
      if mdsz = 0 then Inl SSH_ERR_INVALID_ARGUMENT
      else if \<not> malloc_ok env (ROUNDUP need mdsz) then Inl SSH_ERR_ALLOC_FAIL
      else (case digest_pieces lib env (kex_hash_alg kex)
                   [secret, hash, [of_nat i], blk (session_id kex)] mdsz of
              None \<Rightarrow> Inl SSH_ERR_LIBCRYPTO_ERROR
            | Some k1 \<Rightarrow> derive_loop lib env (kex_hash_alg kex) secret hash need mdsz k1))"

definition NKEYS :: nat where "NKEYS = 6"

primrec derive_all ::
  "'d evp_md \<Rightarrow> alloc_env \<Rightarrow> ('d, 'u) kex \<Rightarrow> bytes \<Rightarrow> sshbuf \<Rightarrow> nat list \<Rightarrow> ssherr + bytes list" where
  "derive_all lib env kex hash shared_secret [] = Inr []"
| "derive_all lib env kex hash shared_secret (i # is) =
     (case derive_key lib env kex (65 + i) (we_need kex) hash shared_secret of
        Inl r \<Rightarrow> Inl r
      | Inr k \<Rightarrow>
          (case derive_all lib env kex hash shared_secret is of Inl r \<Rightarrow> Inl r | Inr ks \<Rightarrow> Inr (k # ks)))"

definition set_keys :: "bytes list \<Rightarrow> bool \<Rightarrow> ('d, 'u) newkeys \<Rightarrow> ('d, 'u) newkeys" where
  "set_keys keys ctos nk =
     nk\<lparr>nk_enc := (nk_enc nk)\<lparr>enc_iv := Some (keys ! (if ctos then 0 else 1)),
                             enc_key := Some (keys ! (if ctos then 2 else 3))\<rparr>,
        nk_mac := (nk_mac nk)\<lparr>mac_key := Some (keys ! (if ctos then 4 else 5))\<rparr>\<rparr>"

definition kex_derive_keys ::
  "'d evp_md \<Rightarrow> alloc_env \<Rightarrow> ('d, 'u) kex \<Rightarrow> bytes \<Rightarrow> sshbuf \<Rightarrow> (ssherr, ('d, 'u) kex, unit) outcome" where
  "kex_derive_keys lib env kex hash shared_secret =
     (case derive_all lib env kex hash shared_secret [0..<NKEYS] of
        Inl r \<Rightarrow> (Inl r, kex)
      | Inr keys \<Rightarrow>
          (Inr (), kex\<lparr>kex_newkeys := (\<lambda>mode. map_option (set_keys keys (kex_ctos (kex_server kex) mode))
             (kex_newkeys kex mode))\<rparr>))"

section \<open>The wire format of a proposal\<close>

lemma unat_byte_of_char: "unat (of_nat (of_char c) :: byte) = of_char c"
  using nat_of_char_less_256 [of c] by (simp add: unsigned_of_nat take_bit_nat_eq_self)

lemma string_of_bytes_of [simp]: "string_of (bytes_of s) = s"
  by (simp add: string_of_def bytes_of_def comp_def unat_byte_of_char)

lemma bytes_of_no_nul: "CHR 0x00 \<notin> set s \<Longrightarrow> 0 \<notin> set (bytes_of s)"
proof
  assume s: "CHR 0x00 \<notin> set s" and "0 \<in> set (bytes_of s)"
  then obtain c where c: "c \<in> set s" "of_nat (of_char c) = (0 :: byte)" by (auto simp: bytes_of_def)
  then have "(of_char c :: nat) = 0" using unat_byte_of_char [of c] by simp
  then have "char_of (of_char c :: nat) = CHR 0x00" by (simp only: char_of_def) simp
  then show False using c(1) s by simp
qed

lemma cstr_no_nul: "0 \<notin> set v \<Longrightarrow> cstr v = v"
  by (auto simp: cstr_def takeWhile_eq_all_conv)

lemma length_bytes_of [simp]: "length (bytes_of s) = length s"
  by (simp add: bytes_of_def)

definition prop_ok :: "string \<Rightarrow> bool" where
  "prop_ok s \<longleftrightarrow> CHR 0x00 \<notin> set s \<and> length s \<le> SSHBUF_SIZE_MAX - 4"

definition kexinit_bytes :: "bytes \<Rightarrow> string list \<Rightarrow> byte \<Rightarrow> u32 \<Rightarrow> bytes" where
  "kexinit_bytes cookie props follows reserved =
     cookie @ concat (map (\<lambda>p. wire_string (bytes_of p)) props) @ follows # POKE_U32 reserved"

lemma put_cookie_ok:
  assumes env: "\<And>n. malloc_ok env n"
  shows "sshbuf_inv b \<Longrightarrow> sshbuf_writable b \<Longrightarrow> length (sshbuf_bytes b) + n \<le> buf_max_size b \<Longrightarrow>
    \<exists>b'. put_cookie env n b = (Inr (), b') \<and> sshbuf_inv b' \<and> sshbuf_writable b' \<and>
      buf_max_size b' = buf_max_size b \<and> sshbuf_bytes b' = sshbuf_bytes b @ replicate n 0"
proof (induction n arbitrary: b)
  case (Suc n)
  obtain b1 where b1: "sshbuf_put env b [0] = (Inr (), b1)" "sshbuf_inv b1" "sshbuf_writable b1"
      "buf_max_size b1 = buf_max_size b" "sshbuf_bytes b1 = sshbuf_bytes b @ [0]"
    using sshbuf_put_ok [OF Suc.prems(1) env Suc.prems(2), of "[0]"] Suc.prems(3) by auto
  then have "length (sshbuf_bytes b1) + n \<le> buf_max_size b1"
    using Suc.prems(3) by (simp del: length_sshbuf_bytes)
  with Suc.IH [OF b1(2,3)] b1 show ?case by (auto simp: sshbuf_put_ints_eq)
qed simp

lemma put_props_ok:
  assumes env: "\<And>n. malloc_ok env n"
  shows "sshbuf_inv b \<Longrightarrow> sshbuf_writable b \<Longrightarrow> list_all prop_ok ps \<Longrightarrow>
    length (sshbuf_bytes b) + length (concat (map (\<lambda>p. wire_string (bytes_of p)) ps)) \<le> buf_max_size b \<Longrightarrow>
    \<exists>b'. put_props env ps b = (Inr (), b') \<and> sshbuf_inv b' \<and> sshbuf_writable b' \<and>
      buf_max_size b' = buf_max_size b \<and>
      sshbuf_bytes b' = sshbuf_bytes b @ concat (map (\<lambda>p. wire_string (bytes_of p)) ps)"
proof (induction ps arbitrary: b)
  case (Cons p ps)
  have p: "cstr (bytes_of p) = bytes_of p" "length (bytes_of p) \<le> SSHBUF_SIZE_MAX - 4"
    using Cons.prems(3) by (simp_all add: prop_ok_def cstr_no_nul bytes_of_no_nul)
  have room: "length (sshbuf_bytes b) + length (wire_string (bytes_of p)) \<le> buf_max_size b"
    using Cons.prems(4) by simp
  obtain b1 where b1: "sshbuf_put env b (wire_string (bytes_of p)) = (Inr (), b1)" "sshbuf_inv b1"
      "sshbuf_writable b1" "buf_max_size b1 = buf_max_size b"
      "sshbuf_bytes b1 = sshbuf_bytes b @ wire_string (bytes_of p)"
    using sshbuf_put_ok [OF Cons.prems(1) env Cons.prems(2) room] by auto
  then have put: "sshbuf_put_cstring env b (Some (bytes_of p)) = (Inr (), b1)"
    using p sshbuf_put_string_eq [OF Cons.prems(1) p(2)] by (simp add: sshbuf_put_cstring_def)
  have "length (sshbuf_bytes b1) + length (concat (map (\<lambda>p. wire_string (bytes_of p)) ps)) \<le> buf_max_size b1"
    using Cons.prems(4) by (simp add: b1(4,5) del: length_sshbuf_bytes)
  with Cons.IH [OF b1(2,3)] Cons.prems(3) b1 put show ?case by auto
qed simp

lemma kex_prop2buf_ok:
  assumes env: "\<And>n. malloc_ok env n" and b: "sshbuf_inv b" "sshbuf_writable b"
    and ps: "list_all prop_ok ps"
    and room: "length (kexinit_bytes (replicate KEX_COOKIE_LEN 0) ps 0 0) \<le> buf_max_size b"
      "SSHBUF_SIZE_INIT \<le> buf_max_size b"
  shows "\<exists>b'. kex_prop2buf env b ps = (Inr (), b') \<and> sshbuf_inv b' \<and> sshbuf_writable b' \<and>
    sshbuf_bytes b' = kexinit_bytes (replicate KEX_COOKIE_LEN 0) ps 0 0"
proof -
  let ?w = "concat (map (\<lambda>p. wire_string (bytes_of p)) ps)"
  have len: "KEX_COOKIE_LEN + length ?w + 5 \<le> buf_max_size b"
    using room(1) by (simp add: kexinit_bytes_def)
  note r = sshbuf_reset_writable [OF b room(2), of env]
  obtain b1 where b1: "put_cookie env KEX_COOKIE_LEN (sshbuf_reset env b) = (Inr (), b1)" "sshbuf_inv b1"
      "sshbuf_writable b1" "buf_max_size b1 = buf_max_size b" "sshbuf_bytes b1 = replicate KEX_COOKIE_LEN 0"
    using put_cookie_ok [OF env r(1,4), of KEX_COOKIE_LEN] r(2,3) len by auto
  obtain b2 where b2: "put_props env ps b1 = (Inr (), b2)" "sshbuf_inv b2" "sshbuf_writable b2"
      "buf_max_size b2 = buf_max_size b" "sshbuf_bytes b2 = replicate KEX_COOKIE_LEN 0 @ ?w"
    using put_props_ok [OF env b1(2,3) ps] b1(4,5) len by auto
  obtain b3 where b3: "sshbuf_put env b2 [0] = (Inr (), b3)" "sshbuf_inv b3" "sshbuf_writable b3"
      "buf_max_size b3 = buf_max_size b" "sshbuf_bytes b3 = replicate KEX_COOKIE_LEN 0 @ ?w @ [0]"
    using sshbuf_put_ok [OF b2(2) env b2(3), of "[0]"] b2(4,5) len by auto
  obtain b4 where "sshbuf_put env b3 (POKE_U32 0) = (Inr (), b4)" "sshbuf_inv b4" "sshbuf_writable b4"
      "sshbuf_bytes b4 = replicate KEX_COOKIE_LEN 0 @ ?w @ [0] @ POKE_U32 0"
    using sshbuf_put_ok [OF b3(2) env b3(3), of "POKE_U32 0"] b3(4,5) len by auto
  then show ?thesis
    using b1(1) b2(1) b3(1) by (simp add: kex_prop2buf_def sshbuf_put_ints_eq kexinit_bytes_def)
qed

lemma get_props_ok:
  assumes env: "\<And>n. malloc_ok env n"
  shows "sshbuf_inv b \<Longrightarrow> list_all prop_ok ps \<Longrightarrow>
    sshbuf_bytes b = concat (map (\<lambda>p. wire_string (bytes_of p)) ps) @ rest \<Longrightarrow>
    \<exists>b'. get_props env (length ps) b = (Inr ps, b') \<and> sshbuf_inv b' \<and> sshbuf_bytes b' = rest"
proof (induction ps arbitrary: b)
  case (Cons p ps)
  have p: "0 \<notin> set (bytes_of p)" "length (bytes_of p) \<le> SSHBUF_SIZE_MAX - 4"
    using Cons.prems(2) by (simp_all add: prop_ok_def bytes_of_no_nul)
  obtain b1 where b1: "sshbuf_get_cstring env b True = (Inr (bytes_of p), b1)" "sshbuf_inv b1"
      "sshbuf_bytes b1 = concat (map (\<lambda>p. wire_string (bytes_of p)) ps) @ rest"
    using sshbuf_get_cstring_ok [OF Cons.prems(1) _ p(2,1), of _ True env] Cons.prems(3) env
    by (auto simp: parsed_def)
  from Cons.IH [OF b1(2) _ b1(3)] Cons.prems(2) obtain b' where
    "get_props env (length ps) b1 = (Inr ps, b')" "sshbuf_inv b'" "sshbuf_bytes b' = rest" by auto
  then show ?case using b1 p(1) by (simp add: cstr_no_nul)
qed simp

lemma kex_buf2prop_ok:
  assumes env: "\<And>n. malloc_ok env n" and raw: "sshbuf_inv raw"
    and cnt: "sshbuf_bytes raw = kexinit_bytes cookie ps follows reserved @ rest"
    and "length cookie = KEX_COOKIE_LEN" and "length ps = PROPOSAL_MAX" and ps: "list_all prop_ok ps"
  shows "kex_buf2prop env raw = Inr (follows, ps)"
proof -
  from sshbuf_fromb_ok [OF raw, of "[0 \<mapsto> raw]" 0 1 env] env obtain c where c:
    "sshbuf_fromb env [0 \<mapsto> raw] 0 1 = (Some 1, [0 \<mapsto> raw, 1 \<mapsto> c, 0 \<mapsto> raw\<lparr>buf_refcount := buf_refcount raw + 1\<rparr>])"
    "sshbuf_inv c" "sshbuf_bytes c = sshbuf_bytes raw" by auto
  obtain b1 where b1: "sshbuf_consume c KEX_COOKIE_LEN = (Inr (), b1)" "sshbuf_inv b1"
      "sshbuf_bytes b1 = drop KEX_COOKIE_LEN (sshbuf_bytes raw)"
    using sshbuf_consume_ok [OF c(2), of KEX_COOKIE_LEN] c(3) cnt assms(4)
    by (auto simp: kexinit_bytes_def simp del: length_sshbuf_bytes)
  then have "sshbuf_bytes b1 = concat (map (\<lambda>p. wire_string (bytes_of p)) ps) @ (follows # POKE_U32 reserved @ rest)"
    using cnt assms(4) by (simp add: kexinit_bytes_def)
  from get_props_ok [OF env b1(2) ps this] obtain b2 where b2: "get_props env PROPOSAL_MAX b1 = (Inr ps, b2)"
      "sshbuf_inv b2" "sshbuf_bytes b2 = follows # POKE_U32 reserved @ rest"
    using assms(5) by auto
  obtain b3 where b3: "sshbuf_get_u8 b2 = (Inr follows, b3)" "sshbuf_inv b3" "sshbuf_bytes b3 = POKE_U32 reserved @ rest"
    using sshbuf_get_ints_ok(4) [OF b2(2,3)] by (auto simp: parsed_def)
  obtain b4 where "sshbuf_get_u32 b3 = (Inr reserved, b4)"
    using sshbuf_get_ints_ok(2) [OF b3(2,3)] by (auto simp: parsed_def)
  then show ?thesis using c(1) b1(1) b2(1) b3(1) env by (simp add: kex_buf2prop_def)
qed

section \<open>Concatenated lists of names\<close>

definition add_name :: "string \<Rightarrow> string list \<Rightarrow> string list" where
  "add_name p ns = (if p \<in> set ns then ns else ns @ [p])"

lemma fold_add_name:
  "fold add_name xs ns = ns @ filter (\<lambda>p. p \<notin> set ns) (rev (remdups (rev xs)))"
proof (induction xs arbitrary: ns rule: rev_induct)
  case (snoc x xs)
  then show ?case by (auto simp: add_name_def)
qed simp

lemma names_of_name: "CHR '','' \<notin> set p \<Longrightarrow> p \<noteq> [] \<Longrightarrow> names p = [p]"
  by (simp add: names_def tokens_single)

lemma match_list_name:
  assumes "CHR '','' \<notin> set p" and "p \<noteq> []" and "\<And>t. t \<in> set (tokens ret) \<Longrightarrow> t \<noteq> []"
  shows "fst (match_list ret p) \<noteq> None \<longleftrightarrow> p \<in> set (tokens ret)"
proof -
  have "names ret = tokens ret" using assms(3) by (auto simp: names_def takeWhile_eq_all_conv)
  then show ?thesis
    using assms by (auto simp: match_list_eq names_of_name MAX_PROP_def find_None_iff)
qed

lemma names_cat_loop_eq:
  assumes "\<And>t. t \<in> set (tokens ret) \<Longrightarrow> t \<noteq> []" and "length ret + sep_size cp < n"
  shows "\<exists>r. names_cat_loop n ret cp = Some r \<and>
    tokens r = fold add_name (takeWhile (\<lambda>p. p \<noteq> []) (tokens_from CHR '','' cp)) (tokens ret)"
  using assms
proof (induction n ret cp rule: names_cat_loop.induct)
  case (1 n ret cp)
  obtain q cp' where s: "strsep CHR '','' cp = (q, cp')" by force
  show ?case
  proof (cases q)
    case None
    then show ?thesis using s by (simp add: names_cat_loop.simps [of n ret cp] strsep_tokens)
  next
    case (Some p)
    note tok = strsep_tokens(1) [OF s [unfolded Some]]
    note sz = strsep_size_eq [OF s [unfolded Some]]
    have nc: "CHR '','' \<notin> set p" using tokens_no_sep [of p "CHR '',''" cp] tok by simp
    show ?thesis
    proof (cases "p = []")
      case True
      then show ?thesis using s Some tok by (simp add: names_cat_loop.simps [of n ret cp])
    next
      case False
      have m: "fst (match_list ret p) \<noteq> None \<longleftrightarrow> p \<in> set (tokens ret)"
        using match_list_name [OF nc False] "1.prems"(1) by blast
      show ?thesis
      proof (cases "p \<in> set (tokens ret)")
        case True
        then show ?thesis
          using "1.IH"(1) [OF s [symmetric] Some False] "1.prems" m sz s Some tok False
          by (auto simp: names_cat_loop.simps [of n ret cp] add_name_def)
      next
        case new: False
        let ?ret = "ret @ CHR '','' # p"
        have fits: "strlcat ret '','' n = ret @ '',''" "strlcat (ret @ '','') p n = ?ret"
          using "1.prems"(2) sz by (simp_all add: strlcat_fits)
        have tr: "tokens ?ret = tokens ret @ [p]" by (simp add: tokens_append tokens_single nc)
        have "\<exists>r. names_cat_loop n ?ret cp' = Some r \<and>
            tokens r = fold add_name (takeWhile (\<lambda>p. p \<noteq> []) (tokens_from CHR '','' cp')) (tokens ?ret)"
          using "1.IH"(2) [OF s [symmetric] Some False] m new "1.prems" sz fits tr False by auto
        then show ?thesis
          using s Some tok False new m fits "1.prems"(2) sz tr
          by (simp add: names_cat_loop.simps [of n ret cp] add_name_def [of p])
      qed
    qed
  qed
qed

text \<open>\<open>kex_names_cat\<close> appends to a list without empty names the names of the second list (up to
  its first empty name) that are not there yet, each once and in order; its buffer is never too
  small, so the branch commented ``Shouldn't happen'' is not reached.\<close>

theorem kex_names_cat_dedup:
  assumes "a \<noteq> []" and "\<And>t. t \<in> set (tokens a) \<Longrightarrow> t \<noteq> []" and "length b \<le> 1024 * 1024"
  shows "\<exists>r. kex_names_cat True (Some a) (Some b) = Some r \<and>
    tokens r = tokens a @ filter (\<lambda>p. p \<notin> set (tokens a)) (rev (remdups (rev (names b))))"
proof (cases "b = []")
  case True
  then show ?thesis using assms(1) by (simp add: kex_names_cat_def names_def)
next
  case False
  then show ?thesis
    using names_cat_loop_eq [of a "Some b" "length a + length b + 2"] assms
    by (auto simp: kex_names_cat_def Let_def sep_size_def fold_add_name names_def)
qed

theorem kex_names_cat_dedup_witness:
  "\<exists>r. kex_names_cat True (Some ''aes128-ctr,3des-cbc'') (Some ''blowfish-cbc,3des-cbc,blowfish-cbc'') = Some r \<and>
    tokens r = [''aes128-ctr'', ''3des-cbc'', ''blowfish-cbc'']"
proof -
  have t: "tokens ''aes128-ctr,3des-cbc'' = [''aes128-ctr'', ''3des-cbc'']"
    "names ''blowfish-cbc,3des-cbc,blowfish-cbc'' = [''blowfish-cbc'', ''3des-cbc'', ''blowfish-cbc'']"
    by code_simp+
  have "\<exists>r. kex_names_cat True (Some ''aes128-ctr,3des-cbc'') (Some ''blowfish-cbc,3des-cbc,blowfish-cbc'') = Some r \<and>
      tokens r = tokens ''aes128-ctr,3des-cbc'' @ filter (\<lambda>p. p \<notin> set (tokens ''aes128-ctr,3des-cbc''))
        (rev (remdups (rev (names ''blowfish-cbc,3des-cbc,blowfish-cbc''))))"
    by (rule kex_names_cat_dedup) (auto simp: t)
  then show ?thesis by (simp add: t)
qed

interpretation xl: name_checker "\<lambda>p. kex_alg_by_name p \<noteq> None" kex_names_valid_loop
  by unfold_locales (subst kex_names_valid_loop.simps, auto split: option.splits prod.splits)

section \<open>Properties of the proposals\<close>

text \<open>C19. The algorithm proposal survives the wire: what \<open>kex_prop2buf\<close> writes for ten name lists
  without NUL characters is parsed by \<open>kex_buf2prop\<close> to the same ten lists with
  \<open>first_kex_follows\<close> clear, also after the cookie has been overwritten by
  \<open>kex_send_kexinit\<close> and when the message is followed by other bytes.\<close>

theorem kex_proposal_roundtrip:
  assumes "\<And>n. malloc_ok env n" and "sshbuf_inv b" and "sshbuf_writable b"
    and "length ps = PROPOSAL_MAX" and "list_all prop_ok ps"
    and "length (kexinit_bytes (replicate KEX_COOKIE_LEN 0) ps 0 0) \<le> buf_max_size b"
    and "SSHBUF_SIZE_INIT \<le> buf_max_size b"
  shows "\<exists>b'. kex_prop2buf env b ps = (Inr (), b') \<and> kex_buf2prop env b' = Inr (0, ps) \<and>
    (\<forall>raw cookie rest. sshbuf_inv raw \<longrightarrow> length cookie = KEX_COOKIE_LEN \<longrightarrow>
       sshbuf_bytes raw = cookie @ drop KEX_COOKIE_LEN (sshbuf_bytes b') @ rest \<longrightarrow>
       kex_buf2prop env raw = Inr (0, ps))"
proof -
  obtain b' where b': "kex_prop2buf env b ps = (Inr (), b')" "sshbuf_inv b'"
      "sshbuf_bytes b' = kexinit_bytes (replicate KEX_COOKIE_LEN 0) ps 0 0"
    using kex_prop2buf_ok [OF assms(1-3,5-7)] by blast
  have "kex_buf2prop env b' = Inr (0, ps)"
    using kex_buf2prop_ok [OF assms(1) b'(2), of "replicate KEX_COOKIE_LEN 0" ps 0 0 "[]"] b'(3) assms(4,5)
    by simp
  moreover have "kex_buf2prop env raw = Inr (0, ps)"
    if "sshbuf_inv raw" "length cookie = KEX_COOKIE_LEN"
      "sshbuf_bytes raw = cookie @ drop KEX_COOKIE_LEN (sshbuf_bytes b') @ rest" for raw cookie rest
    using kex_buf2prop_ok [OF assms(1) that(1), of cookie ps 0 0 rest] that(2,3) b'(3) assms(4,5)
    by (simp add: kexinit_bytes_def)
  ultimately show ?thesis using b'(1) by blast
qed

theorem kex_proposal_roundtrip_witness:
  "\<exists>b'. kex_prop2buf plenty new_buf (replicate 10 ''none'') = (Inr (), b') \<and>
     kex_buf2prop plenty b' = Inr (0, replicate 10 ''none'')"
  using kex_proposal_roundtrip [of plenty new_buf "replicate 10 ''none''"]
  by (auto simp: PROPOSAL_MAX_def list_all_iff prop_ok_def KEX_COOKIE_LEN_def kexinit_bytes_def
      sshbuf_consts sum_list_replicate length_concat)

section \<open>Negotiation depends on the two proposals only\<close>

text \<open>What \<open>choose_mode\<close> finds for the direction \<open>ctos\<close>, or the error it stops with.\<close>

definition mode_newkeys ::
  "'d evp_md \<Rightarrow> alloc_env \<Rightarrow> u32 \<Rightarrow> string list \<Rightarrow> string list \<Rightarrow> bool \<Rightarrow> ssherr + ('d, 'u) newkeys" where
  "mode_newkeys lib env cflags cprop sprop ctos =
     (let nenc = (if ctos then PROPOSAL_ENC_ALGS_CTOS else PROPOSAL_ENC_ALGS_STOC);
          nmac = (if ctos then PROPOSAL_MAC_ALGS_CTOS else PROPOSAL_MAC_ALGS_STOC);
          ncomp = (if ctos then PROPOSAL_COMP_ALGS_CTOS else PROPOSAL_COMP_ALGS_STOC) in
      if \<not> malloc_ok env sizeof_newkeys then Inl SSH_ERR_ALLOC_FAIL
      else case choose_enc (nk_enc (newkeys_zeroed :: ('d, 'u) newkeys)) (cprop ! nenc) (sprop ! nenc) of
         (Inl r, _) \<Rightarrow> Inl r
       | (Inr _, enc) \<Rightarrow>
           (case (if cipher_authlen (the (enc_cipher enc)) = 0
                  then choose_mac lib env cflags mac_zeroed (cprop ! nmac) (sprop ! nmac)
                  else (Inr (), mac_zeroed)) of
              (Inl r, _) \<Rightarrow> Inl r
            | (Inr _, mac) \<Rightarrow>
                (case choose_comp (nk_comp (newkeys_zeroed :: ('d, 'u) newkeys)) (cprop ! ncomp) (sprop ! ncomp) of
                   (Inl r, _) \<Rightarrow> Inl r
                 | (Inr _, cmp) \<Rightarrow> Inr \<lparr>nk_enc = enc, nk_mac = mac, nk_comp = cmp\<rparr>)))"

lemma choose_mode_eq:
  "case mode_newkeys lib env cflags cprop sprop (kex_ctos (kex_server kex) mode) of
     Inl e \<Rightarrow> fst (choose_mode lib env cflags cprop sprop peer mode kex) = Inl e
   | Inr nk \<Rightarrow> choose_mode lib env cflags cprop sprop peer mode kex =
       (Inr (), kex\<lparr>kex_newkeys := (kex_newkeys kex)(mode := Some nk)\<rparr>)"
  by (auto simp: mode_newkeys_def choose_mode_def Let_def newkeys_zeroed_def
      split: prod.splits sum.splits)

definition kex_choice :: "string list \<Rightarrow> string list \<Rightarrow> kexalg option" where
  "kex_choice cprop sprop =
     (case fst (match_list (cprop ! PROPOSAL_KEX_ALGS) (sprop ! PROPOSAL_KEX_ALGS)) of
        None \<Rightarrow> None | Some name \<Rightarrow> kex_alg_by_name name)"

definition hostkey_choice :: "string list \<Rightarrow> string list \<Rightarrow> string option" where
  "hostkey_choice cprop sprop =
     (case fst (match_list (cprop ! PROPOSAL_SERVER_HOST_KEY_ALGS) (sprop ! PROPOSAL_SERVER_HOST_KEY_ALGS)) of
        None \<Rightarrow> None
      | Some alg \<Rightarrow> if sshkey_type_from_name alg = KEY_UNSPEC then None else Some alg)"

lemma kex_alg_by_name_Some: "kex_alg_by_name n = Some a \<Longrightarrow> a \<in> set kexalgs \<and> ka_name a = n"
  by (auto simp: kex_alg_by_name_def find_Some_iff)

lemma choose_kex_eq:
  "case kex_choice cprop sprop of
     None \<Rightarrow> isl (fst (choose_kex k (cprop ! PROPOSAL_KEX_ALGS) (sprop ! PROPOSAL_KEX_ALGS)))
   | Some a \<Rightarrow> choose_kex k (cprop ! PROPOSAL_KEX_ALGS) (sprop ! PROPOSAL_KEX_ALGS) =
       (Inr (), k\<lparr>kex_name := Some (ka_name a), kex_type := ka_type a, kex_hash_alg := ka_hash_alg a,
          kex_ec_nid := ka_ec_nid a\<rparr>)"
  by (auto simp: kex_choice_def choose_kex_def Let_def
      split: option.splits dest: kex_alg_by_name_Some)

lemma choose_hostkeyalg_eq:
  "case hostkey_choice cprop sprop of
     None \<Rightarrow> isl (fst (choose_hostkeyalg k (cprop ! PROPOSAL_SERVER_HOST_KEY_ALGS)
         (sprop ! PROPOSAL_SERVER_HOST_KEY_ALGS)))
   | Some h \<Rightarrow> choose_hostkeyalg k (cprop ! PROPOSAL_SERVER_HOST_KEY_ALGS)
         (sprop ! PROPOSAL_SERVER_HOST_KEY_ALGS) =
       (Inr (), k\<lparr>hostkey_alg := Some h, hostkey_type := sshkey_type_from_name h,
          hostkey_nid := sshkey_ecdsa_nid_from_name h\<rparr>)"
  by (auto simp: hostkey_choice_def choose_hostkeyalg_def Let_def split: option.splits)

text \<open>The outcome of the negotiation as a function of the proposals, for the side \<open>server\<close>.\<close>

definition conf_spec ::
  "'d evp_md \<Rightarrow> alloc_env \<Rightarrow> u32 \<Rightarrow> string list \<Rightarrow> string list \<Rightarrow>
     (kexalg \<times> string \<times> ('d, 'u) newkeys \<times> ('d, 'u) newkeys) option" where
  "conf_spec lib env cflags cprop sprop =
     (case (kex_choice cprop sprop, hostkey_choice cprop sprop,
            mode_newkeys lib env cflags cprop sprop True, mode_newkeys lib env cflags cprop sprop False) of
        (Some a, Some h, Inr ctos, Inr stoc) \<Rightarrow> Some (a, h, ctos, stoc)
      | _ \<Rightarrow> None)"

lemma kex_ctos_simps [simp]:
  "kex_ctos server MODE_IN = server" "kex_ctos server MODE_OUT = (\<not> server)"
  by (simp_all add: kex_ctos_def)

lemma newkeys_need_max:
  "newkeys_need x n = max n (newkeys_need x 0)" "newkeys_dh_need x n = max n (newkeys_dh_need x 0)"
  by (simp_all only: newkeys_need_def newkeys_dh_need_def max.assoc max_0L)

lemma newkeys_need_swap:
  "newkeys_need x (newkeys_need y 0) = newkeys_need y (newkeys_need x 0)"
  "newkeys_dh_need x (newkeys_dh_need y 0) = newkeys_dh_need y (newkeys_dh_need x 0)"
  by (metis newkeys_need_max max.commute)+

text \<open>Both directions, in the order the code takes them.\<close>

lemma choose_modes_eq:
  fixes kex :: "('d, 'u) kex"
  assumes res: "res = rbind (choose_mode lib env cflags cprop sprop peer MODE_IN kex) (\<lambda>_ kex.
      choose_mode lib env cflags cprop sprop peer MODE_OUT kex)"
  shows "case (mode_newkeys lib env cflags cprop sprop (kex_server kex),
               mode_newkeys lib env cflags cprop sprop (\<not> kex_server kex)) of
      (Inr nin, Inr nout) \<Rightarrow>
        res = (Inr (), kex\<lparr>kex_newkeys := (kex_newkeys kex)(MODE_IN := Some nin, MODE_OUT := Some nout)\<rparr>)
    | _ \<Rightarrow> isl (fst res)"
proof (cases "mode_newkeys lib env cflags cprop sprop (kex_server kex) :: ssherr + ('d, 'u) newkeys")
  case (Inl e)
  then show ?thesis
    using choose_mode_eq [where lib = lib and env = env and cflags = cflags and cprop = cprop and sprop = sprop
        and kex = kex and mode = MODE_IN and peer = peer]
    by (cases "choose_mode lib env cflags cprop sprop peer MODE_IN kex") (auto simp: res)
next
  case (Inr nin)
  let ?k = "kex\<lparr>kex_newkeys := (kex_newkeys kex)(MODE_IN := Some nin)\<rparr>"
  have "res = choose_mode lib env cflags cprop sprop peer MODE_OUT ?k"
    using choose_mode_eq [where lib = lib and env = env and cflags = cflags and cprop = cprop and sprop = sprop
        and kex = kex and mode = MODE_IN and peer = peer] Inr by (simp add: res)
  then show ?thesis
    using choose_mode_eq [where lib = lib and env = env and cflags = cflags and cprop = cprop and sprop = sprop
        and kex = ?k and mode = MODE_OUT and peer = peer] Inr
    by (auto split: sum.splits)
qed

lemma kex_choose_conf_spec:
  fixes kex kex' :: "('d, 'u) kex"
  assumes my: "kex_buf2prop env (kex_my kex) = Inr (f, my)"
    and peer: "kex_buf2prop env (kex_peer kex) = Inr (g, peer)"
    and c: "cprop = (if kex_server kex then peer else my)" and s: "sprop = (if kex_server kex then my else peer)"
    and res: "kex_choose_conf lib env cflags kex = (r, kex')"
  shows "case conf_spec lib env cflags cprop sprop of
      None \<Rightarrow> isl r
    | Some (a, h, ctos, stoc) \<Rightarrow> \<not> isl r \<and>
        kex_name kex' = Some (ka_name a) \<and> kex_type kex' = ka_type a \<and> kex_hash_alg kex' = ka_hash_alg a \<and>
        kex_ec_nid kex' = ka_ec_nid a \<and> hostkey_alg kex' = Some h \<and>
        hostkey_type kex' = sshkey_type_from_name h \<and>
        kex_newkeys kex' MODE_IN = Some (if kex_server kex then ctos else stoc) \<and>
        kex_newkeys kex' MODE_OUT = Some (if kex_server kex then stoc else ctos) \<and>
        we_need kex' = newkeys_need ctos (newkeys_need stoc 0) \<and>
        dh_need kex' = newkeys_dh_need ctos (newkeys_dh_need stoc 0) \<and>
        kex_server kex' = kex_server kex \<and> session_id kex' = session_id kex"
proof -
  let ?spec = "conf_spec lib env cflags cprop sprop ::
      (kexalg \<times> string \<times> ('d, 'u) newkeys \<times> ('d, 'u) newkeys) option"
  define k0 where "k0 = (if kex_server kex then kex\<lparr>ext_info_c :=
      (fst (match_list ''ext-info-c'' (peer ! PROPOSAL_KEX_ALGS)) \<noteq> None)\<rparr> else kex)"
  have k0: "kex_server k0 = kex_server kex" "session_id k0 = session_id kex" by (simp_all add: k0_def)
  note unf = res [unfolded kex_choose_conf_def my peer sum.case prod.case Let_def,
      folded c s k0_def]
  show ?thesis
  proof (cases "kex_choice cprop sprop")
    case None
    then have "?spec = None" by (simp add: conf_spec_def)
    moreover have "isl r" using unf choose_kex_eq [where cprop = cprop and sprop = sprop and k = k0] None
      by (auto split: prod.splits sum.splits)
    ultimately show ?thesis by simp
  next
    case (Some a)
    define k1 where "k1 = k0\<lparr>kex_name := Some (ka_name a), kex_type := ka_type a,
        kex_hash_alg := ka_hash_alg a, kex_ec_nid := ka_ec_nid a\<rparr>"
    note unf1 = unf [unfolded choose_kex_eq [where cprop = cprop and sprop = sprop and k = k0, unfolded Some option.case]
        prod.case sum.case, folded k1_def]
    show ?thesis
    proof (cases "hostkey_choice cprop sprop")
      case None
      then have "?spec = None" by (simp add: conf_spec_def split: option.splits)
      moreover have "isl r" using unf1 choose_hostkeyalg_eq [where cprop = cprop and sprop = sprop and k = k1] None
        by (auto split: prod.splits sum.splits)
      ultimately show ?thesis by simp
    next
      case hk: (Some h)
      define k2 where "k2 = k1\<lparr>hostkey_alg := Some h, hostkey_type := sshkey_type_from_name h,
          hostkey_nid := sshkey_ecdsa_nid_from_name h\<rparr>"
      note unf2 = unf1 [unfolded choose_hostkeyalg_eq [where cprop = cprop and sprop = sprop and k = k1, unfolded hk option.case]
          prod.case sum.case, folded k2_def rbind_assoc]
      have srv: "kex_server k2 = kex_server kex" using k0 by (simp add: k2_def k1_def)
      show ?thesis
        using unf2 choose_modes_eq [OF refl, where lib = lib and env = env and cflags = cflags and cprop = cprop
          and sprop = sprop and kex = k2 and peer = peer] k0 Some hk newkeys_need_swap
        unfolding srv
        by (cases "kex_server kex")
          (auto simp: conf_spec_def k2_def k1_def rbind_def split: sum.splits prod.splits)
    qed
  qed
qed

section \<open>Both sides\<close>

text \<open>What the two sides must have in common after negotiation and derivation.\<close>

definition kex_agree :: "('d, 'u) kex \<Rightarrow> ('d, 'u) kex \<Rightarrow> bool" where
  "kex_agree kc ks \<longleftrightarrow>
     kex_name kc = kex_name ks \<and> kex_type kc = kex_type ks \<and> kex_hash_alg kc = kex_hash_alg ks \<and>
     kex_ec_nid kc = kex_ec_nid ks \<and> hostkey_alg kc = hostkey_alg ks \<and> hostkey_type kc = hostkey_type ks \<and>
     kex_newkeys kc MODE_OUT = kex_newkeys ks MODE_IN \<and> kex_newkeys kc MODE_IN = kex_newkeys ks MODE_OUT \<and>
     we_need kc = we_need ks \<and> dh_need kc = dh_need ks"

lemma derive_all_cong:
  assumes "kex_hash_alg k = kex_hash_alg k'" and "we_need k = we_need k'" and "session_id k = session_id k'"
  shows "derive_all lib env k hash sec is = derive_all lib env k' hash sec is"
proof -
  have "derive_key lib env k i (we_need k) hash sec = derive_key lib env k' i (we_need k') hash sec" for i
    unfolding derive_key_def Let_def assms ..
  then show ?thesis by (induction "is") (auto split: sum.splits)
qed

lemma derive_keys_agree:
  assumes "kex_agree kc ks" and "\<not> kex_server kc" and "kex_server ks" and "session_id kc = session_id ks"
    and "kex_derive_keys lib env kc hash sec = (rc, kc')" and "kex_derive_keys lib env ks hash sec = (rs, ks')"
  shows "rc = rs \<and> kex_agree kc' ks'"
proof -
  have "derive_all lib env kc hash sec [0..<NKEYS] = derive_all lib env ks hash sec [0..<NKEYS]"
    using assms(1,4) by (intro derive_all_cong) (auto simp: kex_agree_def)
  then show ?thesis
    using assms by (auto simp: kex_derive_keys_def kex_agree_def split: sum.splits)
qed

text \<open>C2. Client and server come out of the negotiation with the same algorithms and the same keys:
  when each side holds its own proposal and the other's, \<open>kex_choose_conf\<close> succeeds on both sides or
  on neither; when it succeeds they agree on method, hash, host key algorithm, key sizes and, for
  each direction, on cipher, MAC and compression (one side's incoming set is the other's outgoing
  set), the method being the first name of the client's list that the server lists among its first
  \<open>MAX_PROP\<close> names; and \<open>kex_derive_keys\<close> with the same exchange hash, secret and session identifier
  then gives both sides the same six keys.\<close>

theorem kex_sides_agree:
  fixes kc ks kc' ks' kc'' ks'' :: "('d, 'u) kex"
  assumes "\<not> kex_server kc" and "kex_server ks" and "session_id kc = session_id ks"
    and "kex_buf2prop env (kex_my kc) = Inr (f1, cprop)" and "kex_buf2prop env (kex_peer kc) = Inr (f2, sprop)"
    and "kex_buf2prop env (kex_my ks) = Inr (f3, sprop)" and "kex_buf2prop env (kex_peer ks) = Inr (f4, cprop)"
    and "kex_choose_conf lib env cflags kc = (rc, kc')" and "kex_choose_conf lib env cflags ks = (rs, ks')"
    and "kex_derive_keys lib env kc' hash sec = (qc, kc'')" and "kex_derive_keys lib env ks' hash sec = (qs, ks'')"
  shows "isl rc = isl rs \<and>
    (\<not> isl rc \<longrightarrow> kex_agree kc' ks' \<and>
       kex_name kc' = find (\<lambda>p. p \<in> set (take MAX_PROP (names (sprop ! PROPOSAL_KEX_ALGS))))
         (names (cprop ! PROPOSAL_KEX_ALGS)) \<and>
       qc = qs \<and> kex_agree kc'' ks'')"
proof (cases "conf_spec lib env cflags cprop sprop ::
    (kexalg \<times> string \<times> ('d, 'u) newkeys \<times> ('d, 'u) newkeys) option")
  case None
  then show ?thesis
    using kex_choose_conf_spec [OF assms(4,5) _ _ assms(8), of cprop sprop]
      kex_choose_conf_spec [OF assms(6,7) _ _ assms(9), of cprop sprop] assms(1,2) by simp
next
  case (Some p)
  obtain a h ctos stoc where p: "p = (a, h, ctos, stoc)" by (cases p)
  have kc: "\<not> isl rc \<and> kex_name kc' = Some (ka_name a) \<and> kex_type kc' = ka_type a \<and>
      kex_hash_alg kc' = ka_hash_alg a \<and> kex_ec_nid kc' = ka_ec_nid a \<and> hostkey_alg kc' = Some h \<and>
      hostkey_type kc' = sshkey_type_from_name h \<and> kex_newkeys kc' MODE_IN = Some stoc \<and>
      kex_newkeys kc' MODE_OUT = Some ctos \<and> we_need kc' = newkeys_need ctos (newkeys_need stoc 0) \<and>
      dh_need kc' = newkeys_dh_need ctos (newkeys_dh_need stoc 0) \<and> \<not> kex_server kc' \<and>
      session_id kc' = session_id kc"
    using kex_choose_conf_spec [OF assms(4,5) _ _ assms(8), of cprop sprop] assms(1) Some p by simp
  have ks: "\<not> isl rs \<and> kex_name ks' = Some (ka_name a) \<and> kex_type ks' = ka_type a \<and>
      kex_hash_alg ks' = ka_hash_alg a \<and> kex_ec_nid ks' = ka_ec_nid a \<and> hostkey_alg ks' = Some h \<and>
      hostkey_type ks' = sshkey_type_from_name h \<and> kex_newkeys ks' MODE_IN = Some ctos \<and>
      kex_newkeys ks' MODE_OUT = Some stoc \<and> we_need ks' = newkeys_need ctos (newkeys_need stoc 0) \<and>
      dh_need ks' = newkeys_dh_need ctos (newkeys_dh_need stoc 0) \<and> kex_server ks' \<and>
      session_id ks' = session_id ks"
    using kex_choose_conf_spec [OF assms(6,7) _ _ assms(9), of cprop sprop] assms(2) Some p by simp
  have agree: "kex_agree kc' ks'" using kc ks by (simp add: kex_agree_def)
  have "kex_choice cprop sprop = Some a" using Some p by (auto simp: conf_spec_def split: option.splits sum.splits)
  then have "fst (match_list (cprop ! PROPOSAL_KEX_ALGS) (sprop ! PROPOSAL_KEX_ALGS)) = Some (ka_name a)"
    by (auto simp: kex_choice_def split: option.splits dest: kex_alg_by_name_Some)
  then show ?thesis
    using kc ks agree derive_keys_agree [OF agree _ _ _ assms(10,11)] assms(3) by (simp add: match_list_eq)
qed

section \<open>Key derivation as specified\<close>

text \<open>The key stream of RFC 4253, section 7.2: \<open>k1\<close>, then each block the digest of the secret, the
  exchange hash and all blocks before it.\<close>

primrec key_stream :: "(bytes \<Rightarrow> bytes) \<Rightarrow> bytes \<Rightarrow> bytes \<Rightarrow> bytes \<Rightarrow> nat \<Rightarrow> bytes" where
  "key_stream h secret hash k1 0 = k1"
| "key_stream h secret hash k1 (Suc n) =
     (let ks = key_stream h secret hash k1 n in ks @ h (secret @ hash @ ks))"

lemma updates_is:
  assumes ok: "evp_md_ok lib H B absorbed"
  shows "dctx_is absorbed alg x c \<Longrightarrow>
    \<exists>c'. fold (\<lambda>m r. rbind r (\<lambda>_ c. ssh_digest_update lib c m)) ps (Inr (), c) = (Inr (), c') \<and>
      dctx_is absorbed alg (x @ concat ps) c'"
proof (induction ps arbitrary: x c)
  case (Cons p ps)
  obtain c1 where "ssh_digest_update lib c p = (Inr (), c1)" "dctx_is absorbed alg (x @ p) c1"
    using update_is [OF ok Cons.prems] by blast
  then show ?case using Cons.IH [of "x @ p" c1] by simp
qed simp

lemma digest_pieces_eq:
  assumes ok: "evp_md_ok lib H B absorbed" and alg: "0 \<le> alg" "alg < SSH_DIGEST_MAX"
    and mem: "malloc_ok env sizeof_ssh_digest_ctx"
  shows "digest_pieces lib env alg ps (ssh_digest_bytes alg) = Some (H (alg_md alg) (concat ps))"
proof -
  obtain c where c: "ssh_digest_start lib env alg = Some c"
    using digest_by_alg [OF alg] evp_md_okD(1) [OF ok, of "alg_md alg"] mem
    by (auto simp: ssh_digest_start_def alg_md_def split: option.splits)
  obtain c1 where c1: "fold (\<lambda>m r. rbind r (\<lambda>_ c. ssh_digest_update lib c m)) ps (Inr (), c) = (Inr (), c1)"
      "dctx_is absorbed alg (concat ps) c1"
    using updates_is [OF ok start_is [OF ok c], of ps] by auto
  obtain c2 where "ssh_digest_final lib c1 (ssh_digest_bytes alg) = (Inr (H (alg_md alg) (concat ps)), c2)"
    using final_is [OF ok c1(2) alg order.refl] digest_len [OF ok alg] by auto
  then show ?thesis using c c1 by (simp add: digest_pieces_def)
qed

lemma length_key_stream:
  assumes "\<And>x. length (h x) = m" and "length k1 = m"
  shows "length (key_stream h secret hash k1 n) = m * Suc n"
  using assms by (induction n) (simp_all add: Let_def)

lemma derive_loop_eq:
  fixes h :: "bytes \<Rightarrow> bytes"
  assumes dp: "\<And>ps. digest_pieces lib env alg ps (ssh_digest_bytes alg) = Some (h (concat ps))"
    and len: "\<And>x. length (h x) = ssh_digest_bytes alg" "length k1 = ssh_digest_bytes alg"
    and pos: "0 < ssh_digest_bytes alg"
  shows "derive_loop lib env alg secret hash need (ssh_digest_bytes alg * Suc n) (key_stream h secret hash k1 n) =
    Inr (key_stream h secret hash k1 (max n ((need + ssh_digest_bytes alg - 1) div ssh_digest_bytes alg - 1)))"
proof (induction "need - ssh_digest_bytes alg * Suc n" arbitrary: n rule: less_induct)
  case less
  let ?m = "ssh_digest_bytes alg"
  let ?q = "(need + ?m - 1) div ?m"
  show ?case
  proof (cases "need > ?m * Suc n")
    case True
    have "Suc n * ?m \<le> need - 1" using True by (simp add: algebra_simps)
    then have "Suc n * ?m + ?m \<le> need + ?m - 1" using True pos by linarith
    then have "Suc (Suc n) \<le> ?q" using pos by (simp add: less_eq_div_iff_mult_less_eq)
    then have mx: "max n (?q - 1) = max (Suc n) (?q - 1)" by simp
    have lk: "length (key_stream h secret hash k1 n) = ?m * Suc n"
      by (rule length_key_stream) (use len in simp_all)
    have "derive_loop lib env alg secret hash need (?m * Suc n) (key_stream h secret hash k1 n) =
        derive_loop lib env alg secret hash need (?m * Suc (Suc n)) (key_stream h secret hash k1 (Suc n))"
      using True dp lk
      by (subst derive_loop.simps) (simp add: Let_def ac_simps)
    also have "\<dots> = Inr (key_stream h secret hash k1 (max (Suc n) (?q - 1)))"
      using True pos by (intro less) simp
    finally show ?thesis by (simp only: mx)
  next
    case False
    then have "need + ?m - 1 < (Suc (Suc n)) * ?m" using pos by (simp add: algebra_simps)
    then have "?q < Suc (Suc n)" using pos by (simp add: div_less_iff_less_mult)
    then have "max n (?q - 1) = n" by simp
    then show ?thesis using False by (subst derive_loop.simps) simp
  qed
qed

text \<open>C17. \<open>derive_key\<close> computes the key of RFC 4253: the digest of shared secret, exchange hash,
  letter and session identifier, extended block by block, up to the first multiple of the digest
  length that is at least \<open>need\<close>. The bytes fill the buffer of \<open>ROUNDUP(need, mdsz)\<close> bytes exactly,
  so for \<open>need\<close> greater than 0 nothing is written past its end.\<close>

theorem derive_key_rfc4253:
  assumes ok: "evp_md_ok lib H B absorbed"
    and alg: "0 \<le> kex_hash_alg kex" "kex_hash_alg kex < SSH_DIGEST_MAX"
    and mem: "\<And>n. malloc_ok env n" and need: "0 < need" "need < 2 ^ 32"
    and sec: "sshbuf_inv sec"
  shows "\<exists>n. derive_key lib env kex i need hash sec =
      Inr (key_stream (H (alg_md (kex_hash_alg kex))) (sshbuf_bytes sec) hash
        (H (alg_md (kex_hash_alg kex)) (sshbuf_bytes sec @ hash @ of_nat i # blk (session_id kex))) n) \<and>
    ssh_digest_bytes (kex_hash_alg kex) * Suc n = ROUNDUP need (ssh_digest_bytes (kex_hash_alg kex)) \<and>
    need \<le> ROUNDUP need (ssh_digest_bytes (kex_hash_alg kex))"
proof -
  let ?alg = "kex_hash_alg kex"
  let ?m = "ssh_digest_bytes ?alg"
  let ?h = "H (alg_md ?alg)"
  let ?k1 = "?h (sshbuf_bytes sec @ hash @ of_nat i # blk (session_id kex))"
  let ?q = "(need + ?m - 1) div ?m"
  note dp = digest_pieces_eq [OF ok alg mem]
  note dl = digest_len [OF ok alg]
  have pos: "0 < ?m" using digest_pieces_pos [OF dp] .
  have bytes: "take (sshbuf_len sec) (blk (sshbuf_ptr sec)) = sshbuf_bytes sec"
    using sshbuf_ptr_take [OF sec, of "sshbuf_len sec"] sec by (simp add: sshbuf_len_bytes)
  have "derive_loop lib env ?alg (sshbuf_bytes sec) hash need (?m * Suc 0)
      (key_stream ?h (sshbuf_bytes sec) hash ?k1 0) =
      Inr (key_stream ?h (sshbuf_bytes sec) hash ?k1 (max 0 (?q - 1)))"
    by (rule derive_loop_eq [OF dp dl(1) dl(1) pos])
  then have "derive_key lib env kex i need hash sec = Inr (key_stream ?h (sshbuf_bytes sec) hash ?k1 (?q - 1))"
    using pos mem dp by (simp add: derive_key_def bytes Let_def)
  moreover have "ROUNDUP need ?m = ?q * ?m"
    using ROUNDUP_exact [of ?m need] pos dl(4) need(2) by (simp add: SSH_DIGEST_MAX_LENGTH_def)
  moreover have q: "0 < ?q" using pos need(1) by (simp add: div_greater_zero_iff)
  moreover have "need \<le> ?q * ?m"
  proof -
    have "need + ?m - 1 < Suc ?q * ?m" using pos by (simp add: dividend_less_div_times)
    then show ?thesis using pos by simp
  qed
  ultimately show ?thesis by (intro exI [of _ "?q - 1"]) (simp add: mult.commute)
qed

text \<open>The structure of \<open>kex_new\<close> before the proposal is written: zeroed by \<open>calloc\<close>, with two
  fresh buffers.\<close>

definition kex_zeroed :: "sshbuf \<Rightarrow> sshbuf \<Rightarrow> ('d, 'u) kex" where
  "kex_zeroed my peer =
     \<lparr>session_id = None, kex_newkeys = (\<lambda>_. None), we_need = 0, dh_need = 0, kex_server = False,
      kex_name = None, hostkey_alg = None, hostkey_type = KEY_RSA1, hostkey_nid = NID_0,
      kex_type = KEX_DH_GRP1_SHA1, rsa_sha2 = 0, ext_info_c = False, kex_my = my, kex_peer = peer,
      kex_done = False, kex_flags = 0, kex_hash_alg = 0, kex_ec_nid = NID_0, failed_choice = None\<rparr>"

theorem derive_key_rfc4253_witness:
  "\<exists>n. derive_key toy_md plenty (kex_zeroed new_buf new_buf :: (string \<times> bytes, unit) kex) 65 40 [1] new_buf =
      Inr (key_stream (toy_H (alg_md 0)) [] [1] (toy_H (alg_md 0) [1, 65]) n) \<and>
    ssh_digest_bytes 0 * Suc n = ROUNDUP 40 (ssh_digest_bytes 0)"
  using derive_key_rfc4253 [OF toy_md_ok, of "kex_zeroed new_buf new_buf :: (string \<times> bytes, unit) kex"
      plenty 40 new_buf 65 "[1]"]
  by (auto simp: kex_zeroed_def blk_def digest_consts)

definition wit_props :: "string list" where
  "wit_props = [''curve25519-sha256,ecdh-sha2-nistp256'', ''ssh-rsa'', ''aes128-ctr'', ''im-aes128-gcm-1024'',
     ''hmac-sha1'', ''hmac-sha1'', ''none'', ''none,zlib'', [], []]"

definition wit_kex :: "bool \<Rightarrow> (string \<times> bytes, unit) kex" where
  "wit_kex server = (let b = snd (kex_prop2buf plenty new_buf wit_props)
     in (kex_zeroed b b)\<lparr>kex_server := server\<rparr>)"

lemma wit_kex_props:
  "kex_buf2prop plenty (kex_my (wit_kex server)) = Inr (0, wit_props)"
  "kex_buf2prop plenty (kex_peer (wit_kex server)) = Inr (0, wit_props)"
proof -
  have ok: "list_all prop_ok wit_props" "length wit_props = PROPOSAL_MAX"
    by (simp_all add: wit_props_def prop_ok_def PROPOSAL_MAX_def SSHBUF_SIZE_MAX_def)
  have len: "length (kexinit_bytes (replicate KEX_COOKIE_LEN 0) wit_props 0 0) \<le> 300"
    by (simp add: wit_props_def kexinit_bytes_def KEX_COOKIE_LEN_def)
  obtain b where b: "kex_prop2buf plenty new_buf wit_props = (Inr (), b)" "sshbuf_inv b"
      "sshbuf_bytes b = kexinit_bytes (replicate KEX_COOKIE_LEN 0) wit_props 0 0"
    using kex_prop2buf_ok [of plenty new_buf wit_props] ok(1) len by (auto simp: sshbuf_consts)
  have "kex_buf2prop plenty b = Inr (0, wit_props)"
    using kex_buf2prop_ok [of plenty b "replicate KEX_COOKIE_LEN 0" wit_props 0 0 "[]"] b ok by simp
  then show "kex_buf2prop plenty (kex_my (wit_kex server)) = Inr (0, wit_props)"
    "kex_buf2prop plenty (kex_peer (wit_kex server)) = Inr (0, wit_props)"
    by (simp_all add: wit_kex_def kex_zeroed_def b(1))
qed

definition wit_conf :: "bool \<Rightarrow> (ssherr, (string \<times> bytes, unit) kex, bool) outcome" where
  "wit_conf server = kex_choose_conf toy_md plenty 0 (wit_kex server)"

lemma wit_conf_ok: "\<not> isl (fst (wit_conf server))"
proof -
  have "(conf_spec toy_md plenty 0 wit_props wit_props ::
      (kexalg \<times> string \<times> (string \<times> bytes, unit) newkeys \<times> (string \<times> bytes, unit) newkeys) option) \<noteq> None"
    by code_simp
  then obtain a h ctos stoc where "(conf_spec toy_md plenty 0 wit_props wit_props ::
      (kexalg \<times> string \<times> (string \<times> bytes, unit) newkeys \<times> (string \<times> bytes, unit) newkeys) option) = Some (a, h, ctos, stoc)"
    by auto
  then show ?thesis
    using kex_choose_conf_spec [OF wit_kex_props, of wit_props server wit_props toy_md 0
        "fst (wit_conf server)" "snd (wit_conf server)"]
    by (simp add: wit_conf_def)
qed

theorem kex_sides_agree_witness:
  "kex_agree (snd (wit_conf False)) (snd (wit_conf True)) \<and>
   kex_agree (snd (kex_derive_keys toy_md plenty (snd (wit_conf False)) [3] new_buf))
     (snd (kex_derive_keys toy_md plenty (snd (wit_conf True)) [3] new_buf))"
  using kex_sides_agree [of "wit_kex False" "wit_kex True" plenty 0 wit_props 0 wit_props 0 0 toy_md 0
      "fst (wit_conf False)" "snd (wit_conf False)" "fst (wit_conf True)" "snd (wit_conf True)" "[3]" new_buf
      "fst (kex_derive_keys toy_md plenty (snd (wit_conf False)) [3] new_buf)"
      "snd (kex_derive_keys toy_md plenty (snd (wit_conf False)) [3] new_buf)"
      "fst (kex_derive_keys toy_md plenty (snd (wit_conf True)) [3] new_buf)"
      "snd (kex_derive_keys toy_md plenty (snd (wit_conf True)) [3] new_buf)"]
    wit_kex_props wit_conf_ok
  by (simp add: wit_conf_def) (simp add: wit_kex_def kex_zeroed_def Let_def)

section \<open>InterMAC ciphers and Diffie-Hellman\<close>

lemma newkeys_need_ge: "enc_block_size (nk_enc x) \<le> newkeys_need x n" "n \<le> newkeys_need x n"
  by (simp_all add: newkeys_need_def le_max_iff_disj)

lemma choose_enc_ok:
  "choose_enc e cl s = (Inr (), enc) \<Longrightarrow> \<exists>name c. enc_name enc = Some name \<and> cipher_by_name name = Some c \<and>
     enc_cipher enc = Some c \<and> enc_block_size enc = cipher_blocksize c"
  by (auto simp: choose_enc_def split: option.splits)

lemma mode_newkeys_block:
  assumes "mode_newkeys lib env cflags cprop sprop ctos = Inr nk"
  shows "\<exists>name c. enc_name (nk_enc nk) = Some name \<and> cipher_by_name name = Some c \<and>
    enc_cipher (nk_enc nk) = Some c \<and> enc_block_size (nk_enc nk) = cipher_blocksize c"
  using assms unfolding mode_newkeys_def Let_def
  by (auto split: prod.splits sum.splits if_splits(2) simp del: if_split dest!: choose_enc_ok)

lemma choose_conf_props:
  assumes "kex_choose_conf lib env cflags kex = (Inr b, kex')"
  shows "\<exists>f my g peer. kex_buf2prop env (kex_my kex) = Inr (f, my) \<and> kex_buf2prop env (kex_peer kex) = Inr (g, peer)"
  using assms by (auto simp: kex_choose_conf_def split: sum.splits prod.splits)

lemma choose_conf_need:
  fixes kex kex' :: "('d, 'u) kex"
  assumes res: "kex_choose_conf lib env cflags kex = (Inr b, kex')" and nk: "kex_newkeys kex' mode = Some nk"
  shows "cipher_blocksize (the (enc_cipher (nk_enc nk))) \<le> we_need kex'"
proof -
  obtain f my g peer where p: "kex_buf2prop env (kex_my kex) = Inr (f, my)"
      "kex_buf2prop env (kex_peer kex) = Inr (g, peer)" using choose_conf_props [OF res] by blast
  let ?c = "if kex_server kex then peer else my"
  let ?s = "if kex_server kex then my else peer"
  obtain a h ctos stoc where cs: "(conf_spec lib env cflags ?c ?s ::
      (kexalg \<times> string \<times> ('d, 'u) newkeys \<times> ('d, 'u) newkeys) option) = Some (a, h, ctos, stoc)"
    using kex_choose_conf_spec [OF p refl refl res] by (auto split: option.splits)
  then have b: "cipher_blocksize (the (enc_cipher (nk_enc ctos))) = enc_block_size (nk_enc ctos)"
    "cipher_blocksize (the (enc_cipher (nk_enc stoc))) = enc_block_size (nk_enc stoc)"
    by (auto simp: conf_spec_def split: option.splits sum.splits dest!: mode_newkeys_block)
  note spec = kex_choose_conf_spec [OF p refl refl res, unfolded cs option.case prod.case]
  have "nk \<in> {ctos, stoc}"
    using spec nk by (cases mode; cases "kex_server kex") simp_all
  moreover have "we_need kex' = newkeys_need ctos (newkeys_need stoc 0)" using spec by blast
  ultimately show ?thesis
    using b newkeys_need_ge [where x = ctos and n = "newkeys_need stoc 0"]
      newkeys_need_ge [where x = stoc and n = 0] by auto
qed

text \<open>Negotiating an InterMAC cipher breaks Diffie-Hellman over the finite-field groups: the
  entry's block size is the chunk length, which enters the secret size \<open>we_need\<close>, so \<open>dh_gen_key\<close>
  (called with \<open>we_need * 8\<close> bits) refuses every group whose modulus has fewer than 16 times the
  chunk length bits. From chunks of 1024 bytes on this is every group the program can use, also the
  8192-bit group 18.\<close>

theorem intermac_dh_refused:
  assumes "kex_choose_conf lib env cflags kex = (Inr b, kex')" and "kex_newkeys kex' mode = Some nk"
    and "enc_cipher (nk_enc nk) = Some c" and "is_intermac c" and "dh_p dh = Some p"
    and "BN_num_bits p < 16 * int (ci_block_size c)"
  shows "dh_gen_key gen mem dh (8 * int (we_need kex')) = (Inl SSH_ERR_INVALID_ARGUMENT, dh)"
proof -
  have "ci_block_size c \<le> we_need kex'"
    using choose_conf_need [OF assms(1,2)] assms(3) by (simp add: cipher_blocksize_def)
  then show ?thesis using assms(5,6) by (simp add: dh_gen_key_def Let_def)
qed

theorem intermac_dh_refused_witness:
  "\<exists>d. dh_new_group18 True = Some d \<and>
     dh_gen_key (\<lambda>_. Some 2) True d (8 * int (we_need (snd (wit_conf False)))) = (Inl SSH_ERR_INVALID_ARGUMENT, d)"
proof -
  obtain d where d: "dh_new_group18 True = Some d" by (simp add: dh_new_group18_def dh_new_group_asc_def)
  then obtain p where p: "dh_p d = Some p" "BN_num_bits p = 8192" using group18_bits by blast
  have fst_wit: "\<exists>b. fst (wit_conf False) = Inr b" using wit_conf_ok [of False] by (cases "fst (wit_conf False)") auto
  then obtain b where b: "kex_choose_conf toy_md plenty 0 (wit_kex False) = (Inr b, snd (wit_conf False))"
    unfolding wit_conf_def by (metis prod.collapse)
  obtain a h ctos stoc where cs: "(conf_spec toy_md plenty 0 wit_props wit_props ::
      (kexalg \<times> string \<times> (string \<times> bytes, unit) newkeys \<times> (string \<times> bytes, unit) newkeys) option) = Some (a, h, ctos, stoc)"
    using kex_choose_conf_spec [OF wit_kex_props refl refl b] by (auto simp: wit_kex_def Let_def split: option.splits)
  have "(case (conf_spec toy_md plenty 0 wit_props wit_props ::
      (kexalg \<times> string \<times> (string \<times> bytes, unit) newkeys \<times> (string \<times> bytes, unit) newkeys) option) of
      None \<Rightarrow> None | Some (_, _, _, n) \<Rightarrow> enc_name (nk_enc n)) = Some ''im-aes128-gcm-1024''"
    by code_simp
  then have "enc_name (nk_enc stoc) = Some ''im-aes128-gcm-1024''" using cs by simp
  moreover have "mode_newkeys toy_md plenty 0 wit_props wit_props False = Inr stoc"
    using cs by (auto simp: conf_spec_def split: option.splits sum.splits)
  ultimately obtain c where c: "cipher_by_name ''im-aes128-gcm-1024'' = Some c" "enc_cipher (nk_enc stoc) = Some c"
    using mode_newkeys_block by force
  then have "is_intermac c" "ci_block_size c = 1024" by (auto simp: cipher_by_name_def table_simps)
  moreover have "kex_newkeys (snd (wit_conf False)) MODE_IN = Some stoc"
    using kex_choose_conf_spec [OF wit_kex_props refl refl b] cs by (simp add: wit_kex_def Let_def kex_zeroed_def)
  ultimately show ?thesis using intermac_dh_refused [OF b _ c(2) _ p(1)] p(2) d by fastforce
qed

end
