(* ===== verification/Packet_State.thy ===== *)
theory Packet_State
  imports Kex
begin

text \<open>
  The state of the packet layer (\<open>packet.c\<close>): \<open>struct session_state\<close> and the members of
  \<open>struct ssh\<close> that the layer uses in one record, the session settings, the compression streams,
  the installation of new keys and the decision to exchange keys again. Protocol 1 is not built,
  so \<open>compat20\<close> holds throughout.

  The libraries are parameters: OpenSSL and InterMAC (\<open>crypto\<close>, \<open>evp_md\<close>), UMAC, zlib, the random
  numbers, the clock and the fuzzing hook. \<open>shl_undefined\<close> is the value of a 64-bit shift whose count is
  not in the range for which C defines it, and \<open>write_wait\<close> is the loop of \<open>select\<close> and \<open>write\<close>
  calls in \<open>ssh_packet_write_wait\<close>, seen as its effect on the output buffer.
\<close>

section \<open>The libraries\<close>

datatype zstatus = Z_OK | Z_BUF_ERROR | Z_DATA_ERROR | Z_MEM_ERROR | Z_STREAM_ERROR | Z_OTHER

text \<open>
  A call of \<open>deflate\<close> or \<open>inflate\<close> gets the stream, the input \<open>next_in\<close> and the space \<open>avail_out\<close>; it
  returns its status, what it wrote to \<open>next_out\<close>, the input it left and the stream.
\<close>

record 'z zlib =
  z_zeroed :: 'z
  deflateInit :: "'z \<Rightarrow> int \<Rightarrow> zstatus \<times> 'z"
  inflateInit :: "'z \<Rightarrow> zstatus \<times> 'z"
  deflate :: "'z \<Rightarrow> bytes \<Rightarrow> nat \<Rightarrow> zstatus \<times> bytes \<times> bytes \<times> 'z"
  inflate :: "'z \<Rightarrow> bytes \<Rightarrow> nat \<Rightarrow> zstatus \<times> bytes \<times> bytes \<times> 'z"

record ('e, 'i, 'd, 'u, 'z) pkt_env =
  e_crypto :: "('e, 'i) crypto"
  e_md :: "'d evp_md"
  e_umac :: "'u umac_lib"
  e_zlib :: "'z zlib"
  e_alloc :: alloc_env
  e_um :: bytes
  arc4random_byte :: "nat \<Rightarrow> nat \<Rightarrow> byte"
  monotime :: int
  shl_undefined :: "int \<Rightarrow> u64"
  write_wait :: "sshbuf \<Rightarrow> (ssherr, sshbuf, unit) outcome"
  hook_in :: "(sshbuf \<Rightarrow> byte \<Rightarrow> (ssherr, sshbuf, byte) outcome) option"

section \<open>The state\<close>

record packet_state =
  ps_seqnr :: u32
  ps_packets :: u32
  ps_blocks :: u64
  ps_bytes :: u64

text \<open>
  \<open>packet_discard_mac\<close> is a pointer that is null or points to the MAC of \<open>newkeys[MODE_IN]\<close>; it is kept
  as a flag. \<open>rng\<close> counts the calls of \<open>arc4random_buf\<close>.
\<close>

record ('e, 'i, 'd, 'u, 'z) session_state =
  connection_in :: int
  connection_out :: int
  remote_protocol_flags :: u32
  receive_context :: "('e, 'i) sshcipher_ctx option"
  send_context :: "('e, 'i) sshcipher_ctx option"
  input_buf :: sshbuf
  output_buf :: sshbuf
  outgoing_packet :: sshbuf
  incoming_packet :: sshbuf
  compression_buffer :: "sshbuf option"
  compression_in_stream :: 'z
  compression_out_stream :: 'z
  compression_in_started :: bool
  compression_out_started :: bool
  compression_in_failures :: int
  compression_out_failures :: int
  packet_compression :: bool
  max_packet_size :: u32
  initialized :: bool
  interactive_mode :: bool
  server_side :: bool
  after_authentication :: bool
  keep_alive_timeouts :: int
  packet_timeout_ms :: int
  newkeys :: "kex_mode \<Rightarrow> ('d, 'u) newkeys option"
  p_read :: packet_state
  p_send :: packet_state
  max_blocks_in :: u64
  max_blocks_out :: u64
  rekey_limit :: u64
  rekey_interval :: u32
  rekey_time :: int
  extra_pad :: byte
  packet_discard :: u32
  packet_discard_mac_already :: nat
  packet_discard_mac :: bool
  packlen :: u32
  rekeying :: bool
  mux :: bool
  set_maxsize_called :: bool
  cipher_warning_done :: bool
  outgoing :: "(byte \<times> sshbuf) list"
  sent_raw :: nat
  sent_encrypted :: nat
  receive_raw :: nat
  receive_encrypted :: nat
  channel_data_started :: bool
  eof_seen :: bool

text \<open>
  The handlers that the transport puts in the dispatch table; \<open>H_client\<close> stands for the handlers that
  other parts of the program install.
\<close>

datatype handler = H_dispatch_protocol_error | H_dispatch_protocol_ignore | H_kex_protocol_error
  | H_kex_input_kexinit | H_kex_input_newkeys | H_kex_input_ext_info | H_client nat

record ('e, 'i, 'd, 'u, 'z) ssh = "('e, 'i, 'd, 'u, 'z) session_state" +
  ssh_kex :: "('d, 'u) kex option"
  ssh_compat :: u32
  dispatch :: "nat \<Rightarrow> handler option"
  dispatch_skip_packets :: int
  rng :: nat

type_synonym ('e, 'i, 'd, 'u, 'z, 'a) pkt_result =
  "(ssherr, ('e, 'i, 'd, 'u, 'z) ssh, 'a) outcome"

text \<open>An operation on a part of the state.\<close>

definition zoom ::
  "('s \<Rightarrow> 'b) \<Rightarrow> (('b \<Rightarrow> 'b) \<Rightarrow> 's \<Rightarrow> 's) \<Rightarrow> ('b \<Rightarrow> ('x, 'b, 'a) outcome) \<Rightarrow> 's \<Rightarrow> ('x, 's, 'a) outcome" where
  "zoom get upd f s = (case f (get s) of (r, b) \<Rightarrow> (r, upd (\<lambda>_. b) s))"

definition buf_bytes :: "sshbuf \<Rightarrow> bytes" where
  "buf_bytes b = take (sshbuf_len b) (blk (sshbuf_ptr b))"

definition SSH_MSG_NONE :: byte where "SSH_MSG_NONE = 0"
definition SSH2_MSG_TRANSPORT_MIN :: byte where "SSH2_MSG_TRANSPORT_MIN = 1"
definition SSH2_MSG_TRANSPORT_MAX :: byte where "SSH2_MSG_TRANSPORT_MAX = 49"
definition SSH2_MSG_CONNECTION_MIN :: byte where "SSH2_MSG_CONNECTION_MIN = 80"
definition SSH2_MSG_CONNECTION_MAX :: byte where "SSH2_MSG_CONNECTION_MAX = 127"
definition SSH2_MSG_LOCAL_MIN :: byte where "SSH2_MSG_LOCAL_MIN = 192"
definition SSH2_MSG_MIN :: byte where "SSH2_MSG_MIN = 1"
definition SSH2_MSG_DISCONNECT :: byte where "SSH2_MSG_DISCONNECT = 1"
definition SSH2_MSG_IGNORE :: byte where "SSH2_MSG_IGNORE = 2"
definition SSH2_MSG_UNIMPLEMENTED :: byte where "SSH2_MSG_UNIMPLEMENTED = 3"
definition SSH2_MSG_DEBUG :: byte where "SSH2_MSG_DEBUG = 4"
definition SSH2_MSG_SERVICE_REQUEST :: byte where "SSH2_MSG_SERVICE_REQUEST = 5"
definition SSH2_MSG_SERVICE_ACCEPT :: byte where "SSH2_MSG_SERVICE_ACCEPT = 6"
definition SSH2_MSG_EXT_INFO :: byte where "SSH2_MSG_EXT_INFO = 7"
definition SSH2_MSG_KEXINIT :: byte where "SSH2_MSG_KEXINIT = 20"
definition SSH2_MSG_NEWKEYS :: byte where "SSH2_MSG_NEWKEYS = 21"
definition SSH2_MSG_USERAUTH_SUCCESS :: byte where "SSH2_MSG_USERAUTH_SUCCESS = 52"
definition SSH2_MSG_CHANNEL_WINDOW_ADJUST :: byte where "SSH2_MSG_CHANNEL_WINDOW_ADJUST = 93"
definition SSH2_MSG_CHANNEL_DATA :: byte where "SSH2_MSG_CHANNEL_DATA = 94"
definition SSH2_MSG_CHANNEL_EXTENDED_DATA :: byte where "SSH2_MSG_CHANNEL_EXTENDED_DATA = 95"
definition SSH2_MSG_CHANNEL_EOF :: byte where "SSH2_MSG_CHANNEL_EOF = 96"
definition SSH2_MSG_CHANNEL_REQUEST :: byte where "SSH2_MSG_CHANNEL_REQUEST = 98"
definition SSH2_MSG_CHANNEL_SUCCESS :: byte where "SSH2_MSG_CHANNEL_SUCCESS = 99"
definition SSH2_DISCONNECT_PROTOCOL_ERROR :: u32 where "SSH2_DISCONNECT_PROTOCOL_ERROR = 2"
definition PACKET_MAX_SIZE :: nat where "PACKET_MAX_SIZE = 256 * 1024"
definition MAX_PACKETS :: u32 where "MAX_PACKETS = push_bit 31 1"
definition SSH_BUG_NOREKEY :: u32 where "SSH_BUG_NOREKEY = 0x00008000"
definition INT_MAX :: int where "INT_MAX = 2147483647"

lemmas msg_consts = SSH_MSG_NONE_def SSH2_MSG_TRANSPORT_MIN_def SSH2_MSG_TRANSPORT_MAX_def
  SSH2_MSG_CONNECTION_MIN_def SSH2_MSG_CONNECTION_MAX_def SSH2_MSG_LOCAL_MIN_def SSH2_MSG_MIN_def
  SSH2_MSG_DISCONNECT_def SSH2_MSG_IGNORE_def SSH2_MSG_UNIMPLEMENTED_def SSH2_MSG_DEBUG_def
  SSH2_MSG_SERVICE_REQUEST_def SSH2_MSG_SERVICE_ACCEPT_def SSH2_MSG_EXT_INFO_def
  SSH2_MSG_KEXINIT_def SSH2_MSG_NEWKEYS_def SSH2_MSG_USERAUTH_SUCCESS_def
  SSH2_MSG_CHANNEL_WINDOW_ADJUST_def SSH2_MSG_CHANNEL_DATA_def SSH2_MSG_CHANNEL_EXTENDED_DATA_def
  SSH2_MSG_CHANNEL_EOF_def SSH2_MSG_CHANNEL_REQUEST_def SSH2_MSG_CHANNEL_SUCCESS_def

section \<open>Creation and settings\<close>

definition packet_state_zeroed :: packet_state where
  "packet_state_zeroed = \<lparr>ps_seqnr = 0, ps_packets = 0, ps_blocks = 0, ps_bytes = 0\<rparr>"

definition sizeof_ssh :: nat where "sizeof_ssh = 2152"

definition ssh_alloc_session_state ::
  "('e, 'i, 'd, 'u, 'z) pkt_env \<Rightarrow> ('e, 'i, 'd, 'u, 'z) ssh option" where
  "ssh_alloc_session_state env =
     (if \<not> malloc_ok (e_alloc env) sizeof_ssh then None
      else (case sshbuf_new (e_alloc env) of
         None \<Rightarrow> None
       | Some b \<Rightarrow> Some
          \<lparr>connection_in = - 1, connection_out = - 1, remote_protocol_flags = 0,
           receive_context = None, send_context = None, input_buf = b, output_buf = b,
           outgoing_packet = b, incoming_packet = b, compression_buffer = None,
           compression_in_stream = z_zeroed (e_zlib env),
           compression_out_stream = z_zeroed (e_zlib env),
           compression_in_started = False, compression_out_started = False,
           compression_in_failures = 0, compression_out_failures = 0,
           packet_compression = False, max_packet_size = 32768, initialized = True,
           interactive_mode = False, server_side = False, after_authentication = False,
           keep_alive_timeouts = 0, packet_timeout_ms = - 1, newkeys = (\<lambda>_. None),
           p_read = packet_state_zeroed, p_send = packet_state_zeroed, max_blocks_in = 0,
           max_blocks_out = 0, rekey_limit = 0, rekey_interval = 0, rekey_time = 0, extra_pad = 0,
           packet_discard = 0, packet_discard_mac_already = 0, packet_discard_mac = False,
           packlen = 0, rekeying = True, mux = False, set_maxsize_called = False,
           cipher_warning_done = False, outgoing = [], sent_raw = 0, sent_encrypted = 0,
           receive_raw = 0, receive_encrypted = 0, channel_data_started = False,
           eof_seen = False, ssh_kex = None, ssh_compat = 0, dispatch = (\<lambda>_. None),
           dispatch_skip_packets = 0, rng = 0\<rparr>))"

definition ssh_packet_is_rekeying :: "('e, 'i, 'd, 'u, 'z) ssh \<Rightarrow> bool" where
  "ssh_packet_is_rekeying s \<longleftrightarrow>
     rekeying s \<or> (case ssh_kex s of None \<Rightarrow> False | Some k \<Rightarrow> \<not> kex_done k)"

definition ssh_packet_set_connection ::
  "('e, 'i, 'd, 'u, 'z) pkt_env \<Rightarrow> ('e, 'i, 'd, 'u, 'z) ssh option \<Rightarrow> int \<Rightarrow> int \<Rightarrow>
     ('e, 'i, 'd, 'u, 'z) ssh option" where
  "ssh_packet_set_connection env s0 fd_in fd_out =
     (case cipher_by_name ''none'' of
        None \<Rightarrow> None
      | Some none \<Rightarrow>
     (case (case s0 of None \<Rightarrow> ssh_alloc_session_state env | Some s \<Rightarrow> Some s) of
        None \<Rightarrow> None
      | Some s \<Rightarrow>
     (case (cipher_init (e_crypto env) (e_alloc env) none [] None True,
            cipher_init (e_crypto env) (e_alloc env) none [] None False) of
        (Inr cs, Inr cr) \<Rightarrow>
          Some (s\<lparr>connection_in := fd_in, connection_out := fd_out, send_context := Some cs,
                  receive_context := Some cr, newkeys := (\<lambda>_. None)\<rparr>)
      | _ \<Rightarrow> None)))"

definition ssh_packet_set_timeout ::
  "('e, 'i, 'd, 'u, 'z) ssh \<Rightarrow> int \<Rightarrow> int \<Rightarrow> ('e, 'i, 'd, 'u, 'z) ssh" where
  "ssh_packet_set_timeout s timeout count =
     (if timeout \<le> 0 \<or> count \<le> 0 then s\<lparr>packet_timeout_ms := - 1\<rparr>
      else if (INT_MAX div 1000) div count < timeout then s\<lparr>packet_timeout_ms := INT_MAX\<rparr>
      else s\<lparr>packet_timeout_ms := timeout * count * 1000\<rparr>)"

definition ssh_packet_set_mux :: "('e, 'i, 'd, 'u, 'z) ssh \<Rightarrow> ('e, 'i, 'd, 'u, 'z) ssh" where
  "ssh_packet_set_mux s = s\<lparr>mux := True, rekeying := False\<rparr>"

definition ssh_packet_get_mux :: "('e, 'i, 'd, 'u, 'z) ssh \<Rightarrow> bool" where
  "ssh_packet_get_mux s = mux s"

definition ssh_packet_get_bytes :: "('e, 'i, 'd, 'u, 'z) ssh \<Rightarrow> u64 \<times> u64" where
  "ssh_packet_get_bytes s = (ps_bytes (p_read s), ps_bytes (p_send s))"

definition ssh_packet_set_protocol_flags ::
  "('e, 'i, 'd, 'u, 'z) ssh \<Rightarrow> u32 \<Rightarrow> ('e, 'i, 'd, 'u, 'z) ssh" where
  "ssh_packet_set_protocol_flags s flags = s\<lparr>remote_protocol_flags := flags\<rparr>"

definition ssh_packet_get_protocol_flags :: "('e, 'i, 'd, 'u, 'z) ssh \<Rightarrow> u32" where
  "ssh_packet_get_protocol_flags s = remote_protocol_flags s"

definition ssh_packet_set_maxsize ::
  "('e, 'i, 'd, 'u, 'z) ssh \<Rightarrow> u32 \<Rightarrow> int \<times> ('e, 'i, 'd, 'u, 'z) ssh" where
  "ssh_packet_set_maxsize s n =
     (if set_maxsize_called s then (- 1, s)
      else if n < 4 * 1024 \<or> n > 1024 * 1024 then (- 1, s)
      else (sint n, s\<lparr>set_maxsize_called := True, max_packet_size := n\<rparr>))"

definition ssh_packet_get_maxsize :: "('e, 'i, 'd, 'u, 'z) ssh \<Rightarrow> u32" where
  "ssh_packet_get_maxsize s = max_packet_size s"

definition ssh_packet_inc_alive_timeouts ::
  "('e, 'i, 'd, 'u, 'z) ssh \<Rightarrow> int \<times> ('e, 'i, 'd, 'u, 'z) ssh" where
  "ssh_packet_inc_alive_timeouts s =
     (let n = keep_alive_timeouts s + 1 in (n, s\<lparr>keep_alive_timeouts := n\<rparr>))"

definition ssh_packet_set_alive_timeouts ::
  "('e, 'i, 'd, 'u, 'z) ssh \<Rightarrow> int \<Rightarrow> ('e, 'i, 'd, 'u, 'z) ssh" where
  "ssh_packet_set_alive_timeouts s ka = s\<lparr>keep_alive_timeouts := ka\<rparr>"

definition ssh_packet_set_rekey_limits ::
  "('e, 'i, 'd, 'u, 'z) ssh \<Rightarrow> u64 \<Rightarrow> u32 \<Rightarrow> ('e, 'i, 'd, 'u, 'z) ssh" where
  "ssh_packet_set_rekey_limits s n seconds = s\<lparr>rekey_limit := n, rekey_interval := seconds\<rparr>"

definition ssh_packet_get_rekey_timeout ::
  "('e, 'i, 'd, 'u, 'z) pkt_env \<Rightarrow> ('e, 'i, 'd, 'u, 'z) ssh \<Rightarrow> int" where
  "ssh_packet_get_rekey_timeout env s =
     (let seconds = rekey_time s + uint (rekey_interval s) - monotime env
      in if seconds \<le> 0 then 1 else seconds)"

definition ssh_packet_set_server :: "('e, 'i, 'd, 'u, 'z) ssh \<Rightarrow> ('e, 'i, 'd, 'u, 'z) ssh" where
  "ssh_packet_set_server s = s\<lparr>server_side := True\<rparr>"

definition ssh_packet_set_authenticated ::
  "('e, 'i, 'd, 'u, 'z) ssh \<Rightarrow> ('e, 'i, 'd, 'u, 'z) ssh" where
  "ssh_packet_set_authenticated s = s\<lparr>after_authentication := True\<rparr>"

definition ssh_packet_remaining :: "('e, 'i, 'd, 'u, 'z) ssh \<Rightarrow> nat" where
  "ssh_packet_remaining s = sshbuf_len (incoming_packet s)"

definition ssh_packet_have_data_to_write :: "('e, 'i, 'd, 'u, 'z) ssh \<Rightarrow> bool" where
  "ssh_packet_have_data_to_write s \<longleftrightarrow> sshbuf_len (output_buf s) \<noteq> 0"

definition ssh_packet_not_very_much_data_to_write :: "('e, 'i, 'd, 'u, 'z) ssh \<Rightarrow> bool" where
  "ssh_packet_not_very_much_data_to_write s \<longleftrightarrow>
     (if interactive_mode s then sshbuf_len (output_buf s) < 16384 else sshbuf_len (output_buf s) < 128 * 1024)"

definition ssh_packet_is_interactive :: "('e, 'i, 'd, 'u, 'z) ssh \<Rightarrow> bool" where
  "ssh_packet_is_interactive s = interactive_mode s"

definition sshpkt_add_padding :: "('e, 'i, 'd, 'u, 'z) ssh \<Rightarrow> byte \<Rightarrow> ('e, 'i, 'd, 'u, 'z) ssh" where
  "sshpkt_add_padding s pad = s\<lparr>extra_pad := pad\<rparr>"

text \<open>
  \<open>ssh_packet_write_poll\<close> with the answer of the \<open>write\<close> call it makes: bytes written, a
  transient error, or another error.
\<close>

datatype write_result = Wrote nat | Write_again | Write_error

definition ssh_packet_write_poll ::
  "write_result \<Rightarrow> ('e, 'i, 'd, 'u, 'z) ssh \<Rightarrow> ('e, 'i, 'd, 'u, 'z, unit) pkt_result" where
  "ssh_packet_write_poll w s =
     (if sshbuf_len (output_buf s) > 0
      then (case w of
              Write_again \<Rightarrow> (Inr (), s)
            | Write_error \<Rightarrow> (Inl SSH_ERR_SYSTEM_ERROR, s)
            | Wrote n \<Rightarrow> if n = 0 then (Inl SSH_ERR_CONN_CLOSED, s)
                         else zoom output_buf output_buf_update (\<lambda>b. sshbuf_consume b n) s)
      else (Inr (), s))"

section \<open>Compression\<close>

definition ssh_packet_init_compression ::
  "('e, 'i, 'd, 'u, 'z) pkt_env \<Rightarrow> ('e, 'i, 'd, 'u, 'z) ssh \<Rightarrow> ('e, 'i, 'd, 'u, 'z, unit) pkt_result" where
  "ssh_packet_init_compression env s =
     (case compression_buffer s of
        Some _ \<Rightarrow> (Inr (), s)
      | None \<Rightarrow> (case sshbuf_new (e_alloc env) of
                  None \<Rightarrow> (Inl SSH_ERR_ALLOC_FAIL, s)
                | Some b \<Rightarrow> (Inr (), s\<lparr>compression_buffer := Some b\<rparr>)))"

definition start_compression_out ::
  "('e, 'i, 'd, 'u, 'z) pkt_env \<Rightarrow> ('e, 'i, 'd, 'u, 'z) ssh \<Rightarrow> int \<Rightarrow> ('e, 'i, 'd, 'u, 'z, unit) pkt_result" where
  "start_compression_out env s level =
     (if level < 1 \<or> level > 9 then (Inl SSH_ERR_INVALID_ARGUMENT, s)
      else case deflateInit (e_zlib env) (compression_out_stream s) level of
        (st, z) \<Rightarrow>
          let s = s\<lparr>compression_out_stream := z\<rparr> in
          (case st of
             Z_OK \<Rightarrow> (Inr (), s\<lparr>compression_out_started := True\<rparr>)
           | Z_MEM_ERROR \<Rightarrow> (Inl SSH_ERR_ALLOC_FAIL, s)
           | _ \<Rightarrow> (Inl SSH_ERR_INTERNAL_ERROR, s)))"

definition start_compression_in ::
  "('e, 'i, 'd, 'u, 'z) pkt_env \<Rightarrow> ('e, 'i, 'd, 'u, 'z) ssh \<Rightarrow> ('e, 'i, 'd, 'u, 'z, unit) pkt_result" where
  "start_compression_in env s =
     (case inflateInit (e_zlib env) (compression_in_stream s) of
        (st, z) \<Rightarrow>
          let s = s\<lparr>compression_in_stream := z\<rparr> in
          (case st of
             Z_OK \<Rightarrow> (Inr (), s\<lparr>compression_in_started := True\<rparr>)
           | Z_MEM_ERROR \<Rightarrow> (Inl SSH_ERR_ALLOC_FAIL, s)
           | _ \<Rightarrow> (Inl SSH_ERR_INTERNAL_ERROR, s)))"

definition ssh_packet_start_compression ::
  "('e, 'i, 'd, 'u, 'z) pkt_env \<Rightarrow> ('e, 'i, 'd, 'u, 'z) ssh \<Rightarrow> int \<Rightarrow> ('e, 'i, 'd, 'u, 'z, unit) pkt_result" where
  "ssh_packet_start_compression env s level =
     rbind (ssh_packet_init_compression env (s\<lparr>packet_compression := True\<rparr>)) (\<lambda>_ s.
     rbind (start_compression_in env s) (\<lambda>_ s.
     start_compression_out env s level))"

text \<open>
  The loops over the 4096-byte output array. Every pass of the first loop that goes on adds 4096
  bytes to a buffer of bounded size, and every successful call of \<open>inflate\<close> makes progress, so
  the number of passes is bounded by \<open>zfuel\<close>.
\<close>

definition zfuel :: "bytes \<Rightarrow> nat" where
  "zfuel inp = length inp + SSHBUF_SIZE_MAX + 1"

text \<open>The result: the outcome, the stream, and whether a failure is to be counted.\<close>

primrec compress_loop ::
  "'z zlib \<Rightarrow> alloc_env \<Rightarrow> nat \<Rightarrow> 'z \<Rightarrow> bytes \<Rightarrow> sshbuf \<Rightarrow> (ssherr, sshbuf, unit) outcome \<times> 'z \<times> bool" where
  "compress_loop lib al 0 z inp out = ((Inl SSH_ERR_INTERNAL_ERROR, out), z, False)"
| "compress_loop lib al (Suc n) z inp out =
     (case deflate lib z inp 4096 of
        (Z_OK, buf, inp', z') \<Rightarrow>
          (case sshbuf_put al out buf of
             (Inl r, out') \<Rightarrow> ((Inl r, out'), z', False)
           | (Inr _, out') \<Rightarrow>
               if length buf = 4096 then compress_loop lib al n z' inp' out'
               else ((Inr (), out'), z', False))
      | (Z_MEM_ERROR, _, _, z') \<Rightarrow> ((Inl SSH_ERR_ALLOC_FAIL, out), z', False)
      | (_, _, _, z') \<Rightarrow> ((Inl SSH_ERR_INVALID_FORMAT, out), z', True))"

primrec uncompress_loop ::
  "'z zlib \<Rightarrow> alloc_env \<Rightarrow> nat \<Rightarrow> 'z \<Rightarrow> bytes \<Rightarrow> sshbuf \<Rightarrow> (ssherr, sshbuf, unit) outcome \<times> 'z \<times> bool" where
  "uncompress_loop lib al 0 z inp out = ((Inl SSH_ERR_INTERNAL_ERROR, out), z, False)"
| "uncompress_loop lib al (Suc n) z inp out =
     (case inflate lib z inp 4096 of
        (Z_OK, buf, inp', z') \<Rightarrow>
          (case sshbuf_put al out buf of
             (Inl r, out') \<Rightarrow> ((Inl r, out'), z', False)
           | (Inr _, out') \<Rightarrow> uncompress_loop lib al n z' inp' out')
      | (Z_BUF_ERROR, _, _, z') \<Rightarrow> ((Inr (), out), z', False)
      | (Z_DATA_ERROR, _, _, z') \<Rightarrow> ((Inl SSH_ERR_INVALID_FORMAT, out), z', False)
      | (Z_MEM_ERROR, _, _, z') \<Rightarrow> ((Inl SSH_ERR_ALLOC_FAIL, out), z', False)
      | (_, _, _, z') \<Rightarrow> ((Inl SSH_ERR_INTERNAL_ERROR, out), z', True))"

text \<open>Both functions write to \<open>compression_buffer\<close>, which exists when they are called.\<close>

definition compress_buffer ::
  "('e, 'i, 'd, 'u, 'z) pkt_env \<Rightarrow> ('e, 'i, 'd, 'u, 'z) ssh \<Rightarrow> sshbuf \<Rightarrow> ('e, 'i, 'd, 'u, 'z, unit) pkt_result" where
  "compress_buffer env s inb =
     (if \<not> compression_out_started s then (Inl SSH_ERR_INTERNAL_ERROR, s)
      else if sshbuf_len inb = 0 then (Inr (), s)
      else (case sshbuf_mutable_ptr inb of
         None \<Rightarrow> (Inl SSH_ERR_INTERNAL_ERROR, s)
       | Some p \<Rightarrow>
           let inp = take (sshbuf_len inb) p in
           (case compress_loop (e_zlib env) (e_alloc env) (zfuel inp) (compression_out_stream s) inp
                   (the (compression_buffer s)) of
              ((r, out), z, failed) \<Rightarrow>
                (r, s\<lparr>compression_out_stream := z, compression_buffer := Some out,
                      compression_out_failures :=
                        compression_out_failures s + (if failed then 1 else 0)\<rparr>))))"

definition uncompress_buffer ::
  "('e, 'i, 'd, 'u, 'z) pkt_env \<Rightarrow> ('e, 'i, 'd, 'u, 'z) ssh \<Rightarrow> sshbuf \<Rightarrow> ('e, 'i, 'd, 'u, 'z, unit) pkt_result" where
  "uncompress_buffer env s inb =
     (if \<not> compression_in_started s then (Inl SSH_ERR_INTERNAL_ERROR, s)
      else (case sshbuf_mutable_ptr inb of
         None \<Rightarrow> (Inl SSH_ERR_INTERNAL_ERROR, s)
       | Some p \<Rightarrow>
           let inp = take (sshbuf_len inb) p in
           (case uncompress_loop (e_zlib env) (e_alloc env) (zfuel inp) (compression_in_stream s) inp
                   (the (compression_buffer s)) of
              ((r, out), z, failed) \<Rightarrow>
                (r, s\<lparr>compression_in_stream := z, compression_buffer := Some out,
                      compression_in_failures :=
                        compression_in_failures s + (if failed then 1 else 0)\<rparr>))))"

section \<open>New keys\<close>

definition c_shl :: "('e, 'i, 'd, 'u, 'z) pkt_env \<Rightarrow> int \<Rightarrow> u64" where
  "c_shl env n = (if 0 \<le> n \<and> n < 64 then push_bit (nat n) 1 else shl_undefined env n)"

definition cipher_ctx :: "kex_mode \<Rightarrow> ('e, 'i, 'd, 'u, 'z) ssh \<Rightarrow> ('e, 'i) sshcipher_ctx option" where
  "cipher_ctx mode s = (case mode of MODE_OUT \<Rightarrow> send_context s | MODE_IN \<Rightarrow> receive_context s)"

definition set_cipher_ctx ::
  "kex_mode \<Rightarrow> ('e, 'i) sshcipher_ctx option \<Rightarrow> ('e, 'i, 'd, 'u, 'z) ssh \<Rightarrow> ('e, 'i, 'd, 'u, 'z) ssh" where
  "set_cipher_ctx mode c s =
     (case mode of MODE_OUT \<Rightarrow> s\<lparr>send_context := c\<rparr> | MODE_IN \<Rightarrow> s\<lparr>receive_context := c\<rparr>)"

definition reset_counters :: "kex_mode \<Rightarrow> ('e, 'i, 'd, 'u, 'z) ssh \<Rightarrow> ('e, 'i, 'd, 'u, 'z) ssh" where
  "reset_counters mode s =
     (case mode of
        MODE_OUT \<Rightarrow> s\<lparr>p_send := (p_send s)\<lparr>ps_packets := 0, ps_blocks := 0\<rparr>\<rparr>
      | MODE_IN \<Rightarrow> s\<lparr>p_read := (p_read s)\<lparr>ps_packets := 0, ps_blocks := 0\<rparr>\<rparr>)"

definition set_max_blocks ::
  "kex_mode \<Rightarrow> u64 \<Rightarrow> ('e, 'i, 'd, 'u, 'z) ssh \<Rightarrow> ('e, 'i, 'd, 'u, 'z) ssh" where
  "set_max_blocks mode n s =
     (case mode of MODE_OUT \<Rightarrow> s\<lparr>max_blocks_out := n\<rparr> | MODE_IN \<Rightarrow> s\<lparr>max_blocks_in := n\<rparr>)"

definition set_newkey ::
  "kex_mode \<Rightarrow> ('d, 'u) newkeys option \<Rightarrow> ('e, 'i, 'd, 'u, 'z) ssh \<Rightarrow> ('e, 'i, 'd, 'u, 'z) ssh" where
  "set_newkey mode nk s = s\<lparr>newkeys := (newkeys s)(mode := nk)\<rparr>"

definition start_compression ::
  "('e, 'i, 'd, 'u, 'z) pkt_env \<Rightarrow> kex_mode \<Rightarrow> ('e, 'i, 'd, 'u, 'z) ssh \<Rightarrow> ('e, 'i, 'd, 'u, 'z, unit) pkt_result" where
  "start_compression env mode s =
     rbind (ssh_packet_init_compression env s) (\<lambda>_ s.
     rbind (case mode of MODE_OUT \<Rightarrow> start_compression_out env s 6
                       | MODE_IN \<Rightarrow> start_compression_in env s) (\<lambda>_ s.
     (Inr (), set_newkey mode (map_option (\<lambda>nk. nk\<lparr>nk_comp := (nk_comp nk)\<lparr>comp_enabled := True\<rparr>\<rparr>)
                (newkeys s mode)) s)))"

definition cipher_max_blocks ::
  "('e, 'i, 'd, 'u, 'z) pkt_env \<Rightarrow> u64 \<Rightarrow> ('e, 'i) sshcipher_ctx \<Rightarrow> nat \<Rightarrow> u64" where
  "cipher_max_blocks env limit cc block_size =
     (if cipher_is_intermac cc then c_shl env (cipher_im_block_size (cc_cipher cc) * 2)
      else let m = (if block_size \<ge> 16 then c_shl env (int block_size * 2)
                    else push_bit 30 1 div of_nat block_size)
           in if limit \<noteq> 0 then min m (limit div of_nat block_size) else m)"

text \<open>The second half of \<open>ssh_set_newkeys\<close>: cipher context, compression and the limit on blocks.\<close>

definition newkeys_cipher ::
  "('e, 'i, 'd, 'u, 'z) pkt_env \<Rightarrow> kex_mode \<Rightarrow> ('d, 'u) newkeys \<Rightarrow> ('e, 'i, 'd, 'u, 'z) ssh \<Rightarrow>
     ('e, 'i, 'd, 'u, 'z, unit) pkt_result" where
  "newkeys_cipher env mode nk s =
     (let enc = nk_enc nk; cmp = nk_comp nk in
      case cipher_init (e_crypto env) (e_alloc env) (the (enc_cipher enc))
             (take (enc_key_len enc) (the (enc_key enc)))
             (map_option (take (enc_iv_len enc)) (enc_iv enc)) (mode = MODE_OUT) of
        Inl r \<Rightarrow> (Inl r, s)
      | Inr cc \<Rightarrow>
          let s = set_cipher_ctx mode (Some cc) s;
              s = (if \<not> cipher_warning_done s \<and> cipher_warning_message (Some cc) \<noteq> None
                   then s\<lparr>cipher_warning_done := True\<rparr> else s) in
          rbind (if (comp_type cmp = COMP_ZLIB \<or>
                     comp_type cmp = COMP_DELAYED \<and> after_authentication s) \<and> \<not> comp_enabled cmp
                 then start_compression env mode s else (Inr (), s)) (\<lambda>_ s.
          (Inr (), set_max_blocks mode
             (cipher_max_blocks env (rekey_limit s) cc (enc_block_size enc)) s)))"

text \<open>The first half: the keys move from the key exchange to the session.\<close>

definition take_newkeys ::
  "kex_mode \<Rightarrow> ('e, 'i, 'd, 'u, 'z) ssh \<Rightarrow> ('d, 'u) newkeys option \<times> ('e, 'i, 'd, 'u, 'z) ssh" where
  "take_newkeys mode s =
     (let s = (if newkeys s mode \<noteq> None then set_cipher_ctx mode None s else s);
          s = reset_counters mode s; nk = kex_newkeys (the (ssh_kex s)) mode
      in (nk, set_newkey mode nk
            (if nk = None then s
             else s\<lparr>ssh_kex := map_option (kex_newkeys_update (\<lambda>n. n(mode := None))) (ssh_kex s)\<rparr>)))"

definition ssh_set_newkeys ::
  "('e, 'i, 'd, 'u, 'z) pkt_env \<Rightarrow> ('e, 'i, 'd, 'u, 'z) ssh \<Rightarrow> kex_mode \<Rightarrow> ('e, 'i, 'd, 'u, 'z, unit) pkt_result" where
  "ssh_set_newkeys env s0 mode =
     (case take_newkeys mode s0 of
        (None, s) \<Rightarrow> (Inl SSH_ERR_INTERNAL_ERROR, s)
      | (Some nk, s) \<Rightarrow>
          (case (if cipher_authlen (the (enc_cipher (nk_enc nk))) = 0
                 then mac_init (e_md env) (e_umac env) (nk_mac nk) else (Inr (), nk_mac nk)) of
             (Inl r, mac) \<Rightarrow> (Inl r, set_newkey mode (Some (nk\<lparr>nk_mac := mac\<rparr>)) s)
           | (Inr _, mac) \<Rightarrow>
               newkeys_cipher env mode nk
                 (set_newkey mode (Some (nk\<lparr>nk_mac := mac\<lparr>mac_enabled := True\<rparr>\<rparr>)) s)))"

definition ssh_packet_need_rekeying ::
  "('e, 'i, 'd, 'u, 'z) pkt_env \<Rightarrow> ('e, 'i, 'd, 'u, 'z) ssh \<Rightarrow> nat \<Rightarrow> bool" where
  "ssh_packet_need_rekeying env s outbound_packet_len \<longleftrightarrow>
     (if \<not> after_authentication s then False
      else if ssh_kex s = None \<or> ssh_packet_is_rekeying s then False
      else if ssh_compat s AND SSH_BUG_NOREKEY \<noteq> 0 then False
      else if ps_packets (p_send s) = 0 \<and> ps_packets (p_read s) = 0 then False
      else if rekey_interval s \<noteq> 0 \<and> rekey_time s + uint (rekey_interval s) \<le> monotime env then True
      else if ps_packets (p_send s) > MAX_PACKETS \<or> ps_packets (p_read s) > MAX_PACKETS then True
      else let out_blocks = (of_nat (ROUNDUP outbound_packet_len
                 (enc_block_size (nk_enc (the (newkeys s MODE_OUT))))) :: u32)
           in max_blocks_out s \<noteq> 0 \<and> ps_blocks (p_send s) + ucast out_blocks > max_blocks_out s \<or>
              max_blocks_in s \<noteq> 0 \<and> ps_blocks (p_read s) > max_blocks_in s)"

text \<open>The loop body for one direction.\<close>

definition delayed_compress_mode ::
  "('e, 'i, 'd, 'u, 'z) pkt_env \<Rightarrow> kex_mode \<Rightarrow> ('e, 'i, 'd, 'u, 'z) ssh \<Rightarrow> ('e, 'i, 'd, 'u, 'z, unit) pkt_result" where
  "delayed_compress_mode env mode s =
     (case newkeys s mode of
        None \<Rightarrow> (Inr (), s)
      | Some nk \<Rightarrow>
          if \<not> comp_enabled (nk_comp nk) \<and> comp_type (nk_comp nk) = COMP_DELAYED
          then start_compression env mode s else (Inr (), s))"

definition ssh_packet_enable_delayed_compress ::
  "('e, 'i, 'd, 'u, 'z) pkt_env \<Rightarrow> ('e, 'i, 'd, 'u, 'z) ssh \<Rightarrow> ('e, 'i, 'd, 'u, 'z, unit) pkt_result" where
  "ssh_packet_enable_delayed_compress env s =
     rbind (delayed_compress_mode env MODE_IN (s\<lparr>after_authentication := True\<rparr>)) (\<lambda>_ s.
     delayed_compress_mode env MODE_OUT s)"

definition ssh_packet_set_postauth ::
  "('e, 'i, 'd, 'u, 'z) pkt_env \<Rightarrow> ('e, 'i, 'd, 'u, 'z) ssh \<Rightarrow> ('e, 'i, 'd, 'u, 'z, unit) pkt_result" where
  "ssh_packet_set_postauth env s =
     ssh_packet_enable_delayed_compress env (s\<lparr>after_authentication := True, rekeying := False\<rparr>)"

section \<open>The buffers of a session\<close>

text \<open>
  A buffer made by \<open>sshbuf_new\<close> that nobody else refers to and that holds the bytes \<open>v\<close>; each of
  the operations on it, as long as memory is available and the size limit is respected.
\<close>

definition holds :: "sshbuf \<Rightarrow> bytes \<Rightarrow> bool" where
  "holds b v \<longleftrightarrow> sshbuf_inv b \<and> sshbuf_writable b \<and> buf_max_size b = SSHBUF_SIZE_MAX \<and> sshbuf_bytes b = v"

lemma holds_len: "holds b v \<Longrightarrow> sshbuf_len b = length v"
  by (auto simp: holds_def sshbuf_len_bytes simp del: length_sshbuf_bytes)

lemma holds_bytes: "holds b v \<Longrightarrow> buf_bytes b = v"
  using sshbuf_ptr_bytes [of b] by (auto simp: holds_def buf_bytes_def)

lemma holds_max: "holds b v \<Longrightarrow> length v \<le> SSHBUF_SIZE_MAX"
  using sshbuf_inv_bounds [of b] by (auto simp: holds_def SSHBUF_SIZE_MAX_def)

lemma holds_nth: "holds b v \<Longrightarrow> i < length v \<Longrightarrow> blk (sshbuf_ptr b) ! i = v ! i"
  using sshbuf_ptr_nth [of b i] by (auto simp: holds_def simp del: length_sshbuf_bytes)

lemma holds_mutable: "holds b v \<Longrightarrow> \<exists>p. sshbuf_mutable_ptr b = Some p"
  by (auto simp: holds_def sshbuf_mutable_ptr_def sshbuf_writable_def)

lemma holds_new: "sshbuf_new al = Some b \<Longrightarrow> holds b []"
  using sshbuf_new_inv [of al b]
  by (auto simp: holds_def sshbuf_new_def Let_def split: if_splits option.splits)

lemma holds_put:
  assumes "\<And>n. malloc_ok al n" and "holds b v" and "length v + length w \<le> SSHBUF_SIZE_MAX"
  shows "\<exists>b'. sshbuf_put al b w = (Inr (), b') \<and> holds b' (v @ w)"
  using sshbuf_put_ok [of b al w] assms by (auto simp: holds_def simp del: length_sshbuf_bytes)

lemma holds_reserve:
  assumes mem: "\<And>n. malloc_ok al n" and h: "holds b v" and room: "length v + n \<le> SSHBUF_SIZE_MAX"
  shows "\<exists>dp b1. sshbuf_reserve al b n = (Inr dp, b1) \<and>
    (\<forall>bs. length bs = n \<longrightarrow> holds (sshbuf_poke b1 dp bs) (v @ bs))"
proof -
  have inv: "sshbuf_inv b" using h by (simp add: holds_def)
  have "sshbuf_check_reserve b n = None"
    using h room by (auto simp: holds_def sshbuf_check_reserve_None_iff simp del: length_sshbuf_bytes)
  then obtain b0 where "sshbuf_allocate al b n = (Inr (), b0)"
    using sshbuf_allocate_no_oom [OF inv mem] by blast
  then have res: "sshbuf_reserve al b n = (Inr (buf_size b0), b0\<lparr>buf_size := szadd (buf_size b0) n\<rparr>)"
    by (simp add: sshbuf_reserve_def)
  show ?thesis
    using res sshbuf_reserve_poke [OF inv res] h by (auto simp: holds_def)
qed

lemma holds_reset: "holds b v \<Longrightarrow> holds (sshbuf_reset al b) []"
  using sshbuf_reset_writable [of b al] by (simp add: holds_def sshbuf_consts)

lemma holds_consume:
  assumes "holds b v" and "n \<le> length v"
  shows "\<exists>b'. sshbuf_consume b n = (Inr (), b') \<and> holds b' (drop n v)"
  using sshbuf_consume_ok [of b n] assms by (auto simp: holds_def simp del: length_sshbuf_bytes)

lemma holds_consume_end:
  assumes "holds b v" and "n \<le> length v"
  shows "\<exists>b'. sshbuf_consume_end b n = (Inr (), b') \<and> holds b' (take (length v - n) v)"
  using sshbuf_consume_end_ok [of b n] assms by (auto simp: holds_def simp del: length_sshbuf_bytes)

lemma holds_get_u8: "holds b (x # v) \<Longrightarrow> \<exists>b'. sshbuf_get_u8 b = (Inr x, b') \<and> holds b' v"
  using sshbuf_get_ints_ok(4) [of b x v] by (auto simp: holds_def parsed_def)

lemma holds_poke:
  assumes h: "holds b v" and le: "length w \<le> length v"
  shows "holds (sshbuf_poke b (buf_off b) w) (w @ drop (length w) v)"
proof -
  have inv: "sshbuf_inv b" and wr: "sshbuf_writable b" and v: "sshbuf_bytes b = v"
    using h by (auto simp: holds_def)
  note bd = sshbuf_inv_bounds [OF inv] and pt = sshbuf_inv_ptrs [OF inv]
  have ro: "\<not> buf_readonly b" using wr by (simp add: sshbuf_writable_def)
  have d: "blk (buf_d b) = blk (buf_cd b)" "length (blk (buf_cd b)) = buf_alloc b" using pt ro by simp_all
  have lv: "length v = buf_size b - buf_off b" using v inv by auto
  have lw: "buf_off b + length w \<le> buf_size b" using le lv bd by simp
  have "sshbuf_inv (sshbuf_poke b (buf_off b) w)"
    using inv ro bd lw d by (auto simp: sshbuf_poke_def sshbuf_inv_def sshbuf_check_sanity_def)
  moreover have "sshbuf_bytes (sshbuf_poke b (buf_off b) w) = w @ drop (length w) v"
  proof -
    have "drop (length w) v = drop (length w + buf_off b) (take (buf_size b) (blk (buf_cd b)))"
      using v by (auto simp: sshbuf_bytes_def mem_read_def drop_take add.commute)
    then show ?thesis
      using bd lw d
      by (simp add: sshbuf_poke_def sshbuf_bytes_def mem_write_def mem_read_def drop_take add.commute)
  qed
  ultimately show ?thesis
    using h by (auto simp: holds_def sshbuf_poke_def sshbuf_writable_def)
qed

section \<open>The compression loops end\<close>

lemma sshbuf_put_grows:
  assumes "sshbuf_inv b" and "sshbuf_put al b v = (Inr (), b')"
  shows "sshbuf_inv b'" "length (sshbuf_bytes b') = length (sshbuf_bytes b) + length v"
    "length (sshbuf_bytes b') \<le> SSHBUF_SIZE_MAX"
proof -
  note s = sshbuf_put_spec [OF assms]
  show "sshbuf_inv b'" by (rule s)
  show "length (sshbuf_bytes b') = length (sshbuf_bytes b) + length v" using s(2) by simp
  show "length (sshbuf_bytes b') \<le> SSHBUF_SIZE_MAX"
    using sshbuf_inv_bounds [OF s(1)] s(1) by (simp add: SSHBUF_SIZE_MAX_def)
qed

lemma compress_loop_enough:
  assumes "sshbuf_inv out" and "SSHBUF_SIZE_MAX < n + length (sshbuf_bytes out)"
  shows "compress_loop lib al (n + k) z inp out = compress_loop lib al n z inp out"
  using assms
proof (induction n arbitrary: z inp out)
  case 0
  then show ?case using sshbuf_inv_bounds [of out] by (simp add: SSHBUF_SIZE_MAX_def)
next
  case (Suc n)
  have "compress_loop lib al (n + k) z' inp' out' = compress_loop lib al n z' inp' out'"
    if "sshbuf_put al out buf = (Inr (), out')" and "length buf = 4096" for buf z' inp' out'
    using Suc.IH [of out' z' inp'] Suc.prems sshbuf_put_grows [OF Suc.prems(1) that(1)] that(2)
    by (simp del: length_sshbuf_bytes)
  then show ?case by (auto split: prod.splits zstatus.splits sum.splits)
qed

text \<open>Documented of \<open>inflate\<close>: it returns \<open>Z_OK\<close> only if it read input or wrote output.\<close>

definition inflate_progress :: "'z zlib \<Rightarrow> bool" where
  "inflate_progress lib \<longleftrightarrow>
     (\<forall>z inp n buf inp' z'. inflate lib z inp n = (Z_OK, buf, inp', z') \<longrightarrow>
        length inp' \<le> length inp \<and> (length inp' < length inp \<or> buf \<noteq> []))"

lemma uncompress_loop_enough:
  assumes "inflate_progress lib" and "sshbuf_inv out"
    and "length inp + SSHBUF_SIZE_MAX < n + length (sshbuf_bytes out)"
  shows "uncompress_loop lib al (n + k) z inp out = uncompress_loop lib al n z inp out"
  using assms(2,3)
proof (induction n arbitrary: z inp out)
  case 0
  then show ?case using sshbuf_inv_bounds [of out] by (simp add: SSHBUF_SIZE_MAX_def)
next
  case (Suc n)
  have "uncompress_loop lib al (n + k) z' inp' out' = uncompress_loop lib al n z' inp' out'"
    if "inflate lib z inp 4096 = (Z_OK, buf, inp', z')" and "sshbuf_put al out buf = (Inr (), out')"
    for buf z' inp' out'
  proof -
    have "length inp' \<le> length inp" "length inp' < length inp \<or> 0 < length buf"
      using assms(1) [unfolded inflate_progress_def, rule_format, OF that(1)] by auto
    then have "length inp' + SSHBUF_SIZE_MAX < n + length (sshbuf_bytes out')"
      using Suc.prems(2) sshbuf_put_grows(2) [OF Suc.prems(1) that(2)] by linarith
    then show ?thesis
      by (rule Suc.IH [OF sshbuf_put_grows(1) [OF Suc.prems(1) that(2)]])
  qed
  then show ?case by (auto split: prod.splits zstatus.splits sum.splits)
qed

lemma zfuel_enough:
  assumes "sshbuf_inv out"
  shows "compress_loop lib al (zfuel inp + k) z inp out = compress_loop lib al (zfuel inp) z inp out"
    and "inflate_progress lib \<Longrightarrow>
      uncompress_loop lib al (zfuel inp + k) z inp out = uncompress_loop lib al (zfuel inp) z inp out"
  using compress_loop_enough [OF assms, of "zfuel inp"] uncompress_loop_enough [OF _ assms, of lib inp "zfuel inp"]
  by (simp_all add: zfuel_def)

end
