(* ===== verification/Channels.thy ===== *)
theory Channels
  imports Chan_IO Packet_State
begin

text \<open>
  The table of channels (\<open>channels.c\<close>): allocating, looking up, registering, closing and freeing
  channels, and the handlers of the protocol messages from the point where the packet arrives. A
  channel is named by its slot; a pointer to a channel (\<open>mux_ctx\<close>, \<open>downstream\<close>) is the slot of the
  channel it points to. Messages and system calls for one channel are in the log of the channel, the
  others in the log of the table, where a freed channel leaves its last state. Setting descriptors
  to non-blocking or close-on-exec mode has no effect in the model.
\<close>

section \<open>State\<close>

definition SSH_CHANNEL_X11_LISTENER :: int where "SSH_CHANNEL_X11_LISTENER = 1"
definition SSH_CHANNEL_PORT_LISTENER :: int where "SSH_CHANNEL_PORT_LISTENER = 2"
definition SSH_CHANNEL_OPENING :: int where "SSH_CHANNEL_OPENING = 3"
definition SSH_CHANNEL_CLOSED :: int where "SSH_CHANNEL_CLOSED = 5"
definition SSH_CHANNEL_AUTH_SOCKET :: int where "SSH_CHANNEL_AUTH_SOCKET = 6"
definition SSH_CHANNEL_OUTPUT_DRAINING :: int where "SSH_CHANNEL_OUTPUT_DRAINING = 9"
definition SSH_CHANNEL_RPORT_LISTENER :: int where "SSH_CHANNEL_RPORT_LISTENER = 11"
definition SSH_CHANNEL_CONNECTING :: int where "SSH_CHANNEL_CONNECTING = 12"
definition SSH_CHANNEL_DYNAMIC :: int where "SSH_CHANNEL_DYNAMIC = 13"
definition SSH_CHANNEL_MUX_LISTENER :: int where "SSH_CHANNEL_MUX_LISTENER = 15"
definition SSH_CHANNEL_MUX_CLIENT :: int where "SSH_CHANNEL_MUX_CLIENT = 16"
definition SSH_CHANNEL_ABANDONED :: int where "SSH_CHANNEL_ABANDONED = 17"
definition SSH_CHANNEL_UNIX_LISTENER :: int where "SSH_CHANNEL_UNIX_LISTENER = 18"
definition SSH_CHANNEL_RUNIX_LISTENER :: int where "SSH_CHANNEL_RUNIX_LISTENER = 19"
definition SSH_CHANNEL_MUX_PROXY :: int where "SSH_CHANNEL_MUX_PROXY = 20"

lemmas chan_type_defs = SSH_CHANNEL_X11_LISTENER_def SSH_CHANNEL_PORT_LISTENER_def SSH_CHANNEL_OPENING_def
  SSH_CHANNEL_OPEN_def SSH_CHANNEL_CLOSED_def SSH_CHANNEL_AUTH_SOCKET_def SSH_CHANNEL_X11_OPEN_def
  SSH_CHANNEL_INPUT_DRAINING_def SSH_CHANNEL_OUTPUT_DRAINING_def SSH_CHANNEL_LARVAL_def
  SSH_CHANNEL_RPORT_LISTENER_def SSH_CHANNEL_CONNECTING_def SSH_CHANNEL_DYNAMIC_def SSH_CHANNEL_ZOMBIE_def
  SSH_CHANNEL_MUX_LISTENER_def SSH_CHANNEL_MUX_CLIENT_def SSH_CHANNEL_ABANDONED_def
  SSH_CHANNEL_UNIX_LISTENER_def SSH_CHANNEL_RUNIX_LISTENER_def SSH_CHANNEL_MUX_PROXY_def

definition SSH2_MSG_CHANNEL_OPEN_CONFIRMATION :: int where "SSH2_MSG_CHANNEL_OPEN_CONFIRMATION = 91"
definition SSH2_MSG_CHANNEL_CLOSE :: int where "SSH2_MSG_CHANNEL_CLOSE = 97"
definition SSH_BUG_OPENFAILURE :: u32 where "SSH_BUG_OPENFAILURE = 0x00020000"
definition SSH_BUG_RFWD_ADDR :: u32 where "SSH_BUG_RFWD_ADDR = 0x02000000"

text \<open>The hosts and ports that forwarded connections may go to; \<open>downstream\<close> is a multiplexing client.\<close>

record ForwardPermission =
  host_to_connect :: "string option"
  port_to_connect :: int
  listen_host :: "string option"
  listen_path :: "string option"
  listen_port :: int
  downstream :: "nat option"

datatype table_effect =
    MSG_GLOBAL_REQUEST string bool string "int option" | FREED channel | ABANDONED_CONFIRM nat | FILTER_CLEANUP nat int |
    MSG_PROXIED int bytes

record chan_table =
  chans :: "channel option list"
  channel_max_fd :: int
  permitted_opens :: "ForwardPermission list"
  permitted_adm_opens :: "ForwardPermission list"
  all_opens_permitted :: bool
  tab_log :: "table_effect list"

type_synonym 'a tab_result = "(chan_stop, chan_table, 'a) outcome"

text \<open>The callbacks of other components, which may change the table.\<close>

record tab_env =
  te_chan :: chan_env
  te_open_confirm :: "nat \<Rightarrow> int \<Rightarrow> bool \<Rightarrow> chan_table \<Rightarrow> chan_table"
  te_detach :: "nat \<Rightarrow> int \<Rightarrow> chan_table \<Rightarrow> chan_table"
  te_status :: "nat \<Rightarrow> int \<Rightarrow> int \<Rightarrow> chan_table \<Rightarrow> chan_table"

abbreviation te_compat :: "tab_env \<Rightarrow> compat" where "te_compat env \<equiv> ce_compat (te_chan env)"

definition empty_table :: chan_table where
  "empty_table = \<lparr>chans = [], channel_max_fd = 0, permitted_opens = [], permitted_adm_opens = [],
     all_opens_permitted = False, tab_log = []\<rparr>"

section \<open>Lookup\<close>

definition channel_by_id :: "int \<Rightarrow> chan_table \<Rightarrow> channel option" where
  "channel_by_id i t = (if i < 0 \<or> nat i \<ge> length (chans t) then None else chans t ! nat i)"

definition channel_by_remote_id :: "int \<Rightarrow> chan_table \<Rightarrow> channel option" where
  "channel_by_remote_id rid t =
     Option.bind (find (\<lambda>x. case x of None \<Rightarrow> False | Some c \<Rightarrow> ch_remote_id c = rid) (chans t)) id"

definition public_types :: "int list" where
  "public_types = [SSH_CHANNEL_X11_OPEN, SSH_CHANNEL_LARVAL, SSH_CHANNEL_CONNECTING, SSH_CHANNEL_DYNAMIC,
     SSH_CHANNEL_OPENING, SSH_CHANNEL_OPEN, SSH_CHANNEL_INPUT_DRAINING, SSH_CHANNEL_OUTPUT_DRAINING,
     SSH_CHANNEL_ABANDONED, SSH_CHANNEL_MUX_PROXY]"

definition channel_lookup :: "int \<Rightarrow> chan_table \<Rightarrow> channel option" where
  "channel_lookup i t =
     (case channel_by_id i t of
        None \<Rightarrow> None
      | Some c \<Rightarrow> if ch_type c \<in> set public_types then Some c else None)"

section \<open>Descriptors\<close>

definition channel_find_maxfd :: "channel option list \<Rightarrow> int" where
  "channel_find_maxfd cs =
     fold (\<lambda>x m. case x of None \<Rightarrow> m | Some c \<Rightarrow> max (max (max m (ch_rfd c)) (ch_wfd c)) (ch_efd c)) cs 0"

datatype fd_field = FD_sock | FD_rfd | FD_wfd | FD_efd

fun fd_of :: "fd_field \<Rightarrow> channel \<Rightarrow> int" where
  "fd_of FD_sock c = ch_sock c"
| "fd_of FD_rfd c = ch_rfd c"
| "fd_of FD_wfd c = ch_wfd c"
| "fd_of FD_efd c = ch_efd c"

fun clear_fd :: "fd_field \<Rightarrow> channel \<Rightarrow> channel" where
  "clear_fd FD_sock c = c\<lparr>ch_sock := - 1\<rparr>"
| "clear_fd FD_rfd c = c\<lparr>ch_rfd := - 1\<rparr>"
| "clear_fd FD_wfd c = c\<lparr>ch_wfd := - 1\<rparr>"
| "clear_fd FD_efd c = c\<lparr>ch_efd := - 1\<rparr>"

definition set_chan :: "nat \<Rightarrow> channel \<Rightarrow> chan_table \<Rightarrow> chan_table" where
  "set_chan i c t = t\<lparr>chans := (chans t)[i := Some c]\<rparr>"

text \<open>A descriptor of a channel was closed: the maximum is computed again when it was the largest.\<close>

definition fd_closed :: "int \<Rightarrow> chan_table \<Rightarrow> chan_table" where
  "fd_closed fd t = (if fd = channel_max_fd t then t\<lparr>channel_max_fd := channel_find_maxfd (chans t)\<rparr> else t)"

definition channel_close_fd :: "fd_field \<Rightarrow> nat \<Rightarrow> chan_table \<Rightarrow> chan_table" where
  "channel_close_fd f i t =
     (case chans t ! i of
        None \<Rightarrow> t
      | Some c \<Rightarrow>
          if fd_of f c \<noteq> - 1
          then fd_closed (fd_of f c) (set_chan i (clear_fd f (emit (SYS_CLOSE (fd_of f c)) c)) t)
          else t)"

definition channel_close_fds :: "nat \<Rightarrow> chan_table \<Rightarrow> chan_table" where
  "channel_close_fds i t =
     channel_close_fd FD_efd i (channel_close_fd FD_wfd i (channel_close_fd FD_rfd i (channel_close_fd FD_sock i t)))"

definition channel_register_fds ::
  "nat \<Rightarrow> channel \<Rightarrow> int \<Rightarrow> int \<Rightarrow> int \<Rightarrow> chan_ext \<Rightarrow> bool \<Rightarrow> chan_table \<Rightarrow> chan_table" where
  "channel_register_fds i c rfd wfd efd extusage is_tty t =
     set_chan i (c\<lparr>ch_rfd := rfd, ch_wfd := wfd, ch_sock := (if rfd = wfd then rfd else - 1), ch_efd := efd,
                   ch_extended_usage := extusage, ch_isatty := is_tty\<rparr>)
       (t\<lparr>channel_max_fd := max (max (max (channel_max_fd t) rfd) wfd) efd\<rparr>)"

section \<open>Allocation\<close>

fun first_free :: "channel option list \<Rightarrow> nat option" where
  "first_free [] = None"
| "first_free (x # xs) = (case x of None \<Rightarrow> Some 0 | Some _ \<Rightarrow> map_option Suc (first_free xs))"

definition blank_channel :: "string \<Rightarrow> int \<Rightarrow> nat \<Rightarrow> u32 \<Rightarrow> u32 \<Rightarrow> string \<Rightarrow> channel" where
  "blank_channel ctype ty found window maxpack rname =
     \<lparr>ch_type = ty, ch_self = int found, ch_remote_id = - 1, ch_istate = CHAN_INPUT_OPEN,
      ch_ostate = CHAN_OUTPUT_OPEN, ch_flags = 0, ch_rfd = 0, ch_wfd = 0, ch_efd = 0, ch_sock = 0,
      ch_isatty = False, ch_force_drain = False, ch_delayed = True, ch_notbefore = 0,
      ch_input = [], ch_output = [], ch_extended = [], ch_path = None, ch_listening_port = 0,
      ch_listening_addr = None, ch_host_port = 0, ch_remote_window = 0, ch_remote_maxpacket = 0,
      ch_local_window = window, ch_local_window_max = window, ch_local_consumed = 0, ch_local_maxpacket = maxpack,
      ch_extended_usage = CHAN_EXTENDED_IGNORE, ch_single_connection = False, ch_ctype = ctype,
      ch_remote_name = rname, ch_open_confirm = None, ch_detach_user = None, ch_detach_close = False,
      ch_status_confirms = [], ch_input_filter = None, ch_output_filter = None, ch_filter_cleanup = None,
      ch_datagram = False, ch_mux_ctx = None, ch_mux_pause = False, ch_mux_downstream_id = 0, ch_did = []\<rparr>"

definition channel_new ::
  "string \<Rightarrow> int \<Rightarrow> int \<Rightarrow> int \<Rightarrow> int \<Rightarrow> u32 \<Rightarrow> u32 \<Rightarrow> chan_ext \<Rightarrow> string \<Rightarrow> chan_table \<Rightarrow> nat tab_result" where
  "channel_new ctype ty rfd wfd efd window maxpack extusage rname t0 =
     (let t = (if chans t0 = [] then t0\<lparr>chans := replicate 10 None\<rparr> else t0);
          alloc = length (chans t);
          make = (\<lambda>found t. (Inr found,
            channel_register_fds found (blank_channel ctype ty found window maxpack rname) rfd wfd efd extusage False t))
      in case first_free (chans t) of
           Some found \<Rightarrow> make found t
         | None \<Rightarrow>
             if alloc > 10000 then (Inl Fatal, t)
             else make alloc (t\<lparr>chans := chans t @ replicate 10 None\<rparr>))"

section \<open>Messages about the table\<close>

definition idle_types :: "int list" where
  "idle_types = [SSH_CHANNEL_X11_LISTENER, SSH_CHANNEL_PORT_LISTENER, SSH_CHANNEL_RPORT_LISTENER, SSH_CHANNEL_CLOSED,
     SSH_CHANNEL_AUTH_SOCKET, SSH_CHANNEL_ZOMBIE, SSH_CHANNEL_ABANDONED, SSH_CHANNEL_MUX_LISTENER,
     SSH_CHANNEL_UNIX_LISTENER, SSH_CHANNEL_RUNIX_LISTENER]"

definition shown_types :: "int list" where
  "shown_types = [SSH_CHANNEL_LARVAL, SSH_CHANNEL_OPENING, SSH_CHANNEL_CONNECTING, SSH_CHANNEL_DYNAMIC,
     SSH_CHANNEL_OPEN, SSH_CHANNEL_X11_OPEN, SSH_CHANNEL_INPUT_DRAINING, SSH_CHANNEL_OUTPUT_DRAINING,
     SSH_CHANNEL_MUX_PROXY, SSH_CHANNEL_MUX_CLIENT]"

text \<open>
  \<open>channel_open_message\<close> formats one line for each connection it lists; the model keeps which
  channels are listed and that a channel of unknown type ends the process.
\<close>

definition channel_open_message :: "chan_table \<Rightarrow> chan_stop + int list" where
  "channel_open_message t =
     (if list_all (\<lambda>c. ch_type c \<in> set (idle_types @ shown_types)) (List.map_filter id (chans t))
      then Inr (map ch_self (filter (\<lambda>c. ch_type c \<in> set shown_types) (List.map_filter id (chans t))))
      else Inl Fatal)"

section \<open>Freeing channels\<close>

text \<open>Translate the requested listen host of a remote forwarding for the server.\<close>

definition channel_rfwd_bind_host :: "compat \<Rightarrow> string option \<Rightarrow> string" where
  "channel_rfwd_bind_host g host =
     (case host of
        None \<Rightarrow> if datafellows g AND SSH_BUG_RFWD_ADDR \<noteq> 0 then ''127.0.0.1'' else ''localhost''
      | Some h \<Rightarrow>
          if h = [] \<or> h = ''*'' then (if datafellows g AND SSH_BUG_RFWD_ADDR \<noteq> 0 then ''0.0.0.0'' else [])
          else h)"

definition fwd_void :: "ForwardPermission \<Rightarrow> ForwardPermission" where
  "fwd_void p = p\<lparr>listen_port := 0, port_to_connect := 0, host_to_connect := None, listen_host := None,
     listen_path := None, downstream := None\<rparr>"

text \<open>The multiplexing client in slot \<open>i\<close> is gone: detach its proxy channels and cancel its forwardings.\<close>

definition detach_proxy :: "nat \<Rightarrow> channel \<Rightarrow> channel" where
  "detach_proxy i other =
     (if ch_type other = SSH_CHANNEL_MUX_PROXY \<and> ch_mux_ctx other = Some (int i)
      then other\<lparr>ch_mux_ctx := None, ch_type := SSH_CHANNEL_OPEN, ch_istate := CHAN_INPUT_CLOSED,
                 ch_ostate := CHAN_OUTPUT_CLOSED\<rparr>
      else other)"

definition detach_mux_client :: "compat \<Rightarrow> nat \<Rightarrow> chan_table \<Rightarrow> chan_table" where
  "detach_mux_client g i t =
     t\<lparr>chans := map (map_option (detach_proxy i)) (chans t),
       tab_log := tab_log t @ map (\<lambda>p. MSG_GLOBAL_REQUEST ''cancel-tcpip-forward'' False
         (channel_rfwd_bind_host g (listen_host p)) (Some (listen_port p)))
         (filter (\<lambda>p. downstream p = Some i) (permitted_opens t)),
       permitted_opens := map (\<lambda>p. if downstream p = Some i then fwd_void p else p) (permitted_opens t)\<rparr>"

definition channel_free :: "compat \<Rightarrow> nat \<Rightarrow> chan_table \<Rightarrow> unit tab_result" where
  "channel_free g i t0 =
     (case chans t0 ! i of
        None \<Rightarrow> (Inr (), t0)
      | Some c0 \<Rightarrow>
          let t = (if ch_type c0 = SSH_CHANNEL_MUX_CLIENT then detach_mux_client g i t0 else t0) in
          case channel_open_message t of
            Inl e \<Rightarrow> (Inl e, t)
          | Inr _ \<Rightarrow>
              let t = (if ch_sock c0 \<noteq> - 1 then set_chan i (emit (SYS_SHUT_RDWR (ch_sock c0)) c0) t else t);
                  t = channel_close_fds i t;
                  c = the (chans t ! i)
              in (Inr (), t\<lparr>chans := (chans t)[i := None],
                    tab_log := tab_log t @ FREED c # map ABANDONED_CONFIRM (ch_status_confirms c) @
                      (case ch_filter_cleanup c of None \<Rightarrow> [] | Some f \<Rightarrow> [FILTER_CLEANUP f (ch_self c)])\<rparr>))"

fun tab_loop :: "(nat \<Rightarrow> chan_table \<Rightarrow> unit tab_result) \<Rightarrow> nat list \<Rightarrow> chan_table \<Rightarrow> unit tab_result" where
  "tab_loop f [] t = (Inr (), t)"
| "tab_loop f (i # is) t = rbind (f i t) (\<lambda>_ t. tab_loop f is t)"

definition channel_free_all :: "compat \<Rightarrow> chan_table \<Rightarrow> unit tab_result" where
  "channel_free_all g t = tab_loop (channel_free g) [0..<length (chans t)] t"

definition channel_close_all :: "chan_table \<Rightarrow> unit tab_result" where
  "channel_close_all t = tab_loop (\<lambda>i t. (Inr (), channel_close_fds i t)) [0..<length (chans t)] t"

definition listener_types :: "int list" where
  "listener_types = [SSH_CHANNEL_AUTH_SOCKET, SSH_CHANNEL_PORT_LISTENER, SSH_CHANNEL_RPORT_LISTENER,
     SSH_CHANNEL_X11_LISTENER, SSH_CHANNEL_UNIX_LISTENER, SSH_CHANNEL_RUNIX_LISTENER]"

definition channel_stop_listening :: "compat \<Rightarrow> chan_table \<Rightarrow> unit tab_result" where
  "channel_stop_listening g t =
     tab_loop (\<lambda>i t.
       case chans t ! i of
         None \<Rightarrow> (Inr (), t)
       | Some c \<Rightarrow>
           if ch_type c \<in> set listener_types then channel_free g i (channel_close_fd FD_sock i t)
           else (Inr (), t)) [0..<length (chans t)] t"

section \<open>Queries\<close>

definition channel_not_very_much_buffered_data :: "chan_env \<Rightarrow> chan_table \<Rightarrow> bool" where
  "channel_not_very_much_buffered_data env t \<longleftrightarrow>
     list_all (\<lambda>c. ch_type c = SSH_CHANNEL_OPEN \<longrightarrow> length (ch_output c) \<le> unat (ce_maxsize env))
       (List.map_filter id (chans t))"

text \<open>The loop over the channels of \<open>channel_still_open\<close>: the first one that decides.\<close>

fun still_open_loop :: "chan_env \<Rightarrow> channel option list \<Rightarrow> chan_stop + bool" where
  "still_open_loop env [] = Inr False"
| "still_open_loop env (None # cs) = still_open_loop env cs"
| "still_open_loop env (Some c # cs) =
     (if ch_type c \<in> set (SSH_CHANNEL_DYNAMIC # SSH_CHANNEL_CONNECTING # idle_types) then still_open_loop env cs
      else if ch_type c = SSH_CHANNEL_LARVAL then
        if \<not> compat20 (ce_compat env) then Inl Fatal else still_open_loop env cs
      else if ch_type c \<in> {SSH_CHANNEL_OPENING, SSH_CHANNEL_OPEN, SSH_CHANNEL_X11_OPEN,
                SSH_CHANNEL_MUX_CLIENT, SSH_CHANNEL_MUX_PROXY} then Inr True
      else if ch_type c \<in> {SSH_CHANNEL_INPUT_DRAINING, SSH_CHANNEL_OUTPUT_DRAINING} then
        if \<not> ce_compat13 env then Inl Fatal else Inr True
      else Inl Fatal)"

definition channel_still_open :: "chan_env \<Rightarrow> chan_table \<Rightarrow> chan_stop + bool" where
  "channel_still_open env t = still_open_loop env (chans t)"

fun find_open_loop :: "chan_env \<Rightarrow> int \<Rightarrow> channel option list \<Rightarrow> chan_stop + int" where
  "find_open_loop env i [] = Inr (- 1)"
| "find_open_loop env i (None # cs) = find_open_loop env (i + 1) cs"
| "find_open_loop env i (Some c # cs) =
     (if ch_remote_id c < 0 \<or>
         ch_type c \<in> set [SSH_CHANNEL_CLOSED, SSH_CHANNEL_DYNAMIC, SSH_CHANNEL_X11_LISTENER, SSH_CHANNEL_PORT_LISTENER,
           SSH_CHANNEL_RPORT_LISTENER, SSH_CHANNEL_MUX_LISTENER, SSH_CHANNEL_MUX_CLIENT, SSH_CHANNEL_MUX_PROXY,
           SSH_CHANNEL_OPENING, SSH_CHANNEL_CONNECTING, SSH_CHANNEL_ZOMBIE, SSH_CHANNEL_ABANDONED,
           SSH_CHANNEL_UNIX_LISTENER, SSH_CHANNEL_RUNIX_LISTENER]
      then find_open_loop env (i + 1) cs
      else if ch_type c \<in> set [SSH_CHANNEL_LARVAL, SSH_CHANNEL_AUTH_SOCKET, SSH_CHANNEL_OPEN, SSH_CHANNEL_X11_OPEN]
      then Inr i
      else if ch_type c \<in> {SSH_CHANNEL_INPUT_DRAINING, SSH_CHANNEL_OUTPUT_DRAINING} then
        if \<not> ce_compat13 env then Inl Fatal else Inr i
      else Inl Fatal)"

definition channel_find_open :: "chan_env \<Rightarrow> chan_table \<Rightarrow> chan_stop + int" where
  "channel_find_open env t = find_open_loop env 0 (chans t)"

section \<open>Registering\<close>

text \<open>A cleanup function of a filter is only recorded together with the context it needs.\<close>

definition on_public :: "int \<Rightarrow> (channel \<Rightarrow> channel) \<Rightarrow> chan_table \<Rightarrow> chan_table" where
  "on_public i f t = (case channel_lookup i t of None \<Rightarrow> t | Some c \<Rightarrow> set_chan (nat i) (f c) t)"

definition channel_send_open :: "int \<Rightarrow> chan_table \<Rightarrow> chan_table" where
  "channel_send_open i =
     on_public i (\<lambda>c. emit (MSG_CHANNEL_OPEN (ch_ctype c) (ch_self c) (ch_local_window c) (ch_local_maxpacket c) []) c)"

definition channel_register_status_confirm :: "int \<Rightarrow> nat \<Rightarrow> chan_table \<Rightarrow> unit tab_result" where
  "channel_register_status_confirm i cb t =
     (case channel_lookup i t of
        None \<Rightarrow> (Inl Fatal, t)
      | Some c \<Rightarrow> (Inr (), set_chan (nat i) (c\<lparr>ch_status_confirms := ch_status_confirms c @ [cb]\<rparr>) t))"

definition channel_register_open_confirm :: "int \<Rightarrow> nat option \<Rightarrow> chan_table \<Rightarrow> chan_table" where
  "channel_register_open_confirm i fn = on_public i (\<lambda>c. c\<lparr>ch_open_confirm := fn\<rparr>)"

definition channel_register_cleanup :: "int \<Rightarrow> nat option \<Rightarrow> bool \<Rightarrow> chan_table \<Rightarrow> chan_table" where
  "channel_register_cleanup i fn do_close t =
     (case channel_by_id i t of
        None \<Rightarrow> t
      | Some c \<Rightarrow> set_chan (nat i) (c\<lparr>ch_detach_user := fn, ch_detach_close := do_close\<rparr>) t)"

definition channel_cancel_cleanup :: "int \<Rightarrow> chan_table \<Rightarrow> chan_table" where
  "channel_cancel_cleanup i t =
     (case channel_by_id i t of
        None \<Rightarrow> t
      | Some c \<Rightarrow> set_chan (nat i) (c\<lparr>ch_detach_user := None, ch_detach_close := False\<rparr>) t)"

definition channel_register_filter ::
  "int \<Rightarrow> nat option \<Rightarrow> nat option \<Rightarrow> nat option \<Rightarrow> chan_table \<Rightarrow> chan_table" where
  "channel_register_filter i ifn ofn cfn =
     on_public i (\<lambda>c. c\<lparr>ch_input_filter := ifn, ch_output_filter := ofn, ch_filter_cleanup := cfn\<rparr>)"

definition channel_set_fds ::
  "int \<Rightarrow> int \<Rightarrow> int \<Rightarrow> int \<Rightarrow> chan_ext \<Rightarrow> bool \<Rightarrow> u32 \<Rightarrow> chan_table \<Rightarrow> unit tab_result" where
  "channel_set_fds i rfd wfd efd extusage is_tty window_max t =
     (case channel_lookup i t of
        None \<Rightarrow> (Inl Fatal, t)
      | Some c \<Rightarrow>
          if ch_type c \<noteq> SSH_CHANNEL_LARVAL then (Inl Fatal, t)
          else let t = channel_register_fds (nat i) c rfd wfd efd extusage is_tty t;
                   c = the (chans t ! nat i)
               in (Inr (), set_chan (nat i)
                    (emit (MSG_CHANNEL_WINDOW_ADJUST (ch_remote_id c) window_max)
                      (c\<lparr>ch_type := SSH_CHANNEL_OPEN, ch_local_window := window_max,
                         ch_local_window_max := window_max\<rparr>)) t))"

section \<open>Running channel handlers on the table\<close>

text \<open>
  A handler of \<open>Chan_IO\<close> or \<open>nchan.c\<close> on the channel in slot \<open>i\<close>: the channel is replaced, and for every
  descriptor it closed on the way \<open>channel_close_fd\<close> has kept the maximum up to date.
\<close>

fun closed_fd :: "chan_effect \<Rightarrow> int option" where
  "closed_fd (SYS_CLOSE fd) = Some fd"
| "closed_fd _ = None"

definition put_chan :: "nat \<Rightarrow> channel \<Rightarrow> channel \<Rightarrow> chan_table \<Rightarrow> chan_table" where
  "put_chan i c c' t =
     fold fd_closed (List.map_filter closed_fd (drop (length (ch_did c)) (ch_did c'))) (set_chan i c' t)"

definition on_slot :: "nat \<Rightarrow> (channel \<Rightarrow> 'a chan_result) \<Rightarrow> channel \<Rightarrow> chan_table \<Rightarrow> 'a tab_result" where
  "on_slot i f c t = (case f c of (r, c') \<Rightarrow> (r, put_chan i c c' t))"

definition channel_output_poll :: "chan_env \<Rightarrow> chan_table \<Rightarrow> unit tab_result" where
  "channel_output_poll env t =
     tab_loop (\<lambda>i t. case chans t ! i of None \<Rightarrow> (Inr (), t) | Some c \<Rightarrow> on_slot i (output_poll_chan env) c t)
       [0..<length (chans t)] t"

definition channel_garbage_collect :: "tab_env \<Rightarrow> nat \<Rightarrow> chan_table \<Rightarrow> unit tab_result" where
  "channel_garbage_collect env i t =
     (let g = te_compat env;
          collect = (\<lambda>t. case chans t ! i of
             None \<Rightarrow> (Inr (), t)
           | Some c \<Rightarrow>
               (case chan_is_dead g c True of
                  (dead, c') \<Rightarrow> if dead then channel_free g i (put_chan i c c' t) else (Inr (), put_chan i c c' t)))
      in case chans t ! i of
           None \<Rightarrow> (Inr (), t)
         | Some c \<Rightarrow>
             (case ch_detach_user c of
                None \<Rightarrow> collect t
              | Some fn \<Rightarrow>
                  (case chan_is_dead g c (ch_detach_close c) of
                     (dead, c') \<Rightarrow>
                       let t = put_chan i c c' t in
                       if \<not> dead then (Inr (), t)
                       else let t = te_detach env fn (ch_self c) t in
                         (case chans t ! i of
                            None \<Rightarrow> (Inr (), t)
                          | Some c \<Rightarrow> if ch_detach_user c \<noteq> None then (Inr (), t) else collect t))))"

section \<open>Protocol messages\<close>

definition proxied_types :: "int list" where
  "proxied_types = [91, 92, 93, 94, 95, 96, 97, 98, 99, 100]"

text \<open>
  \<open>channel_proxy_upstream\<close>: a message for a channel of a multiplexing client goes to that client with
  the channel number the client knows; \<open>None\<close> when the message is for this process.
\<close>

definition to_downstream :: "nat \<Rightarrow> bytes \<Rightarrow> chan_table \<Rightarrow> chan_table" where
  "to_downstream d b t =
     (case chans t ! d of
        None \<Rightarrow> t
      | Some dc \<Rightarrow>
          (case buffer_put_string (ch_output dc) b of
             None \<Rightarrow> t
           | Some out \<Rightarrow> set_chan d (dc\<lparr>ch_output := out\<rparr>) t))"

definition channel_proxy_upstream :: "compat \<Rightarrow> nat \<Rightarrow> channel \<Rightarrow> int \<Rightarrow> bytes \<Rightarrow> chan_table \<Rightarrow> unit tab_result option" where
  "channel_proxy_upstream g i c ty cp t =
     (if ch_type c \<noteq> SSH_CHANNEL_MUX_PROXY then None
      else case ch_mux_ctx c of
        None \<Rightarrow> None
      | Some d \<Rightarrow>
          if ty \<notin> set proxied_types then None
          else
            let t = to_downstream (nat d) ([0, of_int ty] @ POKE_U32 (ch_mux_downstream_id c) @ cp) t
            in Some (if ty = SSH2_MSG_CHANNEL_OPEN_CONFIRMATION then
                       (Inr (), if length cp > 4 then set_chan i (c\<lparr>ch_remote_id := sint (PEEK_U32 cp)\<rparr>) t else t)
                     else if ty = SSH2_MSG_CHANNEL_CLOSE then
                       if has_flag CHAN_CLOSE_SENT c then channel_free g i t
                       else (Inr (), set_chan i (set_flag CHAN_CLOSE_RCVD c) t)
                     else (Inr (), t)))"

text \<open>
  The common beginning of the handlers: the channel number, the lookup, and the test for a channel of
  a multiplexing client. \<open>missing\<close> is what a message for a channel that does not exist does.
\<close>

definition for_channel ::
  "tab_env \<Rightarrow> int \<Rightarrow> unit tab_result \<Rightarrow> bytes \<Rightarrow> (nat \<Rightarrow> channel \<Rightarrow> bytes \<Rightarrow> unit tab_result) \<Rightarrow> chan_table \<Rightarrow> unit tab_result" where
  "for_channel env ty missing p handle t =
     (case packet_get_int p of
        Inl e \<Rightarrow> (Inl e, t)
      | Inr (w, p) \<Rightarrow>
          (case channel_lookup (sint w) t of
             None \<Rightarrow> missing
           | Some c \<Rightarrow>
               (case channel_proxy_upstream (te_compat env) (nat (sint w)) c ty p t of
                  Some r \<Rightarrow> r
                | None \<Rightarrow> handle (nat (sint w)) c p)))"

definition channel_input_data :: "tab_env \<Rightarrow> int \<Rightarrow> bytes \<Rightarrow> chan_table \<Rightarrow> unit tab_result" where
  "channel_input_data env ty p t =
     for_channel env ty (Inl Disconnect, t) p (\<lambda>i c p. on_slot i (input_data_chan (te_chan env) p) c t) t"

definition channel_input_extended_data :: "tab_env \<Rightarrow> int \<Rightarrow> bytes \<Rightarrow> chan_table \<Rightarrow> unit tab_result" where
  "channel_input_extended_data env ty p t =
     for_channel env ty (Inl Disconnect, t) p (\<lambda>i c p. on_slot i (input_extended_data_chan (te_chan env) p) c t) t"

text \<open>For IEOF and for the CLOSE of protocol 1 the end of the packet is checked before the lookup.\<close>

definition channel_input_ieof :: "tab_env \<Rightarrow> int \<Rightarrow> bytes \<Rightarrow> chan_table \<Rightarrow> unit tab_result" where
  "channel_input_ieof env ty p t =
     (if length p > 4 then (Inl Disconnect, t)
      else for_channel env ty (Inl Disconnect, t) p
        (\<lambda>i c p. on_slot i (\<lambda>c. (Inr (), input_ieof_chan (te_chan env) c)) c t) t)"

definition channel_input_close :: "tab_env \<Rightarrow> int \<Rightarrow> bytes \<Rightarrow> chan_table \<Rightarrow> unit tab_result" where
  "channel_input_close env ty p t =
     (if length p > 4 then (Inl Disconnect, t)
      else for_channel env ty (Inl Disconnect, t) p
        (\<lambda>i c p. let c' = emit (MSG_CHANNEL_CLOSE_CONFIRMATION (ch_remote_id c)) c in
           (Inr (), set_chan i (if ch_type c' \<noteq> SSH_CHANNEL_CLOSED
              then c'\<lparr>ch_input := [], ch_type := SSH_CHANNEL_OUTPUT_DRAINING\<rparr> else c') t)) t)"

definition channel_input_oclose :: "tab_env \<Rightarrow> int \<Rightarrow> bytes \<Rightarrow> chan_table \<Rightarrow> unit tab_result" where
  "channel_input_oclose env ty p t =
     for_channel env ty (Inl Disconnect, t) p (\<lambda>i c p. on_slot i (input_oclose_chan (te_chan env) p) c t) t"

definition channel_input_close_confirmation :: "tab_env \<Rightarrow> int \<Rightarrow> bytes \<Rightarrow> chan_table \<Rightarrow> unit tab_result" where
  "channel_input_close_confirmation env ty p t =
     for_channel env ty (Inl Disconnect, t) p
       (\<lambda>i c p. if p \<noteq> [] then (Inl Disconnect, t)
          else if ch_type c \<noteq> SSH_CHANNEL_CLOSED \<and> ch_type c \<noteq> SSH_CHANNEL_ABANDONED then (Inl Disconnect, t)
          else channel_free (te_compat env) i t) t"

text \<open>The end of the packet is checked after the callback ran.\<close>

definition tab_eom :: "bytes \<Rightarrow> chan_table \<Rightarrow> unit tab_result" where
  "tab_eom p t = (if p \<noteq> [] then (Inl Disconnect, t) else (Inr (), t))"

definition channel_input_open_confirmation :: "tab_env \<Rightarrow> int \<Rightarrow> bytes \<Rightarrow> chan_table \<Rightarrow> unit tab_result" where
  "channel_input_open_confirmation env ty p t =
     for_channel env ty (Inl Disconnect, t) p
       (\<lambda>i c p. if ch_type c \<noteq> SSH_CHANNEL_OPENING then (Inl Disconnect, t)
          else case packet_get_int p of
            Inl e \<Rightarrow> (Inl e, t)
          | Inr (remote_id, p) \<Rightarrow>
              let c = c\<lparr>ch_remote_id := sint remote_id, ch_type := SSH_CHANNEL_OPEN\<rparr>; t = set_chan i c t in
              if \<not> compat20 (te_compat env) then tab_eom p t
              else case packet_get_int p of
                Inl e \<Rightarrow> (Inl e, t)
              | Inr (window, p) \<Rightarrow>
                  (case packet_get_int p of
                     Inl e \<Rightarrow> (Inl e, set_chan i (c\<lparr>ch_remote_window := window\<rparr>) t)
                   | Inr (maxpack, p) \<Rightarrow>
                       let c = c\<lparr>ch_remote_window := window, ch_remote_maxpacket := maxpack\<rparr>; t = set_chan i c t in
                       tab_eom p (case ch_open_confirm c of None \<Rightarrow> t | Some fn \<Rightarrow> te_open_confirm env fn (ch_self c) True t))) t"

text \<open>Reason, message and language of an OPEN\<open>_\<close>FAILURE are only logged.\<close>

definition open_failure_text :: "compat \<Rightarrow> bytes \<Rightarrow> chan_stop + bytes" where
  "open_failure_text g p =
     (case packet_get_int p of
        Inl e \<Rightarrow> Inl e
      | Inr (reason, p) \<Rightarrow>
          if datafellows g AND SSH_BUG_OPENFAILURE \<noteq> 0 then Inr p
          else case packet_get_string p of
            Inl e \<Rightarrow> Inl e
          | Inr (msg, p) \<Rightarrow> (case packet_get_string p of Inl e \<Rightarrow> Inl e | Inr (lang, p) \<Rightarrow> Inr p))"

definition mark_dead_slot :: "nat \<Rightarrow> chan_table \<Rightarrow> chan_table" where
  "mark_dead_slot i t = (case chans t ! i of None \<Rightarrow> t | Some c \<Rightarrow> set_chan i (chan_mark_dead c) t)"

definition channel_input_open_failure :: "tab_env \<Rightarrow> int \<Rightarrow> bytes \<Rightarrow> chan_table \<Rightarrow> unit tab_result" where
  "channel_input_open_failure env ty p t =
     for_channel env ty (Inl Disconnect, t) p
       (\<lambda>i c p. if ch_type c \<noteq> SSH_CHANNEL_OPENING then (Inl Disconnect, t)
          else case (if compat20 (te_compat env) then open_failure_text (te_compat env) p else Inr p) of
            Inl e \<Rightarrow> (Inl e, t)
          | Inr p \<Rightarrow>
              let t = (if compat20 (te_compat env)
                       then case ch_open_confirm c of None \<Rightarrow> t | Some fn \<Rightarrow> te_open_confirm env fn (ch_self c) False t
                       else t)
              in rbind (tab_eom p t) (\<lambda>_ t. (Inr (), mark_dead_slot i t))) t"

definition channel_input_window_adjust :: "tab_env \<Rightarrow> int \<Rightarrow> bytes \<Rightarrow> chan_table \<Rightarrow> unit tab_result" where
  "channel_input_window_adjust env ty p t =
     (if \<not> compat20 (te_compat env) then (Inr (), t)
      else for_channel env ty (Inr (), t) p (\<lambda>i c p. on_slot i (window_adjust_chan p) c t) t)"

definition drop_confirm :: "nat \<Rightarrow> chan_table \<Rightarrow> chan_table" where
  "drop_confirm i t =
     (case chans t ! i of None \<Rightarrow> t | Some c \<Rightarrow> set_chan i (c\<lparr>ch_status_confirms := tl (ch_status_confirms c)\<rparr>) t)"

definition channel_input_status_confirm :: "tab_env \<Rightarrow> int \<Rightarrow> bytes \<Rightarrow> chan_table \<Rightarrow> unit tab_result" where
  "channel_input_status_confirm env ty p t =
     for_channel env ty (Inr (), t) p
       (\<lambda>i c p. rbind (tab_eom p t) (\<lambda>_ t.
          case ch_status_confirms c of
            [] \<Rightarrow> (Inr (), t)
          | cb # _ \<Rightarrow> (Inr (), drop_confirm i (te_status env cb ty (ch_self c) t)))) t"

section \<open>The invariant of the table\<close>

text \<open>The channel types are numbered from 1 to 20.\<close>

definition chan_types :: "int set" where "chan_types = {1..20}"

lemma chan_types_eq: "set (idle_types @ shown_types) = chan_types"
proof (rule set_eqI)
  fix x
  show "x \<in> set (idle_types @ shown_types) \<longleftrightarrow> x \<in> chan_types"
    unfolding idle_types_def shown_types_def chan_types_def chan_type_defs by simp presburger
qed

definition slot_ok :: "int \<Rightarrow> nat \<Rightarrow> channel \<Rightarrow> bool" where
  "slot_ok m i c \<longleftrightarrow> ch_self c = int i \<and> ch_rfd c \<le> m \<and> ch_wfd c \<le> m \<and> ch_efd c \<le> m \<and>
     (ch_sock c = - 1 \<or> ch_sock c = ch_rfd c) \<and> ch_type c \<in> chan_types"

definition tab_inv :: "chan_table \<Rightarrow> bool" where
  "tab_inv t \<longleftrightarrow> 0 \<le> channel_max_fd t \<and>
     (\<forall>i < length (chans t). \<forall>c. chans t ! i = Some c \<longrightarrow> slot_ok (channel_max_fd t) i c)"

lemma slot_ok_mono: "slot_ok m i c \<Longrightarrow> m \<le> m' \<Longrightarrow> slot_ok m' i c"
  by (auto simp: slot_ok_def)

lemma tab_inv_slot: "tab_inv t \<Longrightarrow> i < length (chans t) \<Longrightarrow> chans t ! i = Some c \<Longrightarrow> slot_ok (channel_max_fd t) i c"
  by (auto simp: tab_inv_def)

lemma tab_inv_set: "tab_inv t \<Longrightarrow> slot_ok (channel_max_fd t) i c \<Longrightarrow> tab_inv (set_chan i c t)"
  by (cases "i < length (chans t)") (auto simp: tab_inv_def set_chan_def nth_list_update split: if_splits)

lemma length_set_chan [simp]: "length (chans (set_chan i c t)) = length (chans t)"
  "channel_max_fd (set_chan i c t) = channel_max_fd t"
  by (simp_all add: set_chan_def)

text \<open>\<open>channel_find_maxfd\<close> bounds every descriptor of the table.\<close>

lemma find_maxfd_bound:
  "0 \<le> m \<Longrightarrow>
   m \<le> fold (\<lambda>x m. case x of None \<Rightarrow> m | Some c \<Rightarrow> max (max (max m (ch_rfd c)) (ch_wfd c)) (ch_efd c)) cs m \<and>
   (\<forall>c. Some c \<in> set cs \<longrightarrow>
      ch_rfd c \<le> fold (\<lambda>x m. case x of None \<Rightarrow> m | Some c \<Rightarrow> max (max (max m (ch_rfd c)) (ch_wfd c)) (ch_efd c)) cs m \<and>
      ch_wfd c \<le> fold (\<lambda>x m. case x of None \<Rightarrow> m | Some c \<Rightarrow> max (max (max m (ch_rfd c)) (ch_wfd c)) (ch_efd c)) cs m \<and>
      ch_efd c \<le> fold (\<lambda>x m. case x of None \<Rightarrow> m | Some c \<Rightarrow> max (max (max m (ch_rfd c)) (ch_wfd c)) (ch_efd c)) cs m)"
proof (induction cs arbitrary: m)
  case (Cons x cs)
  show ?case
  proof (cases x)
    case None
    then show ?thesis using Cons by simp
  next
    case (Some c)
    let ?m = "max (max (max m (ch_rfd c)) (ch_wfd c)) (ch_efd c)"
    have "0 \<le> ?m" using Cons.prems by simp
    then show ?thesis using Cons.IH [of ?m] Some by (auto intro: order_trans)
  qed
qed simp

lemma tab_inv_closed:
  assumes "tab_inv t"
  shows "tab_inv (fd_closed fd t)"
proof -
  have b: "0 \<le> channel_find_maxfd (chans t)" "Some c \<in> set (chans t) \<Longrightarrow> ch_rfd c \<le> channel_find_maxfd (chans t) \<and>
      ch_wfd c \<le> channel_find_maxfd (chans t) \<and> ch_efd c \<le> channel_find_maxfd (chans t)" for c
    using find_maxfd_bound [of 0 "chans t"] unfolding channel_find_maxfd_def by blast+
  have "slot_ok (channel_find_maxfd (chans t)) i c" if "i < length (chans t)" "chans t ! i = Some c" for i c
    using tab_inv_slot [OF assms that] b(2) [of c] nth_mem [OF that(1)] that(2) by (simp add: slot_ok_def)
  then show ?thesis using assms b(1) by (simp add: tab_inv_def fd_closed_def)
qed

lemma tab_inv_closed_all: "tab_inv t \<Longrightarrow> tab_inv (fold fd_closed fds t)"
  by (induction fds arbitrary: t) (auto intro: tab_inv_closed)

lemma length_closed [simp]: "length (chans (fd_closed fd t)) = length (chans t)" "chans (fd_closed fd t) = chans t"
  by (simp_all add: fd_closed_def)

text \<open>What the handlers may do to a channel of the table: they never invent a descriptor or a type.\<close>

definition tame :: "channel \<Rightarrow> channel \<Rightarrow> bool" where
  "tame c c' \<longleftrightarrow> ch_self c' = ch_self c \<and> (ch_rfd c' = ch_rfd c \<or> ch_rfd c' = - 1) \<and>
     (ch_wfd c' = ch_wfd c \<or> ch_wfd c' = - 1) \<and> (ch_efd c' = ch_efd c \<or> ch_efd c' = - 1) \<and>
     (ch_sock c' = - 1 \<or> ch_sock c' = ch_sock c \<and> ch_rfd c' = ch_rfd c) \<and>
     (ch_type c' = ch_type c \<or> ch_type c' \<in> chan_types)"

lemma tame_refl [simp, intro]: "tame c c"
  by (simp add: tame_def)

lemma tame_trans [trans]: "tame c c' \<Longrightarrow> tame c' c'' \<Longrightarrow> tame c c''"
  unfolding tame_def by (elim conjE, intro conjI) metis+

lemma slot_ok_tame: "slot_ok m i c \<Longrightarrow> tame c c' \<Longrightarrow> 0 \<le> m \<Longrightarrow> slot_ok m i c'"
  by (auto simp: slot_ok_def tame_def)

lemma tab_inv_tame:
  assumes "tab_inv t" and "i < length (chans t)" and "chans t ! i = Some c" and "tame c c'"
  shows "tab_inv (set_chan i c' t)"
  using assms tab_inv_slot [OF assms(1-3)] by (intro tab_inv_set) (auto intro: slot_ok_tame simp: tab_inv_def)

lemma tab_inv_put:
  assumes "tab_inv t" and "i < length (chans t)" and "chans t ! i = Some c" and "tame c c'"
  shows "tab_inv (put_chan i c c' t)"
  unfolding put_chan_def using tab_inv_tame [OF assms] by (rule tab_inv_closed_all)

lemma tame_types [simp]: "SSH_CHANNEL_ZOMBIE \<in> chan_types" "SSH_CHANNEL_INPUT_DRAINING \<in> chan_types"
  "SSH_CHANNEL_OPEN \<in> chan_types" "SSH_CHANNEL_OUTPUT_DRAINING \<in> chan_types"
  by (simp_all add: chan_types_def chan_type_defs)

lemma tame_simps [simp, intro]:
  "tame c (emit e c)" "tame c (set_flag f c)" "tame c (close_wfd c)" "tame c (close_efd c)"
  "tame c (chan_mark_dead c)" "tame c (c\<lparr>ch_input := bs\<rparr>)" "tame c (c\<lparr>ch_output := bs\<rparr>)" "tame c (c\<lparr>ch_extended := bs\<rparr>)"
  "tame c (c\<lparr>ch_istate := i\<rparr>)" "tame c (c\<lparr>ch_ostate := j\<rparr>)" "tame c (c\<lparr>ch_remote_window := n\<rparr>)"
  "tame c (c\<lparr>ch_local_window := n\<rparr>)" "tame c (c\<lparr>ch_local_consumed := n\<rparr>)" "tame c (c\<lparr>ch_remote_id := k\<rparr>)"
  by (auto simp: tame_def emit_def set_flag_def close_wfd_def close_efd_def chan_mark_dead_def)

lemma tame_nchan [simp, intro]:
  "tame c (chan_shutdown_read g c)" "tame c (chan_shutdown_write g c)" "tame c (chan_send_eof2 c)"
  "tame c (chan_send_ieof1 c)" "tame c (chan_send_oclose1 c)" "tame c (chan_send_close2 c)" "tame c (chan_send_eow2 g c)"
  by (auto simp: tame_def chan_shutdown_read_def chan_shutdown_write_def chan_send_eof2_def chan_send_ieof1_def
      chan_send_oclose1_def chan_send_close2_def chan_send_eow2_def close_rfd_def close_wfd_def emit_def
      set_flag_def Let_def split: istate.split ostate.split)

lemma tame_upd:
  "tame c (d\<lparr>ch_istate := i\<rparr>) = tame c d" "tame c (d\<lparr>ch_ostate := j\<rparr>) = tame c d" "tame c (set_flag f d) = tame c d"
  "tame c (d\<lparr>ch_output := bs\<rparr>) = tame c d" "tame c (d\<lparr>ch_input := bs\<rparr>) = tame c d" "tame c (d\<lparr>ch_extended := bs\<rparr>) = tame c d"
  "tame c (d\<lparr>ch_remote_window := n\<rparr>) = tame c d" "tame c (d\<lparr>ch_local_window := n\<rparr>) = tame c d"
  "tame c (d\<lparr>ch_local_consumed := n\<rparr>) = tame c d" "tame c (emit e d) = tame c d" "tame c (d\<lparr>ch_remote_id := k\<rparr>) = tame c d"
  "tame c (d\<lparr>ch_local_window_max := n\<rparr>) = tame c d" "tame c (d\<lparr>ch_remote_maxpacket := n\<rparr>) = tame c d"
  "tame c (d\<lparr>ch_status_confirms := cs\<rparr>) = tame c d" "tame c (d\<lparr>ch_open_confirm := fn\<rparr>) = tame c d"
  "tame c (d\<lparr>ch_detach_user := fn\<rparr>) = tame c d" "tame c (d\<lparr>ch_detach_close := b\<rparr>) = tame c d"
  "tame c (d\<lparr>ch_input_filter := fn\<rparr>) = tame c d" "tame c (d\<lparr>ch_output_filter := fn\<rparr>) = tame c d"
  "tame c (d\<lparr>ch_filter_cleanup := fn\<rparr>) = tame c d"
  by (simp_all add: tame_def set_flag_def emit_def)

text \<open>The filters of other components are assumed to be as tame as the handlers.\<close>

definition tame_filters :: "chan_env \<Rightarrow> bool" where
  "tame_filters env \<longleftrightarrow> (\<forall>f c bs. tame c (snd (ce_infilter env f c bs))) \<and> (\<forall>f c. tame c (snd (ce_outfilter env f c)))"

lemma tame_shutdown:
  "tame c d \<Longrightarrow> tame c (chan_shutdown_read g d)" "tame c d \<Longrightarrow> tame c (chan_shutdown_write g d)"
  using tame_trans tame_nchan by blast+

lemma tame_events [simp, intro]:
  "tame c (chan_read_failed g c)" "tame c (chan_ibuf_empty g c)" "tame c (chan_obuf_empty g c)"
  "tame c (chan_write_failed g c)" "tame c (chan_rcvd_ieof g c)" "tame c (chan_rcvd_oclose g c)"
  "tame c (snd (chan_is_dead g c s))"
  by (auto simp: nchan_defs tame_upd split: istate.split ostate.split
      intro!: tame_shutdown)

lemma tame_rbind:
  assumes "tame c (snd m)" and "\<And>x d. m = (Inr x, d) \<Longrightarrow> tame c d \<Longrightarrow> tame c (snd (f x d))"
  shows "tame c (snd (rbind m f))"
  using assms by (rule rbind_invariant)

lemma tame_put [simp]:
  "tame c (snd (put_input b d)) = tame c d" "tame c (snd (put_output b d)) = tame c d"
  "tame c (snd (put_extended b d)) = tame c d" "tame c (snd (packet_check_eom p d)) = tame c d"
  by (auto simp: put_input_def put_output_def put_extended_def packet_check_eom_def tame_upd split: option.split)

lemma tame_typed: "tame c d \<Longrightarrow> ty \<in> chan_types \<Longrightarrow> tame c (d\<lparr>ch_type := ty\<rparr>)"
  by (auto simp: tame_def)

lemma tame_output_poll: "tame c (snd (output_poll_chan env c))"
proof -
  have s: "tame c d \<Longrightarrow> tame c (send_data bs d)" for bs d by (simp add: send_data_def tame_upd)
  have p: "tame c (snd (poll_input env c))"
    by (auto simp: poll_input_def poll_datagram_def poll_stream_def Let_def s tame_upd
        split: sum.split prod.split)
  have x: "tame c d \<Longrightarrow> tame c (poll_extended env d)" for d
    by (auto simp: poll_extended_def Let_def tame_upd)
  have "tame c (snd (rbind (poll_input env c) (\<lambda>skip c. (Inr (), if skip then c else poll_extended env c))))"
    by (rule tame_rbind [OF p]) (simp add: x)
  then show ?thesis by (simp add: output_poll_chan_def)
qed

lemma tame_input_data: "tame c (snd (input_data_chan env p c))"
  by (auto simp: input_data_chan_def Let_def tame_upd split: sum.split prod.split intro!: tame_rbind)

lemma tame_input_extended: "tame c (snd (input_extended_data_chan env p c))"
  by (auto simp: input_extended_data_chan_def Let_def tame_upd split: sum.split prod.split intro!: tame_rbind)

lemma tame_input_ieof: "tame c (input_ieof_chan env c)"
  by (auto simp: input_ieof_chan_def Let_def tame_upd intro: tame_trans [OF tame_events(5)] tame_trans [OF _ tame_events(2)])

lemma tame_input_oclose: "tame c (snd (input_oclose_chan env p c))"
  by (auto simp: input_oclose_chan_def intro!: tame_rbind intro: tame_trans)

lemma tame_window_adjust: "tame c (snd (window_adjust_chan p c))"
  by (auto simp: window_adjust_chan_def Let_def tame_upd split: sum.split prod.split intro!: tame_rbind)

lemma tame_post_open:
  assumes "tame_filters env"
  shows "tame c (snd (channel_post_open env s c))"
proof -
  have f: "tame c d \<Longrightarrow> tame c (snd (ce_infilter env f d bs))" "tame c d \<Longrightarrow> tame c (snd (ce_outfilter env f d))" for f d bs
    using assms tame_trans unfolding tame_filters_def by blast+
  have e: "tame c d \<Longrightarrow> tame c (chan_read_failed g d)" "tame c d \<Longrightarrow> tame c (chan_write_failed g d)"
      "tame c d \<Longrightarrow> tame c (chan_mark_dead d)" "tame c d \<Longrightarrow> tame c (close_efd d)" for d g
    using tame_trans tame_events tame_simps by blast+
  have rf: "tame c d \<Longrightarrow> tame c (snd (rfd_failed env d))" for d
    by (auto simp: rfd_failed_def tame_upd e intro!: tame_typed)
  have wf: "tame c d \<Longrightarrow> tame c (snd (wfd_failed env d))" for d
    by (auto simp: wfd_failed_def e)
  have rd: "tame c d \<Longrightarrow> tame c (snd (rfd_data env bs d))" for bs d
    using f(1) [of d _ bs]
    by (auto simp: rfd_data_def e split: option.split prod.split intro!: tame_rbind) (metis e(1) snd_conv)+
  have "tame c (snd (channel_handle_rfd env rs r c))" for rs r
    by (auto simp: channel_handle_rfd_def Let_def rf rd tame_upd split: rdres.split)
  moreover have wd: "tame c d \<Longrightarrow> tame c (snd (wfd_data env d))" for d
    using f(2) [of d] by (auto simp: wfd_data_def tame_upd split: option.split prod.split sum.split) (metis snd_conv)+
  have ww: "tame c d \<Longrightarrow> tame c (snd (wfd_written env bs n k d))" for d bs n k
    by (auto simp: wfd_written_def fake_echo_def credit_def tame_upd Let_def)
  have "tame c d \<Longrightarrow> tame c (snd (channel_handle_wfd env ws w d))" for ws w d
    by (auto simp: channel_handle_wfd_def Let_def wf ww credit_def tame_upd split: option.split intro!: tame_rbind wd tame_typed)
  moreover have "tame c d \<Longrightarrow> tame c (snd (channel_handle_efd env rs ws r w d))" for rs ws r w d
    by (auto simp: channel_handle_efd_def efd_write_def efd_read_def Let_def e tame_upd
        split: rdres.split wrres.split intro!: tame_rbind)
  moreover have "tame c d \<Longrightarrow> tame c (channel_check_window d)" for d
    by (auto simp: channel_check_window_def tame_upd)
  ultimately show ?thesis by (auto simp: channel_post_open_def intro!: tame_rbind)
qed

section \<open>Every operation keeps the invariant\<close>

lemma length_put_chan [simp]: "length (chans (put_chan i c c' t)) = length (chans t)"
proof -
  have "length (chans (fold fd_closed fds t)) = length (chans t)" for fds t
    by (induction fds arbitrary: t) simp_all
  then show ?thesis by (simp add: put_chan_def)
qed

lemma chans_put_chan: "chans (put_chan i c c' t) = (chans t)[i := Some c']"
proof -
  have "chans (fold fd_closed fds t) = chans t" for fds t
    by (induction fds arbitrary: t) simp_all
  then show ?thesis by (simp add: put_chan_def set_chan_def)
qed

lemma lookup_slot:
  assumes "channel_lookup i t = Some c"
  shows "nat i < length (chans t)" "chans t ! nat i = Some c" "0 \<le> i"
  using assms by (auto simp: channel_lookup_def channel_by_id_def split: if_splits option.splits)

lemma by_id_slot:
  assumes "channel_by_id i t = Some c"
  shows "nat i < length (chans t)" "chans t ! nat i = Some c" "0 \<le> i"
  using assms by (auto simp: channel_by_id_def split: if_splits)

text \<open>\<open>rfd\<close> is closed only after the socket, so that a socket is always one of the counted descriptors.\<close>

lemma close_fd_inv:
  assumes "tab_inv t" and "i < length (chans t)" and "\<And>c. f = FD_rfd \<Longrightarrow> chans t ! i = Some c \<Longrightarrow> ch_sock c = - 1"
  shows "tab_inv (channel_close_fd f i t)"
proof (cases "chans t ! i")
  case (Some d)
  have "tame d (clear_fd f (emit e d))" for e
    using assms(3) [OF _ Some] tab_inv_slot [OF assms(1,2) Some]
    by (cases f) (auto simp: tame_def emit_def slot_ok_def)
  then show ?thesis using assms(1,2) Some by (auto simp: channel_close_fd_def intro: tab_inv_closed tab_inv_tame)
qed (use assms in \<open>simp add: channel_close_fd_def\<close>)

lemma length_close_fd [simp]: "length (chans (channel_close_fd f i t)) = length (chans t)"
  by (simp add: channel_close_fd_def split: option.split)

lemma close_sock_inv: "tab_inv t \<Longrightarrow> i < length (chans t) \<Longrightarrow> tab_inv (channel_close_fd FD_sock i t)"
  by (rule close_fd_inv) simp_all

lemma close_sock: "i < length (chans t) \<Longrightarrow> chans (channel_close_fd FD_sock i t) ! i = Some c \<Longrightarrow> ch_sock c = - 1"
  by (auto simp: channel_close_fd_def set_chan_def split: option.splits if_splits)

lemma close_fds_inv: "tab_inv t \<Longrightarrow> i < length (chans t) \<Longrightarrow> tab_inv (channel_close_fds i t)"
  unfolding channel_close_fds_def by (intro close_fd_inv) (auto dest: close_sock)

lemma length_close_fds [simp]: "length (chans (channel_close_fds i t)) = length (chans t)"
  by (simp add: channel_close_fds_def)

lemma tab_inv_free_slot:
  "tab_inv t \<Longrightarrow> tab_inv (t\<lparr>chans := (chans t)[i := None], tab_log := es\<rparr>)"
  by (cases "i < length (chans t)") (auto simp: tab_inv_def nth_list_update split: if_splits)

lemma detach_inv: "tab_inv t \<Longrightarrow> tab_inv (detach_mux_client g i t)"
  by (auto simp: tab_inv_def detach_mux_client_def slot_ok_def detach_proxy_def chan_types_def SSH_CHANNEL_OPEN_def)

lemma length_detach [simp]: "length (chans (detach_mux_client g i t)) = length (chans t)"
  by (simp add: detach_mux_client_def)

lemma open_message_returns: "tab_inv t \<Longrightarrow> \<exists>xs. channel_open_message t = Inr xs"
  using chan_types_eq
  by (auto simp: channel_open_message_def list_all_iff tab_inv_def slot_ok_def map_filter_def in_set_conv_nth)

lemma free_inv:
  assumes "tab_inv t" and "i < length (chans t)"
  shows "tab_inv (snd (channel_free g i t))" and "fst (channel_free g i t) = Inr ()"
    and "length (chans (snd (channel_free g i t))) = length (chans t)"
proof -
  define t1 where "t1 c = (if ch_type c = SSH_CHANNEL_MUX_CLIENT then detach_mux_client g i t else t)" for c :: channel
  have t1: "tab_inv (t1 c)" "length (chans (t1 c)) = length (chans t)" for c
    using assms detach_inv by (simp_all add: t1_def)
  have c: "slot_ok (channel_max_fd (t1 c)) i c" if "chans t ! i = Some c" for c
    using tab_inv_slot [OF assms that] by (simp add: t1_def detach_mux_client_def)
  have e: "slot_ok m i c \<Longrightarrow> slot_ok m i (emit x c)" for m c x by (simp add: slot_ok_def emit_def)
  have s: "tab_inv (if ch_sock c \<noteq> - 1 then set_chan i (emit x c) (t1 c) else t1 c)" if "chans t ! i = Some c" for c x
    using t1(1) c [OF that] by (simp add: tab_inv_set e)
  have r: "tab_inv (snd (channel_free g i t)) \<and> fst (channel_free g i t) = Inr () \<and>
      length (chans (snd (channel_free g i t))) = length (chans t)"
  proof (cases "chans t ! i")
    case (Some c)
    obtain xs where xs: "channel_open_message (t1 c) = Inr xs" using open_message_returns [OF t1(1)] by blast
    define t2 where "t2 = channel_close_fds i
        (if ch_sock c \<noteq> - 1 then set_chan i (emit (SYS_SHUT_RDWR (ch_sock c)) c) (t1 c) else t1 c)"
    have "tab_inv t2" "length (chans t2) = length (chans t)"
      unfolding t2_def using close_fds_inv [OF s [OF Some]] t1(2) assms(2) by simp_all
    moreover have "channel_free g i t = (Inr (), t2\<lparr>chans := (chans t2)[i := None],
        tab_log := tab_log t2 @ FREED (the (chans t2 ! i)) # map ABANDONED_CONFIRM (ch_status_confirms (the (chans t2 ! i))) @
          (case ch_filter_cleanup (the (chans t2 ! i)) of None \<Rightarrow> []
           | Some f \<Rightarrow> [FILTER_CLEANUP f (ch_self (the (chans t2 ! i)))])\<rparr>)"
      unfolding t2_def using Some xs by (simp add: channel_free_def t1_def [symmetric] Let_def)
    ultimately show ?thesis by (simp add: tab_inv_free_slot)
  qed (use assms in \<open>simp add: channel_free_def\<close>)
  then show "tab_inv (snd (channel_free g i t))" "fst (channel_free g i t) = Inr ()"
    "length (chans (snd (channel_free g i t))) = length (chans t)" by blast+
qed

lemma free_slot_empty:
  assumes "tab_inv t" and "i < length (chans t)"
  shows "chans (snd (channel_free g i t)) ! i = None"
proof (cases "chans t ! i")
  case (Some c)
  define t1 where "t1 = (if ch_type c = SSH_CHANNEL_MUX_CLIENT then detach_mux_client g i t else t)"
  have t1: "tab_inv t1" "length (chans t1) = length (chans t)" using assms detach_inv by (simp_all add: t1_def)
  then obtain xs where "channel_open_message t1 = Inr xs" using open_message_returns by blast
  then show ?thesis using Some t1(2) assms(2) by (simp add: channel_free_def t1_def [symmetric] Let_def)
qed (simp add: channel_free_def)

lemma tab_loop_inv:
  assumes "\<And>i t. tab_inv t \<Longrightarrow> i < n \<Longrightarrow> length (chans t) = n \<Longrightarrow>
      tab_inv (snd (f i t)) \<and> length (chans (snd (f i t))) = n"
    and "tab_inv t" and "length (chans t) = n" and "set is \<subseteq> {0..<n}"
  shows "tab_inv (snd (tab_loop f is t)) \<and> length (chans (snd (tab_loop f is t))) = n"
  using assms(2-4)
proof (induction "is" arbitrary: t)
  case (Cons i is')
  have "tab_inv (snd (f i t)) \<and> length (chans (snd (f i t))) = n" using assms(1) Cons.prems by simp
  then show ?case using Cons.IH Cons.prems by (cases "f i t") (auto simp: rbind_def split: sum.split)
qed simp

lemma loop_inv:
  assumes "\<And>i t'. tab_inv t' \<Longrightarrow> i < length (chans t) \<Longrightarrow> length (chans t') = length (chans t) \<Longrightarrow>
      tab_inv (snd (f i t')) \<and> length (chans (snd (f i t'))) = length (chans t)"
    and "tab_inv t"
  shows "tab_inv (snd (tab_loop f [0..<length (chans t)] t))"
  using tab_loop_inv [of "length (chans t)" f t "[0..<length (chans t)]"] assms by auto

lemma free_all_inv: "tab_inv t \<Longrightarrow> tab_inv (snd (channel_free_all g t))"
  unfolding channel_free_all_def by (rule loop_inv) (simp_all add: free_inv)

lemma close_all_inv: "tab_inv t \<Longrightarrow> tab_inv (snd (channel_close_all t))"
  unfolding channel_close_all_def by (rule loop_inv) (simp_all add: close_fds_inv)

lemma stop_listening_inv: "tab_inv t \<Longrightarrow> tab_inv (snd (channel_stop_listening g t))"
  unfolding channel_stop_listening_def
  by (rule loop_inv) (auto simp: free_inv close_sock_inv split: option.split)

lemma on_slot_inv:
  assumes "tab_inv t" and "i < length (chans t)" and "chans t ! i = Some c" and "tame c (snd (f c))"
  shows "tab_inv (snd (on_slot i f c t))" and "length (chans (snd (on_slot i f c t))) = length (chans t)"
  using assms tab_inv_put by (auto simp: on_slot_def split: prod.split)

lemma output_poll_inv: "tab_inv t \<Longrightarrow> tab_inv (snd (channel_output_poll env t))"
  unfolding channel_output_poll_def
  by (rule loop_inv) (auto simp: on_slot_inv tame_output_poll split: option.split)

lemma on_public_inv: "tab_inv t \<Longrightarrow> (\<And>c. tame c (f c)) \<Longrightarrow> tab_inv (on_public i f t)"
  by (auto simp: on_public_def split: option.split dest: lookup_slot intro: tab_inv_tame)

lemma register_inv:
  assumes "tab_inv t"
  shows "tab_inv (channel_send_open i t)" and "tab_inv (snd (channel_register_status_confirm i cb t))"
    and "tab_inv (channel_register_open_confirm i fn t)" and "tab_inv (channel_register_cleanup i fn do_close t)"
    and "tab_inv (channel_cancel_cleanup i t)" and "tab_inv (channel_register_filter i ifn ofn cfn t)"
  using assms
  by (auto simp: channel_send_open_def channel_register_open_confirm_def channel_register_filter_def
      channel_register_status_confirm_def channel_register_cleanup_def channel_cancel_cleanup_def tame_upd
      split: option.split dest: lookup_slot by_id_slot intro!: on_public_inv intro: tab_inv_tame)

lemma register_fds_inv:
  assumes "tab_inv t" and "ch_self c = int i" and "ch_type c \<in> chan_types"
  shows "tab_inv (channel_register_fds i c rfd wfd efd ext tty t)"
proof -
  let ?m = "max (max (max (channel_max_fd t) rfd) wfd) efd"
  have "tab_inv (t\<lparr>channel_max_fd := ?m\<rparr>)"
    using assms(1) slot_ok_mono [of "channel_max_fd t" _ _ ?m] by (auto simp: tab_inv_def)
  then show ?thesis
    unfolding channel_register_fds_def using assms(2,3) by (intro tab_inv_set) (auto simp: slot_ok_def)
qed

lemma set_fds_inv: "tab_inv t \<Longrightarrow> tab_inv (snd (channel_set_fds i rfd wfd efd ext tty wmax t))"
proof -
  assume a: "tab_inv t"
  show ?thesis
  proof (cases "\<exists>c. channel_lookup i t = Some c \<and> ch_type c = SSH_CHANNEL_LARVAL")
    case True
    then obtain c where c: "channel_lookup i t = Some c" "ch_type c = SSH_CHANNEL_LARVAL" by blast
    note s = lookup_slot [OF c(1)]
    have sl: "slot_ok (channel_max_fd t) (nat i) c" using tab_inv_slot [OF a s(1,2)] .
    let ?t = "channel_register_fds (nat i) c rfd wfd efd ext tty t"
    have t: "tab_inv ?t" using sl by (intro register_fds_inv [OF a]) (auto simp: slot_ok_def)
    have l: "nat i < length (chans ?t)" "chans ?t ! nat i = Some (the (chans ?t ! nat i))"
      using s(1) by (simp_all add: channel_register_fds_def set_chan_def)
    show ?thesis
      using tab_inv_tame [OF t l] c by (simp add: channel_set_fds_def Let_def tame_upd tame_typed)
  qed (use a in \<open>auto simp: channel_set_fds_def split: option.split\<close>)
qed

lemma new_inv:
  assumes "tab_inv t" and "ty \<in> chan_types"
  shows "tab_inv (snd (channel_new ctype ty rfd wfd efd window maxpack ext rname t))"
proof -
  have g: "tab_inv (t'\<lparr>chans := chans t' @ replicate n None\<rparr>)" if "tab_inv t'" for t' n
    using that by (auto simp: tab_inv_def nth_append split: if_splits)
  have g0: "tab_inv (t\<lparr>chans := replicate 10 None\<rparr>)" using assms(1) by (auto simp: tab_inv_def)
  have "first_free (replicate 10 None) = Some 0" by (simp add: numeral_eq_Suc)
  then show ?thesis
    using assms g g0
    by (auto simp: channel_new_def Let_def blank_channel_def split: option.split intro!: register_fds_inv)
qed

text \<open>The callbacks of other components are assumed to keep the invariant; the table never shrinks.\<close>

definition tame_callbacks :: "tab_env \<Rightarrow> bool" where
  "tame_callbacks env \<longleftrightarrow> tame_filters (te_chan env) \<and>
     (\<forall>t. tab_inv t \<longrightarrow>
        (\<forall>fn i b. tab_inv (te_open_confirm env fn i b t) \<and> length (chans t) \<le> length (chans (te_open_confirm env fn i b t))) \<and>
        (\<forall>fn i. tab_inv (te_detach env fn i t) \<and> length (chans t) \<le> length (chans (te_detach env fn i t))) \<and>
        (\<forall>fn ty i. tab_inv (te_status env fn ty i t) \<and> length (chans t) \<le> length (chans (te_status env fn ty i t))))"

lemma garbage_collect_inv:
  assumes "tame_callbacks env" and "tab_inv t" and "i < length (chans t)"
  shows "tab_inv (snd (channel_garbage_collect env i t))"
proof -
  let ?g = "te_compat env"
  have p: "tab_inv (put_chan i c c' t')" if "tab_inv t'" "i < length (chans t')" "chans t' ! i = Some c"
      "chan_is_dead ?g c b = (d, c')" for c c' t' b d
    using tab_inv_put [OF that(1-3), of c'] tame_events(7) [of c ?g b] that(4) by simp
  have d: "tab_inv (te_detach env fn k t')" "length (chans t') \<le> length (chans (te_detach env fn k t'))"
    if "tab_inv t'" for fn k t' using assms(1) that unfolding tame_callbacks_def by blast+
  have c: "tab_inv (snd (case chans t' ! i of None \<Rightarrow> (Inr (), t') | Some c \<Rightarrow>
        (case chan_is_dead ?g c True of (dead, c') \<Rightarrow>
           if dead then channel_free ?g i (put_chan i c c' t') else (Inr (), put_chan i c c' t'))))"
    if "tab_inv t'" "i < length (chans t')" for t'
    using that p [OF that] by (auto simp: free_inv split: option.split prod.split)
  show ?thesis
  proof (cases "chans t ! i")
    case (Some ch)
    show ?thesis
    proof (cases "ch_detach_user ch")
      case None
      then show ?thesis using Some c [OF assms(2,3)] by (simp add: channel_garbage_collect_def Let_def)
    next
      case (Some fn)
      obtain dead c' where dc: "chan_is_dead ?g ch (ch_detach_close ch) = (dead, c')" by fastforce
      let ?t = "put_chan i ch c' t" and ?u = "te_detach env fn (ch_self ch) (put_chan i ch c' t)"
      have t: "tab_inv ?t" "i < length (chans ?t)" using p [OF assms(2,3) \<open>chans t ! i = Some ch\<close> dc] assms(3) by simp_all
      have u: "tab_inv ?u" "i < length (chans ?u)" using d [OF t(1)] t(2) by (auto intro: less_le_trans)
      show ?thesis
        using Some \<open>chans t ! i = Some ch\<close> dc t u c [OF u]
        by (cases "chans ?u ! i") (simp_all add: channel_garbage_collect_def Let_def)
    qed
  qed (use assms in \<open>simp add: channel_garbage_collect_def\<close>)
qed

lemma to_downstream_inv:
  assumes "tab_inv t"
  shows "tab_inv (to_downstream d b t)" "length (chans (to_downstream d b t)) = length (chans t)"
    "channel_max_fd (to_downstream d b t) = channel_max_fd t"
proof -
  have "tab_inv (set_chan d (dc\<lparr>ch_output := out\<rparr>) t)" if "chans t ! d = Some dc" for dc out
  proof (cases "d < length (chans t)")
    case True
    then show ?thesis using tab_inv_tame [OF assms True that] by simp
  next
    case False
    then show ?thesis using assms by (simp add: set_chan_def tab_inv_def list_update_beyond)
  qed
  then show "tab_inv (to_downstream d b t)" using assms by (auto simp: to_downstream_def split: option.split)
qed (auto simp: to_downstream_def split: option.split)

lemma proxy_inv:
  assumes "tab_inv t" and "i < length (chans t)" and "chans t ! i = Some c"
    and "channel_proxy_upstream g i c ty cp t = Some r"
  shows "tab_inv (snd r)"
proof -
  obtain d where d: "ch_type c = SSH_CHANNEL_MUX_PROXY" "ch_mux_ctx c = Some d" "ty \<in> set proxied_types"
    using assms(4) by (auto simp: channel_proxy_upstream_def split: if_splits option.splits)
  have s: "slot_ok (channel_max_fd t) i c" using tab_inv_slot [OF assms(1-3)] .
  have "slot_ok (channel_max_fd t) i (c\<lparr>ch_remote_id := k\<rparr>)" "slot_ok (channel_max_fd t) i (set_flag f c)" for k f
    using s by (simp_all add: slot_ok_def set_flag_def)
  then show ?thesis
    using assms d
    by (auto simp: channel_proxy_upstream_def Let_def free_inv to_downstream_inv tab_inv_set split: if_splits)
qed

lemma for_channel_inv:
  assumes "tab_inv t" and "tab_inv (snd missing)"
    and "\<And>i c p. i < length (chans t) \<Longrightarrow> chans t ! i = Some c \<Longrightarrow> tab_inv (snd (handle i c p))"
  shows "tab_inv (snd (for_channel env ty missing p handle t))"
proof (cases "packet_get_int p")
  case (Inr x)
  obtain w q where w: "packet_get_int p = Inr (w, q)" using Inr by (cases x) simp
  show ?thesis
  proof (cases "channel_lookup (sint w) t")
    case (Some c)
    note s = lookup_slot [OF Some]
    show ?thesis
      using w Some s(1,2) assms(3) proxy_inv [OF assms(1) s(1,2)]
      by (simp add: for_channel_def split: option.split)
  qed (use assms w in \<open>simp add: for_channel_def\<close>)
qed (use assms in \<open>simp add: for_channel_def\<close>)

lemma tab_eom_inv [simp]: "tab_inv (snd (tab_eom p t)) = tab_inv t"
  by (simp add: tab_eom_def)

lemma open_confirmation_inv:
  assumes "tame_callbacks env" and "tab_inv t"
  shows "tab_inv (snd (channel_input_open_confirmation env ty p t))"
  unfolding channel_input_open_confirmation_def
proof (rule for_channel_inv, goal_cases)
  case (3 i c p)
  have s: "slot_ok (channel_max_fd t) i c" using tab_inv_slot [OF assms(2) 3] .
  then have s1: "slot_ok (channel_max_fd t) i (c\<lparr>ch_remote_id := r, ch_type := SSH_CHANNEL_OPEN\<rparr>)"
      "slot_ok (channel_max_fd t) i (c\<lparr>ch_remote_id := r, ch_type := SSH_CHANNEL_OPEN, ch_remote_window := v\<rparr>)"
      "slot_ok (channel_max_fd t) i (c\<lparr>ch_remote_id := r, ch_type := SSH_CHANNEL_OPEN, ch_remote_window := v, ch_remote_maxpacket := m\<rparr>)"
    for r v m by (simp_all add: slot_ok_def)
  have cb: "tab_inv u \<Longrightarrow> tab_inv (te_open_confirm env fn k b u)" for u fn k b
    using assms(1) unfolding tame_callbacks_def by blast
  show ?case
    using assms(2)
    by (auto simp: Let_def s1 intro!: tab_inv_set cb split: sum.split prod.split option.split)
qed (use assms in simp_all)

lemma open_failure_inv:
  assumes "tame_callbacks env" and "tab_inv t"
  shows "tab_inv (snd (channel_input_open_failure env ty p t))"
  unfolding channel_input_open_failure_def
proof (rule for_channel_inv, goal_cases)
  case (3 i c p)
  have cb: "tab_inv u \<Longrightarrow> tab_inv (te_open_confirm env fn k b u)"
      and le: "tab_inv u \<Longrightarrow> length (chans u) \<le> length (chans (te_open_confirm env fn k b u))" for u fn k b
    using assms(1) unfolding tame_callbacks_def by blast+
  have md: "tab_inv (mark_dead_slot i u)" if "tab_inv u" "i < length (chans u)" for u
    using that by (auto simp: mark_dead_slot_def intro: tab_inv_tame split: option.split)
  have e: "tab_inv (snd (rbind (tab_eom q u) (\<lambda>_ t. (Inr (), mark_dead_slot i t))))" if "tab_inv u" "i < length (chans u)" for q u
    using that md by (simp add: tab_eom_def)
  define u where "u = (if compat20 (te_compat env)
      then case ch_open_confirm c of None \<Rightarrow> t | Some fn \<Rightarrow> te_open_confirm env fn (ch_self c) False t else t)"
  have "tab_inv u" "i < length (chans u)"
    using assms(2) 3(1) cb [OF assms(2)] less_le_trans [OF 3(1) le [OF assms(2)]] by (auto simp: u_def split: option.split)
  then show ?case
    unfolding u_def [symmetric] Let_def using e assms(2) by (simp split: sum.split)
qed (use assms in simp_all)

lemma status_confirm_inv:
  assumes "tame_callbacks env" and "tab_inv t"
  shows "tab_inv (snd (channel_input_status_confirm env ty p t))"
  unfolding channel_input_status_confirm_def
proof (rule for_channel_inv, goal_cases)
  case (3 i c p)
  have cb: "tab_inv u \<Longrightarrow> tab_inv (te_status env fn k b u)"
      and le: "tab_inv u \<Longrightarrow> length (chans u) \<le> length (chans (te_status env fn k b u))" for u fn k b
    using assms(1) unfolding tame_callbacks_def by blast+
  have dc: "tab_inv (drop_confirm i u)" if "tab_inv u" "i < length (chans u)" for u
    using that by (auto simp: drop_confirm_def tame_upd intro: tab_inv_tame split: option.split)
  show ?case
  proof (cases "ch_status_confirms c")
    case (Cons cb' cbs)
    have "tab_inv (drop_confirm i (te_status env cb' ty (ch_self c) t))"
      using cb [OF assms(2)] less_le_trans [OF 3(1) le [OF assms(2)]] by (rule dc)
    then show ?thesis using assms(2) Cons by (simp add: tab_eom_def)
  qed (use assms(2) in \<open>simp add: tab_eom_def\<close>)
qed (use assms in simp_all)

lemma input_inv:
  assumes "tab_inv t"
  shows "tab_inv (snd (channel_input_data env ty p t))" and "tab_inv (snd (channel_input_extended_data env ty p t))"
    and "tab_inv (snd (channel_input_ieof env ty p t))" and "tab_inv (snd (channel_input_oclose env ty p t))"
    and "tab_inv (snd (channel_input_window_adjust env ty p t))" and "tab_inv (snd (channel_input_close env ty p t))"
    and "tab_inv (snd (channel_input_close_confirmation env ty p t))"
  using assms
  by (simp_all add: channel_input_data_def channel_input_extended_data_def channel_input_ieof_def
      channel_input_oclose_def channel_input_window_adjust_def channel_input_close_def
      channel_input_close_confirmation_def for_channel_inv on_slot_inv tame_input_data tame_input_extended
      tame_input_ieof tame_input_oclose tame_window_adjust free_inv Let_def tab_inv_tame tame_upd tame_typed)

text \<open>What the program does with the table, in any order.\<close>

inductive tab_step :: "tab_env \<Rightarrow> chan_table \<Rightarrow> chan_table \<Rightarrow> bool" for env where
  alloc: "ty \<in> chan_types \<Longrightarrow> tab_step env t (snd (channel_new ctype ty rfd wfd efd window maxpack ext rname t))"
| free: "i < length (chans t) \<Longrightarrow> tab_step env t (snd (channel_free (te_compat env) i t))"
| free_all: "tab_step env t (snd (channel_free_all (te_compat env) t))"
| close_all: "tab_step env t (snd (channel_close_all t))"
| stop_listening: "tab_step env t (snd (channel_stop_listening (te_compat env) t))"
| send_open: "tab_step env t (channel_send_open i t)"
| status_cb: "tab_step env t (snd (channel_register_status_confirm i cb t))"
| confirm_cb: "tab_step env t (channel_register_open_confirm i fn t)"
| cleanup_cb: "tab_step env t (channel_register_cleanup i fn do_close t)"
| cancel_cb: "tab_step env t (channel_cancel_cleanup i t)"
| filters: "tab_step env t (channel_register_filter i ifn ofn cfn t)"
| set_fds: "tab_step env t (snd (channel_set_fds i rfd wfd efd ext tty wmax t))"
| post_open: "i < length (chans t) \<Longrightarrow> chans t ! i = Some c \<Longrightarrow>
    tab_step env t (snd (on_slot i (channel_post_open (te_chan env) s) c t))"
| output_poll: "tab_step env t (snd (channel_output_poll (te_chan env) t))"
| collect: "i < length (chans t) \<Longrightarrow> tab_step env t (snd (channel_garbage_collect env i t))"
| data: "tab_step env t (snd (channel_input_data env ty p t))"
| extended_data: "tab_step env t (snd (channel_input_extended_data env ty p t))"
| ieof: "tab_step env t (snd (channel_input_ieof env ty p t))"
| close: "tab_step env t (snd (channel_input_close env ty p t))"
| oclose: "tab_step env t (snd (channel_input_oclose env ty p t))"
| close_confirmation: "tab_step env t (snd (channel_input_close_confirmation env ty p t))"
| open_confirmation: "tab_step env t (snd (channel_input_open_confirmation env ty p t))"
| open_failure: "tab_step env t (snd (channel_input_open_failure env ty p t))"
| window_adjust: "tab_step env t (snd (channel_input_window_adjust env ty p t))"
| status_confirm: "tab_step env t (snd (channel_input_status_confirm env ty p t))"

lemma tab_step_inv: "tab_step env t t' \<Longrightarrow> tame_callbacks env \<Longrightarrow> tab_inv t \<Longrightarrow> tab_inv t'"
  by (cases rule: tab_step.cases)
    (auto simp: new_inv free_inv free_all_inv close_all_inv stop_listening_inv register_inv set_fds_inv on_slot_inv
      tame_post_open output_poll_inv garbage_collect_inv input_inv open_confirmation_inv open_failure_inv
      status_confirm_inv tame_callbacks_def)

interpretation tb: transition_invariant "\<lambda>t. tame_callbacks env \<and> t = empty_table" "tab_step env"
  "\<lambda>t. tame_callbacks env \<and> tab_inv t" for env
proof unfold_locales
  show "tame_callbacks env \<and> t = empty_table \<Longrightarrow> tame_callbacks env \<and> tab_inv t" for t
    by (simp add: tab_inv_def empty_table_def)
qed (blast intro: tab_step_inv)

text \<open>
  C12. The table of channels: whatever sequence of calls built it, the channel found under a number
  carries that number, its descriptors are at most \<open>channel_max_fd\<close>, which sizes the descriptor sets
  given to \<open>select\<close>, and freeing it succeeds and makes its number unknown (provided the callbacks of
  the other components keep these properties).
\<close>

theorem channel_table_consistent:
  assumes "(tab_step env)\<^sup>*\<^sup>* empty_table t" and "tame_callbacks env" and "channel_by_id i t = Some c"
  shows "ch_self c = i \<and> ch_rfd c \<le> channel_max_fd t \<and> ch_wfd c \<le> channel_max_fd t \<and> ch_efd c \<le> channel_max_fd t \<and>
    (\<exists>t'. channel_free (te_compat env) (nat i) t = (Inr (), t') \<and> channel_by_id i t' = None)"
proof -
  have inv: "tab_inv t" using tb.reachable_inv [OF assms(1)] assms(2) by blast
  note s = by_id_slot [OF assms(3)]
  have "slot_ok (channel_max_fd t) (nat i) c" using tab_inv_slot [OF inv s(1,2)] .
  moreover have "channel_by_id i (snd (channel_free (te_compat env) (nat i) t)) = None"
    using free_slot_empty [OF inv s(1)] s(3) by (simp add: channel_by_id_def)
  ultimately show ?thesis
    using free_inv(2) [OF inv s(1), of "te_compat env"] s(3)
    by (cases "channel_free (te_compat env) (nat i) t") (auto simp: slot_ok_def)
qed
definition quiet_env :: tab_env where
  "quiet_env = \<lparr>te_chan = \<lparr>ce_compat = proto2, ce_compat13 = False, ce_maxsize = 32768, ce_interactive = False,
       ce_infilter = (\<lambda>_ c _. (True, c)), ce_outfilter = (\<lambda>_ c. (None, c)), ce_noecho = False\<rparr>,
     te_open_confirm = (\<lambda>_ _ _ t. t), te_detach = (\<lambda>_ _ t. t), te_status = (\<lambda>_ _ _ t. t)\<rparr>"

lemma quiet_env_tame: "tame_callbacks quiet_env"
  by (simp add: tame_callbacks_def tame_filters_def quiet_env_def)

definition one_channel :: chan_table where
  "one_channel = snd (channel_new ''session'' SSH_CHANNEL_OPEN 5 6 7 1000 500 CHAN_EXTENDED_READ ''test'' empty_table)"

lemma one_channel_slot: "length (chans one_channel) = 10"
  "chans one_channel ! 0 = Some ((blank_channel ''session'' SSH_CHANNEL_OPEN 0 1000 500 ''test'')
     \<lparr>ch_rfd := 5, ch_wfd := 6, ch_efd := 7, ch_sock := - 1, ch_extended_usage := CHAN_EXTENDED_READ\<rparr>)"
  "channel_max_fd one_channel = 7"
  by (simp_all add: one_channel_def channel_new_def empty_table_def channel_register_fds_def set_chan_def
      numeral_eq_Suc blank_channel_def)

lemma channel_table_consistent_witness:
  "(tab_step quiet_env)\<^sup>*\<^sup>* empty_table one_channel \<and>
   (\<exists>t'. channel_free (te_compat quiet_env) 0 one_channel = (Inr (), t') \<and> channel_by_id 0 t' = None)"
proof -
  have r: "(tab_step quiet_env)\<^sup>*\<^sup>* empty_table one_channel"
    unfolding one_channel_def by (rule r_into_rtranclp, rule tab_step.alloc) (simp add: chan_types_def SSH_CHANNEL_OPEN_def)
  obtain c where "channel_by_id 0 one_channel = Some c" using one_channel_slot by (simp add: channel_by_id_def)
  then show ?thesis using r channel_table_consistent [OF r quiet_env_tame, of 0 c] by simp
qed

section \<open>Allocation and multiplexing clients\<close>

lemma first_free_Some: "first_free xs = Some i \<Longrightarrow> i < length xs \<and> xs ! i = None"
  by (induction xs arbitrary: i) (auto split: option.splits)

lemma first_free_None: "first_free xs = None \<Longrightarrow> None \<notin> set xs"
  by (induction xs) (auto split: option.splits)

text \<open>
  \<open>channel_new\<close> gives out a number that named no channel, under which the new channel is then
  found with the type and the window asked for; every other channel stays what it was. It gives up
  only when more than 10000 slots are all in use.
\<close>

theorem channel_new_fresh:
  "case channel_new ctype ty rfd wfd efd window maxpack ext rname t of
     (Inr i, t') \<Rightarrow> channel_by_id (int i) t = None \<and>
       (\<exists>c. channel_by_id (int i) t' = Some c \<and> ch_self c = int i \<and> ch_type c = ty \<and> ch_local_window c = window) \<and>
       (\<forall>j. j \<noteq> int i \<longrightarrow> channel_by_id j t' = channel_by_id j t)
   | (Inl e, _) \<Rightarrow> length (chans t) > 10000 \<and> None \<notin> set (chans t)"
proof -
  define t1 where "t1 = (if chans t = [] then t\<lparr>chans := replicate 10 None\<rparr> else t)"
  have id1: "channel_by_id j t1 = channel_by_id j t" for j by (auto simp: t1_def channel_by_id_def)
  let ?c = "\<lambda>i. (blank_channel ctype ty i window maxpack rname)\<lparr>ch_rfd := rfd, ch_wfd := wfd,
      ch_sock := (if rfd = wfd then rfd else - 1), ch_efd := efd, ch_extended_usage := ext, ch_isatty := False\<rparr>"
  let ?m = "max (max (max (channel_max_fd t1) rfd) wfd) efd"
  show ?thesis
  proof (cases "first_free (chans t1)")
    case (Some i)
    then have n: "channel_new ctype ty rfd wfd efd window maxpack ext rname t =
        (Inr i, set_chan i (?c i) (t1\<lparr>channel_max_fd := ?m\<rparr>))"
      by (simp add: channel_new_def t1_def [symmetric] Let_def channel_register_fds_def)
    have "channel_by_id j (set_chan i (?c i) (t1\<lparr>channel_max_fd := ?m\<rparr>)) = channel_by_id j t" if "j \<noteq> int i" for j
    proof -
      have "j < 0 \<or> nat j \<noteq> i" using that by auto
      then show ?thesis unfolding id1 [symmetric] by (auto simp: channel_by_id_def set_chan_def)
    qed
    then show ?thesis
      unfolding n using first_free_Some [OF Some] id1 [of "int i"]
      by (auto simp: channel_by_id_def set_chan_def blank_channel_def)
  next
    case None
    then have t1: "t1 = t" by (auto simp: t1_def numeral_eq_Suc split: if_splits)
    show ?thesis
    proof (cases "length (chans t) > 10000")
      case True
      then have "channel_new ctype ty rfd wfd efd window maxpack ext rname t = (Inl Fatal, t)"
        using None by (simp add: channel_new_def t1_def [symmetric] t1 Let_def)
      then show ?thesis using True first_free_None [OF None] t1 by simp
    next
      case False
      let ?i = "length (chans t)"
      let ?t = "set_chan ?i (?c ?i) (t\<lparr>chans := chans t @ replicate 10 None, channel_max_fd := ?m\<rparr>)"
      have n: "channel_new ctype ty rfd wfd efd window maxpack ext rname t = (Inr ?i, ?t)"
        using None False by (simp add: channel_new_def t1_def [symmetric] t1 Let_def channel_register_fds_def)
      have "channel_by_id j ?t = channel_by_id j t" if "j \<noteq> int ?i" for j
      proof -
        have "j < 0 \<or> nat j \<noteq> ?i" using that by auto
        then show ?thesis by (auto simp: channel_by_id_def set_chan_def nth_append)
      qed
      then show ?thesis
        unfolding n by (auto simp: channel_by_id_def set_chan_def blank_channel_def)
    qed
  qed
qed

lemma channel_new_fresh_witness:
  "channel_new ''x11'' SSH_CHANNEL_OPENING 8 8 (- 1) 64 16 CHAN_EXTENDED_IGNORE [] one_channel =
     (Inr 1, snd (channel_new ''x11'' SSH_CHANNEL_OPENING 8 8 (- 1) 64 16 CHAN_EXTENDED_IGNORE [] one_channel)) \<and>
   channel_by_id 0 (snd (channel_new ''x11'' SSH_CHANNEL_OPENING 8 8 (- 1) 64 16 CHAN_EXTENDED_IGNORE [] one_channel)) =
     channel_by_id 0 one_channel"
proof -
  have "fst (channel_new ''x11'' SSH_CHANNEL_OPENING 8 8 (- 1) 64 16 CHAN_EXTENDED_IGNORE [] one_channel) = Inr 1"
    by (simp add: one_channel_def channel_new_def empty_table_def channel_register_fds_def set_chan_def
      numeral_eq_Suc blank_channel_def)
  then show ?thesis
    using channel_new_fresh [where t = one_channel and ctype = "''x11''" and ty = SSH_CHANNEL_OPENING and rfd = 8
        and wfd = 8 and efd = "- 1" and window = 64 and maxpack = 16 and ext = CHAN_EXTENDED_IGNORE and rname = "[]"]
    by (cases "channel_new ''x11'' SSH_CHANNEL_OPENING 8 8 (- 1) 64 16 CHAN_EXTENDED_IGNORE [] one_channel") auto
qed

text \<open>
  C39. Freeing the channel of a multiplexing client detaches the proxy channels that point to it, but
  only while the channel still has its type: \<open>channel_post_mux_client\<close> marks the channel dead when the
  client sends a bad message or cannot be written to, and freeing the zombie leaves the proxy channels
  with a pointer to freed memory, through which the next message from the server is forwarded.
\<close>

theorem mux_client_free:
  assumes "tab_inv t" and "i < length (chans t)" and "chans t ! i = Some c"
    and "j < length (chans t)" and "j \<noteq> i" and "chans t ! j = Some p"
    and "ch_type p = SSH_CHANNEL_MUX_PROXY" and "ch_mux_ctx p = Some (int i)"
  shows "(ch_type c = SSH_CHANNEL_MUX_CLIENT \<longrightarrow>
      chans (snd (channel_free g i t)) ! j = Some (detach_proxy i p) \<and> ch_mux_ctx (detach_proxy i p) = None) \<and>
    (ch_type c \<noteq> SSH_CHANNEL_MUX_CLIENT \<longrightarrow>
      chans (snd (channel_free g i t)) ! j = Some p \<and> chans (snd (channel_free g i t)) ! i = None)"
proof -
  define t1 where "t1 = (if ch_type c = SSH_CHANNEL_MUX_CLIENT then detach_mux_client g i t else t)"
  have t1: "tab_inv t1" "length (chans t1) = length (chans t)" using assms detach_inv by (simp_all add: t1_def)
  then obtain xs where xs: "channel_open_message t1 = Inr xs" using open_message_returns by blast
  have cl: "chans (channel_close_fds i u) ! j = chans u ! j" for u
    using assms(5) by (auto simp: channel_close_fds_def channel_close_fd_def set_chan_def split: option.split)
  have "chans (snd (channel_free g i t)) ! j = chans t1 ! j"
    using assms(3,5) xs cl by (auto simp: channel_free_def t1_def [symmetric] Let_def set_chan_def)
  moreover have "chans t1 ! j = Some (if ch_type c = SSH_CHANNEL_MUX_CLIENT then detach_proxy i p else p)"
    using assms(4,6) by (simp add: t1_def detach_mux_client_def)
  ultimately show ?thesis
    using free_slot_empty [OF assms(1,2), of g] assms(7,8) by (simp add: detach_proxy_def)
qed

definition mux_table :: "int \<Rightarrow> chan_table" where
  "mux_table ty = empty_table\<lparr>chans := [Some (fresh_channel\<lparr>ch_type := ty, ch_rfd := - 1, ch_wfd := - 1\<rparr>),
     Some (fresh_channel\<lparr>ch_type := SSH_CHANNEL_MUX_PROXY, ch_self := 1, ch_rfd := - 1, ch_wfd := - 1, ch_mux_ctx := Some 0\<rparr>)]\<rparr>"

lemma mux_client_free_witness:
  "map_option ch_mux_ctx (chans (snd (channel_free proto2 0 (mux_table SSH_CHANNEL_MUX_CLIENT))) ! 1) = Some None \<and>
   map_option ch_mux_ctx (chans (snd (channel_free proto2 0 (mux_table SSH_CHANNEL_ZOMBIE))) ! 1) = Some (Some 0)"
proof -
  have inv: "tab_inv (mux_table ty)" if "ty \<in> chan_types" for ty
    using that by (auto simp: tab_inv_def mux_table_def empty_table_def less_Suc_eq slot_ok_def fresh_channel_def
        chan_types_def SSH_CHANNEL_MUX_PROXY_def)
  have c: "ty \<in> chan_types \<Longrightarrow> (ty = SSH_CHANNEL_MUX_CLIENT \<longrightarrow>
        chans (snd (channel_free proto2 0 (mux_table ty))) ! 1 =
          Some (detach_proxy 0 (the (chans (mux_table ty) ! 1))) \<and>
        ch_mux_ctx (detach_proxy 0 (the (chans (mux_table ty) ! 1))) = None) \<and>
      (ty \<noteq> SSH_CHANNEL_MUX_CLIENT \<longrightarrow> chans (snd (channel_free proto2 0 (mux_table ty))) ! 1 = chans (mux_table ty) ! 1)" for ty
    using mux_client_free [of "mux_table ty" 0 "the (chans (mux_table ty) ! 0)" 1 "the (chans (mux_table ty) ! 1)" proto2] inv [of ty]
    by (simp add: mux_table_def empty_table_def)
  have "SSH_CHANNEL_ZOMBIE \<noteq> SSH_CHANNEL_MUX_CLIENT" "SSH_CHANNEL_MUX_CLIENT \<in> chan_types" "SSH_CHANNEL_ZOMBIE \<in> chan_types"
    by (simp_all add: chan_types_def chan_type_defs)
  then show ?thesis using c by (auto simp: mux_table_def empty_table_def)
qed

end
