(* ===== verification/Chan_Fwd.thy ===== *)
theory Chan_Fwd
  imports Channels
begin

text \<open>
  Forwarding permissions (\<open>channels.c\<close>): which hosts, ports and paths a forwarded connection may go to,
  how remote forwardings are recorded, updated and cancelled, and on which address a forwarding
  listens. The table of \<open>Channels\<close> holds the permissions; connecting (\<open>connect_to_reason\<close>, which
  resolves names and opens sockets) is an argument of the functions that decide. \<open>strcmp\<close> on a null
  pointer ends the process and is a value of its own.
\<close>

section \<open>Permissions\<close>

definition PORT_STREAMLOCAL :: int where "PORT_STREAMLOCAL = - 2"
definition FWD_PERMIT_ANY_PORT :: int where "FWD_PERMIT_ANY_PORT = 0"
definition FWD_PERMIT_ANY_HOST :: string where "FWD_PERMIT_ANY_HOST = ''*''"
definition SSH_BUG_DYNAMIC_RPORT :: u32 where "SSH_BUG_DYNAMIC_RPORT = 0x08000000"
definition SSH_OLD_FORWARD_ADDR :: u32 where "SSH_OLD_FORWARD_ADDR = 0x01000000"

record Forward =
  fwd_listen_host :: "string option"
  fwd_listen_port :: int
  fwd_listen_path :: "string option"
  fwd_connect_host :: "string option"
  fwd_connect_port :: int
  fwd_connect_path :: "string option"
  fwd_allocated_port :: int

definition open_match :: "ForwardPermission \<Rightarrow> string \<Rightarrow> int \<Rightarrow> bool" where
  "open_match allowed host port =
     (case host_to_connect allowed of
        None \<Rightarrow> False
      | Some h \<Rightarrow>
          if port_to_connect allowed \<noteq> FWD_PERMIT_ANY_PORT \<and> port_to_connect allowed \<noteq> port then False
          else if h \<noteq> FWD_PERMIT_ANY_HOST \<and> h \<noteq> host then False
          else True)"

text \<open>\<open>Inl ()\<close> is the crash of \<open>strcmp\<close> with a null pointer.\<close>

definition open_listen_match_tcpip ::
  "compat \<Rightarrow> ForwardPermission \<Rightarrow> string option \<Rightarrow> int \<Rightarrow> bool \<Rightarrow> unit + bool" where
  "open_listen_match_tcpip g allowed host port translate =
     (if host_to_connect allowed = None then Inr False
      else if listen_port allowed \<noteq> port then Inr False
      else if \<not> translate \<and> listen_host allowed = None \<and> host = None then Inr True
      else case (if translate then Some (channel_rfwd_bind_host g (listen_host allowed)) else listen_host allowed) of
        None \<Rightarrow> Inr False
      | Some h \<Rightarrow> (case host of None \<Rightarrow> Inl () | Some r \<Rightarrow> Inr (h = r)))"

definition open_listen_match_streamlocal :: "ForwardPermission \<Rightarrow> string \<Rightarrow> bool" where
  "open_listen_match_streamlocal allowed path =
     (if host_to_connect allowed = None then False
      else if listen_port allowed \<noteq> PORT_STREAMLOCAL then False
      else listen_path allowed = Some path)"

section \<open>Changing the permissions\<close>

definition channel_permit_all_opens :: "chan_table \<Rightarrow> chan_table" where
  "channel_permit_all_opens t = (if permitted_opens t = [] then t\<lparr>all_opens_permitted := True\<rparr> else t)"

definition channel_add_permitted_opens :: "string \<Rightarrow> int \<Rightarrow> chan_table \<Rightarrow> chan_table" where
  "channel_add_permitted_opens host port t =
     t\<lparr>permitted_opens := permitted_opens t @ [\<lparr>host_to_connect = Some host, port_to_connect = port,
         listen_host = None, listen_path = None, listen_port = 0, downstream = None\<rparr>],
       all_opens_permitted := False\<rparr>"

definition channel_update_permitted_opens :: "compat \<Rightarrow> int \<Rightarrow> int \<Rightarrow> chan_table \<Rightarrow> chan_table" where
  "channel_update_permitted_opens g idx newport t =
     (if idx < 0 \<or> idx \<ge> int (length (permitted_opens t)) then t
      else let p = permitted_opens t ! nat idx;
               p' = (if newport \<ge> 0
                     then p\<lparr>listen_port := (if datafellows g AND SSH_BUG_DYNAMIC_RPORT \<noteq> 0 then 0 else newport)\<rparr>
                     else p\<lparr>listen_port := 0, port_to_connect := 0, host_to_connect := None, listen_host := None,
                            listen_path := None\<rparr>)
           in t\<lparr>permitted_opens := (permitted_opens t)[nat idx := p']\<rparr>)"

text \<open>The new entry of the administrator's list leaves \<open>downstream\<close> unset, which is never read there.\<close>

definition channel_add_adm_permitted_opens :: "string \<Rightarrow> int \<Rightarrow> chan_table \<Rightarrow> int \<times> chan_table" where
  "channel_add_adm_permitted_opens host port t =
     (let l = permitted_adm_opens t @ [\<lparr>host_to_connect = Some host, port_to_connect = port,
         listen_host = None, listen_path = None, listen_port = 0, downstream = None\<rparr>]
      in (int (length l), t\<lparr>permitted_adm_opens := l\<rparr>))"

definition channel_clear_permitted_opens :: "chan_table \<Rightarrow> chan_table" where
  "channel_clear_permitted_opens t = t\<lparr>permitted_opens := []\<rparr>"

definition channel_clear_adm_permitted_opens :: "chan_table \<Rightarrow> chan_table" where
  "channel_clear_adm_permitted_opens t = t\<lparr>permitted_adm_opens := []\<rparr>"

definition channel_disable_adm_local_opens :: "chan_table \<Rightarrow> chan_table" where
  "channel_disable_adm_local_opens t =
     (channel_clear_adm_permitted_opens t)\<lparr>permitted_adm_opens := [\<lparr>host_to_connect = None, port_to_connect = 0,
        listen_host = None, listen_path = None, listen_port = 0, downstream = None\<rparr>]\<rparr>"

text \<open>\<open>%d\<close> and the line \<open>permitopen\<close> of \<open>sshd -T\<close>.\<close>

definition signed_decimal :: "int \<Rightarrow> string" where
  "signed_decimal n = (if n < 0 then CHR ''-'' # decimal (nat (- n)) else decimal (nat n))"

definition channel_print_adm_permitted_opens :: "chan_table \<Rightarrow> string" where
  "channel_print_adm_permitted_opens t =
     ''permitopen'' @
     (if permitted_adm_opens t = [] then '' any''
      else concat (map (\<lambda>p. case host_to_connect p of
              None \<Rightarrow> '' none''
            | Some h \<Rightarrow> CHR '' '' # h @ CHR '':'' # signed_decimal (port_to_connect p)) (permitted_adm_opens t))) @ [CHR 0x0A]"

text \<open>
  A remote forwarding is requested from the server (protocol 2, which assumes that the server
  accepts) and recorded; its index is returned.
\<close>

definition channel_request_remote_forwarding :: "compat \<Rightarrow> Forward \<Rightarrow> chan_table \<Rightarrow> int \<times> chan_table" where
  "channel_request_remote_forwarding g fwd t =
     (let req = (case fwd_listen_path fwd of
                   Some path \<Rightarrow> MSG_GLOBAL_REQUEST ''streamlocal-forward@openssh.com'' True path None
                 | None \<Rightarrow> MSG_GLOBAL_REQUEST ''tcpip-forward'' True
                     (channel_rfwd_bind_host g (fwd_listen_host fwd)) (Some (fwd_listen_port fwd)));
          p = \<lparr>host_to_connect = (case fwd_connect_path fwd of Some path \<Rightarrow> Some path | None \<Rightarrow> fwd_connect_host fwd),
               port_to_connect = (if fwd_connect_path fwd \<noteq> None then PORT_STREAMLOCAL else fwd_connect_port fwd),
               listen_host = (if fwd_listen_path fwd \<noteq> None then None else fwd_listen_host fwd),
               listen_path = fwd_listen_path fwd,
               listen_port = (if fwd_listen_path fwd \<noteq> None then PORT_STREAMLOCAL else fwd_listen_port fwd),
               downstream = None\<rparr>
      in (int (length (permitted_opens t)),
          t\<lparr>permitted_opens := permitted_opens t @ [p], tab_log := tab_log t @ [req]\<rparr>))"

text \<open>The first entry that matches, in the order of the list; \<open>Inl ()\<close> when a test crashes before.\<close>

fun find_tcpip :: "compat \<Rightarrow> string option \<Rightarrow> int \<Rightarrow> bool \<Rightarrow> ForwardPermission list \<Rightarrow> nat \<Rightarrow> unit + nat option" where
  "find_tcpip g host port translate [] i = Inr None"
| "find_tcpip g host port translate (p # ps) i =
     (case open_listen_match_tcpip g p host port translate of
        Inl e \<Rightarrow> Inl e
      | Inr True \<Rightarrow> Inr (Some i)
      | Inr False \<Rightarrow> find_tcpip g host port translate ps (Suc i))"

fun find_streamlocal :: "string \<Rightarrow> ForwardPermission list \<Rightarrow> nat \<Rightarrow> nat option" where
  "find_streamlocal path [] i = None"
| "find_streamlocal path (p # ps) i =
     (if open_listen_match_streamlocal p path then Some i else find_streamlocal path ps (Suc i))"

definition channel_request_rforward_cancel_tcpip :: "compat \<Rightarrow> string option \<Rightarrow> u16 \<Rightarrow> chan_table \<Rightarrow> unit + int \<times> chan_table" where
  "channel_request_rforward_cancel_tcpip g host port t =
     (if \<not> compat20 g then Inr (- 1, t)
      else case find_tcpip g host (uint port) False (permitted_opens t) 0 of
        Inl e \<Rightarrow> Inl e
      | Inr None \<Rightarrow> Inr (- 1, t)
      | Inr (Some i) \<Rightarrow>
          Inr (0, t\<lparr>tab_log := tab_log t @ [MSG_GLOBAL_REQUEST ''cancel-tcpip-forward'' False
                      (channel_rfwd_bind_host g host) (Some (uint port))],
                   permitted_opens := (permitted_opens t)[i := fwd_void (permitted_opens t ! i)]\<rparr>))"

definition channel_request_rforward_cancel_streamlocal :: "compat \<Rightarrow> string \<Rightarrow> chan_table \<Rightarrow> int \<times> chan_table" where
  "channel_request_rforward_cancel_streamlocal g path t =
     (if \<not> compat20 g then (- 1, t)
      else case find_streamlocal path (permitted_opens t) 0 of
        None \<Rightarrow> (- 1, t)
      | Some i \<Rightarrow>
          (0, t\<lparr>tab_log := tab_log t @ [MSG_GLOBAL_REQUEST ''cancel-streamlocal-forward@openssh.com'' False path None],
               permitted_opens := (permitted_opens t)[i := fwd_void (permitted_opens t ! i)]\<rparr>))"

definition channel_request_rforward_cancel :: "compat \<Rightarrow> Forward \<Rightarrow> chan_table \<Rightarrow> unit + int \<times> chan_table" where
  "channel_request_rforward_cancel g fwd t =
     (case fwd_listen_path fwd of
        Some path \<Rightarrow> Inr (channel_request_rforward_cancel_streamlocal g path t)
      | None \<Rightarrow> channel_request_rforward_cancel_tcpip g (fwd_listen_host fwd)
          (of_int (if fwd_listen_port fwd \<noteq> 0 then fwd_listen_port fwd else fwd_allocated_port fwd)) t)"

section \<open>Deciding\<close>

text \<open>
  What becomes of a request for a forwarded connection: it is refused, it is for a multiplexing
  client, or a connection to the host and port is attempted.
\<close>

datatype fwd_decision = Refused | To_downstream nat | Connect string int

definition channel_connect_by_listen_address :: "compat \<Rightarrow> string \<Rightarrow> u16 \<Rightarrow> chan_table \<Rightarrow> fwd_decision" where
  "channel_connect_by_listen_address g lhost lport t =
     (case find_tcpip g (Some lhost) (uint lport) True (permitted_opens t) 0 of
        Inr (Some i) \<Rightarrow>
          let p = permitted_opens t ! i in
          (case downstream p of
             Some d \<Rightarrow> To_downstream d
           | None \<Rightarrow> Connect (the (host_to_connect p)) (port_to_connect p))
      | _ \<Rightarrow> Refused)"

definition channel_connect_by_listen_path :: "string \<Rightarrow> chan_table \<Rightarrow> fwd_decision" where
  "channel_connect_by_listen_path path t =
     (case find_streamlocal path (permitted_opens t) 0 of
        None \<Rightarrow> Refused
      | Some i \<Rightarrow> Connect (the (host_to_connect (permitted_opens t ! i))) (port_to_connect (permitted_opens t ! i)))"

definition fwd_permitted :: "chan_table \<Rightarrow> string \<Rightarrow> int \<Rightarrow> bool" where
  "fwd_permitted t host port \<longleftrightarrow>
     (all_opens_permitted t \<or> list_ex (\<lambda>p. open_match p host port) (permitted_opens t)) \<and>
     (permitted_adm_opens t \<noteq> [] \<longrightarrow> list_ex (\<lambda>p. open_match p host port) (permitted_adm_opens t))"

definition channel_connect_to_port :: "chan_table \<Rightarrow> string \<Rightarrow> u16 \<Rightarrow> fwd_decision" where
  "channel_connect_to_port t host port =
     (if fwd_permitted t host (uint port) then Connect host (uint port) else Refused)"

definition channel_connect_to_path :: "chan_table \<Rightarrow> string \<Rightarrow> fwd_decision" where
  "channel_connect_to_path t path =
     (if fwd_permitted t path PORT_STREAMLOCAL then Connect path PORT_STREAMLOCAL else Refused)"

section \<open>Where a forwarding listens\<close>

text \<open>
  The address to bind (\<open>None\<close> for the default: loopback, or every address when \<open>wildcard\<close>), the
  wildcard flag, and whether the peer is told that its choice was overridden.
\<close>

definition channel_fwd_bind_addr :: "compat \<Rightarrow> string option \<Rightarrow> bool \<Rightarrow> int \<Rightarrow> string option \<times> bool \<times> bool" where
  "channel_fwd_bind_addr g listen_addr is_client gateway_ports =
     (case listen_addr of
        None \<Rightarrow> (None, gateway_ports \<noteq> 0, False)
      | Some a \<Rightarrow>
          if gateway_ports \<noteq> 0 \<or> is_client then
            if datafellows g AND SSH_OLD_FORWARD_ADDR \<noteq> 0 \<and> a = ''0.0.0.0'' \<and> \<not> is_client \<or>
               a = [] \<or> a = ''*'' \<or> (\<not> is_client \<and> gateway_ports = 1)
            then (None, True, a \<noteq> [] \<and> a \<noteq> ''0.0.0.0'' \<and> a \<noteq> ''*'')
            else if a \<noteq> ''localhost'' \<or> a = ''127.0.0.1'' \<or> a = ''::1'' then (Some a, False, False)
            else (None, False, False)
          else if a = ''127.0.0.1'' \<or> a = ''::1'' then (Some a, False, False)
          else (None, False, False))"

section \<open>Properties\<close>

lemma find_tcpip_Some:
  assumes "find_tcpip g host port tr ps i = Inr (Some k)"
  shows "i \<le> k \<and> k < i + length ps \<and> open_listen_match_tcpip g (ps ! (k - i)) host port tr = Inr True"
  using assms
proof (induction ps arbitrary: i)
  case (Cons p ps)
  show ?case
  proof (cases "open_listen_match_tcpip g p host port tr = Inr True")
    case False
    then have "find_tcpip g host port tr ps (Suc i) = Inr (Some k)" using Cons.prems by (auto split: sum.splits bool.splits)
    then have "Suc i \<le> k \<and> k < Suc i + length ps \<and> open_listen_match_tcpip g (ps ! (k - Suc i)) host port tr = Inr True"
      by (rule Cons.IH)
    then show ?thesis by (simp add: nth_Cons' Suc_diff_Suc)
  qed (use Cons.prems in simp)
qed simp

lemma find_tcpip_append:
  "find_tcpip g host port tr (ps @ qs) i =
     (case find_tcpip g host port tr ps i of Inr None \<Rightarrow> find_tcpip g host port tr qs (i + length ps) | r \<Rightarrow> r)"
  by (induction ps arbitrary: i) (auto split: sum.splits bool.splits option.splits)

lemma open_listen_match_void: "open_listen_match_tcpip g (fwd_void p) host port tr = Inr False"
  by (simp add: open_listen_match_tcpip_def fwd_void_def)

text \<open>
  C21. What a server can make the client connect to: a request for a listen address leads to a
  connection only to the host and port that the client recorded for exactly that address and port,
  and only if the forwarding was neither cancelled nor taken over by a multiplexing client.
\<close>

theorem listen_address_connects:
  assumes "channel_connect_by_listen_address g lhost lport t = Connect host port"
  shows "\<exists>p \<in> set (permitted_opens t). host_to_connect p = Some host \<and> port_to_connect p = port \<and>
    listen_port p = uint lport \<and> channel_rfwd_bind_host g (listen_host p) = lhost \<and> downstream p = None"
proof -
  obtain i where f: "find_tcpip g (Some lhost) (uint lport) True (permitted_opens t) 0 = Inr (Some i)"
      and d: "downstream (permitted_opens t ! i) = None" "the (host_to_connect (permitted_opens t ! i)) = host"
        "port_to_connect (permitted_opens t ! i) = port"
    using assms by (auto simp: channel_connect_by_listen_address_def Let_def split: sum.splits option.splits)
  have k: "i < length (permitted_opens t)" "open_listen_match_tcpip g (permitted_opens t ! i) (Some lhost) (uint lport) True = Inr True"
    using find_tcpip_Some [OF f] by simp_all
  then have "host_to_connect (permitted_opens t ! i) = Some host" "listen_port (permitted_opens t ! i) = uint lport"
      "channel_rfwd_bind_host g (listen_host (permitted_opens t ! i)) = lhost"
    using d(2) by (auto simp: open_listen_match_tcpip_def split: if_splits option.splits)
  then show ?thesis using d k(1) nth_mem by blast
qed

definition sample_fwd :: Forward where
  "sample_fwd = \<lparr>fwd_listen_host = None, fwd_listen_port = 8080, fwd_listen_path = None, fwd_connect_host = Some ''intra'',
     fwd_connect_port = 80, fwd_connect_path = None, fwd_allocated_port = 0\<rparr>"

lemma listen_address_connects_witness:
  "channel_connect_by_listen_address proto2 ''localhost'' 8080
     (snd (channel_request_remote_forwarding proto2 sample_fwd empty_table)) = Connect ''intra'' 80 \<and>
   (\<exists>p \<in> set (permitted_opens (snd (channel_request_remote_forwarding proto2 sample_fwd empty_table))). downstream p = None)"
proof -
  have "channel_connect_by_listen_address proto2 ''localhost'' 8080
     (snd (channel_request_remote_forwarding proto2 sample_fwd empty_table)) = Connect ''intra'' 80"
    by code_simp
  then show ?thesis using listen_address_connects by blast
qed

text \<open>
  C40. Requesting a remote forwarding for an address that is not yet forwarded and cancelling it again
  leaves every later decision as it was before: no connection can be made through the cancelled entry.
\<close>

theorem rforward_cancel_revokes:
  assumes "compat20 g" and "fwd_listen_path fwd = None" and "fwd_connect_host fwd = Some h" and "fwd_connect_path fwd = None"
    and "0 < fwd_listen_port fwd" and "fwd_listen_port fwd < 65536"
    and "find_tcpip g (fwd_listen_host fwd) (fwd_listen_port fwd) False (permitted_opens t) 0 = Inr None"
    and "channel_request_rforward_cancel g fwd (snd (channel_request_remote_forwarding g fwd t)) = r"
  shows "\<exists>t'. r = Inr (0, t') \<and>
    (\<forall>lhost lport. channel_connect_by_listen_address g lhost lport t' = channel_connect_by_listen_address g lhost lport t) \<and>
    (\<forall>host port. fwd_permitted t' host port = fwd_permitted t host port)"
proof -
  let ?t = "snd (channel_request_remote_forwarding g fwd t)"
  define p where "p = \<lparr>host_to_connect = Some h, port_to_connect = fwd_connect_port fwd, listen_host = fwd_listen_host fwd,
      listen_path = None, listen_port = fwd_listen_port fwd, downstream = None\<rparr>"
  have po: "permitted_opens ?t = permitted_opens t @ [p]" "permitted_adm_opens ?t = permitted_adm_opens t"
      "all_opens_permitted ?t = all_opens_permitted t"
    using assms(2-4) by (simp_all add: channel_request_remote_forwarding_def p_def Let_def)
  have port: "uint (of_int (fwd_listen_port fwd) :: u16) = fwd_listen_port fwd"
    using assms(5,6) by (simp add: uint_word_of_int)
  have m: "open_listen_match_tcpip g p (fwd_listen_host fwd) (fwd_listen_port fwd) False = Inr True"
    by (simp add: open_listen_match_tcpip_def p_def split: option.split)
  have f: "find_tcpip g (fwd_listen_host fwd) (fwd_listen_port fwd) False (permitted_opens ?t) 0 =
      Inr (Some (length (permitted_opens t)))"
    using assms(7) m by (simp add: po(1) find_tcpip_append)
  obtain t' where t': "r = Inr (0, t')" "permitted_opens t' = permitted_opens t @ [fwd_void p]"
      "permitted_adm_opens t' = permitted_adm_opens t" "all_opens_permitted t' = all_opens_permitted t"
    using assms(1,2,5,8) f po port
    by (auto simp: channel_request_rforward_cancel_def channel_request_rforward_cancel_tcpip_def)
  have ft: "find_tcpip g host k True (permitted_opens t @ [fwd_void p]) 0 = find_tcpip g host k True (permitted_opens t) 0" for host k
    by (auto simp: find_tcpip_append open_listen_match_void split: sum.split option.split)
  have "channel_connect_by_listen_address g lhost lport t' = channel_connect_by_listen_address g lhost lport t" for lhost lport
    using find_tcpip_Some [of g "Some lhost" "uint lport" True "permitted_opens t" 0]
    by (auto simp: channel_connect_by_listen_address_def t'(2) ft nth_append Let_def split: sum.split option.split)
  moreover have "fwd_permitted t' host k = fwd_permitted t host k" for host k
    by (simp add: fwd_permitted_def t' open_match_def fwd_void_def)
  ultimately show ?thesis using t'(1) by blast
qed

lemma rforward_cancel_revokes_witness:
  "\<exists>t'. channel_request_rforward_cancel proto2 sample_fwd
       (snd (channel_request_remote_forwarding proto2 sample_fwd empty_table)) = Inr (0, t') \<and>
     channel_connect_by_listen_address proto2 ''localhost'' 8080 t' = Refused"
proof -
  obtain t' where t': "channel_request_rforward_cancel proto2 sample_fwd
        (snd (channel_request_remote_forwarding proto2 sample_fwd empty_table)) = Inr (0, t')"
      "channel_connect_by_listen_address proto2 ''localhost'' 8080 t' =
       channel_connect_by_listen_address proto2 ''localhost'' 8080 empty_table"
    using rforward_cancel_revokes [of proto2 sample_fwd "''intra''" empty_table]
    by (auto simp: sample_fwd_def proto2_def empty_table_def)
  then show ?thesis by (simp add: channel_connect_by_listen_address_def empty_table_def)
qed

text \<open>
  Cancelling a forwarding that was requested without a listen host crashes the client when an
  earlier forwarding on the same port names a listen host: \<open>open_listen_match_tcpip\<close> tests only for
  the case that both hosts are missing and then calls \<open>strcmp\<close> with the missing one.
\<close>

theorem rforward_cancel_crash:
  assumes "compat20 g" and "permitted_opens t = p # ps" and "host_to_connect p \<noteq> None"
    and "listen_host p = Some h" and "listen_port p = uint port"
  shows "channel_request_rforward_cancel_tcpip g None port t = Inl ()"
  using assms by (auto simp: channel_request_rforward_cancel_tcpip_def open_listen_match_tcpip_def)

lemma rforward_cancel_crash_witness:
  "channel_request_rforward_cancel proto2 sample_fwd (snd (channel_request_remote_forwarding proto2 sample_fwd
     (snd (channel_request_remote_forwarding proto2 (sample_fwd\<lparr>fwd_listen_host := Some ''localhost''\<rparr>) empty_table)))) = Inl ()"
proof -
  let ?t = "snd (channel_request_remote_forwarding proto2 sample_fwd
     (snd (channel_request_remote_forwarding proto2 (sample_fwd\<lparr>fwd_listen_host := Some ''localhost''\<rparr>) empty_table)))"
  have "channel_request_rforward_cancel_tcpip proto2 None 8080 ?t = Inl ()"
    by (rule rforward_cancel_crash [where p = "hd (permitted_opens ?t)" and ps = "tl (permitted_opens ?t)" and h = "''localhost''"])
      (simp_all add: sample_fwd_def channel_request_remote_forwarding_def Let_def empty_table_def proto2_def)
  then show ?thesis by (simp add: channel_request_rforward_cancel_def sample_fwd_def)
qed

section \<open>The user's and the administrator's restrictions\<close>

text \<open>The calls by which \<open>sshd\<close> sets the restrictions up, and what they mean together.\<close>

datatype perm_op = Permit_all | Permit_open string int | Adm_open string int | Adm_none

fun perm_step :: "perm_op \<Rightarrow> chan_table \<Rightarrow> chan_table" where
  "perm_step Permit_all t = channel_permit_all_opens t"
| "perm_step (Permit_open h p) t = channel_add_permitted_opens h p t"
| "perm_step (Adm_open h p) t = snd (channel_add_adm_permitted_opens h p t)"
| "perm_step Adm_none t = channel_disable_adm_local_opens t"

definition entry_match :: "string \<Rightarrow> int \<Rightarrow> string \<Rightarrow> int \<Rightarrow> bool" where
  "entry_match h p host port \<longleftrightarrow> (p = FWD_PERMIT_ANY_PORT \<or> p = port) \<and> (h = FWD_PERMIT_ANY_HOST \<or> h = host)"

fun user_allows :: "perm_op list \<Rightarrow> string \<Rightarrow> int \<Rightarrow> bool" where
  "user_allows ops host port \<longleftrightarrow>
     (if \<exists>h p. Permit_open h p \<in> set ops then \<exists>h p. Permit_open h p \<in> set ops \<and> entry_match h p host port
      else Permit_all \<in> set ops)"

text \<open>\<open>Adm_none\<close> withdraws what was allowed before it.\<close>

primrec adm_allows :: "perm_op list \<Rightarrow> bool \<times> (string \<times> int) list \<Rightarrow> bool \<times> (string \<times> int) list" where
  "adm_allows [] s = s"
| "adm_allows (x # xs) s =
     adm_allows xs (case x of Adm_open h p \<Rightarrow> (True, snd s @ [(h, p)]) | Adm_none \<Rightarrow> (True, []) | _ \<Rightarrow> s)"

definition adm_view :: "chan_table \<Rightarrow> bool \<times> (string \<times> int) list" where
  "adm_view t = (permitted_adm_opens t \<noteq> [],
     List.map_filter (\<lambda>p. map_option (\<lambda>h. (h, port_to_connect p)) (host_to_connect p)) (permitted_adm_opens t))"

lemma adm_view_step:
  "adm_view (perm_step x t) =
     (case x of Adm_open h p \<Rightarrow> (True, snd (adm_view t) @ [(h, p)]) | Adm_none \<Rightarrow> (True, []) | _ \<Rightarrow> adm_view t)"
  by (cases x)
    (simp_all add: adm_view_def channel_permit_all_opens_def channel_add_permitted_opens_def
      channel_add_adm_permitted_opens_def channel_disable_adm_local_opens_def map_filter_def)

lemma adm_view_run: "adm_view (fold perm_step ops t) = adm_allows ops (adm_view t)"
  by (induction ops arbitrary: t) (simp_all add: adm_view_step)

lemma adm_view_match:
  "list_ex (\<lambda>p. open_match p host port) (permitted_adm_opens t) \<longleftrightarrow>
     (\<exists>(h, p) \<in> set (snd (adm_view t)). entry_match h p host port)"
  by (auto simp: adm_view_def list_ex_iff open_match_def entry_match_def map_filter_def split: option.splits if_splits)

lemma perm_run:
  "permitted_opens t = [] \<or> \<not> all_opens_permitted t \<Longrightarrow>
   all_opens_permitted (fold perm_step ops t) \<or> list_ex (\<lambda>p. open_match p host port) (permitted_opens (fold perm_step ops t)) \<longleftrightarrow>
     (if permitted_opens t \<noteq> [] \<or> (\<exists>h p. Permit_open h p \<in> set ops)
      then list_ex (\<lambda>p. open_match p host port) (permitted_opens t) \<or>
        (\<exists>h p. Permit_open h p \<in> set ops \<and> entry_match h p host port)
      else all_opens_permitted t \<or> Permit_all \<in> set ops)"
proof (induction ops arbitrary: t)
  case (Cons x ops)
  have "permitted_opens (perm_step x t) = [] \<or> \<not> all_opens_permitted (perm_step x t)"
    using Cons.prems
    by (cases x) (auto simp: channel_permit_all_opens_def channel_add_permitted_opens_def
        channel_add_adm_permitted_opens_def channel_disable_adm_local_opens_def channel_clear_adm_permitted_opens_def)
  note IH = Cons.IH [OF this]
  show ?case
  proof (cases x)
    case (Permit_open h p)
    have "open_match \<lparr>host_to_connect = Some h, port_to_connect = p, listen_host = None, listen_path = None,
        listen_port = 0, downstream = None\<rparr> host port = entry_match h p host port"
      by (auto simp: open_match_def entry_match_def)
    then show ?thesis using IH Permit_open by (auto simp: channel_add_permitted_opens_def)
  qed (use IH Cons.prems in \<open>auto simp: channel_permit_all_opens_def channel_add_adm_permitted_opens_def
        channel_disable_adm_local_opens_def channel_clear_adm_permitted_opens_def\<close>)
qed (use entry_match_def in auto)

text \<open>
  C20. Whatever the order in which \<open>sshd\<close> sets its restrictions up, a connection to a host and port
  is permitted exactly when both the user's and the administrator's restrictions allow it: the
  entries of the user's key, or everything when there are none and all opens were permitted; and
  the entries the administrator gave since forwarding was last disabled, if any were given.
\<close>

theorem forwarding_restrictions:
  "channel_connect_to_port (fold perm_step ops empty_table) host port =
     (if user_allows ops host (uint port) \<and>
         (fst (adm_allows ops (False, [])) \<longrightarrow>
            (\<exists>(h, p) \<in> set (snd (adm_allows ops (False, []))). entry_match h p host (uint port)))
      then Connect host (uint port) else Refused)"
proof -
  let ?t = "fold perm_step ops empty_table"
  have a: "adm_view ?t = adm_allows ops (False, [])"
    unfolding adm_view_run by (simp add: adm_view_def empty_table_def map_filter_def)
  have "permitted_adm_opens ?t \<noteq> [] \<longleftrightarrow> fst (adm_allows ops (False, []))"
    unfolding a [symmetric] by (simp add: adm_view_def)
  moreover have "all_opens_permitted ?t \<or> list_ex (\<lambda>p. open_match p host (uint port)) (permitted_opens ?t) \<longleftrightarrow>
      user_allows ops host (uint port)"
    using perm_run [of empty_table ops host "uint port"] by (simp add: empty_table_def)
  ultimately show ?thesis
    unfolding channel_connect_to_port_def fwd_permitted_def adm_view_match a by simp
qed

lemma forwarding_restrictions_witness:
  "channel_connect_to_port (fold perm_step [Permit_all, Permit_open ''db'' 5432, Adm_open ''*'' 5432] empty_table) ''db'' 5432 =
     Connect ''db'' 5432 \<and>
   channel_connect_to_port (fold perm_step [Permit_all, Permit_open ''db'' 5432, Adm_open ''*'' 5432] empty_table) ''www'' 5432 = Refused"
  unfolding forwarding_restrictions
  by (simp add: entry_match_def FWD_PERMIT_ANY_HOST_def FWD_PERMIT_ANY_PORT_def)

text \<open>
  A server that does not set \<open>GatewayPorts\<close> never listens beyond the loopback interface for a
  remote forwarding, whatever address the client asks for; with \<open>GatewayPorts yes\<close> it always listens
  on every address and tells the client when that overrides its choice.
\<close>

theorem server_bind_address:
  "(channel_fwd_bind_addr g (Some a) False 0 = (b, w, n) \<longrightarrow> \<not> w \<and> (b = None \<or> b = Some ''127.0.0.1'' \<or> b = Some ''::1'')) \<and>
   channel_fwd_bind_addr g None False 0 = (None, False, False) \<and>
   channel_fwd_bind_addr g (Some a) False 1 = (None, True, a \<noteq> [] \<and> a \<noteq> ''0.0.0.0'' \<and> a \<noteq> ''*'')"
  by (auto simp: channel_fwd_bind_addr_def split: if_splits)

lemma server_bind_address_witness:
  "channel_fwd_bind_addr proto2 (Some ''0.0.0.0'') False 0 = (None, False, False)"
  using server_bind_address [of proto2 "''0.0.0.0''" "fst (channel_fwd_bind_addr proto2 (Some ''0.0.0.0'') False 0)"
      "fst (snd (channel_fwd_bind_addr proto2 (Some ''0.0.0.0'') False 0))"
      "snd (snd (channel_fwd_bind_addr proto2 (Some ''0.0.0.0'') False 0))"]
  by (simp add: channel_fwd_bind_addr_def)

end
