(* ===== verification/Chan_Handlers.thy ===== *)
theory Chan_Handlers
  imports Channels
begin

text \<open>
  Connections whose first bytes decide (\<open>channels.c\<close>): the check of the first packet of a forwarded
  X11 connection and the SOCKS requests of a dynamic forwarding. The clock and \<open>inet_ntop\<close> for IPv6
  addresses are arguments. Shown: no byte of an X11 connection reaches the X server before the
  connection has presented the fake cookie, which alone is replaced; and a SOCKS request is decoded
  to its destination however it is cut into pieces.
\<close>

section \<open>X11 authentication spoofing\<close>

record x11_state =
  x11_refuse_time :: u32
  x11_saved_proto :: bytes
  x11_saved_data :: bytes
  x11_fake_data :: bytes

definition pad4 :: "nat \<Rightarrow> nat" where "pad4 n = (n + 3) div 4 * 4"

definition x11_lengths :: "bytes \<Rightarrow> (nat \<times> nat) option" where
  "x11_lengths p =
     (if p ! 0 = 0x42 then Some (256 * unat (p ! 6) + unat (p ! 7), 256 * unat (p ! 8) + unat (p ! 9))
      else if p ! 0 = 0x6c then Some (unat (p ! 6) + 256 * unat (p ! 7), unat (p ! 8) + 256 * unat (p ! 9))
      else None)"

text \<open>0: more data is needed, -1: wrong cookie, 1: the fake cookie was replaced by the real one.\<close>

definition x11_open_helper :: "x11_state \<Rightarrow> u32 \<Rightarrow> bytes \<Rightarrow> int \<times> bytes" where
  "x11_open_helper x now b =
     (if x11_refuse_time x \<noteq> 0 \<and> now \<ge> x11_refuse_time x then (- 1, b)
      else if length b < 12 then (0, b)
      else case x11_lengths b of
        None \<Rightarrow> (- 1, b)
      | Some (proto_len, data_len) \<Rightarrow>
          let at = 12 + pad4 proto_len in
          if length b < at + pad4 data_len then (0, b)
          else if proto_len \<noteq> length (x11_saved_proto x) \<or> take proto_len (drop 12 b) \<noteq> x11_saved_proto x then (- 1, b)
          else if data_len \<noteq> length (x11_fake_data x) \<or> take data_len (drop at b) \<noteq> x11_fake_data x then (- 1, b)
          else if length (x11_fake_data x) \<noteq> length (x11_saved_data x) then (- 1, b)
          else (1, take at b @ x11_saved_data x @ drop (at + length (x11_saved_data x)) b))"

definition channel_pre_x11_open :: "chan_env \<Rightarrow> x11_state \<Rightarrow> u32 \<Rightarrow> channel \<Rightarrow> chan_pre" where
  "channel_pre_x11_open env x now c =
     (case x11_open_helper x now (ch_output c) of
        (ret, b) \<Rightarrow>
          let c = c\<lparr>ch_output := b\<rparr>; g = ce_compat env in
          if ret = 1 then channel_pre_open env (c\<lparr>ch_type := SSH_CHANNEL_OPEN\<rparr>)
          else if ret = - 1 then
            let c = chan_ibuf_empty g ((chan_read_failed g c)\<lparr>ch_input := []\<rparr>);
                c = c\<lparr>ch_output := []\<rparr>
            in (if compat20 g then chan_write_failed g c else c\<lparr>ch_type := SSH_CHANNEL_OPEN\<rparr>, [], [])
          else (c, [], []))"

section \<open>SOCKS\<close>

definition SSH_SOCKS5_AUTHDONE :: u32 where "SSH_SOCKS5_AUTHDONE = 0x1000"
definition NI_MAXHOST :: nat where "NI_MAXHOST = 1025"

text \<open>A NUL-terminated string at the front of the buffer, and dotted IPv4 addresses.\<close>

definition c_string :: "bytes \<Rightarrow> bytes" where "c_string p = takeWhile (\<lambda>b. b \<noteq> 0) p"

definition inet_ntoa :: "bytes \<Rightarrow> string" where
  "inet_ntoa a = decimal (unat (a ! 0)) @ CHR ''.'' # decimal (unat (a ! 1)) @ CHR ''.'' #
     decimal (unat (a ! 2)) @ CHR ''.'' # decimal (unat (a ! 3))"

text \<open>
  The loop that looks for \<open>need\<close> NUL bytes from position \<open>i\<close> on: \<open>None\<close> when the request is too long,
  otherwise whether they were found.
\<close>

fun socks4_scan :: "bytes \<Rightarrow> nat \<Rightarrow> nat \<Rightarrow> bool option" where
  "socks4_scan [] i need = Some False"
| "socks4_scan (b # bs) i need =
     (if b = 0 \<and> need = 1 then Some True
      else if i > 1024 then None
      else socks4_scan bs (Suc i) (if b = 0 then need - 1 else need))"

definition SOCKS4_REPLY :: bytes where "SOCKS4_REPLY = [0, 90, 0, 0, 0, 0, 0, 0]"

text \<open>The decoders return -1 (error), 0 (more data is needed) or 1 (a request was decoded).\<close>

definition socks4_host :: "nat \<Rightarrow> bytes \<Rightarrow> bytes \<Rightarrow> channel \<Rightarrow> (chan_stop + bool) \<times> channel" where
  "socks4_host need addr p c =
     (if need = 1 then (Inr True, c\<lparr>ch_path := Some (inet_ntoa addr), ch_input := p\<rparr>)
      else let len = length (c_string p) + 1 in
        if len > length p then (Inl Fatal, c\<lparr>ch_path := None, ch_input := p\<rparr>)
        else if len > NI_MAXHOST then (Inr False, c\<lparr>ch_path := None, ch_input := p\<rparr>)
        else (Inr True, c\<lparr>ch_path := Some (string_of (c_string p)), ch_input := drop len p\<rparr>))"

definition channel_decode_socks4 :: "channel \<Rightarrow> int chan_result" where
  "channel_decode_socks4 c =
     (let p = ch_input c in
      if length p < 8 then (Inr 0, c)
      else let need = (if p ! 4 = 0 \<and> p ! 5 = 0 \<and> p ! 6 = 0 \<and> p ! 7 \<noteq> 0 then 2 else 1) in
        case socks4_scan (drop 8 p) 8 need of
          None \<Rightarrow> (Inr (- 1), c)
        | Some False \<Rightarrow> (Inr 0, c)
        | Some True \<Rightarrow>
            let command = p ! 1; dest_port = uint (PEEK_U16 (drop 2 p)); q = drop 8 p;
                len = length (c_string q) + 1
            in if len > length q then (Inl Fatal, c\<lparr>ch_input := q\<rparr>)
               else rbind (socks4_host need (take 4 (drop 4 p)) (drop len q) c) (\<lambda>ok c.
                 if \<not> ok then (Inr (- 1), c)
                 else let c = c\<lparr>ch_host_port := dest_port\<rparr> in
                   if command \<noteq> 1 then (Inr (- 1), c)
                   else rbind (put_output (buffer_append (ch_output c) SOCKS4_REPLY) c) (\<lambda>_ c. (Inr 1, c))))"

definition SOCKS5_REPLY :: bytes where "SOCKS5_REPLY = [5, 0, 0, 1, 0, 0, 0, 0, 0, 0]"

definition socks5_auth :: "channel \<Rightarrow> int chan_result" where
  "socks5_auth c =
     (let p = ch_input c in
      if length p < 2 then (Inr 0, c)
      else let nmethods = unat (p ! 1) in
        if length p < nmethods + 2 then (Inr 0, c)
        else if 0 \<notin> set (take nmethods (drop 2 p)) then (Inr (- 1), c)
        else rbind (put_output (buffer_append (ch_output c) [5, 0]) (c\<lparr>ch_input := drop (nmethods + 2) p\<rparr>)) (\<lambda>_ c.
          (Inr 0, set_flag SSH_SOCKS5_AUTHDONE c)))"

text \<open>The address length for an address type, given the byte after the header.\<close>

definition socks5_addrlen :: "byte \<Rightarrow> byte \<Rightarrow> nat option" where
  "socks5_addrlen atyp next_byte =
     (if atyp = 1 then Some 4 else if atyp = 3 then Some (unat next_byte) else if atyp = 4 then Some 16 else None)"

definition channel_decode_socks5 :: "(bytes \<Rightarrow> string) \<Rightarrow> channel \<Rightarrow> int chan_result" where
  "channel_decode_socks5 ntop6 c =
     (let p = ch_input c in
      if p ! 0 \<noteq> 5 then (Inr (- 1), c)
      else if \<not> has_flag SSH_SOCKS5_AUTHDONE c then socks5_auth c
      else if length p < 5 then (Inr 0, c)
      else if p ! 0 \<noteq> 5 \<or> p ! 1 \<noteq> 1 \<or> p ! 2 \<noteq> 0 then (Inr (- 1), c)
      else case socks5_addrlen (p ! 3) (p ! 4) of
        None \<Rightarrow> (Inr (- 1), c)
      | Some addrlen \<Rightarrow>
          let start = (if p ! 3 = 3 then 5 else 4) in
          if length p < start + addrlen + 2 then (Inr 0, c)
          else
            let addr = take addrlen (drop start p);
                dest_port = uint (PEEK_U16 (drop (start + addrlen) p));
                c = c\<lparr>ch_input := drop (start + addrlen + 2) p, ch_path := None\<rparr>
            in if p ! 3 = 3 \<and> addrlen \<ge> NI_MAXHOST then (Inr (- 1), c)
               else
                 let path = (if p ! 3 = 3 then string_of (c_string addr) else if p ! 3 = 1 then inet_ntoa addr else ntop6 addr);
                     c = c\<lparr>ch_path := Some path, ch_host_port := dest_port\<rparr>
                 in rbind (put_output (buffer_append (ch_output c) SOCKS5_REPLY) c) (\<lambda>_ c. (Inr 1, c)))"

text \<open>The guess of the protocol in \<open>channel_pre_dynamic\<close>.\<close>

definition channel_decode_socks :: "(bytes \<Rightarrow> string) \<Rightarrow> channel \<Rightarrow> int chan_result" where
  "channel_decode_socks ntop6 c =
     (if ch_input c ! 0 = 4 then channel_decode_socks4 c
      else if ch_input c ! 0 = 5 then channel_decode_socks5 ntop6 c
      else (Inr (- 1), c))"

section \<open>The X11 cookie\<close>

text \<open>A connection setup that carries the cookie \<open>data\<close>: what it starts with and what follows the cookie.\<close>

definition x11_setup :: "bytes \<Rightarrow> bytes \<Rightarrow> bytes \<Rightarrow> bytes \<Rightarrow> bytes \<Rightarrow> bytes \<Rightarrow> bool" where
  "x11_setup h proto fill data rest b \<longleftrightarrow>
     b = h @ proto @ fill @ data @ rest \<and> length h = 12 \<and> x11_lengths h = Some (length proto, length data) \<and>
     length proto + length fill = pad4 (length proto) \<and> length data + length rest \<ge> pad4 (length data)"

lemma pad4_ge: "n \<le> pad4 n"
  by (simp add: pad4_def)

lemma x11_lengths_append: "length h \<ge> 12 \<Longrightarrow> x11_lengths (h @ b) = x11_lengths h"
  by (auto simp: x11_lengths_def nth_append)

lemma x11_setup_accepted:
  assumes "x11_setup h (x11_saved_proto x) fill (x11_fake_data x) rest b"
    and "\<not> (x11_refuse_time x \<noteq> 0 \<and> now \<ge> x11_refuse_time x)" and "length (x11_fake_data x) = length (x11_saved_data x)"
  shows "x11_open_helper x now b = (1, h @ x11_saved_proto x @ fill @ x11_saved_data x @ rest)"
proof -
  let ?p = "x11_saved_proto x" and ?d = "x11_fake_data x"
  have b: "b = h @ ?p @ fill @ ?d @ rest" and h: "length h = 12" and l: "x11_lengths h = Some (length ?p, length ?d)"
    and f: "length ?p + length fill = pad4 (length ?p)" and r: "length ?d + length rest \<ge> pad4 (length ?d)"
    using assms(1) by (auto simp: x11_setup_def)
  have lb: "x11_lengths b = Some (length ?p, length ?d)" using l h by (simp add: b x11_lengths_append)
  let ?u = "h @ ?p @ fill"
  have u: "length ?u = 12 + pad4 (length ?p)" "b = ?u @ ?d @ rest" using h f by (simp_all add: b)
  have "take (12 + pad4 (length ?p)) b = ?u" "drop (12 + pad4 (length ?p)) b = ?d @ rest"
    unfolding u(1) [symmetric] u(2) by simp_all
  moreover have "drop (12 + pad4 (length ?p) + length ?d) b = rest"
    using u by (metis (no_types, lifting) add.commute append_eq_conv_conj drop_drop calculation(2))
  moreover have "take (length ?p) (drop 12 b) = ?p" using h by (simp add: b)
  moreover have "length b \<ge> 12 + pad4 (length ?p) + pad4 (length ?d)" using u r by simp
  ultimately show ?thesis using assms(2,3) lb by (simp add: x11_open_helper_def Let_def)
qed

lemma x11_accepted_setup:
  assumes "x11_open_helper x now b = (1, b')"
  shows "\<exists>h fill rest. x11_setup h (x11_saved_proto x) fill (x11_fake_data x) rest b"
proof -
  let ?p = "x11_saved_proto x" and ?d = "x11_fake_data x"
  let ?at = "12 + pad4 (length ?p)"
  have a: "length b \<ge> 12" "x11_lengths b = Some (length ?p, length ?d)" "length b \<ge> ?at + pad4 (length ?d)"
      "take (length ?p) (drop 12 b) = ?p" "take (length ?d) (drop ?at b) = ?d"
    using assms by (auto simp: x11_open_helper_def Let_def split: if_splits option.splits)
  have l: "length ?p \<le> pad4 (length ?p)" "length ?d \<le> pad4 (length ?d)" by (rule pad4_ge)+
  let ?fill = "take (pad4 (length ?p) - length ?p) (drop (12 + length ?p) b)" and ?rest = "drop (?at + length ?d) b"
  have s: "drop m b = take n (drop m b) @ drop (m + n) b" for m n
    by (metis add.commute append_take_drop_id drop_drop)
  have "drop 12 b = ?p @ drop (12 + length ?p) b" using s [of 12 "length ?p"] a(4) by simp
  moreover have "drop (12 + length ?p) b = ?fill @ drop ?at b"
    using s [of "12 + length ?p" "pad4 (length ?p) - length ?p"] l(1) by simp
  moreover have "drop ?at b = ?d @ ?rest" using s [of ?at "length ?d"] a(5) by simp
  ultimately have "b = take 12 b @ ?p @ ?fill @ ?d @ ?rest"
    using append_take_drop_id [of 12 b] by simp
  moreover have "x11_lengths (take 12 b) = Some (length ?p, length ?d)"
    using a(1,2) x11_lengths_append [of "take 12 b" "drop 12 b"] by simp
  moreover have "length ?fill = pad4 (length ?p) - length ?p" using a(3) l by simp
  ultimately have "x11_setup (take 12 b) ?p ?fill ?d ?rest b"
    unfolding x11_setup_def using a(1,3) l by simp
  then show ?thesis by blast
qed

lemma x11_verdicts:
  "fst (x11_open_helper x now b) \<in> {- 1, 0, 1}" "fst (x11_open_helper x now b) \<noteq> 1 \<Longrightarrow> snd (x11_open_helper x now b) = b"
  by (auto simp: x11_open_helper_def Let_def split: option.split)

lemma x11_accepted_conditions:
  assumes "x11_open_helper x now b = (1, b')"
  shows "\<not> (x11_refuse_time x \<noteq> 0 \<and> now \<ge> x11_refuse_time x)" "length (x11_fake_data x) = length (x11_saved_data x)"
  using assms by (auto simp: x11_open_helper_def Let_def split: if_splits option.splits)

lemma write_failed_closes:
  assumes "compat20 g"
  shows "ch_ostate (chan_write_failed g d) \<noteq> CHAN_OUTPUT_OPEN"
    and "ch_output d = [] \<Longrightarrow> ch_output (chan_write_failed g d) = []"
  using assms
  by (auto simp: chan_write_failed_def chan_write_failed2_def chan_set_ostate_def Let_def chan_shutdown_write_def
      chan_send_eow2_def close_wfd_def emit_def split: ostate.split)


text \<open>A setup packet with the cookie \<open>[1, 2, 3, 4]\<close>, for which the real one is \<open>[9, 8, 7, 6]\<close>.\<close>

definition sample_x11 :: x11_state where
  "sample_x11 = \<lparr>x11_refuse_time = 0, x11_saved_proto = bytes_of ''MIT'', x11_saved_data = [9, 8, 7, 6],
     x11_fake_data = [1, 2, 3, 4]\<rparr>"

definition sample_setup :: bytes where
  "sample_setup = [0x42, 0, 0, 11, 0, 0, 0, 3, 0, 4, 0, 0] @ bytes_of ''MIT'' @ [0] @ [1, 2, 3, 4]"

definition sample_x11_channel :: channel where
  "sample_x11_channel = (blank_channel ''x11'' SSH_CHANNEL_X11_OPEN 3 0 0 [])\<lparr>ch_output := sample_setup\<rparr>"



section \<open>SOCKS requests\<close>

text \<open>
  What a SOCKS client asks for: the user and address of version 4, the host name of version 4A, and
  the three kinds of addresses of version 5 (after the method negotiation).
\<close>

datatype socks_request =
  Socks4 bytes bytes u16 | Socks4a bytes byte bytes u16 | Socks5_ipv4 bytes u16 | Socks5_host bytes u16 | Socks5_ipv6 bytes u16

fun socks_encode :: "socks_request \<Rightarrow> bytes" where
  "socks_encode (Socks4 user a port) = [4, 1] @ POKE_U16 port @ a @ user @ [0]"
| "socks_encode (Socks4a user x host port) = [4, 1] @ POKE_U16 port @ [0, 0, 0, x] @ user @ [0] @ host @ [0]"
| "socks_encode (Socks5_ipv4 a port) = [5, 1, 0, 1] @ a @ POKE_U16 port"
| "socks_encode (Socks5_host host port) = [5, 1, 0, 3, of_nat (length host)] @ host @ POKE_U16 port"
| "socks_encode (Socks5_ipv6 a port) = [5, 1, 0, 4] @ a @ POKE_U16 port"

fun socks_wf :: "socks_request \<Rightarrow> bool" where
  "socks_wf (Socks4 user a port) \<longleftrightarrow> 0 \<notin> set user \<and> length user \<le> 1016 \<and> length a = 4 \<and>
     \<not> (a ! 0 = 0 \<and> a ! 1 = 0 \<and> a ! 2 = 0 \<and> a ! 3 \<noteq> 0)"
| "socks_wf (Socks4a user x host port) \<longleftrightarrow> 0 \<notin> set user \<and> 0 \<notin> set host \<and> x \<noteq> 0 \<and> length user + length host \<le> 1015"
| "socks_wf (Socks5_ipv4 a port) \<longleftrightarrow> length a = 4"
| "socks_wf (Socks5_host host port) \<longleftrightarrow> 0 \<notin> set host \<and> length host \<le> 255"
| "socks_wf (Socks5_ipv6 a port) \<longleftrightarrow> length a = 16"

fun socks_dest :: "(bytes \<Rightarrow> string) \<Rightarrow> socks_request \<Rightarrow> string \<times> u16" where
  "socks_dest ntop6 (Socks4 user a port) = (inet_ntoa a, port)"
| "socks_dest ntop6 (Socks4a user x host port) = (string_of host, port)"
| "socks_dest ntop6 (Socks5_ipv4 a port) = (inet_ntoa a, port)"
| "socks_dest ntop6 (Socks5_host host port) = (string_of host, port)"
| "socks_dest ntop6 (Socks5_ipv6 a port) = (ntop6 a, port)"

fun socks_version :: "socks_request \<Rightarrow> nat" where
  "socks_version (Socks4 _ _ _) = 4"
| "socks_version (Socks4a _ _ _ _) = 4"
| "socks_version _ = 5"

definition socks_reply :: "socks_request \<Rightarrow> bytes" where
  "socks_reply r = (if socks_version r = 4 then SOCKS4_REPLY else SOCKS5_REPLY)"

text \<open>The channel after the decoder has taken the request \<open>r\<close> from the front of the input.\<close>

definition socks_done :: "(bytes \<Rightarrow> string) \<Rightarrow> socks_request \<Rightarrow> bytes \<Rightarrow> channel \<Rightarrow> channel" where
  "socks_done ntop6 r rest c =
     c\<lparr>ch_input := rest, ch_path := Some (fst (socks_dest ntop6 r)), ch_host_port := uint (snd (socks_dest ntop6 r)),
       ch_output := ch_output c @ socks_reply r\<rparr>"

lemma socks4_scan_skip:
  "0 \<notin> set xs \<Longrightarrow> i + length xs \<le> 1025 \<Longrightarrow> socks4_scan (xs @ ys) i n = socks4_scan ys (i + length xs) n"
proof (induction xs arbitrary: i)
  case (Cons x xs)
  then have "x \<noteq> 0" "\<not> i > 1024" by auto
  then show ?case using Cons by simp
qed simp

lemma socks4_scan_none: "0 \<notin> set xs \<Longrightarrow> i + length xs \<le> 1025 \<Longrightarrow> socks4_scan xs i n = Some False"
  using socks4_scan_skip [of xs i "[]" n] by simp

lemma c_string_nul: "0 \<notin> set xs \<Longrightarrow> c_string (xs @ 0 # ys) = xs"
  unfolding c_string_def by (subst takeWhile_append2) auto

lemma c_string_clean: "0 \<notin> set xs \<Longrightarrow> c_string xs = xs"
  unfolding c_string_def by (auto simp: takeWhile_eq_all_conv)


lemma socks_buffer:
  assumes "length (ch_output c) + 10 \<le> SSHBUF_SIZE_MAX"
  shows "buffer_append (ch_output c) SOCKS4_REPLY = Some (ch_output c @ SOCKS4_REPLY)"
    "buffer_append (ch_output c) SOCKS5_REPLY = Some (ch_output c @ SOCKS5_REPLY)"
  using assms by (simp_all add: buffer_append_def SOCKS4_REPLY_def SOCKS5_REPLY_def)

lemma POKE_U16_list: "\<exists>a b. POKE_U16 v = [a, b]"
  by (simp add: POKE_U16_def)

lemma PEEK_port: "POKE_U16 v = [a, b] \<Longrightarrow> PEEK_U16 (a # b # xs) = v"
  using PEEK_POKE_U16 [of v xs] by simp

lemma socks4_plain:
  assumes "socks_wf (Socks4 user a port)" and "length (ch_output c) + 10 \<le> SSHBUF_SIZE_MAX"
    and "ch_input c = socks_encode (Socks4 user a port) @ rest"
  shows "channel_decode_socks4 c = (Inr 1, socks_done ntop6 (Socks4 user a port) rest c)"
proof -
  obtain a0 a1 a2 a3 where a: "a = [a0, a1, a2, a3]"
    using assms(1) by (auto simp: numeral_eq_Suc length_Suc_conv)
  obtain p0 p1 where p: "POKE_U16 port = [p0, p1]" using POKE_U16_list by blast
  have u: "0 \<notin> set user" "length user \<le> 1016" "\<not> (a0 = 0 \<and> a1 = 0 \<and> a2 = 0 \<and> a3 \<noteq> 0)" using assms(1) a by auto
  have s: "socks4_scan (user @ 0 # rest) 8 1 = Some True" using socks4_scan_skip [of user 8 "0 # rest" 1] u by simp
  show ?thesis
    using u s socks_buffer(1) [of "c\<lparr>ch_path := Some (inet_ntoa a), ch_input := rest, ch_host_port := uint port\<rparr>"] assms(2)
    by (auto simp: channel_decode_socks4_def Let_def assms(3) a p PEEK_port [OF p] c_string_nul socks4_host_def put_output_def
        socks_done_def socks_reply_def)
qed

lemma socks4_named:
  assumes "socks_wf (Socks4a user x host port)" and "length (ch_output c) + 10 \<le> SSHBUF_SIZE_MAX"
    and "ch_input c = socks_encode (Socks4a user x host port) @ rest"
  shows "channel_decode_socks4 c = (Inr 1, socks_done ntop6 (Socks4a user x host port) rest c)"
proof -
  obtain p0 p1 where p: "POKE_U16 port = [p0, p1]" using POKE_U16_list by blast
  have u: "0 \<notin> set user" "0 \<notin> set host" "x \<noteq> 0" "length user + length host \<le> 1015" using assms(1) by auto
  have s: "socks4_scan (user @ 0 # host @ 0 # rest) 8 2 = Some True"
    using socks4_scan_skip [of user 8 "0 # host @ 0 # rest" 2] socks4_scan_skip [of host "9 + length user" "0 # rest" 1] u
    by simp
  have n: "\<not> Suc (length host) > NI_MAXHOST" using u(4) by (simp add: NI_MAXHOST_def)
  show ?thesis
    using u s n socks_buffer(1) [of "c\<lparr>ch_path := Some (string_of host), ch_input := rest, ch_host_port := uint port\<rparr>"] assms(2)
    by (auto simp: channel_decode_socks4_def Let_def assms(3) p PEEK_port [OF p] c_string_nul socks4_host_def put_output_def
        socks_done_def socks_reply_def)
qed

lemma socks5_step:
  assumes "has_flag SSH_SOCKS5_AUTHDONE c" and "length (ch_output c) + 10 \<le> SSHBUF_SIZE_MAX"
    and "ch_input c = [5, 1, 0, t] @ pre @ addr @ POKE_U16 port @ rest"
    and "socks5_addrlen t ((pre @ addr @ POKE_U16 port @ rest) ! 0) = Some (length addr)"
    and "length pre = (if t = 3 then 1 else 0)" and "length addr < NI_MAXHOST"
  shows "channel_decode_socks5 ntop6 c =
    (Inr 1, c\<lparr>ch_input := rest, ch_host_port := uint port, ch_output := ch_output c @ SOCKS5_REPLY,
       ch_path := Some (if t = 3 then string_of (c_string addr) else if t = 1 then inet_ntoa addr else ntop6 addr)\<rparr>)"
proof -
  let ?p = "ch_input c"
  have p: "?p = 5 # 1 # 0 # t # (pre @ addr @ POKE_U16 port @ rest)" using assms(3) by simp
  have i: "?p ! 0 = 5" "?p ! 1 = 1" "?p ! 2 = 0" "?p ! 3 = t" "?p ! 4 = (pre @ addr @ POKE_U16 port @ rest) ! 0"
    unfolding p by simp_all
  define st where "st = (if t = 3 then 5 else 4 :: nat)"
  have st: "st = 4 + length pre" using assms(5) by (simp add: st_def)
  have l: "length ?p = st + length addr + 2 + length rest" unfolding p st by simp
  have d: "drop st ?p = addr @ POKE_U16 port @ rest" unfolding p st by (simp add: eval_nat_numeral)
  have d1: "drop (st + length addr) ?p = POKE_U16 port @ rest" using d drop_drop [of "length addr" st ?p] by (simp add: add.commute)
  have d2: "drop (st + length addr + 2) ?p = rest"
    using d1 drop_drop [of 2 "st + length addr" ?p] by (simp add: add.commute)
  have g: "\<not> length ?p < 5" "\<not> length ?p < st + length addr + 2" using l st by simp_all
  have a: "take (length addr) (drop st ?p) = addr" unfolding d by simp
  have b: "buffer_append (ch_output c) SOCKS5_REPLY = Some (ch_output c @ SOCKS5_REPLY)"
    using socks_buffer(2) [OF assms(2)] .
  show ?thesis
    unfolding channel_decode_socks5_def Let_def i assms(4) option.case st_def [symmetric] a d1 d2
    using assms(1,6) g b by (simp add: put_output_def)
qed

lemma socks5_decoded:
  assumes "socks_version r = 5" and "socks_wf r" and "length (ch_output c) + 10 \<le> SSHBUF_SIZE_MAX"
    and "has_flag SSH_SOCKS5_AUTHDONE c" and "ch_input c = socks_encode r @ rest"
  shows "channel_decode_socks5 ntop6 c = (Inr 1, socks_done ntop6 r rest c)"
proof (cases r)
  case (Socks5_ipv4 a port)
  then show ?thesis
    using assms socks5_step [OF assms(4,3), of 1 "[]" a port rest ntop6]
    by (simp add: socks5_addrlen_def socks_done_def socks_reply_def NI_MAXHOST_def)
next
  case (Socks5_ipv6 a port)
  then show ?thesis
    using assms socks5_step [OF assms(4,3), of 4 "[]" a port rest ntop6]
    by (simp add: socks5_addrlen_def socks_done_def socks_reply_def NI_MAXHOST_def)
next
  case (Socks5_host host port)
  have "unat (of_nat (length host) :: byte) = length host" using assms(2) Socks5_host by (simp add: unat_of_nat)
  then show ?thesis
    using assms Socks5_host socks5_step [OF assms(4,3), of 3 "[of_nat (length host)]" host port rest ntop6]
    by (simp add: socks5_addrlen_def socks_done_def socks_reply_def NI_MAXHOST_def c_string_clean)
qed (use assms(1) in simp_all)


text \<open>Fewer bytes than the request: the decoders wait for more and change nothing.\<close>

lemma socks4_waits:
  assumes "socks_version r = 4" and "socks_wf r" and "k < length (socks_encode r)" and "ch_input c = take k (socks_encode r)"
  shows "channel_decode_socks4 c = (Inr 0, c)"
proof (cases "k < 8")
  case True
  then show ?thesis using assms(3,4) by (simp add: channel_decode_socks4_def)
next
  case False
  show ?thesis
  proof (cases r)
    case (Socks4 user a port)
    obtain a0 a1 a2 a3 where a: "a = [a0, a1, a2, a3]"
      using assms(2) Socks4 by (auto simp: numeral_eq_Suc length_Suc_conv)
    obtain p0 p1 where p: "POKE_U16 port = [p0, p1]" using POKE_U16_list by blast
    have k: "k - 8 \<le> length user" using assms(3) Socks4 by (simp add: a p)
    have i: "ch_input c = [4, 1, p0, p1, a0, a1, a2, a3] @ take (k - 8) user"
      using assms(4) Socks4 False k by (simp add: a p take_Cons' numeral_eq_Suc)
    have "socks4_scan (take (k - 8) user) 8 n = Some False" for n
      using assms(2) Socks4 by (intro socks4_scan_none) (auto dest: in_set_takeD)
    then show ?thesis by (simp add: channel_decode_socks4_def i Let_def)
  next
    case (Socks4a user x host port)
    obtain p0 p1 where p: "POKE_U16 port = [p0, p1]" using POKE_U16_list by blast
    have w: "0 \<notin> set user" "0 \<notin> set host" "x \<noteq> 0" "length user + length host \<le> 1015" using assms(2) Socks4a by auto
    define q where "q = take (k - 8) (user @ 0 # host)"
    have i: "ch_input c = [4, 1, p0, p1, 0, 0, 0, x] @ q"
      using assms(3,4) Socks4a False by (simp add: p q_def take_Cons' numeral_eq_Suc)
    have "socks4_scan q 8 2 = Some False"
    proof (cases "k - 8 \<le> length user")
      case True
      then show ?thesis using w unfolding q_def by (intro socks4_scan_none) (auto dest: in_set_takeD)
    next
      case False
      then obtain m where m: "k - 8 = length user + Suc m" by (metis add_Suc_right less_imp_Suc_add not_le)
      have "q = user @ 0 # take m host" by (simp add: q_def m)
      moreover have "socks4_scan (take m host) (9 + length user) 1 = Some False"
        using w by (intro socks4_scan_none) (auto dest: in_set_takeD)
      ultimately show ?thesis using socks4_scan_skip [of user 8 "0 # take m host" 2] w by simp
    qed
    then show ?thesis using w(3) by (simp add: channel_decode_socks4_def i Let_def)
  qed (use assms(1) in simp_all)
qed

lemma socks5_waits:
  assumes "socks_version r = 5" and "socks_wf r" and "0 < k" and "k < length (socks_encode r)"
    and "has_flag SSH_SOCKS5_AUTHDONE c" and "ch_input c = take k (socks_encode r)"
  shows "channel_decode_socks5 ntop6 c = (Inr 0, c)"
proof -
  obtain t e where r: "socks_encode r = 5 # 1 # 0 # t # e" using assms(1) by (cases r) auto
  have z: "ch_input c ! 0 = 5" using assms(3,6) by (simp add: r)
  show ?thesis
  proof (cases "k < 5")
    case True
    then have "length (ch_input c) < 5" using assms(6) by simp
    then show ?thesis using assms(5) z by (simp add: channel_decode_socks5_def Let_def)
  next
    case False
    have n: "ch_input c ! j = socks_encode r ! j" if "j < 5" for j using False that assms(6) by simp
    have h: "ch_input c ! 1 = 1" "ch_input c ! 2 = 0" "ch_input c ! 3 = t" "ch_input c ! 4 = e ! 0"
      using n [of 1] n [of 2] n [of 3] n [of 4] by (simp_all add: r)
    have l: "length (ch_input c) = k" using assms(4,6) by simp
    have "\<exists>n. socks5_addrlen t (e ! 0) = Some n \<and> length (socks_encode r) = (if t = 3 then 5 else 4) + n + 2"
    proof (cases r)
      case (Socks5_host host port)
      then have "unat (of_nat (length host) :: byte) = length host" using assms(2) by (simp add: unat_of_nat)
      then show ?thesis using r Socks5_host by (auto simp: socks5_addrlen_def)
    qed (use assms(1,2) r in \<open>auto simp: socks5_addrlen_def\<close>)
    then obtain n where n: "socks5_addrlen t (e ! 0) = Some n" "length (socks_encode r) = (if t = 3 then 5 else 4) + n + 2"
      by blast
    show ?thesis
      unfolding channel_decode_socks5_def Let_def z h n(1) option.case l
      using False assms(4,5) n(2) by (cases "t = 3") auto
  qed
qed

text \<open>
  C25. A SOCKS request (version 4, 4A or 5 after the negotiation) is decoded to its destination
  however the connection cuts it into pieces: while it is incomplete the decoder asks for more and
  leaves the channel as it is; as soon as it is complete, the host and port of the request are
  recorded, the success reply is queued, and exactly the bytes after the request stay in the input
  buffer for the peer.
\<close>

theorem socks_request_decoded:
  assumes "socks_wf r" and "length (ch_output c) + 10 \<le> SSHBUF_SIZE_MAX"
    and "socks_version r = 5 \<Longrightarrow> has_flag SSH_SOCKS5_AUTHDONE c"
    and "ch_input c \<noteq> []" and "ch_input c = take k (socks_encode r @ rest)"
  shows "channel_decode_socks ntop6 c =
    (if length (ch_input c) < length (socks_encode r) then (Inr 0, c)
     else (Inr 1, socks_done ntop6 r (drop (length (socks_encode r)) (ch_input c)) c))"
proof -
  have v: "socks_version r = 4 \<or> socks_version r = 5" by (cases r) auto
  obtain e where e: "socks_encode r = of_nat (socks_version r) # e" by (cases r) auto
  have hd: "ch_input c ! 0 = of_nat (socks_version r)"
    using assms(4,5) unfolding e by (cases k) auto
  show ?thesis
  proof (cases "length (ch_input c) < length (socks_encode r)")
    case True
    then have k: "k < length (socks_encode r)" "ch_input c = take k (socks_encode r)" "0 < k"
      using assms(4,5) by (auto simp: min_def split: if_splits)
    show ?thesis
      using v hd True socks4_waits [OF _ assms(1) k(1,2)] socks5_waits [OF _ assms(1) k(3,1) _ k(2), of ntop6] assms(3)
      by (auto simp: channel_decode_socks_def)
  next
    case False
    then have i: "ch_input c = socks_encode r @ drop (length (socks_encode r)) (ch_input c)"
      using assms(5) by (simp add: take_append)
    show ?thesis
    proof (cases "socks_version r = 5")
      case True
      then show ?thesis using hd False socks5_decoded [OF True assms(1,2) assms(3) [OF True] i] by (simp add: channel_decode_socks_def)
    next
      case F: False
      then have "channel_decode_socks4 c = (Inr 1, socks_done ntop6 r (drop (length (socks_encode r)) (ch_input c)) c)"
        using assms(1,2) i socks4_plain socks4_named by (cases r) auto
      then show ?thesis using hd False F v by (simp add: channel_decode_socks_def)
    qed
  qed
qed

lemma socks_request_decoded_witness:
  "channel_decode_socks (\<lambda>_. []) (sample_x11_channel\<lparr>ch_input := socks_encode (Socks4a [] 1 (bytes_of ''host'') 80) @ [7]\<rparr>) =
     (Inr 1, socks_done (\<lambda>_. []) (Socks4a [] 1 (bytes_of ''host'') 80) [7]
        (sample_x11_channel\<lparr>ch_input := socks_encode (Socks4a [] 1 (bytes_of ''host'') 80) @ [7]\<rparr>))"
proof -
  let ?r = "Socks4a [] 1 (bytes_of ''host'') 80" and ?i = "socks_encode (Socks4a [] 1 (bytes_of ''host'') 80) @ [7]"
  have "socks_wf ?r" by code_simp
  moreover have "length (ch_output sample_x11_channel) + 10 \<le> SSHBUF_SIZE_MAX"
    by (simp add: sample_x11_channel_def sample_setup_def bytes_of_def SSHBUF_SIZE_MAX_def)
  ultimately show ?thesis
    using socks_request_decoded [of ?r "sample_x11_channel\<lparr>ch_input := ?i\<rparr>" "length ?i" "[7]" "\<lambda>_. []"]
    by (simp del: socks_encode.simps socks_wf.simps)
qed

end
