(* ===== verification/Chan_Select.thy ===== *)
theory Chan_Select
  imports Chan_Fwd Chan_Handlers
begin

text \<open>
  The loop around \<open>select\<close> (\<open>channels.c\<close>): the handlers for listening sockets, connections being made,
  dynamic forwardings and multiplexing clients, the tables that assign handlers to channel types,
  \<open>channel_handler\<close>, \<open>channel_prepare_select\<close> and \<open>channel_after_select\<close>. What the system calls and
  the clock return, the addresses of sockets (\<open>canohost.c\<close>) and the callback of the multiplexing code
  (\<open>mux.c\<close>) are arguments. Shown: the invariant of the table survives every round, and the descriptors
  put into the sets for \<open>select\<close> fit into them.
\<close>

section \<open>What the system calls bring\<close>

datatype accres = ACCEPTED int | ACC_FULL | ACC_FAILED

text \<open>
  For the channel in a slot: \<open>se_ready\<close> what \<open>select\<close>, \<open>read\<close> and \<open>write\<close> return (\<open>se_body\<close> the second
  read of a multiplexing client) and \<open>se_connect_next\<close> the socket of the next connection attempt or
  -1. \<open>se_mux\<close> is \<open>mux_rcb\<close>, with whether it succeeded.
\<close>

record sel_env =
  se_tab :: tab_env
  se_x11 :: x11_state
  se_now :: int
  se_ntop6 :: "bytes \<Rightarrow> string"
  se_peer :: "int \<Rightarrow> string \<times> int"
  se_local :: "int \<Rightarrow> string \<times> int"
  se_host_in_open :: bool
  se_accept :: "int \<Rightarrow> accres"
  se_so_error :: "int \<Rightarrow> int"
  se_strerror :: "int \<Rightarrow> string"
  se_connect_next :: "nat \<Rightarrow> int"
  se_mux :: "nat \<Rightarrow> chan_table \<Rightarrow> bool \<times> chan_table"
  se_peereid :: "int \<Rightarrow> int option"
  se_uid :: int
  se_readset :: "int list"
  se_writeset :: "int list"
  se_ready :: "nat \<Rightarrow> chan_ready"
  se_body :: "nat \<Rightarrow> rdres"

abbreviation se_chan :: "sel_env \<Rightarrow> chan_env" where "se_chan env \<equiv> te_chan (se_tab env)"
abbreviation se_compat :: "sel_env \<Rightarrow> compat" where "se_compat env \<equiv> te_compat (se_tab env)"

definition SSH_BUG_X11FWD :: u32 where "SSH_BUG_X11FWD = 0x00000008"
definition SSH2_OPEN_CONNECT_FAILED :: u32 where "SSH2_OPEN_CONNECT_FAILED = 2"
definition CHANNEL_MUX_MAX_PACKET :: nat where "CHANNEL_MUX_MAX_PACKET = 256 * 1024"
definition CHAN_TCP_PACKET_DEFAULT :: u32 where "CHAN_TCP_PACKET_DEFAULT = 32 * 1024"
definition CHAN_TCP_WINDOW_DEFAULT :: u32 where "CHAN_TCP_WINDOW_DEFAULT = 64 * CHAN_TCP_PACKET_DEFAULT"

text \<open>The messages of protocol 1 by their numbers.\<close>

definition SSH_MSG_CHANNEL_OPEN_CONFIRMATION :: int where "SSH_MSG_CHANNEL_OPEN_CONFIRMATION = 21"
definition SSH_MSG_CHANNEL_OPEN_FAILURE :: int where "SSH_MSG_CHANNEL_OPEN_FAILURE = 22"
definition SSH_MSG_CHANNEL_CLOSE :: int where "SSH_MSG_CHANNEL_CLOSE = 24"
definition SSH_SMSG_X11_OPEN :: int where "SSH_SMSG_X11_OPEN = 27"
definition SSH_MSG_PORT_OPEN :: int where "SSH_MSG_PORT_OPEN = 29"
definition SSH_SMSG_AGENT_OPEN :: int where "SSH_SMSG_AGENT_OPEN = 31"

section \<open>Before select\<close>

text \<open>A pre-handler returns the descriptors it adds to the read and the write set.\<close>

type_synonym fd_sets = "int list \<times> int list"

definition channel_pre_listener :: "channel \<Rightarrow> fd_sets chan_result" where
  "channel_pre_listener c = (Inr ([ch_sock c], []), c)"

definition channel_pre_connecting :: "channel \<Rightarrow> fd_sets chan_result" where
  "channel_pre_connecting c = (Inr ([], [ch_sock c]), c)"

definition channel_pre_open_13 :: "chan_env \<Rightarrow> channel \<Rightarrow> fd_sets chan_result" where
  "channel_pre_open_13 env c =
     (Inr (if length (ch_input c) < unat (ce_maxsize env) then [ch_sock c] else [],
           if ch_output c \<noteq> [] then [ch_sock c] else []), c)"

definition channel_pre_input_draining :: "channel \<Rightarrow> fd_sets chan_result" where
  "channel_pre_input_draining c =
     (Inr ([], []), if ch_input c = []
        then (emit (MSG_PROTO1 SSH_MSG_CHANNEL_CLOSE [P_int (ch_remote_id c)]) c)\<lparr>ch_type := SSH_CHANNEL_CLOSED\<rparr> else c)"

definition channel_pre_output_draining :: "channel \<Rightarrow> fd_sets chan_result" where
  "channel_pre_output_draining c =
     (if ch_output c = [] then (Inr ([], []), chan_mark_dead c) else (Inr ([], [ch_sock c]), c))"

definition close_sock_chan :: "channel \<Rightarrow> channel" where
  "close_sock_chan c = (if ch_sock c \<noteq> - 1 then (emit (SYS_CLOSE (ch_sock c)) c)\<lparr>ch_sock := - 1\<rparr> else c)"

definition channel_pre_x11_open_13 :: "chan_env \<Rightarrow> x11_state \<Rightarrow> u32 \<Rightarrow> channel \<Rightarrow> fd_sets chan_result" where
  "channel_pre_x11_open_13 env x now c =
     (case x11_open_helper x now (ch_output c) of
        (ret, b) \<Rightarrow>
          let c = c\<lparr>ch_output := b\<rparr> in
          if ret = 1 then channel_pre_open_13 env (c\<lparr>ch_type := SSH_CHANNEL_OPEN\<rparr>)
          else if ret = - 1 then
            (Inr ([], []), emit (MSG_PROTO1 SSH_MSG_CHANNEL_CLOSE [P_int (ch_remote_id c)])
               ((close_sock_chan (c\<lparr>ch_input := [], ch_output := []\<rparr>))\<lparr>ch_type := SSH_CHANNEL_CLOSED\<rparr>))
          else (Inr ([], []), c))"

text \<open>The pre-handlers of \<open>Chan_IO\<close> and \<open>Chan_Handlers\<close> in this form.\<close>

definition pre_result :: "chan_pre \<Rightarrow> fd_sets chan_result" where
  "pre_result r = (case r of (c, rs, ws) \<Rightarrow> (Inr (rs, ws), c))"

definition mux_drain :: "compat \<Rightarrow> channel \<Rightarrow> channel" where
  "mux_drain g c =
     (if ch_istate c = CHAN_INPUT_WAIT_DRAIN then chan_rcvd_oclose g (chan_ibuf_empty g (c\<lparr>ch_input := []\<rparr>)) else c)"

definition channel_pre_mux_client :: "compat \<Rightarrow> channel \<Rightarrow> fd_sets chan_result" where
  "channel_pre_mux_client g c0 =
     (let rs = (if ch_istate c0 = CHAN_INPUT_OPEN \<and> \<not> ch_mux_pause c0 \<and> buffer_check_alloc (ch_input c0) CHAN_RBUF
                then [ch_rfd c0] else []);
          c = mux_drain g c0
      in if ch_ostate c = CHAN_OUTPUT_OPEN \<or> ch_ostate c = CHAN_OUTPUT_WAIT_DRAIN then
           if ch_output c \<noteq> [] then (Inr (rs, [ch_wfd c]), c)
           else if ch_ostate c = CHAN_OUTPUT_WAIT_DRAIN then (Inr (rs, []), chan_obuf_empty g c)
           else (Inr (rs, []), c)
         else (Inr (rs, []), c))"

definition path_string :: "channel \<Rightarrow> string" where
  "path_string c = (case ch_path c of None \<Rightarrow> [] | Some p \<Rightarrow> p)"

text \<open>The description of the connection, cut to the size of its buffer; a null pointer as the C library prints it.\<close>

definition open_name :: "string \<Rightarrow> string \<times> int \<Rightarrow> string \<times> int \<Rightarrow> channel \<Rightarrow> string" where
  "open_name rtype peer lcl c =
     (let path = (case ch_path c of None \<Rightarrow> ''(null)'' | Some p \<Rightarrow> take 100 p) in
      take 1023 (rtype @ '': listening port '' @ signed_decimal (ch_listening_port c) @ '' for '' @ path @
        '' port '' @ signed_decimal (ch_host_port c) @ '', connect from '' @ take 200 (fst peer) @ '' port '' @
        signed_decimal (snd peer) @ '' to '' @ take 100 (fst lcl) @ '' port '' @ signed_decimal (snd lcl)))"

definition open_items :: "string \<Rightarrow> string \<times> int \<Rightarrow> int \<Rightarrow> channel \<Rightarrow> pkt_item list" where
  "open_items rtype peer local_port c =
     (if rtype = ''direct-tcpip'' then [P_string (path_string c), P_int (ch_host_port c)]
      else if rtype = ''direct-streamlocal@openssh.com'' then [P_string (path_string c)]
      else if rtype = ''forwarded-streamlocal@openssh.com'' then [P_string (path_string c)]
      else [P_string (path_string c), P_int local_port]) @
     (if rtype = ''forwarded-streamlocal@openssh.com'' then [P_string []]
      else [P_string (fst peer), P_int (snd peer)])"

definition port_open_helper :: "sel_env \<Rightarrow> string \<Rightarrow> channel \<Rightarrow> channel" where
  "port_open_helper env rtype c =
     (let lcl = (fst (se_local env (ch_sock c)), if ch_sock c = - 1 then 65536 else snd (se_local env (ch_sock c)));
          peer = (if snd (se_peer env (ch_sock c)) = - 1 then (''127.0.0.1'', 65535) else se_peer env (ch_sock c));
          c = c\<lparr>ch_remote_name := open_name rtype peer lcl c\<rparr>
      in if compat20 (se_compat env)
         then emit (MSG_CHANNEL_OPEN rtype (ch_self c) (ch_local_window_max c) (ch_local_maxpacket c)
                     (open_items rtype peer (snd lcl) c)) c
         else emit (MSG_PROTO1 SSH_MSG_PORT_OPEN ([P_int (ch_self c), P_string (path_string c), P_int (ch_host_port c)] @
                     (if se_host_in_open env then [P_string (ch_remote_name c)] else []))) c)"

definition channel_pre_dynamic :: "sel_env \<Rightarrow> channel \<Rightarrow> fd_sets chan_result" where
  "channel_pre_dynamic env c0 =
     (if length (ch_input c0) < 3 then (Inr ([ch_sock c0], []), c0)
      else rbind (channel_decode_socks (se_ntop6 env) c0) (\<lambda>ret c.
        let ws = (if has_flag SSH_SOCKS5_AUTHDONE c \<and> \<not> has_flag SSH_SOCKS5_AUTHDONE c0 then [ch_sock c] else []) in
        if ret < 0 then (Inr ([], ws), chan_mark_dead c)
        else if ret = 0 then (Inr ([ch_sock c], ws), c)
        else (Inr ([], ws), port_open_helper env ''direct-tcpip'' (c\<lparr>ch_type := SSH_CHANNEL_OPENING\<rparr>))))"

section \<open>After select\<close>

definition upd_slot :: "nat \<Rightarrow> (channel \<Rightarrow> channel) \<Rightarrow> chan_table \<Rightarrow> chan_table" where
  "upd_slot i f t = (case chans t ! i of None \<Rightarrow> t | Some c \<Rightarrow> set_chan i (f c) t)"

text \<open>When no descriptor is left, the listener pauses for a second.\<close>

definition accept_failed :: "sel_env \<Rightarrow> accres \<Rightarrow> nat \<Rightarrow> chan_table \<Rightarrow> chan_table" where
  "accept_failed env a i t = (if a = ACC_FULL then upd_slot i (\<lambda>c. c\<lparr>ch_notbefore := se_now env + 1\<rparr>) t else t)"

definition channel_post_x11_listener :: "sel_env \<Rightarrow> nat \<Rightarrow> channel \<Rightarrow> chan_table \<Rightarrow> unit tab_result" where
  "channel_post_x11_listener env i c t0 =
     (if ch_sock c \<notin> set (se_readset env) then (Inr (), t0)
      else
        let a = se_accept env (ch_sock c);
            t = (if ch_single_connection c then mark_dead_slot i (channel_close_fd FD_sock i t0) else t0)
        in case a of
             ACCEPTED s \<Rightarrow>
               (case se_peer env s of (ip, port) \<Rightarrow>
                  let name = ''X11 connection from '' @ take 200 ip @ '' port '' @ signed_decimal port in
                  rbind (channel_new ''accepted x11 socket'' SSH_CHANNEL_OPENING s s (- 1) (ch_local_window_max c)
                           (ch_local_maxpacket c) CHAN_EXTENDED_IGNORE name t) (\<lambda>n t.
                    (Inr (), upd_slot n (\<lambda>nc.
                       if compat20 (se_compat env)
                       then emit (MSG_CHANNEL_OPEN ''x11'' (ch_self nc) (ch_local_window_max nc) (ch_local_maxpacket nc)
                              (P_string ip # (if datafellows (se_compat env) AND SSH_BUG_X11FWD \<noteq> 0 then [] else [P_int port]))) nc
                       else emit (MSG_PROTO1 SSH_SMSG_X11_OPEN (P_int (ch_self nc) #
                              (if se_host_in_open env then [P_string name] else []))) nc) t)))
           | _ \<Rightarrow> (Inr (), accept_failed env a i t))"

definition listener_open :: "channel \<Rightarrow> int \<times> string" where
  "listener_open c =
     (if ch_type c = SSH_CHANNEL_RPORT_LISTENER then (SSH_CHANNEL_OPENING, ''forwarded-tcpip'')
      else if ch_type c = SSH_CHANNEL_RUNIX_LISTENER then (SSH_CHANNEL_OPENING, ''forwarded-streamlocal@openssh.com'')
      else if ch_host_port c = PORT_STREAMLOCAL then (SSH_CHANNEL_OPENING, ''direct-streamlocal@openssh.com'')
      else if ch_host_port c = 0 then (SSH_CHANNEL_DYNAMIC, ''dynamic-tcpip'')
      else (SSH_CHANNEL_OPENING, ''direct-tcpip''))"

definition channel_post_port_listener :: "sel_env \<Rightarrow> nat \<Rightarrow> channel \<Rightarrow> chan_table \<Rightarrow> unit tab_result" where
  "channel_post_port_listener env i c t =
     (if ch_sock c \<notin> set (se_readset env) then (Inr (), t)
      else case se_accept env (ch_sock c) of
        ACCEPTED s \<Rightarrow>
          (case listener_open c of (nextstate, rtype) \<Rightarrow>
             rbind (channel_new rtype nextstate s s (- 1) (ch_local_window_max c) (ch_local_maxpacket c)
                      CHAN_EXTENDED_IGNORE rtype t) (\<lambda>n t.
               (Inr (), upd_slot n (\<lambda>nc.
                  let nc = nc\<lparr>ch_listening_port := ch_listening_port c, ch_host_port := ch_host_port c, ch_path := ch_path c\<rparr>
                  in if nextstate \<noteq> SSH_CHANNEL_DYNAMIC then port_open_helper env rtype nc else nc) t)))
      | a \<Rightarrow> (Inr (), accept_failed env a i t))"

definition channel_post_auth_listener :: "sel_env \<Rightarrow> nat \<Rightarrow> channel \<Rightarrow> chan_table \<Rightarrow> unit tab_result" where
  "channel_post_auth_listener env i c t =
     (if ch_sock c \<notin> set (se_readset env) then (Inr (), t)
      else case se_accept env (ch_sock c) of
        ACCEPTED s \<Rightarrow>
          rbind (channel_new ''accepted auth socket'' SSH_CHANNEL_OPENING s s (- 1) (ch_local_window_max c)
                   (ch_local_maxpacket c) CHAN_EXTENDED_IGNORE ''accepted auth socket'' t) (\<lambda>n t.
            (Inr (), upd_slot n (\<lambda>nc.
               if compat20 (se_compat env)
               then emit (MSG_CHANNEL_OPEN ''auth-agent@openssh.com'' (ch_self nc) (ch_local_window_max c)
                      (ch_local_maxpacket c) []) nc
               else emit (MSG_PROTO1 SSH_SMSG_AGENT_OPEN [P_int (ch_self nc)]) nc) t))
      | a \<Rightarrow> (Inr (), accept_failed env a i t))"

definition connect_failed :: "sel_env \<Rightarrow> int \<Rightarrow> channel \<Rightarrow> channel" where
  "connect_failed env err c =
     chan_mark_dead
       (if compat20 (se_compat env)
        then emit (MSG_CHANNEL_OPEN_FAILURE (ch_remote_id c) SSH2_OPEN_CONNECT_FAILED
               (if datafellows (se_compat env) AND SSH_BUG_OPENFAILURE \<noteq> 0 then []
                else [P_string (se_strerror env err), P_string []])) c
        else emit (MSG_PROTO1 SSH_MSG_CHANNEL_OPEN_FAILURE [P_int (ch_remote_id c)]) c)"

definition channel_post_connecting :: "sel_env \<Rightarrow> nat \<Rightarrow> channel \<Rightarrow> chan_table \<Rightarrow> unit tab_result" where
  "channel_post_connecting env i c t =
     (if ch_sock c \<notin> set (se_writeset env) then (Inr (), t)
      else
        let err = se_so_error env (ch_sock c); sock = se_connect_next env i in
        if err = 0 then
          let c = c\<lparr>ch_type := SSH_CHANNEL_OPEN\<rparr> in
          (Inr (), set_chan i
             (if compat20 (se_compat env)
              then emit (MSG_CHANNEL_OPEN_CONFIRMATION (ch_remote_id c) (ch_self c) (ch_local_window c) (ch_local_maxpacket c)) c
              else emit (MSG_PROTO1 SSH_MSG_CHANNEL_OPEN_CONFIRMATION [P_int (ch_remote_id c), P_int (ch_self c)]) c) t)
        else if sock > 0 then
          let t = set_chan i ((emit (SYS_CLOSE (ch_sock c)) c)\<lparr>ch_sock := sock, ch_rfd := sock, ch_wfd := sock\<rparr>) t in
          (Inr (), t\<lparr>channel_max_fd := channel_find_maxfd (chans t)\<rparr>)
        else (Inr (), set_chan i (connect_failed env err c) t))"

definition read_mux :: "compat \<Rightarrow> nat \<Rightarrow> rdres \<Rightarrow> channel \<Rightarrow> nat chan_result" where
  "read_mux g need r c =
     (if length (ch_input c) < need then
        let rlen = min (need - length (ch_input c)) CHAN_RBUF in
        (case r of
           RD_EINTR \<Rightarrow> (Inr (length (ch_input c)), c)
         | RD_EAGAIN \<Rightarrow> (Inr (length (ch_input c)), c)
         | RD_ERR \<Rightarrow> (Inr 0, chan_read_failed g c)
         | RD bs \<Rightarrow>
             if bs = [] then (Inr 0, chan_read_failed g c)
             else rbind (put_input (buffer_append (ch_input c) (take rlen bs)) (emit (SYS_READ (ch_rfd c) (take rlen bs)) c))
                    (\<lambda>_ c. (Inr (length (ch_input c)), c)))
      else (Inr (length (ch_input c)), c))"

text \<open>The reading half of \<open>channel_post_mux_client\<close>; the boolean says that the function goes on.\<close>

definition mux_client_read :: "sel_env \<Rightarrow> nat \<Rightarrow> channel \<Rightarrow> chan_table \<Rightarrow> bool tab_result" where
  "mux_client_read env i c t =
     (let g = se_compat env in
      rbind (on_slot i (read_mux g 4 (rd_rfd (se_ready env i))) c t) (\<lambda>n t.
        if n < 4 then (Inr False, t)
        else let c = the (chans t ! i); need = unat (PEEK_U32 (ch_input c)) in
          if need > CHANNEL_MUX_MAX_PACKET then (Inr False, put_chan i c (chan_rcvd_oclose g c) t)
          else rbind (on_slot i (read_mux g (need + 4) (se_body env i)) c t) (\<lambda>n t.
            if n < need + 4 then (Inr False, t)
            else case se_mux env i t of (ok, t) \<Rightarrow> if ok then (Inr True, t) else (Inr False, mark_dead_slot i t))))"

definition mux_client_write :: "sel_env \<Rightarrow> nat \<Rightarrow> channel \<Rightarrow> channel" where
  "mux_client_write env i c =
     (if ch_wfd c \<noteq> - 1 \<and> ch_wfd c \<in> set (se_writeset env) \<and> ch_output c \<noteq> [] then
        (case wr_wfd (se_ready env i) of
           WR_AGAIN \<Rightarrow> c
         | WR_ERR \<Rightarrow> chan_mark_dead c
         | WR n \<Rightarrow>
             let len = min n (length (ch_output c)) in
             if len = 0 then chan_mark_dead c
             else (emit (SYS_WRITE (ch_wfd c) (take len (ch_output c))) c)\<lparr>ch_output := drop len (ch_output c)\<rparr>)
      else c)"

definition channel_post_mux_client :: "sel_env \<Rightarrow> nat \<Rightarrow> channel \<Rightarrow> chan_table \<Rightarrow> unit tab_result" where
  "channel_post_mux_client env i c t =
     (if \<not> compat20 (se_compat env) then (Inl Fatal, t)
      else rbind
        (if ch_rfd c \<noteq> - 1 \<and> \<not> ch_mux_pause c \<and> ch_rfd c \<in> set (se_readset env) \<and>
            (ch_istate c = CHAN_INPUT_OPEN \<or> ch_istate c = CHAN_INPUT_WAIT_DRAIN)
         then mux_client_read env i c t else (Inr True, t))
        (\<lambda>go t. (Inr (), if go then upd_slot i (mux_client_write env i) t else t)))"

definition channel_post_mux_listener :: "sel_env \<Rightarrow> nat \<Rightarrow> channel \<Rightarrow> chan_table \<Rightarrow> unit tab_result" where
  "channel_post_mux_listener env i c t =
     (if ch_sock c \<notin> set (se_readset env) then (Inr (), t)
      else case se_accept env (ch_sock c) of
        ACCEPTED s \<Rightarrow>
          let refuse = (Inr (), set_chan i (emit (SYS_CLOSE s) c) t) in
          (case se_peereid env s of
             None \<Rightarrow> refuse
           | Some euid \<Rightarrow>
               if euid \<noteq> 0 \<and> se_uid env \<noteq> euid then refuse
               else rbind (channel_new ''multiplex client'' SSH_CHANNEL_MUX_CLIENT s s (- 1) (ch_local_window_max c)
                             (ch_local_maxpacket c) CHAN_EXTENDED_IGNORE ''mux-control'' t) (\<lambda>n t.
                 (Inr (), upd_slot n (set_flag CHAN_LOCAL) (snd (se_mux env n t)))))
      | a \<Rightarrow> (Inr (), accept_failed env a i t))"

definition channel_post_output_drain_13 :: "sel_env \<Rightarrow> nat \<Rightarrow> channel \<Rightarrow> channel" where
  "channel_post_output_drain_13 env i c =
     (if ch_sock c \<in> set (se_writeset env) \<and> ch_output c \<noteq> [] then
        (case wr_wfd (se_ready env i) of
           WR n \<Rightarrow>
             let len = min n (length (ch_output c)) in
             if len = 0 then c\<lparr>ch_output := []\<rparr>
             else (emit (SYS_WRITE (ch_sock c) (take len (ch_output c))) c)\<lparr>ch_output := drop len (ch_output c)\<rparr>
         | _ \<Rightarrow> c\<lparr>ch_output := []\<rparr>)
      else c)"

section \<open>The tables of handlers\<close>

type_synonym chan_fn = "nat \<Rightarrow> channel \<Rightarrow> chan_table \<Rightarrow> fd_sets tab_result"

definition pre_fn :: "(channel \<Rightarrow> fd_sets chan_result) \<Rightarrow> chan_fn" where
  "pre_fn f i c t = on_slot i f c t"

definition post_fn :: "(nat \<Rightarrow> channel \<Rightarrow> chan_table \<Rightarrow> unit tab_result) \<Rightarrow> chan_fn" where
  "post_fn f i c t = rbind (f i c t) (\<lambda>_ t. (Inr ([], []), t))"

definition channel_pre_20 :: "sel_env \<Rightarrow> (int \<times> (channel \<Rightarrow> fd_sets chan_result)) list" where
  "channel_pre_20 env =
     [(SSH_CHANNEL_OPEN, \<lambda>c. pre_result (channel_pre_open (se_chan env) c)),
      (SSH_CHANNEL_X11_OPEN, \<lambda>c. pre_result (channel_pre_x11_open (se_chan env) (se_x11 env) (of_int (se_now env)) c)),
      (SSH_CHANNEL_PORT_LISTENER, channel_pre_listener), (SSH_CHANNEL_RPORT_LISTENER, channel_pre_listener),
      (SSH_CHANNEL_UNIX_LISTENER, channel_pre_listener), (SSH_CHANNEL_RUNIX_LISTENER, channel_pre_listener),
      (SSH_CHANNEL_X11_LISTENER, channel_pre_listener), (SSH_CHANNEL_AUTH_SOCKET, channel_pre_listener),
      (SSH_CHANNEL_CONNECTING, channel_pre_connecting), (SSH_CHANNEL_DYNAMIC, channel_pre_dynamic env),
      (SSH_CHANNEL_MUX_LISTENER, channel_pre_listener), (SSH_CHANNEL_MUX_CLIENT, channel_pre_mux_client (se_compat env))]"

definition channel_pre_13 :: "sel_env \<Rightarrow> (int \<times> (channel \<Rightarrow> fd_sets chan_result)) list" where
  "channel_pre_13 env =
     [(SSH_CHANNEL_OPEN, channel_pre_open_13 (se_chan env)),
      (SSH_CHANNEL_X11_OPEN, channel_pre_x11_open_13 (se_chan env) (se_x11 env) (of_int (se_now env))),
      (SSH_CHANNEL_X11_LISTENER, channel_pre_listener), (SSH_CHANNEL_PORT_LISTENER, channel_pre_listener),
      (SSH_CHANNEL_AUTH_SOCKET, channel_pre_listener), (SSH_CHANNEL_INPUT_DRAINING, channel_pre_input_draining),
      (SSH_CHANNEL_OUTPUT_DRAINING, channel_pre_output_draining), (SSH_CHANNEL_CONNECTING, channel_pre_connecting),
      (SSH_CHANNEL_DYNAMIC, channel_pre_dynamic env)]"

definition channel_pre_15 :: "sel_env \<Rightarrow> (int \<times> (channel \<Rightarrow> fd_sets chan_result)) list" where
  "channel_pre_15 env =
     [(SSH_CHANNEL_OPEN, \<lambda>c. pre_result (channel_pre_open (se_chan env) c)),
      (SSH_CHANNEL_X11_OPEN, \<lambda>c. pre_result (channel_pre_x11_open (se_chan env) (se_x11 env) (of_int (se_now env)) c)),
      (SSH_CHANNEL_X11_LISTENER, channel_pre_listener), (SSH_CHANNEL_PORT_LISTENER, channel_pre_listener),
      (SSH_CHANNEL_AUTH_SOCKET, channel_pre_listener), (SSH_CHANNEL_CONNECTING, channel_pre_connecting),
      (SSH_CHANNEL_DYNAMIC, channel_pre_dynamic env)]"

definition post_open_fn :: "sel_env \<Rightarrow> nat \<Rightarrow> channel \<Rightarrow> chan_table \<Rightarrow> unit tab_result" where
  "post_open_fn env i c t =
     on_slot i (channel_post_open (se_chan env)
       ((se_ready env i)\<lparr>rd_set := se_readset env, wr_set := se_writeset env\<rparr>)) c t"

definition channel_post_20 :: "sel_env \<Rightarrow> (int \<times> (nat \<Rightarrow> channel \<Rightarrow> chan_table \<Rightarrow> unit tab_result)) list" where
  "channel_post_20 env =
     [(SSH_CHANNEL_OPEN, post_open_fn env),
      (SSH_CHANNEL_PORT_LISTENER, channel_post_port_listener env), (SSH_CHANNEL_RPORT_LISTENER, channel_post_port_listener env),
      (SSH_CHANNEL_UNIX_LISTENER, channel_post_port_listener env), (SSH_CHANNEL_RUNIX_LISTENER, channel_post_port_listener env),
      (SSH_CHANNEL_X11_LISTENER, channel_post_x11_listener env), (SSH_CHANNEL_AUTH_SOCKET, channel_post_auth_listener env),
      (SSH_CHANNEL_CONNECTING, channel_post_connecting env), (SSH_CHANNEL_DYNAMIC, post_open_fn env),
      (SSH_CHANNEL_MUX_LISTENER, channel_post_mux_listener env), (SSH_CHANNEL_MUX_CLIENT, channel_post_mux_client env)]"

definition channel_post_13 :: "sel_env \<Rightarrow> (int \<times> (nat \<Rightarrow> channel \<Rightarrow> chan_table \<Rightarrow> unit tab_result)) list" where
  "channel_post_13 env =
     [(SSH_CHANNEL_OPEN, post_open_fn env), (SSH_CHANNEL_X11_LISTENER, channel_post_x11_listener env),
      (SSH_CHANNEL_PORT_LISTENER, channel_post_port_listener env), (SSH_CHANNEL_AUTH_SOCKET, channel_post_auth_listener env),
      (SSH_CHANNEL_OUTPUT_DRAINING, \<lambda>i c t. (Inr (), set_chan i (channel_post_output_drain_13 env i c) t)),
      (SSH_CHANNEL_CONNECTING, channel_post_connecting env), (SSH_CHANNEL_DYNAMIC, post_open_fn env)]"

definition channel_post_15 :: "sel_env \<Rightarrow> (int \<times> (nat \<Rightarrow> channel \<Rightarrow> chan_table \<Rightarrow> unit tab_result)) list" where
  "channel_post_15 env =
     [(SSH_CHANNEL_X11_LISTENER, channel_post_x11_listener env), (SSH_CHANNEL_PORT_LISTENER, channel_post_port_listener env),
      (SSH_CHANNEL_AUTH_SOCKET, channel_post_auth_listener env), (SSH_CHANNEL_OPEN, post_open_fn env),
      (SSH_CHANNEL_CONNECTING, channel_post_connecting env), (SSH_CHANNEL_DYNAMIC, post_open_fn env)]"

definition channel_pre :: "sel_env \<Rightarrow> int \<Rightarrow> chan_fn option" where
  "channel_pre env ty =
     map_option pre_fn (map_of (if compat20 (se_compat env) then channel_pre_20 env
       else if ce_compat13 (se_chan env) then channel_pre_13 env else channel_pre_15 env) ty)"

definition channel_post :: "sel_env \<Rightarrow> int \<Rightarrow> chan_fn option" where
  "channel_post env ty =
     map_option post_fn (map_of (if compat20 (se_compat env) then channel_post_20 env
       else if ce_compat13 (se_chan env) then channel_post_13 env else channel_post_15 env) ty)"

section \<open>The loop\<close>

text \<open>The descriptor sets and the time until the first paused channel goes on (0 for none).\<close>

record sel_state =
  sel_read :: "int list"
  sel_write :: "int list"
  sel_unpause :: int

definition wait_for :: "sel_env \<Rightarrow> channel \<Rightarrow> sel_state \<Rightarrow> sel_state" where
  "wait_for env c a =
     (let d = ch_notbefore c - se_now env in
      if sel_unpause a = 0 \<or> d < sel_unpause a then a\<lparr>sel_unpause := d\<rparr> else a)"

definition handle_channel :: "sel_env \<Rightarrow> (int \<Rightarrow> chan_fn option) \<Rightarrow> nat \<Rightarrow> channel \<Rightarrow> sel_state \<Rightarrow> chan_table \<Rightarrow> sel_state tab_result" where
  "handle_channel env ftab i c a t =
     (case ftab (ch_type c) of
        None \<Rightarrow> (Inr a, t)
      | Some f \<Rightarrow>
          if ch_notbefore c \<le> se_now env
          then rbind (f i c t) (\<lambda>(rs, ws) t. (Inr (a\<lparr>sel_read := sel_read a @ rs, sel_write := sel_write a @ ws\<rparr>), t))
          else (Inr (wait_for env c a), t))"

fun handler_loop :: "sel_env \<Rightarrow> bool \<Rightarrow> (int \<Rightarrow> chan_fn option) \<Rightarrow> nat list \<Rightarrow> sel_state \<Rightarrow> chan_table \<Rightarrow> sel_state tab_result" where
  "handler_loop env pre ftab [] a t = (Inr a, t)"
| "handler_loop env pre ftab (i # is) a t =
     (case chans t ! i of
        None \<Rightarrow> handler_loop env pre ftab is a t
      | Some c \<Rightarrow>
          if ch_delayed c \<and> \<not> pre then handler_loop env pre ftab is a t
          else
            let c = c\<lparr>ch_delayed := False\<rparr> in
            rbind (handle_channel env ftab i c a (set_chan i c t)) (\<lambda>a t.
            rbind (channel_garbage_collect (se_tab env) i t) (\<lambda>_ t.
            handler_loop env pre ftab is a t)))"

definition channel_handler :: "sel_env \<Rightarrow> bool \<Rightarrow> (int \<Rightarrow> chan_fn option) \<Rightarrow> chan_table \<Rightarrow> sel_state tab_result" where
  "channel_handler env pre ftab t =
     handler_loop env pre ftab [0..<length (chans t)] \<lparr>sel_read = [], sel_write = [], sel_unpause = 0\<rparr> t"

text \<open>The new largest descriptor, for which the descriptor sets are allocated, and the sets.\<close>

definition channel_prepare_select :: "sel_env \<Rightarrow> int \<Rightarrow> bool \<Rightarrow> chan_table \<Rightarrow> (int \<times> sel_state) tab_result" where
  "channel_prepare_select env maxfd rekey t =
     (let n = max maxfd (channel_max_fd t) in
      rbind (if rekey then (Inr \<lparr>sel_read = [], sel_write = [], sel_unpause = 0\<rparr>, t)
             else channel_handler env True (channel_pre env) t) (\<lambda>a t. (Inr (n, a), t)))"

definition channel_after_select :: "sel_env \<Rightarrow> chan_table \<Rightarrow> unit tab_result" where
  "channel_after_select env t = rbind (channel_handler env False (channel_post env) t) (\<lambda>_ t. (Inr (), t))"

definition channel_connect_stdio_fwd :: "sel_env \<Rightarrow> string \<Rightarrow> u16 \<Rightarrow> int \<Rightarrow> int \<Rightarrow> chan_table \<Rightarrow> nat tab_result" where
  "channel_connect_stdio_fwd env host port fdin fdout t =
     rbind (channel_new ''stdio-forward'' SSH_CHANNEL_OPENING fdin fdout (- 1) CHAN_TCP_WINDOW_DEFAULT
              CHAN_TCP_PACKET_DEFAULT CHAN_EXTENDED_IGNORE ''stdio-forward'' t) (\<lambda>n t.
       let c = (the (chans t ! n))\<lparr>ch_path := Some host, ch_host_port := uint port, ch_listening_port := 0,
                                   ch_force_drain := True\<rparr>;
           t = channel_register_fds n c fdin fdout (- 1) CHAN_EXTENDED_IGNORE False t
       in (Inr n, upd_slot n (port_open_helper env ''direct-tcpip'') t))"


section \<open>What a round keeps\<close>

text \<open>The invariant holds again and no slot is lost; \<open>lowers\<close>: and no larger descriptor came in.\<close>

definition tab_keeps :: "chan_table \<Rightarrow> chan_table \<Rightarrow> bool" where
  "tab_keeps t t' \<longleftrightarrow> tab_inv t' \<and> length (chans t) \<le> length (chans t')"

definition lowers :: "chan_table \<Rightarrow> chan_table \<Rightarrow> bool" where
  "lowers t t' \<longleftrightarrow> tab_keeps t t' \<and> channel_max_fd t' \<le> channel_max_fd t"

lemma tab_keeps_trans [trans]: "tab_keeps t u \<Longrightarrow> tab_keeps u v \<Longrightarrow> tab_keeps t v"
  by (simp add: tab_keeps_def)

lemma lowers_trans [trans]: "lowers t u \<Longrightarrow> lowers u v \<Longrightarrow> lowers t v"
  by (auto simp: lowers_def intro: tab_keeps_trans)

lemma tab_keeps_refl [simp]: "tab_keeps t t = tab_inv t" "lowers t t = tab_inv t"
  by (simp_all add: tab_keeps_def lowers_def)

lemma maxfd_lowers:
  assumes "tab_inv t"
  shows "channel_find_maxfd (chans t) \<le> channel_max_fd t"
proof -
  have "fold (\<lambda>x m. case x of None \<Rightarrow> m | Some c \<Rightarrow> max (max (max m (ch_rfd c)) (ch_wfd c)) (ch_efd c)) cs m \<le> b"
    if "\<And>c. Some c \<in> set cs \<Longrightarrow> ch_rfd c \<le> b \<and> ch_wfd c \<le> b \<and> ch_efd c \<le> b" "m \<le> b" for cs m b
    using that by (induction cs arbitrary: m) (auto split: option.split)
  moreover have "ch_rfd c \<le> channel_max_fd t \<and> ch_wfd c \<le> channel_max_fd t \<and> ch_efd c \<le> channel_max_fd t"
    if "Some c \<in> set (chans t)" for c
    using that assms by (auto simp: in_set_conv_nth tab_inv_def slot_ok_def)
  moreover have "0 \<le> channel_max_fd t" using assms by (simp add: tab_inv_def)
  ultimately show ?thesis unfolding channel_find_maxfd_def by blast
qed

lemma closed_lowers: "tab_inv t \<Longrightarrow> channel_max_fd (fd_closed fd t) \<le> channel_max_fd t"
  using maxfd_lowers by (simp add: fd_closed_def)

lemma closed_all_lowers: "tab_inv t \<Longrightarrow> channel_max_fd (fold fd_closed fds t) \<le> channel_max_fd t"
proof (induction fds arbitrary: t)
  case (Cons x xs)
  show ?case
    using order_trans [OF Cons.IH [OF tab_inv_closed [OF Cons.prems]] closed_lowers [OF Cons.prems]] by simp
qed simp

lemma put_chan_lowers:
  assumes "tab_inv t" and "i < length (chans t)" and "chans t ! i = Some c" and "tame c c'"
  shows "lowers t (put_chan i c c' t)" and "lowers t (set_chan i c' t)"
  using tab_inv_put [OF assms] tab_inv_tame [OF assms] closed_all_lowers [OF tab_inv_tame [OF assms]]
  by (simp_all add: lowers_def tab_keeps_def put_chan_def [symmetric]) (simp add: put_chan_def)

lemma on_slot_lowers:
  assumes "tab_inv t" and "i < length (chans t)" and "chans t ! i = Some c" and "tame c (snd (f c))"
  shows "lowers t (snd (on_slot i f c t))"
  using put_chan_lowers(1) [OF assms] by (cases "f c") (simp add: on_slot_def)

lemma upd_slot_keeps: "tab_inv t \<Longrightarrow> i < length (chans t) \<Longrightarrow> (\<And>c. chans t ! i = Some c \<Longrightarrow> tame c (f c)) \<Longrightarrow> lowers t (upd_slot i f t)"
  using put_chan_lowers(2) by (auto simp: upd_slot_def split: option.split)

lemma close_fd_lowers:
  assumes "tab_inv t" and "i < length (chans t)" and "f = FD_sock \<or> (\<forall>c. chans t ! i = Some c \<longrightarrow> ch_sock c = - 1)"
  shows "lowers t (channel_close_fd f i t)"
proof (cases "chans t ! i")
  case (Some d)
  let ?u = "set_chan i (clear_fd f (emit (SYS_CLOSE (fd_of f d)) d)) t"
  have "tame d (clear_fd f (emit e d))" for e
    using assms(3) Some tab_inv_slot [OF assms(1,2) Some] by (cases f) (auto simp: tame_def emit_def slot_ok_def)
  then have "tab_inv ?u" using tab_inv_tame [OF assms(1,2) Some] by blast
  then have "channel_max_fd (fd_closed (fd_of f d) ?u) \<le> channel_max_fd t" using closed_lowers [of ?u] by simp
  moreover have "tab_inv (channel_close_fd f i t)" using close_fd_inv [OF assms(1,2), of f] assms(3) by auto
  ultimately show ?thesis using Some by (simp add: lowers_def tab_keeps_def channel_close_fd_def)
qed (use assms in \<open>simp add: channel_close_fd_def\<close>)

lemma close_fds_lowers:
  assumes "tab_inv t" and "i < length (chans t)"
  shows "lowers t (channel_close_fds i t)"
proof -
  let ?a = "channel_close_fd FD_sock i t"
  have a: "lowers t ?a" using close_fd_lowers [OF assms] by blast
  have s: "\<forall>c. chans ?a ! i = Some c \<longrightarrow> ch_sock c = - 1" using close_sock [OF assms(2)] by blast
  have k: "\<forall>c. chans (channel_close_fd f i u) ! i = Some c \<longrightarrow> ch_sock c = - 1"
    if "\<forall>c. chans u ! i = Some c \<longrightarrow> ch_sock c = - 1" "i < length (chans u)" for f u
    using that by (cases f) (auto simp: channel_close_fd_def set_chan_def emit_def split: option.splits if_splits)
  let ?b = "channel_close_fd FD_rfd i ?a"
  have b: "lowers ?a ?b" "\<forall>c. chans ?b ! i = Some c \<longrightarrow> ch_sock c = - 1"
    using close_fd_lowers [of ?a i FD_rfd] k [OF s] a s assms(2) by (simp_all add: lowers_def tab_keeps_def)
  let ?c = "channel_close_fd FD_wfd i ?b"
  have c: "lowers ?b ?c" "\<forall>c. chans ?c ! i = Some c \<longrightarrow> ch_sock c = - 1"
    using close_fd_lowers [of ?b i FD_wfd] k [OF b(2)] b assms(2) by (simp_all add: lowers_def tab_keeps_def)
  have d: "lowers ?c (channel_close_fd FD_efd i ?c)"
    using close_fd_lowers [of ?c i FD_efd] c assms(2) by (simp add: lowers_def tab_keeps_def)
  show ?thesis unfolding channel_close_fds_def using a b(1) c(1) d by (blast intro: lowers_trans)
qed


lemma free_lowers:
  assumes "tab_inv t" and "i < length (chans t)"
  shows "lowers t (snd (channel_free g i t))"
proof (cases "chans t ! i")
  case (Some c)
  define t1 where "t1 = (if ch_type c = SSH_CHANNEL_MUX_CLIENT then detach_mux_client g i t else t)"
  define t2 where "t2 = (if ch_sock c \<noteq> - 1 then set_chan i (emit (SYS_SHUT_RDWR (ch_sock c)) c) t1 else t1)"
  have t1: "tab_inv t1" "i < length (chans t1)" "channel_max_fd t1 = channel_max_fd t"
    using assms detach_inv by (simp_all add: t1_def detach_mux_client_def)
  have "ch_type c = SSH_CHANNEL_MUX_CLIENT \<Longrightarrow> detach_proxy i c = c" by (simp add: detach_proxy_def chan_type_defs)
  then have c: "chans t1 ! i = Some c" using Some assms(2) by (auto simp: t1_def detach_mux_client_def)
  have t2: "lowers t1 t2" using put_chan_lowers(2) [OF t1(1,2) c tame_simps(1)] t1 by (simp add: t2_def)
  obtain xs where m: "channel_open_message t1 = Inr xs" using open_message_returns [OF t1(1)] by blast
  have "channel_max_fd (snd (channel_free g i t)) = channel_max_fd (channel_close_fds i t2)"
    using Some m by (simp add: channel_free_def Let_def t1_def [symmetric] t2_def [symmetric])
  moreover have "channel_max_fd (channel_close_fds i t2) \<le> channel_max_fd t2"
    using close_fds_lowers [of t2 i] t2 t1(2) by (simp add: lowers_def tab_keeps_def)
  ultimately show ?thesis using free_inv [OF assms, of g] t2 t1(3) by (simp add: lowers_def tab_keeps_def)
qed (use assms in \<open>simp add: channel_free_def\<close>)

text \<open>The callback for a detached channel is assumed not to bring new descriptors; it runs between the handlers.\<close>

definition quiet_detach :: "tab_env \<Rightarrow> bool" where
  "quiet_detach env \<longleftrightarrow> (\<forall>t fn i. tab_inv t \<longrightarrow> lowers t (te_detach env fn i t))"

lemma garbage_collect_rel:
  assumes tr: "\<And>t u v. R t u \<Longrightarrow> R u v \<Longrightarrow> R t v" and k: "\<And>t u. R t u \<Longrightarrow> tab_keeps t u" and low: "\<And>t u. lowers t u \<Longrightarrow> R t u"
    and det: "\<And>t fn k. tab_inv t \<Longrightarrow> R t (te_detach env fn k t)" and t: "tab_inv t" "i < length (chans t)"
  shows "R t (snd (channel_garbage_collect env i t))"
proof -
  let ?g = "te_compat env"
  have p: "R t' (put_chan i c c' t')" if "tab_inv t'" "i < length (chans t')" "chans t' ! i = Some c"
      "chan_is_dead ?g c b = (d, c')" for c c' t' b d
    using put_chan_lowers(1) [OF that(1-3), of c'] tame_events(7) [of c ?g b] that(4) low by simp
  have c: "R t' (snd (case chans t' ! i of None \<Rightarrow> (Inr (), t') | Some c \<Rightarrow>
        (case chan_is_dead ?g c True of (dead, c') \<Rightarrow>
           if dead then channel_free ?g i (put_chan i c c' t') else (Inr (), put_chan i c c' t'))))"
    if t': "tab_inv t'" "i < length (chans t')" for t'
  proof (cases "chans t' ! i")
    case (Some ch)
    obtain dead c' where dc: "chan_is_dead ?g ch True = (dead, c')" by fastforce
    let ?u = "put_chan i ch c' t'"
    have q: "R t' ?u" using p [OF t' Some dc] .
    then have "tab_inv ?u" "i < length (chans ?u)" using k [of t' ?u] t'(2) by (auto simp: tab_keeps_def)
    then have "R ?u (snd (channel_free ?g i ?u))" by (intro low free_lowers)
    then show ?thesis using Some dc q tr [OF q] by simp
  qed (use t' low in simp)
  show ?thesis
  proof (cases "chans t ! i")
    case (Some ch)
    show ?thesis
    proof (cases "ch_detach_user ch")
      case None
      then show ?thesis using Some c [OF t] by (simp add: channel_garbage_collect_def Let_def)
    next
      case (Some fn)
      obtain dead c' where dc: "chan_is_dead ?g ch (ch_detach_close ch) = (dead, c')" by fastforce
      let ?t = "put_chan i ch c' t" and ?u = "te_detach env fn (ch_self ch) (put_chan i ch c' t)"
      have q: "R t ?t" using p [OF t \<open>chans t ! i = Some ch\<close> dc] .
      then have tu: "R t ?u" using tr [OF q det] k [OF q] by (simp add: tab_keeps_def)
      then have i: "tab_inv ?u" "i < length (chans ?u)" using k [OF tu] t(2) by (auto simp: tab_keeps_def)
      show ?thesis
        using Some \<open>chans t ! i = Some ch\<close> dc q tu tr [OF tu c [OF i]]
        by (cases "chans ?u ! i") (simp_all add: channel_garbage_collect_def Let_def)
    qed
  qed (use t low in \<open>simp add: channel_garbage_collect_def\<close>)
qed

lemma garbage_collect_lowers:
  "quiet_detach env \<Longrightarrow> tab_inv t \<Longrightarrow> i < length (chans t) \<Longrightarrow> lowers t (snd (channel_garbage_collect env i t))"
  by (rule garbage_collect_rel [of lowers]) (auto simp: quiet_detach_def lowers_def intro: tab_keeps_trans)

lemma garbage_collect_keeps:
  "tame_callbacks env \<Longrightarrow> tab_inv t \<Longrightarrow> i < length (chans t) \<Longrightarrow> tab_keeps t (snd (channel_garbage_collect env i t))"
  by (rule garbage_collect_rel [of tab_keeps]) (auto simp: tame_callbacks_def lowers_def tab_keeps_def)


section \<open>The handlers before select\<close>

definition fds_of :: "channel \<Rightarrow> int set" where
  "fds_of c = {- 1, ch_sock c, ch_rfd c, ch_wfd c, ch_efd c}"

definition pre_ok :: "(channel \<Rightarrow> fd_sets chan_result) \<Rightarrow> bool" where
  "pre_ok f \<longleftrightarrow> (\<forall>c. tame c (snd (f c)) \<and> (\<forall>rs ws. fst (f c) = Inr (rs, ws) \<longrightarrow> set rs \<union> set ws \<subseteq> fds_of c))"

lemma tame_fds: "tame c c' \<Longrightarrow> fds_of c' \<subseteq> fds_of c"
  by (auto simp: tame_def fds_of_def)

lemma tame_more [simp, intro]:
  "tame c (close_sock_chan c)" "tame c (port_open_helper env rtype c)"
  by (auto simp: close_sock_chan_def port_open_helper_def Let_def tame_def emit_def)

lemma tame_fields:
  "tame c (d\<lparr>ch_path := p\<rparr>) = tame c d" "tame c (d\<lparr>ch_host_port := k\<rparr>) = tame c d" "tame c (d\<lparr>ch_notbefore := n\<rparr>) = tame c d"
  "tame c (d\<lparr>ch_delayed := b\<rparr>) = tame c d" "tame c (d\<lparr>ch_listening_port := k\<rparr>) = tame c d"
  by (simp_all add: tame_def)

lemma more_types [simp]: "SSH_CHANNEL_CLOSED \<in> chan_types" "SSH_CHANNEL_OPENING \<in> chan_types" "SSH_CHANNEL_DYNAMIC \<in> chan_types"
    "SSH_CHANNEL_MUX_CLIENT \<in> chan_types" "SSH_CHANNEL_MUX_PROXY \<in> chan_types"
  by (simp_all add: chan_types_def chan_type_defs)

lemma tame_pre_open: "tame c (fst (channel_pre_open env c))"
  by (auto simp: channel_pre_open_def pre_write_def Let_def split: prod.split)

lemma pre_open_fds: "channel_pre_open env c = (c', rs, ws) \<Longrightarrow> set rs \<union> set ws \<subseteq> fds_of c"
proof -
  assume a: "channel_pre_open env c = (c', rs, ws)"
  obtain d w where w: "pre_write env c = (d, w)" by fastforce
  obtain er ew where e: "pre_efd env d = (er, ew)" by fastforce
  have "tame c d" using tame_pre_open [of c env] w e by (simp add: channel_pre_open_def)
  then have "fds_of d \<subseteq> fds_of c" by (rule tame_fds)
  moreover have "set er \<union> set ew \<subseteq> fds_of d" using e by (auto simp: pre_efd_def fds_of_def split: if_splits)
  moreover have "set w \<subseteq> fds_of c" using w by (auto simp: pre_write_def fds_of_def split: if_splits)
  moreover have "set (pre_read env c) \<subseteq> fds_of c" by (auto simp: pre_read_def fds_of_def Let_def)
  moreover have "rs = pre_read env c @ er" "ws = w @ ew" using a w e by (simp_all add: channel_pre_open_def)
  ultimately show ?thesis by (simp add: le_sup_iff) blast
qed

lemma tab_pre_open_ok: "pre_ok (\<lambda>c. pre_result (channel_pre_open env c))"
  using tame_pre_open pre_open_fds by (auto simp: pre_ok_def pre_result_def split: prod.split) (metis fst_conv)

lemma pre_x11_ok: "pre_ok (\<lambda>c. pre_result (channel_pre_x11_open env x now c))"
proof -
  have "tame c (fst (channel_pre_x11_open env x now c)) \<and>
      (\<forall>c' rs ws. channel_pre_x11_open env x now c = (c', rs, ws) \<longrightarrow> set rs \<union> set ws \<subseteq> fds_of c)" for c
  proof -
    obtain r b where h: "x11_open_helper x now (ch_output c) = (r, b)" by fastforce
    let ?g = "ce_compat env" and ?c = "c\<lparr>ch_output := b\<rparr>"
    let ?d = "(chan_ibuf_empty ?g ((chan_read_failed ?g ?c)\<lparr>ch_input := []\<rparr>))\<lparr>ch_output := []\<rparr>"
    have "tame c (chan_read_failed ?g ?c)" using tame_trans [OF tame_simps(7) tame_events(1)] by blast
    then have "tame c ((chan_read_failed ?g ?c)\<lparr>ch_input := []\<rparr>)" by (simp add: tame_upd)
    then have d: "tame c ?d" using tame_trans [OF _ tame_events(2)] by (simp add: tame_upd)
    then have dw: "tame c (chan_write_failed ?g ?d)" using tame_trans tame_events(4) by blast
    have o: "tame c (?c\<lparr>ch_type := SSH_CHANNEL_OPEN\<rparr>)" by (simp add: tame_typed)
    then have "tame c (fst (channel_pre_open env (?c\<lparr>ch_type := SSH_CHANNEL_OPEN\<rparr>)))" using tame_trans tame_pre_open by blast
    moreover have "channel_pre_open env (?c\<lparr>ch_type := SSH_CHANNEL_OPEN\<rparr>) = (c', rs, ws) \<Longrightarrow> set rs \<union> set ws \<subseteq> fds_of c" for c' rs ws
      using pre_open_fds [of env "?c\<lparr>ch_type := SSH_CHANNEL_OPEN\<rparr>"] by (simp add: fds_of_def)
    ultimately show ?thesis
      using h d dw by (auto simp: channel_pre_x11_open_def Let_def tame_typed)
  qed
  then show ?thesis by (auto simp: pre_ok_def pre_result_def split: prod.split) (metis fst_conv)
qed

lemma tame_socks: "tame c (snd (channel_decode_socks ntop6 c))"
proof -
  have h: "tame c (snd (socks4_host n a p d)) = tame c d" for n a p d
    by (simp add: socks4_host_def Let_def tame_fields tame_upd)
  have "tame c (snd (channel_decode_socks4 c))"
    by (auto simp: channel_decode_socks4_def Let_def tame_upd tame_fields h split: option.split bool.split intro!: tame_rbind)
  moreover have "tame c (snd (channel_decode_socks5 ntop6 c))"
    by (auto simp: channel_decode_socks5_def socks5_auth_def Let_def tame_upd tame_fields split: option.split intro!: tame_rbind)
  ultimately show ?thesis by (simp add: channel_decode_socks_def)
qed

lemma pre_dynamic_ok: "pre_ok (channel_pre_dynamic env)"
proof -
  have "tame c (snd (channel_pre_dynamic env c)) \<and>
      (\<forall>rs ws. fst (channel_pre_dynamic env c) = Inr (rs, ws) \<longrightarrow> set rs \<union> set ws \<subseteq> fds_of c)" for c
  proof (cases "length (ch_input c) < 3")
    case True
    then show ?thesis by (auto simp: channel_pre_dynamic_def fds_of_def)
  next
    case False
    obtain r d where r: "channel_decode_socks (se_ntop6 env) c = (r, d)" by fastforce
    have t: "tame c d" using tame_socks [of c "se_ntop6 env"] r by simp
    have m: "tame c (chan_mark_dead d)" "tame c (port_open_helper env s (d\<lparr>ch_type := SSH_CHANNEL_OPENING\<rparr>))" for s
      using tame_trans [OF t, of "chan_mark_dead d"] tame_trans [OF tame_typed [OF t more_types(2)] tame_more(2)] by simp_all
    have "ch_sock d \<in> fds_of c" using tame_fds [OF t] by (auto simp: fds_of_def)
    moreover have "- 1 \<in> fds_of c" by (simp add: fds_of_def)
    ultimately show ?thesis using False r t m
      by (cases r) (auto simp: channel_pre_dynamic_def Let_def)
  qed
  then show ?thesis by (simp add: pre_ok_def)
qed

lemma pre_mux_ok: "pre_ok (channel_pre_mux_client g)"
proof -
  have d: "tame c (mux_drain g c)" for c
    unfolding mux_drain_def using tame_trans [OF tame_trans [OF tame_simps(6) tame_events(2)] tame_events(6)] by simp
  have e: "tame c (chan_obuf_empty g (mux_drain g c))" for c using tame_trans [OF d tame_events(3)] .
  have w: "ch_wfd (mux_drain g c) \<in> fds_of c" for c using tame_fds [OF d [of c]] by (auto simp: fds_of_def)
  have r: "ch_rfd c \<in> fds_of c" for c by (simp add: fds_of_def)
  show ?thesis unfolding pre_ok_def channel_pre_mux_client_def Let_def by (simp add: d e w r subset_iff)
qed

lemma pre_simple_ok:
  "pre_ok channel_pre_listener" "pre_ok channel_pre_connecting" "pre_ok (channel_pre_open_13 env)"
  "pre_ok channel_pre_input_draining" "pre_ok channel_pre_output_draining"
  by (auto simp: pre_ok_def channel_pre_listener_def channel_pre_connecting_def channel_pre_open_13_def
      channel_pre_input_draining_def channel_pre_output_draining_def fds_of_def tame_typed tame_upd)

lemma pre_x11_13_ok: "pre_ok (channel_pre_x11_open_13 env x now)"
proof -
  have s: "tame c (close_sock_chan d)" if "tame c d" for c d using tame_trans [OF that tame_more(1)] .
  have "tame c (snd (channel_pre_x11_open_13 env x now c)) \<and>
    (\<forall>rs ws. fst (channel_pre_x11_open_13 env x now c) = Inr (rs, ws) \<longrightarrow> set rs \<union> set ws \<subseteq> fds_of c)" for c
    by (auto simp: channel_pre_x11_open_13_def channel_pre_open_13_def Let_def fds_of_def tame_upd tame_typed s split: prod.split)
  then show ?thesis by (simp add: pre_ok_def)
qed

lemma pre_table_ok: "(ty, f) \<in> set (channel_pre_20 env @ channel_pre_13 env @ channel_pre_15 env) \<Longrightarrow> pre_ok f"
  unfolding channel_pre_20_def channel_pre_13_def channel_pre_15_def
  by (auto intro: tab_pre_open_ok pre_x11_ok pre_dynamic_ok pre_mux_ok pre_simple_ok pre_x11_13_ok)


section \<open>The handlers after select\<close>

text \<open>The callbacks of the multiplexing code are assumed to keep the invariant as well.\<close>

definition good_env :: "sel_env \<Rightarrow> bool" where
  "good_env env \<longleftrightarrow> tame_callbacks (se_tab env) \<and> (\<forall>i t. tab_inv t \<longrightarrow> tab_keeps t (snd (se_mux env i t)))"

definition post_ok :: "(nat \<Rightarrow> channel \<Rightarrow> chan_table \<Rightarrow> unit tab_result) \<Rightarrow> bool" where
  "post_ok f \<longleftrightarrow> (\<forall>i c t. tab_inv t \<and> i < length (chans t) \<and> chans t ! i = Some c \<longrightarrow> tab_keeps t (snd (f i c t)))"

lemma tab_keeps_rbind:
  assumes "tab_keeps t (snd m)" and "\<And>x u. m = (Inr x, u) \<Longrightarrow> tab_keeps t u \<Longrightarrow> tab_keeps t (snd (f x u))"
  shows "tab_keeps t (snd (rbind m f))"
  using assms by (rule rbind_invariant)

lemma lowers_keeps: "lowers t u \<Longrightarrow> tab_keeps t u"
  by (simp add: lowers_def)

lemma new_keeps:
  assumes "tab_inv t" and "ty \<in> chan_types"
  shows "tab_keeps t (snd (channel_new ctype ty rfd wfd efd window maxpack ext rname t))"
    and "channel_new ctype ty rfd wfd efd window maxpack ext rname t = (Inr n, u) \<Longrightarrow> n < length (chans u)"
proof -
  have "length (chans t) \<le> length (chans (snd (channel_new ctype ty rfd wfd efd window maxpack ext rname t)))"
    by (auto simp: channel_new_def Let_def channel_register_fds_def split: option.split)
  then show "tab_keeps t (snd (channel_new ctype ty rfd wfd efd window maxpack ext rname t))"
    using new_inv [OF assms] by (simp add: tab_keeps_def)
  assume "channel_new ctype ty rfd wfd efd window maxpack ext rname t = (Inr n, u)"
  then obtain c where "channel_by_id (int n) u = Some c"
    using channel_new_fresh [where ctype = ctype and ty = ty and rfd = rfd and wfd = wfd and efd = efd and window = window
        and maxpack = maxpack and ext = ext and rname = rname and t = t] by auto
  then show "n < length (chans u)" using by_id_slot(1) by fastforce
qed

lemma new_then_keeps:
  assumes "tab_keeps t t0" and "ty \<in> chan_types" and "\<And>n c. tame c (f n c)"
  shows "tab_keeps t (snd (rbind (channel_new ctype ty rfd wfd efd window maxpack ext rname t0) (\<lambda>n t. (Inr (), upd_slot n (f n) t))))"
proof (rule tab_keeps_rbind)
  have i: "tab_inv t0" using assms(1) by (simp add: tab_keeps_def)
  note k = new_keeps [OF i assms(2)]
  show "tab_keeps t (snd (channel_new ctype ty rfd wfd efd window maxpack ext rname t0))"
    using tab_keeps_trans [OF assms(1) k(1)] .
  fix n u
  assume n: "channel_new ctype ty rfd wfd efd window maxpack ext rname t0 = (Inr n, u)" and u: "tab_keeps t u"
  have "lowers u (upd_slot n (f n) u)" using upd_slot_keeps [OF _ k(2) [OF n]] u assms(3) by (simp add: tab_keeps_def)
  then show "tab_keeps t (snd (Inr (), upd_slot n (f n) u))" using tab_keeps_trans [OF u lowers_keeps] by simp
qed

lemma accept_failed_keeps:
  assumes "tab_inv t" and "i < length (chans t)"
  shows "tab_keeps t (accept_failed env a i t)"
  using assms lowers_keeps [OF upd_slot_keeps [OF assms]] by (simp add: accept_failed_def tame_fields)

lemma mark_dead_keeps: "tab_inv t \<Longrightarrow> i < length (chans t) \<Longrightarrow> tab_keeps t (mark_dead_slot i t)"
  using lowers_keeps [OF put_chan_lowers(2)] by (auto simp: mark_dead_slot_def split: option.split)

lemma x11_listener_ok: "post_ok (channel_post_x11_listener env)"
  unfolding post_ok_def
proof (intro allI impI, elim conjE)
  fix i c t
  assume a: "tab_inv t" "i < length (chans t)" "chans t ! i = Some c"
  let ?u = "if ch_single_connection c then mark_dead_slot i (channel_close_fd FD_sock i t) else t"
  have "tab_keeps t (channel_close_fd FD_sock i t)" using lowers_keeps [OF close_fd_lowers [OF a(1,2)]] by blast
  moreover then have "tab_keeps (channel_close_fd FD_sock i t) (mark_dead_slot i (channel_close_fd FD_sock i t))"
    using mark_dead_keeps [of "channel_close_fd FD_sock i t" i] a(2) by (simp add: tab_keeps_def)
  ultimately have u: "tab_keeps t ?u" using a(1) tab_keeps_trans by auto
  then have "tab_keeps t (accept_failed env b i ?u)" for b
    using tab_keeps_trans [OF u accept_failed_keeps] a(2) by (simp add: tab_keeps_def)
  moreover have "tab_keeps t (snd (rbind (channel_new ''accepted x11 socket'' SSH_CHANNEL_OPENING s s (- 1) w m
      CHAN_EXTENDED_IGNORE nm ?u) (\<lambda>n t. (Inr (), upd_slot n f t))))" if "\<And>c. tame c (f c)" for s w m nm f
    using new_then_keeps [OF u, of SSH_CHANNEL_OPENING "\<lambda>_. f"] that by simp
  ultimately show "tab_keeps t (snd (channel_post_x11_listener env i c t))"
    using a(1) unfolding channel_post_x11_listener_def Let_def
    by (auto split: accres.split prod.split)
qed

lemma port_listener_ok: "post_ok (channel_post_port_listener env)"
  unfolding post_ok_def
proof (intro allI impI, elim conjE)
  fix i c t
  assume a: "tab_inv t" "i < length (chans t)" "chans t ! i = Some c"
  obtain ns rt where l: "listener_open c = (ns, rt)" by fastforce
  have ns: "ns \<in> chan_types" using l by (auto simp: listener_open_def split: if_splits)
  have t: "tame d (let nc = d\<lparr>ch_listening_port := ch_listening_port c, ch_host_port := ch_host_port c, ch_path := ch_path c\<rparr>
      in if ns \<noteq> SSH_CHANNEL_DYNAMIC then port_open_helper env rt nc else nc)" for d
    using tame_trans [OF _ tame_more(2), of d "d\<lparr>ch_listening_port := ch_listening_port c, ch_host_port := ch_host_port c,
        ch_path := ch_path c\<rparr>" env rt] by (simp add: tame_fields Let_def)
  show "tab_keeps t (snd (channel_post_port_listener env i c t))"
    using a accept_failed_keeps [OF a(1,2)] new_then_keeps [of t t ns, OF _ ns t]
    by (auto simp: channel_post_port_listener_def l split: accres.split)
qed

lemma auth_listener_ok: "post_ok (channel_post_auth_listener env)"
  unfolding post_ok_def channel_post_auth_listener_def
  by (auto split: accres.split intro!: accept_failed_keeps new_then_keeps)


lemma connecting_ok: "post_ok (channel_post_connecting env)"
  unfolding post_ok_def
proof (intro allI impI, elim conjE)
  fix i c t
  assume a: "tab_inv t" "i < length (chans t)" "chans t ! i = Some c"
  let ?s = "se_connect_next env i"
  let ?n = "(emit (SYS_CLOSE (ch_sock c)) c)\<lparr>ch_sock := ?s, ch_rfd := ?s, ch_wfd := ?s\<rparr>"
  let ?t = "t\<lparr>channel_max_fd := max (channel_max_fd t) ?s\<rparr>"
  have s: "slot_ok (channel_max_fd t) i c" using tab_inv_slot [OF a] .
  have "tab_inv ?t" using a(1) slot_ok_mono [of "channel_max_fd t" _ _ "channel_max_fd ?t"] by (auto simp: tab_inv_def)
  then have u: "tab_inv (set_chan i ?n ?t)" using s by (intro tab_inv_set) (auto simp: slot_ok_def emit_def)
  have "tab_inv (fd_closed (channel_max_fd ?t) (set_chan i ?n ?t))" using u by (rule tab_inv_closed)
  moreover have "fd_closed (channel_max_fd ?t) (set_chan i ?n ?t) =
      (set_chan i ?n t)\<lparr>channel_max_fd := channel_find_maxfd (chans (set_chan i ?n t))\<rparr>"
    by (simp add: fd_closed_def set_chan_def)
  ultimately have r: "tab_keeps t ((set_chan i ?n t)\<lparr>channel_max_fd := channel_find_maxfd (chans (set_chan i ?n t))\<rparr>)"
    by (simp add: tab_keeps_def)
  have "tame c (connect_failed env err c)" for err
    using tame_trans [OF tame_simps(1) tame_simps(5)] by (simp add: connect_failed_def)
  then have f: "tab_keeps t (set_chan i (connect_failed env err c) t)" for err
    using lowers_keeps [OF put_chan_lowers(2) [OF a]] by blast
  have "tab_keeps t (set_chan i d t)" if "tame c d" for d using lowers_keeps [OF put_chan_lowers(2) [OF a that]] .
  then show "tab_keeps t (snd (channel_post_connecting env i c t))"
    using r f a(1) by (simp add: channel_post_connecting_def Let_def tame_upd tame_typed)
qed

lemma tame_read_mux: "tame c (snd (read_mux g n r c))"
  by (auto simp: read_mux_def Let_def tame_upd split: rdres.split intro!: tame_rbind)

lemma on_slot_result: "i < length (chans t) \<Longrightarrow> on_slot i f c t = (r, u) \<Longrightarrow> \<exists>d. chans u ! i = Some d"
  by (auto simp: on_slot_def chans_put_chan split: prod.splits)

lemma mux_client_read_keeps:
  assumes "good_env env" and a: "tab_inv t" "i < length (chans t)" "chans t ! i = Some c"
  shows "tab_keeps t (snd (mux_client_read env i c t))"
proof -
  let ?g = "se_compat env"
  have m: "tab_keeps t (snd (case se_mux env i u of (ok, u) \<Rightarrow> if ok then (Inr True, u) else (Inr False, mark_dead_slot i u)))"
    if u: "tab_keeps t u" for u
  proof -
    obtain ok v where v: "se_mux env i u = (ok, v)" by fastforce
    have "tab_keeps u v" using assms(1) u v by (metis good_env_def tab_keeps_def snd_conv)
    then have tv: "tab_keeps t v" using tab_keeps_trans [OF u] by blast
    moreover have "tab_keeps v (mark_dead_slot i v)" using mark_dead_keeps tv a(2) by (simp add: tab_keeps_def)
    ultimately show ?thesis using v tab_keeps_trans by auto
  qed
  have s: "tab_keeps t (snd (on_slot i (read_mux ?g n r) d u))" if "tab_keeps t u" "chans u ! i = Some d" for n r d u
    using tab_keeps_trans [OF that(1) lowers_keeps [OF on_slot_lowers [of u i d "read_mux ?g n r"]]] that a(2) tame_read_mux
    by (simp add: tab_keeps_def)
  have o: "tab_keeps t (put_chan i d (chan_rcvd_oclose ?g d) u)" if "tab_keeps t u" "chans u ! i = Some d" for d u
    using tab_keeps_trans [OF that(1) lowers_keeps [OF put_chan_lowers(1) [OF _ _ that(2) tame_events(6)]]] that(1) a(2)
    by (simp add: tab_keeps_def)
  have t: "tab_keeps t t" using a(1) by simp
  show ?thesis
    unfolding mux_client_read_def Let_def
  proof (rule tab_keeps_rbind [OF s [OF t a(3)]], goal_cases)
    case (1 n u)
    then obtain d where d: "chans u ! i = Some d" using on_slot_result [OF a(2)] by blast
    have "tab_keeps t (snd (rbind (on_slot i (read_mux ?g k r) d u) (\<lambda>n t.
        if n < k then (Inr False, t)
        else case se_mux env i t of (ok, t) \<Rightarrow> if ok then (Inr True, t) else (Inr False, mark_dead_slot i t))))" for k r
      by (rule tab_keeps_rbind [OF s [OF 1(2) d]]) (auto intro: m)
    then show ?case using 1(2) o [OF 1(2) d] d by simp
  qed
qed

lemma tame_mux_write: "tame c (mux_client_write env i c)"
  by (auto simp: mux_client_write_def Let_def tame_upd split: wrres.split)

lemma mux_client_ok:
  assumes "good_env env"
  shows "post_ok (channel_post_mux_client env)"
  unfolding post_ok_def
proof (intro allI impI, elim conjE)
  fix i c t
  assume a: "tab_inv t" "i < length (chans t)" "chans t ! i = Some c"
  have w: "tab_keeps t (upd_slot i (mux_client_write env i) u)" if "tab_keeps t u" for u
    using tab_keeps_trans [OF that lowers_keeps [OF upd_slot_keeps]] that a(2) tame_mux_write by (simp add: tab_keeps_def)
  have "tab_keeps t (snd (rbind m (\<lambda>go t. (Inr (), if go then upd_slot i (mux_client_write env i) t else t))))"
    if "tab_keeps t (snd m)" for m :: "bool tab_result"
    by (rule tab_keeps_rbind [OF that]) (simp add: w)
  then show "tab_keeps t (snd (channel_post_mux_client env i c t))"
    using a mux_client_read_keeps [OF assms a] by (simp add: channel_post_mux_client_def)
qed

lemma mux_listener_ok:
  assumes "good_env env"
  shows "post_ok (channel_post_mux_listener env)"
  unfolding post_ok_def
proof (intro allI impI, elim conjE)
  fix i c t
  assume a: "tab_inv t" "i < length (chans t)" "chans t ! i = Some c"
  have r: "tab_keeps t (set_chan i (emit e c) t)" for e using lowers_keeps [OF put_chan_lowers(2) [OF a tame_simps(1)]] .
  have n: "tab_keeps t (snd (rbind (channel_new ''multiplex client'' SSH_CHANNEL_MUX_CLIENT s s (- 1) w m CHAN_EXTENDED_IGNORE nm t)
      (\<lambda>n t. (Inr (), upd_slot n (set_flag CHAN_LOCAL) (snd (se_mux env n t))))))" for s w m nm
  proof (rule tab_keeps_rbind [OF new_keeps(1) [OF a(1)]], simp)
    fix k u
    assume k: "channel_new ''multiplex client'' SSH_CHANNEL_MUX_CLIENT s s (- 1) w m CHAN_EXTENDED_IGNORE nm t = (Inr k, u)"
      and u: "tab_keeps t u"
    have v: "tab_keeps u (snd (se_mux env k u))" using assms u by (simp add: good_env_def tab_keeps_def)
    moreover have "k < length (chans (snd (se_mux env k u)))"
      using new_keeps(2) [OF a(1) _ k] v by (simp add: tab_keeps_def)
    ultimately have "tab_keeps (snd (se_mux env k u)) (upd_slot k (set_flag CHAN_LOCAL) (snd (se_mux env k u)))"
      by (intro lowers_keeps [OF upd_slot_keeps]) (auto simp: tab_keeps_def)
    then show "tab_keeps t (snd (Inr (), upd_slot k (set_flag CHAN_LOCAL) (snd (se_mux env k u))))"
      using tab_keeps_trans [OF u tab_keeps_trans [OF v]] by simp
  qed
  show "tab_keeps t (snd (channel_post_mux_listener env i c t))"
    using a r n accept_failed_keeps [OF a(1,2)]
    by (simp add: channel_post_mux_listener_def Let_def split: accres.split option.split)
qed

lemma tab_post_open_ok: "good_env env \<Longrightarrow> post_ok (post_open_fn env)"
  unfolding post_ok_def post_open_fn_def
  by (auto simp: good_env_def tame_callbacks_def intro!: lowers_keeps on_slot_lowers tame_post_open)

lemma drain_13_ok: "post_ok (\<lambda>i c t. (Inr (), set_chan i (channel_post_output_drain_13 env i c) t))"
proof -
  have "tame c (channel_post_output_drain_13 env i c)" for i c
    by (auto simp: channel_post_output_drain_13_def Let_def tame_upd split: wrres.split)
  then show ?thesis unfolding post_ok_def by (auto intro!: lowers_keeps put_chan_lowers(2))
qed

lemma post_table_ok:
  assumes "good_env env" and "(ty, f) \<in> set (channel_post_20 env @ channel_post_13 env @ channel_post_15 env)"
  shows "post_ok f"
  using assms(2) unfolding channel_post_20_def channel_post_13_def channel_post_15_def
  by (auto intro: tab_post_open_ok [OF assms(1)] x11_listener_ok port_listener_ok auth_listener_ok connecting_ok
      mux_listener_ok [OF assms(1)] mux_client_ok [OF assms(1)] drain_13_ok)


section \<open>The loop keeps the invariant\<close>

lemma wait_for_sets [simp]: "sel_read (wait_for env c a) = sel_read a" "sel_write (wait_for env c a) = sel_write a"
  by (simp_all add: wait_for_def Let_def)

definition pre_table :: "(int \<Rightarrow> chan_fn option) \<Rightarrow> bool" where
  "pre_table ftab \<longleftrightarrow> (\<forall>ty f. ftab ty = Some f \<longrightarrow> (\<exists>g. f = pre_fn g \<and> pre_ok g))"

lemma handle_channel_pre:
  assumes t: "tab_inv t" "i < length (chans t)" "chans t ! i = Some c"
    and f: "pre_table ftab"
    and h: "handle_channel env ftab i c a t = (r, u)"
  shows "lowers t u \<and> (\<forall>a'. r = Inr a' \<longrightarrow>
    set (sel_read a') \<union> set (sel_write a') \<subseteq> set (sel_read a) \<union> set (sel_write a) \<union> {..channel_max_fd t})"
proof (cases "ftab (ch_type c)")
  case None
  then show ?thesis using h t(1) by (auto simp: handle_channel_def)
next
  case (Some g)
  obtain p where p: "g = pre_fn p" "pre_ok p" using f Some by (auto simp: pre_table_def)
  show ?thesis
  proof (cases "ch_notbefore c \<le> se_now env")
    case False
    then show ?thesis using h t(1) Some by (auto simp: handle_channel_def)
  next
    case True
    obtain x d where x: "p c = (x, d)" by fastforce
    have l: "lowers t (put_chan i c d t)" using put_chan_lowers(1) [OF t] p(2) x by (metis pre_ok_def snd_conv)
    have b: "fds_of c \<subseteq> {..channel_max_fd t}"
      using tab_inv_slot [OF t] t(1) by (auto simp: fds_of_def slot_ok_def tab_inv_def)
    show ?thesis
    proof (cases x)
      case (Inl e)
      then show ?thesis using h Some True p(1) x l by (auto simp: handle_channel_def pre_fn_def on_slot_def)
    next
      case (Inr y)
      obtain rs ws where y: "x = Inr (rs, ws)" using Inr by (cases y) simp
      have "set rs \<union> set ws \<subseteq> fds_of c" using p(2) x y by (metis pre_ok_def fst_conv)
      then show ?thesis using h Some True p(1) x y l b by (auto simp: handle_channel_def pre_fn_def on_slot_def)
    qed
  qed
qed

lemma pre_loop:
  assumes "quiet_detach (se_tab env)" and f: "pre_table ftab"
    and "tab_inv t" and "\<forall>i \<in> set is. i < length (chans t)" and "handler_loop env pre ftab is a t = (r, u)"
  shows "lowers t u \<and> (\<forall>a'. r = Inr a' \<longrightarrow>
    set (sel_read a') \<union> set (sel_write a') \<subseteq> set (sel_read a) \<union> set (sel_write a) \<union> {..channel_max_fd t})"
  using assms(3-5)
proof (induction "is" arbitrary: a t)
  case (Cons i js)
  have i: "i < length (chans t)" "\<forall>j \<in> set js. j < length (chans t)" using Cons.prems(2) by auto
  show ?case
  proof (cases "chans t ! i")
    case None
    then show ?thesis using Cons.IH [OF Cons.prems(1) i(2)] Cons.prems(3) by simp
  next
    case (Some c)
    show ?thesis
    proof (cases "ch_delayed c \<and> \<not> pre")
      case True
      then show ?thesis using Some Cons.IH [OF Cons.prems(1) i(2)] Cons.prems(3) by simp
    next
      case False
      let ?c = "c\<lparr>ch_delayed := False\<rparr>" and ?t = "set_chan i (c\<lparr>ch_delayed := False\<rparr>) t"
      have l0: "lowers t ?t" using put_chan_lowers(2) [OF Cons.prems(1) i(1) Some] by (simp add: tame_fields)
      have s: "tab_inv ?t" "i < length (chans ?t)" "chans ?t ! i = Some ?c"
        using l0 i(1) by (simp_all add: lowers_def tab_keeps_def set_chan_def)
      have eq: "rbind (handle_channel env ftab i ?c a ?t) (\<lambda>a t.
          rbind (channel_garbage_collect (se_tab env) i t) (\<lambda>_ t. handler_loop env pre ftab js a t)) = (r, u)"
        using Cons.prems(3) Some False by (auto simp: Let_def)
      obtain x v where x: "handle_channel env ftab i ?c a ?t = (x, v)" by fastforce
      note h = handle_channel_pre [OF s f x]
      have tv: "lowers t v" using lowers_trans [OF l0] h by blast
      show ?thesis
      proof (cases x)
        case (Inl e)
        then have "u = v" "r = Inl e" using eq x by simp_all
        then show ?thesis using tv by simp
      next
        case (Inr b)
        obtain y w where y: "channel_garbage_collect (se_tab env) i v = (y, w)" by fastforce
        have iv: "tab_inv v" "i < length (chans v)" using tv i(1) by (auto simp: lowers_def tab_keeps_def)
        have "lowers v w" using garbage_collect_lowers [OF assms(1) iv] y by simp
        then have tw: "lowers t w" using lowers_trans [OF tv] by blast
        show ?thesis
        proof (cases y)
          case (Inl e)
          then have "u = w" "r = Inl e" using eq x \<open>x = Inr b\<close> y by simp_all
          then show ?thesis using tw by simp
        next
          case (Inr z)
          have "\<forall>j \<in> set js. j < length (chans w)" using i(2) tw by (auto simp: lowers_def tab_keeps_def)
          moreover have "handler_loop env pre ftab js b w = (r, u)"
            using eq x \<open>x = Inr b\<close> y Inr by simp
          ultimately have n: "lowers w u \<and> (\<forall>a'. r = Inr a' \<longrightarrow>
              set (sel_read a') \<union> set (sel_write a') \<subseteq> set (sel_read b) \<union> set (sel_write b) \<union> {..channel_max_fd w})"
            using Cons.IH [of w b] tw by (simp add: lowers_def tab_keeps_def)
          have "set (sel_read b) \<union> set (sel_write b) \<subseteq> set (sel_read a) \<union> set (sel_write a) \<union> {..channel_max_fd t}"
            using h \<open>x = Inr b\<close> by simp
          moreover have "{..channel_max_fd w} \<subseteq> {..channel_max_fd t}" using tw by (auto simp: lowers_def)
          ultimately have "set (sel_read b) \<union> set (sel_write b) \<union> {..channel_max_fd w}
              \<subseteq> set (sel_read a) \<union> set (sel_write a) \<union> {..channel_max_fd t}" by (simp add: le_supI2)
          then have "\<forall>a'. r = Inr a' \<longrightarrow> set (sel_read a') \<union> set (sel_write a') \<subseteq>
              set (sel_read a) \<union> set (sel_write a) \<union> {..channel_max_fd t}"
            using n subset_trans by (intro allI impI) (rule subset_trans [rotated], assumption, simp)
          then show ?thesis using n lowers_trans [OF tw, of u] by simp
        qed
      qed
    qed
  qed
qed auto

lemma pre_tables: "pre_table (channel_pre env)"
  unfolding pre_table_def
proof (intro allI impI)
  fix ty f
  assume "channel_pre env ty = Some f"
  then obtain g where g: "f = pre_fn g" "map_of (if compat20 (se_compat env) then channel_pre_20 env
       else if ce_compat13 (se_chan env) then channel_pre_13 env else channel_pre_15 env) ty = Some g"
    by (auto simp: channel_pre_def)
  have "(ty, g) \<in> set (channel_pre_20 env @ channel_pre_13 env @ channel_pre_15 env)"
    using map_of_SomeD [OF g(2)] by (auto split: if_splits)
  then show "\<exists>g. f = pre_fn g \<and> pre_ok g" using g(1) pre_table_ok by blast
qed

lemma prepare_select_ok:
  assumes "quiet_detach (se_tab env)" and "tab_inv t" and "channel_prepare_select env maxfd rk t = (r, u)"
  shows "lowers t u \<and> (\<forall>n a. r = Inr (n, a) \<longrightarrow> n = max maxfd (channel_max_fd t) \<and>
    set (sel_read a) \<union> set (sel_write a) \<subseteq> {..channel_max_fd t})"
proof (cases rk)
  case True
  then show ?thesis using assms by (auto simp: channel_prepare_select_def Let_def)
next
  case False
  obtain x v where x: "channel_handler env True (channel_pre env) t = (x, v)" by fastforce
  have "lowers t v \<and> (\<forall>a'. x = Inr a' \<longrightarrow> set (sel_read a') \<union> set (sel_write a') \<subseteq> {..channel_max_fd t})"
    using pre_loop [OF assms(1) pre_tables assms(2) _ x [unfolded channel_handler_def]] by simp
  then show ?thesis using assms(3) False x by (cases x) (auto simp: channel_prepare_select_def Let_def)
qed


lemma post_loop:
  assumes "good_env env" and f: "\<forall>ty f. ftab ty = Some f \<longrightarrow> (\<exists>g. f = post_fn g \<and> post_ok g)"
    and "tab_inv t" and "\<forall>i \<in> set is. i < length (chans t)"
  shows "tab_keeps t (snd (handler_loop env pre ftab is a t))"
  using assms(3,4)
proof (induction "is" arbitrary: a t)
  case (Cons i js)
  have i: "i < length (chans t)" "\<forall>j \<in> set js. j < length (chans t)" using Cons.prems(2) by auto
  show ?case
  proof (cases "chans t ! i")
    case None
    then show ?thesis using Cons.IH [OF Cons.prems(1) i(2)] by simp
  next
    case (Some c)
    let ?c = "c\<lparr>ch_delayed := False\<rparr>" and ?t = "set_chan i (c\<lparr>ch_delayed := False\<rparr>) t"
    have l0: "tab_keeps t ?t" using lowers_keeps [OF put_chan_lowers(2) [OF Cons.prems(1) i(1) Some]] by (simp add: tame_fields)
    have s: "tab_inv ?t" "i < length (chans ?t)" "chans ?t ! i = Some ?c"
      using l0 i(1) by (simp_all add: tab_keeps_def set_chan_def)
    have h: "tab_keeps ?t (snd (handle_channel env ftab i ?c a ?t))"
    proof (cases "ftab (ch_type ?c)")
      case (Some g)
      obtain p where p: "g = post_fn p" "post_ok p" using f Some by blast
      then have "tab_keeps ?t (snd (p i ?c ?t))" using s unfolding post_ok_def by blast
      then show ?thesis using Some s(1) p(1)
        by (cases "p i ?c ?t", cases "fst (p i ?c ?t)") (auto simp: handle_channel_def post_fn_def)
    qed (use s(1) in \<open>simp add: handle_channel_def\<close>)
    have "tab_keeps t (snd (rbind (handle_channel env ftab i ?c a ?t) (\<lambda>a t.
        rbind (channel_garbage_collect (se_tab env) i t) (\<lambda>_ t. handler_loop env pre ftab js a t))))"
    proof (rule tab_keeps_rbind, use tab_keeps_trans [OF l0 h] in simp, rule tab_keeps_rbind)
      fix b v
      assume v: "tab_keeps t v"
      then have "tab_keeps v (snd (channel_garbage_collect (se_tab env) i v))"
        using garbage_collect_keeps [of "se_tab env" v i] assms(1) i(1) by (simp add: good_env_def tab_keeps_def)
      then show "tab_keeps t (snd (channel_garbage_collect (se_tab env) i v))" using tab_keeps_trans [OF v] by blast
      fix x w
      assume w: "tab_keeps t w"
      then have "\<forall>j \<in> set js. j < length (chans w)" using i(2) by (auto simp: tab_keeps_def)
      then have "tab_keeps w (snd (handler_loop env pre ftab js b w))" using Cons.IH [of w b] w by (simp add: tab_keeps_def)
      then show "tab_keeps t (snd (handler_loop env pre ftab js b w))" using tab_keeps_trans [OF w] by blast
    qed
    then show ?thesis
      using Some Cons.IH [OF Cons.prems(1) i(2), of a] by (auto simp: Let_def)
  qed
qed simp

lemma after_select_keeps:
  assumes "good_env env" and "tab_inv t"
  shows "tab_keeps t (snd (channel_after_select env t))"
proof -
  have f: "\<forall>ty f. channel_post env ty = Some f \<longrightarrow> (\<exists>g. f = post_fn g \<and> post_ok g)"
  proof (intro allI impI)
    fix ty f
    assume "channel_post env ty = Some f"
    then obtain g where g: "f = post_fn g" "map_of (if compat20 (se_compat env) then channel_post_20 env
         else if ce_compat13 (se_chan env) then channel_post_13 env else channel_post_15 env) ty = Some g"
      by (auto simp: channel_post_def)
    have "(ty, g) \<in> set (channel_post_20 env @ channel_post_13 env @ channel_post_15 env)"
      using map_of_SomeD [OF g(2)] by (auto split: if_splits)
    then show "\<exists>g. f = post_fn g \<and> post_ok g" using g(1) post_table_ok [OF assms(1)] by blast
  qed
  have "tab_keeps t (snd (channel_handler env False (channel_post env) t))"
    unfolding channel_handler_def by (rule post_loop [OF assms(1) f assms(2)]) simp
  then show ?thesis unfolding channel_after_select_def by (rule tab_keeps_rbind) simp
qed

lemma stdio_fwd_keeps:
  assumes "tab_inv t"
  shows "tab_keeps t (snd (channel_connect_stdio_fwd env host port fdin fdout t))"
  unfolding channel_connect_stdio_fwd_def Let_def
proof (rule tab_keeps_rbind [OF new_keeps(1) [OF assms]], simp)
  fix n u
  assume n: "channel_new ''stdio-forward'' SSH_CHANNEL_OPENING fdin fdout (- 1) CHAN_TCP_WINDOW_DEFAULT
      CHAN_TCP_PACKET_DEFAULT CHAN_EXTENDED_IGNORE ''stdio-forward'' t = (Inr n, u)" and u: "tab_keeps t u"
  obtain c where c: "channel_by_id (int n) u = Some c"
    using n channel_new_fresh [where ctype = "''stdio-forward''" and ty = SSH_CHANNEL_OPENING and rfd = fdin and wfd = fdout
        and efd = "- 1" and window = CHAN_TCP_WINDOW_DEFAULT and maxpack = CHAN_TCP_PACKET_DEFAULT
        and ext = CHAN_EXTENDED_IGNORE and rname = "''stdio-forward''" and t = t] by auto
  have s: "n < length (chans u)" "chans u ! n = Some c" using by_id_slot [OF c] by simp_all
  have ok: "slot_ok (channel_max_fd u) n c" using tab_inv_slot [OF _ s] u by (simp add: tab_keeps_def)
  let ?c = "c\<lparr>ch_path := Some host, ch_host_port := uint port, ch_listening_port := 0, ch_force_drain := True\<rparr>"
  let ?v = "channel_register_fds n ?c fdin fdout (- 1) CHAN_EXTENDED_IGNORE False u"
  have v: "tab_inv ?v" "length (chans ?v) = length (chans u)"
    using register_fds_inv [of u ?c n] u ok by (simp_all add: tab_keeps_def slot_ok_def channel_register_fds_def)
  have "tab_keeps t ?v" using v u by (simp add: tab_keeps_def)
  moreover have "tab_keeps ?v (upd_slot n (port_open_helper env ''direct-tcpip'') ?v)"
    using lowers_keeps [OF upd_slot_keeps [OF v(1)]] v(2) s(1) by simp
  ultimately show "tab_keeps t (snd (Inr n, upd_slot n (port_open_helper env ''direct-tcpip'')
      (channel_register_fds n ((the (chans u ! n))\<lparr>ch_path := Some host, ch_host_port := uint port, ch_listening_port := 0,
         ch_force_drain := True\<rparr>) fdin fdout (- 1) CHAN_EXTENDED_IGNORE False u)))"
    using s(2) tab_keeps_trans by simp
qed

text \<open>Rounds of the loop, in any order with what else the program does; the system calls of each round are arbitrary.\<close>

inductive loop_step :: "tab_env \<Rightarrow> chan_table \<Rightarrow> chan_table \<Rightarrow> bool" for te where
  call: "tab_step te t t' \<Longrightarrow> loop_step te t t'"
| prepare: "se_tab env = te \<Longrightarrow> loop_step te t (snd (channel_prepare_select env maxfd rk t))"
| after: "se_tab env = te \<Longrightarrow> good_env env \<Longrightarrow> loop_step te t (snd (channel_after_select env t))"
| stdio: "se_tab env = te \<Longrightarrow> loop_step te t (snd (channel_connect_stdio_fwd env host port fdin fdout t))"

lemma loop_step_inv:
  assumes "tame_callbacks te" and "quiet_detach te" and "tab_inv t" and "loop_step te t t'"
  shows "tab_inv t'"
  using assms(4)
proof cases
  case call
  then show ?thesis using tab_step_inv assms(1,3) by blast
next
  case (prepare env maxfd rk)
  then show ?thesis using prepare_select_ok [of env t maxfd rk] assms(2,3) by (metis lowers_def tab_keeps_def prod.collapse)
next
  case (after env)
  then show ?thesis using after_select_keeps assms(3) by (simp add: tab_keeps_def)
next
  case (stdio env)
  then show ?thesis using stdio_fwd_keeps [OF assms(3)] by (simp add: tab_keeps_def)
qed

interpretation ls: transition_invariant "\<lambda>t. t = empty_table \<and> tame_callbacks te \<and> quiet_detach te" "loop_step te"
  "\<lambda>t. tab_inv t \<and> tame_callbacks te \<and> quiet_detach te" for te
proof unfold_locales
  show "t = empty_table \<and> tame_callbacks te \<and> quiet_detach te \<Longrightarrow> tab_inv t \<and> tame_callbacks te \<and> quiet_detach te" for t
    by (simp add: tab_inv_def empty_table_def)
qed (blast intro: loop_step_inv)

text \<open>
  C26. Whatever the program did with its channels before, every descriptor that the handlers put into
  the sets for \<open>select\<close> is at most the largest descriptor \<open>channel_prepare_select\<close> reports, for which it
  has just allocated the sets (in words of 64 bits): no handler writes beyond them, and no handler or
  garbage collection of that round brings in a channel with a larger descriptor (provided the
  callbacks of other components keep the table consistent).
\<close>

theorem select_sets_fit:
  assumes "(loop_step te)\<^sup>*\<^sup>* empty_table t" and "tame_callbacks te" and "quiet_detach te" and "se_tab env = te"
    and "channel_prepare_select env maxfd rk t = (Inr (n, a), t')"
  shows "maxfd \<le> n \<and> channel_max_fd t' \<le> n \<and>
    (\<forall>fd. fd \<in> set (sel_read a) \<or> fd \<in> set (sel_write a) \<longrightarrow> fd \<le> n \<and> fd < 64 * ((n + 1 + 63) div 64))"
proof -
  have "tab_inv t" using ls.reachable_inv [OF assms(1)] assms(2,3) by blast
  then have p: "lowers t t'" "n = max maxfd (channel_max_fd t)" "set (sel_read a) \<union> set (sel_write a) \<subseteq> {..channel_max_fd t}"
    using prepare_select_ok [OF _ _ assms(5)] assms(3,4) by auto
  have "n < 64 * ((n + 1 + 63) div 64)" by presburger
  then show ?thesis using p by (auto simp: lowers_def)
qed


definition sample_sel_env :: sel_env where
  "sample_sel_env = \<lparr>se_tab = quiet_env, se_x11 = sample_x11, se_now = 0, se_ntop6 = (\<lambda>_. []), se_peer = (\<lambda>_. ([], 0)),
     se_local = (\<lambda>_. ([], 0)), se_host_in_open = False, se_accept = (\<lambda>_. ACC_FAILED), se_so_error = (\<lambda>_. 0),
     se_strerror = (\<lambda>_. []), se_connect_next = (\<lambda>_. - 1), se_mux = (\<lambda>_ t. (True, t)), se_peereid = (\<lambda>_. None), se_uid = 0,
     se_readset = [], se_writeset = [],
     se_ready = (\<lambda>_. \<lparr>rd_set = [], wr_set = [], rd_rfd = RD_EAGAIN, wr_wfd = WR_AGAIN, rd_efd = RD_EAGAIN, wr_efd = WR_AGAIN\<rparr>),
     se_body = (\<lambda>_. RD_EAGAIN)\<rparr>"

definition listening_table :: chan_table where
  "listening_table = snd (channel_new ''port listener'' SSH_CHANNEL_PORT_LISTENER 7 7 (- 1) 0 0 CHAN_EXTENDED_IGNORE [] empty_table)"

lemma select_sets_fit_witness:
  "\<exists>n a t'. channel_prepare_select sample_sel_env 3 False listening_table = (Inr (n, a), t') \<and> sel_read a = [7] \<and> n = 7 \<and>
     (\<forall>fd. fd \<in> set (sel_read a) \<or> fd \<in> set (sel_write a) \<longrightarrow> fd \<le> n \<and> fd < 64 * ((n + 1 + 63) div 64))"
proof -
  let ?r = "channel_prepare_select sample_sel_env 3 False listening_table"
  have e: "(case fst ?r of Inr (n, a) \<Rightarrow> n = 7 \<and> sel_read a = [7] | Inl _ \<Rightarrow> False)" by code_simp
  then obtain n a t' where r: "?r = (Inr (n, a), t')" by (cases ?r, cases "fst ?r") auto
  have "SSH_CHANNEL_PORT_LISTENER \<in> chan_types" by (simp add: chan_types_def chan_type_defs)
  then have s: "(loop_step quiet_env)\<^sup>*\<^sup>* empty_table listening_table"
    unfolding listening_table_def by (intro r_into_rtranclp call tab_step.alloc)
  have q: "quiet_detach quiet_env" by (simp add: quiet_detach_def quiet_env_def)
  have "se_tab sample_sel_env = quiet_env" by (simp add: sample_sel_env_def)
  then show ?thesis using select_sets_fit [OF s quiet_env_tame q _ r] e r by auto
qed

end
