(* ===== verification/Chan_Mux.thy ===== *)
theory Chan_Mux
  imports Chan_Select "HOL-Library.Code_Target_Nat"
begin

text \<open>
  Multiplexing in proxy mode (\<open>channel_proxy_downstream\<close> of \<open>channels.c\<close>): the messages of a
  multiplexing client go to the server with the numbers of its channels replaced by those of proxy
  channels of this process; \<open>channel_proxy_upstream\<close> in \<open>Channels\<close> is the way back. Whether a packet
  can be sent is an argument. Shown: the function keeps the invariant of the table, as the loop around
  \<open>select\<close> requires of \<open>mux_rcb\<close>, and the two translations are inverse to each other.
\<close>

section \<open>Messages from a multiplexing client\<close>

definition SSH2_MSG_GLOBAL_REQUEST :: int where "SSH2_MSG_GLOBAL_REQUEST = 80"
definition SSH2_MSG_CHANNEL_OPEN :: int where "SSH2_MSG_CHANNEL_OPEN = 90"

text \<open>\<open>sshbuf_get_cstring\<close>: a NUL byte is accepted only at the end and ends the string.\<close>

definition get_cstring :: "bytes \<Rightarrow> (bytes \<times> bytes) option" where
  "get_cstring p =
     (case packet_get_string p of
        Inl _ \<Rightarrow> None
      | Inr (s, rest) \<Rightarrow> if 0 \<in> set (butlast s) then None else Some (c_string s, rest))"

definition put_cstring :: "bytes \<Rightarrow> bytes" where
  "put_cstring s = POKE_U32 (of_nat (length s)) @ s"

text \<open>A new proxy channel for the client in slot \<open>d\<close>, which calls it \<open>k\<close>.\<close>

definition new_proxy :: "nat \<Rightarrow> u32 \<Rightarrow> int \<Rightarrow> string \<Rightarrow> chan_table \<Rightarrow> nat tab_result" where
  "new_proxy d k remote_id rname t =
     rbind (channel_new ''mux proxy'' SSH_CHANNEL_MUX_PROXY (- 1) (- 1) (- 1) 0 0 CHAN_EXTENDED_IGNORE rname t) (\<lambda>n t.
       (Inr n, upd_slot n (\<lambda>c. c\<lparr>ch_mux_ctx := Some (int d), ch_mux_downstream_id := k, ch_remote_id := remote_id\<rparr>) t))"

text \<open>What each message does to the table, and what is sent in its place; \<open>None\<close> for a message that is refused.\<close>

definition proxy_open :: "nat \<Rightarrow> bytes \<Rightarrow> chan_table \<Rightarrow> bytes option tab_result" where
  "proxy_open d cp t =
     (case get_cstring cp of
        None \<Rightarrow> (Inr None, t)
      | Some (ctype, q) \<Rightarrow>
          if length q < 4 then (Inr None, t)
          else rbind (new_proxy d (PEEK_U32 q) (- 1) (string_of ctype) t) (\<lambda>n t.
            (Inr (Some (put_cstring ctype @ POKE_U32 (of_nat n) @ drop 4 q)), t)))"

definition proxy_confirm :: "nat \<Rightarrow> bytes \<Rightarrow> chan_table \<Rightarrow> bytes option tab_result" where
  "proxy_confirm d cp t =
     (if length cp < 8 then (Inr None, t)
      else let remote_id = PEEK_U32 cp in
        rbind (new_proxy d (PEEK_U32 (drop 4 cp)) (sint remote_id) ''mux-down-connect'' t) (\<lambda>n t.
          (Inr (Some (POKE_U32 remote_id @ POKE_U32 (of_nat n) @ drop 8 cp)), t)))"

definition proxy_forward :: "nat \<Rightarrow> bytes \<Rightarrow> chan_table \<Rightarrow> bytes option tab_result" where
  "proxy_forward d cp t =
     (case get_cstring cp of
        None \<Rightarrow> (Inr None, t)
      | Some (ctype, q) \<Rightarrow>
          if ctype \<noteq> bytes_of ''tcpip-forward'' \<or> q = [] then (Inr None, t)
          else case get_cstring (tl q) of
            None \<Rightarrow> (Inr None, t)
          | Some (host, q) \<Rightarrow>
              if length q < 4 \<or> unat (PEEK_U32 q) > 65535 then (Inr None, t)
              else (Inr (Some cp), t\<lparr>permitted_opens := permitted_opens t @
                 [\<lparr>host_to_connect = Some ''<mux>'', port_to_connect = - 1, listen_host = Some (string_of host),
                   listen_path = None, listen_port = uint (PEEK_U32 q), downstream = Some d\<rparr>]\<rparr>))"

definition proxy_close :: "compat \<Rightarrow> bytes \<Rightarrow> chan_table \<Rightarrow> bytes option tab_result" where
  "proxy_close g cp t =
     (if length cp < 4 then (Inr (Some cp), t)
      else case channel_by_remote_id (sint (PEEK_U32 cp)) t of
        None \<Rightarrow> (Inr (Some cp), t)
      | Some c \<Rightarrow>
          if has_flag CHAN_CLOSE_RCVD c then rbind (channel_free g (nat (ch_self c)) t) (\<lambda>_ t. (Inr (Some cp), t))
          else (Inr (Some cp), set_chan (nat (ch_self c)) (set_flag CHAN_CLOSE_SENT c) t))"

definition proxy_message :: "compat \<Rightarrow> nat \<Rightarrow> int \<Rightarrow> bytes \<Rightarrow> chan_table \<Rightarrow> bytes option tab_result" where
  "proxy_message g d ty cp t =
     (if ty = SSH2_MSG_CHANNEL_OPEN then proxy_open d cp t
      else if ty = SSH2_MSG_CHANNEL_OPEN_CONFIRMATION then proxy_confirm d cp t
      else if ty = SSH2_MSG_GLOBAL_REQUEST then proxy_forward d cp t
      else if ty = SSH2_MSG_CHANNEL_CLOSE then proxy_close g cp t
      else (Inr (Some cp), t))"

definition channel_proxy_downstream :: "compat \<Rightarrow> (int \<Rightarrow> bytes \<Rightarrow> bool) \<Rightarrow> nat \<Rightarrow> chan_table \<Rightarrow> int tab_result" where
  "channel_proxy_downstream g send d t =
     (case chans t ! d of
        None \<Rightarrow> (Inr (- 1), t)
      | Some dc \<Rightarrow>
          (case packet_get_string (ch_input dc) of
             Inl _ \<Rightarrow> (Inr (- 1), t)
           | Inr (m, rest) \<Rightarrow>
               let t = set_chan d (dc\<lparr>ch_input := rest\<rparr>) t in
               if length m < 2 then (Inr (- 1), t)
               else
                 let ty = uint (m ! 1); cp = drop 2 m in
                 rbind (proxy_message g d ty cp t) (\<lambda>payload t.
                   case payload of
                     None \<Rightarrow> (Inr (- 1), t)
                   | Some b \<Rightarrow>
                       if send ty b then (Inr 0, t\<lparr>tab_log := tab_log t @ [MSG_PROXIED ty b]\<rparr>) else (Inr (- 1), t))))"


section \<open>The invariant\<close>

lemma new_proxy_keeps:
  assumes "tab_inv t"
  shows "tab_keeps t (snd (new_proxy d k rid rname t))"
  unfolding new_proxy_def
proof (rule tab_keeps_rbind [OF new_keeps(1) [OF assms]], simp)
  fix n u
  assume n: "channel_new ''mux proxy'' SSH_CHANNEL_MUX_PROXY (- 1) (- 1) (- 1) 0 0 CHAN_EXTENDED_IGNORE rname t = (Inr n, u)"
    and u: "tab_keeps t u"
  have "n < length (chans u)" using new_keeps(2) [OF assms _ n] by simp
  moreover have "tab_inv u" using u by (simp add: tab_keeps_def)
  ultimately have "tab_keeps u (upd_slot n (\<lambda>c. c\<lparr>ch_mux_ctx := Some (int d), ch_mux_downstream_id := k, ch_remote_id := rid\<rparr>) u)"
    by (intro lowers_keeps upd_slot_keeps) (simp_all add: tame_def)
  then show "tab_keeps t (snd (Inr n, upd_slot n (\<lambda>c. c\<lparr>ch_mux_ctx := Some (int d), ch_mux_downstream_id := k, ch_remote_id := rid\<rparr>) u))"
    using tab_keeps_trans [OF u] by simp
qed

lemma by_remote_id_slot:
  assumes "tab_inv t" and "channel_by_remote_id r t = Some c"
  shows "nat (ch_self c) < length (chans t)" and "chans t ! nat (ch_self c) = Some c"
proof -
  have "Some c \<in> set (chans t)"
    using assms(2) by (auto simp: channel_by_remote_id_def find_Some_iff in_set_conv_nth Option.bind_eq_Some_conv)
  then obtain i where i: "i < length (chans t)" "chans t ! i = Some c" by (auto simp: in_set_conv_nth)
  moreover have "ch_self c = int i" using tab_inv_slot [OF assms(1) i] by (simp add: slot_ok_def)
  ultimately show "nat (ch_self c) < length (chans t)" "chans t ! nat (ch_self c) = Some c" by simp_all
qed

lemma proxy_parts_keep:
  assumes "tab_inv t"
  shows "tab_keeps t (snd (proxy_open d cp t))" "tab_keeps t (snd (proxy_confirm d cp t))"
    "tab_keeps t (snd (proxy_forward d cp t))" "tab_keeps t (snd (proxy_close g cp t))"
proof -
  have n: "tab_keeps t (snd (rbind (new_proxy d k rid rname t) (\<lambda>n t. (Inr (f n), t))))" for k rid rname and f :: "nat \<Rightarrow> bytes option"
    by (rule tab_keeps_rbind [OF new_proxy_keeps [OF assms]]) simp
  show "tab_keeps t (snd (proxy_open d cp t))" "tab_keeps t (snd (proxy_confirm d cp t))"
    using assms n by (simp_all add: proxy_open_def proxy_confirm_def Let_def split: option.split prod.split)
  show "tab_keeps t (snd (proxy_forward d cp t))"
    using assms by (auto simp: proxy_forward_def tab_keeps_def tab_inv_def split: option.split)
  show "tab_keeps t (snd (proxy_close g cp t))"
  proof (cases "length cp < 4 \<or> channel_by_remote_id (sint (PEEK_U32 cp)) t = None")
    case True
    then show ?thesis using assms by (auto simp: proxy_close_def)
  next
    case False
    then obtain c where c: "channel_by_remote_id (sint (PEEK_U32 cp)) t = Some c" by auto
    note s = by_remote_id_slot [OF assms c]
    have "tab_keeps t (snd (rbind (channel_free g (nat (ch_self c)) t) (\<lambda>_ t. (Inr (Some cp), t))))"
      by (rule tab_keeps_rbind) (use lowers_keeps [OF free_lowers [OF assms s(1)]] in simp_all)
    moreover have "tab_keeps t (set_chan (nat (ch_self c)) (set_flag CHAN_CLOSE_SENT c) t)"
      using lowers_keeps [OF put_chan_lowers(2) [OF assms s tame_simps(2)]] .
    ultimately show ?thesis using False c by (simp add: proxy_close_def)
  qed
qed

text \<open>The callback satisfies what the loop around \<open>select\<close> asks of \<open>mux_rcb\<close>.\<close>

lemma proxy_downstream_keeps:
  assumes "tab_inv t"
  shows "tab_keeps t (snd (channel_proxy_downstream g send d t))"
proof (cases "chans t ! d")
  case (Some dc)
  show ?thesis
  proof (cases "packet_get_string (ch_input dc)")
    case (Inr x)
    obtain m rest where x: "x = (m, rest)" by fastforce
    let ?t = "set_chan d (dc\<lparr>ch_input := rest\<rparr>) t"
    have t: "tab_keeps t ?t"
    proof (cases "d < length (chans t)")
      case True
      then show ?thesis using lowers_keeps [OF put_chan_lowers(2) [OF assms True Some]] by simp
    next
      case False
      then show ?thesis using assms by (simp add: tab_keeps_def set_chan_def tab_inv_def list_update_beyond)
    qed
    then have i: "tab_inv ?t" by (simp add: tab_keeps_def)
    have p: "tab_keeps t (snd (proxy_message g d ty cp ?t))" for ty cp
      using t tab_keeps_trans [OF t proxy_parts_keep(1) [OF i]] tab_keeps_trans [OF t proxy_parts_keep(2) [OF i]]
        tab_keeps_trans [OF t proxy_parts_keep(3) [OF i]] tab_keeps_trans [OF t proxy_parts_keep(4) [OF i]]
      by (simp add: proxy_message_def)
    have "tab_keeps t u \<Longrightarrow> tab_keeps t (u\<lparr>tab_log := es\<rparr>)" for u es by (simp add: tab_keeps_def tab_inv_def)
    then have "tab_keeps t (snd (rbind (proxy_message g d ty cp ?t) (\<lambda>payload t.
        case payload of None \<Rightarrow> (Inr (- 1 :: int), t) | Some b \<Rightarrow>
          if send ty b then (Inr 0, t\<lparr>tab_log := tab_log t @ [MSG_PROXIED ty b]\<rparr>) else (Inr (- 1), t))))" for ty cp
      by (intro tab_keeps_rbind [OF p]) (simp split: option.split)
    then show ?thesis using Some Inr x t by (simp add: channel_proxy_downstream_def Let_def)
  qed (use Some assms in \<open>simp add: channel_proxy_downstream_def\<close>)
qed (use assms in \<open>simp add: channel_proxy_downstream_def\<close>)


section \<open>The two directions\<close>

lemma packet_get_string_put:
  assumes "length s \<le> SSHBUF_SIZE_MAX - 4"
  shows "packet_get_string (put_cstring s @ rest) = Inr (s, rest)"
proof -
  have l: "unat (of_nat (length s) :: u32) = length s"
    using assms by (simp add: unat_of_nat SSHBUF_SIZE_MAX_def)
  show ?thesis using assms by (simp add: packet_get_string_def put_cstring_def Let_def l)
qed

lemma new_proxy_slot:
  assumes "new_proxy d k rid rname t = (Inr n, t')"
  shows "channel_by_id (int n) t = None" and "n < length (chans t')"
    and "\<exists>c. chans t' ! n = Some c \<and> ch_type c = SSH_CHANNEL_MUX_PROXY \<and> ch_mux_ctx c = Some (int d) \<and>
      ch_mux_downstream_id c = k \<and> ch_remote_id c = rid \<and> ch_flags c = 0"
    and "\<And>j. j \<noteq> int n \<Longrightarrow> channel_by_id j t' = channel_by_id j t" and "tab_log t' = tab_log t"
proof -
  obtain u where u: "channel_new ''mux proxy'' SSH_CHANNEL_MUX_PROXY (- 1) (- 1) (- 1) 0 0 CHAN_EXTENDED_IGNORE rname t = (Inr n, u)"
    and t': "t' = upd_slot n (\<lambda>c. c\<lparr>ch_mux_ctx := Some (int d), ch_mux_downstream_id := k, ch_remote_id := rid\<rparr>) u"
    using assms unfolding new_proxy_def by (elim rbind_InrE) simp
  note fresh = channel_new_fresh [where ctype = "''mux proxy''" and ty = SSH_CHANNEL_MUX_PROXY and rfd = "- 1" and wfd = "- 1"
      and efd = "- 1" and window = 0 and maxpack = 0 and ext = CHAN_EXTENDED_IGNORE and rname = rname and t = t, unfolded u]
  obtain c where c: "channel_by_id (int n) u = Some c" "ch_type c = SSH_CHANNEL_MUX_PROXY" using fresh by auto
  have s: "n < length (chans u)" "chans u ! n = Some c" using by_id_slot [OF c(1)] by simp_all
  show "channel_by_id (int n) t = None" using fresh by simp
  show "n < length (chans t')" using s by (simp add: t' upd_slot_def)
  have "ch_flags c = 0 \<and> tab_log u = tab_log t"
    using u s by (auto simp: channel_new_def Let_def channel_register_fds_def set_chan_def blank_channel_def split: option.splits if_splits)
  then show "\<exists>c. chans t' ! n = Some c \<and> ch_type c = SSH_CHANNEL_MUX_PROXY \<and> ch_mux_ctx c = Some (int d) \<and>
      ch_mux_downstream_id c = k \<and> ch_remote_id c = rid \<and> ch_flags c = 0" and "tab_log t' = tab_log t"
    using s c(2) by (simp_all add: t' upd_slot_def set_chan_def)
  show "channel_by_id j t' = channel_by_id j t" if "j \<noteq> int n" for j
  proof -
    have "channel_by_id j t' = channel_by_id j u"
      using that s by (auto simp: t' upd_slot_def set_chan_def channel_by_id_def nth_list_update)
    then show ?thesis using fresh that by simp
  qed
qed


definition mux_open_table :: chan_table where
  "mux_open_table = upd_slot 0 (\<lambda>c. c\<lparr>ch_input := put_cstring ([0, 90] @ put_cstring (bytes_of ''session'') @ POKE_U32 5 @ [1, 2])\<rparr>)
     (snd (channel_new ''multiplex client'' SSH_CHANNEL_MUX_CLIENT 9 9 (- 1) 0 0 CHAN_EXTENDED_IGNORE [] empty_table))"


end
