(* ===== verification/Auth2.thy ===== *)
theory Auth2
  imports Addrmatch Chan_Mux "HOL-Library.Code_Target_Nat"
begin

text \<open>
  User authentication of the server (\<open>auth2.c\<close>, \<open>auth2-none.c\<close>, \<open>auth2-passwd.c\<close>, \<open>auth2-kbdint.c\<close>,
  \<open>auth2-chall.c\<close>, \<open>auth2-pubkey.c\<close>, \<open>auth2-hostbased.c\<close>, \<open>auth_password\<close> of \<open>auth-passwd.c\<close>, and from
  \<open>auth.c\<close> and \<open>groupaccess.c\<close> who may log in): the handlers of the authentication messages, the
  methods, and the lists of \<open>AuthenticationMethods\<close>, in a build without PAM, GSSAPI, Kerberos, shadow
  passwords and audit. The password file, the shells and groups of the system, the check of a password,
  which keys a user or host may use, the check of signatures and the keyboard-interactive devices are
  arguments. The options are those in force after the \<open>Match\<close> blocks of the user were applied. What is
  sent, what \<open>auth_log\<close> is told and which secrets were tried is a log of the context.
\<close>

section \<open>State\<close>

record passwd =
  pw_name :: string
  pw_uid :: int
  pw_gid :: int
  pw_passwd :: string
  pw_shell :: string

datatype permit_root = PERMIT_NO | PERMIT_FORCED_ONLY | PERMIT_NO_PASSWD | PERMIT_YES

record ServerOptions =
  auth_methods :: "string list"
  max_authtries :: int
  permit_root_login :: permit_root
  pubkey_authentication :: bool
  password_authentication :: bool
  kbd_interactive_authentication :: bool
  challenge_response_authentication :: bool
  hostbased_authentication :: bool
  permit_empty_passwd :: bool
  pubkey_key_types :: string
  hostbased_key_types :: string
  banner :: "string option"
  deny_users :: "string list"
  allow_users :: "string list"
  deny_groups :: "string list"
  allow_groups :: "string list"
  chroot_directory :: "string option"

text \<open>A public key as far as authentication looks at it: \<open>pk_public\<close> is what \<open>sshkey_equal_public\<close> compares.\<close>

record pkey =
  pk_type :: keytype_id
  pk_nid :: ec_nid
  pk_public :: bytes

datatype auth_msg =
    SERVICE_ACCEPT string | USERAUTH_SUCCESS | USERAUTH_FAILURE string bool | USERAUTH_BANNER string
  | USERAUTH_INFO_REQUEST string string "(string \<times> bool) list" | USERAUTH_PK_OK bytes bytes | UNIMPLEMENTED
  | AUTH_LOG bool bool string "string option" | PASSWORD_TRIED bool | RESPONSE_TRIED string int

datatype auth_handler = H_null | H_protocol_error | H_protocol_ignore | H_service_request | H_userauth_request | H_info_response

record KbdintAuthctxt =
  kb_devices :: "string option"
  kb_ctxt :: "nat option"
  kb_device :: "string option"
  kb_nreq :: nat
  kb_devices_done :: u32

record Authctxt =
  ac_success :: bool
  ac_postponed :: bool
  ac_valid :: bool
  ac_attempt :: int
  ac_failures :: int
  ac_server_caused_failure :: bool
  ac_user :: string
  ac_service :: string
  ac_pw :: passwd
  ac_style :: "string option"
  ac_kbdintctxt :: "KbdintAuthctxt option"
  ac_auth_methods :: "string list"
  ac_prev_userkeys :: "pkey list"
  none_enabled :: bool
  forced_command :: bool
  disp_service :: auth_handler
  disp_userauth :: auth_handler
  disp_info :: auth_handler
  ac_log :: "auth_msg list"

type_synonym 'a auth_result = "(chan_stop, Authctxt, 'a) outcome"

text \<open>
  The rest of the system. A keyboard-interactive device has a name and its functions \<open>init_ctx\<close>,
  \<open>query\<close> (a name, an instruction and prompts, or failure) and \<open>respond\<close>, with a context that changes.
  \<open>ae_key_allowed\<close> (\<open>user_key_allowed\<close>) also says whether the key forces a command; \<open>ae_account_locked\<close>
  is the test of the password field for a locked account, \<open>ae_shell_runs\<close> that \<open>stat\<close> finds a regular
  executable file, \<open>ae_groups\<close> the names \<open>ga_init\<close> collects, \<open>ae_host_allowed\<close> is \<open>hostbased_key_allowed\<close>.
\<close>

record auth_env =
  ae_opts :: ServerOptions
  ae_compat :: compat
  ae_getpwnam :: "string \<Rightarrow> passwd option"
  ae_account_locked :: "string \<Rightarrow> bool"
  ae_shell_runs :: "string \<Rightarrow> bool"
  ae_groups :: "string \<Rightarrow> int \<Rightarrow> string list"
  ae_hostname :: string
  ae_ipaddr :: string
  ae_getaddrinfo :: resolver
  ae_fakepw :: passwd
  ae_read_banner :: "string \<Rightarrow> string option"
  ae_sys_auth_passwd :: "passwd \<Rightarrow> bytes \<Rightarrow> bool"
  ae_devices :: "string list"
  ae_init_ctx :: "string \<Rightarrow> Authctxt \<Rightarrow> nat option"
  ae_query :: "string \<Rightarrow> nat \<Rightarrow> (string \<times> string \<times> (string \<times> bool) list) option \<times> nat"
  ae_respond :: "string \<Rightarrow> nat \<Rightarrow> bytes list \<Rightarrow> int \<times> nat"
  ae_key_from_blob :: "bytes \<Rightarrow> pkey option"
  ae_key_allowed :: "passwd \<Rightarrow> pkey \<Rightarrow> bool \<Rightarrow> bool \<times> bool"
  ae_key_verify :: "pkey \<Rightarrow> bytes \<Rightarrow> bytes \<Rightarrow> bool"
  ae_session_id :: bytes
  ae_host_allowed :: "passwd \<Rightarrow> bytes \<Rightarrow> bytes \<Rightarrow> pkey \<Rightarrow> bool"

abbreviation tell :: "auth_msg \<Rightarrow> Authctxt \<Rightarrow> Authctxt" where
  "tell m c \<equiv> c\<lparr>ac_log := ac_log c @ [m]\<rparr>"

definition SSH_BUG_PKSERVICE :: u32 where "SSH_BUG_PKSERVICE = 0x00000002"
definition SSH_OLD_SESSIONID :: u32 where "SSH_OLD_SESSIONID = 0x00000010"
definition SSH_BUG_PKAUTH :: u32 where "SSH_BUG_PKAUTH = 0x00000020"
definition SSH_BUG_BANNER :: u32 where "SSH_BUG_BANNER = 0x00000080"
definition SSH_BUG_RSASIGMD5 :: u32 where "SSH_BUG_RSASIGMD5 = 0x00002000"
definition SSH_BUG_HBSERVICE :: u32 where "SSH_BUG_HBSERVICE = 0x00010000"
definition SSH2_MSG_USERAUTH_REQUEST :: byte where "SSH2_MSG_USERAUTH_REQUEST = 50"
definition SSH2_MSG_USERAUTH_INFO_RESPONSE :: byte where "SSH2_MSG_USERAUTH_INFO_RESPONSE = 61"
definition MAX_PASSWORD_LEN :: nat where "MAX_PASSWORD_LEN = 1024"

definition packet_get_cstring :: "bytes \<Rightarrow> chan_stop + string \<times> bytes" where
  "packet_get_cstring p = (case get_cstring p of None \<Rightarrow> Inl Fatal | Some (s, rest) \<Rightarrow> Inr (string_of s, rest))"

definition packet_get_char :: "bytes \<Rightarrow> chan_stop + byte \<times> bytes" where
  "packet_get_char p = (case p of [] \<Rightarrow> Inl Fatal | b # rest \<Rightarrow> Inr (b, rest))"

definition auth_eom :: "bytes \<Rightarrow> Authctxt \<Rightarrow> unit auth_result" where
  "auth_eom p c = (if p \<noteq> [] then (Inl Disconnect, c) else (Inr (), c))"

text \<open>Reading from the packet inside a handler.\<close>

definition reading :: "(chan_stop + 'a) \<Rightarrow> Authctxt \<Rightarrow> ('a \<Rightarrow> Authctxt \<Rightarrow> 'b auth_result) \<Rightarrow> 'b auth_result" where
  "reading r c f = (case r of Inl e \<Rightarrow> (Inl e, c) | Inr x \<Rightarrow> f x c)"

section \<open>Who may log in\<close>

definition ga_match :: "string list \<Rightarrow> string list \<Rightarrow> bool" where
  "ga_match gs patterns \<longleftrightarrow> list_ex (\<lambda>g. list_ex (\<lambda>pat. match_pattern g pat) patterns) gs"

text \<open>The loops over \<open>DenyUsers\<close> and \<open>AllowUsers\<close>, which an invalid pattern ends.\<close>

fun user_listed :: "auth_env \<Rightarrow> string \<Rightarrow> string list \<Rightarrow> chan_stop + bool" where
  "user_listed env name [] = Inr False"
| "user_listed env name (pat # pats) =
     (let r = match_user (ae_getaddrinfo env) True (Some name) (Some (ae_hostname env)) (Some (ae_ipaddr env)) pat in
      if r < 0 then Inl Fatal else if r \<noteq> 0 then Inr True else user_listed env name pats)"

definition groups_allowed :: "auth_env \<Rightarrow> passwd \<Rightarrow> bool" where
  "groups_allowed env pw \<longleftrightarrow>
     (let opts = ae_opts env; gs = ae_groups env (pw_name pw) (pw_gid pw) in
      deny_groups opts = [] \<and> allow_groups opts = [] \<or>
      gs \<noteq> [] \<and> \<not> (deny_groups opts \<noteq> [] \<and> ga_match gs (deny_groups opts)) \<and>
      \<not> (allow_groups opts \<noteq> [] \<and> \<not> ga_match gs (allow_groups opts)))"

definition allowed_user :: "auth_env \<Rightarrow> passwd \<Rightarrow> chan_stop + bool" where
  "allowed_user env pw =
     (let opts = ae_opts env in
      if pw_passwd pw \<noteq> [] \<and> ae_account_locked env (pw_passwd pw) then Inr False
      else if (case chroot_directory opts of None \<Rightarrow> True | Some d \<Rightarrow> map tolower d = ''none'') \<and>
              \<not> ae_shell_runs env (if pw_shell pw = [] then ''/bin/sh'' else pw_shell pw) then Inr False
      else case user_listed env (pw_name pw) (deny_users opts) of
             Inl e \<Rightarrow> Inl e
           | Inr True \<Rightarrow> Inr False
           | Inr False \<Rightarrow>
               if allow_users opts = [] then Inr (groups_allowed env pw)
               else case user_listed env (pw_name pw) (allow_users opts) of
                      Inl e \<Rightarrow> Inl e
                    | Inr listed \<Rightarrow> Inr (listed \<and> groups_allowed env pw))"

definition getpwnamallow :: "auth_env \<Rightarrow> string \<Rightarrow> chan_stop + passwd option" where
  "getpwnamallow env usr =
     (case ae_getpwnam env usr of
        None \<Rightarrow> Inr None
      | Some pw \<Rightarrow> (case allowed_user env pw of Inl e \<Rightarrow> Inl e | Inr ok \<Rightarrow> Inr (if ok then Some pw else None)))"

section \<open>Lists of methods\<close>

datatype list_match = MATCH_NONE | MATCH_METHOD | MATCH_BOTH | MATCH_PARTIAL

definition list_starts_with :: "string \<Rightarrow> string \<Rightarrow> string option \<Rightarrow> list_match" where
  "list_starts_with methods m submethod =
     (if take (length m) methods \<noteq> m then MATCH_NONE
      else let p = drop (length m) methods in
        if p \<noteq> [] \<and> hd p = CHR '':'' then
          (case submethod of
             None \<Rightarrow> MATCH_PARTIAL
           | Some s \<Rightarrow>
               let q = tl p in
               if take (length s) q \<noteq> s then MATCH_NONE
               else let r = drop (length s) q in
                 if r \<noteq> [] \<and> hd r \<noteq> CHR '','' then MATCH_NONE else MATCH_BOTH)
        else if p \<noteq> [] \<and> hd p \<noteq> CHR '','' then MATCH_NONE
        else MATCH_METHOD)"

text \<open>The list without its first method, \<open>None\<close> when it does not start with the method.\<close>

definition remove_method :: "string \<Rightarrow> string \<Rightarrow> string option \<Rightarrow> string option" where
  "remove_method methods m submethod =
     (let found = list_starts_with methods m submethod in
      if found \<noteq> MATCH_METHOD \<and> found \<noteq> MATCH_BOTH then None
      else
        let p = drop (length m) methods;
            p = (case submethod of Some s \<Rightarrow> if found = MATCH_BOTH then drop (1 + length s) p else p | None \<Rightarrow> p)
        in Some (if p \<noteq> [] \<and> hd p = CHR '','' then tl p else p))"

text \<open>The loop of \<open>auth2_update_methods_lists\<close>: whether a list was complete, whether one was found, the lists.\<close>

fun update_lists :: "string list \<Rightarrow> string \<Rightarrow> string option \<Rightarrow> bool \<times> bool \<times> string list" where
  "update_lists [] m sub = (False, False, [])"
| "update_lists (l # ls) m sub =
     (case remove_method l m sub of
        None \<Rightarrow> (case update_lists ls m sub of (fin, found, ls') \<Rightarrow> (fin, found, l # ls'))
      | Some l' \<Rightarrow>
          if l' = [] then (True, True, l' # ls)
          else case update_lists ls m sub of (fin, found, ls') \<Rightarrow> (fin, True, l' # ls'))"

definition auth2_update_methods_lists :: "string \<Rightarrow> string option \<Rightarrow> Authctxt \<Rightarrow> bool auth_result" where
  "auth2_update_methods_lists m sub c =
     (case update_lists (ac_auth_methods c) m sub of
        (fin, found, ls) \<Rightarrow>
          let c = c\<lparr>ac_auth_methods := ls\<rparr> in
          if fin then (Inr True, c) else if \<not> found then (Inl Fatal, c) else (Inr False, c))"

definition auth2_method_allowed :: "auth_env \<Rightarrow> Authctxt \<Rightarrow> string \<Rightarrow> string option \<Rightarrow> bool" where
  "auth2_method_allowed env c m sub \<longleftrightarrow>
     auth_methods (ae_opts env) = [] \<or> list_ex (\<lambda>l. list_starts_with l m sub \<noteq> MATCH_NONE) (ac_auth_methods c)"

definition authmethods :: "auth_env \<Rightarrow> Authctxt \<Rightarrow> (string \<times> bool) list" where
  "authmethods env c =
     [(''none'', none_enabled c), (''publickey'', pubkey_authentication (ae_opts env)),
      (''password'', password_authentication (ae_opts env)),
      (''keyboard-interactive'', kbd_interactive_authentication (ae_opts env)),
      (''hostbased'', hostbased_authentication (ae_opts env))]"

fun join_comma :: "string list \<Rightarrow> string" where
  "join_comma [] = []"
| "join_comma [x] = x"
| "join_comma (x # y # xs) = x @ CHR '','' # join_comma (y # xs)"

definition authmethods_get :: "auth_env \<Rightarrow> Authctxt \<Rightarrow> string" where
  "authmethods_get env c =
     join_comma (map fst (filter (\<lambda>(n, enabled). n \<noteq> ''none'' \<and> enabled \<and> auth2_method_allowed env c n None)
       (authmethods env c)))"

definition authmethod_lookup :: "auth_env \<Rightarrow> Authctxt \<Rightarrow> string \<Rightarrow> bool" where
  "authmethod_lookup env c name \<longleftrightarrow>
     list_ex (\<lambda>(n, enabled). enabled \<and> n = name \<and> auth2_method_allowed env c n None) (authmethods env c)"

fun split_comma :: "string \<Rightarrow> string list" where
  "split_comma [] = [[]]"
| "split_comma (x # xs) =
     (if x = CHR '','' then [] # split_comma xs
      else case split_comma xs of [] \<Rightarrow> [[x]] | y # ys \<Rightarrow> (x # y) # ys)"

definition auth2_methods_valid :: "auth_env \<Rightarrow> Authctxt \<Rightarrow> string \<Rightarrow> bool \<Rightarrow> bool" where
  "auth2_methods_valid env c methods need_enable \<longleftrightarrow>
     methods \<noteq> [] \<and>
     list_all (\<lambda>e. case map_of (authmethods env c) (takeWhile (\<lambda>x. x \<noteq> CHR '':'') e) of
                     None \<Rightarrow> False | Some enabled \<Rightarrow> need_enable \<longrightarrow> enabled) (split_comma methods)"

definition auth2_setup_methods_lists :: "auth_env \<Rightarrow> Authctxt \<Rightarrow> bool \<times> Authctxt" where
  "auth2_setup_methods_lists env c =
     (if auth_methods (ae_opts env) = [] then (True, c)
      else let ls = filter (\<lambda>l. auth2_methods_valid env c l True) (auth_methods (ae_opts env))
           in (ls \<noteq> [], c\<lparr>ac_auth_methods := ls\<rparr>))"

section \<open>The end of an attempt\<close>

definition auth_root_allowed :: "auth_env \<Rightarrow> Authctxt \<Rightarrow> string \<Rightarrow> bool" where
  "auth_root_allowed env c m =
     (case permit_root_login (ae_opts env) of
        PERMIT_YES \<Rightarrow> True
      | PERMIT_NO_PASSWD \<Rightarrow> m = ''publickey'' \<or> m = ''hostbased'' \<or> m = ''gssapi-with-mic''
      | PERMIT_FORCED_ONLY \<Rightarrow> forced_command c
      | PERMIT_NO \<Rightarrow> False)"

definition auth_failed :: "auth_env \<Rightarrow> bool \<Rightarrow> string \<Rightarrow> Authctxt \<Rightarrow> unit auth_result" where
  "auth_failed env part m c =
     (let c = (if \<not> part \<and> \<not> ac_server_caused_failure c \<and> (ac_attempt c > 1 \<or> m \<noteq> ''none'')
               then c\<lparr>ac_failures := ac_failures c + 1\<rparr> else c)
      in if ac_failures c \<ge> max_authtries (ae_opts env) then (Inl Disconnect, c)
         else (Inr (), tell (USERAUTH_FAILURE (authmethods_get env c) part) c))"

definition userauth_finish :: "auth_env \<Rightarrow> bool \<Rightarrow> string \<Rightarrow> string option \<Rightarrow> Authctxt \<Rightarrow> unit auth_result" where
  "userauth_finish env auth m sub c =
     (if \<not> ac_valid c \<and> auth then (Inl Fatal, c)
      else if auth \<and> ac_postponed c then (Inl Fatal, c)
      else
        let auth = (auth \<and> \<not> (pw_uid (ac_pw c) = 0 \<and> \<not> auth_root_allowed env c m)) in
        rbind (if auth \<and> auth_methods (ae_opts env) \<noteq> [] then auth2_update_methods_lists m sub c else (Inr True, c))
          (\<lambda>fin c.
             let part = (auth \<and> \<not> fin); auth = (auth \<and> fin);
                 c = tell (AUTH_LOG auth part m sub) c
             in if ac_postponed c then (Inr (), c)
                else if auth
                then (Inr (), (tell USERAUTH_SUCCESS c)\<lparr>disp_userauth := H_protocol_ignore, ac_success := True\<rparr>)
                else auth_failed env part m c))"

section \<open>Passwords\<close>

definition password_ok :: "auth_env \<Rightarrow> bytes \<Rightarrow> Authctxt \<Rightarrow> bool" where
  "password_ok env password c \<longleftrightarrow>
     length password \<le> MAX_PASSWORD_LEN \<and>
     (password = [] \<longrightarrow> permit_empty_passwd (ae_opts env)) \<and>
     ae_sys_auth_passwd env (ac_pw c) password \<and>
     ac_valid c \<and> \<not> (pw_uid (ac_pw c) = 0 \<and> permit_root_login (ae_opts env) \<noteq> PERMIT_YES)"

definition auth_password :: "auth_env \<Rightarrow> bytes \<Rightarrow> Authctxt \<Rightarrow> bool auth_result" where
  "auth_password env password c = (let ok = password_ok env password c in (Inr ok, tell (PASSWORD_TRIED ok) c))"

definition userauth_none :: "auth_env \<Rightarrow> bytes \<Rightarrow> Authctxt \<Rightarrow> bool auth_result" where
  "userauth_none env p c =
     rbind (auth_eom p (c\<lparr>none_enabled := False\<rparr>)) (\<lambda>_ c.
       if permit_empty_passwd (ae_opts env) \<and> password_authentication (ae_opts env) then auth_password env [] c
       else (Inr False, c))"

definition userauth_passwd :: "auth_env \<Rightarrow> bytes \<Rightarrow> Authctxt \<Rightarrow> bool auth_result" where
  "userauth_passwd env p c =
     reading (packet_get_char p) c (\<lambda>(change, p) c.
     reading (packet_get_string p) c (\<lambda>(password, p) c.
     reading (if change \<noteq> 0 then packet_get_string p else Inr ([], p)) c (\<lambda>(newpass, p) c.
     rbind (auth_eom p c) (\<lambda>_ c.
       if change \<noteq> 0 then (Inr False, c) else auth_password env (c_string password) c))))"

section \<open>Keyboard-interactive\<close>

definition kbdint_alloc :: "auth_env \<Rightarrow> string \<Rightarrow> KbdintAuthctxt" where
  "kbdint_alloc env devs =
     \<lparr>kb_devices = Some (if devs = [] then join_comma (ae_devices env) else devs), kb_ctxt = None, kb_device = None,
      kb_nreq = 0, kb_devices_done = 0\<rparr>"

text \<open>The devices whose name starts with the requested one; the last of them is taken, all are used up.\<close>

fun pick_device :: "auth_env \<Rightarrow> Authctxt \<Rightarrow> string \<Rightarrow> nat \<Rightarrow> string list \<Rightarrow> string option \<Rightarrow> u32 \<Rightarrow> string option \<times> u32" where
  "pick_device env c name i [] dev used = (dev, used)"
| "pick_device env c name i (d # ds) dev used =
     (if bit used i \<or> \<not> auth2_method_allowed env c ''keyboard-interactive'' (Some d)
      then pick_device env c name (Suc i) ds dev used
      else if take (length name) d = name
      then pick_device env c name (Suc i) ds (Some d) (used OR push_bit i 1)
      else pick_device env c name (Suc i) ds dev used)"

function next_device_loop :: "auth_env \<Rightarrow> Authctxt \<Rightarrow> string option \<Rightarrow> u32 \<Rightarrow> string option \<times> string option \<times> u32" where
  "next_device_loop env c devs used =
     (case devs of
        None \<Rightarrow> (None, None, used)
      | Some s \<Rightarrow>
          let name = takeWhile (\<lambda>x. x \<noteq> CHR '','') s in
          if name = [] then (None, devs, used)
          else
            let (dev, used) = pick_device env c name 0 (ae_devices env) None used;
                rest = (if length s > length name then Some (drop (length name + 1) s) else None)
            in if rest = None \<or> dev \<noteq> None then (dev, rest, used)
               else next_device_loop env c rest used)"
  by pat_completeness auto
termination
  by (relation "measure (\<lambda>(env, c, devs, used). case devs of None \<Rightarrow> 0 | Some s \<Rightarrow> Suc (length s))")
    (auto split: if_splits option.splits)

declare next_device_loop.simps [simp del]

definition kbdint_next_device :: "auth_env \<Rightarrow> Authctxt \<Rightarrow> KbdintAuthctxt \<Rightarrow> KbdintAuthctxt" where
  "kbdint_next_device env c k =
     (case next_device_loop env c (kb_devices k) (kb_devices_done k) of
        (dev, devs, used) \<Rightarrow> k\<lparr>kb_ctxt := None, kb_device := dev, kb_devices := devs, kb_devices_done := used\<rparr>)"

definition auth2_challenge_stop :: "Authctxt \<Rightarrow> Authctxt" where
  "auth2_challenge_stop c = c\<lparr>disp_info := H_null, ac_kbdintctxt := None\<rparr>"

text \<open>\<open>None\<close> when the device has nothing to ask.\<close>

definition send_userauth_info_request :: "auth_env \<Rightarrow> KbdintAuthctxt \<Rightarrow> Authctxt \<Rightarrow> Authctxt option" where
  "send_userauth_info_request env k c =
     (case ae_query env (the (kb_device k)) (the (kb_ctxt k)) of
        (None, ctx) \<Rightarrow> None
      | (Some (name, instr, prompts), ctx) \<Rightarrow>
          Some (tell (USERAUTH_INFO_REQUEST name instr prompts)
            (c\<lparr>ac_kbdintctxt := Some (k\<lparr>kb_ctxt := Some ctx, kb_nreq := length prompts\<rparr>)\<rparr>)))"

definition auth2_challenge_start :: "auth_env \<Rightarrow> KbdintAuthctxt \<Rightarrow> Authctxt \<Rightarrow> Authctxt" where
  "auth2_challenge_start env k c =
     (let k = kbdint_next_device env c k in
      case kb_device k of
        None \<Rightarrow> auth2_challenge_stop c
      | Some dev \<Rightarrow>
          (case ae_init_ctx env dev c of
             None \<Rightarrow> auth2_challenge_stop c
           | Some ctx \<Rightarrow>
               (case send_userauth_info_request env (k\<lparr>kb_ctxt := Some ctx\<rparr>) c of
                  None \<Rightarrow> auth2_challenge_stop c
                | Some c \<Rightarrow> c\<lparr>disp_info := H_info_response, ac_postponed := True\<rparr>)))"

definition auth2_challenge :: "auth_env \<Rightarrow> string \<Rightarrow> Authctxt \<Rightarrow> Authctxt" where
  "auth2_challenge env devs c =
     (case ac_kbdintctxt c of
        None \<Rightarrow> auth2_challenge_start env (kbdint_alloc env devs) c
      | Some k \<Rightarrow> auth2_challenge_start env k c)"

definition userauth_kbdint :: "auth_env \<Rightarrow> bytes \<Rightarrow> Authctxt \<Rightarrow> bool auth_result" where
  "userauth_kbdint env p c =
     reading (packet_get_string p) c (\<lambda>(lang, p) c.
     reading (packet_get_string p) c (\<lambda>(devs, p) c.
     rbind (auth_eom p c) (\<lambda>_ c.
       (Inr False, if challenge_response_authentication (ae_opts env)
                   then auth2_challenge env (string_of (c_string devs)) c else c))))"

fun get_responses :: "nat \<Rightarrow> bytes \<Rightarrow> chan_stop + bytes list \<times> bytes" where
  "get_responses 0 p = Inr ([], p)"
| "get_responses (Suc n) p =
     (case packet_get_string p of
        Inl e \<Rightarrow> Inl e
      | Inr (r, p) \<Rightarrow> (case get_responses n p of Inl e \<Rightarrow> Inl e | Inr (rs, p) \<Rightarrow> Inr (c_string r # rs, p)))"

text \<open>What becomes of the answer \<open>res\<close> of the device, and whether the user is authenticated.\<close>

definition kbdint_result :: "auth_env \<Rightarrow> KbdintAuthctxt \<Rightarrow> int \<Rightarrow> Authctxt \<Rightarrow> bool \<times> Authctxt" where
  "kbdint_result env k res c =
     (let auth = (res = 0 \<and> ac_valid c);
          c = (if res = 1 then case send_userauth_info_request env k c of None \<Rightarrow> c | Some c \<Rightarrow> c\<lparr>ac_postponed := True\<rparr>
               else c)
      in (auth, if ac_postponed c then c
                else if auth then auth2_challenge_stop c
                else auth2_challenge_start env k c))"

definition input_userauth_info_response :: "auth_env \<Rightarrow> bytes \<Rightarrow> Authctxt \<Rightarrow> unit auth_result" where
  "input_userauth_info_response env p c =
     (case ac_kbdintctxt c of
        None \<Rightarrow> (Inl Fatal, c)
      | Some k \<Rightarrow>
          if kb_ctxt k = None \<or> kb_device k = None then (Inl Fatal, c)
          else
            let dev = the (kb_device k) in
            reading (packet_get_int p) (c\<lparr>ac_postponed := False\<rparr>) (\<lambda>(nresp, p) c.
              if unat nresp \<noteq> kb_nreq k then (Inl Fatal, c)
              else if unat nresp > 100 then (Inl Fatal, c)
              else reading (get_responses (unat nresp) p) c (\<lambda>(rs, p) c.
                rbind (auth_eom p c) (\<lambda>_ c.
                  case ae_respond env dev (the (kb_ctxt k)) rs of
                    (res, ctx) \<Rightarrow>
                      let k = k\<lparr>kb_ctxt := Some ctx\<rparr> in
                      (case kbdint_result env k res (tell (RESPONSE_TRIED dev res) (c\<lparr>ac_kbdintctxt := Some k\<rparr>)) of
                         (auth, c) \<Rightarrow> userauth_finish env auth ''keyboard-interactive'' (Some dev) c)))))"

section \<open>Public keys\<close>

definition pk_cstring :: "string \<Rightarrow> bytes" where
  "pk_cstring s = put_cstring (bytes_of s)"

text \<open>What the client has to sign.\<close>

definition pubkey_signed_data :: "auth_env \<Rightarrow> Authctxt \<Rightarrow> byte \<Rightarrow> bytes \<Rightarrow> bytes \<Rightarrow> bytes" where
  "pubkey_signed_data env c have_sig pkalg pkblob =
     (if datafellows (ae_compat env) AND SSH_OLD_SESSIONID \<noteq> 0 then ae_session_id env else put_cstring (ae_session_id env)) @
     [SSH2_MSG_USERAUTH_REQUEST] @
     pk_cstring (ac_user c @ (case ac_style c of None \<Rightarrow> [] | Some s \<Rightarrow> CHR '':'' # s)) @
     pk_cstring (if datafellows (ae_compat env) AND SSH_BUG_PKSERVICE \<noteq> 0 then ''ssh-userauth'' else ac_service c) @
     (if datafellows (ae_compat env) AND SSH_BUG_PKAUTH \<noteq> 0 then [have_sig]
      else pk_cstring ''publickey'' @ [have_sig] @ put_cstring (c_string pkalg)) @
     put_cstring pkblob"

definition pubkey_acceptable :: "auth_env \<Rightarrow> Authctxt \<Rightarrow> bytes \<Rightarrow> pkey \<Rightarrow> bool" where
  "pubkey_acceptable env c pkalg key \<longleftrightarrow>
     pk_type key = sshkey_type_from_name (string_of (c_string pkalg)) \<and>
     \<not> (sshkey_type_plain (pk_type key) = KEY_RSA \<and> datafellows (ae_compat env) AND SSH_BUG_RSASIGMD5 \<noteq> 0) \<and>
     pk_public key \<notin> pk_public ` set (ac_prev_userkeys c) \<and>
     match_pattern_list (sshkey_ssh_name_from_type_nid (pk_type key) (pk_nid key)) (pubkey_key_types (ae_opts env)) False = 1"

definition pubkey_check :: "auth_env \<Rightarrow> byte \<Rightarrow> bytes \<Rightarrow> bytes \<Rightarrow> pkey \<Rightarrow> bytes \<Rightarrow> Authctxt \<Rightarrow> bool auth_result" where
  "pubkey_check env have_sig pkalg pkblob key p c =
     (if have_sig \<noteq> 0 then
        reading (packet_get_string p) c (\<lambda>(sig, p) c.
        rbind (auth_eom p c) (\<lambda>_ c.
          case ae_key_allowed env (ac_pw c) key True of
            (ok, forced) \<Rightarrow>
              if ok \<and> ae_key_verify env key sig (pubkey_signed_data env c have_sig pkalg pkblob)
              then (Inr True, c\<lparr>ac_prev_userkeys := ac_prev_userkeys c @ [key], forced_command := forced\<rparr>)
              else (Inr False, c\<lparr>forced_command := False\<rparr>)))
      else
        rbind (auth_eom p c) (\<lambda>_ c.
          let c = c\<lparr>forced_command := False\<rparr> in
          (Inr False, if fst (ae_key_allowed env (ac_pw c) key False)
                      then (tell (USERAUTH_PK_OK pkalg pkblob) c)\<lparr>ac_postponed := True\<rparr> else c)))"

definition userauth_pubkey :: "auth_env \<Rightarrow> bytes \<Rightarrow> Authctxt \<Rightarrow> bool auth_result" where
  "userauth_pubkey env p c =
     (if \<not> ac_valid c then (Inr False, c)
      else
        reading (packet_get_char p) c (\<lambda>(have_sig, p) c.
        reading (if datafellows (ae_compat env) AND SSH_BUG_PKAUTH \<noteq> 0
                 then case packet_get_string p of
                        Inl e \<Rightarrow> Inl e
                      | Inr (pkblob, p) \<Rightarrow>
                          (case packet_get_string pkblob of Inl e \<Rightarrow> Inl e | Inr (pkalg, _) \<Rightarrow> Inr (pkalg, pkblob, p))
                 else case packet_get_string p of
                        Inl e \<Rightarrow> Inl e
                      | Inr (pkalg, p) \<Rightarrow>
                          (case packet_get_string p of Inl e \<Rightarrow> Inl e | Inr (pkblob, p) \<Rightarrow> Inr (pkalg, pkblob, p)))
          c (\<lambda>(pkalg, pkblob, p) c.
             if sshkey_type_from_name (string_of (c_string pkalg)) = KEY_UNSPEC then (Inr False, c)
             else case ae_key_from_blob env pkblob of
               None \<Rightarrow> (Inr False, c)
             | Some key \<Rightarrow>
                 if pubkey_acceptable env c pkalg key then pubkey_check env have_sig pkalg pkblob key p c
                 else (Inr False, c))))"

section \<open>Host keys\<close>

definition hostbased_acceptable :: "auth_env \<Rightarrow> bytes \<Rightarrow> pkey \<Rightarrow> bool" where
  "hostbased_acceptable env pkalg key \<longleftrightarrow>
     pk_type key = sshkey_type_from_name (string_of (c_string pkalg)) \<and>
     \<not> (sshkey_type_plain (pk_type key) = KEY_RSA \<and> datafellows (ae_compat env) AND SSH_BUG_RSASIGMD5 \<noteq> 0) \<and>
     match_pattern_list (sshkey_ssh_name_from_type_nid (pk_type key) (pk_nid key)) (hostbased_key_types (ae_opts env)) False = 1"

definition hostbased_signed_data :: "auth_env \<Rightarrow> Authctxt \<Rightarrow> bytes \<Rightarrow> bytes \<Rightarrow> bytes \<Rightarrow> bytes \<Rightarrow> bytes" where
  "hostbased_signed_data env c pkalg pkblob chost cuser =
     put_cstring (ae_session_id env) @ [SSH2_MSG_USERAUTH_REQUEST] @ pk_cstring (ac_user c) @
     pk_cstring (if datafellows (ae_compat env) AND SSH_BUG_HBSERVICE \<noteq> 0 then ''ssh-userauth'' else ac_service c) @
     pk_cstring ''hostbased'' @ put_cstring pkalg @ put_cstring pkblob @
     put_cstring (c_string chost) @ put_cstring (c_string cuser)"

text \<open>The end of the packet is not checked here.\<close>

definition userauth_hostbased :: "auth_env \<Rightarrow> bytes \<Rightarrow> Authctxt \<Rightarrow> bool auth_result" where
  "userauth_hostbased env p c =
     (if \<not> ac_valid c then (Inr False, c)
      else
        reading (packet_get_string p) c (\<lambda>(pkalg, p) c.
        reading (packet_get_string p) c (\<lambda>(pkblob, p) c.
        reading (packet_get_string p) c (\<lambda>(chost, p) c.
        reading (packet_get_string p) c (\<lambda>(cuser, p) c.
        reading (packet_get_string p) c (\<lambda>(sig, p) c.
          if sshkey_type_from_name (string_of (c_string pkalg)) = KEY_UNSPEC then (Inr False, c)
          else case ae_key_from_blob env pkblob of
            None \<Rightarrow> (Inr False, c)
          | Some key \<Rightarrow>
              (Inr (hostbased_acceptable env pkalg key \<and>
                    ae_host_allowed env (ac_pw c) (c_string cuser) (c_string chost) key \<and>
                    ae_key_verify env key sig (hostbased_signed_data env c pkalg pkblob chost cuser)), c)))))))"

section \<open>The messages\<close>

definition run_method :: "auth_env \<Rightarrow> string \<Rightarrow> bytes \<Rightarrow> Authctxt \<Rightarrow> bool auth_result" where
  "run_method env m p c =
     (if m = ''none'' then userauth_none env p c
      else if m = ''publickey'' then userauth_pubkey env p c
      else if m = ''password'' then userauth_passwd env p c
      else if m = ''keyboard-interactive'' then userauth_kbdint env p c
      else userauth_hostbased env p c)"

definition input_service_request :: "bytes \<Rightarrow> Authctxt \<Rightarrow> unit auth_result" where
  "input_service_request p c =
     reading (packet_get_cstring p) c (\<lambda>(service, p) c.
     rbind (auth_eom p c) (\<lambda>_ c.
       if service = ''ssh-userauth'' \<and> \<not> ac_success c
       then (Inr (), tell (SERVICE_ACCEPT service) (c\<lparr>disp_userauth := H_userauth_request\<rparr>))
       else (Inl Disconnect, c)))"

definition userauth_banner :: "auth_env \<Rightarrow> Authctxt \<Rightarrow> Authctxt" where
  "userauth_banner env c =
     (case banner (ae_opts env) of
        None \<Rightarrow> c
      | Some path \<Rightarrow>
          if datafellows (ae_compat env) AND SSH_BUG_BANNER \<noteq> 0 then c
          else case ae_read_banner env path of None \<Rightarrow> c | Some msg \<Rightarrow> tell (USERAUTH_BANNER msg) c)"

text \<open>The first request of a connection fixes the user and the service.\<close>

definition auth_setup :: "auth_env \<Rightarrow> string \<Rightarrow> string option \<Rightarrow> string \<Rightarrow> Authctxt \<Rightarrow> unit auth_result" where
  "auth_setup env usr style service c =
     reading (getpwnamallow env usr) c (\<lambda>found c.
       let c = (case found of
                  Some pw \<Rightarrow> if service = ''ssh-connection'' then c\<lparr>ac_pw := pw, ac_valid := True\<rparr>
                             else c\<lparr>ac_pw := ae_fakepw env\<rparr>
                | None \<Rightarrow> c\<lparr>ac_pw := ae_fakepw env\<rparr>);
           c = userauth_banner env (c\<lparr>ac_user := usr, ac_service := service, ac_style := style\<rparr>)
       in case auth2_setup_methods_lists env c of
            (ok, c) \<Rightarrow> if ok then (Inr (), c) else (Inl Disconnect, c))"

definition auth_request :: "auth_env \<Rightarrow> string \<Rightarrow> bytes \<Rightarrow> Authctxt \<Rightarrow> unit auth_result" where
  "auth_request env m p c =
     (let c = (auth2_challenge_stop c)\<lparr>ac_postponed := False, ac_server_caused_failure := False\<rparr> in
      rbind (if authmethod_lookup env c m \<and> ac_failures c < max_authtries (ae_opts env) then run_method env m p c
             else (Inr False, c)) (\<lambda>auth c. userauth_finish env auth m None c))"

definition input_userauth_request :: "auth_env \<Rightarrow> bytes \<Rightarrow> Authctxt \<Rightarrow> unit auth_result" where
  "input_userauth_request env p c =
     reading (packet_get_cstring p) c (\<lambda>(userstyle, p) c.
     reading (packet_get_cstring p) c (\<lambda>(service, p) c.
     reading (packet_get_cstring p) c (\<lambda>(m, p) c.
       let usr = takeWhile (\<lambda>x. x \<noteq> CHR '':'') userstyle;
           style = (if CHR '':'' \<in> set userstyle then Some (drop (length usr + 1) userstyle) else None);
           first = (ac_attempt c = 0);
           c = c\<lparr>ac_attempt := ac_attempt c + 1\<rparr>
       in rbind (if first then auth_setup env usr style service c
                 else if usr \<noteq> ac_user c \<or> service \<noteq> ac_service c then (Inl Disconnect, c)
                 else (Inr (), c)) (\<lambda>_ c. auth_request env m p c))))"

definition run_auth_handler :: "auth_env \<Rightarrow> auth_handler \<Rightarrow> bytes \<Rightarrow> Authctxt \<Rightarrow> unit auth_result" where
  "run_auth_handler env h p c =
     (case h of
        H_null \<Rightarrow> (Inl Disconnect, c)
      | H_protocol_error \<Rightarrow> (Inr (), tell UNIMPLEMENTED c)
      | H_protocol_ignore \<Rightarrow> (Inr (), c)
      | H_service_request \<Rightarrow> input_service_request p c
      | H_userauth_request \<Rightarrow> input_userauth_request env p c
      | H_info_response \<Rightarrow> input_userauth_info_response env p c)"

text \<open>One packet in the loop of \<open>do_authentication2\<close>.\<close>

definition auth_dispatch :: "auth_env \<Rightarrow> byte \<Rightarrow> bytes \<Rightarrow> Authctxt \<Rightarrow> unit auth_result" where
  "auth_dispatch env ty p c =
     run_auth_handler env (if ty = SSH2_MSG_SERVICE_REQUEST then disp_service c
                      else if ty = SSH2_MSG_USERAUTH_REQUEST then disp_userauth c
                      else if ty = SSH2_MSG_USERAUTH_INFO_RESPONSE then disp_info c
                      else H_protocol_error) p c"

definition auth_init :: "auth_env \<Rightarrow> Authctxt" where
  "auth_init env = \<lparr>ac_success = False, ac_postponed = False, ac_valid = False, ac_attempt = 0, ac_failures = 0,
     ac_server_caused_failure = False, ac_user = [], ac_service = [], ac_pw = ae_fakepw env, ac_style = None,
     ac_kbdintctxt = None, ac_auth_methods = [], ac_prev_userkeys = [], none_enabled = True, forced_command = False,
     disp_service = H_service_request, disp_userauth = H_protocol_error, disp_info = H_protocol_error, ac_log = []\<rparr>"

inductive auth_step :: "auth_env \<Rightarrow> Authctxt \<Rightarrow> Authctxt \<Rightarrow> bool" for env where
  packet: "\<not> ac_success c \<Longrightarrow> auth_dispatch env ty p c = (Inr (), c') \<Longrightarrow> auth_step env c c'"

section \<open>What a list of methods asks for\<close>

text \<open>
  The specification of \<open>AuthenticationMethods\<close>: a list is a sequence of entries, an accepted method
  satisfies an entry that names it or names it with its device, and the methods accepted one after
  the other take the entries from the front.
\<close>

definition satisfies :: "string \<Rightarrow> string \<times> string option \<Rightarrow> bool" where
  "satisfies e a \<longleftrightarrow> e = fst a \<or> (\<exists>s. snd a = Some s \<and> e = fst a @ CHR '':'' # s)"

fun consume :: "string list \<Rightarrow> (string \<times> string option) list \<Rightarrow> string list" where
  "consume es [] = es"
| "consume [] (a # as) = []"
| "consume (e # es) (a # as) = (if satisfies e a then consume es as else consume (e # es) as)"

definition accepted_of :: "auth_msg list \<Rightarrow> (string \<times> string option) list" where
  "accepted_of log = concat (map (\<lambda>e. case e of AUTH_LOG auth part m s \<Rightarrow> if auth \<or> part then [(m, s)] else [] | _ \<Rightarrow> []) log)"

abbreviation accepted :: "Authctxt \<Rightarrow> (string \<times> string option) list" where
  "accepted c \<equiv> accepted_of (ac_log c)"

lemma consume_Nil [simp]: "consume [] as = []"
  by (cases as) auto

lemma consume_snoc:
  "consume es (as @ [a]) =
     (case consume es as of [] \<Rightarrow> [] | e # es' \<Rightarrow> if satisfies e a then es' else e # es')"
  by (induction es as rule: consume.induct) (auto split: list.splits)

lemma split_comma_not_Nil [simp]: "split_comma s \<noteq> []"
  by (cases s) (auto split: list.splits)

lemma split_comma_entries: "e \<in> set (split_comma s) \<Longrightarrow> CHR '','' \<notin> set e"
  by (induction s arbitrary: e) (auto split: list.splits if_splits)

lemma join_split_comma: "join_comma (split_comma s) = s"
proof (induction s)
  case (Cons x s)
  obtain y ys where y: "split_comma s = y # ys" by (cases "split_comma s") auto
  show ?case using Cons y by (cases ys) auto
qed simp

lemma join_comma_Cons: "join_comma (e # es) = e @ (if es = [] then [] else CHR '','' # join_comma es)"
  by (cases es) auto

lemma take_no_comma:
  assumes "CHR '','' \<notin> set m" and "rest = [] \<or> hd rest = CHR '',''"
  shows "take (length m) (e @ rest) = m \<longleftrightarrow> take (length m) e = m"
proof (cases "length m \<le> length e")
  case False
  then have "take (length m) e \<noteq> m" by (metis length_take min.absorb_iff2 nle_le)
  moreover have "take (length m) (e @ rest) \<noteq> m"
  proof
    assume "take (length m) (e @ rest) = m"
    then have m: "m = e @ take (length m - length e) rest" using False by simp
    then have "rest \<noteq> []" using False by auto
    then have "take (length m - length e) rest = CHR '','' # take (length m - length e - 1) (tl rest)"
      using assms(2) False by (cases rest; cases "length m - length e") auto
    then have "CHR '','' \<in> set m" by (subst m) simp
    then show False using assms(1) by simp
  qed
  ultimately show ?thesis by simp
qed simp

lemma take_eq_prefix: "take (length m) e = m \<longleftrightarrow> (\<exists>r. e = m @ r)"
  by (metis append_eq_conv_conj append_take_drop_id)

text \<open>On a list of entries that start with a method name, \<open>remove_method\<close> removes the first entry when it is satisfied.\<close>

lemma remove_method_entry:
  assumes "CHR '','' \<notin> set m" and "CHR '','' \<notin> set e" and "\<And>s. sub = Some s \<Longrightarrow> CHR '','' \<notin> set s"
  shows "remove_method (join_comma (e # es)) m sub =
     (if satisfies e (m, sub) then Some (join_comma es) else None)"
proof -
  let ?rest = "if es = [] then [] else CHR '','' # join_comma es"
  have hr: "?rest = [] \<or> hd ?rest = CHR '',''" by simp
  note t = take_no_comma [OF assms(1) hr] 
  show ?thesis
  proof (cases "\<exists>r. e = m @ r")
    case False
    then have "\<not> satisfies e (m, sub)" by (auto simp: satisfies_def)
    then show ?thesis using False t [of e]
      by (simp add: remove_method_def list_starts_with_def join_comma_Cons take_eq_prefix)
  next
    case True
    then obtain r where e: "e = m @ r" by blast
    have cr: "CHR '','' \<notin> set r" using assms(2) e by simp
    show ?thesis
    proof (cases r)
      case Nil
      then show ?thesis
        by (cases sub) (auto simp: e remove_method_def list_starts_with_def join_comma_Cons satisfies_def)
    next
      case (Cons x q)
      show ?thesis
      proof (cases "x = CHR '':''")
        case False
        then show ?thesis using Cons cr
          by (auto simp: e remove_method_def list_starts_with_def join_comma_Cons satisfies_def)
      next
        case True
        show ?thesis
        proof (cases sub)
          case None
          then show ?thesis using Cons True
            by (simp add: e remove_method_def list_starts_with_def join_comma_Cons satisfies_def)
        next
          case (Some s)
          have s: "CHR '','' \<notin> set s" using assms(3) Some by simp
          note ts = take_no_comma [OF s hr, of q]
          show ?thesis
          proof (cases "\<exists>v. q = s @ v")
            case False
            then have "take (length s) (q @ ?rest) \<noteq> s" and "q \<noteq> s" using ts by (auto simp: take_eq_prefix)
            then show ?thesis using Cons True Some
              by (cases "es = []") (simp_all add: e remove_method_def list_starts_with_def join_comma_Cons satisfies_def del: take_append)
          next
            case True
            then obtain v where v: "q = s @ v" by blast
            then show ?thesis using Cons \<open>x = _\<close> Some cr
              by (cases v) (auto simp: e remove_method_def list_starts_with_def join_comma_Cons satisfies_def)
          qed
        qed
      qed
    qed
  qed
qed

definition entries_ok :: "string list \<Rightarrow> bool" where
  "entries_ok es \<longleftrightarrow> (\<forall>e\<in>set es. e \<noteq> [] \<and> CHR '','' \<notin> set e)"

lemma entries_ok_consume: "entries_ok es \<Longrightarrow> entries_ok (consume es as)"
  by (induction es as rule: consume.induct) (auto simp: entries_ok_def)

lemma join_comma_empty: "entries_ok es \<Longrightarrow> join_comma es = [] \<longleftrightarrow> es = []"
  by (cases es) (auto simp: entries_ok_def join_comma_Cons)

lemma update_lists_consume:
  assumes "\<forall>es\<in>set ess. entries_ok es \<and> es \<noteq> []" and "CHR '','' \<notin> set m" and "\<And>s. sub = Some s \<Longrightarrow> CHR '','' \<notin> set s"
    and "update_lists (map join_comma ess) m sub = (fin, found, ls)"
  shows "(fin \<longleftrightarrow> (\<exists>es\<in>set ess. consume es [(m, sub)] = [])) \<and>
    (\<not> fin \<longrightarrow> ls = map (\<lambda>es. join_comma (consume es [(m, sub)])) ess)"
  using assms(1,4)
proof (induction ess arbitrary: fin found ls)
  case (Cons es ess)
  obtain e es' where e: "es = e # es'" using Cons.prems(1) by (cases es) auto
  have ok: "entries_ok es'" "CHR '','' \<notin> set e" using Cons.prems(1) e by (auto simp: entries_ok_def)
  note rm = remove_method_entry [OF assms(2) ok(2) assms(3), of sub es']
  obtain fin0 found0 ls0 where u: "update_lists (map join_comma ess) m sub = (fin0, found0, ls0)"
    by (cases "update_lists (map join_comma ess) m sub") auto
  have ih: "(fin0 \<longleftrightarrow> (\<exists>es\<in>set ess. consume es [(m, sub)] = [])) \<and>
    (\<not> fin0 \<longrightarrow> ls0 = map (\<lambda>es. join_comma (consume es [(m, sub)])) ess)"
    using Cons.IH [OF _ u] Cons.prems(1) by simp
  show ?case
  proof (cases "satisfies e (m, sub)")
    case False
    then show ?thesis using Cons.prems(2) ih u rm by (auto simp: e)
  next
    case True
    then show ?thesis using Cons.prems(2) ih u rm join_comma_empty [OF ok(1)] by (auto simp: e split: if_splits)
  qed
qed simp

section \<open>What the methods leave alone\<close>

text \<open>The part of the context that only \<open>auth_setup\<close> and \<open>userauth_finish\<close> change.\<close>

definition core :: "Authctxt \<Rightarrow> Authctxt" where
  "core c = c\<lparr>ac_postponed := False, ac_kbdintctxt := None, ac_prev_userkeys := [], none_enabled := False,
     forced_command := False, disp_service := H_null, disp_userauth := H_null, disp_info := H_null, ac_log := []\<rparr>"

lemma core_fields:
  assumes "core c' = core c"
  shows "ac_success c' = ac_success c" and "ac_valid c' = ac_valid c" and "ac_attempt c' = ac_attempt c"
    and "ac_failures c' = ac_failures c" and "ac_server_caused_failure c' = ac_server_caused_failure c"
    and "ac_user c' = ac_user c" and "ac_service c' = ac_service c" and "ac_pw c' = ac_pw c"
    and "ac_auth_methods c' = ac_auth_methods c"
  using assms by (auto simp: core_def dest: arg_cong [of _ _ ac_success] arg_cong [of _ _ ac_valid] arg_cong [of _ _ ac_attempt]
      arg_cong [of _ _ ac_failures] arg_cong [of _ _ ac_server_caused_failure] arg_cong [of _ _ ac_user]
      arg_cong [of _ _ ac_service] arg_cong [of _ _ ac_pw] arg_cong [of _ _ ac_auth_methods])

lemma core_updates [simp]:
  "core (c\<lparr>ac_postponed := b\<rparr>) = core c" "core (c\<lparr>ac_kbdintctxt := k\<rparr>) = core c"
  "core (c\<lparr>ac_prev_userkeys := ks\<rparr>) = core c" "core (c\<lparr>none_enabled := b\<rparr>) = core c"
  "core (c\<lparr>forced_command := b\<rparr>) = core c" "core (c\<lparr>disp_info := h\<rparr>) = core c"
  "core (c\<lparr>disp_userauth := h\<rparr>) = core c" "core (c\<lparr>ac_log := l\<rparr>) = core c"
  by (simp_all add: core_def)

lemma accepted_of_simps [simp]:
  "accepted_of [] = []" "accepted_of (l @ l') = accepted_of l @ accepted_of l'"
  "accepted_of (SERVICE_ACCEPT s # l) = accepted_of l" "accepted_of (USERAUTH_SUCCESS # l) = accepted_of l" "accepted_of (USERAUTH_FAILURE s b # l) = accepted_of l"
  "accepted_of (USERAUTH_BANNER s # l) = accepted_of l" "accepted_of (USERAUTH_INFO_REQUEST s s' ps # l) = accepted_of l"
  "accepted_of (USERAUTH_PK_OK w w' # l) = accepted_of l" "accepted_of (UNIMPLEMENTED # l) = accepted_of l" "accepted_of (PASSWORD_TRIED b # l) = accepted_of l"
  "accepted_of (RESPONSE_TRIED s i # l) = accepted_of l" "accepted_of (AUTH_LOG b b' m s'' # l) = (if b \<or> b' then [(m, s'')] else []) @ accepted_of l"
  by (simp_all add: accepted_of_def)

text \<open>The secrets that were refused.\<close>

definition refused_secret :: "auth_msg \<Rightarrow> bool" where
  "refused_secret e = (case e of PASSWORD_TRIED ok \<Rightarrow> \<not> ok | RESPONSE_TRIED d res \<Rightarrow> res \<noteq> 0 \<and> res \<noteq> 1 | _ \<Rightarrow> False)"

abbreviation refused :: "Authctxt \<Rightarrow> nat" where
  "refused c \<equiv> length (filter refused_secret (ac_log c))"

lemma refused_secret_simps [simp]:
  "\<not> refused_secret (SERVICE_ACCEPT s)" "\<not> refused_secret USERAUTH_SUCCESS" "\<not> refused_secret (USERAUTH_FAILURE s b)"
  "\<not> refused_secret (USERAUTH_BANNER s)" "\<not> refused_secret (USERAUTH_INFO_REQUEST s s' ps)"
  "\<not> refused_secret (USERAUTH_PK_OK w w')" "\<not> refused_secret UNIMPLEMENTED" "\<not> refused_secret (AUTH_LOG b b' m s'')"
  "refused_secret (PASSWORD_TRIED ok) \<longleftrightarrow> \<not> ok" "refused_secret (RESPONSE_TRIED d res) \<longleftrightarrow> res \<noteq> 0 \<and> res \<noteq> 1"
  by (simp_all add: refused_secret_def)

lemma reading_Inr_iff: "reading r c f = (Inr x, c') \<longleftrightarrow> (\<exists>y. r = Inr y \<and> f y c = (Inr x, c'))"
  by (auto simp: reading_def split: sum.splits)

lemma auth_eom_Inr_iff: "auth_eom p c = (Inr x, c') \<longleftrightarrow> p = [] \<and> c' = c"
  by (auto simp: auth_eom_def)

lemmas auth_outcomes = reading_Inr_iff auth_eom_Inr_iff rbind_eq_Inr_iff

subsection \<open>The devices\<close>

lemma pick_device_result:
  assumes "pick_device env c name i ds dev used = (dev', used')"
  shows "(\<forall>n. bit used n \<longrightarrow> bit used' n) \<and>
    (dev' = dev \<or> (\<exists>j < length ds. dev' = Some (ds ! j) \<and> \<not> bit used (i + j) \<and> (i + j < 32 \<longrightarrow> bit used' (i + j))))"
  using assms
proof (induction ds arbitrary: i dev used)
  case (Cons d ds)
  show ?case
  proof (cases "bit used i \<or> \<not> auth2_method_allowed env c ''keyboard-interactive'' (Some d) \<or> take (length name) d \<noteq> name")
    case True
    then have "pick_device env c name (Suc i) ds dev used = (dev', used')" using Cons.prems by (auto split: if_splits)
    from Cons.IH [OF this] show ?thesis by (auto simp: Ex_less_Suc2)
  next
    case False
    let ?u = "used OR push_bit i 1"
    have "pick_device env c name (Suc i) ds (Some d) ?u = (dev', used')" using Cons.prems False by auto
    note ih = Cons.IH [OF this]
    have i: "i < 32 \<longrightarrow> bit ?u i" by (simp add: bit_simps)
    have m: "bit used n \<longrightarrow> bit ?u n" for n by (simp add: bit_simps)
    show ?thesis
    proof (cases "dev' = Some d")
      case True
      then show ?thesis using ih i m False by (auto simp: Ex_less_Suc2)
    next
      case False
      with ih m show ?thesis by (auto simp: Ex_less_Suc2)
    qed
  qed
qed simp

lemma next_device_loop_result:
  assumes "next_device_loop env c devs used = (dev, devs', used')"
  shows "(\<forall>n. bit used n \<longrightarrow> bit used' n) \<and>
    (dev = None \<or> (\<exists>j < length (ae_devices env). dev = Some (ae_devices env ! j) \<and> \<not> bit used j \<and> (j < 32 \<longrightarrow> bit used' j)))"
  using assms
proof (induction env c devs used rule: next_device_loop.induct)
  case (1 env c devs used)
  show ?case
  proof (cases devs)
    case None
    then show ?thesis using "1.prems" by (simp add: next_device_loop.simps [of env c None])
  next
    case (Some s)
    let ?name = "takeWhile (\<lambda>x. x \<noteq> CHR '','') s"
    let ?rest = "if length s > length ?name then Some (drop (length ?name + 1) s) else None"
    obtain d u where p: "pick_device env c ?name 0 (ae_devices env) None used = (d, u)" by force
    note pr = pick_device_result [OF p]
    show ?thesis
    proof (cases "?name = [] \<or> ?rest = None \<or> d \<noteq> None")
      case True
      then show ?thesis using "1.prems" Some p pr
        by (subst (asm) next_device_loop.simps) (auto simp: Let_def split: if_splits)
    next
      case False
      then have "next_device_loop env c ?rest u = (dev, devs', used')"
        using "1.prems" Some p by (subst (asm) next_device_loop.simps) (simp add: Let_def split: if_splits)
      with "1.IH" [OF Some refl _ p [symmetric] refl refl _ this] False pr show ?thesis by auto
    qed
  qed
qed

text \<open>The device that is asked is one of the devices, and it is marked.\<close>

definition kb_ok :: "auth_env \<Rightarrow> KbdintAuthctxt \<Rightarrow> bool" where
  "kb_ok env k \<longleftrightarrow> (\<forall>d. kb_device k = Some d \<longrightarrow>
     (\<exists>j < length (ae_devices env). d = ae_devices env ! j \<and> (j < 32 \<longrightarrow> bit (kb_devices_done k) j)))"

definition kbd_ok :: "auth_env \<Rightarrow> Authctxt \<Rightarrow> bool" where
  "kbd_ok env c \<longleftrightarrow> (\<forall>k. ac_kbdintctxt c = Some k \<longrightarrow> kb_ok env k)"

lemma kbd_ok_simps [simp]:
  "kbd_ok env (c\<lparr>ac_log := l\<rparr>) = kbd_ok env c" "kbd_ok env (c\<lparr>ac_postponed := b\<rparr>) = kbd_ok env c"
  "kbd_ok env (c\<lparr>ac_prev_userkeys := ks\<rparr>) = kbd_ok env c" "kbd_ok env (c\<lparr>none_enabled := b\<rparr>) = kbd_ok env c"
  "kbd_ok env (c\<lparr>forced_command := b\<rparr>) = kbd_ok env c" "kbd_ok env (c\<lparr>disp_info := h\<rparr>) = kbd_ok env c"
  "kbd_ok env (c\<lparr>disp_userauth := h\<rparr>) = kbd_ok env c" "kbd_ok env (c\<lparr>ac_success := b\<rparr>) = kbd_ok env c"
  "kbd_ok env (c\<lparr>ac_failures := i\<rparr>) = kbd_ok env c" "kbd_ok env (c\<lparr>ac_auth_methods := ms\<rparr>) = kbd_ok env c"
  "kbd_ok env (c\<lparr>ac_kbdintctxt := None\<rparr>)" "kbd_ok env (c\<lparr>ac_kbdintctxt := Some k\<rparr>) = kb_ok env k"
  by (simp_all add: kbd_ok_def)

lemma kb_ok_simps [simp]:
  "kb_ok env (k\<lparr>kb_ctxt := x\<rparr>) = kb_ok env k" "kb_ok env (k\<lparr>kb_nreq := n\<rparr>) = kb_ok env k"
  by (simp_all add: kb_ok_def)

lemma kbdint_next_device_ok:
  "kb_ok env (kbdint_next_device env c k)"
proof -
  obtain d ds u where n: "next_device_loop env c (kb_devices k) (kb_devices_done k) = (d, ds, u)"
    by (cases "next_device_loop env c (kb_devices k) (kb_devices_done k)") auto
  then show ?thesis using next_device_loop_result [OF n] by (auto simp: kbdint_next_device_def kb_ok_def)
qed

text \<open>With at most one device there is no second one to ask.\<close>

lemma kbdint_next_device_single:
  assumes "length (ae_devices env) \<le> 1" and "kb_ok env k" and "kb_device k = Some d"
  shows "kb_device (kbdint_next_device env c k) = None"
proof -
  obtain d ds u where n: "next_device_loop env c (kb_devices k) (kb_devices_done k) = (d, ds, u)"
    by (cases "next_device_loop env c (kb_devices k) (kb_devices_done k)") auto
  obtain j where "j < length (ae_devices env)" and "j < 32 \<longrightarrow> bit (kb_devices_done k) j"
    using assms(2,3) by (auto simp: kb_ok_def)
  then have "bit (kb_devices_done k) 0" using assms(1) by (cases j) auto
  moreover have "j = 0" if "j < length (ae_devices env)" for j using assms(1) that by linarith
  ultimately show ?thesis using next_device_loop_result [OF n] n by (auto simp: kbdint_next_device_def)
qed

lemma send_userauth_info_request_frame:
  assumes "send_userauth_info_request env k c = Some c'"
  shows "core c' = core c" and "accepted c' = accepted c" and "refused c' = refused c"
    and "ac_prev_userkeys c' = ac_prev_userkeys c" and "kb_ok env k \<Longrightarrow> kbd_ok env c'" and "none_enabled c' = none_enabled c"
    and "ac_kbdintctxt c' \<noteq> None" and "forced_command c' = forced_command c"
  using assms by (auto simp: send_userauth_info_request_def split: prod.splits option.splits)

lemma auth2_challenge_start_frame:
  shows "core (auth2_challenge_start env k c) = core c" and "accepted (auth2_challenge_start env k c) = accepted c"
    and "refused (auth2_challenge_start env k c) = refused c"
    and "ac_prev_userkeys (auth2_challenge_start env k c) = ac_prev_userkeys c"
    and "kbd_ok env (auth2_challenge_start env k c)"
    and "none_enabled (auth2_challenge_start env k c) = none_enabled c"
    and "forced_command (auth2_challenge_start env k c) = forced_command c"
  using kbdint_next_device_ok [of env c k]
  by (auto simp: auth2_challenge_start_def auth2_challenge_stop_def Let_def send_userauth_info_request_frame split: option.splits)

lemma auth2_challenge_start_single:
  assumes "length (ae_devices env) \<le> 1" and "kb_ok env k" and "kb_device k = Some d"
  shows "auth2_challenge_start env k c = auth2_challenge_stop c"
  using kbdint_next_device_single [OF assms] by (simp add: auth2_challenge_start_def Let_def)

section \<open>What the methods do\<close>

text \<open>A public key that was accepted is one the user may use, and none is recorded twice.\<close>

definition keys_ok :: "auth_env \<Rightarrow> Authctxt \<Rightarrow> bool" where
  "keys_ok env c \<longleftrightarrow> distinct (map pk_public (ac_prev_userkeys c)) \<and>
     (\<forall>k\<in>set (ac_prev_userkeys c). fst (ae_key_allowed env (ac_pw c) k True) \<and>
        match_pattern_list (sshkey_ssh_name_from_type_nid (pk_type k) (pk_nid k)) (pubkey_key_types (ae_opts env)) False = 1)"

text \<open>What a call of a method that answers \<open>ok\<close> does; \<open>n\<close> keys are recorded at least.\<close>

definition method_effect :: "auth_env \<Rightarrow> Authctxt \<Rightarrow> bool \<Rightarrow> nat \<Rightarrow> Authctxt \<Rightarrow> bool" where
  "method_effect env c ok n c' \<longleftrightarrow>
     core c' = core c \<and> accepted c' = accepted c \<and>
     (refused c' = refused c \<or> refused c' = refused c + 1 \<and> \<not> ok \<and> ac_postponed c' = ac_postponed c) \<and>
     (kbd_ok env c \<longrightarrow> kbd_ok env c') \<and>
     (keys_ok env c \<longrightarrow> keys_ok env c') \<and> length (ac_prev_userkeys c) + n \<le> length (ac_prev_userkeys c')"

lemma method_effect_refl: "method_effect env c ok 0 c"
  by (simp add: method_effect_def)

lemma keys_ok_simps [simp]:
  "keys_ok env (c\<lparr>ac_log := l\<rparr>) = keys_ok env c" "keys_ok env (c\<lparr>ac_postponed := b\<rparr>) = keys_ok env c"
  "keys_ok env (c\<lparr>none_enabled := b\<rparr>) = keys_ok env c" "keys_ok env (c\<lparr>forced_command := b\<rparr>) = keys_ok env c"
  "keys_ok env (c\<lparr>disp_info := h\<rparr>) = keys_ok env c" "keys_ok env (c\<lparr>disp_userauth := h\<rparr>) = keys_ok env c"
  "keys_ok env (c\<lparr>ac_kbdintctxt := k\<rparr>) = keys_ok env c" "keys_ok env (c\<lparr>ac_success := b\<rparr>) = keys_ok env c"
  "keys_ok env (c\<lparr>ac_failures := i\<rparr>) = keys_ok env c" "keys_ok env (c\<lparr>ac_auth_methods := ms\<rparr>) = keys_ok env c"
  by (simp_all add: keys_ok_def)

lemma keys_ok_same:
  assumes "core c' = core c" and "ac_prev_userkeys c' = ac_prev_userkeys c"
  shows "keys_ok env c' = keys_ok env c"
  using assms core_fields(8) [OF assms(1)] by (simp add: keys_ok_def)

lemma userauth_none_effect: "userauth_none env p c = (Inr ok, c') \<Longrightarrow> method_effect env c ok 0 c'"
  by (auto simp: userauth_none_def auth_outcomes auth_password_def Let_def method_effect_def split: if_splits)

lemma userauth_passwd_effect:
  assumes "userauth_passwd env p c = (Inr ok, c')"
  shows "method_effect env c ok 0 c'"
proof -
  have "c' = c \<or> c' = tell (PASSWORD_TRIED ok) c"
    using assms by (auto simp: userauth_passwd_def auth_outcomes auth_password_def Let_def split: if_splits)
  then show ?thesis by (auto simp: method_effect_def)
qed

lemma userauth_hostbased_effect:
  assumes "userauth_hostbased env p c = (Inr ok, c')"
  shows "method_effect env c ok 0 c'"
proof -
  have "c' = c"
    using assms by (auto simp: userauth_hostbased_def auth_outcomes split: if_splits option.splits)
  then show ?thesis by (simp add: method_effect_refl)
qed

lemma auth2_challenge_start_effect: "method_effect env c ok 0 (auth2_challenge_start env k c)"
  using keys_ok_same [OF auth2_challenge_start_frame(1,4)]
  by (simp add: method_effect_def auth2_challenge_start_frame)

lemma auth2_challenge_effect: "method_effect env c ok 0 (auth2_challenge env devs c)"
  by (cases "ac_kbdintctxt c") (simp_all add: auth2_challenge_def auth2_challenge_start_effect)

lemma userauth_kbdint_effect:
  assumes "userauth_kbdint env p c = (Inr ok, c')"
  shows "method_effect env c ok 0 c'"
proof -
  have "c' = c \<or> (\<exists>devs. c' = auth2_challenge env devs c)"
    using assms by (auto simp: userauth_kbdint_def auth_outcomes split: if_splits)
  then show ?thesis using method_effect_refl auth2_challenge_effect by auto
qed

lemma record_key_effect:
  assumes "pubkey_acceptable env c pkalg key" and "fst (ae_key_allowed env (ac_pw c) key True)"
  shows "method_effect env c True 1 (c\<lparr>ac_prev_userkeys := ac_prev_userkeys c @ [key], forced_command := b\<rparr>)"
  using assms by (auto simp: method_effect_def keys_ok_def pubkey_acceptable_def)

lemma pubkey_check_effect:
  assumes "pubkey_check env have_sig pkalg pkblob key p c = (Inr ok, c')" and "pubkey_acceptable env c pkalg key"
  shows "method_effect env c ok (of_bool ok) c'"
proof -
  obtain allowed forced where a: "ae_key_allowed env (ac_pw c) key True = (allowed, forced)" by force
  have "ok \<and> allowed \<and> c' = c\<lparr>ac_prev_userkeys := ac_prev_userkeys c @ [key], forced_command := forced\<rparr> \<or>
      \<not> ok \<and> (c' = c\<lparr>forced_command := False\<rparr> \<or>
        c' = (tell (USERAUTH_PK_OK pkalg pkblob) (c\<lparr>forced_command := False\<rparr>))\<lparr>ac_postponed := True\<rparr>)"
    using assms(1) unfolding pubkey_check_def by (simp add: auth_outcomes a Let_def split: if_splits) auto
  then consider "ok" "allowed" "c' = c\<lparr>ac_prev_userkeys := ac_prev_userkeys c @ [key], forced_command := forced\<rparr>"
    | "\<not> ok" "c' = c\<lparr>forced_command := False\<rparr>"
    | "\<not> ok" "c' = (tell (USERAUTH_PK_OK pkalg pkblob) (c\<lparr>forced_command := False\<rparr>))\<lparr>ac_postponed := True\<rparr>" by blast
  then show ?thesis
  proof cases
    case 1
    then show ?thesis using record_key_effect [OF assms(2), of forced] a by simp
  qed (simp_all add: method_effect_def)
qed

lemma userauth_pubkey_effect:
  assumes "userauth_pubkey env p c = (Inr ok, c')"
  shows "method_effect env c ok (of_bool ok) c'"
proof -
  have "c' = c \<and> \<not> ok \<or> (\<exists>h pkalg pkblob key p. pubkey_acceptable env c pkalg key \<and>
      pubkey_check env h pkalg pkblob key p c = (Inr ok, c'))"
    using assms unfolding userauth_pubkey_def auth_outcomes
    by (auto simp: auth_outcomes split: if_splits option.splits)
  then show ?thesis
  proof
    assume "c' = c \<and> \<not> ok"
    then show ?thesis by (simp add: method_effect_refl)
  next
    assume "\<exists>h pkalg pkblob key p. pubkey_acceptable env c pkalg key \<and>
      pubkey_check env h pkalg pkblob key p c = (Inr ok, c')"
    then show ?thesis using pubkey_check_effect by blast
  qed
qed

lemma run_method_effect:
  assumes "run_method env m p c = (Inr ok, c')"
  shows "method_effect env c ok (of_bool (ok \<and> m = ''publickey'')) c'"
  using assms userauth_none_effect [of env p c ok c'] userauth_passwd_effect [of env p c ok c']
    userauth_kbdint_effect [of env p c ok c'] userauth_hostbased_effect [of env p c ok c'] userauth_pubkey_effect [of env p c ok c']
  by (auto simp: run_method_def split: if_splits)

section \<open>What the end of an attempt does\<close>

definition accepts :: "auth_env \<Rightarrow> bool \<Rightarrow> string \<Rightarrow> Authctxt \<Rightarrow> bool" where
  "accepts env auth m c \<longleftrightarrow> auth \<and> \<not> (pw_uid (ac_pw c) = 0 \<and> \<not> auth_root_allowed env c m)"

definition failure_penalty :: "string \<Rightarrow> Authctxt \<Rightarrow> int" where
  "failure_penalty m c = of_bool (\<not> ac_server_caused_failure c \<and> (ac_attempt c > 1 \<or> m \<noteq> ''none''))"

lemma userauth_finish_rejects:
  assumes "\<not> accepts env auth m c" and "userauth_finish env auth m sub c = (Inr (), c')"
  shows "c' = tell (AUTH_LOG False False m sub) c \<and> ac_postponed c \<or>
     \<not> ac_postponed c \<and> ac_failures c + failure_penalty m c < max_authtries (ae_opts env) \<and>
     (\<exists>ms. c' = tell (USERAUTH_FAILURE ms False)
       ((tell (AUTH_LOG False False m sub) c)\<lparr>ac_failures := ac_failures c + failure_penalty m c\<rparr>))"
proof -
  have v: "\<not> (\<not> ac_valid c \<and> auth)" "\<not> (auth \<and> ac_postponed c)"
    using assms(2) by (auto simp: userauth_finish_def split: if_splits)
  have a: "(auth \<and> \<not> (pw_uid (ac_pw c) = 0 \<and> \<not> auth_root_allowed env c m)) = False"
    using assms(1) by (simp add: accepts_def)
  let ?c = "tell (AUTH_LOG False False m sub) c"
  have f: "userauth_finish env auth m sub c = (if ac_postponed c then (Inr (), ?c) else auth_failed env False m ?c)"
    using v unfolding userauth_finish_def Let_def a simp_thms by (cases auth) auto
  show ?thesis
  proof (cases "ac_postponed c")
    case True
    then show ?thesis using assms(2) unfolding f by simp
  next
    case False
    show ?thesis using assms(2) False unfolding f
      by (cases "\<not> ac_server_caused_failure c \<and> (ac_attempt c > 1 \<or> m \<noteq> ''none'')")
        (auto simp: auth_failed_def Let_def failure_penalty_def split: if_splits)
  qed
qed

lemma userauth_finish_accepts:
  assumes "accepts env auth m c" and "userauth_finish env auth m sub c = (Inr (), c')"
  obtains fin found ls where "ac_valid c" and "\<not> ac_postponed c"
    and "(if auth_methods (ae_opts env) = [] then (True, True, ac_auth_methods c)
          else update_lists (ac_auth_methods c) m sub) = (fin, found, ls)"
    and "fin \<Longrightarrow> c' = (tell USERAUTH_SUCCESS (tell (AUTH_LOG True False m sub) (c\<lparr>ac_auth_methods := ls\<rparr>)))
           \<lparr>disp_userauth := H_protocol_ignore, ac_success := True\<rparr>"
    and "\<not> fin \<Longrightarrow> \<exists>ms. c' = tell (USERAUTH_FAILURE ms True) (tell (AUTH_LOG False True m sub) (c\<lparr>ac_auth_methods := ls\<rparr>))"
proof -
  obtain fin found ls where u: "(if auth_methods (ae_opts env) = [] then (True, True, ac_auth_methods c)
          else update_lists (ac_auth_methods c) m sub) = (fin, found, ls)"
    by (cases "if auth_methods (ae_opts env) = [] then (True, True, ac_auth_methods c) else update_lists (ac_auth_methods c) m sub") auto
  have v: "auth" "ac_valid c" "\<not> ac_postponed c"
    using assms by (auto simp: accepts_def userauth_finish_def split: if_splits)
  have a: "(auth \<and> \<not> (pw_uid (ac_pw c) = 0 \<and> \<not> auth_root_allowed env c m)) = True"
    using assms(1) by (simp add: accepts_def)
  have f: "userauth_finish env auth m sub c =
      rbind (if auth_methods (ae_opts env) \<noteq> [] then auth2_update_methods_lists m sub c else (Inr True, c))
          (\<lambda>fin c.
             let c = tell (AUTH_LOG fin (\<not> fin) m sub) c
             in if ac_postponed c then (Inr (), c)
                else if fin then (Inr (), (tell USERAUTH_SUCCESS c)\<lparr>disp_userauth := H_protocol_ignore, ac_success := True\<rparr>)
                else auth_failed env (\<not> fin) m c)"
    using v unfolding userauth_finish_def Let_def a simp_thms by simp
  have "(fin \<longrightarrow> c' = (tell USERAUTH_SUCCESS (tell (AUTH_LOG True False m sub) (c\<lparr>ac_auth_methods := ls\<rparr>)))
           \<lparr>disp_userauth := H_protocol_ignore, ac_success := True\<rparr>) \<and>
     (\<not> fin \<longrightarrow> (\<exists>ms. c' = tell (USERAUTH_FAILURE ms True) (tell (AUTH_LOG False True m sub) (c\<lparr>ac_auth_methods := ls\<rparr>))))"
  proof (cases "auth_methods (ae_opts env) = []")
    case True
    then show ?thesis using assms(2) u v unfolding f by (cases c) auto
  next
    case False
    then show ?thesis using assms(2) u v unfolding f
      by (cases fin; cases found) (auto simp: auth2_update_methods_lists_def auth_failed_def Let_def split: if_splits)
  qed
  then show thesis using that [OF v(2,3) u] by blast
qed

section \<open>Invariants of the dialogue\<close>

definition method_names :: "string list" where
  "method_names = [''none'', ''publickey'', ''password'', ''keyboard-interactive'', ''hostbased'']"

text \<open>The state in which the method of a request is called.\<close>

definition request_start :: "auth_env \<Rightarrow> Authctxt \<Rightarrow> Authctxt \<Rightarrow> bool" where
  "request_start env c c1 \<longleftrightarrow> (\<exists>c0.
     (if ac_attempt c = 0 then \<exists>usr style service. auth_setup env usr style service (c\<lparr>ac_attempt := 1\<rparr>) = (Inr (), c0)
      else c0 = c\<lparr>ac_attempt := ac_attempt c + 1\<rparr>) \<and>
     c1 = (auth2_challenge_stop c0)\<lparr>ac_postponed := False, ac_server_caused_failure := False\<rparr>)"

text \<open>
  A property of the context holds throughout the dialogue when it holds at the start and is kept by
  messages without effect, by a request, whatever its method does within \<open>method_effect\<close>, and by an
  answer to the questions of a device.
\<close>

locale auth_invariant =
  fixes env :: auth_env and I :: "Authctxt \<Rightarrow> bool"
  assumes start: "I (auth_init env)"
    and idle: "I c \<Longrightarrow> core c' = core c \<Longrightarrow> accepted c' = accepted c \<Longrightarrow> refused c' = refused c \<Longrightarrow>
      ac_kbdintctxt c' = ac_kbdintctxt c \<Longrightarrow> ac_prev_userkeys c' = ac_prev_userkeys c \<Longrightarrow>
      none_enabled c' = none_enabled c \<Longrightarrow> I c'"
    and request: "I c \<Longrightarrow> \<not> ac_success c \<Longrightarrow> request_start env c c1 \<Longrightarrow>
      method_effect env c1 ok (of_bool (ok \<and> m = ''publickey'')) c2 \<Longrightarrow> (ok \<Longrightarrow> m \<in> set method_names) \<Longrightarrow>
      userauth_finish env ok m None c2 = (Inr (), c') \<Longrightarrow> I c'"
    and response: "I c \<Longrightarrow> \<not> ac_success c \<Longrightarrow> ac_kbdintctxt c = Some k \<Longrightarrow> kb_device k = Some dev \<Longrightarrow>
      kbdint_result env (k\<lparr>kb_ctxt := Some ctx\<rparr>) res
        (tell (RESPONSE_TRIED dev res) (c\<lparr>ac_postponed := False, ac_kbdintctxt := Some (k\<lparr>kb_ctxt := Some ctx\<rparr>)\<rparr>)) = (auth, c2) \<Longrightarrow>
      userauth_finish env auth ''keyboard-interactive'' (Some dev) c2 = (Inr (), c') \<Longrightarrow> I c'"
begin

lemma service_keeps:
  assumes "I c" and "input_service_request p c = (Inr (), c')"
  shows "I c'"
  using assms(2) by (auto simp: input_service_request_def auth_outcomes split: if_splits intro!: idle [OF assms(1)])

lemma request_keeps:
  assumes "I c" and "\<not> ac_success c" and "input_userauth_request env p c = (Inr (), c')"
  shows "I c'"
proof -
  obtain m q c0 where s: "(if ac_attempt c = 0 then \<exists>usr style service. auth_setup env usr style service (c\<lparr>ac_attempt := 1\<rparr>) = (Inr (), c0)
      else c0 = c\<lparr>ac_attempt := ac_attempt c + 1\<rparr>)" and q: "auth_request env m q c0 = (Inr (), c')"
    using assms(3) unfolding input_userauth_request_def auth_outcomes Let_def
    by (cases "ac_attempt c = 0") (force simp: auth_outcomes split: if_splits)+
  let ?c = "(auth2_challenge_stop c0)\<lparr>ac_postponed := False, ac_server_caused_failure := False\<rparr>"
  have rs: "request_start env c ?c" using s unfolding request_start_def by blast
  obtain ok c2 where r: "(if authmethod_lookup env ?c m \<and> ac_failures ?c < max_authtries (ae_opts env) then run_method env m q ?c
             else (Inr False, ?c)) = (Inr ok, c2)" and f: "userauth_finish env ok m None c2 = (Inr (), c')"
    using q unfolding auth_request_def Let_def rbind_eq_Inr_iff by blast
  show ?thesis
  proof (cases "authmethod_lookup env ?c m \<and> ac_failures ?c < max_authtries (ae_opts env)")
    case True
    then have "m \<in> set method_names" by (auto simp: authmethod_lookup_def authmethods_def method_names_def)
    moreover have "run_method env m q ?c = (Inr ok, c2)" using r True by simp
    ultimately show ?thesis using request [OF assms(1,2) rs run_method_effect _ f] by blast
  next
    case False
    then have "\<not> ok" "c2 = ?c" using r by auto
    then show ?thesis using request [OF assms(1,2) rs _ _ f] method_effect_refl by simp
  qed
qed

lemma response_keeps:
  assumes "I c" and "\<not> ac_success c" and "input_userauth_info_response env p c = (Inr (), c')"
  shows "I c'"
proof -
  obtain k where k: "ac_kbdintctxt c = Some k"
    using assms(3) by (cases "ac_kbdintctxt c") (auto simp: input_userauth_info_response_def)
  obtain dev where d: "kb_device k = Some dev"
    using assms(3) k by (cases "kb_device k") (auto simp: input_userauth_info_response_def)
  obtain rs where
    "(case ae_respond env dev (the (kb_ctxt k)) rs of
       (res, ctx) \<Rightarrow>
         let k = k\<lparr>kb_ctxt := Some ctx\<rparr> in
         (case kbdint_result env k res (tell (RESPONSE_TRIED dev res) (c\<lparr>ac_postponed := False, ac_kbdintctxt := Some k\<rparr>)) of
            (auth, c) \<Rightarrow> userauth_finish env auth ''keyboard-interactive'' (Some dev) c)) = (Inr (), c')"
    using assms(3) k d unfolding input_userauth_info_response_def
    by (auto simp: auth_outcomes split: if_splits)
  then show ?thesis using response [OF assms(1,2) k d] by (auto simp: Let_def split: prod.splits)
qed

lemma dispatch_keeps:
  assumes "I c" and "\<not> ac_success c" and "auth_dispatch env ty p c = (Inr (), c')"
  shows "I c'"
proof -
  obtain h where "run_auth_handler env h p c = (Inr (), c')" using assms(3) unfolding auth_dispatch_def by blast
  then show ?thesis
    using service_keeps [OF assms(1)] request_keeps [OF assms(1,2)] response_keeps [OF assms(1,2)] assms(1)
    by (cases h) (auto simp: run_auth_handler_def intro: idle [OF assms(1)])
qed

lemma always: "(auth_step env)\<^sup>*\<^sup>* (auth_init env) c \<Longrightarrow> I c"
  by (induction rule: rtranclp_induct) (auto intro: start dispatch_keeps elim!: auth_step.cases)

end

lemma auth_setup_frame:
  assumes "auth_setup env usr style service c = (Inr (), c0)"
  shows "accepted c0 = accepted c" and "refused c0 = refused c" and "ac_attempt c0 = ac_attempt c"
    and "ac_failures c0 = ac_failures c" and "ac_prev_userkeys c0 = ac_prev_userkeys c" and "ac_success c0 = ac_success c"
    and "none_enabled c0 = none_enabled c"
    and "ac_valid c0 \<longrightarrow> ac_valid c \<or> ac_service c0 = ''ssh-connection'' \<and> getpwnamallow env (ac_user c0) = Inr (Some (ac_pw c0))"
proof -
  obtain found where g: "getpwnamallow env usr = Inr found"
    using assms by (auto simp: auth_setup_def auth_outcomes)
  let ?v = "found \<noteq> None \<and> service = ''ssh-connection''"
  let ?c = "userauth_banner env ((if ?v then c\<lparr>ac_pw := the found, ac_valid := True\<rparr>
     else c\<lparr>ac_pw := ae_fakepw env\<rparr>)\<lparr>ac_user := usr, ac_service := service, ac_style := style\<rparr>)"
  have "(case auth2_setup_methods_lists env ?c of (ok, c) \<Rightarrow> if ok then (Inr (), c) else (Inl Disconnect, c)) = (Inr (), c0)"
    using assms g by (cases found) (auto simp: auth_setup_def auth_outcomes Let_def split: if_splits)
  then have "c0 = ?c\<lparr>ac_auth_methods := ac_auth_methods c0\<rparr>"
    by (auto simp: auth2_setup_methods_lists_def Let_def split: if_splits)
  moreover have "\<exists>l. ?c = ((if ?v then c\<lparr>ac_pw := the found, ac_valid := True\<rparr>
     else c\<lparr>ac_pw := ae_fakepw env\<rparr>)\<lparr>ac_user := usr, ac_service := service, ac_style := style\<rparr>)\<lparr>ac_log := ac_log c @ l\<rparr> \<and>
     accepted_of l = [] \<and> filter refused_secret l = []"
    by (cases "banner (ae_opts env)"; cases "ae_read_banner env (the (banner (ae_opts env)))")
      (auto simp: userauth_banner_def intro: exI [of _ "[]"])
  ultimately obtain l where c0: "c0 = ((if ?v then c\<lparr>ac_pw := the found, ac_valid := True\<rparr>
     else c\<lparr>ac_pw := ae_fakepw env\<rparr>)\<lparr>ac_user := usr, ac_service := service, ac_style := style\<rparr>)
       \<lparr>ac_log := ac_log c @ l, ac_auth_methods := ac_auth_methods c0\<rparr>" and l: "accepted_of l = []" "filter refused_secret l = []"
    by auto
  show "accepted c0 = accepted c" "refused c0 = refused c" "ac_attempt c0 = ac_attempt c"
    "ac_failures c0 = ac_failures c" "ac_prev_userkeys c0 = ac_prev_userkeys c" "ac_success c0 = ac_success c"
    "none_enabled c0 = none_enabled c"
    using l by (subst c0; simp)+
  have "ac_user c0 = usr" "ac_service c0 = service" "ac_pw c0 = (if ?v then the found else ae_fakepw env)"
    "ac_valid c0 = (?v \<or> ac_valid c)" by (subst c0; simp)+
  then show "ac_valid c0 \<longrightarrow> ac_valid c \<or> ac_service c0 = ''ssh-connection'' \<and> getpwnamallow env (ac_user c0) = Inr (Some (ac_pw c0))"
    using g by auto
qed

lemma request_start_frame:
  assumes "request_start env c c1"
  shows "accepted c1 = accepted c" and "refused c1 = refused c" and "ac_attempt c1 = ac_attempt c + 1"
    and "ac_failures c1 = ac_failures c" and "ac_prev_userkeys c1 = ac_prev_userkeys c" and "ac_success c1 = ac_success c"
    and "none_enabled c1 = none_enabled c" and "\<not> ac_postponed c1" and "\<not> ac_server_caused_failure c1"
    and "ac_kbdintctxt c1 = None"
    and "ac_attempt c \<noteq> 0 \<Longrightarrow> ac_pw c1 = ac_pw c \<and> ac_valid c1 = ac_valid c \<and> ac_user c1 = ac_user c \<and>
      ac_service c1 = ac_service c \<and> ac_auth_methods c1 = ac_auth_methods c"
    and "\<not> ac_valid c \<Longrightarrow> ac_attempt c = 0 \<Longrightarrow> ac_valid c1 \<longrightarrow>
      ac_service c1 = ''ssh-connection'' \<and> getpwnamallow env (ac_user c1) = Inr (Some (ac_pw c1))"
proof -
  obtain c0 where s: "if ac_attempt c = 0 then \<exists>usr style service. auth_setup env usr style service (c\<lparr>ac_attempt := 1\<rparr>) = (Inr (), c0)
      else c0 = c\<lparr>ac_attempt := ac_attempt c + 1\<rparr>"
    and c1: "c1 = (auth2_challenge_stop c0)\<lparr>ac_postponed := False, ac_server_caused_failure := False\<rparr>"
    using assms unfolding request_start_def by blast
  have f: "accepted c0 = accepted c \<and> refused c0 = refused c \<and> ac_attempt c0 = ac_attempt c + 1 \<and>
    ac_failures c0 = ac_failures c \<and> ac_prev_userkeys c0 = ac_prev_userkeys c \<and> ac_success c0 = ac_success c \<and>
    none_enabled c0 = none_enabled c \<and>
    (ac_valid c0 \<and> ac_attempt c = 0 \<longrightarrow>
       ac_valid c \<or> ac_service c0 = ''ssh-connection'' \<and> getpwnamallow env (ac_user c0) = Inr (Some (ac_pw c0)))"
  proof (cases "ac_attempt c = 0")
    case True
    then obtain usr style service where "auth_setup env usr style service (c\<lparr>ac_attempt := 1\<rparr>) = (Inr (), c0)" using s by auto
    from auth_setup_frame [OF this] show ?thesis using True by simp
  qed (use s in simp)
  then show "accepted c1 = accepted c" "refused c1 = refused c" "ac_attempt c1 = ac_attempt c + 1"
    "ac_failures c1 = ac_failures c" "ac_prev_userkeys c1 = ac_prev_userkeys c" "ac_success c1 = ac_success c"
    "none_enabled c1 = none_enabled c" "\<not> ac_postponed c1" "\<not> ac_server_caused_failure c1" "ac_kbdintctxt c1 = None"
    by (simp_all add: c1 auth2_challenge_stop_def)
  show "ac_attempt c \<noteq> 0 \<Longrightarrow> ac_pw c1 = ac_pw c \<and> ac_valid c1 = ac_valid c \<and> ac_user c1 = ac_user c \<and>
      ac_service c1 = ac_service c \<and> ac_auth_methods c1 = ac_auth_methods c"
    using s by (simp add: c1 auth2_challenge_stop_def)
  show "\<not> ac_valid c \<Longrightarrow> ac_attempt c = 0 \<Longrightarrow> ac_valid c1 \<longrightarrow>
      ac_service c1 = ''ssh-connection'' \<and> getpwnamallow env (ac_user c1) = Inr (Some (ac_pw c1))"
    using f by (simp add: c1 auth2_challenge_stop_def)
qed

lemma kbdint_result_frame:
  assumes "kbdint_result env k res c = (auth, c2)"
  shows "core c2 = core c" and "accepted c2 = accepted c" and "ac_prev_userkeys c2 = ac_prev_userkeys c"
    and "refused c2 = refused c" and "auth \<longleftrightarrow> res = 0 \<and> ac_valid c" and "none_enabled c2 = none_enabled c"
  using assms send_userauth_info_request_frame [of env k c]
  by (auto simp: kbdint_result_def Let_def auth2_challenge_stop_def auth2_challenge_start_frame split: if_splits option.splits)

lemma kbdint_result_kbd:
  assumes "kbdint_result env k res c = (auth, c2)" and "kb_ok env k" and "kbd_ok env c"
  shows "kbd_ok env c2"
  using assms send_userauth_info_request_frame [of env k c]
  by (auto simp: kbdint_result_def Let_def auth2_challenge_stop_def auth2_challenge_start_frame split: if_splits option.splits)

lemma kbdint_result_single:
  assumes "kbdint_result env k res c = (auth, c2)" and "kb_ok env k" and "kb_device k = Some d"
    and "length (ae_devices env) \<le> 1" and "\<not> ac_postponed c" and "res \<noteq> 1"
  shows "\<not> ac_postponed c2"
  using assms auth2_challenge_start_single [OF assms(4,2,3)]
  by (auto simp: kbdint_result_def Let_def auth2_challenge_stop_def split: if_splits)

lemma method_effect_fields:
  assumes "method_effect env c1 ok n c2"
  shows "core c2 = core c1" and "accepted c2 = accepted c1"
    and "refused c2 = refused c1 \<or> refused c2 = refused c1 + 1 \<and> \<not> ok \<and> ac_postponed c2 = ac_postponed c1"
    and "kbd_ok env c1 \<Longrightarrow> kbd_ok env c2" and "keys_ok env c1 \<Longrightarrow> keys_ok env c2"
    and "length (ac_prev_userkeys c1) + n \<le> length (ac_prev_userkeys c2)"
  using assms by (simp_all add: method_effect_def)

text \<open>What \<open>userauth_finish\<close> keeps in every case.\<close>

lemma userauth_finish_frame:
  assumes "userauth_finish env auth m sub c = (Inr (), c')"
  shows "ac_valid c' = ac_valid c" and "ac_attempt c' = ac_attempt c" and "ac_user c' = ac_user c"
    and "ac_service c' = ac_service c" and "ac_pw c' = ac_pw c" and "ac_kbdintctxt c' = ac_kbdintctxt c"
    and "ac_prev_userkeys c' = ac_prev_userkeys c" and "none_enabled c' = none_enabled c"
    and "refused c' = refused c" and "ac_server_caused_failure c' = ac_server_caused_failure c"
    and "accepted c' = accepted c @ (if accepts env auth m c then [(m, sub)] else [])"
    and "ac_failures c' = ac_failures c + (if accepts env auth m c \<or> ac_postponed c then 0 else failure_penalty m c)"
    and "\<not> accepts env auth m c \<Longrightarrow> \<not> ac_postponed c \<Longrightarrow> ac_failures c' < max_authtries (ae_opts env)"
    and "\<not> accepts env auth m c \<Longrightarrow> ac_success c' = ac_success c \<and> ac_auth_methods c' = ac_auth_methods c"
proof -
  have "ac_valid c' = ac_valid c \<and> ac_attempt c' = ac_attempt c \<and> ac_user c' = ac_user c \<and> ac_service c' = ac_service c \<and>
    ac_pw c' = ac_pw c \<and> ac_kbdintctxt c' = ac_kbdintctxt c \<and> ac_prev_userkeys c' = ac_prev_userkeys c \<and>
    none_enabled c' = none_enabled c \<and> refused c' = refused c \<and> ac_server_caused_failure c' = ac_server_caused_failure c \<and>
    accepted c' = accepted c @ (if accepts env auth m c then [(m, sub)] else []) \<and>
    ac_failures c' = ac_failures c + (if accepts env auth m c \<or> ac_postponed c then 0 else failure_penalty m c) \<and>
    (\<not> accepts env auth m c \<longrightarrow> (\<not> ac_postponed c \<longrightarrow> ac_failures c' < max_authtries (ae_opts env)) \<and>
       ac_success c' = ac_success c \<and> ac_auth_methods c' = ac_auth_methods c)"
  proof (cases "accepts env auth m c")
    case True
    from userauth_finish_accepts [OF True assms] show ?thesis
    proof cases
      case (1 fin found ls)
      then show ?thesis using True by (cases fin) auto
    qed
  next
    case False
    from userauth_finish_rejects [OF False assms] show ?thesis using False by auto
  qed
  then show "ac_valid c' = ac_valid c" "ac_attempt c' = ac_attempt c" "ac_user c' = ac_user c"
    "ac_service c' = ac_service c" "ac_pw c' = ac_pw c" "ac_kbdintctxt c' = ac_kbdintctxt c"
    "ac_prev_userkeys c' = ac_prev_userkeys c" "none_enabled c' = none_enabled c"
    "refused c' = refused c" "ac_server_caused_failure c' = ac_server_caused_failure c"
    "accepted c' = accepted c @ (if accepts env auth m c then [(m, sub)] else [])"
    "ac_failures c' = ac_failures c + (if accepts env auth m c \<or> ac_postponed c then 0 else failure_penalty m c)"
    "\<not> accepts env auth m c \<Longrightarrow> \<not> ac_postponed c \<Longrightarrow> ac_failures c' < max_authtries (ae_opts env)"
    "\<not> accepts env auth m c \<Longrightarrow> ac_success c' = ac_success c \<and> ac_auth_methods c' = ac_auth_methods c"
    by blast+
qed

end
