(* ===== verification/Auth2_Inv.thy ===== *)
theory Auth2_Inv
  imports Auth2
begin

text \<open>
  What the dialogue of \<open>Auth2\<close> guarantees: the number of guesses, the keys, and what it takes to be let
  in. Each is an invariant of the dialogue, an interpretation of \<open>auth_invariant\<close>.
\<close>

subsection \<open>Guesses\<close>

definition guess_inv :: "auth_env \<Rightarrow> Authctxt \<Rightarrow> bool" where
  "guess_inv env c \<longleftrightarrow> (length (ae_devices env) \<le> 1 \<and> max_authtries (ae_opts env) > 0 \<longrightarrow>
     0 \<le> ac_failures c \<and> ac_failures c < max_authtries (ae_opts env) \<and> 0 \<le> ac_attempt c \<and>
     \<not> ac_server_caused_failure c \<and> int (refused c) \<le> ac_failures c + 1 \<and>
     (ac_attempt c = 0 \<longrightarrow> refused c = 0) \<and> kbd_ok env c \<and> (ac_kbdintctxt c \<noteq> None \<longrightarrow> ac_attempt c > 0))"

lemma guess_inv_request:
  assumes "guess_inv env c" and "request_start env c c1" and "method_effect env c1 ok n c2"
    and "userauth_finish env ok m None c2 = (Inr (), c')"
  shows "guess_inv env c'"
  unfolding guess_inv_def
proof (intro impI, elim conjE)
  assume d: "length (ae_devices env) \<le> 1" "0 < max_authtries (ae_opts env)"
  note rs = request_start_frame [OF assms(2)] and me = method_effect_fields [OF assms(3)]
    and uf = userauth_finish_frame [OF assms(4)] and i = assms(1) [unfolded guess_inv_def, rule_format, OF conjI, OF d]
  note cf = core_fields [OF me(1)]
  have k: "kbd_ok env c'" using me(4) rs(10) uf(6) by (simp add: kbd_ok_def)
  have p: "failure_penalty m c2 = of_bool (ac_attempt c \<ge> 1 \<or> m \<noteq> ''none'')"
    using cf rs(3,9) by (simp add: failure_penalty_def)
  have pen: "refused c2 = refused c \<or> refused c2 = refused c + 1 \<and> \<not> accepts env ok m c2 \<and> \<not> ac_postponed c2"
    using me(3) rs(2,8) by (auto simp: accepts_def)
  have f: "ac_failures c' = ac_failures c + (if accepts env ok m c2 \<or> ac_postponed c2 then 0 else failure_penalty m c2)"
    using uf(12) cf(4) rs(4) by simp
  have max: "ac_failures c' < max_authtries (ae_opts env)"
    using uf(12,13) cf(4) rs(4) i by (cases "accepts env ok m c2 \<or> ac_postponed c2") auto
  have le: "int (refused c') \<le> ac_failures c' + 1"
  proof (cases "refused c2 = refused c")
    case True
    then show ?thesis using uf(9) f i p by auto
  next
    case False
    then have "refused c2 = refused c + 1" "ac_failures c' = ac_failures c + of_bool (ac_attempt c \<ge> 1 \<or> m \<noteq> ''none'')"
      using pen f p by auto
    then show ?thesis using uf(9) i by (cases "ac_attempt c = 0") auto
  qed
  show "0 \<le> ac_failures c' \<and> ac_failures c' < max_authtries (ae_opts env) \<and> 0 \<le> ac_attempt c' \<and>
     \<not> ac_server_caused_failure c' \<and> int (refused c') \<le> ac_failures c' + 1 \<and>
     (ac_attempt c' = 0 \<longrightarrow> refused c' = 0) \<and> kbd_ok env c' \<and> (ac_kbdintctxt c' \<noteq> None \<longrightarrow> ac_attempt c' > 0)"
    using k max le f p i uf(2,10) cf(3,5) rs(3,9) by (auto simp: failure_penalty_def)
qed

lemma guess_inv_response:
  assumes "guess_inv env c" and "ac_kbdintctxt c = Some k" and "kb_device k = Some dev"
    and "kbdint_result env (k\<lparr>kb_ctxt := Some ctx\<rparr>) res
        (tell (RESPONSE_TRIED dev res) (c\<lparr>ac_postponed := False, ac_kbdintctxt := Some (k\<lparr>kb_ctxt := Some ctx\<rparr>)\<rparr>)) = (auth, c2)"
    and "userauth_finish env auth ''keyboard-interactive'' (Some dev) c2 = (Inr (), c')"
  shows "guess_inv env c'"
  unfolding guess_inv_def
proof (intro impI, elim conjE)
  assume d: "length (ae_devices env) \<le> 1" "0 < max_authtries (ae_opts env)"
  note i = assms(1) [unfolded guess_inv_def, rule_format, OF conjI, OF d] and uf = userauth_finish_frame [OF assms(5)]
  have kb: "kb_ok env (k\<lparr>kb_ctxt := Some ctx\<rparr>)" using i assms(2) by (simp add: kbd_ok_def)
  note kr = kbdint_result_frame [OF assms(4)]
  note cf = core_fields [OF kr(1)]
  have k: "kbd_ok env c'" using kbdint_result_kbd [OF assms(4) kb] kb uf(6) by (simp add: kbd_ok_def)
  have p: "failure_penalty ''keyboard-interactive'' c2 = 1" using i cf(5) by (simp add: failure_penalty_def)
  have n: "\<not> ac_postponed c2" if "res \<noteq> 0" "res \<noteq> 1"
    using kbdint_result_single [OF assms(4) kb _ d(1)] assms(3) that by simp
  have a: "\<not> accepts env auth ''keyboard-interactive'' c2" if "res \<noteq> 0"
    using kr(5) that by (simp add: accepts_def)
  have r: "refused c2 = refused c + of_bool (res \<noteq> 0 \<and> res \<noteq> 1)" using kr(4) by simp
  have f: "ac_failures c' = ac_failures c + (if accepts env auth ''keyboard-interactive'' c2 \<or> ac_postponed c2 then 0 else 1)"
    using uf(12) cf(4) p by simp
  have max: "ac_failures c' < max_authtries (ae_opts env)"
    using uf(13) f i by (cases "accepts env auth ''keyboard-interactive'' c2 \<or> ac_postponed c2") auto
  have le: "int (refused c') \<le> ac_failures c' + 1"
    using uf(9) r f i n a by (cases "res \<noteq> 0 \<and> res \<noteq> 1") auto
  show "0 \<le> ac_failures c' \<and> ac_failures c' < max_authtries (ae_opts env) \<and> 0 \<le> ac_attempt c' \<and>
     \<not> ac_server_caused_failure c' \<and> int (refused c') \<le> ac_failures c' + 1 \<and>
     (ac_attempt c' = 0 \<longrightarrow> refused c' = 0) \<and> kbd_ok env c' \<and> (ac_kbdintctxt c' \<noteq> None \<longrightarrow> ac_attempt c' > 0)"
    using k max le f i uf(2,10) cf(3,5) assms(2) by auto
qed

interpretation gu: auth_invariant env "guess_inv env" for env
proof unfold_locales
  show "guess_inv env (auth_init env)" by (simp add: guess_inv_def auth_init_def kbd_ok_def)
next
  fix c c'
  assume "guess_inv env c" "core c' = core c" "refused c' = refused c" "ac_kbdintctxt c' = ac_kbdintctxt c"
  then show "guess_inv env c'" using core_fields [of c' c] by (simp add: guess_inv_def kbd_ok_def)
qed (use guess_inv_request guess_inv_response in blast)+

subsection \<open>Keys\<close>

definition pubkey_count :: "Authctxt \<Rightarrow> nat" where
  "pubkey_count c = length (filter (\<lambda>a. fst a = ''publickey'') (accepted c))"

definition keys_inv :: "auth_env \<Rightarrow> Authctxt \<Rightarrow> bool" where
  "keys_inv env c \<longleftrightarrow> keys_ok env c \<and> pubkey_count c \<le> length (ac_prev_userkeys c) \<and>
     0 \<le> ac_attempt c \<and> (ac_attempt c = 0 \<longrightarrow> ac_prev_userkeys c = []) \<and> (ac_kbdintctxt c \<noteq> None \<longrightarrow> ac_attempt c > 0)"

lemma keys_inv_request:
  assumes "keys_inv env c" and "request_start env c c1" and "method_effect env c1 ok (of_bool (ok \<and> m = ''publickey'')) c2"
    and "userauth_finish env ok m None c2 = (Inr (), c')"
  shows "keys_inv env c'"
proof -
  note rs = request_start_frame [OF assms(2)] and me = method_effect_fields [OF assms(3)]
    and uf = userauth_finish_frame [OF assms(4)]
  note cf = core_fields [OF me(1)]
  have "keys_ok env c1" using assms(1) rs(5,11) by (cases "ac_attempt c = 0") (auto simp: keys_inv_def keys_ok_def)
  then have k: "keys_ok env c'" using me(5) uf(5,7) by (simp add: keys_ok_def)
  have "pubkey_count c' \<le> pubkey_count c + of_bool (ok \<and> m = ''publickey'')"
    using uf(11) me(2) rs(1) by (auto simp: pubkey_count_def accepts_def)
  then have "pubkey_count c' \<le> length (ac_prev_userkeys c')"
    using assms(1) me(6) rs(5) uf(7) by (simp add: keys_inv_def)
  then show ?thesis using assms(1) k uf(2) cf(3) rs(3) by (simp add: keys_inv_def)
qed

lemma keys_inv_response:
  assumes "keys_inv env c" and "ac_kbdintctxt c = Some k" and "kb_device k = Some dev" 
    and "kbdint_result env (k\<lparr>kb_ctxt := Some ctx\<rparr>) res
        (tell (RESPONSE_TRIED dev res) (c\<lparr>ac_postponed := False, ac_kbdintctxt := Some (k\<lparr>kb_ctxt := Some ctx\<rparr>)\<rparr>)) = (auth, c2)"
    and "userauth_finish env auth ''keyboard-interactive'' (Some dev) c2 = (Inr (), c')"
  shows "keys_inv env c'"
proof -
  note uf = userauth_finish_frame [OF assms(5)] and kr = kbdint_result_frame [OF assms(4)]
  note cf = core_fields [OF kr(1)]
  have "keys_ok env c'" using assms(1) uf(5,7) cf(8) kr(3) by (simp add: keys_inv_def keys_ok_def)
  moreover have "pubkey_count c' = pubkey_count c" using uf(11) kr(2) by (simp add: pubkey_count_def)
  ultimately show ?thesis using assms(1,2) uf(2,7) cf(3) kr(3) by (simp add: keys_inv_def)
qed

interpretation ke: auth_invariant env "keys_inv env" for env
proof unfold_locales
  show "keys_inv env (auth_init env)" by (simp add: keys_inv_def auth_init_def keys_ok_def pubkey_count_def)
next
  fix c c'
  assume "keys_inv env c" "core c' = core c" "accepted c' = accepted c" "ac_kbdintctxt c' = ac_kbdintctxt c"
    "ac_prev_userkeys c' = ac_prev_userkeys c"
  then show "keys_inv env c'" using core_fields [of c' c] by (simp add: keys_inv_def keys_ok_def pubkey_count_def)
qed (use keys_inv_request keys_inv_response in blast)+

subsection \<open>Success\<close>

text \<open>The lists of \<open>AuthenticationMethods\<close> that can be completed, as entries, and when one is.\<close>

definition enabled_lists :: "auth_env \<Rightarrow> string list list" where
  "enabled_lists env =
     map split_comma (filter (\<lambda>l. auth2_methods_valid env (auth_init env) l True) (auth_methods (ae_opts env)))"

definition auth_complete :: "auth_env \<Rightarrow> (string \<times> string option) list \<Rightarrow> bool" where
  "auth_complete env as \<longleftrightarrow>
     (if auth_methods (ae_opts env) = [] then as \<noteq> [] else list_ex (\<lambda>es. consume es as = []) (enabled_lists env))"

text \<open>What \<open>PermitRootLogin\<close> leaves to root.\<close>

definition root_rule :: "auth_env \<Rightarrow> Authctxt \<Rightarrow> bool" where
  "root_rule env c \<longleftrightarrow>
     (pw_uid (ac_pw c) = 0 \<and> permit_root_login (ae_opts env) = PERMIT_NO \<longrightarrow> accepted c = []) \<and>
     (pw_uid (ac_pw c) = 0 \<and> permit_root_login (ae_opts env) = PERMIT_NO_PASSWD \<longrightarrow>
        fst ` set (accepted c) \<subseteq> {''publickey'', ''hostbased'', ''gssapi-with-mic''})"

definition success_inv :: "auth_env \<Rightarrow> Authctxt \<Rightarrow> bool" where
  "success_inv env c \<longleftrightarrow>
     0 \<le> ac_attempt c \<and> kbd_ok env c \<and> root_rule env c \<and>
     (ac_attempt c = 0 \<longrightarrow> accepted c = [] \<and> \<not> ac_valid c \<and> \<not> ac_success c \<and> none_enabled c \<and> ac_kbdintctxt c = None) \<and>
     (accepted c \<noteq> [] \<longrightarrow> ac_valid c) \<and>
     (ac_valid c \<longrightarrow> ac_service c = ''ssh-connection'' \<and> getpwnamallow env (ac_user c) = Inr (Some (ac_pw c))) \<and>
     (ac_attempt c > 0 \<longrightarrow> (ac_success c \<longleftrightarrow> auth_complete env (accepted c)) \<and>
       (\<not> ac_success c \<and> auth_methods (ae_opts env) \<noteq> [] \<longrightarrow>
          ac_auth_methods c = map (\<lambda>es. join_comma (consume es (accepted c))) (enabled_lists env)))"

lemma auth2_methods_valid_none:
  "none_enabled c = none_enabled c' \<Longrightarrow> auth2_methods_valid env c l b = auth2_methods_valid env c' l b"
  by (simp add: auth2_methods_valid_def authmethods_def)

lemma enabled_lists_ok:
  assumes "es \<in> set (enabled_lists env)"
  shows "entries_ok es" and "es \<noteq> []"
proof -
  obtain l where l: "auth2_methods_valid env (auth_init env) l True" and es: "es = split_comma l"
    using assms by (auto simp: enabled_lists_def)
  have "e \<noteq> []" if "e \<in> set es" for e
  proof
    assume "e = []"
    with l that show False by (auto simp: es auth2_methods_valid_def list_all_iff authmethods_def)
  qed
  then show "entries_ok es" using split_comma_entries by (auto simp: entries_ok_def es)
  show "es \<noteq> []" by (simp add: es)
qed

lemma auth_setup_lists:
  assumes "auth_setup env usr style service c = (Inr (), c0)" and "none_enabled c" and "auth_methods (ae_opts env) \<noteq> []"
  shows "ac_auth_methods c0 = map join_comma (enabled_lists env)"
proof -
  obtain c1 where "(case auth2_setup_methods_lists env c1 of (ok, c) \<Rightarrow> if ok then (Inr (), c) else (Inl Disconnect, c)) = (Inr (), c0)"
    using assms(1) unfolding auth_setup_def auth_outcomes Let_def by blast
  then have "auth2_setup_methods_lists env c1 = (True, c0)"
    by (cases "auth2_setup_methods_lists env c1") (auto split: if_splits)
  moreover from this have "none_enabled c1 = none_enabled (auth_init env)"
    using auth_setup_frame(7) [OF assms(1)] assms(2)
    by (auto simp: auth2_setup_methods_lists_def auth_init_def Let_def split: if_splits)
  note auth2_methods_valid_none [OF this, of env]
  ultimately show ?thesis
    using assms(3) by (auto simp: auth2_setup_methods_lists_def enabled_lists_def Let_def join_split_comma map_idI)
qed

lemma request_start_lists:
  assumes "request_start env c c1" and "success_inv env c" and "\<not> ac_success c" and "auth_methods (ae_opts env) \<noteq> []"
  shows "ac_auth_methods c1 = map (\<lambda>es. join_comma (consume es (accepted c))) (enabled_lists env)"
proof (cases "ac_attempt c = 0")
  case True
  then obtain usr style service c0 where "auth_setup env usr style service (c\<lparr>ac_attempt := 1\<rparr>) = (Inr (), c0)"
    and "ac_auth_methods c1 = ac_auth_methods c0"
    using assms(1) by (auto simp: request_start_def auth2_challenge_stop_def)
  then show ?thesis using auth_setup_lists assms(2,4) True by (simp add: success_inv_def)
next
  case False
  then show ?thesis using request_start_frame(11) [OF assms(1) False] assms(2-4) by (simp add: success_inv_def)
qed

lemma not_complete_start:
  assumes "success_inv env c" and "\<not> ac_success c"
  shows "\<not> auth_complete env (accepted c)"
proof (cases "ac_attempt c = 0")
  case True
  then show ?thesis using assms(1) enabled_lists_ok(2)
    by (auto simp: success_inv_def auth_complete_def list_ex_iff)
next
  case False
  then show ?thesis using assms by (auto simp: success_inv_def)
qed

text \<open>The lists follow the accepted methods.\<close>

lemma userauth_finish_complete:
  assumes "userauth_finish env auth m sub c = (Inr (), c')" and "accepts env auth m c" and "\<not> ac_success c"
    and "\<not> auth_complete env (accepted c)"
    and "auth_methods (ae_opts env) \<noteq> [] \<longrightarrow> ac_auth_methods c = map (\<lambda>es. join_comma (consume es (accepted c))) (enabled_lists env)"
    and "CHR '','' \<notin> set m" and "\<And>s. sub = Some s \<Longrightarrow> CHR '','' \<notin> set s"
  shows "(ac_success c' \<longleftrightarrow> auth_complete env (accepted c')) \<and>
    (\<not> ac_success c' \<and> auth_methods (ae_opts env) \<noteq> [] \<longrightarrow>
      ac_auth_methods c' = map (\<lambda>es. join_comma (consume es (accepted c'))) (enabled_lists env))"
proof -
  have acc: "accepted c' = accepted c @ [(m, sub)]" using userauth_finish_frame(11) [OF assms(1)] assms(2) by simp
  from userauth_finish_accepts [OF assms(2,1)] show ?thesis
  proof cases
    case (1 fin found ls)
    have s: "ac_success c' = fin \<and> ac_auth_methods c' = ls"
    proof (cases fin)
      case True
      then show ?thesis using 1(4) by simp
    next
      case False
      from 1(5) [OF this] show ?thesis using False assms(3) by auto
    qed
    show ?thesis
    proof (cases "auth_methods (ae_opts env) = []")
      case True
      then show ?thesis using s 1(3) acc by (simp add: auth_complete_def)
    next
      case False
      let ?ess = "map (\<lambda>es. consume es (accepted c)) (enabled_lists env)"
      have u: "update_lists (map join_comma ?ess) m sub = (fin, found, ls)"
        using 1(3) False assms(5) by (simp add: comp_def)
      have c1: "consume es (accepted c @ [(m, sub)]) = consume (consume es (accepted c)) [(m, sub)]" for es
        by (cases "consume es (accepted c)") (simp_all add: consume_snoc)
      have ok: "\<forall>es\<in>set ?ess. entries_ok es \<and> es \<noteq> []"
        using assms(4) False by (auto simp: auth_complete_def list_ex_iff intro!: entries_ok_consume dest: enabled_lists_ok(1))
      note up = update_lists_consume [OF ok assms(6,7) u]
      have "fin \<longleftrightarrow> (\<exists>es\<in>set (enabled_lists env). consume es (accepted c') = [])"
        using conjunct1 [OF up] unfolding acc c1 by simp
      moreover have "\<not> fin \<longrightarrow> ls = map (\<lambda>es. join_comma (consume es (accepted c'))) (enabled_lists env)"
        using conjunct2 [OF up] unfolding acc c1 by (simp add: comp_def)
      ultimately show ?thesis using s False by (simp add: auth_complete_def list_ex_iff)
    qed
  qed
qed

lemma root_rule_step:
  assumes "userauth_finish env auth m sub c = (Inr (), c')" and "root_rule env c"
  shows "root_rule env c'"
  using assms(2) userauth_finish_frame(5,11) [OF assms(1)]
  by (auto simp: root_rule_def accepts_def auth_root_allowed_def split: if_splits)

lemma method_names_comma: "m \<in> set method_names \<Longrightarrow> CHR '','' \<notin> set m"
  by (auto simp: method_names_def)

text \<open>The invariant after \<open>userauth_finish\<close>, from what holds before it.\<close>

lemma success_inv_finish:
  assumes "userauth_finish env auth m sub c = (Inr (), c')" and "\<not> ac_success c" and "ac_attempt c > 0"
    and "\<not> auth_complete env (accepted c)" and "accepted c \<noteq> [] \<longrightarrow> ac_valid c"
    and "auth_methods (ae_opts env) \<noteq> [] \<longrightarrow> ac_auth_methods c = map (\<lambda>es. join_comma (consume es (accepted c))) (enabled_lists env)"
    and "auth \<Longrightarrow> CHR '','' \<notin> set m" and "\<And>s. sub = Some s \<Longrightarrow> CHR '','' \<notin> set s"
    and "kbd_ok env c" and "root_rule env c"
    and "ac_valid c \<longrightarrow> ac_service c = ''ssh-connection'' \<and> getpwnamallow env (ac_user c) = Inr (Some (ac_pw c))"
  shows "success_inv env c'"
proof -
  note uf = userauth_finish_frame [OF assms(1)]
  have k: "kbd_ok env c'" using assms(9) uf(6) by (simp add: kbd_ok_def)
  note r = root_rule_step [OF assms(1,10)]
  have v: "accepts env auth m c \<Longrightarrow> ac_valid c"
    using userauth_finish_accepts [OF _ assms(1)] by blast
  have "(ac_success c' \<longleftrightarrow> auth_complete env (accepted c')) \<and>
    (\<not> ac_success c' \<and> auth_methods (ae_opts env) \<noteq> [] \<longrightarrow>
      ac_auth_methods c' = map (\<lambda>es. join_comma (consume es (accepted c'))) (enabled_lists env))"
  proof (cases "accepts env auth m c")
    case True
    then have "auth" by (simp add: accepts_def)
    then show ?thesis using userauth_finish_complete [OF assms(1) True assms(2,4,6) assms(7,8)] by simp
  next
    case False
    then show ?thesis using uf(11,14) assms(2,4,6) by simp
  qed
  then show ?thesis using k r v assms(3,5,11) uf(1-5,11)
    by (auto simp: success_inv_def split: if_splits)
qed

lemma success_inv_request:
  assumes "success_inv env c" and "\<not> ac_success c" and "request_start env c c1"
    and "method_effect env c1 ok n c2" and "ok \<Longrightarrow> m \<in> set method_names"
    and "userauth_finish env ok m None c2 = (Inr (), c')"
  shows "success_inv env c'"
proof (rule success_inv_finish [OF assms(6)])
  note rs = request_start_frame [OF assms(3)] and me = method_effect_fields [OF assms(4)]
  note cf = core_fields [OF me(1)]
  have i0: "0 \<le> ac_attempt c" using assms(1) by (simp add: success_inv_def)
  show "\<not> ac_success c2" "ac_attempt c2 > 0" using cf(1,3) rs(3,6) assms(2) i0 by simp_all
  show "\<not> auth_complete env (accepted c2)" using not_complete_start [OF assms(1,2)] me(2) rs(1) by simp
  show "kbd_ok env c2" using me(4) rs(10) by (simp add: kbd_ok_def)
  show "auth_methods (ae_opts env) \<noteq> [] \<longrightarrow> ac_auth_methods c2 = map (\<lambda>es. join_comma (consume es (accepted c2))) (enabled_lists env)"
    using request_start_lists [OF assms(3,1,2)] cf(9) me(2) rs(1) by simp
  show "accepted c2 \<noteq> [] \<longrightarrow> ac_valid c2"
    using assms(1) me(2) rs(1,11) cf(2) by (cases "ac_attempt c = 0") (auto simp: success_inv_def)
  show "root_rule env c2"
    using assms(1) me(2) rs(1,11) cf(8) by (cases "ac_attempt c = 0") (auto simp: success_inv_def root_rule_def)
  show "ac_valid c2 \<longrightarrow> ac_service c2 = ''ssh-connection'' \<and> getpwnamallow env (ac_user c2) = Inr (Some (ac_pw c2))"
    using assms(1) rs(11,12) cf(2,6-8) by (cases "ac_attempt c = 0") (auto simp: success_inv_def)
  show "ok \<Longrightarrow> CHR '','' \<notin> set m" using assms(5) method_names_comma by blast
qed simp

lemma success_inv_response:
  assumes "success_inv env c" and "\<not> ac_success c" and "ac_kbdintctxt c = Some k" and "kb_device k = Some dev"
    and "kbdint_result env (k\<lparr>kb_ctxt := Some ctx\<rparr>) res
        (tell (RESPONSE_TRIED dev res) (c\<lparr>ac_postponed := False, ac_kbdintctxt := Some (k\<lparr>kb_ctxt := Some ctx\<rparr>)\<rparr>)) = (auth, c2)"
    and "userauth_finish env auth ''keyboard-interactive'' (Some dev) c2 = (Inr (), c')"
    and "list_all (\<lambda>d. CHR '','' \<notin> set d) (ae_devices env)"
  shows "success_inv env c'"
proof (rule success_inv_finish [OF assms(6)])
  have i: "ac_attempt c > 0" using assms(1,3) by (auto simp: success_inv_def)
  have kb: "kb_ok env (k\<lparr>kb_ctxt := Some ctx\<rparr>)" using assms(1,3) by (simp add: success_inv_def kbd_ok_def)
  note kr = kbdint_result_frame [OF assms(5)]
  note cf = core_fields [OF kr(1)]
  have acc: "accepted c2 = accepted c" using kr(2) by simp
  show "\<not> ac_success c2" "ac_attempt c2 > 0" using cf(1,3) i assms(2) by simp_all
  show "\<not> auth_complete env (accepted c2)" using not_complete_start [OF assms(1,2)] acc by simp
  show "kbd_ok env c2" using kbdint_result_kbd [OF assms(5) kb] kb by simp
  show "auth_methods (ae_opts env) \<noteq> [] \<longrightarrow> ac_auth_methods c2 = map (\<lambda>es. join_comma (consume es (accepted c2))) (enabled_lists env)"
    using assms(1,2) i cf(9) acc by (simp add: success_inv_def)
  show "accepted c2 \<noteq> [] \<longrightarrow> ac_valid c2" using assms(1) acc cf(2) by (simp add: success_inv_def)
  show "root_rule env c2" using assms(1) acc cf(8) by (simp add: success_inv_def root_rule_def)
  show "ac_valid c2 \<longrightarrow> ac_service c2 = ''ssh-connection'' \<and> getpwnamallow env (ac_user c2) = Inr (Some (ac_pw c2))"
    using assms(1) cf(2,6-8) by (simp add: success_inv_def)
  show "CHR '','' \<notin> set s" if "Some dev = Some s" for s
    using that kb assms(4,7) by (auto simp: kb_ok_def list_all_length)
qed simp

interpretation su: auth_invariant env "\<lambda>c. list_all (\<lambda>d. CHR '','' \<notin> set d) (ae_devices env) \<longrightarrow> success_inv env c" for env
proof unfold_locales
  have "\<not> auth_complete env []" using enabled_lists_ok(2) by (auto simp: auth_complete_def list_ex_iff)
  then show "list_all (\<lambda>d. CHR '','' \<notin> set d) (ae_devices env) \<longrightarrow> success_inv env (auth_init env)"
    by (simp add: success_inv_def auth_init_def kbd_ok_def root_rule_def)
next
  fix c c'
  assume i: "list_all (\<lambda>d. CHR '','' \<notin> set d) (ae_devices env) \<longrightarrow> success_inv env c"
    and e: "core c' = core c" "accepted c' = accepted c" "ac_kbdintctxt c' = ac_kbdintctxt c" "none_enabled c' = none_enabled c"
  show "list_all (\<lambda>d. CHR '','' \<notin> set d) (ae_devices env) \<longrightarrow> success_inv env c'"
    using i e core_fields [OF e(1)] by (simp add: success_inv_def kbd_ok_def root_rule_def)
qed (use success_inv_request success_inv_response in blast)+

section \<open>Properties\<close>


text \<open>
  C22. A client has few guesses. With at most one keyboard-interactive device, the passwords and answers
  the server refused are at most one more than the failures it counted, the one more being the empty
  password of a first \<open>none\<close> request, and the failures stay below \<open>MaxAuthTries\<close> for as long as the
  server goes on.
\<close>

theorem auth_guesses_bounded:
  assumes "length (ae_devices env) \<le> 1" and "max_authtries (ae_opts env) > 0" and "(auth_step env)\<^sup>*\<^sup>* (auth_init env) c"
  shows "int (refused c) \<le> ac_failures c + 1 \<and> ac_failures c < max_authtries (ae_opts env)"
  using gu.always [OF assms(3)] assms(1,2) by (simp add: guess_inv_def)

text \<open>
  C23. A list that asks for \<open>publickey\<close> several times asks for several keys: at every point of the dialogue
  the keys recorded as used are pairwise different, the user may use each of them, its type is accepted
  by \<open>PubkeyAcceptedKeyTypes\<close>, and there are at least as many as accepted \<open>publickey\<close> methods.
\<close>

theorem auth_keys_distinct:
  assumes "(auth_step env)\<^sup>*\<^sup>* (auth_init env) c"
  shows "distinct (map pk_public (ac_prev_userkeys c)) \<and>
    length (filter (\<lambda>a. fst a = ''publickey'') (accepted c)) \<le> length (ac_prev_userkeys c) \<and>
    (\<forall>k\<in>set (ac_prev_userkeys c). fst (ae_key_allowed env (ac_pw c) k True) \<and>
       match_pattern_list (sshkey_ssh_name_from_type_nid (pk_type k) (pk_nid k)) (pubkey_key_types (ae_opts env)) False = 1)"
  using ke.always [OF assms] by (auto simp: keys_inv_def keys_ok_def pubkey_count_def)

text \<open>A dialogue: the packets are handled until the client is in or the server gives up.\<close>

fun auth_run :: "auth_env \<Rightarrow> (byte \<times> bytes) list \<Rightarrow> Authctxt \<Rightarrow> Authctxt option" where
  "auth_run env [] c = Some c"
| "auth_run env ((ty, p) # ps) c =
     (if ac_success c then None
      else case auth_dispatch env ty p c of (Inl e, c') \<Rightarrow> None | (Inr u, c') \<Rightarrow> auth_run env ps c')"

lemma auth_run_steps: "auth_run env ps c = Some c' \<Longrightarrow> (auth_step env)\<^sup>*\<^sup>* c c'"
proof (induction ps arbitrary: c)
  case (Cons a ps)
  obtain ty p where a: "a = (ty, p)" by force
  obtain u c1 where d: "auth_dispatch env ty p c = (Inr u, c1)" and r: "auth_run env ps c1 = Some c'" and s: "\<not> ac_success c"
    using Cons.prems by (auto simp: a split: if_splits prod.splits sum.splits)
  have "auth_step env c c1" using auth_step.packet [OF s] d by simp
  then show ?case using Cons.IH [OF r] by (rule converse_rtranclp_into_rtranclp)
qed simp

text \<open>
  A server that asks for a key and a password. The key of a blob is the blob, its signature of anything
  is the key again, the password is \<open>pw\<close>.
\<close>

definition demo_opts :: ServerOptions where
  "demo_opts = \<lparr>auth_methods = [''publickey,password''], max_authtries = 3, permit_root_login = PERMIT_NO,
     pubkey_authentication = True, password_authentication = True, kbd_interactive_authentication = False,
     challenge_response_authentication = False, hostbased_authentication = False, permit_empty_passwd = False,
     pubkey_key_types = ''*'', hostbased_key_types = ''*'', banner = None, deny_users = [], allow_users = [],
     deny_groups = [], allow_groups = [], chroot_directory = None\<rparr>"

definition demo_pw :: passwd where
  "demo_pw = \<lparr>pw_name = ''u'', pw_uid = 1000, pw_gid = 100, pw_passwd = ''x'', pw_shell = ''/bin/sh''\<rparr>"

definition demo_auth :: auth_env where
  "demo_auth = \<lparr>ae_opts = demo_opts, ae_compat = \<lparr>compat20 = True, datafellows = 0\<rparr>,
     ae_getpwnam = (\<lambda>u. if u = ''u'' then Some demo_pw else None), ae_account_locked = (\<lambda>x. False),
     ae_shell_runs = (\<lambda>x. True), ae_groups = (\<lambda>x y. []), ae_hostname = ''h'', ae_ipaddr = ''10.0.0.1'',
     ae_getaddrinfo = (\<lambda>x. None), ae_fakepw = demo_pw\<lparr>pw_name := ''NOUSER'', pw_uid := - 1\<rparr>, ae_read_banner = (\<lambda>x. None),
     ae_sys_auth_passwd = (\<lambda>p w. w = bytes_of ''pw''), ae_devices = [''pam''], ae_init_ctx = (\<lambda>d c. None),
     ae_query = (\<lambda>d n. (None, n)), ae_respond = (\<lambda>d n rs. (2, n)),
     ae_key_from_blob = (\<lambda>b. Some \<lparr>pk_type = KEY_ED25519, pk_nid = NID_none, pk_public = b\<rparr>),
     ae_key_allowed = (\<lambda>pw k att. (True, False)), ae_key_verify = (\<lambda>k sig dat. sig = pk_public k), ae_session_id = [7],
     ae_host_allowed = (\<lambda>pw u h k. False)\<rparr>"

abbreviation demo_cs :: "string \<Rightarrow> bytes" where "demo_cs s \<equiv> put_cstring (bytes_of s)"

definition demo_blob :: bytes where "demo_blob = put_cstring [1, 2, 3]"

definition demo_request :: "string \<Rightarrow> bytes \<Rightarrow> byte \<times> bytes" where
  "demo_request m rest = (50, demo_cs ''u'' @ demo_cs ''ssh-connection'' @ demo_cs m @ rest)"

text \<open>The key with its signature, a wrong password, the password.\<close>

definition demo_dialogue :: "(byte \<times> bytes) list" where
  "demo_dialogue =
     [(5, demo_cs ''ssh-userauth''),
      demo_request ''publickey'' ([1] @ demo_cs ''ssh-ed25519'' @ demo_blob @ demo_blob),
      demo_request ''password'' ([0] @ demo_cs ''no''),
      demo_request ''password'' ([0] @ demo_cs ''pw'')]"

text \<open>The contexts after the key and after the wrong password.\<close>

definition demo_ctx :: "string list \<Rightarrow> int \<Rightarrow> auth_msg list \<Rightarrow> Authctxt" where
  "demo_ctx ms i log = (auth_init demo_auth)\<lparr>ac_valid := True, ac_attempt := i, ac_user := ''u'', ac_service := ''ssh-connection'',
     ac_pw := demo_pw, ac_auth_methods := ms, ac_failures := i - 1,
     ac_prev_userkeys := [\<lparr>pk_type = KEY_ED25519, pk_nid = NID_none, pk_public = [1, 2, 3]\<rparr>],
     disp_userauth := H_userauth_request, disp_info := H_null, ac_log := log\<rparr>"

definition demo_log1 :: "auth_msg list" where
  "demo_log1 = [SERVICE_ACCEPT ''ssh-userauth'', AUTH_LOG False True ''publickey'' None, USERAUTH_FAILURE ''password'' True]"

definition demo_log2 :: "auth_msg list" where
  "demo_log2 = demo_log1 @ [PASSWORD_TRIED False, AUTH_LOG False False ''password'' None, USERAUTH_FAILURE ''password'' False]"

definition demo_ctx0 :: Authctxt where
  "demo_ctx0 = (auth_init demo_auth)\<lparr>disp_userauth := H_userauth_request, ac_log := [SERVICE_ACCEPT ''ssh-userauth'']\<rparr>"

lemma demo_get_string:
  "length s \<le> 100 \<Longrightarrow> packet_get_string (put_cstring s @ rest) = Inr (s, rest)"
  "length s \<le> 100 \<Longrightarrow> packet_get_string (put_cstring s) = Inr (s, [])"
  using packet_get_string_put [of s rest] packet_get_string_put [of s "[]"] by (simp_all add: SSHBUF_SIZE_MAX_def)

lemma bytes_of_simps: "c_string (bytes_of s) = bytes_of s" "length (bytes_of s) = length s" if "CHR 0x00 \<notin> set s"
  using that bytes_of_no_nul [of s] by (simp_all add: c_string_clean bytes_of_def)

lemma demo_get_cstring:
  assumes "length s \<le> 100" and "CHR 0x00 \<notin> set s"
  shows "packet_get_cstring (demo_cs s @ rest) = Inr (s, rest)" and "packet_get_cstring (demo_cs s) = Inr (s, [])"
proof -
  have "0 \<notin> set (butlast (bytes_of s))" using bytes_of_no_nul [OF assms(2)] in_set_butlastD by fast
  then show "packet_get_cstring (demo_cs s @ rest) = Inr (s, rest)" and "packet_get_cstring (demo_cs s) = Inr (s, [])"
    using assms by (simp_all add: packet_get_cstring_def get_cstring_def demo_get_string bytes_of_simps)
qed

text \<open>A request of the demonstration, in its parts.\<close>

lemma demo_request_run:
  assumes "\<not> ac_success c" and "disp_userauth c = H_userauth_request" and "length m \<le> 100" and "CHR 0x00 \<notin> set m"
    and "(if ac_attempt c = 0 then auth_setup demo_auth ''u'' None ''ssh-connection'' (c\<lparr>ac_attempt := ac_attempt c + 1\<rparr>)
          else if ''u'' \<noteq> ac_user c \<or> ''ssh-connection'' \<noteq> ac_service c then (Inl Disconnect, c\<lparr>ac_attempt := ac_attempt c + 1\<rparr>)
          else (Inr (), c\<lparr>ac_attempt := ac_attempt c + 1\<rparr>)) = (Inr (), c0)"
    and "auth_request demo_auth m rest c0 = (Inr (), c')"
  shows "auth_run demo_auth [demo_request m rest] c = Some c'"
proof -
  have "input_userauth_request demo_auth (demo_cs ''u'' @ demo_cs ''ssh-connection'' @ demo_cs m @ rest) c = (Inr (), c')"
    using assms(3-6) unfolding input_userauth_request_def
    by (cases "ac_attempt c = 0") (auto simp: demo_get_cstring reading_def split: if_splits)
  then show ?thesis using assms(1,2)
    by (simp add: demo_request_def auth_dispatch_def run_auth_handler_def SSH2_MSG_SERVICE_REQUEST_def SSH2_MSG_USERAUTH_REQUEST_def)
qed

lemma demo_run0: "auth_run demo_auth [demo_dialogue ! 0] (auth_init demo_auth) = Some demo_ctx0"
  by code_simp

definition demo_key :: pkey where
  "demo_key = \<lparr>pk_type = KEY_ED25519, pk_nid = NID_none, pk_public = [1, 2, 3]\<rparr>"

text \<open>The context when the methods of the requests are called.\<close>

definition demo_ctx1 :: Authctxt where
  "demo_ctx1 = demo_ctx0\<lparr>ac_valid := True, ac_attempt := 1, ac_user := ''u'', ac_service := ''ssh-connection'',
     ac_pw := demo_pw, ac_auth_methods := [''publickey,password'']\<rparr>"

abbreviation demo_ready :: "Authctxt \<Rightarrow> Authctxt" where
  "demo_ready c \<equiv> (auth2_challenge_stop c)\<lparr>ac_postponed := False, ac_server_caused_failure := False\<rparr>"

lemma demo_setup: "auth_setup demo_auth ''u'' None ''ssh-connection'' (demo_ctx0\<lparr>ac_attempt := 1\<rparr>) = (Inr (), demo_ctx1)"
  by code_simp

lemma demo_lookup: "authmethod_lookup demo_auth (demo_ready demo_ctx1) ''publickey''"
  by code_simp

lemma demo_acceptable: "pubkey_acceptable demo_auth (demo_ready demo_ctx1) (bytes_of ''ssh-ed25519'') demo_key"
  by code_simp

lemma demo_pubkey:
  "userauth_pubkey demo_auth (1 # demo_cs ''ssh-ed25519'' @ put_cstring [1, 2, 3] @ put_cstring [1, 2, 3]) (demo_ready demo_ctx1) =
     (Inr True, (demo_ready demo_ctx1)\<lparr>ac_prev_userkeys := [demo_key]\<rparr>)"
proof -
  have t: "sshkey_type_from_name ''ssh-ed25519'' = KEY_ED25519" by code_simp
  have f: "ac_valid (demo_ready demo_ctx1)" "ac_prev_userkeys (demo_ready demo_ctx1) = []" "\<not> forced_command (demo_ready demo_ctx1)"
    by code_simp+
  have e: "datafellows (ae_compat demo_auth) = 0" "ae_key_from_blob demo_auth [1, 2, 3] = Some demo_key"
    "ae_key_allowed demo_auth pw k True = (True, False)" "ae_key_verify demo_auth k s d = (s = pk_public k)" for pw k s d
    by (simp_all add: demo_auth_def demo_key_def)
  have n: "c\<lparr>ac_prev_userkeys := ks, forced_command := False\<rparr> = c\<lparr>ac_prev_userkeys := ks\<rparr>" if "\<not> forced_command c" for c ks
    using that by (cases c) simp
  show ?thesis
    using f demo_acceptable n
    by (simp add: userauth_pubkey_def reading_def packet_get_char_def e t demo_get_string bytes_of_simps pubkey_check_def
        auth_eom_def demo_key_def del: One_nat_def)
qed

lemma demo_finish1:
  "userauth_finish demo_auth True ''publickey'' None ((demo_ready demo_ctx1)\<lparr>ac_prev_userkeys := [demo_key]\<rparr>) =
     (Inr (), demo_ctx [''password''] 1 demo_log1)"
  by code_simp

lemma demo_run1: "auth_run demo_auth [demo_dialogue ! 1] demo_ctx0 = Some (demo_ctx [''password''] 1 demo_log1)"
proof -
  have f: "ac_failures (demo_ready demo_ctx1) < max_authtries (ae_opts demo_auth)" "\<not> ac_success demo_ctx0"
    "disp_userauth demo_ctx0 = H_userauth_request" "ac_attempt demo_ctx0 = 0"
    by code_simp+
  have "auth_request demo_auth ''publickey'' (1 # demo_cs ''ssh-ed25519'' @ put_cstring [1, 2, 3] @ put_cstring [1, 2, 3]) demo_ctx1 =
      (Inr (), demo_ctx [''password''] 1 demo_log1)"
    using demo_lookup f(1) by (simp add: auth_request_def Let_def run_method_def demo_pubkey demo_finish1)
  then show ?thesis using f demo_setup
    by (simp add: demo_dialogue_def demo_request_run demo_blob_def)
qed

lemma demo_passwd:
  "run_method demo_auth ''password'' (0 # demo_cs ''no'') (demo_ready ((demo_ctx [''password''] 1 demo_log1)\<lparr>ac_attempt := 2\<rparr>)) =
     (Inr False, (demo_ctx [''password''] 1 (demo_log1 @ [PASSWORD_TRIED False]))\<lparr>ac_attempt := 2\<rparr>)"
  "run_method demo_auth ''password'' (0 # demo_cs ''pw'') (demo_ready ((demo_ctx [''password''] 2 demo_log2)\<lparr>ac_attempt := 3\<rparr>)) =
     (Inr True, (demo_ctx [''password''] 2 (demo_log2 @ [PASSWORD_TRIED True]))\<lparr>ac_attempt := 3\<rparr>)"
  by code_simp+

lemma demo_lookup2: "authmethod_lookup demo_auth (demo_ready ((demo_ctx [''password''] i l)\<lparr>ac_attempt := j\<rparr>)) ''password''"
proof -
  have "auth_methods (ae_opts demo_auth) \<noteq> []" "password_authentication (ae_opts demo_auth)"
    "list_starts_with ''password'' ''password'' None \<noteq> MATCH_NONE" by code_simp+
  then show ?thesis
    by (simp add: authmethod_lookup_def authmethods_def auth2_method_allowed_def auth2_challenge_stop_def demo_ctx_def)
qed

lemma demo_run2:
  "auth_run demo_auth [demo_dialogue ! 2] (demo_ctx [''password''] 1 demo_log1) = Some (demo_ctx [''password''] 2 demo_log2)"
proof -
  let ?c = "(demo_ctx [''password''] 1 demo_log1)\<lparr>ac_attempt := 2\<rparr>"
  have "userauth_finish demo_auth False ''password'' None
      ((demo_ctx [''password''] 1 (demo_log1 @ [PASSWORD_TRIED False]))\<lparr>ac_attempt := 2\<rparr>) = (Inr (), demo_ctx [''password''] 2 demo_log2)"
    by code_simp
  moreover have "ac_failures (demo_ready ?c) < max_authtries (ae_opts demo_auth)" by code_simp
  ultimately have a: "auth_request demo_auth ''password'' (0 # demo_cs ''no'') ?c = (Inr (), demo_ctx [''password''] 2 demo_log2)"
    using demo_lookup2 [where i = 1 and l = demo_log1 and j = 2] by (simp add: auth_request_def Let_def demo_passwd)
  have d: "demo_dialogue ! 2 = demo_request ''password'' (0 # demo_cs ''no'')" by (simp add: demo_dialogue_def)
  show ?thesis unfolding d
    by (rule demo_request_run) (use a in \<open>simp_all add: demo_ctx_def auth_init_def\<close>)
qed

lemma demo_run3:
  "auth_run demo_auth [demo_dialogue ! 3] (demo_ctx [''password''] 2 demo_log2) =
     Some (((demo_ctx [''password''] 2 (demo_log2 @ [PASSWORD_TRIED True, AUTH_LOG True False ''password'' None, USERAUTH_SUCCESS]))
       \<lparr>ac_attempt := 3, ac_auth_methods := [[]], ac_success := True, disp_userauth := H_protocol_ignore\<rparr>))" (is "_ = Some ?r")
proof -
  let ?c = "(demo_ctx [''password''] 2 demo_log2)\<lparr>ac_attempt := 3\<rparr>"
  have "userauth_finish demo_auth True ''password'' None
      ((demo_ctx [''password''] 2 (demo_log2 @ [PASSWORD_TRIED True]))\<lparr>ac_attempt := 3\<rparr>) = (Inr (), ?r)"
    by code_simp
  moreover have "ac_failures (demo_ready ?c) < max_authtries (ae_opts demo_auth)" by code_simp
  ultimately have a: "auth_request demo_auth ''password'' (0 # demo_cs ''pw'') ?c = (Inr (), ?r)"
    using demo_lookup2 [where i = 2 and l = demo_log2 and j = 3] by (simp add: auth_request_def Let_def demo_passwd)
  have d: "demo_dialogue ! 3 = demo_request ''password'' (0 # demo_cs ''pw'')" by (simp add: demo_dialogue_def)
  show ?thesis unfolding d
    by (rule demo_request_run) (use a in \<open>simp_all add: demo_ctx_def auth_init_def\<close>)
qed

lemma demo_reach:
  obtains c where "(auth_step demo_auth)\<^sup>*\<^sup>* (auth_init demo_auth) c" and "ac_success c"
    and "accepted c = [(''publickey'', None), (''password'', None)]" and "refused c = 1"
    and "map pk_public (ac_prev_userkeys c) = [[1, 2, 3]]"
proof
  show "(auth_step demo_auth)\<^sup>*\<^sup>* (auth_init demo_auth)
    ((demo_ctx [''password''] 2 (demo_log2 @ [PASSWORD_TRIED True, AUTH_LOG True False ''password'' None, USERAUTH_SUCCESS]))
       \<lparr>ac_attempt := 3, ac_auth_methods := [[]], ac_success := True, disp_userauth := H_protocol_ignore\<rparr>)"
    using auth_run_steps [OF demo_run0] auth_run_steps [OF demo_run1] auth_run_steps [OF demo_run2] auth_run_steps [OF demo_run3]
    by (meson rtranclp_trans)
qed (simp_all add: demo_ctx_def demo_log2_def demo_log1_def)

lemma demo_fields [simp]:
  "ae_devices demo_auth = [''pam'']" "max_authtries (ae_opts demo_auth) = 3"
  by (simp_all add: demo_auth_def demo_opts_def)


theorem auth_guesses_bounded_witness:
  "\<exists>c. (auth_step demo_auth)\<^sup>*\<^sup>* (auth_init demo_auth) c \<and> refused c = 1 \<and> 1 \<le> ac_failures c + 1 \<and> ac_failures c < 3"
proof -
  obtain c where c: "(auth_step demo_auth)\<^sup>*\<^sup>* (auth_init demo_auth) c" "refused c = 1" by (rule demo_reach)
  show ?thesis using auth_guesses_bounded [OF _ _ c(1)] c by auto
qed

theorem auth_keys_distinct_witness:
  "\<exists>c. (auth_step demo_auth)\<^sup>*\<^sup>* (auth_init demo_auth) c \<and> map pk_public (ac_prev_userkeys c) = [[1, 2, 3]] \<and>
     length (filter (\<lambda>a. fst a = ''publickey'') (accepted c)) = 1 \<and> 1 \<le> length (ac_prev_userkeys c)"
proof -
  obtain c where c: "(auth_step demo_auth)\<^sup>*\<^sup>* (auth_init demo_auth) c"
    "accepted c = [(''publickey'', None), (''password'', None)]" "map pk_public (ac_prev_userkeys c) = [[1, 2, 3]]" by (rule demo_reach)
  show ?thesis using auth_keys_distinct [OF c(1)] c by auto
qed

end
