(* ===== verification/Packet_Send.thy ===== *)
theory Packet_Send
  imports Packet_State
begin

text \<open>
  The sending side of the packet layer: composing a packet (\<open>sshpkt_*\<close>), compressing, padding,
  authenticating and encrypting it (\<open>ssh_packet_send2_wrapped\<close>, with the InterMAC branch), the
  queue that holds packets back while keys are exchanged (\<open>ssh_packet_send2\<close>) and the start of a
  key exchange, which enters that function again.
\<close>

section \<open>Composing a packet\<close>

definition outgoing_op ::
  "(sshbuf \<Rightarrow> (ssherr, sshbuf, 'a) outcome) \<Rightarrow> ('e, 'i, 'd, 'u, 'z) ssh \<Rightarrow> ('e, 'i, 'd, 'u, 'z, 'a) pkt_result" where
  "outgoing_op f s = zoom outgoing_packet outgoing_packet_update f s"

definition output_op ::
  "(sshbuf \<Rightarrow> (ssherr, sshbuf, 'a) outcome) \<Rightarrow> ('e, 'i, 'd, 'u, 'z) ssh \<Rightarrow> ('e, 'i, 'd, 'u, 'z, 'a) pkt_result" where
  "output_op f s = zoom output_buf output_buf_update f s"

definition sshpkt_put where
  "sshpkt_put env v = outgoing_op (\<lambda>b. sshbuf_put (e_alloc env) b v)"

definition sshpkt_putb where
  "sshpkt_putb env v = outgoing_op (\<lambda>b. sshbuf_putb (e_alloc env) b v)"

definition sshpkt_put_u8 where
  "sshpkt_put_u8 env v = outgoing_op (\<lambda>b. sshbuf_put_u8 (e_alloc env) b v)"

definition sshpkt_put_u32 where
  "sshpkt_put_u32 env v = outgoing_op (\<lambda>b. sshbuf_put_u32 (e_alloc env) b v)"

definition sshpkt_put_u64 where
  "sshpkt_put_u64 env v = outgoing_op (\<lambda>b. sshbuf_put_u64 (e_alloc env) b v)"

definition sshpkt_put_string where
  "sshpkt_put_string env v = outgoing_op (\<lambda>b. sshbuf_put_string (e_alloc env) b v)"

definition sshpkt_put_cstring where
  "sshpkt_put_cstring env v = outgoing_op (\<lambda>b. sshbuf_put_cstring (e_alloc env) b v)"

definition sshpkt_put_stringb where
  "sshpkt_put_stringb env v = outgoing_op (\<lambda>b. sshbuf_put_stringb (e_alloc env) b v)"

definition sshpkt_start ::
  "('e, 'i, 'd, 'u, 'z) pkt_env \<Rightarrow> byte \<Rightarrow> ('e, 'i, 'd, 'u, 'z) ssh \<Rightarrow> ('e, 'i, 'd, 'u, 'z, unit) pkt_result" where
  "sshpkt_start env ty =
     outgoing_op (\<lambda>b. sshbuf_put (e_alloc env) (sshbuf_reset (e_alloc env) b) [0, 0, 0, 0, 0, ty])"

section \<open>Capture counters\<close>

definition ssh_packet_log_type :: "byte \<Rightarrow> bool" where
  "ssh_packet_log_type ty \<longleftrightarrow>
     \<not> (ty = SSH2_MSG_CHANNEL_EXTENDED_DATA \<or> ty = SSH2_MSG_CHANNEL_WINDOW_ADJUST)"

definition record_bytes_sent ::
  "byte \<Rightarrow> nat \<Rightarrow> bool \<Rightarrow> ('e, 'i, 'd, 'u, 'z) ssh \<Rightarrow> ('e, 'i, 'd, 'u, 'z) ssh" where
  "record_bytes_sent ty n raw s =
     (let s = (if ty = SSH2_MSG_CHANNEL_REQUEST
               then s\<lparr>channel_data_started := False, sent_raw := 0, sent_encrypted := 0, eof_seen := False\<rparr>
               else s);
          s = (if ty = SSH2_MSG_CHANNEL_DATA
               then (if raw then s\<lparr>channel_data_started := True, sent_raw := szadd (sent_raw s) n\<rparr>
                     else s\<lparr>channel_data_started := True, sent_encrypted := szadd (sent_encrypted s) n\<rparr>)
               else s)
      in if ty = SSH2_MSG_CHANNEL_EOF \<and> channel_data_started s \<and> \<not> eof_seen s
         then s\<lparr>eof_seen := True\<rparr> else s)"

definition record_bytes_receive ::
  "byte \<Rightarrow> nat \<Rightarrow> bool \<Rightarrow> ('e, 'i, 'd, 'u, 'z) ssh \<Rightarrow> ('e, 'i, 'd, 'u, 'z) ssh" where
  "record_bytes_receive ty n raw s =
     (let s = (if ty = SSH2_MSG_CHANNEL_SUCCESS \<and> channel_data_started s
               then s\<lparr>channel_data_started := False, receive_raw := 0, receive_encrypted := 0,
                      eof_seen := False\<rparr>
               else s);
          s = (if ty = SSH2_MSG_CHANNEL_DATA
               then (if raw then s\<lparr>channel_data_started := True, receive_raw := szadd (receive_raw s) n\<rparr>
                     else s\<lparr>channel_data_started := True,
                            receive_encrypted := szadd (receive_encrypted s) n\<rparr>)
               else s)
      in if ty = SSH2_MSG_CHANNEL_REQUEST \<and> channel_data_started s \<and> \<not> eof_seen s
         then s\<lparr>eof_seen := True\<rparr> else s)"

section \<open>Sealing a packet\<close>

definition keys_enc :: "kex_mode \<Rightarrow> ('e, 'i, 'd, 'u, 'z) ssh \<Rightarrow> sshenc option" where
  "keys_enc mode s = map_option nk_enc (newkeys s mode)"

definition keys_authlen :: "kex_mode \<Rightarrow> ('e, 'i, 'd, 'u, 'z) ssh \<Rightarrow> nat" where
  "keys_authlen mode s =
     (case keys_enc mode s of None \<Rightarrow> 0 | Some enc \<Rightarrow> cipher_authlen (the (enc_cipher enc)))"

text \<open>The MAC, which is disabled for authenticated encryption.\<close>

definition keys_mac :: "kex_mode \<Rightarrow> ('e, 'i, 'd, 'u, 'z) ssh \<Rightarrow> ('d, 'u) sshmac option" where
  "keys_mac mode s = (if keys_authlen mode s \<noteq> 0 then None else map_option nk_mac (newkeys s mode))"

definition keys_comp :: "kex_mode \<Rightarrow> ('e, 'i, 'd, 'u, 'z) ssh \<Rightarrow> sshcomp option" where
  "keys_comp mode s = map_option nk_comp (newkeys s mode)"

definition keys_block_size :: "kex_mode \<Rightarrow> ('e, 'i, 'd, 'u, 'z) ssh \<Rightarrow> nat" where
  "keys_block_size mode s = (case keys_enc mode s of None \<Rightarrow> 8 | Some enc \<Rightarrow> enc_block_size enc)"

definition mac_on :: "('d, 'u) sshmac option \<Rightarrow> bool" where
  "mac_on mac \<longleftrightarrow> (case mac of None \<Rightarrow> False | Some m \<Rightarrow> mac_enabled m)"

definition mac_etm_on :: "('d, 'u) sshmac option \<Rightarrow> bool" where
  "mac_etm_on mac \<longleftrightarrow> mac_on mac \<and> mac_etm (the mac)"

definition keys_aadlen :: "kex_mode \<Rightarrow> ('e, 'i, 'd, 'u, 'z) ssh \<Rightarrow> nat" where
  "keys_aadlen mode s = (if mac_etm_on (keys_mac mode s) \<or> keys_authlen mode s \<noteq> 0 then 4 else 0)"

definition comp_on :: "sshcomp option \<Rightarrow> bool" where
  "comp_on c \<longleftrightarrow> (case c of None \<Rightarrow> False | Some c \<Rightarrow> comp_enabled c)"

definition set_mac :: "kex_mode \<Rightarrow> ('d, 'u) sshmac \<Rightarrow> ('e, 'i, 'd, 'u, 'z) ssh \<Rightarrow> ('e, 'i, 'd, 'u, 'z) ssh" where
  "set_mac mode m s = set_newkey mode (map_option (\<lambda>nk. nk\<lparr>nk_mac := m\<rparr>) (newkeys s mode)) s"

text \<open>The computation of the padding length in \<open>u_char\<close>s, with the new value of \<open>extra_pad\<close>.\<close>

definition pad_min :: "nat \<Rightarrow> nat \<Rightarrow> byte" where
  "pad_min block_size len =
     (let p = of_nat (block_size - len mod block_size) in if p < 4 then p + of_nat block_size else p)"

definition pad_calc :: "nat \<Rightarrow> nat \<Rightarrow> byte \<Rightarrow> (ssherr, byte, byte) outcome" where
  "pad_calc block_size len ep =
     (let padlen = pad_min block_size len
      in if ep = 0 then (Inr padlen, ep)
         else let ep' = of_nat (ROUNDUP (unat ep) block_size) :: byte in
           if ep' < ep then (Inl SSH_ERR_INVALID_ARGUMENT, ep')
           else let tmp = of_nat ((len + unat padlen) mod unat ep') :: byte in
             if tmp > ep' then (Inl SSH_ERR_INVALID_ARGUMENT, ep')
             else let pad = ep' - tmp; padlen' = padlen + pad in
               if padlen' < padlen then (Inl SSH_ERR_INVALID_ARGUMENT, ep')
               else (Inr padlen', 0))"

definition arc4random_buf :: "('e, 'i, 'd, 'u, 'z) pkt_env \<Rightarrow> ('e, 'i, 'd, 'u, 'z) ssh \<Rightarrow> nat \<Rightarrow> bytes" where
  "arc4random_buf env s n = map (arc4random_byte env (rng s)) [0..<n]"

text \<open>Random padding for an encrypted packet, zeros otherwise, and the new count of random calls.\<close>

definition padding :: "('e, 'i, 'd, 'u, 'z) pkt_env \<Rightarrow> ('e, 'i, 'd, 'u, 'z) ssh \<Rightarrow> nat \<Rightarrow> bytes \<times> nat" where
  "padding env s n =
     (if newkeys s MODE_OUT \<noteq> None \<and> \<not> cipher_ctx_is_plaintext (the (send_context s))
      then (arc4random_buf env s n, rng s + 1) else (replicate n 0, rng s))"

definition send2_compress ::
  "('e, 'i, 'd, 'u, 'z) pkt_env \<Rightarrow> ('e, 'i, 'd, 'u, 'z) ssh \<Rightarrow> ('e, 'i, 'd, 'u, 'z, unit) pkt_result" where
  "send2_compress env s =
     rbind (outgoing_op (\<lambda>b. sshbuf_consume b 5) s) (\<lambda>_ s.
     rbind (compress_buffer env
              (s\<lparr>compression_buffer := map_option (sshbuf_reset (e_alloc env)) (compression_buffer s)\<rparr>)
              (outgoing_packet s)) (\<lambda>_ s.
     rbind (outgoing_op (\<lambda>b. sshbuf_put (e_alloc env) (sshbuf_reset (e_alloc env) b) [0, 0, 0, 0, 0]) s) (\<lambda>_ s.
     sshpkt_putb env (the (compression_buffer s)) s)))"

text \<open>
  The InterMAC branch. When \<open>im_encrypt\<close> fails the function jumps to its exit with the 0 that the
  preceding \<open>sshbuf_consume\<close> returned: \<open>None\<close>. Otherwise the result is the length of the ciphertext.
\<close>

definition send2_intermac ::
  "('e, 'i, 'd, 'u, 'z) pkt_env \<Rightarrow> ('e, 'i, 'd, 'u, 'z) ssh \<Rightarrow> ('e, 'i, 'd, 'u, 'z, nat option) pkt_result" where
  "send2_intermac env s =
     (let cc = the (send_context s) in
      rbind (outgoing_op (\<lambda>b. sshbuf_consume b 5) s) (\<lambda>_ s.
      case im_encrypt (e_crypto env) (the (cipher_get_intermac_context cc)) (buf_bytes (outgoing_packet s)) of
        None \<Rightarrow> (Inr None, s)
      | Some (im_ct, im) \<Rightarrow>
          rbind (output_op (\<lambda>b. sshbuf_put (e_alloc env) b im_ct)
                   (s\<lparr>send_context := Some (cc\<lparr>cc_im := Some im\<rparr>)\<rparr>)) (\<lambda>_ s.
          (Inr (Some (length im_ct)), s))))"

definition send2_pad ::
  "('e, 'i, 'd, 'u, 'z) pkt_env \<Rightarrow> nat \<Rightarrow> nat \<Rightarrow> ('e, 'i, 'd, 'u, 'z) ssh \<Rightarrow> ('e, 'i, 'd, 'u, 'z, unit) pkt_result" where
  "send2_pad env block_size aadlen s =
     rbind (zoom extra_pad extra_pad_update
              (pad_calc block_size (sshbuf_len (outgoing_packet s) - aadlen)) s) (\<lambda>padlen s.
     rbind (outgoing_op (\<lambda>b. sshbuf_reserve (e_alloc env) b (unat padlen)) s) (\<lambda>cp s.
     case padding env s (unat padlen) of
       (pad, r) \<Rightarrow>
         let s = s\<lparr>outgoing_packet := sshbuf_poke (outgoing_packet s) cp pad, rng := r\<rparr>;
             len = sshbuf_len (outgoing_packet s)
         in case sshbuf_mutable_ptr (outgoing_packet s) of
              None \<Rightarrow> (Inl SSH_ERR_INTERNAL_ERROR, s)
            | Some _ \<Rightarrow>
                (Inr (), s\<lparr>outgoing_packet := sshbuf_poke (outgoing_packet s) (buf_off (outgoing_packet s))
                            (POKE_U32 (of_nat (len - 4)) @ [padlen])\<rparr>)))"

definition mac_op ::
  "kex_mode \<Rightarrow> (('d, 'u) sshmac \<Rightarrow> (ssherr, ('d, 'u) sshmac, 'a) outcome) \<Rightarrow> ('e, 'i, 'd, 'u, 'z) ssh \<Rightarrow>
     ('e, 'i, 'd, 'u, 'z, 'a) pkt_result" where
  "mac_op mode f s = (case f (the (keys_mac mode s)) of (r, m) \<Rightarrow> (r, set_mac mode m s))"

text \<open>
  MAC, encryption and output. A region that \<open>sshbuf_reserve\<close> added keeps its old contents when
  the encryption fails. The result is the length of the packet.
\<close>

definition send2_seal ::
  "('e, 'i, 'd, 'u, 'z) pkt_env \<Rightarrow> nat \<Rightarrow> nat \<Rightarrow> ('e, 'i, 'd, 'u, 'z) ssh \<Rightarrow> ('e, 'i, 'd, 'u, 'z, nat) pkt_result" where
  "send2_seal env authlen aadlen s =
     (let len = sshbuf_len (outgoing_packet s);
          compute = (\<lambda>d m. mac_compute (e_md env) (e_umac env) (e_um env) m (ps_seqnr (p_send s)) d
                             SSH_DIGEST_MAX_LENGTH)
      in rbind (if mac_on (keys_mac MODE_OUT s) \<and> \<not> mac_etm_on (keys_mac MODE_OUT s)
                then mac_op MODE_OUT (compute (buf_bytes (outgoing_packet s))) s
                else (Inr [], s)) (\<lambda>macbuf s.
         rbind (output_op (\<lambda>b. sshbuf_reserve (e_alloc env) b (len + authlen)) s) (\<lambda>cp s.
         case cipher_crypt (e_crypto env) (the (send_context s)) (ps_seqnr (p_send s))
                (buf_bytes (outgoing_packet s)) (len - aadlen) aadlen authlen of
           (Inl r, cc) \<Rightarrow> (Inl r, s\<lparr>send_context := Some cc\<rparr>)
         | (Inr dest, cc) \<Rightarrow>
             let s = s\<lparr>send_context := Some cc, output_buf := sshbuf_poke (output_buf s) cp dest\<rparr> in
             if mac_on (keys_mac MODE_OUT s)
             then rbind (if mac_etm_on (keys_mac MODE_OUT s)
                         then mac_op MODE_OUT (compute (take len dest)) s
                         else (Inr macbuf, s)) (\<lambda>macbuf s.
                  rbind (output_op (\<lambda>b. sshbuf_put (e_alloc env) b
                           (take (mac_len (the (keys_mac MODE_OUT s))) macbuf)) s) (\<lambda>_ s.
                  (Inr len, s)))
             else (Inr len, s))))"

definition count_packet :: "nat \<Rightarrow> nat \<Rightarrow> packet_state \<Rightarrow> packet_state" where
  "count_packet len block_size ps =
     ps\<lparr>ps_blocks := ps_blocks ps + of_nat (len div block_size), ps_bytes := ps_bytes ps + of_nat len\<rparr>"

definition next_seqnr :: "packet_state \<Rightarrow> packet_state" where
  "next_seqnr ps = ps\<lparr>ps_seqnr := ps_seqnr ps + 1, ps_packets := ps_packets ps + 1\<rparr>"

text \<open>What follows when the packet is in the output buffer.\<close>

definition send2_finish ::
  "('e, 'i, 'd, 'u, 'z) pkt_env \<Rightarrow> nat \<Rightarrow> byte \<Rightarrow> nat \<Rightarrow> ('e, 'i, 'd, 'u, 'z) ssh \<Rightarrow>
     ('e, 'i, 'd, 'u, 'z, unit) pkt_result" where
  "send2_finish env block_size ty len s =
     (let s = s\<lparr>p_send := next_seqnr (p_send s)\<rparr> in
      if ps_packets (p_send s) = 0 \<and> ssh_compat s AND SSH_BUG_NOREKEY = 0
      then (Inl SSH_ERR_NEED_REKEY, s)
      else let s = s\<lparr>p_send := count_packet len block_size (p_send s),
                     outgoing_packet := sshbuf_reset (e_alloc env) (outgoing_packet s)\<rparr>;
               s = (if server_side s then s
                    else record_bytes_sent ty (sshbuf_len (output_buf s)) False s)
           in if ty = SSH2_MSG_NEWKEYS then ssh_set_newkeys env s MODE_OUT
              else if ty = SSH2_MSG_USERAUTH_SUCCESS \<and> server_side s
              then ssh_packet_enable_delayed_compress env s
              else (Inr (), s))"

definition packet_type :: "sshbuf \<Rightarrow> byte" where
  "packet_type b = blk (sshbuf_ptr b) ! 5"

definition ssh_packet_send2_wrapped ::
  "('e, 'i, 'd, 'u, 'z) pkt_env \<Rightarrow> ('e, 'i, 'd, 'u, 'z) ssh \<Rightarrow> ('e, 'i, 'd, 'u, 'z, unit) pkt_result" where
  "ssh_packet_send2_wrapped env s =
     (let authlen = keys_authlen MODE_OUT s; block_size = keys_block_size MODE_OUT s;
          aadlen = keys_aadlen MODE_OUT s; ty = packet_type (outgoing_packet s);
          im_is_intermac = cipher_is_intermac (the (send_context s));
          s = (if server_side s then s
               else record_bytes_sent ty (szsub (sshbuf_len (outgoing_packet s)) 6) True s)
      in rbind (if comp_on (keys_comp MODE_OUT s) then send2_compress env s else (Inr (), s)) (\<lambda>_ s.
         if im_is_intermac
         then rbind (send2_intermac env s) (\<lambda>sent s.
                case sent of None \<Rightarrow> (Inr (), s)
                           | Some len \<Rightarrow> send2_finish env block_size ty len s)
         else rbind (send2_pad env block_size aadlen s) (\<lambda>_ s.
              rbind (send2_seal env authlen aadlen s) (\<lambda>len s.
              send2_finish env block_size ty len s))))"

section \<open>The queue\<close>

definition ssh_packet_type_is_kex :: "byte \<Rightarrow> bool" where
  "ssh_packet_type_is_kex ty \<longleftrightarrow>
     ty \<ge> SSH2_MSG_TRANSPORT_MIN \<and> ty \<le> SSH2_MSG_TRANSPORT_MAX \<and> ty \<noteq> SSH2_MSG_SERVICE_REQUEST \<and>
     ty \<noteq> SSH2_MSG_SERVICE_ACCEPT \<and> ty \<noteq> SSH2_MSG_EXT_INFO"

definition sizeof_packet :: nat where "sizeof_packet = 32"

text \<open>
  \<open>rekex\<close> stands for \<open>kex_start_rekex\<close>. The loop of the flush takes the packets from the head of the
  queue, which nothing else changes meanwhile.
\<close>

primrec flush_outgoing ::
  "('e, 'i, 'd, 'u, 'z) pkt_env \<Rightarrow> (('e, 'i, 'd, 'u, 'z) ssh \<Rightarrow> ('e, 'i, 'd, 'u, 'z, unit) pkt_result) \<Rightarrow>
     (byte \<times> sshbuf) list \<Rightarrow> ('e, 'i, 'd, 'u, 'z) ssh \<Rightarrow> ('e, 'i, 'd, 'u, 'z, unit) pkt_result" where
  "flush_outgoing env rekex [] s = (Inr (), s)"
| "flush_outgoing env rekex (p # ps) s =
     (if ssh_packet_need_rekeying env s (sshbuf_len (snd p)) then rekex s
      else rbind (ssh_packet_send2_wrapped env (s\<lparr>outgoing_packet := snd p, outgoing := ps\<rparr>)) (\<lambda>_ s.
           flush_outgoing env rekex ps s))"

definition send2_enqueue ::
  "('e, 'i, 'd, 'u, 'z) pkt_env \<Rightarrow> byte \<Rightarrow> ('e, 'i, 'd, 'u, 'z) ssh \<Rightarrow> ('e, 'i, 'd, 'u, 'z, unit) pkt_result" where
  "send2_enqueue env ty s =
     (if \<not> malloc_ok (e_alloc env) sizeof_packet then (Inl SSH_ERR_ALLOC_FAIL, s)
      else let s = s\<lparr>outgoing := outgoing s @ [(ty, outgoing_packet s)]\<rparr> in
        (case sshbuf_new (e_alloc env) of
           None \<Rightarrow> (Inl SSH_ERR_ALLOC_FAIL, s)
         | Some b \<Rightarrow> (Inr (), s\<lparr>outgoing_packet := b\<rparr>)))"

definition send2_with ::
  "('e, 'i, 'd, 'u, 'z) pkt_env \<Rightarrow> (('e, 'i, 'd, 'u, 'z) ssh \<Rightarrow> ('e, 'i, 'd, 'u, 'z, unit) pkt_result) \<Rightarrow>
     ('e, 'i, 'd, 'u, 'z) ssh \<Rightarrow> ('e, 'i, 'd, 'u, 'z, unit) pkt_result" where
  "send2_with env rekex s =
     (if sshbuf_len (outgoing_packet s) < 6 then (Inl SSH_ERR_INTERNAL_ERROR, s)
      else let ty = packet_type (outgoing_packet s);
               need_rekey = \<not> ssh_packet_type_is_kex ty \<and>
                 ssh_packet_need_rekeying env s (sshbuf_len (outgoing_packet s))
        in if (need_rekey \<or> rekeying s) \<and> \<not> ssh_packet_type_is_kex ty
           then rbind (send2_enqueue env ty s) (\<lambda>_ s. if need_rekey then rekex s else (Inr (), s))
           else let s = (if ty = SSH2_MSG_KEXINIT then s\<lparr>rekeying := True\<rparr> else s) in
             rbind (ssh_packet_send2_wrapped env s) (\<lambda>_ s.
             if ty = SSH2_MSG_NEWKEYS
             then let s = s\<lparr>rekeying := False, rekey_time := monotime env\<rparr>
                  in flush_outgoing env rekex (outgoing s) s
             else (Inr (), s)))"

definition ssh_packet_send_mux ::
  "('e, 'i, 'd, 'u, 'z) pkt_env \<Rightarrow> ('e, 'i, 'd, 'u, 'z) ssh \<Rightarrow> ('e, 'i, 'd, 'u, 'z, unit) pkt_result" where
  "ssh_packet_send_mux env s =
     (if ssh_kex s \<noteq> None then (Inl SSH_ERR_INTERNAL_ERROR, s)
      else let len = sshbuf_len (outgoing_packet s) in
        if len < 6 then (Inl SSH_ERR_INTERNAL_ERROR, s)
        else let ty = blk (sshbuf_mutable_ptr (outgoing_packet s)) ! 5 in
          rbind (if ty \<ge> SSH2_MSG_CONNECTION_MIN \<and> ty \<le> SSH2_MSG_CONNECTION_MAX
                 then (let b = sshbuf_poke (outgoing_packet s) (buf_off (outgoing_packet s))
                                 (POKE_U32 (of_nat (len - 4)))
                       in output_op (\<lambda>out. sshbuf_putb (e_alloc env) out b) (s\<lparr>outgoing_packet := b\<rparr>))
                 else (Inr (), s)) (\<lambda>_ s.
          (Inr (), s\<lparr>outgoing_packet := sshbuf_reset (e_alloc env) (outgoing_packet s)\<rparr>)))"

definition sshpkt_send_with where
  "sshpkt_send_with env send2 s = (if mux s then ssh_packet_send_mux env s else send2 s)"

section \<open>Starting a key exchange\<close>

definition kex_send_kexinit_with ::
  "('e, 'i, 'd, 'u, 'z) pkt_env \<Rightarrow> (('e, 'i, 'd, 'u, 'z) ssh \<Rightarrow> ('e, 'i, 'd, 'u, 'z, unit) pkt_result) \<Rightarrow>
     ('e, 'i, 'd, 'u, 'z) ssh \<Rightarrow> ('e, 'i, 'd, 'u, 'z, unit) pkt_result" where
  "kex_send_kexinit_with env send s =
     (case ssh_kex s of
        None \<Rightarrow> (Inl SSH_ERR_INTERNAL_ERROR, s)
      | Some k \<Rightarrow>
          if kex_flags k AND KEX_INIT_SENT \<noteq> 0 then (Inr (), s)
          else let s = s\<lparr>ssh_kex := Some (k\<lparr>kex_done := False\<rparr>)\<rparr> in
            if sshbuf_len (kex_my k) < KEX_COOKIE_LEN then (Inl SSH_ERR_INVALID_FORMAT, s)
            else if sshbuf_mutable_ptr (kex_my k) = None then (Inl SSH_ERR_INTERNAL_ERROR, s)
            else let my = sshbuf_poke (kex_my k) (buf_off (kex_my k)) (arc4random_buf env s KEX_COOKIE_LEN);
                     s = s\<lparr>ssh_kex := Some (k\<lparr>kex_done := False, kex_my := my\<rparr>), rng := rng s + 1\<rparr> in
              rbind (sshpkt_start env SSH2_MSG_KEXINIT s) (\<lambda>_ s.
              rbind (sshpkt_putb env my s) (\<lambda>_ s.
              rbind (send s) (\<lambda>_ s.
              (Inr (), s\<lparr>ssh_kex := map_option (\<lambda>k. k\<lparr>kex_flags := kex_flags k OR KEX_INIT_SENT\<rparr>)
                          (ssh_kex s)\<rparr>)))))"

definition kex_start_rekex_with ::
  "('e, 'i, 'd, 'u, 'z) pkt_env \<Rightarrow> (('e, 'i, 'd, 'u, 'z) ssh \<Rightarrow> ('e, 'i, 'd, 'u, 'z, unit) pkt_result) \<Rightarrow>
     ('e, 'i, 'd, 'u, 'z) ssh \<Rightarrow> ('e, 'i, 'd, 'u, 'z, unit) pkt_result" where
  "kex_start_rekex_with env send s =
     (case ssh_kex s of
        None \<Rightarrow> (Inl SSH_ERR_INTERNAL_ERROR, s)
      | Some k \<Rightarrow>
          if \<not> kex_done k then (Inl SSH_ERR_INTERNAL_ERROR, s)
          else kex_send_kexinit_with env send (s\<lparr>ssh_kex := Some (k\<lparr>kex_done := False\<rparr>)\<rparr>))"

text \<open>
  \<open>ssh_packet_send2\<close> and \<open>kex_start_rekex\<close> call each other. The inner call sends the \<open>KEXINIT\<close>
  packet, for which \<open>ssh_packet_send2\<close> never starts another exchange, so the calls nest once.
\<close>

definition kex_start_rekex ::
  "('e, 'i, 'd, 'u, 'z) pkt_env \<Rightarrow> ('e, 'i, 'd, 'u, 'z) ssh \<Rightarrow> ('e, 'i, 'd, 'u, 'z, unit) pkt_result" where
  "kex_start_rekex env =
     kex_start_rekex_with env (sshpkt_send_with env (send2_with env (\<lambda>s. (Inl SSH_ERR_INTERNAL_ERROR, s))))"

definition ssh_packet_send2 ::
  "('e, 'i, 'd, 'u, 'z) pkt_env \<Rightarrow> ('e, 'i, 'd, 'u, 'z) ssh \<Rightarrow> ('e, 'i, 'd, 'u, 'z, unit) pkt_result" where
  "ssh_packet_send2 env = send2_with env (kex_start_rekex env)"

definition sshpkt_send ::
  "('e, 'i, 'd, 'u, 'z) pkt_env \<Rightarrow> ('e, 'i, 'd, 'u, 'z) ssh \<Rightarrow> ('e, 'i, 'd, 'u, 'z, unit) pkt_result" where
  "sshpkt_send env = sshpkt_send_with env (ssh_packet_send2 env)"

definition kex_send_kexinit ::
  "('e, 'i, 'd, 'u, 'z) pkt_env \<Rightarrow> ('e, 'i, 'd, 'u, 'z) ssh \<Rightarrow> ('e, 'i, 'd, 'u, 'z, unit) pkt_result" where
  "kex_send_kexinit env = kex_send_kexinit_with env (sshpkt_send env)"

definition sshpkt_disconnect ::
  "('e, 'i, 'd, 'u, 'z) pkt_env \<Rightarrow> string \<Rightarrow> ('e, 'i, 'd, 'u, 'z) ssh \<Rightarrow> ('e, 'i, 'd, 'u, 'z, unit) pkt_result" where
  "sshpkt_disconnect env msg s =
     rbind (sshpkt_start env SSH2_MSG_DISCONNECT s) (\<lambda>_ s.
     rbind (sshpkt_put_u32 env SSH2_DISCONNECT_PROTOCOL_ERROR s) (\<lambda>_ s.
     rbind (sshpkt_put_cstring env (Some (bytes_of (take 1023 msg))) s) (\<lambda>_ s.
     rbind (sshpkt_put_cstring env (Some []) s) (\<lambda>_ s.
     sshpkt_send env s))))"

definition ssh_packet_write_wait ::
  "('e, 'i, 'd, 'u, 'z) pkt_env \<Rightarrow> ('e, 'i, 'd, 'u, 'z) ssh \<Rightarrow> ('e, 'i, 'd, 'u, 'z, unit) pkt_result" where
  "ssh_packet_write_wait env s = output_op (write_wait env) s"

section \<open>The padding\<close>

lemma unat_byte: "n < 256 \<Longrightarrow> unat (of_nat n :: byte) = n"
  by (simp add: unat_of_nat take_bit_eq_mod)

lemma unat_byte_less: "unat (b :: byte) < 256"
  using unsigned_less [of b, where ?'a = nat] by simp

lemma byte_no_wrap:
  assumes "a \<le> x mod 256" and "x < a + 256" and "a < (256 :: nat)"
  shows "x < 256"
proof (rule ccontr)
  assume "\<not> x < 256"
  then have "x mod 256 = x - 256" using assms by (simp add: le_mod_geq)
  then show False using assms \<open>\<not> x < 256\<close> by linarith
qed

lemma pad_min_ok:
  assumes bs: "4 \<le> bs" "bs \<le> 64"
  shows "4 \<le> unat (pad_min bs len)" "unat (pad_min bs len) < 4 + bs"
    "(len + unat (pad_min bs len)) mod bs = 0"
proof -
  define q where "q = bs - len mod bs"
  have lt: "len mod bs < bs" using bs by simp
  then have q: "1 \<le> q" "q \<le> bs" by (simp_all add: q_def)
  have cmp: "(of_nat q :: byte) < 4 \<longleftrightarrow> q < 4" using q bs by (simp add: word_less_nat_alt unat_byte)
  have "unat (of_nat q + of_nat bs :: byte) = q + bs"
    using unat_byte [of "q + bs"] q bs by simp
  then have u: "unat (pad_min bs len) = (if q < 4 then q + bs else q)"
    using cmp q bs by (simp add: pad_min_def Let_def unat_byte flip: q_def)
  have "len + q = len div bs * bs + bs"
    using lt div_mult_mod_eq [of len bs] unfolding q_def by linarith
  then have "(len + q) mod bs = 0" by simp
  then show "(len + unat (pad_min bs len)) mod bs = 0"
    by (simp add: u flip: add.assoc)
  show "4 \<le> unat (pad_min bs len)" "unat (pad_min bs len) < 4 + bs" using q bs by (simp_all add: u)
qed

lemma pad_extra:
  assumes bs: "4 \<le> bs" "bs \<le> 64" and pad: "4 \<le> unat padlen" "(len + unat padlen) mod bs = 0"
    and ep: "ep \<noteq> (0 :: byte)" and "ep' = (of_nat (ROUNDUP (unat ep) bs) :: byte)" and "\<not> ep' < ep"
    and "tmp = (of_nat ((len + unat padlen) mod unat ep') :: byte)"
    and new: "new = padlen + (ep' - tmp)" "\<not> new < padlen"
  shows "unat ep' = ROUNDUP (unat ep) bs" "4 \<le> unat new" "(len + unat new) mod bs = 0"
    "(len + unat new) mod unat ep' = 0"
proof -
  let ?R = "ROUNDUP (unat ep) bs"
  have ub: "unat ep \<le> 255" "0 < unat ep" using unat_byte_less [of ep] ep by (auto simp: unat_gt_0)
  have small: "unat ep + bs < 2 ^ 63" using ub bs by simp
  have R: "unat ep \<le> ?R" "?R < unat ep + bs" "bs dvd ?R"
    using ROUNDUP_ge [OF _ small] ROUNDUP_less [OF _ small] ROUNDUP_dvd [OF _ small] bs by simp_all
  have um: "unat ep' = ?R mod 256" using assms(6) by (simp add: unat_of_nat take_bit_eq_mod)
  have R256: "?R < 256"
    by (rule byte_no_wrap [of "unat ep"]) (use assms(7) um R ub bs in \<open>simp_all add: word_less_nat_alt\<close>)
  show e: "unat ep' = ?R" using um R256 by simp
  let ?m = "(len + unat padlen) mod ?R"
  have Rpos: "0 < ?R" using R ub by simp
  have m: "?m < ?R" using Rpos by simp
  have t: "unat tmp = ?m" using assms(8) e m R256 by (simp add: unat_of_nat take_bit_eq_mod)
  have "unat (ep' - tmp) = ?R - ?m"
    using t e m by (simp add: unat_sub word_le_nat_alt)
  then have nm: "unat new = (unat padlen + (?R - ?m)) mod 256"
    using new(1) by (simp add: unat_word_ariths)
  have "unat padlen + (?R - ?m) < 256"
    by (rule byte_no_wrap [of "unat padlen"])
      (use unat_byte_less [of padlen] new(2) R256 nm in \<open>simp_all add: word_less_nat_alt not_less\<close>)
  then have n: "unat new = unat padlen + (?R - ?m)" using nm by simp
  then show "4 \<le> unat new" using pad(1) by simp
  have s: "len + unat new = (len + unat padlen) div ?R * ?R + ?R"
    using n m div_mult_mod_eq [of "len + unat padlen" ?R] by linarith
  then show "(len + unat new) mod unat ep' = 0" using e by simp
  have "bs dvd (len + unat padlen) div ?R * ?R + ?R" using R(3) by (intro dvd_add dvd_mult)
  then show "(len + unat new) mod bs = 0" unfolding s [symmetric] by (simp add: dvd_eq_mod_eq_0)
qed

lemma pad_calc_ok:
  assumes bs: "4 \<le> bs" "bs \<le> 64" and res: "pad_calc bs len ep = (Inr padlen, ep')"
  shows "4 \<le> unat padlen" "(len + unat padlen) mod bs = 0" "ep' = 0"
    "ep \<noteq> 0 \<Longrightarrow> (len + unat padlen) mod ROUNDUP (unat ep) bs = 0"
    "ep = 0 \<Longrightarrow> unat padlen < 4 + bs"
proof -
  note b = pad_min_ok [OF bs, of len]
  have *: "4 \<le> unat padlen \<and> (len + unat padlen) mod bs = 0 \<and> ep' = 0 \<and>
      (ep \<noteq> 0 \<longrightarrow> (len + unat padlen) mod ROUNDUP (unat ep) bs = 0) \<and> (ep = 0 \<longrightarrow> unat padlen < 4 + bs)"
  proof (cases "ep = 0")
    case True
    then show ?thesis using res b by (auto simp: pad_calc_def)
  next
    case False
    define e where "e = (of_nat (ROUNDUP (unat ep) bs) :: byte)"
    define t where "t = (of_nat ((len + unat (pad_min bs len)) mod unat e) :: byte)"
    have r: "\<not> e < ep" "\<not> pad_min bs len + (e - t) < pad_min bs len" "padlen = pad_min bs len + (e - t)" "ep' = 0"
      using res False
      by (auto simp: pad_calc_def Let_def e_def t_def split: if_splits)
    show ?thesis
      using pad_extra [OF bs b(1,3) False e_def r(1) t_def refl r(2)] r False by simp
  qed
  then show "4 \<le> unat padlen" "(len + unat padlen) mod bs = 0" "ep' = 0"
    "ep \<noteq> 0 \<Longrightarrow> (len + unat padlen) mod ROUNDUP (unat ep) bs = 0"
    "ep = 0 \<Longrightarrow> unat padlen < 4 + bs" by blast+
qed

lemma pad_calc_no_extra:
  "4 \<le> bs \<Longrightarrow> bs \<le> 64 \<Longrightarrow> \<exists>padlen. pad_calc bs len 0 = (Inr padlen, 0)"
  by (simp add: pad_calc_def Let_def)

section \<open>One packet\<close>

lemma op_eq:
  "f (outgoing_packet s) = (r, b) \<Longrightarrow> outgoing_op f s = (r, s\<lparr>outgoing_packet := b\<rparr>)"
  "g (output_buf s) = (q, b') \<Longrightarrow> output_op g s = (q, s\<lparr>output_buf := b'\<rparr>)"
  by (simp_all add: outgoing_op_def output_op_def zoom_def)

text \<open>The settings that sending an ordinary packet leaves alone.\<close>

definition send_conf where
  "send_conf s = (mux s, rekeying s, after_authentication s, ssh_kex s, ssh_compat s, newkeys s, server_side s)"

lemma send_conf_upd [simp]:
  "send_conf (s\<lparr>output_buf := b\<rparr>) = send_conf s" "send_conf (s\<lparr>outgoing_packet := b\<rparr>) = send_conf s"
  "send_conf (s\<lparr>send_context := c\<rparr>) = send_conf s" "send_conf (s\<lparr>extra_pad := e\<rparr>) = send_conf s"
  "send_conf (s\<lparr>rng := r\<rparr>) = send_conf s" "send_conf (s\<lparr>p_send := p\<rparr>) = send_conf s"
  "send_conf (s\<lparr>outgoing := q\<rparr>) = send_conf s"
  by (simp_all add: send_conf_def)

lemma send_conf_keys:
  assumes "send_conf s = send_conf s'"
  shows "keys_authlen mode s = keys_authlen mode s'" "keys_block_size mode s = keys_block_size mode s'"
    "keys_aadlen mode s = keys_aadlen mode s'" "keys_comp mode s = keys_comp mode s'"
    "keys_mac mode s = keys_mac mode s'"
  using assms
  by (simp_all add: send_conf_def keys_authlen_def keys_block_size_def keys_aadlen_def keys_comp_def
      keys_mac_def keys_enc_def)

lemma record_bytes_sent_fields [simp]:
  "outgoing_packet (record_bytes_sent ty n raw s) = outgoing_packet s"
  "output_buf (record_bytes_sent ty n raw s) = output_buf s"
  "send_context (record_bytes_sent ty n raw s) = send_context s"
  "extra_pad (record_bytes_sent ty n raw s) = extra_pad s"
  "p_send (record_bytes_sent ty n raw s) = p_send s"
  "outgoing (record_bytes_sent ty n raw s) = outgoing s"
  "server_side (record_bytes_sent ty n raw s) = server_side s"
  "send_conf (record_bytes_sent ty n raw s) = send_conf s"
  by (simp_all add: record_bytes_sent_def Let_def send_conf_def)

text \<open>The plaintext of a packet: length, padding length, body and padding.\<close>

definition packet_plain :: "bytes \<Rightarrow> bytes \<Rightarrow> bytes" where
  "packet_plain body pad =
     POKE_U32 (of_nat (1 + length body + length pad)) @ [of_nat (length pad)] @ body @ pad"

lemma length_packet_plain [simp]: "length (packet_plain body pad) = 5 + length body + length pad"
  by (simp add: packet_plain_def)

lemma send2_pad_ok:
  assumes mem: "\<And>n. malloc_ok (e_alloc env) n"
    and h: "holds (outgoing_packet s) (hdr @ body)" "length hdr = 5"
    and pc: "pad_calc bs (5 + length body - aadlen) (extra_pad s) = (Inr padlen, ep)"
    and room: "5 + length body + 256 \<le> SSHBUF_SIZE_MAX"
  shows "\<exists>b pad r. send2_pad env bs aadlen s =
      (Inr (), s\<lparr>extra_pad := ep, outgoing_packet := b, rng := r\<rparr>) \<and>
    length pad = unat padlen \<and> holds b (packet_plain body pad)"
proof -
  have len: "sshbuf_len (outgoing_packet s) = 5 + length body" using holds_len [OF h(1)] h(2) by simp
  obtain cp b1 where res: "sshbuf_reserve (e_alloc env) (outgoing_packet s) (unat padlen) = (Inr cp, b1)"
    and b1: "\<And>bs. length bs = unat padlen \<Longrightarrow> holds (sshbuf_poke b1 cp bs) ((hdr @ body) @ bs)"
    using holds_reserve [OF mem h(1), of "unat padlen"] h(2) room unat_byte_less [of padlen] by auto
  obtain pad r where pd: "padding env s (unat padlen) = (pad, r)" by (cases "padding env s (unat padlen)")
  have lp: "length pad = unat padlen" using pd by (auto simp: padding_def arc4random_buf_def split: if_splits)
  let ?b2 = "sshbuf_poke b1 cp pad"
  have h2: "holds ?b2 ((hdr @ body) @ pad)" by (rule b1 [OF lp])
  have l2: "sshbuf_len ?b2 = 5 + length body + unat padlen" using holds_len [OF h2] h(2) lp by simp
  obtain q where q: "sshbuf_mutable_ptr ?b2 = Some q" using holds_mutable [OF h2] by blast
  let ?b3 = "sshbuf_poke ?b2 (buf_off ?b2) (POKE_U32 (of_nat (1 + length body + length pad)) @ [padlen])"
  have pl: "padlen = of_nat (length pad)" using lp by simp
  have h3: "holds ?b3 (packet_plain body pad)"
    using holds_poke [OF h2, of "POKE_U32 (of_nat (1 + length body + length pad)) @ [padlen]"] h(2) pl
    by (simp add: packet_plain_def)
  have pd': "padding env (s\<lparr>extra_pad := ep, outgoing_packet := b1\<rparr>) (unat padlen) = (pad, r)"
    using pd by (auto simp: padding_def arc4random_buf_def split: if_splits)
  have "send2_pad env bs aadlen s = (Inr (), s\<lparr>extra_pad := ep, outgoing_packet := ?b3, rng := r\<rparr>)"
    using res pc q l2 lp by (simp add: send2_pad_def zoom_def len op_eq(1) Let_def pd' add.commute)
  then show ?thesis using h3 lp by blast
qed

lemma send2_seal_aead:
  assumes mem: "\<And>n. malloc_ok (e_alloc env) n" and mac: "keys_mac MODE_OUT s = None"
    and h: "holds (outgoing_packet s) plain" "holds (output_buf s) out"
    and cc: "send_context s = Some cs"
    and crypt: "cipher_crypt (e_crypto env) cs (ps_seqnr (p_send s)) plain (length plain - aadlen)
      aadlen authlen = (Inr sealed, cs')"
    and ls: "length sealed = length plain + authlen"
    and room: "length out + length sealed \<le> SSHBUF_SIZE_MAX"
  shows "\<exists>b. send2_seal env authlen aadlen s =
      (Inr (length plain), s\<lparr>output_buf := b, send_context := Some cs'\<rparr>) \<and> holds b (out @ sealed)"
proof -
  note len = holds_len [OF h(1)] and byt = holds_bytes [OF h(1)]
  obtain cp b1 where res: "sshbuf_reserve (e_alloc env) (output_buf s) (length plain + authlen) = (Inr cp, b1)"
    and b1: "\<And>bs. length bs = length plain + authlen \<Longrightarrow> holds (sshbuf_poke b1 cp bs) (out @ bs)"
    using holds_reserve [OF mem h(2), of "length plain + authlen"] ls room by auto
  have mac': "keys_mac MODE_OUT (s\<lparr>send_context := c, output_buf := b\<rparr>) = None" for b c
    using mac send_conf_keys(5) [of "s\<lparr>send_context := c, output_buf := b\<rparr>" s] by simp
  have "send2_seal env authlen aadlen s =
      (Inr (length plain), s\<lparr>output_buf := sshbuf_poke b1 cp sealed, send_context := Some cs'\<rparr>)"
    using mac mac' cc crypt res
    by (simp add: send2_seal_def Let_def mac_on_def len byt op_eq(2))
  then show ?thesis using b1 [OF ls] by blast
qed

lemma send2_finish_ok:
  assumes "ty \<noteq> SSH2_MSG_NEWKEYS" and "\<not> (ty = SSH2_MSG_USERAUTH_SUCCESS \<and> server_side s)"
    and "ps_packets (p_send s) + 1 \<noteq> 0" and h: "holds (outgoing_packet s) v"
  shows "\<exists>s'. send2_finish env bs ty len s = (Inr (), s') \<and> send_conf s' = send_conf s \<and>
    holds (outgoing_packet s') [] \<and> output_buf s' = output_buf s \<and> send_context s' = send_context s \<and>
    extra_pad s' = extra_pad s \<and> outgoing s' = outgoing s \<and>
    p_send s' = count_packet len bs (next_seqnr (p_send s))"
proof -
  have p: "ps_packets (next_seqnr (p_send s)) \<noteq> 0" using assms(3) by (simp add: next_seqnr_def)
  show ?thesis
    using assms(1,2) p holds_reset [OF h] by (auto simp: send2_finish_def Let_def)
qed

lemma send2_wrapped_aead:
  assumes mem: "\<And>n. malloc_ok (e_alloc env) n"
    and h: "holds (outgoing_packet s) ([0, 0, 0, 0, 0] @ body)" "holds (output_buf s) out"
    and body: "body \<noteq> []" "length body \<le> PACKET_MAX_SIZE"
    and keys: "keys_authlen MODE_OUT s = authlen" "authlen \<noteq> 0" "keys_block_size MODE_OUT s = bs"
      "\<not> comp_on (keys_comp MODE_OUT s)"
    and cc: "send_context s = Some cs" "\<not> cipher_is_intermac cs"
    and ep: "extra_pad s = 0" and bs: "4 \<le> bs" "bs \<le> 64"
    and crypt: "\<And>pad. length pad = unat (pad_min bs (1 + length body)) \<Longrightarrow>
      \<exists>sealed cs'. cipher_crypt (e_crypto env) cs (ps_seqnr (p_send s)) (packet_plain body pad)
        (1 + length body + length pad) 4 authlen = (Inr sealed, cs') \<and>
        length sealed = 5 + length body + length pad + authlen \<and> P sealed pad cs'"
    and ty: "hd body \<noteq> SSH2_MSG_NEWKEYS" "\<not> (hd body = SSH2_MSG_USERAUTH_SUCCESS \<and> server_side s)"
    and pk: "ps_packets (p_send s) + 1 \<noteq> 0"
    and room: "length out + length body + 80 + authlen \<le> SSHBUF_SIZE_MAX"
  shows "\<exists>s' pad sealed cs'. ssh_packet_send2_wrapped env s = (Inr (), s') \<and>
    length pad = unat (pad_min bs (1 + length body)) \<and> P sealed pad cs' \<and>
    holds (output_buf s') (out @ sealed) \<and> holds (outgoing_packet s') [] \<and>
    length sealed = 5 + length body + length pad + authlen \<and>
    send_context s' = Some cs' \<and> send_conf s' = send_conf s \<and> extra_pad s' = 0 \<and> outgoing s' = outgoing s \<and>
    p_send s' = count_packet (5 + length body + length pad) bs (next_seqnr (p_send s))"
proof -
  have aad: "keys_aadlen MODE_OUT s = 4" and nomac: "keys_mac MODE_OUT s = None"
    using keys by (simp_all add: keys_aadlen_def keys_mac_def)
  have tyeq: "packet_type (outgoing_packet s) = hd body"
    using holds_nth [OF h(1), of 5] body by (simp add: packet_type_def nth_append hd_conv_nth)
  define s1 where "s1 = (if server_side s then s
    else record_bytes_sent (hd body) (szsub (sshbuf_len (outgoing_packet s)) 6) True s)"
  have f1: "outgoing_packet s1 = outgoing_packet s" "output_buf s1 = output_buf s" "extra_pad s1 = 0"
    "send_context s1 = Some cs" "p_send s1 = p_send s" "send_conf s1 = send_conf s" "outgoing s1 = outgoing s"
    "server_side s1 = server_side s"
    using ep cc by (simp_all add: s1_def)
  have pc: "pad_calc bs (5 + length body - 4) (extra_pad s1) = (Inr (pad_min bs (1 + length body)), 0)"
    by (simp add: pad_calc_def f1)
  obtain b pad r where pad: "send2_pad env bs 4 s1 = (Inr (), s1\<lparr>extra_pad := 0, outgoing_packet := b, rng := r\<rparr>)"
      "length pad = unat (pad_min bs (1 + length body))" "holds b (packet_plain body pad)"
    using send2_pad_ok [OF mem _ _ pc, of "[0, 0, 0, 0, 0]"] h body
    by (auto simp: f1 PACKET_MAX_SIZE_def SSHBUF_SIZE_MAX_def)
  let ?s2 = "s1\<lparr>extra_pad := 0, outgoing_packet := b, rng := r\<rparr>"
  obtain sealed cs' where cr: "cipher_crypt (e_crypto env) cs (ps_seqnr (p_send s)) (packet_plain body pad)
        (1 + length body + length pad) 4 authlen = (Inr sealed, cs')"
      "length sealed = 5 + length body + length pad + authlen" "P sealed pad cs'"
    using crypt [OF pad(2)] by blast
  have lp: "length pad < 4 + bs" using pad_min_ok(2) [OF bs] pad(2) by simp
  obtain b' where seal: "send2_seal env authlen 4 ?s2 =
      (Inr (5 + length body + length pad), ?s2\<lparr>output_buf := b', send_context := Some cs'\<rparr>)"
      "holds b' (out @ sealed)"
    using send2_seal_aead [OF mem, of ?s2 "packet_plain body pad" out cs 4 authlen sealed cs']
      nomac pad(3) h(2) cr room lp bs send_conf_keys(5) [of ?s2 s MODE_OUT] by (auto simp: f1)
  let ?s3 = "?s2\<lparr>output_buf := b', send_context := Some cs'\<rparr>"
  have c3: "send_conf ?s3 = send_conf s" by (simp add: f1)
  obtain s' where fin: "send2_finish env bs (hd body) (5 + length body + length pad) ?s3 = (Inr (), s')"
      "send_conf s' = send_conf s" "holds (outgoing_packet s') []" "output_buf s' = b'"
      "send_context s' = Some cs'" "extra_pad s' = 0" "outgoing s' = outgoing s"
      "p_send s' = count_packet (5 + length body + length pad) bs (next_seqnr (p_send s))"
    using send2_finish_ok [OF ty(1), of ?s3 "packet_plain body pad" env bs] ty(2) pk pad(3) c3
    by (auto simp: f1 send_conf_def)
  have "ssh_packet_send2_wrapped env s = (Inr (), s')"
    using keys(4) cc pad(1) seal(1) fin(1) send_conf_keys(4) [OF f1(6), of MODE_OUT]
    by (simp add: ssh_packet_send2_wrapped_def Let_def keys(1,3) aad tyeq flip: s1_def)
  then show ?thesis using fin(2-8) pad(2) cr(2,3) seal(2)
    by (intro exI [of _ s'] exI [of _ pad] exI [of _ sealed] exI [of _ cs']) simp
qed

section \<open>Views of the session\<close>

text \<open>
  A view is a part of the session that sealing a packet and installing keys leave alone; the
  locales below give what holds of every view, and are interpreted for the queue with the sequence
  number, the packet under construction, the dispatch table and the state of the key exchange.
\<close>

definition keeps :: "(('e, 'i, 'd, 'u, 'z) ssh \<Rightarrow> 'v) \<Rightarrow> ('e, 'i, 'd, 'u, 'z) ssh \<Rightarrow> ('e, 'i, 'd, 'u, 'z, 'a) pkt_result \<Rightarrow> bool" where
  "keeps view s m \<longleftrightarrow> view (snd m) = view s"

lemma keeps_pair [simp]: "keeps view s (r, s') \<longleftrightarrow> view s' = view s"
  by (simp add: keeps_def)

lemma keeps_rbind [intro!]:
  assumes "keeps view s m" and "\<And>x s1. view s1 = view s \<Longrightarrow> keeps view s (f x s1)"
  shows "keeps view s (rbind m f)"
  using assms by (cases m; cases "fst m") (auto simp: rbind_def keeps_def)

lemma keeps_trans: "view s1 = view s \<Longrightarrow> keeps view s1 m \<Longrightarrow> keeps view s m"
  by (simp add: keeps_def)

locale session_view =
  fixes view :: "('e, 'i, 'd, 'u, 'z) ssh \<Rightarrow> 'v"
  assumes bufs: "view (s\<lparr>output_buf := b\<rparr>) = view s" "view (s\<lparr>compression_buffer := cb\<rparr>) = view s"
    and contexts: "view (s\<lparr>send_context := c\<rparr>) = view s" "view (s\<lparr>receive_context := c\<rparr>) = view s"
      "view (s\<lparr>newkeys := k\<rparr>) = view s"
      "view (s\<lparr>ssh_kex := map_option (kex_newkeys_update f) (ssh_kex s)\<rparr>) = view s"
      "view (s\<lparr>cipher_warning_done := w\<rparr>) = view s"
    and streams: "view (s\<lparr>compression_out_stream := z\<rparr>) = view s" "view (s\<lparr>compression_in_stream := z\<rparr>) = view s"
      "view (s\<lparr>compression_out_started := x\<rparr>) = view s" "view (s\<lparr>compression_in_started := x\<rparr>) = view s"
      "view (s\<lparr>compression_out_failures := n\<rparr>) = view s"
    and limits: "view (s\<lparr>max_blocks_out := m\<rparr>) = view s" "view (s\<lparr>max_blocks_in := m\<rparr>) = view s"
      "view (s\<lparr>after_authentication := a\<rparr>) = view s" "view (reset_counters mode s) = view s"
begin

lemmas upd = bufs contexts streams limits

lemma view_sets:
  "view (set_newkey mode nk s) = view s" "view (set_cipher_ctx mode c s) = view s"
  "view (set_max_blocks mode m s) = view s" "view (set_mac mode mc s) = view s"
  by (simp_all add: set_newkey_def set_cipher_ctx_def set_max_blocks_def set_mac_def upd split: kex_mode.splits)

lemma keeps_ops:
  "keeps view s0 (output_op f s) \<longleftrightarrow> view s = view s0" "keeps view s0 (mac_op mode h s) \<longleftrightarrow> view s = view s0"
  by (auto simp: keeps_def output_op_def zoom_def mac_op_def upd view_sets split: prod.splits)

lemma keeps_compression:
  "keeps view s (ssh_packet_init_compression env s)" "keeps view s (start_compression_out env s level)"
  "keeps view s (start_compression_in env s)" "keeps view s (compress_buffer env s b)"
  by (auto simp: ssh_packet_init_compression_def start_compression_out_def start_compression_in_def
      compress_buffer_def Let_def upd split: option.splits prod.splits zstatus.splits)

lemma keeps_start_compression: "keeps view s (start_compression env mode s)"
  unfolding start_compression_def
  by (intro keeps_rbind)
    (auto simp: view_sets split: kex_mode.splits intro: keeps_compression keeps_trans)

lemma keeps_newkeys_cipher: "keeps view s (newkeys_cipher env mode nk s)"
  unfolding newkeys_cipher_def Let_def
  by (auto simp: upd view_sets split: sum.splits intro: keeps_trans [OF _ keeps_start_compression])

lemma view_take_newkeys: "view (snd (take_newkeys mode s)) = view s"
  by (simp add: take_newkeys_def Let_def upd view_sets)

lemma keeps_set_newkeys: "keeps view s (ssh_set_newkeys env s mode)"
proof -
  have q: "take_newkeys mode s = (nk, s1) \<Longrightarrow> view s1 = view s" for nk s1
    using view_take_newkeys [of mode s] by simp
  show ?thesis
    unfolding ssh_set_newkeys_def
    by (auto simp: view_sets split: option.splits prod.splits sum.splits dest!: q
        intro: keeps_trans [OF _ keeps_newkeys_cipher])
qed

lemma keeps_delayed: "keeps view s (ssh_packet_enable_delayed_compress env s)"
  unfolding ssh_packet_enable_delayed_compress_def delayed_compress_mode_def
  by (auto simp: upd split: option.splits intro: keeps_trans [OF _ keeps_start_compression])

lemma keeps_seal: "keeps view s (send2_seal env authlen aadlen s)"
  unfolding send2_seal_def Let_def by (auto simp: keeps_ops upd split: prod.splits sum.splits)

end

text \<open>
  A view that does not show the packet under construction is not affected by composing and
  encoding it; one that does not show the queue and the counters either is not affected by sending.
\<close>

locale packet_view = session_view +
  assumes building: "view (s\<lparr>outgoing_packet := b\<rparr>) = view s" "view (s\<lparr>extra_pad := e\<rparr>) = view s"
      "view (s\<lparr>rng := r\<rparr>) = view s" "view (record_bytes_sent ty n' raw s) = view s"
begin

lemma keeps_building:
  "keeps view s0 (outgoing_op f s) \<longleftrightarrow> view s = view s0"
  "keeps view s0 (zoom extra_pad extra_pad_update g s) \<longleftrightarrow> view s = view s0"
  by (auto simp: keeps_def outgoing_op_def zoom_def building split: prod.splits)

lemma keeps_parts:
  "keeps view s (send2_compress env s)" "keeps view s (send2_intermac env s)"
  "keeps view s (send2_pad env bs aadlen s)" "keeps view s (send2_seal env authlen aadlen s)"
proof -
  show "keeps view s (send2_compress env s)"
    unfolding send2_compress_def sshpkt_putb_def
    by (intro keeps_rbind keeps_trans [OF _ keeps_compression(4)]) (simp_all add: upd keeps_building)
  show "keeps view s (send2_intermac env s)"
    unfolding send2_intermac_def Let_def by (auto simp: keeps_ops keeps_building upd split: option.splits)
  show "keeps view s (send2_pad env bs aadlen s)"
    unfolding send2_pad_def Let_def by (auto simp: keeps_building building split: option.splits prod.splits)
  show "keeps view s (send2_seal env authlen aadlen s)"
    by (rule keeps_seal)
qed

lemma keeps_put:
  "keeps view s (sshpkt_start env ty s)" "keeps view s (sshpkt_putb env b s)" "keeps view s (sshpkt_put_u32 env w s)"
  "keeps view s (sshpkt_put_cstring env c s)"
  by (simp_all add: sshpkt_start_def sshpkt_putb_def sshpkt_put_u32_def sshpkt_put_cstring_def keeps_building)

end

locale transport_view = packet_view +
  assumes queueing: "view (s\<lparr>p_send := p\<rparr>) = view s" "view (s\<lparr>outgoing := q\<rparr>) = view s"
      "view (s\<lparr>rekeying := y\<rparr>) = view s" "view (s\<lparr>rekey_time := t\<rparr>) = view s"
begin

lemma keeps_finish: "keeps view s (send2_finish env bs ty len s)"
  unfolding send2_finish_def Let_def
  by (auto simp: queueing building intro: keeps_trans [OF _ keeps_set_newkeys] keeps_trans [OF _ keeps_delayed])

lemma keeps_wrapped: "keeps view s (ssh_packet_send2_wrapped env s)"
proof -
  note parts = keeps_trans [OF _ keeps_parts(1)] keeps_trans [OF _ keeps_parts(2)]
    keeps_trans [OF _ keeps_parts(3)] keeps_trans [OF _ keeps_parts(4)] keeps_trans [OF _ keeps_finish]
  show ?thesis
    unfolding ssh_packet_send2_wrapped_def Let_def
    by (auto simp: building intro!: keeps_rbind parts split: option.splits)
qed

text \<open>A predicate on the view that starting an exchange preserves is preserved by sending.\<close>

lemma inv_keeps:
  assumes "\<And>s s'. view s = view s' \<Longrightarrow> P s \<Longrightarrow> P s'" and "keeps view s m" and "P s"
  shows "P (snd m)"
  using assms(1) [of s "snd m"] assms(2,3) by (simp add: keeps_def)

lemma inv_flush:
  assumes P: "\<And>s s'. view s = view s' \<Longrightarrow> P s \<Longrightarrow> P s'" and rx: "\<And>s. P s \<Longrightarrow> P (snd (rekex s))"
  shows "P s \<Longrightarrow> P (snd (flush_outgoing env rekex ps s))"
proof (induction ps arbitrary: s)
  case (Cons p ps)
  let ?s = "s\<lparr>outgoing_packet := snd p, outgoing := ps\<rparr>"
  have "P ?s" using P [of s ?s] Cons.prems by (simp add: building queueing)
  then have "P (snd (ssh_packet_send2_wrapped env ?s))"
    using inv_keeps [of P ?s, OF _ keeps_wrapped] P by blast
  then show ?case using rx Cons by (auto intro: rbind_invariant)
qed simp

lemma inv_send2_with:
  assumes P: "\<And>s s'. view s = view s' \<Longrightarrow> P s \<Longrightarrow> P s'" and rx: "\<And>s. P s \<Longrightarrow> P (snd (rekex s))"
    and "P s"
  shows "P (snd (send2_with env rekex s))"
proof -
  have same: "P s1" if "view s1 = view s" for s1 using P [of s s1] that \<open>P s\<close> by simp
  have q: "P (snd (send2_enqueue env ty s))" for ty
    unfolding send2_enqueue_def Let_def by (auto intro!: same simp: building queueing split: option.splits)
  have w: "P (snd (ssh_packet_send2_wrapped env s1))" if "view s1 = view s" for s1
    using inv_keeps [of P s1, OF _ keeps_wrapped] P same [OF that] by blast
  have f: "P (snd (flush_outgoing env rekex ps (s1\<lparr>rekeying := False, rekey_time := monotime env\<rparr>)))" if "P s1" for ps s1
  proof -
    have "P (s1\<lparr>rekeying := False, rekey_time := monotime env\<rparr>)" by (rule P [OF _ that]) (simp add: queueing)
    then show ?thesis using inv_flush [of P rekex] P rx by blast
  qed
  have q': "P (snd (rbind (send2_enqueue env ty s) (\<lambda>_ s. if b then rekex s else (Inr (), s))))" for ty b
    by (rule rbind_invariant [where P = P, OF q]) (simp add: rx)
  have w': "P (snd (rbind (ssh_packet_send2_wrapped env (if k then s\<lparr>rekeying := True\<rparr> else s))
      (\<lambda>_ s. if b then let s = s\<lparr>rekeying := False, rekey_time := monotime env\<rparr>
              in flush_outgoing env rekex (outgoing s) s else (Inr (), s))))" for k b
    by (rule rbind_invariant [where P = P, OF w]) (simp_all add: f queueing Let_def)
  have ite: "P (snd (if c then a else b))" if "P (snd a)" "P (snd b)" for c :: bool and a b :: "('a, 'b, 'c, 'd, 'e, unit) pkt_result"
    using that by simp
  show ?thesis
    unfolding send2_with_def Let_def [of "packet_type _"] Let_def [of "_ \<and> _"] Let_def [of "if _ then _ else _"]
    by (intro ite q' w') (simp add: \<open>P s\<close>)
qed

lemma keeps_send2_with:
  assumes "\<And>s. keeps view s (rekex s)"
  shows "keeps view s (send2_with env rekex s)"
  unfolding keeps_def
  by (rule inv_send2_with [where P = "\<lambda>s'. view s' = view s"]) (use assms in \<open>auto simp: keeps_def\<close>)

lemma keeps_send_mux: "keeps view s (ssh_packet_send_mux env s)"
  unfolding ssh_packet_send_mux_def Let_def by (auto simp: building keeps_ops)

lemma keeps_send_with:
  "(\<And>s. keeps view s (send2 s)) \<Longrightarrow> keeps view s (sshpkt_send_with env send2 s)"
  by (simp add: sshpkt_send_with_def keeps_send_mux)

end

definition queue_view :: "('e, 'i, 'd, 'u, 'z) ssh \<Rightarrow> (byte \<times> sshbuf) list \<times> u32" where
  "queue_view s = (outgoing s, ps_seqnr (p_send s))"

interpretation qv: packet_view queue_view
  by unfold_locales (simp_all add: queue_view_def reset_counters_def split: kex_mode.splits)

interpretation ov: session_view outgoing_packet
  by unfold_locales (simp_all add: reset_counters_def split: kex_mode.splits)

section \<open>What every packet does to the queue and the sequence number\<close>

lemma queue_view_upd [simp]:
  "queue_view (s\<lparr>rekeying := x\<rparr>) = queue_view s" "queue_view (s\<lparr>rekey_time := t\<rparr>) = queue_view s"
  "queue_view (s\<lparr>p_read := p\<rparr>) = queue_view s"
  by (simp_all add: queue_view_def)

lemmas keeps_send2_parts = qv.keeps_parts

declare qv.building [simp]

text \<open>The view after one more packet.\<close>

definition sent_view :: "('e, 'i, 'd, 'u, 'z) ssh \<Rightarrow> (byte \<times> sshbuf) list \<times> u32" where
  "sent_view s = (outgoing s, ps_seqnr (p_send s) + 1)"

lemma sent_view_cong: "queue_view s = queue_view s' \<Longrightarrow> sent_view s = sent_view s'"
  by (simp add: queue_view_def sent_view_def)

lemma send2_finish_view: "queue_view (snd (send2_finish env bs ty len s)) = sent_view s"
proof -
  have p: "queue_view (s\<lparr>p_send := next_seqnr (p_send s)\<rparr>) = sent_view s"
    "queue_view (s\<lparr>p_send := count_packet len bs (next_seqnr (p_send s))\<rparr>) = sent_view s"
    by (simp_all add: queue_view_def sent_view_def next_seqnr_def count_packet_def)
  show ?thesis
    by (simp add: send2_finish_def Let_def p qv.keeps_set_newkeys [unfolded keeps_def]
        qv.keeps_delayed [unfolded keeps_def])
qed

definition sends :: "('e, 'i, 'd, 'u, 'z) ssh \<Rightarrow> ('e, 'i, 'd, 'u, 'z, unit) pkt_result \<Rightarrow> bool" where
  "sends s m \<longleftrightarrow> fst m = Inr () \<longrightarrow> queue_view (snd m) = sent_view s"

lemma sends_rbind:
  assumes "keeps queue_view s m" and "\<And>x s1. m = (Inr x, s1) \<Longrightarrow> queue_view s1 = queue_view s \<Longrightarrow> sends s (f x s1)"
  shows "sends s (rbind m f)"
  using assms by (cases m; cases "fst m") (auto simp: rbind_def keeps_def sends_def)

lemma sends_finish: "queue_view s1 = queue_view s \<Longrightarrow> sends s (send2_finish env bs ty len s1)"
  using send2_finish_view [of env bs ty len s1] sent_view_cong [of s1 s] by (simp add: sends_def)

lemma sends_wrapped:
  assumes im: "\<And>i m. im_encrypt (e_crypto env) i m \<noteq> None"
  shows "sends s (ssh_packet_send2_wrapped env s)"
proof -
  have none: "send2_intermac env s1 \<noteq> (Inr None, s2)" for s1 s2
    by (auto simp: send2_intermac_def Let_def elim!: rbind_InrE split: option.splits) (use im in blast)
  note parts = keeps_trans [OF _ keeps_send2_parts(1)] keeps_trans [OF _ keeps_send2_parts(2)]
    keeps_trans [OF _ keeps_send2_parts(3)] keeps_trans [OF _ keeps_send2_parts(4)]
  have rest: "sends s (if b then rbind (send2_intermac env s1) (\<lambda>sent s.
        case sent of None \<Rightarrow> (Inr (), s) | Some len \<Rightarrow> send2_finish env bs ty len s)
      else rbind (send2_pad env bs aadlen s1) (\<lambda>_ s. rbind (send2_seal env authlen aadlen s) (\<lambda>len s.
        send2_finish env bs ty len s)))" if "queue_view s1 = queue_view s" for b s1 bs ty aadlen authlen
    using that none by (auto intro!: sends_rbind parts sends_finish split: option.splits)
  show ?thesis
    unfolding ssh_packet_send2_wrapped_def Let_def
    by (rule sends_rbind, force intro: parts, rule rest)
qed

section \<open>The packet under construction stays usable\<close>

lemma holds_put_any: "holds b v \<Longrightarrow> sshbuf_put al b w = (Inr (), b') \<Longrightarrow> holds b' (v @ w)"
  using sshbuf_put_spec [of b al w "Inr ()" b'] by (auto simp: holds_def)

lemma holds_reserve_any:
  "holds b v \<Longrightarrow> sshbuf_reserve al b n = (Inr dp, b1) \<Longrightarrow> length bs = n \<Longrightarrow> holds (sshbuf_poke b1 dp bs) (v @ bs)"
  using sshbuf_reserve_poke [of b al n dp b1 bs] by (auto simp: holds_def)

lemma holds_consume_any:
  assumes "holds b v" and "sshbuf_consume b n = (Inr (), b')"
  shows "holds b' (drop n v)"
proof -
  have "n \<le> length v"
    using assms holds_len [OF assms(1)] by (auto simp: sshbuf_consume_def split: if_splits)
  then show ?thesis using holds_consume [OF assms(1), of n] assms(2) by auto
qed

text \<open>It has at least \<open>n\<close> bytes.\<close>

definition tidy :: "nat \<Rightarrow> ('e, 'i, 'd, 'u, 'z) ssh \<Rightarrow> bool" where
  "tidy n s \<longleftrightarrow> (\<exists>v. holds (outgoing_packet s) v \<and> n \<le> length v)"

definition tidies :: "nat \<Rightarrow> ('e, 'i, 'd, 'u, 'z, 'a) pkt_result \<Rightarrow> bool" where
  "tidies n m \<longleftrightarrow> (\<forall>x s. m = (Inr x, s) \<longrightarrow> tidy n s)"

lemma tidy_upd [simp]:
  "tidy n (s\<lparr>compression_buffer := cb\<rparr>) = tidy n s" "tidy n (s\<lparr>send_context := c\<rparr>) = tidy n s"
  "tidy n (s\<lparr>rekeying := x\<rparr>) = tidy n s" "tidy n (s\<lparr>rekey_time := t\<rparr>) = tidy n s"
  "tidy n (record_bytes_sent ty m raw s) = tidy n s"
  by (simp_all add: tidy_def)

lemma tidies_pair [simp]: "tidies n (Inl e, s)" "tidies n (Inr x, s) = tidy n s"
  by (auto simp: tidies_def)

lemma tidy_mono: "tidy n s \<Longrightarrow> n' \<le> n \<Longrightarrow> tidy n' s"
  by (auto simp: tidy_def)

lemma tidies_rbind:
  assumes "tidies n m" and "\<And>x s1. m = (Inr x, s1) \<Longrightarrow> tidy n s1 \<Longrightarrow> tidies n' (f x s1)"
  shows "tidies n' (rbind m f)"
  using assms by (cases m; cases "fst m") (auto simp: rbind_def tidies_def)

lemma tidies_same: "keeps outgoing_packet s m \<Longrightarrow> tidy n s \<Longrightarrow> tidies n m"
  by (auto simp: tidies_def tidy_def keeps_def)

lemma tidies_op:
  assumes "\<And>b v x b'. holds b v \<Longrightarrow> n \<le> length v \<Longrightarrow> f b = (Inr x, b') \<Longrightarrow> \<exists>v'. holds b' v' \<and> n' \<le> length v'"
    and "tidy n s"
  shows "tidies n' (outgoing_op f s)"
  using assms by (force simp: tidies_def tidy_def outgoing_op_def zoom_def split: prod.splits)

lemma tidies_ops:
  "tidy n s \<Longrightarrow> tidies (n + length w) (outgoing_op (\<lambda>b. sshbuf_put al b w) s)"
  "tidy n s \<Longrightarrow> tidies (length w) (outgoing_op (\<lambda>b. sshbuf_put al (sshbuf_reset al b) w) s)"
  "tidy n s \<Longrightarrow> tidies n (outgoing_op (\<lambda>b. sshbuf_putb al b w') s)"
  "tidy n s \<Longrightarrow> tidies 0 (outgoing_op (\<lambda>b. sshbuf_consume b k) s)"
  unfolding sshbuf_putb_def
  by (rule tidies_op; force dest: holds_put_any [OF holds_reset] holds_put_any holds_consume_any)+

lemma tidies_pad:
  assumes "tidy 5 s"
  shows "tidies 5 (send2_pad env bs aadlen s)"
  unfolding tidies_def
proof (intro allI impI)
  fix x s' assume res: "send2_pad env bs aadlen s = (Inr x, s')"
  obtain v where h: "holds (outgoing_packet s) v" "5 \<le> length v" using assms by (auto simp: tidy_def)
  from res obtain padlen ep cp b1 pad r where
    "sshbuf_reserve (e_alloc env) (outgoing_packet s) (unat padlen) = (Inr cp, b1)"
    and "padding env (s\<lparr>extra_pad := ep, outgoing_packet := b1\<rparr>) (unat padlen) = (pad, r)"
    and s': "outgoing_packet s' = sshbuf_poke (sshbuf_poke b1 cp pad) (buf_off (sshbuf_poke b1 cp pad))
       (POKE_U32 (of_nat (sshbuf_len (sshbuf_poke b1 cp pad) - 4)) @ [padlen])"
    by (auto simp: send2_pad_def zoom_def outgoing_op_def Let_def elim!: rbind_InrE split: prod.splits option.splits)
  then have "holds (sshbuf_poke b1 cp pad) (v @ pad)"
    using holds_reserve_any [OF h(1)] by (auto simp: padding_def arc4random_buf_def split: if_splits)
  from holds_poke [OF this, of "POKE_U32 (of_nat (sshbuf_len (sshbuf_poke b1 cp pad) - 4)) @ [padlen]"]
  have "\<exists>w. holds (outgoing_packet s') w \<and> 5 \<le> length w" unfolding s' using h(2)
    by - (rule exI, rule conjI, erule meta_mp, auto)
  then show "tidy 5 s'" by (simp add: tidy_def)
qed

lemma tidies_compress:
  assumes "tidy 5 s"
  shows "tidies 5 (send2_compress env s)"
proof -
  have z: "tidies 5 (outgoing_op (\<lambda>b. sshbuf_put (e_alloc env) (sshbuf_reset (e_alloc env) b) [0, 0, 0, 0, 0]) s1)"
    if "tidy 0 s1" for s1 :: "('a, 'b, 'c, 'd, 'e) ssh"
    using tidies_ops(2) [OF that, of "[0, 0, 0, 0, 0]"] by (simp add: eval_nat_numeral)
  show ?thesis
    unfolding send2_compress_def sshpkt_putb_def
    by (rule tidies_rbind [OF tidies_ops(4) [OF assms]], rule tidies_rbind [where n = 0],
        rule tidies_same [OF ov.keeps_compression(4)], simp,
        rule tidies_rbind [OF z], assumption, rule tidies_ops(3))
qed

lemma tidies_intermac:
  assumes "tidy 5 s"
  shows "tidies 0 (send2_intermac env s)"
  unfolding send2_intermac_def Let_def
  by (rule tidies_rbind [OF tidies_ops(4) [OF assms]], auto split: option.splits,
      rule tidies_rbind [where n = 0], rule tidies_same [where n = 0])
    (auto simp: ov.keeps_ops)

lemma tidies_finish:
  assumes "tidy 0 s"
  shows "tidies 0 (send2_finish env bs ty len s)"
proof -
  obtain v where h: "holds (sshbuf_reset (e_alloc env) (outgoing_packet s)) v"
    using assms holds_reset by (auto simp: tidy_def)
  have t: "tidy 0 s1" if "outgoing_packet s1 = sshbuf_reset (e_alloc env) (outgoing_packet s)" for s1 :: "('a, 'b, 'c, 'd, 'e) ssh"
    using h that by (auto simp: tidy_def)
  show ?thesis
    unfolding send2_finish_def Let_def
    by (auto simp: t intro!: tidies_same [OF ov.keeps_set_newkeys] tidies_same [OF ov.keeps_delayed])
qed

lemma tidies_wrapped:
  assumes "tidy 5 s"
  shows "tidies 0 (ssh_packet_send2_wrapped env s)"
proof -
  have rest: "tidies 0 (if b then rbind (send2_intermac env s1) (\<lambda>sent s.
        case sent of None \<Rightarrow> (Inr (), s) | Some len \<Rightarrow> send2_finish env bs ty len s)
      else rbind (send2_pad env bs aadlen s1) (\<lambda>_ s. rbind (send2_seal env authlen aadlen s) (\<lambda>len s.
        send2_finish env bs ty len s)))" if "tidy 5 s1" for b s1 bs ty aadlen authlen
    by (auto intro!: tidies_rbind [OF tidies_intermac [OF that]] tidies_rbind [OF tidies_pad [OF that]]
        tidies_rbind [OF tidies_same [OF ov.keeps_seal]] tidies_finish split: option.splits
        intro: tidy_mono)
  show ?thesis
    unfolding ssh_packet_send2_wrapped_def Let_def
    by (rule tidies_rbind [where n = 5], force intro: tidies_compress simp: assms, rule rest)
qed

section \<open>The queue\<close>

definition queue_ok :: "(byte \<times> sshbuf) list \<Rightarrow> bool" where
  "queue_ok ps \<longleftrightarrow> (\<forall>p\<in>set ps. \<exists>v. holds (snd p) v \<and> 6 \<le> length v)"

lemma flush_view:
  assumes im: "\<And>i m. im_encrypt (e_crypto env) i m \<noteq> None"
    and rx: "\<And>s s'. tidy 0 s \<Longrightarrow> rekex s = (Inr (), s') \<Longrightarrow> \<exists>k. k \<le> 1 \<and> outgoing s' = outgoing s \<and>
      ps_seqnr (p_send s') = ps_seqnr (p_send s) + of_nat k"
    and "flush_outgoing env rekex ps s = (Inr (), s')" and "outgoing s = ps" and "tidy 0 s"
    and "queue_ok ps"
  shows "\<exists>n k. n \<le> length ps \<and> k \<le> 1 \<and> outgoing s' = drop n ps \<and>
    ps_seqnr (p_send s') = ps_seqnr (p_send s) + of_nat (n + k)"
  using assms(3-6)
proof (induction ps arbitrary: s)
  case Nil
  then show ?case by (intro exI [of _ 0]) simp
next
  case (Cons p ps)
  show ?case
  proof (cases "ssh_packet_need_rekeying env s (sshbuf_len (snd p))")
    case True
    then show ?thesis using rx [of s s'] Cons.prems by - (rule exI [of _ 0], auto)
  next
    case False
    with Cons.prems obtain s1 where w: "ssh_packet_send2_wrapped env (s\<lparr>outgoing_packet := snd p, outgoing := ps\<rparr>) = (Inr (), s1)"
      and f: "flush_outgoing env rekex ps s1 = (Inr (), s')"
      by (auto elim!: rbind_InrE)
    have v: "outgoing s1 = ps" "ps_seqnr (p_send s1) = ps_seqnr (p_send s) + 1"
      using sends_wrapped [OF im, of "s\<lparr>outgoing_packet := snd p, outgoing := ps\<rparr>"] w
      by (auto simp: sends_def queue_view_def sent_view_def)
    have t: "tidy 0 s1"
      using tidies_wrapped [of "s\<lparr>outgoing_packet := snd p, outgoing := ps\<rparr>" env] w Cons.prems(4)
      by (fastforce simp: tidy_def queue_ok_def)
    obtain n k where "n \<le> length ps" "k \<le> 1" "outgoing s' = drop n ps"
        "ps_seqnr (p_send s') = ps_seqnr (p_send s1) + of_nat (n + k)"
      using Cons.IH [OF f v(1) t] Cons.prems(4) by (auto simp: queue_ok_def)
    then show ?thesis using v by (intro exI [of _ "Suc n"] exI [of _ k]) simp
  qed
qed

text \<open>A packet of a key-exchange type other than \<open>NEWKEYS\<close> goes out at once.\<close>

lemma send2_with_kex:
  assumes "ssh_packet_type_is_kex (packet_type (outgoing_packet s))"
    and "packet_type (outgoing_packet s) \<noteq> SSH2_MSG_NEWKEYS"
  shows "send2_with env rekex s = send2_with env rekex' s"
  using assms by (simp add: send2_with_def Let_def)

lemma packet_tidy:
  assumes "tidy 0 s" and "\<not> sshbuf_len (outgoing_packet s) < 6"
  shows "tidy 6 s"
  using assms by (metis holds_len linorder_not_less tidy_def)

lemma send2_with_view:
  assumes im: "\<And>i m. im_encrypt (e_crypto env) i m \<noteq> None"
    and rx: "\<And>s s'. tidy 0 s \<Longrightarrow> rekex s = (Inr (), s') \<Longrightarrow> \<exists>k. k \<le> 1 \<and> outgoing s' = outgoing s \<and>
      ps_seqnr (p_send s') = ps_seqnr (p_send s) + of_nat k"
    and res: "send2_with env rekex s = (Inr (), s')" and ok: "tidy 0 s" "queue_ok (outgoing s)"
  defines "ty \<equiv> packet_type (outgoing_packet s)"
  defines "deferred \<equiv> (ssh_packet_need_rekeying env s (sshbuf_len (outgoing_packet s)) \<or> rekeying s) \<and>
    \<not> ssh_packet_type_is_kex ty"
  shows "\<exists>n k. k \<le> 1 \<and> n \<le> length (outgoing s) \<and>
    outgoing s' = drop n (outgoing s) @ (if deferred then [(ty, outgoing_packet s)] else []) \<and>
    ps_seqnr (p_send s') = ps_seqnr (p_send s) + of_nat (n + k) + (if deferred then 0 else 1)"
proof (cases deferred)
  case True
  then have c: "((\<not> ssh_packet_type_is_kex ty \<and>
      ssh_packet_need_rekeying env s (sshbuf_len (outgoing_packet s))) \<or> rekeying s) \<and> \<not> ssh_packet_type_is_kex ty"
    by (auto simp: deferred_def)
  obtain s1 where q: "send2_enqueue env ty s = (Inr (), s1)"
    and r: "(if \<not> ssh_packet_type_is_kex ty \<and>
      ssh_packet_need_rekeying env s (sshbuf_len (outgoing_packet s)) then rekex s1 else (Inr (), s1)) = (Inr (), s')"
    using res c
    by (auto simp: send2_with_def Let_def simp flip: ty_def split: if_splits elim!: rbind_InrE)
  have v: "outgoing s1 = outgoing s @ [(ty, outgoing_packet s)]" "p_send s1 = p_send s" "tidy 0 s1"
    using q holds_new [of "e_alloc env"]
    by (auto simp: send2_enqueue_def Let_def tidy_def split: if_splits option.splits)
  show ?thesis using r v rx [of s1 s'] True
    by - (rule exI [of _ 0], auto split: if_splits)
next
  case False
  define s1 where "s1 = (if ty = SSH2_MSG_KEXINIT then s\<lparr>rekeying := True\<rparr> else s)"
  obtain s2 where w: "ssh_packet_send2_wrapped env s1 = (Inr (), s2)" and l: "\<not> sshbuf_len (outgoing_packet s) < 6"
    and r: "(if ty = SSH2_MSG_NEWKEYS then flush_outgoing env rekex (outgoing s2) (s2\<lparr>rekeying := False, rekey_time := monotime env\<rparr>)
      else (Inr (), s2)) = (Inr (), s')"
    using res False
    by (auto simp: send2_with_def Let_def deferred_def s1_def simp flip: ty_def split: if_splits elim!: rbind_InrE)
  have v: "outgoing s2 = outgoing s" "ps_seqnr (p_send s2) = ps_seqnr (p_send s) + 1"
    using sends_wrapped [OF im, of s1] w by (auto simp: sends_def queue_view_def sent_view_def s1_def split: if_splits)
  have "tidy 5 s1" using tidy_mono [OF packet_tidy [OF ok(1) l], of 5] by (simp add: s1_def)
  then have t: "tidy 0 s2" using tidies_wrapped [of s1 env] w by simp
  show ?thesis
  proof (cases "ty = SSH2_MSG_NEWKEYS")
    case True
    obtain n k where "n \<le> length (outgoing s)" "k \<le> 1" "outgoing s' = drop n (outgoing s)"
        "ps_seqnr (p_send s') = ps_seqnr (p_send s) + 1 + of_nat (n + k)"
      using flush_view [OF im rx, of rekex "outgoing s2" "s2\<lparr>rekeying := False, rekey_time := monotime env\<rparr>" s'] r v True t ok(2)
      by auto
    then show ?thesis using False by (intro exI [of _ n] exI [of _ k]) simp
  next
    case nk: False
    then show ?thesis using r v False by - (rule exI [of _ 0], auto)
  qed
qed

text \<open>The start of an exchange puts at most one packet, the \<open>KEXINIT\<close>, on the wire.\<close>

lemma kexinit_type:
  assumes h: "holds (outgoing_packet s) v" and st: "sshpkt_start env ty s = (Inr (), s1)"
    and pb: "sshpkt_putb env my s1 = (Inr (), s2)"
  shows "packet_type (outgoing_packet s2) = ty" "queue_view s2 = queue_view s" "tidy 0 s2"
proof -
  have h1: "holds (outgoing_packet s1) [0, 0, 0, 0, 0, ty]"
    using st holds_put_any [OF holds_reset [OF h]]
    by (auto simp: sshpkt_start_def outgoing_op_def zoom_def split: prod.splits)
  have h2: "holds (outgoing_packet s2) ([0, 0, 0, 0, 0, ty] @ buf_bytes my)"
    using pb holds_put_any [OF h1]
    by (auto simp: sshpkt_putb_def sshbuf_putb_def buf_bytes_def outgoing_op_def zoom_def split: prod.splits)
  show "packet_type (outgoing_packet s2) = ty"
    using holds_nth [OF h2, of 5] by (simp add: packet_type_def)
  show "tidy 0 s2" using h2 by (auto simp: tidy_def)
  show "queue_view s2 = queue_view s"
    using st pb by (auto simp: sshpkt_start_def sshpkt_putb_def outgoing_op_def zoom_def split: prod.splits)
qed

lemma send2_kexinit_view:
  assumes im: "\<And>i m. im_encrypt (e_crypto env) i m \<noteq> None"
    and ty: "packet_type (outgoing_packet s) = SSH2_MSG_KEXINIT"
    and res: "send2_with env rekex s = (Inr (), s')"
  shows "queue_view s' = sent_view s"
proof -
  have "ssh_packet_send2_wrapped env (s\<lparr>rekeying := True\<rparr>) = (Inr (), s')"
    using res ty
    by (auto simp: send2_with_def Let_def ssh_packet_type_is_kex_def msg_consts split: if_splits elim!: rbind_InrE)
  then show ?thesis
    using sends_wrapped [OF im, of "s\<lparr>rekeying := True\<rparr>"] by (simp add: sends_def sent_view_def)
qed

lemma kexinit_sent:
  assumes im: "\<And>i m. im_encrypt (e_crypto env) i m \<noteq> None" and t: "tidy 0 s"
    and k: "ssh_kex s = Some k" "kex_flags k AND KEX_INIT_SENT = 0"
    and res: "kex_send_kexinit_with env (sshpkt_send_with env (send2_with env rekex)) s = (Inr (), s')"
  shows "queue_view s' = sent_view s"
proof -
  obtain my rg k' s1 s2 s3 where
    st: "sshpkt_start env SSH2_MSG_KEXINIT (s\<lparr>ssh_kex := Some k', rng := rg\<rparr>) = (Inr (), s1)"
    and pb: "sshpkt_putb env my s1 = (Inr (), s2)"
    and sd: "sshpkt_send_with env (send2_with env rekex) s2 = (Inr (), s3)"
    and s': "queue_view s' = queue_view s3"
    using res k
    by (auto simp: kex_send_kexinit_with_def Let_def queue_view_def elim!: rbind_InrE split: if_splits)
  obtain v where h: "holds (outgoing_packet (s\<lparr>ssh_kex := Some k', rng := rg\<rparr>)) v"
    using t by (auto simp: tidy_def)
  note ki = kexinit_type [OF h st pb]
  have mx: "\<not> mux s2"
  proof
    assume "mux s2"
    moreover have "ssh_kex s2 = Some k'"
      using st pb by (auto simp: sshpkt_start_def sshpkt_putb_def outgoing_op_def zoom_def split: prod.splits)
    ultimately show False using sd by (simp add: sshpkt_send_with_def ssh_packet_send_mux_def)
  qed
  have "queue_view s3 = sent_view s2"
    using send2_kexinit_view [OF im ki(1)] sd mx by (simp add: sshpkt_send_with_def)
  then show ?thesis using ki(2) s' by (simp add: queue_view_def sent_view_def)
qed

lemma kex_start_rekex_view:
  assumes im: "\<And>i m. im_encrypt (e_crypto env) i m \<noteq> None"
    and t: "tidy 0 s" and res: "kex_start_rekex env s = (Inr (), s')"
  shows "\<exists>k. k \<le> 1 \<and> outgoing s' = outgoing s \<and> ps_seqnr (p_send s') = ps_seqnr (p_send s) + of_nat k"
proof -
  obtain k where k: "ssh_kex s = Some k" "kex_done k"
    and r: "kex_send_kexinit_with env (sshpkt_send_with env (send2_with env (\<lambda>s. (Inl SSH_ERR_INTERNAL_ERROR, s))))
      (s\<lparr>ssh_kex := Some (k\<lparr>kex_done := False\<rparr>)\<rparr>) = (Inr (), s')"
    using res by (auto simp: kex_start_rekex_def kex_start_rekex_with_def split: option.splits if_splits)
  show ?thesis
  proof (cases "kex_flags k AND KEX_INIT_SENT = 0")
    case False
    then show ?thesis using r by (intro exI [of _ 0]) (auto simp: kex_send_kexinit_with_def)
  next
    case True
    then have "queue_view s' = sent_view (s\<lparr>ssh_kex := Some (k\<lparr>kex_done := False\<rparr>)\<rparr>)"
      using t by (intro kexinit_sent [OF im _ _ _ r, where k = "k\<lparr>kex_done := False\<rparr>"]) (simp_all add: tidy_def)
    then show ?thesis by (intro exI [of _ 1]) (simp add: queue_view_def sent_view_def)
  qed
qed

section \<open>Properties\<close>


text \<open>
  C38. The InterMAC branch reports a packet as sent that it dropped: when \<open>im_encrypt\<close> fails,
  \<open>ssh_packet_send2_wrapped\<close> returns success although no byte was added to the output and the
  sequence number did not advance.
\<close>

theorem intermac_failure_is_silent:
  assumes "holds (outgoing_packet s) (hdr @ body)" and "length hdr = 5"
    and "send_context s = Some cs" and "cipher_is_intermac cs"
    and "\<not> comp_on (keys_comp MODE_OUT s)"
    and "im_encrypt (e_crypto env) (the (cipher_get_intermac_context cs)) body = None"
  shows "\<exists>s'. ssh_packet_send2_wrapped env s = (Inr (), s') \<and>
    output_buf s' = output_buf s \<and> p_send s' = p_send s"
proof -
  define s1 where "s1 = (if server_side s then s
    else record_bytes_sent (packet_type (outgoing_packet s)) (szsub (sshbuf_len (outgoing_packet s)) 6) True s)"
  have f: "outgoing_packet s1 = outgoing_packet s" "output_buf s1 = output_buf s" "send_context s1 = Some cs"
    "p_send s1 = p_send s" "send_conf s1 = send_conf s"
    using assms(3) by (simp_all add: s1_def)
  obtain b where b: "sshbuf_consume (outgoing_packet s) 5 = (Inr (), b)" "holds b body"
    using holds_consume [OF assms(1), of 5] assms(2) by auto
  have "send2_intermac env s1 = (Inr None, s1\<lparr>outgoing_packet := b\<rparr>)"
    using b holds_bytes [OF b(2)] assms(6) by (simp add: send2_intermac_def f op_eq(1))
  then have "ssh_packet_send2_wrapped env s = (Inr (), s1\<lparr>outgoing_packet := b\<rparr>)"
    using assms(3-5) send_conf_keys(4) [OF f(5), of MODE_OUT]
    by (simp add: ssh_packet_send2_wrapped_def Let_def flip: s1_def)
  then show ?thesis using f by auto
qed

section \<open>A sample session\<close>

definition copy_zlib :: "unit zlib" where
  "copy_zlib = \<lparr>z_zeroed = (), deflateInit = (\<lambda>_ _. (Z_OK, ())), inflateInit = (\<lambda>_. (Z_OK, ())),
     deflate = (\<lambda>_ inp n. (Z_OK, take n inp, drop n inp, ())),
     inflate = (\<lambda>_ inp n. (if inp = [] then Z_BUF_ERROR else Z_OK, take n inp, drop n inp, ()))\<rparr>"

definition sample_env :: "(unit, bytes \<times> nat \<times> string, string \<times> bytes, unit, unit) pkt_env" where
  "sample_env = \<lparr>e_crypto = null_crypto, e_md = toy_md, e_umac = toy_umac, e_zlib = copy_zlib,
     e_alloc = plenty, e_um = replicate 64 0, arc4random_byte = (\<lambda>_ _. 7), monotime = 0,
     shl_undefined = (\<lambda>_. 0), write_wait = (\<lambda>b. (Inr (), b)), hook_in = None\<rparr>"

definition sample_ssh :: "(unit, bytes \<times> nat \<times> string, string \<times> bytes, unit, unit) ssh" where
  "sample_ssh = the (ssh_alloc_session_state sample_env)"

lemma sample_ssh_facts [simp]:
  "outgoing_packet sample_ssh = new_buf" "output_buf sample_ssh = new_buf" "input_buf sample_ssh = new_buf"
  "incoming_packet sample_ssh = new_buf" "outgoing sample_ssh = []" "p_send sample_ssh = packet_state_zeroed"
  "p_read sample_ssh = packet_state_zeroed" "rekeying sample_ssh" "\<not> mux sample_ssh" "newkeys sample_ssh mode = None"
  "after_authentication sample_ssh = False" "server_side sample_ssh = False" "extra_pad sample_ssh = 0"
  "packet_discard sample_ssh = 0" "packlen sample_ssh = 0" "ssh_compat sample_ssh = 0" "ssh_kex sample_ssh = None"
  "e_alloc sample_env = plenty"
  by (simp_all add: sample_ssh_def ssh_alloc_session_state_def sample_env_def sshbuf_new_plenty)

lemma new_buf_holds [simp]: "holds new_buf []"
  by (simp add: holds_def)

lemma sample_start:
  "\<exists>b. sshpkt_start sample_env ty sample_ssh = (Inr (), sample_ssh\<lparr>outgoing_packet := b\<rparr>) \<and> holds b [0, 0, 0, 0, 0, ty]"
proof -
  obtain b where "sshbuf_put plenty (sshbuf_reset plenty new_buf) [0, 0, 0, 0, 0, ty] = (Inr (), b)"
      "holds b ([] @ [0, 0, 0, 0, 0, ty])"
    using holds_put [OF plenty_ok holds_reset [OF new_buf_holds, of plenty], of "[0, 0, 0, 0, 0, ty]"]
    by (auto simp: SSHBUF_SIZE_MAX_def)
  then show ?thesis by (auto simp: sshpkt_start_def op_eq(1))
qed


definition im_ctx :: "(unit, bytes \<times> nat \<times> string) sshcipher_ctx" where
  "im_ctx = \<lparr>cc_plaintext = False, cc_encrypt = True, cc_evp = None, cc_cp = zero_chachapoly,
     cc_im = Some ([], 128, ''im-aes128-gcm''), cc_cipher = im_gcm_128\<rparr>"

lemma im_ctx_intermac: "cipher_is_intermac im_ctx"
  unfolding cipher_is_intermac_def im_ctx_def im_gcm_128_def table_simps by simp

lemma intermac_failure_is_silent_witness:
  "case sshpkt_start sample_env 50 sample_ssh of (_, s) \<Rightarrow>
   let env = sample_env\<lparr>e_crypto := null_crypto\<lparr>im_encrypt := (\<lambda>_ _. None)\<rparr>\<rparr> in
   fst (ssh_packet_send2_wrapped env (s\<lparr>send_context := Some im_ctx\<rparr>)) = Inr () \<and>
   output_buf (snd (ssh_packet_send2_wrapped env (s\<lparr>send_context := Some im_ctx\<rparr>))) = new_buf"
proof -
  let ?env = "sample_env\<lparr>e_crypto := null_crypto\<lparr>im_encrypt := (\<lambda>_ _. None)\<rparr>\<rparr>"
  obtain b where b: "sshpkt_start sample_env 50 sample_ssh = (Inr (), sample_ssh\<lparr>outgoing_packet := b\<rparr>)"
      "holds b [0, 0, 0, 0, 0, 50]"
    using sample_start by blast
  let ?s = "sample_ssh\<lparr>outgoing_packet := b, send_context := Some im_ctx\<rparr>"
  have "\<exists>s'. ssh_packet_send2_wrapped ?env ?s = (Inr (), s') \<and> output_buf s' = output_buf ?s \<and> p_send s' = p_send ?s"
    by (rule intermac_failure_is_silent [where hdr = "[0, 0, 0, 0, 0]" and body = "[50]" and cs = im_ctx])
      (use b in \<open>simp_all add: im_ctx_intermac keys_comp_def comp_on_def\<close>)
  then show ?thesis using b by (auto simp: Let_def)
qed

end
