(* ===== verification/Packet_Recv.thy ===== *)
theory Packet_Recv
  imports Packet_Send
begin

text \<open>
  The receiving side of the packet layer: taking bytes from the connection
  (\<open>ssh_packet_process_incoming\<close>), recovering the next packet from them
  (\<open>ssh_packet_read_poll2\<close>, with the InterMAC branch), handling a corrupted packet
  (\<open>ssh_packet_start_discard\<close>), the accessors of the received packet (\<open>sshpkt_get_*\<close>) and the loop
  that answers the transport's own messages (\<open>ssh_packet_read_poll_seqnr\<close>).
\<close>

section \<open>Reading the incoming packet\<close>

definition incoming_op ::
  "(sshbuf \<Rightarrow> (ssherr, sshbuf, 'a) outcome) \<Rightarrow> ('e, 'i, 'd, 'u, 'z) ssh \<Rightarrow> ('e, 'i, 'd, 'u, 'z, 'a) pkt_result" where
  "incoming_op f s = zoom incoming_packet incoming_packet_update f s"

definition input_op ::
  "(sshbuf \<Rightarrow> (ssherr, sshbuf, 'a) outcome) \<Rightarrow> ('e, 'i, 'd, 'u, 'z) ssh \<Rightarrow> ('e, 'i, 'd, 'u, 'z, 'a) pkt_result" where
  "input_op f s = zoom input_buf input_buf_update f s"

definition sshpkt_get where
  "sshpkt_get n = incoming_op (\<lambda>b. sshbuf_get b n)"

definition sshpkt_get_u8 where
  "sshpkt_get_u8 = incoming_op sshbuf_get_u8"

definition sshpkt_get_u32 where
  "sshpkt_get_u32 = incoming_op sshbuf_get_u32"

definition sshpkt_get_u64 where
  "sshpkt_get_u64 = incoming_op sshbuf_get_u64"

text \<open>\<open>want\<close>: whether the caller asks for a copy of the string.\<close>

definition sshpkt_get_string where
  "sshpkt_get_string env want = incoming_op (\<lambda>b. sshbuf_get_string (e_alloc env) b want)"

definition sshpkt_get_string_direct where
  "sshpkt_get_string_direct = incoming_op sshbuf_get_string_direct"

definition sshpkt_get_cstring where
  "sshpkt_get_cstring env want = incoming_op (\<lambda>b. sshbuf_get_cstring (e_alloc env) b want)"

definition sshpkt_get_end ::
  "('e, 'i, 'd, 'u, 'z) ssh \<Rightarrow> ('e, 'i, 'd, 'u, 'z, unit) pkt_result" where
  "sshpkt_get_end s =
     (if sshbuf_len (incoming_packet s) > 0 then (Inl SSH_ERR_UNEXPECTED_TRAILING_DATA, s)
      else (Inr (), s))"

definition sshpkt_ptr :: "('e, 'i, 'd, 'u, 'z) ssh \<Rightarrow> bytes" where
  "sshpkt_ptr s = buf_bytes (incoming_packet s)"

section \<open>Corrupted packets\<close>

text \<open>
  The loop that fills the incoming packet up to \<open>dlen\<close> bytes, 1024 at a time; each pass makes it
  longer, so \<open>dlen\<close> passes are enough.
\<close>

primrec discard_fill :: "alloc_env \<Rightarrow> nat \<Rightarrow> nat \<Rightarrow> sshbuf \<Rightarrow> (ssherr, sshbuf, unit) outcome" where
  "discard_fill al dlen 0 b = (Inr (), b)"
| "discard_fill al dlen (Suc n) b =
     (if sshbuf_len b < dlen
      then rbind (sshbuf_put al b (replicate 1024 0x61)) (\<lambda>_ b. discard_fill al dlen n b)
      else (Inr (), b))"

definition ssh_packet_stop_discard ::
  "('e, 'i, 'd, 'u, 'z) pkt_env \<Rightarrow> ('e, 'i, 'd, 'u, 'z) ssh \<Rightarrow> ('e, 'i, 'd, 'u, 'z, 'a) pkt_result" where
  "ssh_packet_stop_discard env s =
     (if packet_discard_mac s
      then let dlen = (if PACKET_MAX_SIZE > packet_discard_mac_already s
                       then PACKET_MAX_SIZE - packet_discard_mac_already s else PACKET_MAX_SIZE)
           in rbind (incoming_op (discard_fill (e_alloc env) dlen dlen) s) (\<lambda>_ s.
              case mac_compute (e_md env) (e_umac env) (e_um env) (nk_mac (the (newkeys s MODE_IN)))
                     (ps_seqnr (p_read s)) (take dlen (blk (sshbuf_ptr (incoming_packet s)))) 0 of
                (_, m) \<Rightarrow> (Inl SSH_ERR_MAC_INVALID, set_mac MODE_IN m s))
      else (Inl SSH_ERR_MAC_INVALID, s))"

text \<open>The result \<open>None\<close> stands for the return value 0 with no packet.\<close>

definition ssh_packet_start_discard ::
  "('e, 'i, 'd, 'u, 'z) pkt_env \<Rightarrow> nat \<Rightarrow> nat \<Rightarrow> ('e, 'i, 'd, 'u, 'z) ssh \<Rightarrow>
     ('e, 'i, 'd, 'u, 'z, 'a option) pkt_result" where
  "ssh_packet_start_discard env mac_already discard s =
     (let enc = keys_enc MODE_IN s; mac = keys_mac MODE_IN s in
      if enc = None \<or> \<not> cipher_is_cbc (the (enc_cipher (the enc))) \<or>
         (case mac of None \<Rightarrow> False | Some m \<Rightarrow> mac_etm m)
      then rbind (sshpkt_disconnect env ''Packet corrupt'' s) (\<lambda>_ s. (Inl SSH_ERR_MAC_INVALID, s))
      else let s = (if mac_on mac
                    then s\<lparr>packet_discard_mac := True, packet_discard_mac_already := mac_already\<rparr> else s)
           in if sshbuf_len (input_buf s) \<ge> discard then ssh_packet_stop_discard env s
              else (Inr None, s\<lparr>packet_discard := of_nat discard - of_nat (sshbuf_len (input_buf s))\<rparr>))"

definition ssh_packet_process_incoming ::
  "('e, 'i, 'd, 'u, 'z) pkt_env \<Rightarrow> bytes \<Rightarrow> ('e, 'i, 'd, 'u, 'z) ssh \<Rightarrow> ('e, 'i, 'd, 'u, 'z, unit) pkt_result" where
  "ssh_packet_process_incoming env buf s =
     (if packet_discard s \<noteq> 0
      then let s = s\<lparr>keep_alive_timeouts := 0\<rparr> in
           rbind (if length buf \<ge> unat (packet_discard s) then ssh_packet_stop_discard env s
                  else (Inr (), s)) (\<lambda>_ s.
           (Inr (), s\<lparr>packet_discard := packet_discard s - of_nat (length buf)\<rparr>))
      else input_op (\<lambda>b. sshbuf_put (e_alloc env) b buf) s)"

section \<open>Recovering a packet\<close>

definition bad_packlen :: "u32 \<Rightarrow> bool" where
  "bad_packlen n \<longleftrightarrow> unat n < 1 + 4 \<or> unat n > PACKET_MAX_SIZE"

text \<open>The length of the packet. The result \<open>None\<close>: return with no packet.\<close>

definition read_length_aad ::
  "('e, 'i, 'd, 'u, 'z) pkt_env \<Rightarrow> ('e, 'i, 'd, 'u, 'z) ssh \<Rightarrow> ('e, 'i, 'd, 'u, 'z, unit option) pkt_result" where
  "read_length_aad env s =
     (case cipher_get_length (the (receive_context s)) (ps_seqnr (p_read s)) (buf_bytes (input_buf s)) of
        (Inl _, cc) \<Rightarrow> (Inr None, s\<lparr>receive_context := Some cc\<rparr>)
      | (Inr n, cc) \<Rightarrow>
          let s = s\<lparr>receive_context := Some cc, packlen := n\<rparr> in
          if bad_packlen n
          then rbind (sshpkt_disconnect env ''Packet corrupt'' s) (\<lambda>_ s. (Inl SSH_ERR_CONN_CORRUPT, s))
          else (Inr (Some ()), s\<lparr>incoming_packet := sshbuf_reset (e_alloc env) (incoming_packet s)\<rparr>))"

definition read_length_block ::
  "('e, 'i, 'd, 'u, 'z) pkt_env \<Rightarrow> nat \<Rightarrow> ('e, 'i, 'd, 'u, 'z) ssh \<Rightarrow> ('e, 'i, 'd, 'u, 'z, unit option) pkt_result" where
  "read_length_block env block_size s =
     (if sshbuf_len (input_buf s) < block_size then (Inr None, s)
      else rbind (incoming_op (\<lambda>b. sshbuf_reserve (e_alloc env) (sshbuf_reset (e_alloc env) b) block_size) s) (\<lambda>cp s.
        case cipher_crypt (e_crypto env) (the (receive_context s)) (ps_seqnr (p_send s))
               (buf_bytes (input_buf s)) block_size 0 0 of
          (Inl r, cc) \<Rightarrow> (Inl r, s\<lparr>receive_context := Some cc\<rparr>)
        | (Inr dest, cc) \<Rightarrow>
            let b = sshbuf_poke (incoming_packet s) cp dest;
                n = PEEK_U32 (blk (sshbuf_ptr b));
                s = s\<lparr>receive_context := Some cc, incoming_packet := b, packlen := n\<rparr>
            in if bad_packlen n then ssh_packet_start_discard env 0 PACKET_MAX_SIZE s
               else rbind (input_op (\<lambda>b. sshbuf_consume b block_size) s) (\<lambda>_ s. (Inr (Some ()), s))))"

text \<open>
  Decryption and authentication of a packet that has arrived completely. The result is the number
  of encrypted bytes it took.
\<close>

definition read_open ::
  "('e, 'i, 'd, 'u, 'z) pkt_env \<Rightarrow> nat \<Rightarrow> nat \<Rightarrow> nat \<Rightarrow> nat \<Rightarrow> ('e, 'i, 'd, 'u, 'z) ssh \<Rightarrow>
     ('e, 'i, 'd, 'u, 'z, nat option) pkt_result" where
  "read_open env aadlen need authlen maclen s =
     (let src = buf_bytes (input_buf s); seqnr = ps_seqnr (p_read s);
          check = (\<lambda>d tag m. mac_check (e_md env) (e_umac env) (e_um env) m seqnr d tag)
      in rbind (if mac_etm_on (keys_mac MODE_IN s)
                then mac_op MODE_IN (check (take (aadlen + need) src)
                       (take maclen (drop (aadlen + need + authlen) src))) s
                else (Inr (), s)) (\<lambda>_ s.
         rbind (incoming_op (\<lambda>b. sshbuf_reserve (e_alloc env) b (aadlen + need)) s) (\<lambda>cp s.
         case cipher_crypt (e_crypto env) (the (receive_context s)) seqnr src need aadlen authlen of
           (Inl r, cc) \<Rightarrow> (Inl r, s\<lparr>receive_context := Some cc\<rparr>)
         | (Inr dest, cc) \<Rightarrow>
             let s = s\<lparr>receive_context := Some cc,
                       incoming_packet := sshbuf_poke (incoming_packet s) cp dest\<rparr> in
             rbind (input_op (\<lambda>b. sshbuf_consume b (aadlen + need + authlen)) s) (\<lambda>_ s.
             if mac_on (keys_mac MODE_IN s)
             then (case (if mac_etm_on (keys_mac MODE_IN s) then (Inr (), s)
                         else mac_op MODE_IN (check (buf_bytes (incoming_packet s))
                                (take maclen (buf_bytes (input_buf s)))) s) of
                     (Inl SSH_ERR_MAC_INVALID, s) \<Rightarrow>
                       if need > PACKET_MAX_SIZE then (Inl SSH_ERR_INTERNAL_ERROR, s)
                       else ssh_packet_start_discard env (sshbuf_len (incoming_packet s))
                              (PACKET_MAX_SIZE - need) s
                   | (Inl r, s) \<Rightarrow> (Inl r, s)
                   | (Inr _, s) \<Rightarrow>
                       rbind (input_op (\<lambda>b. sshbuf_consume b (mac_len (the (keys_mac MODE_IN s)))) s) (\<lambda>_ s.
                       (Inr (Some (aadlen + need + authlen + maclen)), s)))
             else (Inr (Some (aadlen + need + authlen + maclen)), s)))))"

definition read_packet ::
  "('e, 'i, 'd, 'u, 'z) pkt_env \<Rightarrow> ('e, 'i, 'd, 'u, 'z) ssh \<Rightarrow> ('e, 'i, 'd, 'u, 'z, nat option) pkt_result" where
  "read_packet env s =
     (let authlen = keys_authlen MODE_IN s; mac = keys_mac MODE_IN s;
          maclen = (if mac_on mac then mac_len (the mac) else 0);
          block_size = keys_block_size MODE_IN s; aadlen = keys_aadlen MODE_IN s
      in rbind (if aadlen \<noteq> 0 \<and> packlen s = 0 then read_length_aad env s
                else if packlen s = 0 then read_length_block env block_size s
                else (Inr (Some ()), s)) (\<lambda>go s.
         case go of
           None \<Rightarrow> (Inr None, s)
         | Some _ \<Rightarrow>
             let need = (if aadlen \<noteq> 0 then packlen s else 4 + packlen s - of_nat block_size) in
             if unat need mod block_size \<noteq> 0
             then ssh_packet_start_discard env 0 (PACKET_MAX_SIZE - block_size) s
             else if sshbuf_len (input_buf s) < unat (of_nat aadlen + need + of_nat authlen + of_nat maclen)
             then (Inr None, s)
             else read_open env aadlen (unat need) authlen maclen s))"

text \<open>
  The InterMAC branch: the library is given the whole input buffer; \<open>packlen\<close> adds up the bytes it
  has processed. The result: the size of the decrypted packet and the number of encrypted bytes.
\<close>

definition read_intermac ::
  "('e, 'i, 'd, 'u, 'z) pkt_env \<Rightarrow> ('e, 'i, 'd, 'u, 'z) ssh \<Rightarrow> ('e, 'i, 'd, 'u, 'z, (nat \<times> nat) option) pkt_result" where
  "read_intermac env s =
     (let cc = the (receive_context s) in
      case im_decrypt (e_crypto env) (the (cipher_get_intermac_context cc)) (buf_bytes (input_buf s)) of
        None \<Rightarrow> (Inl SSH_ERR_INTERNAL_ERROR, s)
      | Some (this_processed, decrypted, msize, allocated, im) \<Rightarrow>
          let s = s\<lparr>receive_context := Some (cc\<lparr>cc_im := Some im\<rparr>), packlen := packlen s + this_processed\<rparr> in
          if msize > 0
          then (case sshbuf_from_im (e_alloc env) (Some decrypted) msize allocated of
                  None \<Rightarrow> (Inl SSH_ERR_INTERNAL_ERROR, s)
                | Some b \<Rightarrow>
                    let s = s\<lparr>incoming_packet := b\<rparr>; n = unat (packlen s) in
                    rbind (input_op (\<lambda>b. sshbuf_consume b n) s) (\<lambda>_ s.
                    (Inr (Some (msize, n)), s\<lparr>packlen := 0\<rparr>)))
          else (Inr None, s))"

definition read_uncompress ::
  "('e, 'i, 'd, 'u, 'z) pkt_env \<Rightarrow> ('e, 'i, 'd, 'u, 'z) ssh \<Rightarrow> ('e, 'i, 'd, 'u, 'z, unit) pkt_result" where
  "read_uncompress env s =
     rbind (uncompress_buffer env
              (s\<lparr>compression_buffer := map_option (sshbuf_reset (e_alloc env)) (compression_buffer s)\<rparr>)
              (incoming_packet s)) (\<lambda>_ s.
     incoming_op (\<lambda>b. sshbuf_putb (e_alloc env) (sshbuf_reset (e_alloc env) b)
                        (the (compression_buffer s))) s)"

definition disconnect_and_wait ::
  "('e, 'i, 'd, 'u, 'z) pkt_env \<Rightarrow> string \<Rightarrow> ssherr \<Rightarrow> ('e, 'i, 'd, 'u, 'z) ssh \<Rightarrow> ('e, 'i, 'd, 'u, 'z, 'a) pkt_result" where
  "disconnect_and_wait env msg err s =
     rbind (sshpkt_disconnect env msg s) (\<lambda>_ s.
     rbind (ssh_packet_write_wait env s) (\<lambda>_ s. (Inl err, s)))"

text \<open>Removing the length fields and the padding.\<close>

definition read_unpad ::
  "('e, 'i, 'd, 'u, 'z) pkt_env \<Rightarrow> nat \<Rightarrow> ('e, 'i, 'd, 'u, 'z) ssh \<Rightarrow> ('e, 'i, 'd, 'u, 'z, unit) pkt_result" where
  "read_unpad env block_size s =
     (let s = s\<lparr>p_read := count_packet (unat (packlen s + 4)) block_size (p_read s)\<rparr>;
          padlen = blk (sshbuf_ptr (incoming_packet s)) ! 4
      in if padlen < 4
         then disconnect_and_wait env (''Corrupted padlen '' @ decimal (unat padlen) @ '' on input.'')
                SSH_ERR_CONN_CORRUPT s
         else rbind (incoming_op (\<lambda>b. sshbuf_consume b (4 + 1)) s) (\<lambda>_ s.
              incoming_op (\<lambda>b. sshbuf_consume_end b (unat padlen)) s))"

text \<open>
  The end of the function: the type of the packet, the hook, delayed compression and the check
  whether to exchange keys again.
\<close>

definition read_type ::
  "('e, 'i, 'd, 'u, 'z) pkt_env \<Rightarrow> nat \<Rightarrow> ('e, 'i, 'd, 'u, 'z) ssh \<Rightarrow> ('e, 'i, 'd, 'u, 'z, byte) pkt_result" where
  "read_type env encrypted_received s =
     rbind (sshpkt_get_u8 s) (\<lambda>ty s.
     if ty < SSH2_MSG_MIN \<or> ty \<ge> SSH2_MSG_LOCAL_MIN
     then disconnect_and_wait env (''Invalid ssh2 packet type: '' @ decimal (unat ty))
            SSH_ERR_PROTOCOL_ERROR s
     else let s = (if server_side s then s
                   else record_bytes_receive ty encrypted_received False
                          (record_bytes_receive ty (sshbuf_len (incoming_packet s)) True s)) in
       rbind (case hook_in env of None \<Rightarrow> (Inr ty, s) | Some h \<Rightarrow> incoming_op (\<lambda>b. h b ty) s) (\<lambda>ty s.
       case (if ty = SSH2_MSG_USERAUTH_SUCCESS \<and> \<not> server_side s
             then ssh_packet_enable_delayed_compress env s else (Inr (), s)) of
         (r, s) \<Rightarrow>
           let s = s\<lparr>packlen := 0\<rparr> in
           if ssh_packet_need_rekeying env s 0
           then rbind (kex_start_rekex env s) (\<lambda>_ s. (Inr ty, s))
           else rbind (r, s) (\<lambda>_ s. (Inr ty, s))))"

text \<open>\<open>im_size\<close>: for an InterMAC packet its size.\<close>

definition read_finish ::
  "('e, 'i, 'd, 'u, 'z) pkt_env \<Rightarrow> nat option \<Rightarrow> nat \<Rightarrow> ('e, 'i, 'd, 'u, 'z) ssh \<Rightarrow>
     ('e, 'i, 'd, 'u, 'z, byte \<times> u32 option) pkt_result" where
  "read_finish env im_size encrypted_received s =
     (let block_size = keys_block_size MODE_IN s; seqnr = ps_seqnr (p_read s);
          s = s\<lparr>p_read := next_seqnr (p_read s)\<rparr> in
      if ps_packets (p_read s) = 0 \<and> ssh_compat s AND SSH_BUG_NOREKEY = 0
      then (Inl SSH_ERR_NEED_REKEY, s)
      else rbind (case im_size of
                    Some msize \<Rightarrow> (Inr (), s\<lparr>p_send := count_packet msize block_size (p_send s)\<rparr>)
                  | None \<Rightarrow> read_unpad env block_size s) (\<lambda>_ s.
           rbind (if comp_on (keys_comp MODE_IN s) then read_uncompress env s else (Inr (), s)) (\<lambda>_ s.
           rbind (read_type env encrypted_received s) (\<lambda>ty s.
           (Inr (ty, Some seqnr), s)))))"

definition ssh_packet_read_poll2_mux ::
  "('e, 'i, 'd, 'u, 'z) pkt_env \<Rightarrow> ('e, 'i, 'd, 'u, 'z) ssh \<Rightarrow> ('e, 'i, 'd, 'u, 'z, byte \<times> u32 option) pkt_result" where
  "ssh_packet_read_poll2_mux env s =
     (if ssh_kex s \<noteq> None then (Inl SSH_ERR_INTERNAL_ERROR, s)
      else if packlen s = 0 \<and> sshbuf_len (input_buf s) < 4 + 1 then (Inr (SSH_MSG_NONE, None), s)
      else let cp = buf_bytes (input_buf s); first = (packlen s = 0);
               s = (if first then s\<lparr>packlen := PEEK_U32 cp\<rparr> else s);
               n = unat (packlen s) in
        if first \<and> bad_packlen (packlen s) then (Inl SSH_ERR_MESSAGE_INCOMPLETE, s)
        else if sshbuf_len (input_buf s) < n + 4 then (Inr (SSH_MSG_NONE, None), s)
        else rbind (incoming_op (\<lambda>b. sshbuf_put (e_alloc env) (sshbuf_reset (e_alloc env) b)
                                   (take n (drop 4 cp))) s) (\<lambda>_ s.
             rbind (input_op (\<lambda>b. sshbuf_consume b (n + 4)) s) (\<lambda>_ s.
             rbind (sshpkt_get_u8 s) (\<lambda>_ s.
             rbind (sshpkt_get_u8 s) (\<lambda>ty s.
             (Inr (ty, None), s\<lparr>packlen := 0\<rparr>))))))"

definition ssh_packet_read_poll2 ::
  "('e, 'i, 'd, 'u, 'z) pkt_env \<Rightarrow> ('e, 'i, 'd, 'u, 'z) ssh \<Rightarrow> ('e, 'i, 'd, 'u, 'z, byte \<times> u32 option) pkt_result" where
  "ssh_packet_read_poll2 env s =
     (if mux s then ssh_packet_read_poll2_mux env s
      else if packet_discard s \<noteq> 0 then (Inr (SSH_MSG_NONE, None), s)
      else if cipher_is_intermac (the (receive_context s))
      then rbind (read_intermac env s) (\<lambda>res s.
             case res of None \<Rightarrow> (Inr (SSH_MSG_NONE, None), s)
                       | Some (msize, n) \<Rightarrow> read_finish env (Some msize) n s)
      else rbind (read_packet env s) (\<lambda>res s.
             case res of None \<Rightarrow> (Inr (SSH_MSG_NONE, None), s)
                       | Some n \<Rightarrow> read_finish env None n s))"

text \<open>
  The loop over the transport's own messages, with a bound on the number of messages read in one
  call; \<open>None\<close> when the bound is reached.
\<close>

primrec ssh_packet_read_poll_seqnr ::
  "('e, 'i, 'd, 'u, 'z) pkt_env \<Rightarrow> nat \<Rightarrow> ('e, 'i, 'd, 'u, 'z) ssh \<Rightarrow>
     ('e, 'i, 'd, 'u, 'z, byte \<times> u32 option) pkt_result option" where
  "ssh_packet_read_poll_seqnr env 0 s = None"
| "ssh_packet_read_poll_seqnr env (Suc n) s =
     (case ssh_packet_read_poll2 env s of
        (Inl r, s) \<Rightarrow> Some (Inl r, s)
      | (Inr (ty, seqnr), s) \<Rightarrow>
          let s = (if ty \<noteq> 0 then s\<lparr>keep_alive_timeouts := 0\<rparr> else s) in
          if ty = SSH2_MSG_IGNORE then ssh_packet_read_poll_seqnr env n s
          else if ty = SSH2_MSG_DEBUG
          then (case rbind (sshpkt_get_u8 s) (\<lambda>_ s. rbind (sshpkt_get_string env True s) (\<lambda>_ s.
                     sshpkt_get_string env False s)) of
                  (Inl r, s) \<Rightarrow> Some (Inl r, s)
                | (Inr _, s) \<Rightarrow> ssh_packet_read_poll_seqnr env n s)
          else if ty = SSH2_MSG_DISCONNECT
          then (case rbind (sshpkt_get_u32 s) (\<lambda>_ s. sshpkt_get_string env True s) of
                  (Inl r, s) \<Rightarrow> Some (Inl r, s)
                | (Inr _, s) \<Rightarrow> Some (Inl SSH_ERR_DISCONNECTED, s))
          else if ty = SSH2_MSG_UNIMPLEMENTED
          then (case sshpkt_get_u32 s of
                  (Inl r, s) \<Rightarrow> Some (Inl r, s)
                | (Inr _, s) \<Rightarrow> ssh_packet_read_poll_seqnr env n s)
          else Some (Inr (ty, seqnr), s))"

section \<open>One packet\<close>

lemma in_op_eq:
  "f (incoming_packet s) = (r, b) \<Longrightarrow> incoming_op f s = (r, s\<lparr>incoming_packet := b\<rparr>)"
  "g (input_buf s) = (q, b') \<Longrightarrow> input_op g s = (q, s\<lparr>input_buf := b'\<rparr>)"
  by (simp_all add: incoming_op_def input_op_def zoom_def)

lemma recv_conf_upd [simp]:
  "send_conf (s\<lparr>input_buf := b\<rparr>) = send_conf s" "send_conf (s\<lparr>incoming_packet := b\<rparr>) = send_conf s"
  "send_conf (s\<lparr>receive_context := c\<rparr>) = send_conf s" "send_conf (s\<lparr>packlen := n\<rparr>) = send_conf s"
  "send_conf (s\<lparr>p_read := p\<rparr>) = send_conf s"
  by (simp_all add: send_conf_def)

lemma record_bytes_receive_fields [simp]:
  "incoming_packet (record_bytes_receive ty n raw s) = incoming_packet s"
  "input_buf (record_bytes_receive ty n raw s) = input_buf s"
  "receive_context (record_bytes_receive ty n raw s) = receive_context s"
  "p_read (record_bytes_receive ty n raw s) = p_read s"
  "packet_discard (record_bytes_receive ty n raw s) = packet_discard s"
  "server_side (record_bytes_receive ty n raw s) = server_side s"
  "send_conf (record_bytes_receive ty n raw s) = send_conf s"
  by (simp_all add: record_bytes_receive_def Let_def send_conf_def)

lemma read_packet_aead:
  assumes mem: "\<And>n. malloc_ok (e_alloc env) n"
    and keys: "keys_authlen MODE_IN t = authlen" "authlen \<noteq> 0" "authlen \<le> 64" "keys_block_size MODE_IN t = bs"
    and h: "holds (input_buf t) (sealed @ rest)" "holds (incoming_packet t) v"
    and st: "packlen t = 0" "receive_context t = Some cr"
    and n: "5 \<le> n" "n \<le> PACKET_MAX_SIZE" "n mod bs = 0"
    and gl: "cipher_get_length cr (ps_seqnr (p_read t)) (sealed @ rest) = (Inr (of_nat n), cr1)"
    and op: "cipher_crypt (e_crypto env) cr1 (ps_seqnr (p_read t)) (sealed @ rest) n 4 authlen = (Inr plain, cr2)"
    and len: "length sealed = 4 + n + authlen" "length plain = 4 + n"
  shows "\<exists>bi bo. read_packet env t = (Inr (Some (4 + n + authlen)),
      t\<lparr>receive_context := Some cr2, packlen := of_nat n, incoming_packet := bo, input_buf := bi\<rparr>) \<and>
    holds bi rest \<and> holds bo plain"
proof -
  have aad: "keys_aadlen MODE_IN t = 4" and mac: "keys_mac MODE_IN t = None"
    using keys by (simp_all add: keys_aadlen_def keys_mac_def)
  have n32: "unat (of_nat n :: u32) = n" using n by (simp add: unat_of_nat take_bit_eq_mod PACKET_MAX_SIZE_def)
  then have good: "\<not> bad_packlen (of_nat n)" using n by (simp add: bad_packlen_def)
  let ?b0 = "sshbuf_reset (e_alloc env) (incoming_packet t)"
  let ?t1 = "t\<lparr>receive_context := Some cr1, packlen := of_nat n, incoming_packet := ?b0\<rparr>"
  have rl: "read_length_aad env t = (Inr (Some ()), ?t1)"
    using st gl good holds_bytes [OF h(1)] by (simp add: read_length_aad_def Let_def)
  have "(4 + of_nat n + of_nat authlen :: u32) = of_nat (4 + n + authlen)" by simp
  moreover have "4 + n + authlen < 2 ^ 32" using n keys(3) by (simp add: PACKET_MAX_SIZE_def)
  ultimately have tot: "unat (4 + of_nat n + of_nat authlen :: u32) = 4 + n + authlen"
    by (simp only: unat_of_nat take_bit_eq_mod) simp
  obtain cp b1 where res: "sshbuf_reserve (e_alloc env) ?b0 (4 + n) = (Inr cp, b1)"
    and b1: "\<And>bs. length bs = 4 + n \<Longrightarrow> holds (sshbuf_poke b1 cp bs) ([] @ bs)"
    using holds_reserve [OF mem holds_reset [OF h(2), where al = "e_alloc env"], of "4 + n"] n
    by (auto simp: PACKET_MAX_SIZE_def SSHBUF_SIZE_MAX_def)
  obtain bi where bi: "sshbuf_consume (input_buf t) (4 + n + authlen) = (Inr (), bi)" "holds bi rest"
    using holds_consume [OF h(1), of "4 + n + authlen"] len by auto
  have mac': "keys_mac MODE_IN s = None" if "newkeys s = newkeys t" for s :: "('a, 'b, 'c, 'd, 'e) ssh"
  proof -
    have "keys_mac MODE_IN s = keys_mac MODE_IN t"
      using that by (simp only: keys_mac_def keys_authlen_def keys_enc_def)
    then show ?thesis using mac by simp
  qed
  let ?bo = "sshbuf_poke b1 cp plain"
  have ro: "read_open env 4 n authlen 0 ?t1 = (Inr (Some (4 + n + authlen)),
      t\<lparr>receive_context := Some cr2, packlen := of_nat n, incoming_packet := ?bo, input_buf := bi\<rparr>)"
    using op res bi holds_bytes [OF h(1)]
    by (simp add: read_open_def Let_def mac' mac_etm_on_def mac_on_def in_op_eq)
  have "read_packet env t = (Inr (Some (4 + n + authlen)),
      t\<lparr>receive_context := Some cr2, packlen := of_nat n, incoming_packet := ?bo, input_buf := bi\<rparr>)"
    using rl ro n(3) n32 tot st holds_len [OF h(1)] len
    by (simp add: read_packet_def Let_def keys aad mac mac_on_def)
  then show ?thesis using bi(2) b1 [OF len(2)] by auto
qed

text \<open>A session in which no further key exchange is due.\<close>

definition rekey_off :: "('e, 'i, 'd, 'u, 'z) ssh \<Rightarrow> bool" where
  "rekey_off s \<longleftrightarrow> \<not> after_authentication s \<or> ssh_kex s = None \<or> ssh_compat s AND SSH_BUG_NOREKEY \<noteq> 0"

lemma rekey_off_need: "rekey_off s \<Longrightarrow> \<not> ssh_packet_need_rekeying env s n"
  by (auto simp: rekey_off_def ssh_packet_need_rekeying_def)

lemma rekey_off_conf: "send_conf s = send_conf s' \<Longrightarrow> rekey_off s = rekey_off s'"
  by (simp add: send_conf_def rekey_off_def)

lemma read_unpad_ok:
  assumes h: "holds (incoming_packet t) (packet_plain body pad)" and pad: "4 \<le> length pad" "length pad < 256"
  shows "\<exists>b. read_unpad env bs t = (Inr (),
      t\<lparr>p_read := count_packet (unat (packlen t + 4)) bs (p_read t), incoming_packet := b\<rparr>) \<and> holds b body"
proof -
  have p4: "blk (sshbuf_ptr (incoming_packet t)) ! 4 = of_nat (length pad)"
    using holds_nth [OF h, of 4] by (simp add: packet_plain_def nth_append)
  have up: "unat (of_nat (length pad) :: byte) = length pad" using pad by (simp add: unat_byte)
  have ge: "\<not> (of_nat (length pad) :: byte) < 4" using pad up by (simp add: word_less_nat_alt)
  obtain b1 where b1: "sshbuf_consume (incoming_packet t) 5 = (Inr (), b1)" "holds b1 (body @ pad)"
    using holds_consume [OF h, of 5] by (auto simp: packet_plain_def)
  obtain b2 where b2: "sshbuf_consume_end b1 (length pad) = (Inr (), b2)" "holds b2 body"
    using holds_consume_end [OF b1(2), of "length pad"] by auto
  show ?thesis using p4 ge up b1 b2 by (auto simp: read_unpad_def Let_def in_op_eq(1))
qed

lemma read_type_ok:
  assumes h: "holds (incoming_packet t) (ty # payload)" and ty: "1 \<le> ty" "ty < 192"
    and auth: "\<not> (ty = SSH2_MSG_USERAUTH_SUCCESS \<and> \<not> server_side t)"
    and hook: "hook_in env = None" and off: "rekey_off t"
  shows "\<exists>t'. read_type env n t = (Inr ty, t') \<and> holds (incoming_packet t') payload \<and>
    input_buf t' = input_buf t \<and> receive_context t' = receive_context t \<and> packlen t' = 0 \<and>
    p_read t' = p_read t \<and> packet_discard t' = packet_discard t \<and> send_conf t' = send_conf t"
proof -
  obtain b where b: "sshbuf_get_u8 (incoming_packet t) = (Inr ty, b)" "holds b payload"
    using holds_get_u8 [OF h] by blast
  let ?t1 = "t\<lparr>incoming_packet := b\<rparr>"
  define t2 where "t2 = (if server_side t then ?t1
    else record_bytes_receive ty n False (record_bytes_receive ty (sshbuf_len b) True ?t1))"
  have f: "incoming_packet t2 = b" "input_buf t2 = input_buf t" "receive_context t2 = receive_context t"
    "p_read t2 = p_read t" "packet_discard t2 = packet_discard t" "send_conf t2 = send_conf t"
    "server_side t2 = server_side t"
    by (simp_all add: t2_def)
  have off': "\<not> ssh_packet_need_rekeying env (t2\<lparr>packlen := 0\<rparr>) 0"
    using off rekey_off_conf [of "t2\<lparr>packlen := 0\<rparr>" t] by (intro rekey_off_need) (simp add: f)
  have rng: "\<not> (ty < SSH2_MSG_MIN \<or> ty \<ge> SSH2_MSG_LOCAL_MIN)" using ty by (auto simp: msg_consts)
  have "read_type env n t = (Inr ty, t2\<lparr>packlen := 0\<rparr>)"
    using b(1) hook auth off' rng unfolding t2_def
    by (cases "server_side t") (auto simp: read_type_def sshpkt_get_u8_def in_op_eq(1) Let_def)
  then show ?thesis using b(2) f by auto
qed

lemma read_finish_ok:
  assumes h: "holds (incoming_packet t) (packet_plain (ty # payload) pad)" and pad: "4 \<le> length pad" "length pad < 256"
    and ty: "1 \<le> ty" "ty < 192" and auth: "\<not> (ty = SSH2_MSG_USERAUTH_SUCCESS \<and> \<not> server_side t)"
    and hook: "hook_in env = None" and off: "rekey_off t" and nocomp: "\<not> comp_on (keys_comp MODE_IN t)"
    and pk: "ps_packets (p_read t) + 1 \<noteq> 0"
  shows "\<exists>t'. read_finish env None n t = (Inr (ty, Some (ps_seqnr (p_read t))), t') \<and>
    holds (incoming_packet t') payload \<and> input_buf t' = input_buf t \<and> receive_context t' = receive_context t \<and>
    packlen t' = 0 \<and> packet_discard t' = packet_discard t \<and> send_conf t' = send_conf t \<and>
    ps_seqnr (p_read t') = ps_seqnr (p_read t) + 1 \<and> ps_packets (p_read t') = ps_packets (p_read t) + 1"
proof -
  let ?t1 = "t\<lparr>p_read := next_seqnr (p_read t)\<rparr>"
  have pk': "ps_packets (next_seqnr (p_read t)) \<noteq> 0" using pk by (simp add: next_seqnr_def)
  obtain b where b: "read_unpad env (keys_block_size MODE_IN t) ?t1 = (Inr (),
      ?t1\<lparr>p_read := count_packet (unat (packlen ?t1 + 4)) (keys_block_size MODE_IN t) (p_read ?t1), incoming_packet := b\<rparr>)"
      "holds b (ty # payload)"
    using read_unpad_ok [of ?t1 "ty # payload" pad env] h pad by auto
  let ?t2 = "t\<lparr>p_read := count_packet (unat (packlen t + 4)) (keys_block_size MODE_IN t) (next_seqnr (p_read t)), incoming_packet := b\<rparr>"
  have c2: "send_conf ?t2 = send_conf t" by simp
  then have nc: "\<not> comp_on (keys_comp MODE_IN ?t2)" and o2: "rekey_off ?t2"
    using nocomp off send_conf_keys(4) [OF c2, of MODE_IN] rekey_off_conf [OF c2] by simp_all
  obtain t' where t': "read_type env n ?t2 = (Inr ty, t')" "holds (incoming_packet t') payload"
      "input_buf t' = input_buf t" "receive_context t' = receive_context t" "packlen t' = 0"
      "p_read t' = p_read ?t2" "packet_discard t' = packet_discard t" "send_conf t' = send_conf t"
    using read_type_ok [of ?t2 ty payload env n] b(2) ty auth hook o2 by auto
  have "read_finish env None n t = (Inr (ty, Some (ps_seqnr (p_read t))), t')"
    using b(1) pk' nc t'(1) by (simp add: read_finish_def Let_def)
  then show ?thesis using t' by (simp add: count_packet_def next_seqnr_def)
qed

section \<open>A stream of messages\<close>

text \<open>
  A message is its type and its payload. Sending it composes a packet and passes it to
  \<open>sshpkt_send\<close>; receiving it takes the next packet and what is left of it after the type.
\<close>

type_synonym message = "byte \<times> bytes"

definition send_msg ::
  "('e, 'i, 'd, 'u, 'z) pkt_env \<Rightarrow> message \<Rightarrow> ('e, 'i, 'd, 'u, 'z) ssh \<Rightarrow> ('e, 'i, 'd, 'u, 'z, unit) pkt_result" where
  "send_msg env m s =
     rbind (sshpkt_start env (fst m) s) (\<lambda>_ s. rbind (sshpkt_put env (snd m) s) (\<lambda>_ s. sshpkt_send env s))"

primrec send_msgs ::
  "('e, 'i, 'd, 'u, 'z) pkt_env \<Rightarrow> message list \<Rightarrow> ('e, 'i, 'd, 'u, 'z) ssh \<Rightarrow> ('e, 'i, 'd, 'u, 'z, unit) pkt_result" where
  "send_msgs env [] s = (Inr (), s)"
| "send_msgs env (m # ms) s = rbind (send_msg env m s) (\<lambda>_ s. send_msgs env ms s)"

primrec recv_msgs ::
  "('e, 'i, 'd, 'u, 'z) pkt_env \<Rightarrow> nat \<Rightarrow> ('e, 'i, 'd, 'u, 'z) ssh \<Rightarrow> ('e, 'i, 'd, 'u, 'z, message list) pkt_result" where
  "recv_msgs env 0 t = (Inr [], t)"
| "recv_msgs env (Suc n) t =
     rbind (ssh_packet_read_poll2 env t) (\<lambda>(ty, _) t1.
     rbind (recv_msgs env n t1) (\<lambda>ms t2. (Inr ((ty, sshpkt_ptr t1) # ms), t2)))"

text \<open>Messages with no effect on the keys or the compression.\<close>

definition msg_ok :: "message \<Rightarrow> bool" where
  "msg_ok m \<longleftrightarrow> 1 \<le> fst m \<and> fst m < 192 \<and> fst m \<noteq> SSH2_MSG_KEXINIT \<and> fst m \<noteq> SSH2_MSG_NEWKEYS \<and>
     fst m \<noteq> SSH2_MSG_USERAUTH_SUCCESS \<and> length (snd m) + 100 \<le> PACKET_MAX_SIZE"

definition can_send :: "nat \<Rightarrow> nat \<Rightarrow> (('e, 'i) sshcipher_ctx \<Rightarrow> bool) \<Rightarrow> ('e, 'i, 'd, 'u, 'z) ssh \<Rightarrow> bool" where
  "can_send bs authlen ready s \<longleftrightarrow>
     \<not> mux s \<and> \<not> rekeying s \<and> rekey_off s \<and> extra_pad s = 0 \<and> keys_authlen MODE_OUT s = authlen \<and>
     keys_block_size MODE_OUT s = bs \<and> \<not> comp_on (keys_comp MODE_OUT s) \<and>
     (\<exists>cs. send_context s = Some cs \<and> ready cs) \<and> (\<exists>v. holds (outgoing_packet s) v)"

definition can_receive :: "nat \<Rightarrow> nat \<Rightarrow> ('e, 'i, 'd, 'u, 'z) ssh \<Rightarrow> bool" where
  "can_receive bs authlen t \<longleftrightarrow>
     \<not> mux t \<and> rekey_off t \<and> keys_authlen MODE_IN t = authlen \<and> keys_block_size MODE_IN t = bs \<and>
     \<not> comp_on (keys_comp MODE_IN t) \<and> packlen t = 0 \<and> packet_discard t = 0 \<and>
     (\<exists>v. holds (incoming_packet t) v)"

definition in_step ::
  "(('e, 'i) sshcipher_ctx \<Rightarrow> ('e, 'i) sshcipher_ctx \<Rightarrow> bool) \<Rightarrow> ('e, 'i, 'd, 'u, 'z) ssh \<Rightarrow> ('e, 'i, 'd, 'u, 'z) ssh \<Rightarrow> bool" where
  "in_step linked s t \<longleftrightarrow> ps_seqnr (p_send s) = ps_seqnr (p_read t) \<and>
     (\<exists>cs cr. send_context s = Some cs \<and> receive_context t = Some cr \<and> linked cs cr)"

definition env_ok :: "('e, 'i) crypto \<Rightarrow> ('e, 'i, 'd, 'u, 'z) pkt_env \<Rightarrow> bool" where
  "env_ok lib env \<longleftrightarrow> e_crypto env = lib \<and> (\<forall>n. malloc_ok (e_alloc env) n) \<and> hook_in env = None"

lemma send2_direct:
  assumes "\<not> mux s" and "\<not> rekeying s" and "rekey_off s" and "holds (outgoing_packet s) ([0, 0, 0, 0, 0] @ ty # p)"
    and "ty \<noteq> SSH2_MSG_KEXINIT" and "ty \<noteq> SSH2_MSG_NEWKEYS"
  shows "sshpkt_send env s = ssh_packet_send2_wrapped env s"
proof -
  have "packet_type (outgoing_packet s) = ty" using holds_nth [OF assms(4), of 5] by (simp add: packet_type_def)
  then show ?thesis
    using assms rekey_off_need [OF assms(3)] holds_len [OF assms(4)]
    by (cases "ssh_packet_send2_wrapped env s"; cases "fst (ssh_packet_send2_wrapped env s)")
      (auto simp: sshpkt_send_def sshpkt_send_with_def ssh_packet_send2_def send2_with_def Let_def rbind_def)
qed

lemma send_msg_compose:
  assumes mem: "\<And>n. malloc_ok (e_alloc env) n" and h: "holds (outgoing_packet s) v"
    and len: "length (snd m) + 100 \<le> PACKET_MAX_SIZE"
  shows "\<exists>b. send_msg env m s = sshpkt_send env (s\<lparr>outgoing_packet := b\<rparr>) \<and>
    holds b ([0, 0, 0, 0, 0] @ fst m # snd m)"
proof -
  obtain b1 where b1: "sshbuf_put (e_alloc env) (sshbuf_reset (e_alloc env) (outgoing_packet s)) [0, 0, 0, 0, 0, fst m] = (Inr (), b1)"
      "holds b1 [0, 0, 0, 0, 0, fst m]"
    using holds_put [OF mem holds_reset [OF h, where al = "e_alloc env"], of "[0, 0, 0, 0, 0, fst m]"]
    by (auto simp: SSHBUF_SIZE_MAX_def)
  obtain b2 where b2: "sshbuf_put (e_alloc env) b1 (snd m) = (Inr (), b2)" "holds b2 ([0, 0, 0, 0, 0, fst m] @ snd m)"
    using holds_put [OF mem b1(2), of "snd m"] len by (auto simp: SSHBUF_SIZE_MAX_def PACKET_MAX_SIZE_def)
  show ?thesis using b1 b2 by (auto simp: send_msg_def sshpkt_start_def sshpkt_put_def op_eq(1))
qed

text \<open>
  What the packet layer relies on in an authenticated cipher: a context that is ready seals every
  packet, and a receiving context linked to it reads the length and opens the packet, whatever
  follows it in the input, after which the two contexts are linked again.
\<close>

locale aead_link =
  fixes lib :: "('e, 'i) crypto" and bs authlen :: nat
    and ready :: "('e, 'i) sshcipher_ctx \<Rightarrow> bool"
    and linked :: "('e, 'i) sshcipher_ctx \<Rightarrow> ('e, 'i) sshcipher_ctx \<Rightarrow> bool"
  assumes sizes: "4 \<le> bs" "bs \<le> 64" "0 < authlen" "authlen \<le> 64"
    and seal: "ready cs \<Longrightarrow> length src = 4 + len \<Longrightarrow> len mod bs = 0 \<Longrightarrow>
      \<exists>sealed cs'. cipher_crypt lib cs seqnr src len 4 authlen = (Inr sealed, cs') \<and>
        length sealed = 4 + len + authlen \<and> ready cs' \<and>
        (\<forall>cr rest. linked cs cr \<longrightarrow> (\<exists>cr1 cr2.
           cipher_get_length cr seqnr (sealed @ rest) = (Inr (PEEK_U32 src), cr1) \<and>
           cipher_crypt lib cr1 seqnr (sealed @ rest) len 4 authlen = (Inr src, cr2) \<and> linked cs' cr2))"
    and ordinary: "ready cs \<Longrightarrow> \<not> cipher_is_intermac cs" "linked cs cr \<Longrightarrow> \<not> cipher_is_intermac cr"
begin

text \<open>What a sealed packet is to the receiver.\<close>

definition opens :: "('e, 'i) sshcipher_ctx \<Rightarrow> u32 \<Rightarrow> bytes \<Rightarrow> bytes \<Rightarrow> ('e, 'i) sshcipher_ctx \<Rightarrow> bool" where
  "opens cs seqnr sealed src cs' \<longleftrightarrow> ready cs' \<and> (\<forall>cr rest. linked cs cr \<longrightarrow> (\<exists>cr1 cr2.
     cipher_get_length cr seqnr (sealed @ rest) = (Inr (PEEK_U32 src), cr1) \<and>
     cipher_crypt lib cr1 seqnr (sealed @ rest) (length src - 4) 4 authlen = (Inr src, cr2) \<and> linked cs' cr2))"

lemma send_one:
  assumes env: "env_ok lib env" and s: "can_send bs authlen ready s" and m: "msg_ok m"
    and out: "holds (output_buf s) out" and pk: "ps_packets (p_send s) + 1 \<noteq> 0"
    and room: "length out + length (snd m) + 200 \<le> SSHBUF_SIZE_MAX"
  shows "\<exists>s' pad sealed cs cs'. send_msg env m s = (Inr (), s') \<and> can_send bs authlen ready s' \<and>
    holds (output_buf s') (out @ sealed) \<and> length sealed = 6 + length (snd m) + length pad + authlen \<and>
    4 \<le> length pad \<and> length pad < 4 + bs \<and> (2 + length (snd m) + length pad) mod bs = 0 \<and>
    send_context s = Some cs \<and> send_context s' = Some cs' \<and>
    opens cs (ps_seqnr (p_send s)) sealed (packet_plain (fst m # snd m) pad) cs' \<and>
    ps_seqnr (p_send s') = ps_seqnr (p_send s) + 1 \<and> ps_packets (p_send s') = ps_packets (p_send s) + 1"
proof -
  obtain cs v where cs: "send_context s = Some cs" "ready cs" and v: "holds (outgoing_packet s) v"
    using s by (auto simp: can_send_def)
  have mem: "malloc_ok (e_alloc env) n" and lib: "e_crypto env = lib" for n using env by (auto simp: env_ok_def)
  have len: "length (snd m) + 100 \<le> PACKET_MAX_SIZE" using m by (simp add: msg_ok_def)
  obtain b where b: "send_msg env m s = sshpkt_send env (s\<lparr>outgoing_packet := b\<rparr>)"
      "holds b ([0, 0, 0, 0, 0] @ fst m # snd m)"
    using send_msg_compose [OF mem v len] by blast
  let ?s = "s\<lparr>outgoing_packet := b\<rparr>" and ?body = "fst m # snd m"
  have c: "send_conf ?s = send_conf s" by simp
  note k = send_conf_keys [OF c, of MODE_OUT]
  have direct: "sshpkt_send env ?s = ssh_packet_send2_wrapped env ?s"
    using send2_direct [of ?s "fst m" "snd m" env] s m b(2) rekey_off_conf [OF c]
    by (simp add: can_send_def msg_ok_def)
  have crypt: "\<exists>sealed cs'. cipher_crypt (e_crypto env) cs (ps_seqnr (p_send ?s)) (packet_plain ?body pad)
        (1 + length ?body + length pad) 4 authlen = (Inr sealed, cs') \<and>
        length sealed = 5 + length ?body + length pad + authlen \<and>
        opens cs (ps_seqnr (p_send s)) sealed (packet_plain ?body pad) cs'"
    if "length pad = unat (pad_min bs (1 + length ?body))" for pad
    using seal [OF cs(2), of "packet_plain ?body pad" "1 + length ?body + length pad" "ps_seqnr (p_send s)"]
      pad_min_ok(3) [OF sizes(1,2), of "1 + length ?body"] that
    by (auto simp: lib opens_def)
  obtain s' pad sealed cs' where r: "ssh_packet_send2_wrapped env ?s = (Inr (), s')"
      "length pad = unat (pad_min bs (1 + length ?body))" "opens cs (ps_seqnr (p_send s)) sealed (packet_plain ?body pad) cs'"
      "holds (output_buf s') (out @ sealed)" "holds (outgoing_packet s') []"
      "length sealed = 5 + length ?body + length pad + authlen" "send_context s' = Some cs'"
      "send_conf s' = send_conf ?s" "extra_pad s' = 0"
      "p_send s' = count_packet (5 + length ?body + length pad) bs (next_seqnr (p_send ?s))"
    using send2_wrapped_aead [of env ?s ?body out authlen bs cs
        "\<lambda>sealed pad cs'. opens cs (ps_seqnr (p_send s)) sealed (packet_plain ?body pad) cs'"]
      mem b(2) out len s k cs ordinary(1) [OF cs(2)] sizes crypt m pk room
    by (auto simp: can_send_def msg_ok_def)
  have "can_send bs authlen ready s'"
    using s r(3,5,7,9) r(8) send_conf_keys [OF r(8), of MODE_OUT] k rekey_off_conf [OF r(8)] rekey_off_conf [OF c]
    by (auto simp: can_send_def opens_def send_conf_def)
  moreover have "4 \<le> length pad" "length pad < 4 + bs" "(2 + length (snd m) + length pad) mod bs = 0"
    using pad_min_ok [OF sizes(1,2), of "1 + length ?body"] r(2) by simp_all
  ultimately show ?thesis
    using r b(1) direct cs(1) by (intro exI [of _ s'] exI [of _ pad] exI [of _ sealed] exI [of _ cs] exI [of _ cs'])
      (simp add: count_packet_def next_seqnr_def)
qed

lemma receive_one:
  assumes env: "env_ok lib env" and t: "can_receive bs authlen t" and m: "msg_ok m"
    and st: "in_step linked s t" "send_context s = Some cs"
    and op: "opens cs (ps_seqnr (p_send s)) sealed (packet_plain (fst m # snd m) pad) cs'"
    and pad: "4 \<le> length pad" "length pad < 4 + bs" "(2 + length (snd m) + length pad) mod bs = 0"
    and len: "length sealed = 6 + length (snd m) + length pad + authlen"
    and inp: "holds (input_buf t) (sealed @ rest)" and pk: "ps_packets (p_read t) + 1 \<noteq> 0"
  shows "\<exists>t' cr. ssh_packet_read_poll2 env t = (Inr (fst m, Some (ps_seqnr (p_read t))), t') \<and>
    can_receive bs authlen t' \<and> holds (incoming_packet t') (snd m) \<and> holds (input_buf t') rest \<and>
    receive_context t' = Some cr \<and> linked cs' cr \<and>
    ps_seqnr (p_read t') = ps_seqnr (p_read t) + 1 \<and> ps_packets (p_read t') = ps_packets (p_read t) + 1"
proof -
  let ?body = "fst m # snd m" let ?n = "2 + length (snd m) + length pad" let ?src = "packet_plain ?body pad"
  have mem: "malloc_ok (e_alloc env) n" and lib: "e_crypto env = lib" and hook: "hook_in env = None" for n
    using env by (auto simp: env_ok_def)
  obtain cr v where cr: "receive_context t = Some cr" "linked cs cr" and v: "holds (incoming_packet t) v"
    using st t by (auto simp: in_step_def can_receive_def)
  have sq: "ps_seqnr (p_read t) = ps_seqnr (p_send s)" using st by (simp add: in_step_def)
  have pk4: "PEEK_U32 ?src = of_nat ?n" by (simp add: packet_plain_def)
  obtain cr1 cr2 where c: "cipher_get_length cr (ps_seqnr (p_read t)) (sealed @ rest) = (Inr (of_nat ?n), cr1)"
      "cipher_crypt lib cr1 (ps_seqnr (p_read t)) (sealed @ rest) ?n 4 authlen = (Inr ?src, cr2)" "linked cs' cr2"
    using op cr(2) sq pk4 unfolding opens_def by (fastforce simp: numeral_eq_Suc)
  have small: "5 \<le> ?n" "?n \<le> PACKET_MAX_SIZE"
    using pad m sizes by (simp_all add: msg_ok_def)
  obtain bi bo where rp: "read_packet env t = (Inr (Some (4 + ?n + authlen)),
      t\<lparr>receive_context := Some cr2, packlen := of_nat ?n, incoming_packet := bo, input_buf := bi\<rparr>)"
      "holds bi rest" "holds bo ?src"
    using read_packet_aead [OF mem, of t authlen bs sealed rest v cr ?n cr1 ?src cr2] t sizes inp v cr(1) small c pad(3) len
    by (auto simp: can_receive_def lib)
  let ?t1 = "t\<lparr>receive_context := Some cr2, packlen := of_nat ?n, incoming_packet := bo, input_buf := bi\<rparr>"
  have c1: "send_conf ?t1 = send_conf t" by simp
  obtain t' where f: "read_finish env None (4 + ?n + authlen) ?t1 = (Inr (fst m, Some (ps_seqnr (p_read t))), t')"
      "holds (incoming_packet t') (snd m)" "input_buf t' = bi" "receive_context t' = Some cr2" "packlen t' = 0"
      "packet_discard t' = packet_discard t" "send_conf t' = send_conf t"
      "ps_seqnr (p_read t') = ps_seqnr (p_read t) + 1" "ps_packets (p_read t') = ps_packets (p_read t) + 1"
    using read_finish_ok [of ?t1 "fst m" "snd m" pad env "4 + ?n + authlen"] rp(3) pad sizes m hook t pk
      rekey_off_conf [OF c1] send_conf_keys(4) [OF c1, of MODE_IN]
    by (auto simp: can_receive_def msg_ok_def)
  have "can_receive bs authlen t'"
    using t f(2,5,6) send_conf_keys [OF f(7), of MODE_IN] rekey_off_conf [OF f(7)] f(7)
    by (auto simp: can_receive_def send_conf_def)
  moreover have "ssh_packet_read_poll2 env t = (Inr (fst m, Some (ps_seqnr (p_read t))), t')"
    using t cr rp(1) f(1) ordinary(2) [OF cr(2)] by (simp add: ssh_packet_read_poll2_def can_receive_def)
  ultimately show ?thesis using f rp(2) c(3) by (intro exI [of _ t'] exI [of _ cr2]) simp
qed

lemma packets_next: "unat (p :: u32) + Suc n < 2 ^ 32 \<Longrightarrow> p + 1 \<noteq> 0 \<and> unat (p + 1) = unat p + 1"
proof -
  assume "unat p + Suc n < 2 ^ 32"
  then have "unat (p + 1) = unat p + 1" by (simp add: unat_word_ariths)
  then show ?thesis by (auto simp: unat_eq_0 [symmetric])
qed

text \<open>
  Sending the messages one after the other adds bytes to the output from which a receiver in step
  recovers exactly these messages, and is then in step again.
\<close>

lemma stream:
  assumes "env_ok lib env" and "env_ok lib env'"
    and "can_send bs authlen ready s" and "\<forall>m\<in>set ms. msg_ok m" and "holds (output_buf s) out"
    and "length out + sum_list (map (\<lambda>m. length (snd m) + 200) ms) \<le> SSHBUF_SIZE_MAX"
    and "unat (ps_packets (p_send s)) + length ms < 2 ^ 32"
  shows "\<exists>s' w. send_msgs env ms s = (Inr (), s') \<and> can_send bs authlen ready s' \<and> holds (output_buf s') (out @ w) \<and>
    (\<forall>t rest. can_receive bs authlen t \<longrightarrow> in_step linked s t \<longrightarrow> holds (input_buf t) (w @ rest) \<longrightarrow>
       unat (ps_packets (p_read t)) + length ms < 2 ^ 32 \<longrightarrow>
       (\<exists>t'. recv_msgs env' (length ms) t = (Inr ms, t') \<and> can_receive bs authlen t' \<and> in_step linked s' t' \<and>
          holds (input_buf t') rest))"
  using assms(3-7)
proof (induction ms arbitrary: s out)
  case Nil
  then show ?case by (intro exI [of _ s] exI [of _ "[]"]) auto
next
  case (Cons m ms)
  have pk: "ps_packets (p_send s) + 1 \<noteq> 0" "unat (ps_packets (p_send s) + 1) = unat (ps_packets (p_send s)) + 1"
    using packets_next [of "ps_packets (p_send s)" "length ms"] Cons.prems(5) by simp_all
  have mo: "msg_ok m" "\<forall>m\<in>set ms. msg_ok m" using Cons.prems(2) by simp_all
  obtain s1 pad sealed cs cs1 where one: "send_msg env m s = (Inr (), s1)" "can_send bs authlen ready s1"
      "holds (output_buf s1) (out @ sealed)" "length sealed = 6 + length (snd m) + length pad + authlen"
      "4 \<le> length pad" "length pad < 4 + bs" "(2 + length (snd m) + length pad) mod bs = 0"
      "send_context s = Some cs" "send_context s1 = Some cs1"
      "opens cs (ps_seqnr (p_send s)) sealed (packet_plain (fst m # snd m) pad) cs1"
      "ps_seqnr (p_send s1) = ps_seqnr (p_send s) + 1" "ps_packets (p_send s1) = ps_packets (p_send s) + 1"
    using send_one [OF assms(1) Cons.prems(1) mo(1) Cons.prems(3) pk(1)] Cons.prems(4) by auto
  have room: "length (out @ sealed) + sum_list (map (\<lambda>m. length (snd m) + 200) ms) \<le> SSHBUF_SIZE_MAX"
    using Cons.prems(4) one(4,6) sizes by simp
  obtain s' w where r: "send_msgs env ms s1 = (Inr (), s')" "can_send bs authlen ready s'"
      "holds (output_buf s') ((out @ sealed) @ w)"
    and rc: "\<And>t rest. can_receive bs authlen t \<Longrightarrow> in_step linked s1 t \<Longrightarrow> holds (input_buf t) (w @ rest) \<Longrightarrow>
       unat (ps_packets (p_read t)) + length ms < 2 ^ 32 \<Longrightarrow>
       \<exists>t'. recv_msgs env' (length ms) t = (Inr ms, t') \<and> can_receive bs authlen t' \<and> in_step linked s' t' \<and>
          holds (input_buf t') rest"
    using Cons.IH [OF one(2) mo(2) one(3) room] Cons.prems(5) pk(2) one(12) by auto
  have "\<exists>t'. recv_msgs env' (Suc (length ms)) t = (Inr (m # ms), t') \<and> can_receive bs authlen t' \<and>
      in_step linked s' t' \<and> holds (input_buf t') rest"
    if t: "can_receive bs authlen t" "in_step linked s t" "holds (input_buf t) ((sealed @ w) @ rest)"
      "unat (ps_packets (p_read t)) + Suc (length ms) < 2 ^ 32" for t rest
  proof -
    note pt = packets_next [OF t(4)]
    obtain t1 cr where t1: "ssh_packet_read_poll2 env' t = (Inr (fst m, Some (ps_seqnr (p_read t))), t1)"
        "can_receive bs authlen t1" "holds (incoming_packet t1) (snd m)" "holds (input_buf t1) (w @ rest)"
        "receive_context t1 = Some cr" "linked cs1 cr" "ps_seqnr (p_read t1) = ps_seqnr (p_read t) + 1"
        "ps_packets (p_read t1) = ps_packets (p_read t) + 1"
      using receive_one [OF assms(2) t(1) mo(1) t(2) one(8,10,5,6,7,4), of "w @ rest"] t(3) pt by auto
    have "in_step linked s1 t1" using t(2) t1(5-7) one(9,11) by (simp add: in_step_def)
    then obtain t' where "recv_msgs env' (length ms) t1 = (Inr ms, t')" "can_receive bs authlen t'"
        "in_step linked s' t'" "holds (input_buf t') rest"
      using rc [OF t1(2) _ t1(4)] t1(8) pt t(4) by auto
    then show ?thesis using t1(1) holds_bytes [OF t1(3)] by (auto simp: sshpkt_ptr_def)
  qed
  then show ?case using one(1) r by (intro exI [of _ s'] exI [of _ "sealed @ w"]) auto
qed

end

section \<open>ChaCha20-Poly1305\<close>

definition cp_ready :: "('e, 'i) sshcipher_ctx \<Rightarrow> bool" where
  "cp_ready cs \<longleftrightarrow> is_chachapoly (cc_cipher cs) \<and> \<not> is_intermac (cc_cipher cs) \<and> cc_encrypt cs \<and>
     same_keys (cc_cp cs) (cc_cp cs)"

definition cp_linked :: "('e, 'i) sshcipher_ctx \<Rightarrow> ('e, 'i) sshcipher_ctx \<Rightarrow> bool" where
  "cp_linked cs cr \<longleftrightarrow> is_chachapoly (cc_cipher cr) \<and> \<not> is_intermac (cc_cipher cr) \<and> \<not> cc_encrypt cr \<and>
     same_keys (cc_cp cs) (cc_cp cr)"

lemma cp_seal:
  assumes r: "cp_ready cs" and len: "length src = 4 + len"
  shows "\<exists>sealed cs'. cipher_crypt lib cs seqnr src len 4 16 = (Inr sealed, cs') \<and>
    length sealed = 4 + len + 16 \<and> cp_ready cs' \<and>
    (\<forall>cr rest. cp_linked cs cr \<longrightarrow> (\<exists>cr1 cr2.
       cipher_get_length cr seqnr (sealed @ rest) = (Inr (PEEK_U32 src), cr1) \<and>
       cipher_crypt lib cr1 seqnr (sealed @ rest) len 4 16 = (Inr src, cr2) \<and> cp_linked cs' cr2))"
proof -
  let ?x = "chachapoly_crypt (cc_cp cs) seqnr src len 4 True"
  have k: "same_keys (cc_cp cs) (cc_cp cs)" "is_chachapoly (cc_cipher cs)" "cc_encrypt cs"
    using r by (auto simp: cp_ready_def)
  obtain sealed where se: "fst ?x = Inr sealed" "length sealed = 4 + len + 16"
    using chachapoly_seal_open [OF k(1) len, of seqnr "[]"] by (auto simp: POLY1305_TAGLEN_def)
  let ?cs = "cs\<lparr>cc_cp := snd ?x\<rparr>"
  have sk: "same_keys (snd ?x) (cc_cp cs)" by (rule chachapoly_keeps_keys [OF k(1)])
  have sealc: "cipher_crypt lib cs seqnr src len 4 16 = (Inr sealed, ?cs)"
    using k se(1) by (simp add: cipher_crypt_def case_prod_beta)
  have ready: "cp_ready ?cs" using r same_keys_refl(1) [OF sk] by (simp add: cp_ready_def)
  have "\<exists>cr1 cr2. cipher_get_length cr seqnr (sealed @ rest) = (Inr (PEEK_U32 src), cr1) \<and>
       cipher_crypt lib cr1 seqnr (sealed @ rest) len 4 16 = (Inr src, cr2) \<and> cp_linked ?cs cr2"
    if l: "cp_linked cs cr" for cr rest
  proof -
    let ?g = "chachapoly_get_length (cc_cp cr) seqnr (sealed @ rest)"
    have kk: "same_keys (cc_cp cs) (cc_cp cr)" and d: "is_chachapoly (cc_cipher cr)" "\<not> cc_encrypt cr"
      using l by (auto simp: cp_linked_def)
    have g: "fst ?g = Inr (PEEK_U32 src)"
      using chachapoly_seal_open [OF kk len, of seqnr rest] se(1) by auto
    have gk: "same_keys (snd ?g) (cc_cp cr)" by (rule chachapoly_keeps_keys [OF same_keys_refl(2) [OF kk]])
    have kg: "same_keys (cc_cp cs) (snd ?g)" by (rule same_keys_trans [OF kk same_keys_sym [OF gk]])
    let ?o = "chachapoly_crypt (snd ?g) seqnr (sealed @ rest) len 4 False"
    have o: "fst ?o = Inr src"
      using chachapoly_seal_open [OF kg len, of seqnr rest] se(1) by auto
    have ok: "same_keys (snd ?o) (snd ?g)" by (rule chachapoly_keeps_keys [OF same_keys_refl(2) [OF kg]])
    have lk: "same_keys (snd ?x) (snd ?o)"
      by (rule same_keys_trans [OF sk same_keys_trans [OF kg same_keys_sym [OF ok]]])
    show ?thesis
      using g o d l lk by (auto simp: cipher_get_length_def cipher_crypt_def case_prod_beta cp_linked_def)
  qed
  then show ?thesis using sealc se(2) ready by blast
qed

interpretation cp: aead_link lib 8 16 cp_ready cp_linked for lib
proof unfold_locales
  show "4 \<le> (8 :: nat)" "8 \<le> (64 :: nat)" "0 < (16 :: nat)" "16 \<le> (64 :: nat)" by simp_all
  show "\<not> cipher_is_intermac cs" if "cp_ready cs" for cs :: "('a, 'b) sshcipher_ctx"
    using that by (simp add: cp_ready_def cipher_is_intermac_def)
  show "\<not> cipher_is_intermac cr" if "cp_linked cs cr" for cs cr :: "('a, 'b) sshcipher_ctx"
    using that by (simp add: cp_linked_def cipher_is_intermac_def)
  show "\<exists>sealed cs'. cipher_crypt lib cs seqnr src len 4 16 = (Inr sealed, cs') \<and>
        length sealed = 4 + len + 16 \<and> cp_ready cs' \<and>
        (\<forall>cr rest. cp_linked cs cr \<longrightarrow> (\<exists>cr1 cr2.
           cipher_get_length cr seqnr (sealed @ rest) = (Inr (PEEK_U32 src), cr1) \<and>
           cipher_crypt lib cr1 seqnr (sealed @ rest) len 4 16 = (Inr src, cr2) \<and> cp_linked cs' cr2))"
    if "cp_ready cs" "length src = 4 + len" for cs :: "('a, 'b) sshcipher_ctx" and src len seqnr
    by (rule cp_seal [OF that])
qed


definition cp_ctx :: "bool \<Rightarrow> (unit, bytes \<times> nat \<times> string) sshcipher_ctx" where
  "cp_ctx enc = \<lparr>cc_plaintext = False, cc_encrypt = enc, cc_evp = None, cc_cp = zero_chachapoly, cc_im = None,
     cc_cipher = the (cipher_by_name ''chacha20-poly1305@openssh.com'')\<rparr>"

definition cp_keys :: "(string \<times> bytes, unit) newkeys" where
  "cp_keys = newkeys_zeroed\<lparr>nk_enc := (nk_enc (newkeys_zeroed :: (string \<times> bytes, unit) newkeys))
     \<lparr>enc_cipher := cipher_by_name ''chacha20-poly1305@openssh.com'', enc_block_size := 8\<rparr>\<rparr>"

definition cp_session :: "(unit, bytes \<times> nat \<times> string, string \<times> bytes, unit, unit) ssh" where
  "cp_session = sample_ssh\<lparr>rekeying := False, newkeys := (\<lambda>_. Some cp_keys), send_context := Some (cp_ctx True),
     receive_context := Some (cp_ctx False)\<rparr>"

lemma cp_cipher_eq:
  "cipher_by_name ''chacha20-poly1305@openssh.com'' = Some (cipher_entry ''chacha20-poly1305@openssh.com'' SSH_CIPHER_SSH2 8 64 0 16 0 CFLAG_CHACHAPOLY None)"
  by (rule cipher_by_name_Some [THEN iffD2]) (simp add: ciphers_def cipher_entry_def)

lemma cp_session_ready: "can_send 8 16 cp_ready cp_session" "can_receive 8 16 cp_session" "in_step cp_linked cp_session cp_session"
proof -
  have z: "same_keys zero_chachapoly zero_chachapoly" by (simp add: zero_chachapoly_def same_keys_def)
  have c: "is_chachapoly (cc_cipher (cp_ctx enc))" "\<not> is_intermac (cc_cipher (cp_ctx enc))"
    "cc_encrypt (cp_ctx enc) = enc" "cc_cp (cp_ctx enc) = zero_chachapoly" for enc
    unfolding cp_ctx_def cp_cipher_eq by (simp_all add: table_simps)
  have k: "keys_authlen mode cp_session = 16" "keys_block_size mode cp_session = 8" "\<not> comp_on (keys_comp mode cp_session)" for mode
    by (simp_all add: cp_session_def keys_authlen_def keys_block_size_def keys_enc_def keys_comp_def comp_on_def
        cp_keys_def cp_cipher_eq newkeys_zeroed_def cipher_authlen_def cipher_entry_def)
  have h: "\<exists>v. holds new_buf v" using new_buf_holds by blast
  have f: "\<not> mux cp_session" "\<not> rekeying cp_session" "rekey_off cp_session" "extra_pad cp_session = 0"
    "send_context cp_session = Some (cp_ctx True)" "receive_context cp_session = Some (cp_ctx False)"
    "outgoing_packet cp_session = new_buf" "incoming_packet cp_session = new_buf" "packlen cp_session = 0"
    "packet_discard cp_session = 0" "p_send cp_session = packet_state_zeroed" "p_read cp_session = packet_state_zeroed"
    by (simp_all add: cp_session_def rekey_off_def)
  show "can_send 8 16 cp_ready cp_session" using h by (simp add: can_send_def f k cp_ready_def c z)
  show "can_receive 8 16 cp_session" using h by (simp add: can_receive_def f k)
  show "in_step cp_linked cp_session cp_session" by (simp add: in_step_def f cp_linked_def c z)
qed


end
