(* ===== verification/Kexmsg.thy ===== *)
theory Kexmsg
  imports Packet_Recv
begin

text \<open>
  The messages of the key exchange (\<open>kex.c\<close>) and the dispatch table (\<open>dispatch.c\<close>): the handlers
  of \<open>KEXINIT\<close>, \<open>NEWKEYS\<close> and \<open>EXT_INFO\<close>, the functions that send them, the set-up of an exchange
  and the dispatch loop. The exchange methods (\<open>kex->kex[]\<close>) are a parameter: a function from the
  method to its start routine.
\<close>

section \<open>The dispatch table\<close>

definition DISPATCH_MAX :: nat where "DISPATCH_MAX = 255"

definition ssh_dispatch_init ::
  "('e, 'i, 'd, 'u, 'z) ssh \<Rightarrow> handler option \<Rightarrow> ('e, 'i, 'd, 'u, 'z) ssh" where
  "ssh_dispatch_init s dflt = fold (\<lambda>i s. s\<lparr>dispatch := (dispatch s)(i := dflt)\<rparr>) [0..<DISPATCH_MAX] s"

definition ssh_dispatch_range ::
  "('e, 'i, 'd, 'u, 'z) ssh \<Rightarrow> nat \<Rightarrow> nat \<Rightarrow> handler option \<Rightarrow> ('e, 'i, 'd, 'u, 'z) ssh" where
  "ssh_dispatch_range s from to fn =
     fold (\<lambda>i s. s\<lparr>dispatch := (dispatch s)(i := fn)\<rparr>)
       (takeWhile (\<lambda>i. i < DISPATCH_MAX) [from..<Suc to]) s"

definition ssh_dispatch_set ::
  "('e, 'i, 'd, 'u, 'z) ssh \<Rightarrow> byte \<Rightarrow> handler option \<Rightarrow> ('e, 'i, 'd, 'u, 'z) ssh" where
  "ssh_dispatch_set s ty fn = s\<lparr>dispatch := (dispatch s)(unat ty := fn)\<rparr>"

definition unimplemented_reply ::
  "('e, 'i, 'd, 'u, 'z) pkt_env \<Rightarrow> u32 \<Rightarrow> ('e, 'i, 'd, 'u, 'z) ssh \<Rightarrow> ('e, 'i, 'd, 'u, 'z, unit) pkt_result" where
  "unimplemented_reply env seq s =
     rbind (sshpkt_start env SSH2_MSG_UNIMPLEMENTED s) (\<lambda>_ s.
     rbind (sshpkt_put_u32 env seq s) (\<lambda>_ s. sshpkt_send env s))"

text \<open>When one of the calls fails, \<open>sshpkt_fatal\<close> ends the process; the result is its error.\<close>

definition dispatch_protocol_error ::
  "('e, 'i, 'd, 'u, 'z) pkt_env \<Rightarrow> u32 \<Rightarrow> ('e, 'i, 'd, 'u, 'z) ssh \<Rightarrow> ('e, 'i, 'd, 'u, 'z, unit) pkt_result" where
  "dispatch_protocol_error env seq s =
     rbind (unimplemented_reply env seq s) (\<lambda>_ s. ssh_packet_write_wait env s)"

definition dispatch_protocol_ignore ::
  "('e, 'i, 'd, 'u, 'z) ssh \<Rightarrow> ('e, 'i, 'd, 'u, 'z, unit) pkt_result" where
  "dispatch_protocol_ignore s = (Inr (), s)"

section \<open>Sending\<close>

definition kex_protocol_error ::
  "('e, 'i, 'd, 'u, 'z) pkt_env \<Rightarrow> u32 \<Rightarrow> ('e, 'i, 'd, 'u, 'z) ssh \<Rightarrow> ('e, 'i, 'd, 'u, 'z, unit) pkt_result" where
  "kex_protocol_error env seq s = unimplemented_reply env seq s"

definition kex_reset_dispatch :: "('e, 'i, 'd, 'u, 'z) ssh \<Rightarrow> ('e, 'i, 'd, 'u, 'z) ssh" where
  "kex_reset_dispatch s =
     ssh_dispatch_set
       (ssh_dispatch_range s (unat SSH2_MSG_TRANSPORT_MIN) (unat SSH2_MSG_TRANSPORT_MAX) (Some H_kex_protocol_error))
       SSH2_MSG_KEXINIT (Some H_kex_input_kexinit)"

definition kex_send_ext_info ::
  "('e, 'i, 'd, 'u, 'z) pkt_env \<Rightarrow> ('e, 'i, 'd, 'u, 'z) ssh \<Rightarrow> ('e, 'i, 'd, 'u, 'z, unit) pkt_result" where
  "kex_send_ext_info env s =
     (case sshkey_alg_list (e_alloc env) False True CHR '','' of
        Some (Some algs) \<Rightarrow>
          rbind (sshpkt_start env SSH2_MSG_EXT_INFO s) (\<lambda>_ s.
          rbind (sshpkt_put_u32 env 1 s) (\<lambda>_ s.
          rbind (sshpkt_put_cstring env (Some (bytes_of ''server-sig-algs'')) s) (\<lambda>_ s.
          rbind (sshpkt_put_cstring env (Some (bytes_of algs)) s) (\<lambda>_ s.
          sshpkt_send env s))))
      | _ \<Rightarrow> (Inl SSH_ERR_ALLOC_FAIL, s))"

definition kex_send_newkeys ::
  "('e, 'i, 'd, 'u, 'z) pkt_env \<Rightarrow> ('e, 'i, 'd, 'u, 'z) ssh \<Rightarrow> ('e, 'i, 'd, 'u, 'z, unit) pkt_result" where
  "kex_send_newkeys env s =
     rbind (sshpkt_start env SSH2_MSG_NEWKEYS (kex_reset_dispatch s)) (\<lambda>_ s.
     rbind (sshpkt_send env s) (\<lambda>_ s.
     let s = ssh_dispatch_set s SSH2_MSG_NEWKEYS (Some H_kex_input_newkeys) in
     if ext_info_c (the (ssh_kex s)) then kex_send_ext_info env s else (Inr (), s)))"

section \<open>Receiving\<close>

definition update_kex ::
  "(('d, 'u) kex \<Rightarrow> ('d, 'u) kex) \<Rightarrow> ('e, 'i, 'd, 'u, 'z) ssh \<Rightarrow> ('e, 'i, 'd, 'u, 'z) ssh" where
  "update_kex f s = s\<lparr>ssh_kex := map_option f (ssh_kex s)\<rparr>"

definition ext_info_value :: "string \<Rightarrow> string \<Rightarrow> ('d, 'u) kex \<Rightarrow> ('d, 'u) kex" where
  "ext_info_value name val k =
     (if name = ''server-sig-algs''
      then let k = (if fst (match_list ''rsa-sha2-256'' val) \<noteq> None then k\<lparr>rsa_sha2 := 256\<rparr> else k)
           in if fst (match_list ''rsa-sha2-512'' val) \<noteq> None then k\<lparr>rsa_sha2 := 512\<rparr> else k
      else k)"

primrec ext_info_loop ::
  "('e, 'i, 'd, 'u, 'z) pkt_env \<Rightarrow> nat \<Rightarrow> ('e, 'i, 'd, 'u, 'z) ssh \<Rightarrow> ('e, 'i, 'd, 'u, 'z, unit) pkt_result" where
  "ext_info_loop env 0 s = (Inr (), s)"
| "ext_info_loop env (Suc n) s =
     rbind (sshpkt_get_cstring env True s) (\<lambda>name s.
     rbind (sshpkt_get_cstring env True s) (\<lambda>val s.
     ext_info_loop env n
       (update_kex (ext_info_value (string_of (cstr name)) (string_of (cstr val))) s)))"

definition kex_input_ext_info ::
  "('e, 'i, 'd, 'u, 'z) pkt_env \<Rightarrow> ('e, 'i, 'd, 'u, 'z) ssh \<Rightarrow> ('e, 'i, 'd, 'u, 'z, unit) pkt_result" where
  "kex_input_ext_info env s =
     rbind (sshpkt_get_u32 (ssh_dispatch_set s SSH2_MSG_EXT_INFO (Some H_kex_protocol_error))) (\<lambda>ninfo s.
     rbind (ext_info_loop env (unat ninfo) s) (\<lambda>_ s. sshpkt_get_end s))"

definition kex_input_newkeys ::
  "('e, 'i, 'd, 'u, 'z) pkt_env \<Rightarrow> ('e, 'i, 'd, 'u, 'z) ssh \<Rightarrow> ('e, 'i, 'd, 'u, 'z, unit) pkt_result" where
  "kex_input_newkeys env s =
     rbind (sshpkt_get_end (ssh_dispatch_set s SSH2_MSG_NEWKEYS (Some H_kex_protocol_error))) (\<lambda>_ s.
     rbind (ssh_set_newkeys env s MODE_IN) (\<lambda>_ s.
     (Inr (), update_kex (\<lambda>k. k\<lparr>kex_done := True, kex_peer := sshbuf_reset (e_alloc env) (kex_peer k),
        kex_flags := kex_flags k AND NOT KEX_INIT_SENT, kex_name := None\<rparr>) s)))"

primrec skip_bytes :: "nat \<Rightarrow> ('e, 'i, 'd, 'u, 'z) ssh \<Rightarrow> ('e, 'i, 'd, 'u, 'z, unit) pkt_result" where
  "skip_bytes 0 s = (Inr (), s)"
| "skip_bytes (Suc n) s = rbind (sshpkt_get_u8 s) (\<lambda>_ s. skip_bytes n s)"

primrec skip_strings ::
  "('e, 'i, 'd, 'u, 'z) pkt_env \<Rightarrow> nat \<Rightarrow> ('e, 'i, 'd, 'u, 'z) ssh \<Rightarrow> ('e, 'i, 'd, 'u, 'z, unit) pkt_result" where
  "skip_strings env 0 s = (Inr (), s)"
| "skip_strings env (Suc n) s = rbind (sshpkt_get_string env False s) (\<lambda>_ s. skip_strings env n s)"

text \<open>The negotiation on the session's exchange; it may ask to skip the next packet.\<close>

definition choose_conf ::
  "('e, 'i, 'd, 'u, 'z) pkt_env \<Rightarrow> ('e, 'i, 'd, 'u, 'z) ssh \<Rightarrow> ('e, 'i, 'd, 'u, 'z, unit) pkt_result" where
  "choose_conf env s =
     (case kex_choose_conf (e_md env) (e_alloc env) (ssh_compat s) (the (ssh_kex s)) of
        (Inl r, k) \<Rightarrow> (Inl r, update_kex (\<lambda>_. k) s)
      | (Inr skip, k) \<Rightarrow>
          (Inr (), (update_kex (\<lambda>_. k) s)\<lparr>dispatch_skip_packets :=
                     (if skip then 1 else dispatch_skip_packets s)\<rparr>))"

definition kex_input_kexinit ::
  "('e, 'i, 'd, 'u, 'z) pkt_env \<Rightarrow>
     (kex_exchange \<Rightarrow> (('e, 'i, 'd, 'u, 'z) ssh \<Rightarrow> ('e, 'i, 'd, 'u, 'z, unit) pkt_result) option) \<Rightarrow>
     ('e, 'i, 'd, 'u, 'z) ssh \<Rightarrow> ('e, 'i, 'd, 'u, 'z, unit) pkt_result" where
  "kex_input_kexinit env methods s =
     (case ssh_kex s of
        None \<Rightarrow> (Inl SSH_ERR_INVALID_ARGUMENT, s)
      | Some k \<Rightarrow>
          let s = ssh_dispatch_set s SSH2_MSG_KEXINIT None in
          (case sshbuf_put (e_alloc env) (kex_peer k) (sshpkt_ptr s) of
             (Inl r, b) \<Rightarrow> (Inl r, update_kex (\<lambda>k. k\<lparr>kex_peer := b\<rparr>) s)
           | (Inr _, b) \<Rightarrow>
               rbind (skip_bytes KEX_COOKIE_LEN (update_kex (\<lambda>k. k\<lparr>kex_peer := b\<rparr>) s)) (\<lambda>_ s.
               rbind (skip_strings env PROPOSAL_MAX s) (\<lambda>_ s.
               rbind (sshpkt_get_u8 s) (\<lambda>_ s.
               rbind (sshpkt_get_u32 s) (\<lambda>_ s.
               rbind (sshpkt_get_end s) (\<lambda>_ s.
               rbind (if kex_flags (the (ssh_kex s)) AND KEX_INIT_SENT = 0 then kex_send_kexinit env s
                      else (Inr (), s)) (\<lambda>_ s.
               rbind (choose_conf env s) (\<lambda>_ s.
               case methods (kex_type (the (ssh_kex s))) of
                 None \<Rightarrow> (Inl SSH_ERR_INTERNAL_ERROR, s)
               | Some start \<Rightarrow> start s))))))))) "

section \<open>Setting up an exchange\<close>

definition sizeof_kex :: nat where "sizeof_kex = 432"

definition kex_new ::
  "('e, 'i, 'd, 'u, 'z) pkt_env \<Rightarrow> string list \<Rightarrow> ('e, 'i, 'd, 'u, 'z) ssh \<Rightarrow>
     ('e, 'i, 'd, 'u, 'z, ('d, 'u) kex) pkt_result" where
  "kex_new env proposal s =
     (if \<not> malloc_ok (e_alloc env) sizeof_kex then (Inl SSH_ERR_ALLOC_FAIL, s)
      else (case sshbuf_new (e_alloc env) of
         None \<Rightarrow> (Inl SSH_ERR_ALLOC_FAIL, s)
       | Some b \<Rightarrow>
           (case kex_prop2buf (e_alloc env) b proposal of
              (Inl r, _) \<Rightarrow> (Inl r, s)
            | (Inr _, my) \<Rightarrow> (Inr (kex_zeroed my b), kex_reset_dispatch s))))"

definition kex_setup ::
  "('e, 'i, 'd, 'u, 'z) pkt_env \<Rightarrow> string list \<Rightarrow> ('e, 'i, 'd, 'u, 'z) ssh \<Rightarrow> ('e, 'i, 'd, 'u, 'z, unit) pkt_result" where
  "kex_setup env proposal s =
     (case kex_new env proposal s of
        (Inl r, s) \<Rightarrow> (Inl r, s\<lparr>ssh_kex := None\<rparr>)
      | (Inr k, s) \<Rightarrow>
          (case kex_send_kexinit env (s\<lparr>ssh_kex := Some k\<rparr>) of
             (Inl r, s) \<Rightarrow> (Inl r, s\<lparr>ssh_kex := None\<rparr>)
           | (Inr _, s) \<Rightarrow> (Inr (), s)))"

section \<open>The dispatch loop\<close>

text \<open>
  The handler for a packet: those of the transport, and \<open>client\<close> for the others.
\<close>

fun run_handler ::
  "('e, 'i, 'd, 'u, 'z) pkt_env \<Rightarrow>
     (kex_exchange \<Rightarrow> (('e, 'i, 'd, 'u, 'z) ssh \<Rightarrow> ('e, 'i, 'd, 'u, 'z, unit) pkt_result) option) \<Rightarrow>
     (nat \<Rightarrow> byte \<Rightarrow> u32 \<Rightarrow> ('e, 'i, 'd, 'u, 'z) ssh \<Rightarrow> ('e, 'i, 'd, 'u, 'z, unit) pkt_result) \<Rightarrow>
     handler \<Rightarrow> byte \<Rightarrow> u32 \<Rightarrow> ('e, 'i, 'd, 'u, 'z) ssh \<Rightarrow> ('e, 'i, 'd, 'u, 'z, unit) pkt_result" where
  "run_handler env methods client H_dispatch_protocol_error ty seq s = dispatch_protocol_error env seq s"
| "run_handler env methods client H_dispatch_protocol_ignore ty seq s = dispatch_protocol_ignore s"
| "run_handler env methods client H_kex_protocol_error ty seq s = kex_protocol_error env seq s"
| "run_handler env methods client H_kex_input_kexinit ty seq s = kex_input_kexinit env methods s"
| "run_handler env methods client H_kex_input_newkeys ty seq s = kex_input_newkeys env s"
| "run_handler env methods client H_kex_input_ext_info ty seq s = kex_input_ext_info env s"
| "run_handler env methods client (H_client i) ty seq s = client i ty seq s"

text \<open>
  \<open>ssh_dispatch_run\<close>, with the function that reads a packet as a parameter (the blocking or the
  polling one) and a bound on the number of packets; \<open>None\<close> when the bound is reached or the read
  does not end. \<open>quit\<close> reads the caller's flag \<open>done\<close>.
\<close>

primrec ssh_dispatch_run ::
  "('e, 'i, 'd, 'u, 'z) pkt_env \<Rightarrow>
     (kex_exchange \<Rightarrow> (('e, 'i, 'd, 'u, 'z) ssh \<Rightarrow> ('e, 'i, 'd, 'u, 'z, unit) pkt_result) option) \<Rightarrow>
     (nat \<Rightarrow> byte \<Rightarrow> u32 \<Rightarrow> ('e, 'i, 'd, 'u, 'z) ssh \<Rightarrow> ('e, 'i, 'd, 'u, 'z, unit) pkt_result) \<Rightarrow>
     bool \<Rightarrow> (('e, 'i, 'd, 'u, 'z) ssh \<Rightarrow> ('e, 'i, 'd, 'u, 'z, byte \<times> u32 option) pkt_result option) \<Rightarrow>
     (('e, 'i, 'd, 'u, 'z) ssh \<Rightarrow> bool) \<Rightarrow> nat \<Rightarrow> ('e, 'i, 'd, 'u, 'z) ssh \<Rightarrow>
     ('e, 'i, 'd, 'u, 'z, unit) pkt_result option" where
  "ssh_dispatch_run env methods client block read quit 0 s = None"
| "ssh_dispatch_run env methods client block read quit (Suc n) s =
     (case read s of
        None \<Rightarrow> None
      | Some (Inl r, s) \<Rightarrow> Some (Inl r, s)
      | Some (Inr (ty, seqnr), s) \<Rightarrow>
          if \<not> block \<and> ty = SSH_MSG_NONE then Some (Inr (), s)
          else (case (if ty > 0 \<and> unat ty < DISPATCH_MAX then dispatch s (unat ty) else None) of
             Some h \<Rightarrow>
               if dispatch_skip_packets s \<noteq> 0
               then ssh_dispatch_run env methods client block read quit n
                      (s\<lparr>dispatch_skip_packets := dispatch_skip_packets s - 1\<rparr>)
               else (case run_handler env methods client h ty (the seqnr) s of
                       (Inl r, s) \<Rightarrow> Some (Inl r, s)
                     | (Inr _, s) \<Rightarrow>
                         if quit s then Some (Inr (), s)
                         else ssh_dispatch_run env methods client block read quit n s)
           | None \<Rightarrow>
               Some (rbind (sshpkt_disconnect env (''protocol error: rcvd type '' @ decimal (unat ty)) s)
                 (\<lambda>_ s. (Inl SSH_ERR_DISCONNECTED, s)))))"

section \<open>What the messages leave alone\<close>

text \<open>
  Starting an exchange writes to the structure \<open>kex\<close>. A view that does not show it is kept by
  every function that sends.
\<close>

locale exchange_view = transport_view +
  assumes exchange: "view (s\<lparr>ssh_kex := k'\<rparr>) = view s"
begin

lemma keeps_kexinit_with:
  assumes "\<And>s. keeps view s (send s)"
  shows "keeps view s (kex_send_kexinit_with env send s)"
  unfolding kex_send_kexinit_with_def Let_def
  by (auto simp: exchange building split: option.splits
      intro!: keeps_rbind keeps_trans [OF _ keeps_put(1)] keeps_trans [OF _ keeps_put(2)] keeps_trans [OF _ assms])

lemma keeps_rekex: "keeps view s (kex_start_rekex env s)"
  unfolding kex_start_rekex_def kex_start_rekex_with_def
  by (auto simp: exchange split: option.splits
      intro!: keeps_trans [OF _ keeps_kexinit_with] keeps_send_with keeps_send2_with)

lemma keeps_send: "keeps view s (sshpkt_send env s)"
  unfolding sshpkt_send_def ssh_packet_send2_def by (intro keeps_send_with keeps_send2_with keeps_rekex)

lemma keeps_kexinit: "keeps view s (kex_send_kexinit env s)"
  unfolding kex_send_kexinit_def by (intro keeps_kexinit_with keeps_send)

lemma keeps_unimplemented: "keeps view s (unimplemented_reply env seq s)"
  unfolding unimplemented_reply_def
  by (intro keeps_rbind keeps_trans [OF _ keeps_put(1)] keeps_trans [OF _ keeps_put(3)] keeps_trans [OF _ keeps_send])
    simp_all

end

interpretation dv: exchange_view "\<lambda>s. (dispatch s, dispatch_skip_packets s)"
  by unfold_locales
    (simp_all add: reset_counters_def record_bytes_sent_def Let_def split: kex_mode.splits)

text \<open>The two marks that the start and the end of an exchange set.\<close>

definition kex_status :: "('e, 'i, 'd, 'u, 'z) ssh \<Rightarrow> (bool \<times> u32) option" where
  "kex_status s = map_option (\<lambda>k. (kex_done k, kex_flags k)) (ssh_kex s)"

interpretation kv: transport_view kex_status
  by unfold_locales
    (simp_all add: kex_status_def reset_counters_def record_bytes_sent_def Let_def option.map_comp o_def
      split: kex_mode.splits)

text \<open>A finished exchange has no mark of a \<open>KEXINIT\<close> that was sent.\<close>

definition status_ok :: "('e, 'i, 'd, 'u, 'z) ssh \<Rightarrow> bool" where
  "status_ok s \<longleftrightarrow> (\<forall>done flags. kex_status s = Some (done, flags) \<longrightarrow> done \<longrightarrow> flags AND KEX_INIT_SENT = 0)"

lemma status_ok_cong: "kex_status s = kex_status s' \<Longrightarrow> status_ok s \<Longrightarrow> status_ok s'"
  by (simp add: status_ok_def)

lemma status_ok_keeps: "keeps kex_status s m \<Longrightarrow> status_ok s \<Longrightarrow> status_ok (snd m)"
  by (simp add: keeps_def status_ok_def)

text \<open>While an exchange runs, nothing that is sent ends it or starts another.\<close>

definition running :: "('e, 'i, 'd, 'u, 'z) ssh \<Rightarrow> bool" where
  "running s \<longleftrightarrow> (\<forall>done flags. kex_status s = Some (done, flags) \<longrightarrow> \<not> done)"

lemma running_cong: "kex_status s = kex_status s' \<Longrightarrow> running s \<Longrightarrow> running s'"
  by (simp add: running_def)

lemma running_status_ok: "running s \<Longrightarrow> status_ok s"
  by (auto simp: running_def status_ok_def)

lemma running_keeps: "keeps kex_status s m \<Longrightarrow> running s \<Longrightarrow> running (snd m)"
  by (simp add: keeps_def running_def)

lemma running_rekex: "running s \<Longrightarrow> running (snd (kex_start_rekex env s))"
  by (auto simp: running_def kex_status_def kex_start_rekex_def kex_start_rekex_with_def split: option.splits)

lemma running_send_with:
  assumes "\<And>s. running s \<Longrightarrow> running (snd (rekex s))" and "running s"
  shows "running (snd (sshpkt_send_with env (send2_with env rekex) s))"
proof (cases "mux s")
  case True
  then show ?thesis using running_keeps [OF kv.keeps_send_mux assms(2)] by (simp add: sshpkt_send_with_def)
next
  case False
  have "running (snd (send2_with env rekex s))"
    using kv.inv_send2_with [of running rekex s env] running_cong assms by blast
  with False show ?thesis by (simp add: sshpkt_send_with_def)
qed

lemma kexinit_status:
  fixes s :: "('e, 'i, 'd, 'u, 'z) ssh"
  assumes send: "\<And>s. running s \<Longrightarrow> running (snd (send s))" and s: "status_ok s"
  shows "status_ok (snd (kex_send_kexinit_with env send s))"
proof (cases "\<exists>k. ssh_kex s = Some k \<and> kex_flags k AND KEX_INIT_SENT = 0")
  case False
  then show ?thesis using s by (auto simp: kex_send_kexinit_with_def split: option.splits)
next
  case True
  then obtain k where k: "ssh_kex s = Some k" "kex_flags k AND KEX_INIT_SENT = 0" by blast
  have start: "running (snd (rbind (sshpkt_start env SSH2_MSG_KEXINIT s1) (\<lambda>_ s. rbind (sshpkt_putb env my s) (\<lambda>_ s.
      rbind (send s) (\<lambda>_ s. (Inr (), s\<lparr>ssh_kex := map_option (\<lambda>k. k\<lparr>kex_flags := kex_flags k OR KEX_INIT_SENT\<rparr>)
        (ssh_kex s)\<rparr>))))))" if "running s1" for my s1
  proof -
    have p: "running (snd (sshpkt_start env SSH2_MSG_KEXINIT s1))"
      by (rule running_keeps [OF kv.keeps_put(1) that])
    have q: "running (snd (sshpkt_putb env my s2))" if "running s2" for s2 :: "('e, 'i, 'd, 'u, 'z) ssh"
      by (rule running_keeps [OF kv.keeps_put(2) that])
    have e: "running (s2\<lparr>ssh_kex := map_option (\<lambda>k. k\<lparr>kex_flags := kex_flags k OR KEX_INIT_SENT\<rparr>) (ssh_kex s2)\<rparr>)"
      if "running s2" for s2 :: "('e, 'i, 'd, 'u, 'z) ssh"
      using that by (cases "ssh_kex s2") (simp_all add: running_def kex_status_def)
    show ?thesis
      by (rule rbind_invariant [where P = running, OF p], rule rbind_invariant [where P = running, OF q], assumption,
          rule rbind_invariant [where P = running, OF send], assumption, simp add: e)
  qed
  have r: "running (s\<lparr>ssh_kex := Some (k\<lparr>kex_done := False\<rparr>)\<rparr>)"
    "running (s\<lparr>ssh_kex := Some (k\<lparr>kex_done := False, kex_my := m\<rparr>), rng := n\<rparr>)" for m n
    by (simp_all add: running_def kex_status_def)
  show ?thesis
    using k by (simp add: kex_send_kexinit_with_def Let_def running_status_ok r running_status_ok [OF start])
qed

lemma rekex_status: "status_ok s \<Longrightarrow> status_ok (snd (kex_start_rekex env s))"
proof -
  have "status_ok (snd (kex_send_kexinit_with env (sshpkt_send_with env (send2_with env (\<lambda>s. (Inl SSH_ERR_INTERNAL_ERROR, s))))
      (s\<lparr>ssh_kex := Some (k\<lparr>kex_done := False\<rparr>)\<rparr>)))" for k
    by (rule kexinit_status, rule running_send_with)
      (auto intro: running_status_ok simp: running_def kex_status_def)
  then show "status_ok s \<Longrightarrow> ?thesis"
    by (auto simp: kex_start_rekex_def kex_start_rekex_with_def split: option.splits)
qed

lemma send_status:
  assumes "status_ok s"
  shows "status_ok (snd (sshpkt_send env s))"
proof -
  have "status_ok (snd (send2_with env (kex_start_rekex env) s))"
    using kv.inv_send2_with [of status_ok "kex_start_rekex env" s env] status_ok_cong rekex_status assms by blast
  then show ?thesis
    using status_ok_keeps [OF kv.keeps_send_mux assms]
    by (simp add: sshpkt_send_def sshpkt_send_with_def ssh_packet_send2_def)
qed

lemma running_send: "running s \<Longrightarrow> running (snd (sshpkt_send env s))"
  unfolding sshpkt_send_def ssh_packet_send2_def by (rule running_send_with) (rule running_rekex)

lemma kex_send_kexinit_status: "status_ok s \<Longrightarrow> status_ok (snd (kex_send_kexinit env s))"
  unfolding kex_send_kexinit_def by (rule kexinit_status [OF running_send])

section \<open>The handlers keep the marks consistent\<close>

lemma ext_info_marks [simp]:
  "kex_done (ext_info_value n v k) = kex_done k" "kex_flags (ext_info_value n v k) = kex_flags k"
  by (simp_all add: ext_info_value_def Let_def)

lemma kex_status_upd [simp]:
  "kex_status (ssh_dispatch_set s ty h) = kex_status s" "kex_status (s\<lparr>incoming_packet := b\<rparr>) = kex_status s"
  "kex_status (update_kex (\<lambda>k. k\<lparr>kex_peer := b\<rparr>) s) = kex_status s"
  "kex_status (update_kex (ext_info_value n v) s) = kex_status s"
  "kex_status (s\<lparr>dispatch := d\<rparr>) = kex_status s"
  by (auto simp: kex_status_def ssh_dispatch_set_def update_kex_def option.map_comp o_def)

lemma fold_dispatch:
  "fold (\<lambda>i s. s\<lparr>dispatch := (dispatch s)(i := fn)\<rparr>) xs s = s\<lparr>dispatch := \<lambda>i. if i \<in> set xs then fn else dispatch s i\<rparr>"
proof (induction xs arbitrary: s)
  case (Cons x xs)
  have "(\<lambda>i. if i \<in> set xs then fn else ((dispatch s)(x := fn)) i) = (\<lambda>i. if i \<in> set (x # xs) then fn else dispatch s i)"
    by auto
  then show ?case using Cons [of "s\<lparr>dispatch := (dispatch s)(x := fn)\<rparr>"] by (simp del: fun_upd_apply cong: if_cong)
qed simp

lemma takeWhile_less_upt: "takeWhile (\<lambda>i. i < m) [a..<n] = [a..<min m n]"
proof (induction n)
  case (Suc n)
  show ?case
  proof (cases "n < m")
    case True
    then have "min m (Suc n) = Suc n" by simp
    moreover have "takeWhile (\<lambda>i. i < m) [a..<Suc n] = [a..<Suc n]"
      using True by (simp only: takeWhile_eq_all_conv) auto
    ultimately show ?thesis by (simp only:)
  next
    case False
    then show ?thesis using Suc
      by (auto simp: takeWhile_append min_def not_less) (metis set_upt takeWhile_eq_all_conv)
  qed
qed simp

lemma dispatch_range_eq:
  "ssh_dispatch_range s from to fn =
     s\<lparr>dispatch := \<lambda>i. if from \<le> i \<and> i \<le> to \<and> i < DISPATCH_MAX then fn else dispatch s i\<rparr>"
proof -
  have "set (takeWhile (\<lambda>i. i < DISPATCH_MAX) [from..<Suc to]) = {i. from \<le> i \<and> i \<le> to \<and> i < DISPATCH_MAX}"
    unfolding takeWhile_less_upt by auto
  then show ?thesis by (simp only: ssh_dispatch_range_def fold_dispatch mem_Collect_eq)
qed

lemma keeps_incoming [simp]: "keeps kex_status s0 (incoming_op f s) \<longleftrightarrow> kex_status s = kex_status s0"
  by (auto simp: keeps_def incoming_op_def zoom_def split: prod.splits)

lemmas get_defs = sshpkt_get_u8_def sshpkt_get_u32_def sshpkt_get_string_def sshpkt_get_cstring_def sshpkt_get_end_def

lemma keeps_ext_info: "keeps kex_status s (kex_input_ext_info env s)"
proof -
  have l: "keeps kex_status s (ext_info_loop env n s)" for n and s :: "('a, 'b, 'c, 'd, 'e) ssh"
  proof (induction n arbitrary: s)
    case (Suc n)
    then show ?case by (auto simp: get_defs intro!: keeps_rbind keeps_trans [OF _ Suc.IH])
  qed simp
  show ?thesis
    unfolding kex_input_ext_info_def by (auto simp: get_defs intro!: keeps_rbind keeps_trans [OF _ l])
qed

lemma keeps_skip:
  "keeps kex_status s (skip_bytes n s)" "keeps kex_status s (skip_strings env n s)"
  by (induction n arbitrary: s) (auto simp: get_defs keeps_def rbind_def incoming_op_def zoom_def split: prod.splits sum.splits)

lemma choose_conf_marks:
  fixes k :: "('d, 'u) kex"
  shows
  "kex_done (snd (kex_choose_conf lib al cflags k)) = kex_done k"
  "kex_flags (snd (kex_choose_conf lib al cflags k)) = kex_flags k"
proof -
  let ?P = "\<lambda>k'. kex_done k' = kex_done k \<and> kex_flags k' = kex_flags k"
  have m: "?P (snd (choose_mode lib al cflags c p q mode k'))" if "?P k'" for c p q mode k'
    using that by (auto simp: choose_mode_def Let_def split: prod.splits sum.splits)
  have modes: "?P (snd (rbind (choose_mode lib al cflags cp sp pp MODE_IN k') (\<lambda>_ k.
      rbind (choose_mode lib al cflags cp sp pp MODE_OUT k) (\<lambda>_ k. (Inr (r k), k\<lparr>we_need := w k, dh_need := d k\<rparr>)))))"
    if "?P k'" for cp sp pp r w d k'
    by (rule rbind_invariant [where P = ?P, OF m [OF that]], rule rbind_invariant [where P = ?P, OF m]) simp_all
  have host: "?P (snd (case choose_hostkeyalg k' a b of (Inl r, kex) \<Rightarrow> (Inl r, kex\<lparr>failed_choice := x\<rparr>) | (Inr _, kex) \<Rightarrow> f kex))"
    if "?P k'" "\<And>k'. ?P k' \<Longrightarrow> ?P (snd (f k'))"
    for a b x k' and f :: "_ \<Rightarrow> (ssherr, ('d, 'u) kex, bool) outcome"
    using that by (auto simp: choose_hostkeyalg_def Let_def split: prod.splits option.splits)
  have meth: "?P (snd (case choose_kex k' a b of (Inl r, kex) \<Rightarrow> (Inl r, kex\<lparr>failed_choice := x\<rparr>) | (Inr _, kex) \<Rightarrow> f kex))"
    if "?P k'" "\<And>k'. ?P k' \<Longrightarrow> ?P (snd (f k'))"
    for a b x k' and f :: "_ \<Rightarrow> (ssherr, ('d, 'u) kex, bool) outcome"
    using that by (auto simp: choose_kex_def Let_def split: prod.splits option.splits)
  have "?P (snd (kex_choose_conf lib al cflags k))"
  proof (cases "\<exists>v my f peer. kex_buf2prop al (kex_my k) = Inr (v, my) \<and> kex_buf2prop al (kex_peer k) = Inr (f, peer)")
    case True
    then obtain v my f peer where "kex_buf2prop al (kex_my k) = Inr (v, my)" "kex_buf2prop al (kex_peer k) = Inr (f, peer)"
      by blast
    then show ?thesis
      by (simp only: kex_choose_conf_def sum.case prod.case Let_def)
        (rule meth, simp, rule host, assumption, rule modes)
  qed (auto simp: kex_choose_conf_def split: sum.splits)
  then show "kex_done (snd (kex_choose_conf lib al cflags k)) = kex_done k"
    "kex_flags (snd (kex_choose_conf lib al cflags k)) = kex_flags k" by simp_all
qed

lemma keeps_choose_conf: "keeps kex_status s (choose_conf env s)"
  using choose_conf_marks [of "e_md env" "e_alloc env" "ssh_compat s" "the (ssh_kex s)"]
  by (cases "ssh_kex s") (auto simp: choose_conf_def kex_status_def update_kex_def split: prod.splits sum.splits)

lemma newkeys_status: "status_ok s \<Longrightarrow> status_ok (snd (kex_input_newkeys env s))"
proof -
  assume s: "status_ok s"
  have e: "status_ok (update_kex (\<lambda>k. k\<lparr>kex_done := True, kex_peer := p k, kex_flags := kex_flags k AND NOT KEX_INIT_SENT,
      kex_name := None\<rparr>) s1)" for p and s1 :: "('a, 'b, 'c, 'd, 'e) ssh"
    by (cases "ssh_kex s1") (simp_all add: status_ok_def kex_status_def update_kex_def and.assoc)
  have g: "keeps kex_status s (sshpkt_get_end (ssh_dispatch_set s SSH2_MSG_NEWKEYS h))" for h
    by (simp add: sshpkt_get_end_def)
  show ?thesis
    unfolding kex_input_newkeys_def
    by (rule rbind_invariant [where P = status_ok], rule status_ok_keeps [OF g s],
        rule rbind_invariant [where P = status_ok], erule status_ok_keeps [OF kv.keeps_set_newkeys]) (simp add: e)
qed

text \<open>The exchange methods and the handlers of the loops do not touch the marks.\<close>

definition marks_kept ::
  "(kex_exchange \<Rightarrow> (('e, 'i, 'd, 'u, 'z) ssh \<Rightarrow> ('e, 'i, 'd, 'u, 'z, unit) pkt_result) option) \<Rightarrow> bool" where
  "marks_kept methods \<longleftrightarrow> (\<forall>t start s. methods t = Some start \<longrightarrow> status_ok s \<longrightarrow> status_ok (snd (start s)))"

lemma kexinit_input_status:
  assumes m: "marks_kept methods" and s: "status_ok s"
  shows "status_ok (snd (kex_input_kexinit env methods s))"
proof -
  have start: "status_ok (snd (case methods t of None \<Rightarrow> (Inl SSH_ERR_INTERNAL_ERROR, s1) | Some start \<Rightarrow> start s1))"
    if "status_ok s1" for t s1
    using m that by (auto simp: marks_kept_def split: option.splits)
  have send: "status_ok (snd (if c then kex_send_kexinit env s1 else (Inr (), s1)))" if "status_ok s1" for c s1
    using kex_send_kexinit_status [OF that] that by simp
  have negotiate: "status_ok (snd (rbind (if c then kex_send_kexinit env s1 else (Inr (), s1)) (\<lambda>_ s.
      rbind (choose_conf env s) (\<lambda>_ s. case methods (t s) of None \<Rightarrow> (Inl SSH_ERR_INTERNAL_ERROR, s) | Some start \<Rightarrow> start s))))"
    if "status_ok s1" for c t s1
    by (rule rbind_invariant [where P = status_ok, OF send [OF that]],
        rule rbind_invariant [where P = status_ok], erule status_ok_keeps [OF keeps_choose_conf], rule start)
  have g: "keeps kex_status s1 (sshpkt_get_u8 s1)" "keeps kex_status s1 (sshpkt_get_u32 s1)"
    "keeps kex_status s1 (sshpkt_get_end s1)" for s1 :: "('a, 'b, 'c, 'd, 'e) ssh"
    by (simp_all add: get_defs)
  have same: "status_ok s1" if "kex_status s1 = kex_status s" for s1
    using status_ok_cong [of s s1] that s by simp
  have handle: "status_ok (snd (rbind (skip_bytes n s1) (\<lambda>_ s. rbind (skip_strings env m s) (\<lambda>_ s.
      rbind (sshpkt_get_u8 s) (\<lambda>_ s. rbind (sshpkt_get_u32 s) (\<lambda>_ s. rbind (sshpkt_get_end s) (\<lambda>_ s.
      rbind (if c s then kex_send_kexinit env s else (Inr (), s)) (\<lambda>_ s. rbind (choose_conf env s) (\<lambda>_ s.
      case methods (t s) of None \<Rightarrow> (Inl SSH_ERR_INTERNAL_ERROR, s) | Some start \<Rightarrow> start s)))))))))"
    if "kex_status s1 = kex_status s" for n m c t s1
    by (rule rbind_invariant [where P = status_ok], rule status_ok_keeps [OF keeps_skip(1) same [OF that]],
        rule rbind_invariant [where P = status_ok], erule status_ok_keeps [OF keeps_skip(2)],
        rule rbind_invariant [where P = status_ok], erule status_ok_keeps [OF g(1)],
        rule rbind_invariant [where P = status_ok], erule status_ok_keeps [OF g(2)],
        rule rbind_invariant [where P = status_ok], erule status_ok_keeps [OF g(3)], rule negotiate)
  show ?thesis
  proof (cases "ssh_kex s")
    case (Some k)
    obtain r b where "sshbuf_put (e_alloc env) (kex_peer k) (sshpkt_ptr (ssh_dispatch_set s SSH2_MSG_KEXINIT None)) = (r, b)"
      by (cases "sshbuf_put (e_alloc env) (kex_peer k) (sshpkt_ptr (ssh_dispatch_set s SSH2_MSG_KEXINIT None))")
    then show ?thesis using Some by (cases r) (simp_all add: kex_input_kexinit_def Let_def same handle)
  qed (simp add: kex_input_kexinit_def s)
qed

lemma unimplemented_status: "status_ok s \<Longrightarrow> status_ok (snd (unimplemented_reply env seq s))"
  unfolding unimplemented_reply_def
  by (rule rbind_invariant [where P = status_ok], erule status_ok_keeps [OF kv.keeps_put(1)],
      rule rbind_invariant [where P = status_ok], erule status_ok_keeps [OF kv.keeps_put(3)], rule send_status)

lemma setup_status: "status_ok (snd (kex_setup env proposal s))"
proof -
  have n: "kex_new env proposal s = (Inr k, s1) \<Longrightarrow> \<not> kex_done k" for k s1
    by (auto simp: kex_new_def kex_zeroed_def split: if_splits option.splits prod.splits sum.splits)
  have none: "status_ok (s1\<lparr>ssh_kex := None\<rparr>)" for s1 :: "('a, 'b, 'c, 'd, 'e) ssh"
    by (simp add: status_ok_def kex_status_def)
  have "status_ok (snd (kex_send_kexinit env (s1\<lparr>ssh_kex := Some k\<rparr>)))" if "\<not> kex_done k" for k and s1 :: "('a, 'b, 'c, 'd, 'e) ssh"
    by (rule kex_send_kexinit_status) (simp add: status_ok_def kex_status_def that)
  note init = this
  obtain r s1 where k: "kex_new env proposal s = (r, s1)" by (cases "kex_new env proposal s")
  show ?thesis
  proof (cases r)
    case (Inr k')
    obtain r' s2 where "kex_send_kexinit env (s1\<lparr>ssh_kex := Some k'\<rparr>) = (r', s2)"
      by (cases "kex_send_kexinit env (s1\<lparr>ssh_kex := Some k'\<rparr>)")
    then show ?thesis using init [of k' s1] n [of k' s1] k Inr none by (cases r') (simp_all add: kex_setup_def)
  qed (simp add: kex_setup_def k none)
qed

section \<open>A session\<close>

text \<open>
  The states of a session after \<open>kex_setup\<close>: it sends packets, starts exchanges and handles received
  packets in any order, whether the calls succeed or not.
\<close>

inductive session_run ::
  "('e, 'i, 'd, 'u, 'z) pkt_env \<Rightarrow>
     (kex_exchange \<Rightarrow> (('e, 'i, 'd, 'u, 'z) ssh \<Rightarrow> ('e, 'i, 'd, 'u, 'z, unit) pkt_result) option) \<Rightarrow>
     (nat \<Rightarrow> byte \<Rightarrow> u32 \<Rightarrow> ('e, 'i, 'd, 'u, 'z) ssh \<Rightarrow> ('e, 'i, 'd, 'u, 'z, unit) pkt_result) \<Rightarrow>
     ('e, 'i, 'd, 'u, 'z) ssh \<Rightarrow> bool" for env methods client where
  run_setup: "session_run env methods client (snd (kex_setup env proposal s))"
| run_send: "session_run env methods client s \<Longrightarrow>
    session_run env methods client (snd (sshpkt_send env (s\<lparr>outgoing_packet := b\<rparr>)))"
| run_rekex: "session_run env methods client s \<Longrightarrow> session_run env methods client (snd (kex_start_rekex env s))"
| run_handle: "session_run env methods client s \<Longrightarrow>
    session_run env methods client (snd (run_handler env methods client h ty seq (s\<lparr>incoming_packet := b\<rparr>)))"

definition client_marks_kept ::
  "(nat \<Rightarrow> byte \<Rightarrow> u32 \<Rightarrow> ('e, 'i, 'd, 'u, 'z) ssh \<Rightarrow> ('e, 'i, 'd, 'u, 'z, unit) pkt_result) \<Rightarrow> bool" where
  "client_marks_kept client \<longleftrightarrow> (\<forall>i ty seq s. status_ok s \<longrightarrow> status_ok (snd (client i ty seq s)))"

lemma run_handler_status:
  assumes "marks_kept methods" and "client_marks_kept client" and "status_ok s"
  shows "status_ok (snd (run_handler env methods client h ty seq s))"
proof (cases h)
  case H_dispatch_protocol_error
  have w: "status_ok (snd (ssh_packet_write_wait env s1))" if "status_ok s1" for s1
    by (rule status_ok_keeps [OF _ that]) (simp add: ssh_packet_write_wait_def kv.keeps_ops)
  have "status_ok (snd (dispatch_protocol_error env seq s))"
    unfolding dispatch_protocol_error_def
    by (rule rbind_invariant [where P = status_ok, OF unimplemented_status [OF assms(3)]]) (rule w)
  then show ?thesis using H_dispatch_protocol_error by simp
next
  case H_kex_input_ext_info
  then show ?thesis using status_ok_keeps [OF keeps_ext_info assms(3)] by simp
qed (use assms unimplemented_status kexinit_input_status newkeys_status in
    \<open>auto simp: dispatch_protocol_ignore_def kex_protocol_error_def client_marks_kept_def\<close>)

lemma session_run_status:
  assumes "session_run env methods client s" and "marks_kept methods" and "client_marks_kept client"
  shows "status_ok s"
  using assms(1)
proof induction
  case (run_send s b)
  then show ?case by (intro send_status) (simp add: status_ok_def kex_status_def)
next
  case (run_handle s h ty seq b)
  then show ?case by (intro run_handler_status [OF assms(2,3)]) (simp add: status_ok_def)
qed (simp_all add: setup_status rekex_status)

lemma kexinit_marks:
  assumes k: "ssh_kex s = Some k" and res: "kex_send_kexinit_with env send s = (Inr (), s')"
    and fl: "kex_flags k AND KEX_INIT_SENT = 0" and send: "\<And>s. keeps kex_status s (send s)"
  shows "kex_status s' = Some (False, kex_flags k OR KEX_INIT_SENT)"
proof -
  obtain my n s1 s2 s3 where
    st: "sshpkt_start env SSH2_MSG_KEXINIT (s\<lparr>ssh_kex := Some (k\<lparr>kex_done := False, kex_my := my\<rparr>), rng := n\<rparr>) = (Inr (), s1)"
    and pb: "sshpkt_putb env my s1 = (Inr (), s2)" and sd: "send s2 = (Inr (), s3)"
    and s': "s' = s3\<lparr>ssh_kex := map_option (\<lambda>k. k\<lparr>kex_flags := kex_flags k OR KEX_INIT_SENT\<rparr>) (ssh_kex s3)\<rparr>"
    using res k fl by (auto simp: kex_send_kexinit_with_def Let_def elim!: rbind_InrE split: if_splits)
  have "kex_status s3 = kex_status s2" using send [of s2] sd by simp
  also have "\<dots> = kex_status s1" using kv.keeps_put(2) [of s1 env my] pb by simp
  also have "\<dots> = kex_status (s\<lparr>ssh_kex := Some (k\<lparr>kex_done := False, kex_my := my\<rparr>), rng := n\<rparr>)"
    using kv.keeps_put(1) [of _ env SSH2_MSG_KEXINIT] st by (metis keeps_pair)
  also have "\<dots> = Some (False, kex_flags k)" by (simp add: kex_status_def)
  finally show ?thesis by (auto simp: s' kex_status_def)
qed

section \<open>Properties\<close>


section \<open>A sample exchange\<close>

text \<open>An InterMAC session between two exchanges, and a handler that restores it.\<close>

definition sample_my :: sshbuf where
  "sample_my = snd (sshbuf_put plenty new_buf (replicate KEX_COOKIE_LEN 0))"

definition sample_idle :: "(unit, bytes \<times> nat \<times> string, string \<times> bytes, unit, unit) ssh" where
  "sample_idle = sample_ssh\<lparr>ssh_kex := Some ((kex_zeroed sample_my new_buf)\<lparr>kex_done := True\<rparr>), send_context := Some im_ctx, server_side := True\<rparr>"

definition restore_idle ::
  "nat \<Rightarrow> byte \<Rightarrow> u32 \<Rightarrow> (unit, bytes \<times> nat \<times> string, string \<times> bytes, unit, unit) ssh \<Rightarrow>
     (unit, bytes \<times> nat \<times> string, string \<times> bytes, unit, unit, unit) pkt_result" where
  "restore_idle i ty seq s = (Inr (), sample_idle)"

lemma sample_my_holds: "holds sample_my (replicate KEX_COOKIE_LEN 0)"
  using holds_put [OF plenty_ok new_buf_holds, of "replicate KEX_COOKIE_LEN 0"]
  by (auto simp: sample_my_def SSHBUF_SIZE_MAX_def KEX_COOKIE_LEN_def)

lemma sample_intermac_sends:
  fixes s :: "(unit, bytes \<times> nat \<times> string, string \<times> bytes, unit, unit) ssh"
  assumes h: "holds (outgoing_packet s) (hdr @ body)" "length hdr = 5" "length body \<le> 64"
    and s: "send_context s = Some im_ctx" "newkeys s MODE_OUT = None" "output_buf s = new_buf" "server_side s"
      "p_send s = packet_state_zeroed" "packet_type (outgoing_packet s) = SSH2_MSG_KEXINIT"
  shows "\<exists>s'. ssh_packet_send2_wrapped sample_env s = (Inr (), s')"
proof -
  obtain b where b: "sshbuf_consume (outgoing_packet s) 5 = (Inr (), b)" "holds b body"
    using holds_consume [OF h(1), of 5] h(2) by auto
  obtain ct im where im: "im_encrypt (e_crypto sample_env) (the (cipher_get_intermac_context im_ctx)) body = Some (ct, im)"
    "length ct \<le> 200"
    using h(3) by (auto simp: sample_env_def null_crypto_def)
  obtain ob where ob: "sshbuf_put plenty new_buf ct = (Inr (), ob)"
    using holds_put [OF plenty_ok new_buf_holds, of ct] im(2) by (auto simp: SSHBUF_SIZE_MAX_def)
  show ?thesis
    using s b im ob im_ctx_intermac holds_bytes [OF b(2)]
    by (simp add: ssh_packet_send2_wrapped_def Let_def send2_intermac_def op_eq keys_comp_def comp_on_def
        send2_finish_def next_seqnr_def packet_state_zeroed_def msg_consts)
qed

lemma sample_rekex: "\<exists>s'. kex_start_rekex sample_env sample_idle = (Inr (), s')"
proof -
  let ?k = "(kex_zeroed sample_my new_buf)\<lparr>kex_done := False\<rparr> :: (string \<times> bytes, unit) kex"
  let ?my = "sshbuf_poke sample_my (buf_off sample_my) (arc4random_buf sample_env sample_idle KEX_COOKIE_LEN)"
  have id: "ssh_kex sample_idle = Some (?k\<lparr>kex_done := True\<rparr>)" "outgoing_packet sample_idle = new_buf" "\<not> mux sample_idle"
    "\<not> after_authentication sample_idle"
    by (simp_all add: sample_idle_def kex_zeroed_def)
  have z: "kex_my (kex_zeroed sample_my new_buf :: (string \<times> bytes, unit) kex) = sample_my"
    "kex_flags (kex_zeroed sample_my new_buf :: (string \<times> bytes, unit) kex) = 0"
    "arc4random_buf sample_env (sample_idle\<lparr>ssh_kex := x\<rparr>) n = arc4random_buf sample_env sample_idle n"
    "ssh_packet_type_is_kex SSH2_MSG_KEXINIT" "SSH2_MSG_KEXINIT \<noteq> SSH2_MSG_NEWKEYS" for x n
    by (simp_all add: kex_zeroed_def arc4random_buf_def ssh_packet_type_is_kex_def msg_consts)
  have my: "sshbuf_len sample_my = KEX_COOKIE_LEN" "sshbuf_mutable_ptr sample_my \<noteq> None"
    using holds_len [OF sample_my_holds] holds_mutable [OF sample_my_holds] by auto
  have hm: "holds ?my (arc4random_buf sample_env sample_idle KEX_COOKIE_LEN)"
    using holds_poke [OF sample_my_holds, of "arc4random_buf sample_env sample_idle KEX_COOKIE_LEN"]
    by (simp add: arc4random_buf_def)
  obtain b where b: "sshbuf_put plenty (sshbuf_reset plenty new_buf) [0, 0, 0, 0, 0, SSH2_MSG_KEXINIT] = (Inr (), b)"
      "holds b [0, 0, 0, 0, 0, SSH2_MSG_KEXINIT]"
    using holds_put [OF plenty_ok holds_reset [OF new_buf_holds, of plenty], of "[0, 0, 0, 0, 0, SSH2_MSG_KEXINIT]"]
    by (auto simp: SSHBUF_SIZE_MAX_def)
  obtain c where c: "sshbuf_putb plenty b ?my = (Inr (), c)" 
      "holds c ([0, 0, 0, 0, 0, SSH2_MSG_KEXINIT] @ arc4random_buf sample_env sample_idle KEX_COOKIE_LEN)"
    using holds_put [OF plenty_ok b(2), of "arc4random_buf sample_env sample_idle KEX_COOKIE_LEN"] holds_bytes [OF hm]
    by (auto simp: SSHBUF_SIZE_MAX_def arc4random_buf_def KEX_COOKIE_LEN_def sshbuf_putb_def buf_bytes_def)
  have ty: "packet_type c = SSH2_MSG_KEXINIT" using holds_nth [OF c(2), of 5] by (simp add: packet_type_def)
  let ?s = "sample_idle\<lparr>ssh_kex := Some (?k\<lparr>kex_my := ?my\<rparr>), rng := rng sample_idle + 1, outgoing_packet := c, rekeying := True\<rparr>"
  have "\<exists>s'. ssh_packet_send2_wrapped sample_env ?s = (Inr (), s')"
    by (rule sample_intermac_sends [where hdr = "[0, 0, 0, 0, 0]"
          and body = "SSH2_MSG_KEXINIT # arc4random_buf sample_env sample_idle KEX_COOKIE_LEN"])
      (use c(2) ty in \<open>simp_all add: sample_idle_def arc4random_buf_def KEX_COOKIE_LEN_def\<close>)
  then obtain s' where s': "ssh_packet_send2_wrapped sample_env ?s = (Inr (), s')" by blast
  have "kex_start_rekex sample_env sample_idle =
      (Inr (), s'\<lparr>ssh_kex := map_option (\<lambda>k. k\<lparr>kex_flags := kex_flags k OR KEX_INIT_SENT\<rparr>) (ssh_kex s')\<rparr>)"
    using my b(1) c(1) ty holds_len [OF c(2)] s'
    by (simp add: kex_start_rekex_def kex_start_rekex_with_def kex_send_kexinit_with_def Let_def id z
      sshpkt_start_def sshpkt_putb_def op_eq(1) sshpkt_send_with_def send2_with_def)
  then show ?thesis by blast
qed


section \<open>What the server advertises\<close>

text \<open>The names of \<open>sshkey_alg_list(0, 1, ',')\<close>.\<close>

definition plain_key_names :: "string list" where
  "plain_key_names = map kt_name (filter (\<lambda>kt. \<not> kt_sigonly kt \<and> \<not> kt_cert kt) keytypes)"

lemma sshkey_alg_list_plain:
  "sshkey_alg_list al False True sep = fold (alg_list_add al sep) plain_key_names (Some None)"
proof -
  have "sshkey_alg_list al False True sep =
      fold (\<lambda>kt acc. if \<not> kt_sigonly kt \<and> \<not> kt_cert kt then (alg_list_add al sep \<circ> kt_name) kt acc else acc) keytypes (Some None)"
    unfolding sshkey_alg_list_def by (rule fold_cong) (auto simp: fun_eq_iff)
  then show ?thesis by (simp only: fold_filter plain_key_names_def fold_map)
qed

text \<open>
  The list of signature algorithms that the server sends after the first key exchange never
  tells the client about RSA with SHA-2: \<open>kex_send_ext_info\<close> advertises the plain key types, which
  contain \<open>ssh-rsa\<close> but neither \<open>rsa-sha2-256\<close> nor \<open>rsa-sha2-512\<close>, so the client that parses the list
  in \<open>kex_input_ext_info\<close> keeps its old value of \<open>rsa_sha2\<close>.
\<close>

theorem server_sig_algs_without_sha2:
  assumes "sshkey_alg_list al False True CHR '','' = Some (Some algs)"
  shows "ext_info_value ''server-sig-algs'' algs k = k \<and> fst (match_list ''ssh-rsa'' algs) = Some ''ssh-rsa''"
proof -
  have ne: "plain_key_names \<noteq> []" "list_all (\<lambda>n. n \<noteq> [] \<and> CHR '','' \<notin> set n) plain_key_names" by code_simp+
  have "algs = join CHR '','' plain_key_names"
    using alg_list_fold [of al "CHR '',''" plain_key_names "Some algs"] assms ne(1)
    by (simp add: sshkey_alg_list_plain)
  then have "names algs = plain_key_names"
    using ne tokens_join [of plain_key_names "CHR '',''"] by (auto simp: names_def list_all_iff takeWhile_eq_all_conv)
  then have m: "fst (match_list c algs) = find (\<lambda>p. p \<in> set (take MAX_PROP plain_key_names)) (names c)" for c
    by (simp add: match_list_eq)
  have "find (\<lambda>p. p \<in> set (take MAX_PROP plain_key_names)) (names ''rsa-sha2-256'') = None"
    "find (\<lambda>p. p \<in> set (take MAX_PROP plain_key_names)) (names ''rsa-sha2-512'') = None"
    "find (\<lambda>p. p \<in> set (take MAX_PROP plain_key_names)) (names ''ssh-rsa'') = Some ''ssh-rsa''"
    by code_simp+
  then show ?thesis by (simp add: ext_info_value_def m)
qed

theorem server_sig_algs_without_sha2_witness:
  "\<exists>algs. sshkey_alg_list plenty False True CHR '','' = Some (Some algs) \<and>
     ext_info_value ''server-sig-algs'' algs (kex_zeroed new_buf new_buf :: (unit, unit) kex) = kex_zeroed new_buf new_buf"
proof -
  have "plain_key_names \<noteq> []" by code_simp
  then have l: "sshkey_alg_list plenty False True CHR '','' = Some (Some (join CHR '','' plain_key_names))"
    unfolding sshkey_alg_list_plain by (rule alg_list_fold_ok [OF plenty_ok])
  show ?thesis using server_sig_algs_without_sha2 [OF l] l by blast
qed

section \<open>A well-formed \<open>KEXINIT\<close> is negotiated\<close>

lemma parsed_holds: "holds b v \<Longrightarrow> parsed b x rest m \<Longrightarrow> \<exists>b'. m = (Inr x, b') \<and> holds b' rest"
  by (auto simp: parsed_def holds_def)

lemma skip_bytes_ok:
  "holds (incoming_packet s) (pre @ rest) \<Longrightarrow>
     \<exists>b. skip_bytes (length pre) s = (Inr (), s\<lparr>incoming_packet := b\<rparr>) \<and> holds b rest"
proof (induction pre arbitrary: s)
  case Nil
  then show ?case by (intro exI [of _ "incoming_packet s"]) simp
next
  case (Cons x pre)
  then obtain b where b: "sshbuf_get_u8 (incoming_packet s) = (Inr x, b)" "holds b (pre @ rest)"
    using holds_get_u8 [of "incoming_packet s" x "pre @ rest"] by auto
  then show ?case using Cons.IH [of "s\<lparr>incoming_packet := b\<rparr>"] by (auto simp: sshpkt_get_u8_def in_op_eq(1))
qed

lemma skip_strings_ok:
  "holds (incoming_packet s) (concat (map (\<lambda>p. wire_string (bytes_of p)) ps) @ rest) \<Longrightarrow> list_all prop_ok ps \<Longrightarrow>
     \<exists>b. skip_strings env (length ps) s = (Inr (), s\<lparr>incoming_packet := b\<rparr>) \<and> holds b rest"
proof (induction ps arbitrary: s)
  case Nil
  then show ?case by (intro exI [of _ "incoming_packet s"]) simp
next
  case (Cons p ps)
  let ?rest = "concat (map (\<lambda>p. wire_string (bytes_of p)) ps) @ rest"
  have "sshbuf_inv (incoming_packet s)" "sshbuf_bytes (incoming_packet s) = wire_string (bytes_of p) @ ?rest"
    using Cons.prems(1) by (simp_all only: holds_def list.map concat.simps append_assoc)
  moreover have "length (bytes_of p) \<le> SSHBUF_SIZE_MAX - 4"
    using Cons.prems(2) by (simp add: prop_ok_def)
  ultimately have "parsed (incoming_packet s) (bytes_of p) ?rest (sshbuf_get_string (e_alloc env) (incoming_packet s) False)"
    by (rule sshbuf_get_string_ok) simp
  from parsed_holds [OF Cons.prems(1) this] obtain b where
    "sshbuf_get_string (e_alloc env) (incoming_packet s) False = (Inr (bytes_of p), b)" "holds b ?rest"
    by (elim exE conjE)
  then show ?case using Cons.IH [of "s\<lparr>incoming_packet := b\<rparr>"] Cons.prems(2)
    by (simp add: sshpkt_get_string_def in_op_eq(1))
qed

text \<open>
  C18. A well-formed \<open>KEXINIT\<close> reaches the negotiation: when this side has sent its own, the handler
  reads the packet to its end, stores it as the peer's proposal, blocks further \<open>KEXINIT\<close> packets,
  and does what \<open>kex_choose_conf\<close> decides on exactly the ten lists of the packet: it fails with its
  error, or starts the chosen exchange method, with the next packet to be skipped when the peer
  guessed the method wrong.
\<close>

theorem kexinit_negotiates:
  assumes "\<And>n. malloc_ok (e_alloc env) n" and "ssh_kex s = Some k" and "holds (kex_peer k) []"
    and "kex_flags k AND KEX_INIT_SENT \<noteq> 0"
    and "holds (incoming_packet s) (kexinit_bytes cookie ps follows reserved)"
    and "length cookie = KEX_COOKIE_LEN" and "length ps = PROPOSAL_MAX" and "list_all prop_ok ps"
  shows "\<exists>b t. kex_buf2prop (e_alloc env) b = Inr (follows, ps) \<and>
    dispatch t = (dispatch s)(unat SSH2_MSG_KEXINIT := None) \<and> sshbuf_len (incoming_packet t) = 0 \<and>
    kex_input_kexinit env methods s =
      (case kex_choose_conf (e_md env) (e_alloc env) (ssh_compat s) (k\<lparr>kex_peer := b\<rparr>) of
         (Inl r, k') \<Rightarrow> (Inl r, t\<lparr>ssh_kex := Some k'\<rparr>)
       | (Inr skip, k') \<Rightarrow>
           let t = t\<lparr>ssh_kex := Some k', dispatch_skip_packets := (if skip then 1 else dispatch_skip_packets s)\<rparr> in
           case methods (kex_type k') of None \<Rightarrow> (Inl SSH_ERR_INTERNAL_ERROR, t) | Some start \<Rightarrow> start t)"
proof -
  let ?w = "kexinit_bytes cookie ps follows reserved"
  have max: "length ?w \<le> SSHBUF_SIZE_MAX" by (rule holds_max [OF assms(5)])
  obtain b where b: "sshbuf_put (e_alloc env) (kex_peer k) ?w = (Inr (), b)" "holds b ?w"
    using holds_put [OF assms(1,3), of ?w] max by auto
  have peer: "kex_buf2prop (e_alloc env) b = Inr (follows, ps)"
    using kex_buf2prop_ok [OF assms(1), of b cookie ps follows reserved "[]"] b(2) assms(6-8) by (auto simp: holds_def)
  define s1 where "s1 = update_kex (\<lambda>k. k\<lparr>kex_peer := b\<rparr>) (ssh_dispatch_set s SSH2_MSG_KEXINIT None)"
  have s1: "holds (incoming_packet s1) (cookie @ concat (map (\<lambda>p. wire_string (bytes_of p)) ps) @ follows # POKE_U32 reserved @ [])"
    using assms(5) by (simp add: s1_def update_kex_def ssh_dispatch_set_def kexinit_bytes_def)
  obtain b1 where b1: "skip_bytes KEX_COOKIE_LEN s1 = (Inr (), s1\<lparr>incoming_packet := b1\<rparr>)"
      "holds b1 (concat (map (\<lambda>p. wire_string (bytes_of p)) ps) @ follows # POKE_U32 reserved @ [])"
    using skip_bytes_ok [OF s1] assms(6) by auto
  obtain b2 where b2: "skip_strings env PROPOSAL_MAX (s1\<lparr>incoming_packet := b1\<rparr>) = (Inr (), s1\<lparr>incoming_packet := b2\<rparr>)"
      "holds b2 (follows # POKE_U32 reserved @ [])"
    using skip_strings_ok [of "s1\<lparr>incoming_packet := b1\<rparr>" ps _ env] b1(2) assms(7,8) by auto
  obtain b3 where b3: "sshbuf_get_u8 b2 = (Inr follows, b3)" "holds b3 (POKE_U32 reserved @ [])"
    using holds_get_u8 [OF b2(2)] by blast
  obtain b4 where b4: "sshbuf_get_u32 b3 = (Inr reserved, b4)" "holds b4 []"
    using parsed_holds [OF b3(2) sshbuf_get_ints_ok(2) [of b3 reserved "[]"]] b3(2) by (auto simp: holds_def)
  define t where "t = s1\<lparr>incoming_packet := b4\<rparr>"
  have t: "ssh_kex t = Some (k\<lparr>kex_peer := b\<rparr>)" "dispatch t = (dispatch s)(unat SSH2_MSG_KEXINIT := None)"
    "incoming_packet t = b4" "ssh_compat t = ssh_compat s" "dispatch_skip_packets t = dispatch_skip_packets s"
    by (simp_all add: t_def s1_def update_kex_def ssh_dispatch_set_def assms(2))
  have "sshpkt_ptr (ssh_dispatch_set s SSH2_MSG_KEXINIT None) = ?w"
    using holds_bytes [OF assms(5)] by (simp add: sshpkt_ptr_def ssh_dispatch_set_def)
  then have "kex_input_kexinit env methods s =
      rbind (choose_conf env t) (\<lambda>_ s. case methods (kex_type (the (ssh_kex s))) of
        None \<Rightarrow> (Inl SSH_ERR_INTERNAL_ERROR, s) | Some start \<Rightarrow> start s)"
    using b(1) b1(1) b2(1) b3(1) b4 assms(2,4) t holds_len [OF b4(2)]
    by (simp add: kex_input_kexinit_def Let_def sshpkt_get_u8_def sshpkt_get_u32_def sshpkt_get_end_def in_op_eq(1)
        flip: s1_def) (simp add: t_def)
  note handled = this
  obtain c k' where c: "kex_choose_conf (e_md env) (e_alloc env) (ssh_compat s) (k\<lparr>kex_peer := b\<rparr>) = (c, k')"
    by (cases "kex_choose_conf (e_md env) (e_alloc env) (ssh_compat s) (k\<lparr>kex_peer := b\<rparr>)")
  show ?thesis
    using peer t holds_len [OF b4(2)] c
    by (intro exI [of _ b] exI [of _ t], cases c) (simp_all add: handled choose_conf_def update_kex_def Let_def split: option.split)
qed

theorem kexinit_negotiates_witness:
  "\<exists>b w. sshbuf_put plenty new_buf (kexinit_bytes (replicate 16 0) (replicate 10 ''none'') 0 0) = (Inr (), b) \<and>
     kex_input_kexinit sample_env (\<lambda>_. None) (sample_ssh\<lparr>incoming_packet := b,
       ssh_kex := Some ((kex_zeroed sample_my new_buf)\<lparr>kex_flags := KEX_INIT_SENT\<rparr>)\<rparr>) = w \<and>
     dispatch (snd w) (unat SSH2_MSG_KEXINIT) = None"
proof -
  let ?w = "kexinit_bytes (replicate 16 0) (replicate 10 ''none'') 0 0"
  let ?k = "(kex_zeroed sample_my new_buf)\<lparr>kex_flags := KEX_INIT_SENT\<rparr> :: (string \<times> bytes, unit) kex"
  have "length ?w = 101" by (simp add: kexinit_bytes_def length_concat sum_list_replicate)
  then obtain b where b: "sshbuf_put plenty new_buf ?w = (Inr (), b)" "holds b ?w"
    using holds_put [OF plenty_ok new_buf_holds, of ?w] by (auto simp: SSHBUF_SIZE_MAX_def)
  let ?s = "sample_ssh\<lparr>incoming_packet := b, ssh_kex := Some ?k\<rparr>"
  have "\<exists>p t. kex_buf2prop (e_alloc sample_env) p = Inr (0, replicate 10 ''none'') \<and>
      dispatch t = (dispatch ?s)(unat SSH2_MSG_KEXINIT := None) \<and> sshbuf_len (incoming_packet t) = 0 \<and>
      kex_input_kexinit sample_env (\<lambda>_. None) ?s =
        (case kex_choose_conf (e_md sample_env) (e_alloc sample_env) (ssh_compat ?s) (?k\<lparr>kex_peer := p\<rparr>) of
           (Inl r, k') \<Rightarrow> (Inl r, t\<lparr>ssh_kex := Some k'\<rparr>)
         | (Inr skip, k') \<Rightarrow>
             let t = t\<lparr>ssh_kex := Some k', dispatch_skip_packets := (if skip then 1 else dispatch_skip_packets ?s)\<rparr> in
             case None of None \<Rightarrow> (Inl SSH_ERR_INTERNAL_ERROR, t) | Some start \<Rightarrow> start t)"
    by (rule kexinit_negotiates [where cookie = "replicate 16 0" and reserved = 0])
      (use b in \<open>simp_all add: plenty_ok kex_zeroed_def KEX_INIT_SENT_def KEX_COOKIE_LEN_def PROPOSAL_MAX_def list_all_iff prop_ok_def SSHBUF_SIZE_MAX_def\<close>)
  then obtain q t where t: "dispatch t = (dispatch ?s)(unat SSH2_MSG_KEXINIT := None)"
    and r: "kex_input_kexinit sample_env (\<lambda>_. None) ?s =
        (case kex_choose_conf (e_md sample_env) (e_alloc sample_env) (ssh_compat ?s) (?k\<lparr>kex_peer := q\<rparr>) of
           (Inl r, k') \<Rightarrow> (Inl r, t\<lparr>ssh_kex := Some k'\<rparr>)
         | (Inr skip, k') \<Rightarrow>
             let t = t\<lparr>ssh_kex := Some k', dispatch_skip_packets := (if skip then 1 else dispatch_skip_packets ?s)\<rparr> in
             case None of None \<Rightarrow> (Inl SSH_ERR_INTERNAL_ERROR, t) | Some start \<Rightarrow> start t)"
    by (elim exE conjE)
  obtain c k' where "kex_choose_conf (e_md sample_env) (e_alloc sample_env) (ssh_compat ?s) (?k\<lparr>kex_peer := q\<rparr>) = (c, k')"
    by (cases "kex_choose_conf (e_md sample_env) (e_alloc sample_env) (ssh_compat ?s) (?k\<lparr>kex_peer := q\<rparr>)")
  then have "dispatch (snd (kex_input_kexinit sample_env (\<lambda>_. None) ?s)) (unat SSH2_MSG_KEXINIT) = None"
    using t by (cases c) (simp_all add: r Let_def)
  then show ?thesis using b(1) by blast
qed

end
