(* ===== verification/Spec2Isabelle.thy ===== *)
theory Spec2Isabelle
  imports Sshbuf_Refs Bitmap Chan_Link Auth2_Inv Kexmsg
begin

text \<open>
  A verification development for the InterMAC fork of OpenSSH portable. Source files are named as
  under \<open>src/\<close>.

  \<^bold>\<open>The program.\<close> Everything travels in byte buffers (\<open>sshbuf*.c\<close>). The packet layer (\<open>packet.c\<close>) turns
  messages into encrypted and authenticated packets and back; it uses the cipher layer (\<open>cipher.c\<close>,
  \<open>cipher-chachapoly.c\<close>, and the InterMAC library of this fork) and the MAC layer (\<open>mac.c\<close>, \<open>hmac.c\<close>,
  \<open>digest-openssl.c\<close>). The key exchange (\<open>kex.c\<close>, \<open>dh.c\<close>, with the names of keys in \<open>sshkey.c\<close>) negotiates
  the algorithms and derives the keys; its messages reach it through the dispatch table
  (\<open>dispatch.c\<close>). On top, the server authenticates the user (\<open>auth2*.c\<close>, \<open>auth.c\<close>), which uses the
  pattern and address matching of \<open>match.c\<close> and \<open>addrmatch.c\<close>, and channels (\<open>channels.c\<close>, \<open>nchan.c\<close>)
  carry the data of sessions and forwardings. \<open>bitmap.c\<close> holds revoked serial numbers.

  \<^bold>\<open>Conventions.\<close> A function that fails after changing its object returns an \<open>outcome\<close>: the error or
  the value, with the object as the call leaves it; \<open>rbind\<close> is the code's
  \<open>if ((r = f(..)) != 0) return r\<close>. Error codes are the datatype \<open>ssherr\<close>. In \<open>channels.c\<close> and the
  authentication code, which end the process on errors, the error is \<open>Fatal\<close> (\<open>fatal\<close>) or \<open>Disconnect\<close>
  (\<open>packet_disconnect\<close>). \<open>size_t\<close> is \<open>nat\<close> with the wrap-around at \<open>2^64\<close> written out, integers of fixed
  width are words, \<open>int\<close> is \<open>int\<close> where the code checks its range. Structures are records with the
  names of their members; where names would clash they carry a prefix (\<open>ch_\<close> for \<open>struct Channel\<close>, \<open>ac_\<close>
  for \<open>Authctxt\<close>). Messages sent and system calls made are a log in the state of the component.

  \<^bold>\<open>Theories.\<close>

  \<^item> \<open>Prelude\<close>: outcomes, \<open>size_t\<close>, memory blocks, big-endian accessors, and the locale
    \<open>transition_invariant\<close> (a step relation with an invariant), interpreted by \<open>Nchan\<close>, \<open>Channels\<close>,
    \<open>Chan_Select\<close> and \<open>Chan_Link\<close>.
  \<^item> \<open>Ssherr\<close> (\<open>ssherr.h\<close>, \<open>ssherr.c\<close>): the error codes.
  \<^item> \<open>Sshbuf\<close>, \<open>Sshbuf_Getput\<close>, \<open>Sshbuf_Refs\<close> (\<open>sshbuf.c\<close>, \<open>sshbuf-getput-basic.c\<close>, \<open>sshbuf-misc.c\<close>): the
    record \<open>sshbuf\<close> has the members of \<open>struct sshbuf\<close>. The operations keep the well-formedness
    invariant, implement a queue of bytes (locale \<open>byte_fifo\<close>), read back what the writers wrote, and
    freeing a tree of child buffers ends.
  \<^item> \<open>Match\<close>, \<open>Addrmatch\<close> (\<open>match.c\<close>, \<open>addrmatch.c\<close>): \<open>match_pattern\<close> against the language of wildcard
    patterns, lists with negated entries (locale \<open>negatable_list\<close>), addresses and masks against their
    prefixes of bits.
  \<^item> \<open>Bitmap\<close> (\<open>bitmap.c\<close>): a bit vector implements a finite set (locale \<open>bit_set\<close>).
  \<^item> \<open>Chachapoly\<close> (\<open>chacha.c\<close>, \<open>poly1305.c\<close>, \<open>cipher-chachapoly.c\<close>): decryption inverts encryption, a packet
    with a wrong tag is refused; the limb arithmetic of Poly1305 computes modulo \<open>2^130 - 5\<close>.
  \<^item> \<open>Alglist\<close>, \<open>Cipher\<close>, \<open>Mac\<close>, \<open>Sshkey_Names\<close>, \<open>Dh\<close> (\<open>cipher.c\<close>, \<open>mac.c\<close>, \<open>hmac.c\<close>, \<open>digest-openssl.c\<close>, \<open>sshkey.c\<close>,
    \<open>dh.c\<close>): the tables of algorithms and their list checks (locale \<open>name_checker\<close>), context set-up,
    HMAC against RFC 2104, the fixed groups and the checks on public values.
  \<^item> \<open>Kex\<close>, \<open>Kexmsg\<close> (\<open>kex.c\<close>, \<open>dispatch.c\<close>): proposals and their wire format, negotiation (both sides agree
    on algorithms and keys), derivation of keys against RFC 4253, the handlers of KEXINIT, NEWKEYS
    and EXT_INFO and the dispatch loop; a new exchange is never started silently.
  \<^item> \<open>Packet_State\<close>, \<open>Packet_Send\<close>, \<open>Packet_Recv\<close> (\<open>packet.c\<close>): the record \<open>ssh\<close> holds \<open>struct session_state\<close>
    and the members of \<open>struct ssh\<close>. A stream of messages sent by one side is received by the other
    message for message (locale \<open>aead_link\<close>, interpreted by \<open>chachapoly_crypt\<close>); packets held back during
    a rekeying keep their order. What handlers of other components may do to the session is stated
    by the locales \<open>session_view\<close>, \<open>packet_view\<close> and \<open>transport_view\<close>.
  \<^item> \<open>Nchan\<close> (\<open>nchan.c\<close>): the half-close state machines for protocols 1.5 and 2, as handlers and as a step
    relation; EOF and CLOSE are sent once and in order, a dead channel has completed the handshake,
    and the handshake can always be completed.
  \<^item> \<open>Chan_IO\<close>, \<open>Chan_Flow\<close>, \<open>Chan_Link\<close> (\<open>channels.c\<close>): data through one channel, and two ends joined by a
    reliable connection: windows are respected and conserved, no message of a peer ends the process,
    what one end writes is a prefix of what the other read, and CLOSE is the last message.
  \<^item> \<open>Channels\<close>, \<open>Chan_Fwd\<close>, \<open>Chan_Handlers\<close>, \<open>Chan_Select\<close>, \<open>Chan_Mux\<close> (\<open>channels.c\<close>): the table of channels and
    the handlers of messages, forwarding permissions, X11 and SOCKS, the loop around \<open>select\<close>, and
    the proxy for multiplexing clients. The table stays consistent, the sets of descriptors are large
    enough, permissions are those configured, channel numbers are translated back and forth.
  \<^item> \<open>Auth2\<close>, \<open>Auth2_Inv\<close> (\<open>auth2.c\<close>, \<open>auth2-*.c\<close>, \<open>auth.c\<close>, \<open>auth-passwd.c\<close>, \<open>groupaccess.c\<close>): the dialogue of the
    server with its five methods, and \<open>AuthenticationMethods\<close>. Invariants of the dialogue are
    interpretations of the locale \<open>auth_invariant\<close>: success is exactly what the configured lists ask
    for, guesses are bounded, keys are not used twice.

  \<^bold>\<open>Parameters.\<close> The allocator (which requests succeed, what new memory contains); OpenSSL digests,
  ciphers and big-number exponentiation; the InterMAC library; UMAC; zlib; random numbers, the clock
  and the resolver; results of \<open>read\<close>, \<open>write\<close>, \<open>accept\<close> and \<open>connect\<close>; the password file, shells and groups;
  checks of passwords, authorized keys, hosts and signatures; keyboard-interactive devices; handlers
  and callbacks of components that are not modelled. What the code relies on is a hypothesis of the
  theorems that need it, and each such theorem has a witness with concrete functions. Running out of
  memory in \<open>channels.c\<close> and the authentication code ends the process and is not a case of its own.

  \<^bold>\<open>Bounds and fuel.\<close> Loops that end are total functions, by structural recursion or with a measure.
  The loops around zlib have \<open>zfuel\<close> passes, one for every byte of input and of a full buffer; more do
  not change the result (\<open>zfuel_enough\<close>). \<open>discard_fill\<close> has as many passes as bytes are to be filled, and
  each fills 1024. The loops that run for as long as the peer sends (\<open>ssh_packet_read_poll_seqnr\<close>,
  \<open>ssh_dispatch_run\<close>) have a bound on the number of packets of one call, and reaching it is a value of
  its own.

  \<^bold>\<open>Not modelled.\<close> Protocol 1 packets (\<open>WITH_SSH1\<close> is unset; the protocol 1 branches of channels are
  modelled); key material, certificates and revocation lists, which work on OpenSSL objects; the
  exchange methods themselves; configuration parsing; client authentication; the files of authorized
  keys and known hosts; PAM, GSSAPI and Kerberos; sessions, event loops, privilege separation and
  the programs, which are process, terminal and socket handling; file transfer; opening listening
  and connecting sockets; export of the session state between processes; UMAC; the replacements for
  libc functions.
\<close>

end
